(* ===== verification/Prelude.thy ===== *)
theory Prelude
  imports Main "HOL-Library.Word" "HOL-Library.Monad_Syntax"
begin

text \<open>
  Shared vocabulary of the development: the code-unit types of WTF
  (\<open>src/Source/WTF/wtf/unicode/Unicode.h\<close>), names for the characters the HTML parser tests for,
  the ASCII classification functions of \<open>src/Source/WTF/wtf/ASCIICType.h\<close>, the debug
  assertion \<open>ASSERT\<close> as an optional result, and the lemma collections the component theories
  add to.

  A function of the parser that asserts something or dereferences a pointer returns an
  \<open>option\<close>: \<open>None\<close> says that an \<open>ASSERT\<close> of the source fails, or that a null or
  out-of-range pointer is read. A theorem that such a function returns \<open>Some\<close> is a safety
  theorem about the code.
\<close>

unbundle bit_operations_syntax

section \<open>Code units\<close>

type_synonym LChar = "8 word"
type_synonym UChar = "16 word"
type_synonym UChar32 = "32 word"

abbreviation chTab :: UChar where "chTab \<equiv> 0x09"
abbreviation chLF :: UChar where "chLF \<equiv> 0x0A"
abbreviation chFF :: UChar where "chFF \<equiv> 0x0C"
abbreviation chCR :: UChar where "chCR \<equiv> 0x0D"
abbreviation chSpace :: UChar where "chSpace \<equiv> 0x20"
abbreviation chBang :: UChar where "chBang \<equiv> 0x21"
abbreviation chQuot :: UChar where "chQuot \<equiv> 0x22"
abbreviation chHash :: UChar where "chHash \<equiv> 0x23"
abbreviation chAmp :: UChar where "chAmp \<equiv> 0x26"
abbreviation chApos :: UChar where "chApos \<equiv> 0x27"
abbreviation chDash :: UChar where "chDash \<equiv> 0x2D"
abbreviation chSlash :: UChar where "chSlash \<equiv> 0x2F"
abbreviation chSemi :: UChar where "chSemi \<equiv> 0x3B"
abbreviation chLess :: UChar where "chLess \<equiv> 0x3C"
abbreviation chEqual :: UChar where "chEqual \<equiv> 0x3D"
abbreviation chGreater :: UChar where "chGreater \<equiv> 0x3E"
abbreviation chQuest :: UChar where "chQuest \<equiv> 0x3F"
abbreviation chBracket :: UChar where "chBracket \<equiv> 0x5B"
abbreviation chUnbracket :: UChar where "chUnbracket \<equiv> 0x5D"
abbreviation chGrave :: UChar where "chGrave \<equiv> 0x60"

text \<open>A narrow literal of the source, as the code units it denotes.\<close>

definition lit :: "string \<Rightarrow> UChar list" where
  "lit s = map of_char s"

section \<open>ASCII classification (ASCIICType.h)\<close>

definition isASCIIUpper :: "UChar \<Rightarrow> bool" where
  "isASCIIUpper c \<longleftrightarrow> c \<ge> 0x41 \<and> c \<le> 0x5A"

definition isASCIILower :: "UChar \<Rightarrow> bool" where
  "isASCIILower c \<longleftrightarrow> c \<ge> 0x61 \<and> c \<le> 0x7A"

definition isASCIIDigit :: "UChar \<Rightarrow> bool" where
  "isASCIIDigit c \<longleftrightarrow> c \<ge> 0x30 \<and> c \<le> 0x39"

section \<open>Assertions\<close>

definition ASSERT :: "bool \<Rightarrow> unit option" where
  "ASSERT b = (if b then Some () else None)"

lemma ASSERT_simps [simp]:
  "ASSERT True = Some ()" "ASSERT False = None"
  by (simp_all add: ASSERT_def)

lemma ASSERT_bind [simp]: "Option.bind (ASSERT b) f = (if b then f () else None)"
  by (simp add: ASSERT_def)

section \<open>Lemma collections\<close>

named_theorems seg_defs \<open>definitions of the character stream\<close>
named_theorems tok_ops \<open>definitions of the token operations\<close>

section \<open>Generic facts\<close>

lemma drop_eq_nth_Cons: "i < length xs \<Longrightarrow> drop i xs = xs ! i # drop (Suc i) xs"
  by (simp add: Cons_nth_drop_Suc)

lemma find_SomeD: "List.find P xs = Some x \<Longrightarrow> x \<in> set xs \<and> P x"
  by (induction xs) (auto split: if_splits)

end
