(* ===== verification/Segmented_String.thy ===== *)
theory Segmented_String
  imports Prelude
begin

text \<open>
  The character stream the HTML tokenizer reads:
  \<open>src/Source/WebCore/platform/text/SegmentedString.h\<close> and \<open>SegmentedString.cpp\<close>.

  A \<open>SegmentedString\<close> is a queue of code units made of up to two pushed-back characters, a
  current substring with a cursor into it, and further substrings. Reading is optimised: the
  stream caches the current character, and a pair of function pointers together with fast-path
  flags select the routine that advances it. The model keeps all of these fields, the pointers as
  offsets, and every \<open>ASSERT\<close> and dereference as a failure.

  The second half proves the contract a reader relies on: an invariant that ties the cached
  character, the \<open>m_empty\<close> flag and the function pointers to the contents, kept by every
  operation, under which no assertion fails and no read is out of range, and under which
  the operations refine a plain queue of characters (locale \<open>char_stream\<close>).
\<close>

section \<open>Strings\<close>

text \<open>\<open>WTF::String\<close> as the stream uses it: an 8-bit or a 16-bit buffer.\<close>

datatype WTFString = Latin1 "LChar list" | UTF16 "UChar list"

fun string_is8Bit :: "WTFString \<Rightarrow> bool" where
  "string_is8Bit (Latin1 cs) = True"
| "string_is8Bit (UTF16 cs) = False"

fun characters :: "WTFString \<Rightarrow> UChar list" where
  "characters (Latin1 cs) = map ucast cs"
| "characters (UTF16 cs) = cs"

abbreviation string_length :: "WTFString \<Rightarrow> nat" where
  "string_length s \<equiv> length (characters s)"

text \<open>\<open>StringBuilder\<close> stays in the 8-bit representation until a wider unit is appended.\<close>

definition StringBuilder_toString :: "UChar list \<Rightarrow> WTFString" where
  "StringBuilder_toString cs =
     (if list_all (\<lambda>c. c \<le> 0xFF) cs then Latin1 (map ucast cs) else UTF16 cs)"

text \<open>
  \<open>String::startsWith(string, caseSensitive)\<close>; the caseless branch is
  \<open>reverseFindIgnoringCase(str, 0) == 0\<close>, which compares the first units by \<open>foldCase\<close>.
  Case folding itself is ICU's, so it is a parameter.
\<close>

definition string_startsWith :: "(UChar32 \<Rightarrow> UChar32) \<Rightarrow> UChar list \<Rightarrow> UChar list \<Rightarrow> bool \<Rightarrow> bool" where
  "string_startsWith foldCase s match caseSensitive =
     (if length match > length s then False
      else if caseSensitive then take (length match) s = match
      else list_all2 (\<lambda>a b. foldCase (ucast a) = foldCase (ucast b)) (take (length match) s) match)"

section \<open>SegmentedSubstring\<close>

record SegmentedSubstring =
  sub_data :: "nat option"   \<comment> \<open>\<open>m_data\<close>: the cursor as an offset, \<open>None\<close> the null pointer\<close>
  sub_length :: int          \<comment> \<open>\<open>m_length\<close>: characters left\<close>
  sub_doNotExcludeLineNumbers :: bool
  sub_is8Bit :: bool
  sub_string :: WTFString

definition emptySubstring :: SegmentedSubstring where
  "emptySubstring = \<lparr>sub_data = None, sub_length = 0, sub_doNotExcludeLineNumbers = True,
     sub_is8Bit = False, sub_string = UTF16 []\<rparr>"

definition makeSubstring :: "WTFString \<Rightarrow> SegmentedSubstring" where
  "makeSubstring str = \<lparr>sub_data = (if string_length str \<noteq> 0 then Some 0 else None),
     sub_length = int (string_length str), sub_doNotExcludeLineNumbers = True,
     sub_is8Bit = (string_length str \<noteq> 0 \<and> string_is8Bit str), sub_string = str\<rparr>"

definition sub_clear :: "SegmentedSubstring \<Rightarrow> SegmentedSubstring" where
  "sub_clear s = s\<lparr>sub_length := 0, sub_data := None, sub_is8Bit := False\<rparr>"

definition sub_setExcludeLineNumbers :: "SegmentedSubstring \<Rightarrow> SegmentedSubstring" where
  "sub_setExcludeLineNumbers s = s\<lparr>sub_doNotExcludeLineNumbers := False\<rparr>"

definition sub_numberOfCharactersConsumed :: "SegmentedSubstring \<Rightarrow> int" where
  "sub_numberOfCharactersConsumed s = int (string_length (sub_string s)) - sub_length s"

text \<open>\<open>m_string.substring(offset, n)\<close>, and what \<open>appendTo\<close> adds to a builder.\<close>

definition currentSubString :: "SegmentedSubstring \<Rightarrow> nat \<Rightarrow> UChar list" where
  "currentSubString s n =
     take n (drop (nat (sub_numberOfCharactersConsumed s)) (characters (sub_string s)))"

definition sub_appendTo :: "SegmentedSubstring \<Rightarrow> UChar list" where
  "sub_appendTo s =
     (if sub_numberOfCharactersConsumed s = 0
      then (if sub_length s \<noteq> 0 then characters (sub_string s) else [])
      else currentSubString s (nat (sub_length s)))"

text \<open>Dereferencing the cursor: a null or out-of-range read, or a read at the wrong width, fails.\<close>

definition read8 :: "WTFString \<Rightarrow> nat \<Rightarrow> UChar option" where
  "read8 str i = (case str of Latin1 cs \<Rightarrow> if i < length cs then Some (ucast (cs ! i)) else None
                            | UTF16 cs \<Rightarrow> None)"

definition read16 :: "WTFString \<Rightarrow> nat \<Rightarrow> UChar option" where
  "read16 str i = (case str of UTF16 cs \<Rightarrow> if i < length cs then Some (cs ! i) else None
                             | Latin1 cs \<Rightarrow> None)"

definition getCurrentChar8 :: "SegmentedSubstring \<Rightarrow> UChar option" where
  "getCurrentChar8 s = (case sub_data s of None \<Rightarrow> None | Some i \<Rightarrow> read8 (sub_string s) i)"

definition getCurrentChar16 :: "SegmentedSubstring \<Rightarrow> UChar option" where
  "getCurrentChar16 s = (case sub_data s of None \<Rightarrow> Some 0 | Some i \<Rightarrow> read16 (sub_string s) i)"

definition incrementAndGetCurrentChar8 :: "SegmentedSubstring \<Rightarrow> (UChar \<times> SegmentedSubstring) option" where
  "incrementAndGetCurrentChar8 s = (case sub_data s of None \<Rightarrow> None
     | Some i \<Rightarrow> do { c \<leftarrow> read8 (sub_string s) (Suc i); Some (c, s\<lparr>sub_data := Some (Suc i)\<rparr>) })"

definition incrementAndGetCurrentChar16 :: "SegmentedSubstring \<Rightarrow> (UChar \<times> SegmentedSubstring) option" where
  "incrementAndGetCurrentChar16 s = (case sub_data s of None \<Rightarrow> None
     | Some i \<Rightarrow> do { c \<leftarrow> read16 (sub_string s) (Suc i); Some (c, s\<lparr>sub_data := Some (Suc i)\<rparr>) })"

definition sub_getCurrentChar :: "SegmentedSubstring \<Rightarrow> UChar option" where
  "sub_getCurrentChar s = do {
     ASSERT (sub_length s \<noteq> 0);
     if sub_is8Bit s then getCurrentChar8 s else getCurrentChar16 s }"

definition incrementAndGetCurrentChar :: "SegmentedSubstring \<Rightarrow> (UChar \<times> SegmentedSubstring) option" where
  "incrementAndGetCurrentChar s = do {
     ASSERT (sub_length s \<noteq> 0);
     if sub_is8Bit s then incrementAndGetCurrentChar8 s else incrementAndGetCurrentChar16 s }"

section \<open>SegmentedString: state\<close>

datatype advance_routine = advanceEmpty | advance8 | advance16 | advanceSlowCase
  | advanceAndUpdateLineNumber8 | advanceAndUpdateLineNumber16 | advanceAndUpdateLineNumberSlowCase

datatype LookAheadResult = DidNotMatch | DidMatch | NotEnoughCharacters

abbreviation NoFastPath :: "8 word" where "NoFastPath \<equiv> 0"
abbreviation Use8BitAdvanceAndUpdateLineNumbers :: "8 word" where
  "Use8BitAdvanceAndUpdateLineNumbers \<equiv> 1"
abbreviation Use8BitAdvance :: "8 word" where "Use8BitAdvance \<equiv> 2"

record SegmentedString =
  seg_pushedChar1 :: UChar
  seg_pushedChar2 :: UChar
  seg_currentString :: SegmentedSubstring
  seg_currentChar :: UChar
  seg_consumedPriorToCurrentString :: int
  seg_consumedPriorToCurrentLine :: int
  seg_currentLine :: int
  seg_substrings :: "SegmentedSubstring list"
  seg_closed :: bool
  seg_empty :: bool
  seg_fastPathFlags :: "8 word"
  seg_advanceFunc :: advance_routine
  seg_advanceAndUpdateLineNumberFunc :: advance_routine

definition emptySegmentedString :: SegmentedString where
  "emptySegmentedString = \<lparr>seg_pushedChar1 = 0, seg_pushedChar2 = 0,
     seg_currentString = emptySubstring, seg_currentChar = 0,
     seg_consumedPriorToCurrentString = 0, seg_consumedPriorToCurrentLine = 0,
     seg_currentLine = 0, seg_substrings = [], seg_closed = False, seg_empty = True,
     seg_fastPathFlags = NoFastPath, seg_advanceFunc = advanceEmpty,
     seg_advanceAndUpdateLineNumberFunc = advanceEmpty\<rparr>"

definition isComposite :: "SegmentedString \<Rightarrow> bool" where
  "isComposite s \<longleftrightarrow> seg_substrings s \<noteq> []"

definition escaped :: "SegmentedString \<Rightarrow> bool" where
  "escaped s \<longleftrightarrow> seg_pushedChar1 s \<noteq> 0"

definition updateSlowCaseFunctionPointers :: "SegmentedString \<Rightarrow> SegmentedString" where
  "updateSlowCaseFunctionPointers s = s\<lparr>seg_fastPathFlags := NoFastPath,
     seg_advanceFunc := advanceSlowCase,
     seg_advanceAndUpdateLineNumberFunc := advanceAndUpdateLineNumberSlowCase\<rparr>"

definition setAdvanceEmpty :: "SegmentedString \<Rightarrow> SegmentedString" where
  "setAdvanceEmpty s = s\<lparr>seg_fastPathFlags := NoFastPath, seg_advanceFunc := advanceEmpty,
     seg_advanceAndUpdateLineNumberFunc := advanceEmpty\<rparr>"

definition updateAdvanceFunctionPointers :: "SegmentedString \<Rightarrow> SegmentedString" where
  "updateAdvanceFunctionPointers s =
     (let cur = seg_currentString s in
      if sub_length cur > 1 \<and> seg_pushedChar1 s = 0 then
        if sub_is8Bit cur then
          let s1 = s\<lparr>seg_advanceFunc := advance8, seg_fastPathFlags := Use8BitAdvance\<rparr> in
          if sub_doNotExcludeLineNumbers cur then
            s1\<lparr>seg_advanceAndUpdateLineNumberFunc := advanceAndUpdateLineNumber8,
               seg_fastPathFlags := seg_fastPathFlags s1 OR Use8BitAdvanceAndUpdateLineNumbers\<rparr>
          else s1\<lparr>seg_advanceAndUpdateLineNumberFunc := advance8\<rparr>
        else
          let s1 = s\<lparr>seg_advanceFunc := advance16, seg_fastPathFlags := NoFastPath\<rparr> in
          if sub_doNotExcludeLineNumbers cur then
            s1\<lparr>seg_advanceAndUpdateLineNumberFunc := advanceAndUpdateLineNumber16\<rparr>
          else s1\<lparr>seg_advanceAndUpdateLineNumberFunc := advance16\<rparr>
      else
        updateSlowCaseFunctionPointers
          (if sub_length cur = 0 \<and> \<not> isComposite s then setAdvanceEmpty s else s))"

section \<open>SegmentedString: operations\<close>

text \<open>\<open>m_currentString.m_length ? m_currentString.getCurrentChar() : 0\<close>\<close>

definition charOfCurrentString :: "SegmentedString \<Rightarrow> UChar option" where
  "charOfCurrentString s =
     (if sub_length (seg_currentString s) \<noteq> 0 then sub_getCurrentChar (seg_currentString s)
      else Some 0)"

definition makeSegmentedString :: "WTFString \<Rightarrow> SegmentedString option" where
  "makeSegmentedString str = do {
     let s = emptySegmentedString\<lparr>seg_currentString := makeSubstring str,
                                  seg_empty := (string_length str = 0)\<rparr>;
     c \<leftarrow> charOfCurrentString s;
     Some (updateAdvanceFunctionPointers (s\<lparr>seg_currentChar := c\<rparr>)) }"

text \<open>The copy constructor; assignment does the same to the left-hand side.\<close>

definition copySegmentedString :: "SegmentedString \<Rightarrow> SegmentedString option" where
  "copySegmentedString other = do {
     c \<leftarrow> (if seg_pushedChar2 other \<noteq> 0 then Some (seg_pushedChar2 other)
          else if seg_pushedChar1 other \<noteq> 0 then Some (seg_pushedChar1 other)
          else charOfCurrentString other);
     Some (other\<lparr>seg_currentChar := c\<rparr>) }"

definition assignSegmentedString :: "SegmentedString \<Rightarrow> SegmentedString \<Rightarrow> SegmentedString option" where
  "assignSegmentedString this other = do {
     let this1 = this\<lparr>seg_pushedChar1 := seg_pushedChar1 other,
       seg_pushedChar2 := seg_pushedChar2 other,
       seg_currentString := seg_currentString other,
       seg_substrings := seg_substrings other\<rparr>;
     c \<leftarrow> (if seg_pushedChar2 this1 \<noteq> 0 then Some (seg_pushedChar2 this1)
          else if seg_pushedChar1 this1 \<noteq> 0 then Some (seg_pushedChar1 this1)
          else charOfCurrentString this1);
     Some (this1\<lparr>seg_currentChar := c,
       seg_closed := seg_closed other, seg_empty := seg_empty other,
       seg_fastPathFlags := seg_fastPathFlags other,
       seg_consumedPriorToCurrentString := seg_consumedPriorToCurrentString other,
       seg_consumedPriorToCurrentLine := seg_consumedPriorToCurrentLine other,
       seg_currentLine := seg_currentLine other,
       seg_advanceFunc := seg_advanceFunc other,
       seg_advanceAndUpdateLineNumberFunc := seg_advanceAndUpdateLineNumberFunc other\<rparr>) }"

definition seg_length :: "SegmentedString \<Rightarrow> int" where
  "seg_length s = sub_length (seg_currentString s)
     + (if seg_pushedChar1 s \<noteq> 0 then 1 + (if seg_pushedChar2 s \<noteq> 0 then 1 else 0) else 0)
     + sum_list (map sub_length (seg_substrings s))"

definition setExcludeLineNumbers :: "SegmentedString \<Rightarrow> SegmentedString" where
  "setExcludeLineNumbers s = s\<lparr>
     seg_currentString := sub_setExcludeLineNumbers (seg_currentString s),
     seg_substrings := map sub_setExcludeLineNumbers (seg_substrings s)\<rparr>"

definition seg_clear :: "SegmentedString \<Rightarrow> SegmentedString" where
  "seg_clear s = setAdvanceEmpty (s\<lparr>seg_pushedChar1 := 0, seg_pushedChar2 := 0,
     seg_currentChar := 0, seg_currentString := sub_clear (seg_currentString s),
     seg_consumedPriorToCurrentString := 0, seg_consumedPriorToCurrentLine := 0,
     seg_currentLine := 0, seg_substrings := [], seg_closed := False, seg_empty := True\<rparr>)"

definition seg_close :: "SegmentedString \<Rightarrow> SegmentedString option" where
  "seg_close s = do { ASSERT (\<not> seg_closed s); Some (s\<lparr>seg_closed := True\<rparr>) }"

definition seg_push :: "UChar \<Rightarrow> SegmentedString \<Rightarrow> SegmentedString option" where
  "seg_push c s =
     (if seg_pushedChar1 s = 0 then do {
        let s1 = s\<lparr>seg_pushedChar1 := c\<rparr>;
        d \<leftarrow> (if c \<noteq> 0 then Some c else sub_getCurrentChar (seg_currentString s1));
        Some (updateSlowCaseFunctionPointers (s1\<lparr>seg_currentChar := d\<rparr>)) }
      else do {
        ASSERT (seg_pushedChar2 s = 0);
        Some (s\<lparr>seg_pushedChar2 := c\<rparr>) })"

definition numberOfCharactersConsumed :: "SegmentedString \<Rightarrow> int" where
  "numberOfCharactersConsumed s =
     seg_consumedPriorToCurrentString s + sub_numberOfCharactersConsumed (seg_currentString s)
     - (if seg_pushedChar1 s \<noteq> 0 then 1 + (if seg_pushedChar2 s \<noteq> 0 then 1 else 0) else 0)"

definition append_substring :: "SegmentedSubstring \<Rightarrow> SegmentedString \<Rightarrow> SegmentedString option" where
  "append_substring sub s = do {
     ASSERT (\<not> seg_closed s);
     if sub_length sub = 0 then Some s
     else if sub_length (seg_currentString s) = 0 then
       Some ((updateAdvanceFunctionPointers (s\<lparr>
         seg_consumedPriorToCurrentString := seg_consumedPriorToCurrentString s
           + sub_numberOfCharactersConsumed (seg_currentString s),
         seg_currentString := sub\<rparr>))\<lparr>seg_empty := False\<rparr>)
     else Some (s\<lparr>seg_substrings := seg_substrings s @ [sub], seg_empty := False\<rparr>) }"

definition prepend_substring :: "SegmentedSubstring \<Rightarrow> SegmentedString \<Rightarrow> SegmentedString option" where
  "prepend_substring sub s = do {
     ASSERT (\<not> escaped s);
     ASSERT (sub_numberOfCharactersConsumed sub = 0);
     if sub_length sub = 0 then Some s
     else do {
       let prior = seg_consumedPriorToCurrentString s
         + sub_numberOfCharactersConsumed (seg_currentString s) - sub_length sub;
       let s1 = s\<lparr>seg_consumedPriorToCurrentString := prior\<rparr>;
       if sub_length (seg_currentString s) = 0 then
         Some ((updateAdvanceFunctionPointers (s1\<lparr>seg_currentString := sub\<rparr>))\<lparr>seg_empty := False\<rparr>)
       else
         Some ((updateAdvanceFunctionPointers (s1\<lparr>
           seg_substrings := seg_currentString s # seg_substrings s,
           seg_currentString := sub\<rparr>))\<lparr>seg_empty := False\<rparr>) } }"

fun append_substrings :: "SegmentedSubstring list \<Rightarrow> SegmentedString \<Rightarrow> SegmentedString option" where
  "append_substrings [] s = Some s"
| "append_substrings (x # xs) s = do { s1 \<leftarrow> append_substring x s; append_substrings xs s1 }"

fun prepend_substrings :: "SegmentedSubstring list \<Rightarrow> SegmentedString \<Rightarrow> SegmentedString option" where
  "prepend_substrings [] s = Some s"
| "prepend_substrings (x # xs) s = do { s1 \<leftarrow> prepend_substring x s; prepend_substrings xs s1 }"

definition seg_append :: "SegmentedString \<Rightarrow> SegmentedString \<Rightarrow> SegmentedString option" where
  "seg_append other s = do {
     ASSERT (\<not> seg_closed s);
     s1 \<leftarrow> (if seg_pushedChar1 other \<noteq> 0
           then append_substring (makeSubstring (UTF16 (seg_pushedChar1 other
                  # (if seg_pushedChar2 other \<noteq> 0 then [seg_pushedChar2 other] else [])))) s
           else Some s);
     s2 \<leftarrow> append_substring (seg_currentString other) s1;
     s3 \<leftarrow> append_substrings (seg_substrings other) s2;
     c \<leftarrow> (if seg_pushedChar1 s3 \<noteq> 0 then Some (seg_pushedChar1 s3) else charOfCurrentString s3);
     Some (s3\<lparr>seg_currentChar := c\<rparr>) }"

definition seg_prepend :: "SegmentedString \<Rightarrow> SegmentedString \<Rightarrow> SegmentedString option" where
  "seg_prepend other s = do {
     ASSERT (\<not> escaped s);
     ASSERT (\<not> escaped other);
     s1 \<leftarrow> prepend_substrings (rev (seg_substrings other)) s;
     s2 \<leftarrow> prepend_substring (seg_currentString other) s1;
     c \<leftarrow> charOfCurrentString s2;
     Some (s2\<lparr>seg_currentChar := c\<rparr>) }"

definition advanceSubstring :: "SegmentedString \<Rightarrow> SegmentedString" where
  "advanceSubstring s = (case seg_substrings s of
     x # xs \<Rightarrow> updateAdvanceFunctionPointers (s\<lparr>
       seg_consumedPriorToCurrentString := seg_consumedPriorToCurrentString s
         + sub_numberOfCharactersConsumed (seg_currentString s)
         - sub_numberOfCharactersConsumed x,
       seg_currentString := x, seg_substrings := xs\<rparr>)
   | [] \<Rightarrow> setAdvanceEmpty (s\<lparr>seg_currentString := sub_clear (seg_currentString s),
       seg_empty := True\<rparr>))"

definition seg_toString :: "SegmentedString \<Rightarrow> UChar list" where
  "seg_toString s =
     (if seg_pushedChar1 s \<noteq> 0
      then seg_pushedChar1 s # (if seg_pushedChar2 s \<noteq> 0 then [seg_pushedChar2 s] else [])
      else []) @ sub_appendTo (seg_currentString s) @ concat (map sub_appendTo (seg_substrings s))"

definition decrementAndCheckLength :: "SegmentedString \<Rightarrow> SegmentedString option" where
  "decrementAndCheckLength s = do {
     ASSERT (sub_length (seg_currentString s) > 1);
     let n = sub_length (seg_currentString s) - 1;
     let s1 = s\<lparr>seg_currentString := (seg_currentString s)\<lparr>sub_length := n\<rparr>\<rparr>;
     Some (if n = 1 then updateSlowCaseFunctionPointers s1 else s1) }"

definition run_advance8 :: "SegmentedString \<Rightarrow> SegmentedString option" where
  "run_advance8 s = do {
     ASSERT (seg_pushedChar1 s = 0);
     s1 \<leftarrow> decrementAndCheckLength s;
     (c, cur) \<leftarrow> incrementAndGetCurrentChar8 (seg_currentString s1);
     Some (s1\<lparr>seg_currentString := cur, seg_currentChar := c\<rparr>) }"

definition run_advance16 :: "SegmentedString \<Rightarrow> SegmentedString option" where
  "run_advance16 s = do {
     ASSERT (seg_pushedChar1 s = 0);
     s1 \<leftarrow> decrementAndCheckLength s;
     (c, cur) \<leftarrow> incrementAndGetCurrentChar16 (seg_currentString s1);
     Some (s1\<lparr>seg_currentString := cur, seg_currentChar := c\<rparr>) }"

definition countNewline :: "SegmentedString \<Rightarrow> SegmentedString" where
  "countNewline s = s\<lparr>seg_currentLine := seg_currentLine s + 1,
     seg_consumedPriorToCurrentLine := numberOfCharactersConsumed s + 1\<rparr>"

definition run_advanceAndUpdateLineNumber8 :: "SegmentedString \<Rightarrow> SegmentedString option" where
  "run_advanceAndUpdateLineNumber8 s = do {
     ASSERT (seg_pushedChar1 s = 0);
     d \<leftarrow> sub_getCurrentChar (seg_currentString s);
     ASSERT (d = seg_currentChar s);
     let s1 = (if seg_currentChar s = chLF then countNewline s else s);
     s2 \<leftarrow> decrementAndCheckLength s1;
     (c, cur) \<leftarrow> incrementAndGetCurrentChar8 (seg_currentString s2);
     Some (s2\<lparr>seg_currentString := cur, seg_currentChar := c\<rparr>) }"

definition run_advanceAndUpdateLineNumber16 :: "SegmentedString \<Rightarrow> SegmentedString option" where
  "run_advanceAndUpdateLineNumber16 s = do {
     ASSERT (seg_pushedChar1 s = 0);
     d \<leftarrow> sub_getCurrentChar (seg_currentString s);
     ASSERT (d = seg_currentChar s);
     let s1 = (if seg_currentChar s = chLF then countNewline s else s);
     s2 \<leftarrow> decrementAndCheckLength s1;
     (c, cur) \<leftarrow> incrementAndGetCurrentChar16 (seg_currentString s2);
     Some (s2\<lparr>seg_currentString := cur, seg_currentChar := c\<rparr>) }"

definition set_currentString_length :: "int \<Rightarrow> SegmentedString \<Rightarrow> SegmentedString" where
  "set_currentString_length n s = s\<lparr>seg_currentString := (seg_currentString s)\<lparr>sub_length := n\<rparr>\<rparr>"

definition run_advanceSlowCase :: "SegmentedString \<Rightarrow> SegmentedString option" where
  "run_advanceSlowCase s =
     (if seg_pushedChar1 s \<noteq> 0 then
        let s1 = s\<lparr>seg_pushedChar1 := seg_pushedChar2 s, seg_pushedChar2 := 0\<rparr> in
        if seg_pushedChar1 s1 \<noteq> 0 then Some (s1\<lparr>seg_currentChar := seg_pushedChar1 s1\<rparr>)
        else do {
          let s2 = updateAdvanceFunctionPointers s1;
          c \<leftarrow> charOfCurrentString s2;
          Some (s2\<lparr>seg_currentChar := c\<rparr>) }
      else do {
        let n = sub_length (seg_currentString s);
        let s1 = (if n \<noteq> 0 then
            let s2 = set_currentString_length (n - 1) s in
            if n - 1 = 0 then advanceSubstring s2 else s2
          else if \<not> isComposite s then
            setAdvanceEmpty (s\<lparr>seg_currentString := sub_clear (seg_currentString s), seg_empty := True\<rparr>)
          else s);
        c \<leftarrow> charOfCurrentString s1;
        Some (s1\<lparr>seg_currentChar := c\<rparr>) })"

definition run_advanceAndUpdateLineNumberSlowCase :: "SegmentedString \<Rightarrow> SegmentedString option" where
  "run_advanceAndUpdateLineNumberSlowCase s =
     (if seg_pushedChar1 s \<noteq> 0 then
        let s1 = s\<lparr>seg_pushedChar1 := seg_pushedChar2 s, seg_pushedChar2 := 0\<rparr> in
        if seg_pushedChar1 s1 \<noteq> 0 then Some (s1\<lparr>seg_currentChar := seg_pushedChar1 s1\<rparr>)
        else do {
          let s2 = updateAdvanceFunctionPointers s1;
          c \<leftarrow> charOfCurrentString s2;
          Some (s2\<lparr>seg_currentChar := c\<rparr>) }
      else do {
        let n = sub_length (seg_currentString s);
        s1 \<leftarrow> (if n \<noteq> 0 then do {
             d \<leftarrow> sub_getCurrentChar (seg_currentString s);
             let s2 = (if d = chLF \<and> sub_doNotExcludeLineNumbers (seg_currentString s)
                       then countNewline s else s);
             let s3 = set_currentString_length (n - 1) s2;
             if n - 1 = 0 then Some (advanceSubstring s3)
             else do {
               (e, cur) \<leftarrow> incrementAndGetCurrentChar (seg_currentString s3);
               Some (s3\<lparr>seg_currentString := cur\<rparr>) } }
           else if \<not> isComposite s then
             Some (setAdvanceEmpty (s\<lparr>seg_currentString := sub_clear (seg_currentString s),
                     seg_empty := True\<rparr>))
           else Some s);
        c \<leftarrow> charOfCurrentString s1;
        Some (s1\<lparr>seg_currentChar := c\<rparr>) })"

definition run_advanceEmpty :: "SegmentedString \<Rightarrow> SegmentedString option" where
  "run_advanceEmpty s = do {
     ASSERT (sub_length (seg_currentString s) = 0 \<and> \<not> isComposite s);
     Some (s\<lparr>seg_currentChar := 0\<rparr>) }"

text \<open>The call through a member-function pointer.\<close>

fun call_advance :: "advance_routine \<Rightarrow> SegmentedString \<Rightarrow> SegmentedString option" where
  "call_advance advanceEmpty s = run_advanceEmpty s"
| "call_advance advance8 s = run_advance8 s"
| "call_advance advance16 s = run_advance16 s"
| "call_advance advanceSlowCase s = run_advanceSlowCase s"
| "call_advance advanceAndUpdateLineNumber8 s = run_advanceAndUpdateLineNumber8 s"
| "call_advance advanceAndUpdateLineNumber16 s = run_advanceAndUpdateLineNumber16 s"
| "call_advance advanceAndUpdateLineNumberSlowCase s = run_advanceAndUpdateLineNumberSlowCase s"

definition seg_advance :: "SegmentedString \<Rightarrow> SegmentedString option" where
  "seg_advance s =
     (if seg_fastPathFlags s AND Use8BitAdvance \<noteq> 0 then do {
        ASSERT (seg_pushedChar1 s = 0);
        let n = sub_length (seg_currentString s) - 1;
        let s1 = set_currentString_length n s;
        (c, cur) \<leftarrow> incrementAndGetCurrentChar8 (seg_currentString s1);
        let s2 = s1\<lparr>seg_currentString := cur, seg_currentChar := c\<rparr>;
        Some (if n \<noteq> 1 then s2 else updateSlowCaseFunctionPointers s2) }
      else call_advance (seg_advanceFunc s) s)"

definition advanceAndUpdateLineNumber :: "SegmentedString \<Rightarrow> SegmentedString option" where
  "advanceAndUpdateLineNumber s =
     (if seg_fastPathFlags s AND Use8BitAdvance \<noteq> 0 then do {
        ASSERT (seg_pushedChar1 s = 0);
        let haveNewLine = (seg_currentChar s = chLF
          \<and> seg_fastPathFlags s AND Use8BitAdvanceAndUpdateLineNumbers \<noteq> 0);
        let n = sub_length (seg_currentString s) - 1;
        let s1 = set_currentString_length n s;
        (c, cur) \<leftarrow> incrementAndGetCurrentChar8 (seg_currentString s1);
        let s2 = s1\<lparr>seg_currentString := cur, seg_currentChar := c\<rparr>;
        let s3 = (if haveNewLine
                  then s2\<lparr>seg_currentLine := seg_currentLine s2 + 1,
                          seg_consumedPriorToCurrentLine := seg_consumedPriorToCurrentString s2
                            + sub_numberOfCharactersConsumed (seg_currentString s2)\<rparr>
                  else s2);
        Some (if n = 1 then updateSlowCaseFunctionPointers s3 else s3) }
      else call_advance (seg_advanceAndUpdateLineNumberFunc s) s)"

definition advanceAndASSERT :: "UChar \<Rightarrow> SegmentedString \<Rightarrow> SegmentedString option" where
  "advanceAndASSERT expected s = do { ASSERT (seg_currentChar s = expected); seg_advance s }"

definition advanceAndASSERTIgnoringCase ::
  "(UChar32 \<Rightarrow> UChar32) \<Rightarrow> UChar \<Rightarrow> SegmentedString \<Rightarrow> SegmentedString option" where
  "advanceAndASSERTIgnoringCase foldCase expected s = do {
     ASSERT (foldCase (ucast (seg_currentChar s)) = foldCase (ucast expected));
     seg_advance s }"

definition advancePastNonNewline :: "SegmentedString \<Rightarrow> SegmentedString option" where
  "advancePastNonNewline s = do { ASSERT (seg_currentChar s \<noteq> chLF); seg_advance s }"

definition advancePastNewlineAndUpdateLineNumber :: "SegmentedString \<Rightarrow> SegmentedString option" where
  "advancePastNewlineAndUpdateLineNumber s = do {
     ASSERT (seg_currentChar s = chLF);
     if seg_pushedChar1 s = 0 \<and> sub_length (seg_currentString s) > 1 then do {
       let s1 = (if sub_doNotExcludeLineNumbers (seg_currentString s) then countNewline s else s);
       s2 \<leftarrow> decrementAndCheckLength s1;
       (c, cur) \<leftarrow> incrementAndGetCurrentChar (seg_currentString s2);
       Some (s2\<lparr>seg_currentString := cur, seg_currentChar := c\<rparr>) }
     else run_advanceAndUpdateLineNumberSlowCase s }"

text \<open>\<open>advance(count, consumedCharacters)\<close>: the characters written to the buffer come first.\<close>

fun advance_loop :: "nat \<Rightarrow> SegmentedString \<Rightarrow> (UChar list \<times> SegmentedString) option" where
  "advance_loop 0 s = Some ([], s)"
| "advance_loop (Suc k) s = do {
     s1 \<leftarrow> seg_advance s;
     (cs, s2) \<leftarrow> advance_loop k s1;
     Some (seg_currentChar s # cs, s2) }"

definition advance_count :: "nat \<Rightarrow> SegmentedString \<Rightarrow> (UChar list \<times> SegmentedString) option" where
  "advance_count count s = do { ASSERT (int count \<le> seg_length s); advance_loop count s }"

definition lookAheadSlowCase ::
  "(UChar32 \<Rightarrow> UChar32) \<Rightarrow> UChar list \<Rightarrow> bool \<Rightarrow> SegmentedString \<Rightarrow> (LookAheadResult \<times> SegmentedString) option" where
  "lookAheadSlowCase foldCase string caseSensitive s =
     (if int (length string) > seg_length s then Some (NotEnoughCharacters, s)
      else do {
        (consumed, s1) \<leftarrow> advance_count (length string) s;
        let result = (if string_startsWith foldCase consumed string caseSensitive
                      then DidMatch else DidNotMatch);
        p \<leftarrow> makeSegmentedString (UTF16 consumed);
        s2 \<leftarrow> seg_prepend p s1;
        Some (result, s2) })"

definition lookAheadInline ::
  "(UChar32 \<Rightarrow> UChar32) \<Rightarrow> UChar list \<Rightarrow> bool \<Rightarrow> SegmentedString \<Rightarrow> (LookAheadResult \<times> SegmentedString) option" where
  "lookAheadInline foldCase string caseSensitive s =
     (if seg_pushedChar1 s = 0 \<and> int (length string) \<le> sub_length (seg_currentString s) then
        Some (if string_startsWith foldCase (currentSubString (seg_currentString s) (length string))
                   string caseSensitive
              then DidMatch else DidNotMatch, s)
      else lookAheadSlowCase foldCase string caseSensitive s)"

abbreviation lookAhead :: "(UChar32 \<Rightarrow> UChar32) \<Rightarrow> UChar list \<Rightarrow> SegmentedString \<Rightarrow> (LookAheadResult \<times> SegmentedString) option" where
  "lookAhead foldCase string s \<equiv> lookAheadInline foldCase string True s"

abbreviation lookAheadIgnoringCase :: "(UChar32 \<Rightarrow> UChar32) \<Rightarrow> UChar list \<Rightarrow> SegmentedString \<Rightarrow> (LookAheadResult \<times> SegmentedString) option" where
  "lookAheadIgnoringCase foldCase string s \<equiv> lookAheadInline foldCase string False s"

text \<open>Positions are zero-based integers here (\<open>OrdinalNumber\<close> wraps one).\<close>

definition currentColumn :: "SegmentedString \<Rightarrow> int" where
  "currentColumn s = numberOfCharactersConsumed s - seg_consumedPriorToCurrentLine s"

definition setCurrentPosition :: "int \<Rightarrow> int \<Rightarrow> int \<Rightarrow> SegmentedString \<Rightarrow> SegmentedString" where
  "setCurrentPosition line columnAfterProlog prologLength s = s\<lparr>seg_currentLine := line,
     seg_consumedPriorToCurrentLine :=
       numberOfCharactersConsumed s + prologLength - columnAfterProlog\<rparr>"

section \<open>The invariant of the stream\<close>

text \<open>
  \<open>sub_ok\<close> ties the cursor of a substring to its remaining length; \<open>stream_core\<close> adds
  the relations between the pieces, \<open>pointers_ok\<close> what the cached function pointers and
  flags say about the current substring, and \<open>stream_inv\<close> that the cached character is
  the first of the contents. The contents are what \<open>toString\<close> returns.
\<close>

definition sub_ok :: "SegmentedSubstring \<Rightarrow> bool" where
  "sub_ok x \<longleftrightarrow> 0 \<le> sub_length x \<and> sub_length x \<le> int (string_length (sub_string x)) \<and>
     (sub_length x \<noteq> 0 \<longrightarrow> sub_data x = Some (nat (sub_numberOfCharactersConsumed x))
        \<and> sub_is8Bit x = string_is8Bit (sub_string x))"

definition sub_rest :: "SegmentedSubstring \<Rightarrow> SegmentedSubstring" where
  "sub_rest x = x\<lparr>sub_length := sub_length x - 1, sub_data := map_option Suc (sub_data x)\<rparr>"

lemma sub_appendTo_eq:
  "sub_ok x \<Longrightarrow> sub_appendTo x =
     drop (nat (sub_numberOfCharactersConsumed x)) (characters (sub_string x))"
  by (auto simp: sub_ok_def sub_appendTo_def currentSubString_def sub_numberOfCharactersConsumed_def)

lemma length_sub_appendTo: "sub_ok x \<Longrightarrow> int (length (sub_appendTo x)) = sub_length x"
  by (auto simp: sub_appendTo_eq sub_ok_def sub_numberOfCharactersConsumed_def)

lemma sub_appendTo_Nil_iff: "sub_ok x \<Longrightarrow> sub_appendTo x = [] \<longleftrightarrow> sub_length x = 0"
  using length_sub_appendTo[of x] by auto

lemma sub_appendTo_Nil: "sub_ok x \<Longrightarrow> sub_length x = 0 \<Longrightarrow> sub_appendTo x = []"
  by (simp add: sub_appendTo_Nil_iff)

lemma read8_Latin1:
  "string_is8Bit str \<Longrightarrow> i < string_length str \<Longrightarrow> read8 str i = Some (characters str ! i)"
  by (cases str) (auto simp: read8_def)

lemma read16_UTF16:
  "\<not> string_is8Bit str \<Longrightarrow> i < string_length str \<Longrightarrow> read16 str i = Some (characters str ! i)"
  by (cases str) (auto simp: read16_def)

lemma sub_getCurrentChar_eq:
  assumes "sub_ok x" "sub_length x \<noteq> 0"
  shows "sub_getCurrentChar x = Some (hd (sub_appendTo x))"
proof -
  let ?i = "nat (sub_numberOfCharactersConsumed x)"
  have i: "?i < string_length (sub_string x)"
    using assms by (auto simp: sub_ok_def sub_numberOfCharactersConsumed_def)
  have "hd (sub_appendTo x) = characters (sub_string x) ! ?i"
    using i assms(1) by (simp add: sub_appendTo_eq hd_drop_conv_nth)
  with i assms show ?thesis
    by (auto simp: sub_getCurrentChar_def sub_ok_def getCurrentChar8_def getCurrentChar16_def
        read8_Latin1 read16_UTF16)
qed

lemma sub_rest_ok: "sub_ok x \<Longrightarrow> sub_length x > 1 \<Longrightarrow> sub_ok (sub_rest x)"
  by (auto simp: sub_ok_def sub_rest_def sub_numberOfCharactersConsumed_def)

lemma sub_rest_appendTo:
  assumes "sub_ok x" "sub_length x > 1"
  shows "sub_appendTo (sub_rest x) = tl (sub_appendTo x)"
proof -
  have "nat (sub_numberOfCharactersConsumed (sub_rest x)) = Suc (nat (sub_numberOfCharactersConsumed x))"
    using assms by (auto simp: sub_ok_def sub_rest_def sub_numberOfCharactersConsumed_def)
  moreover have "sub_string (sub_rest x) = sub_string x" by (simp add: sub_rest_def)
  ultimately show ?thesis
    using assms by (simp add: sub_appendTo_eq sub_rest_ok drop_Suc tl_drop)
qed

lemma sub_increment:
  assumes "sub_ok x" "sub_length x > 1"
  shows "sub_is8Bit x \<Longrightarrow> incrementAndGetCurrentChar8 (x\<lparr>sub_length := sub_length x - 1\<rparr>)
           = Some (hd (tl (sub_appendTo x)), sub_rest x)"
    and "\<not> sub_is8Bit x \<Longrightarrow> incrementAndGetCurrentChar16 (x\<lparr>sub_length := sub_length x - 1\<rparr>)
           = Some (hd (tl (sub_appendTo x)), sub_rest x)"
    and "incrementAndGetCurrentChar (x\<lparr>sub_length := sub_length x - 1\<rparr>)
           = Some (hd (tl (sub_appendTo x)), sub_rest x)"
proof -
  let ?i = "nat (sub_numberOfCharactersConsumed x)"
  have i: "Suc ?i < string_length (sub_string x)"
    using assms by (auto simp: sub_ok_def sub_numberOfCharactersConsumed_def)
  have h: "hd (tl (sub_appendTo x)) = characters (sub_string x) ! Suc ?i"
    using i assms(1) by (simp add: sub_appendTo_eq tl_drop hd_drop_conv_nth flip: drop_Suc)
  show 8: "incrementAndGetCurrentChar8 (x\<lparr>sub_length := sub_length x - 1\<rparr>)
           = Some (hd (tl (sub_appendTo x)), sub_rest x)" if "sub_is8Bit x"
    using i h assms that
    by (auto simp: incrementAndGetCurrentChar8_def sub_ok_def read8_Latin1 sub_rest_def)
  show 16: "incrementAndGetCurrentChar16 (x\<lparr>sub_length := sub_length x - 1\<rparr>)
           = Some (hd (tl (sub_appendTo x)), sub_rest x)" if "\<not> sub_is8Bit x"
    using i h assms that
    by (auto simp: incrementAndGetCurrentChar16_def sub_ok_def read16_UTF16 sub_rest_def)
  show "incrementAndGetCurrentChar (x\<lparr>sub_length := sub_length x - 1\<rparr>)
           = Some (hd (tl (sub_appendTo x)), sub_rest x)"
    using 8 16 assms by (simp add: incrementAndGetCurrentChar_def)
qed

lemma makeSubstring_ok: "sub_ok (makeSubstring str)"
  and makeSubstring_appendTo: "sub_appendTo (makeSubstring str) = characters str"
  by (auto simp: sub_ok_def makeSubstring_def sub_appendTo_def sub_numberOfCharactersConsumed_def)


definition hd0 :: "UChar list \<Rightarrow> UChar" where
  "hd0 xs = (case xs of [] \<Rightarrow> 0 | x # _ \<Rightarrow> x)"

lemma hd0_simps [simp]: "hd0 [] = 0" "hd0 (x # xs) = x" "xs \<noteq> [] \<Longrightarrow> hd0 xs = hd xs"
  "xs \<noteq> [] \<Longrightarrow> hd0 (xs @ ys) = hd xs"
  by (cases xs; simp add: hd0_def)+

fun routine_ok :: "advance_routine \<Rightarrow> SegmentedString \<Rightarrow> bool" where
  "routine_ok advanceEmpty s =
     (seg_pushedChar1 s = 0 \<and> sub_length (seg_currentString s) = 0)"
| "routine_ok advanceSlowCase s =
     (seg_pushedChar1 s \<noteq> 0 \<or> sub_length (seg_currentString s) \<le> 1)"
| "routine_ok advanceAndUpdateLineNumberSlowCase s =
     (seg_pushedChar1 s \<noteq> 0 \<or> sub_length (seg_currentString s) \<le> 1)"
| "routine_ok r s =
     (seg_pushedChar1 s = 0 \<and> sub_length (seg_currentString s) > 1 \<and>
      sub_is8Bit (seg_currentString s) = (r = advance8 \<or> r = advanceAndUpdateLineNumber8))"

definition pointers_ok :: "SegmentedString \<Rightarrow> bool" where
  "pointers_ok s \<longleftrightarrow>
     (seg_fastPathFlags s = 0 \<or>
      (seg_fastPathFlags s = 2 \<or> seg_fastPathFlags s = 3) \<and> seg_pushedChar1 s = 0 \<and>
       sub_length (seg_currentString s) > 1 \<and> sub_is8Bit (seg_currentString s)) \<and>
     routine_ok (seg_advanceFunc s) s \<and> routine_ok (seg_advanceAndUpdateLineNumberFunc s) s"

definition stream_core :: "SegmentedString \<Rightarrow> bool" where
  "stream_core s \<longleftrightarrow>
     (seg_pushedChar2 s \<noteq> 0 \<longrightarrow> seg_pushedChar1 s \<noteq> 0) \<and> sub_ok (seg_currentString s) \<and>
     (\<forall>x \<in> set (seg_substrings s). sub_ok x \<and> sub_length x \<noteq> 0) \<and>
     (sub_length (seg_currentString s) = 0 \<longrightarrow> seg_substrings s = []) \<and>
     (seg_empty s \<longleftrightarrow> sub_length (seg_currentString s) = 0)"

definition stream_inv :: "SegmentedString \<Rightarrow> bool" where
  "stream_inv s \<longleftrightarrow> stream_core s \<and> pointers_ok s \<and> seg_currentChar s = hd0 (seg_toString s)"

lemma routine_ok_cong:
  assumes "seg_pushedChar1 s' = seg_pushedChar1 s"
    and "sub_length (seg_currentString s') = sub_length (seg_currentString s)"
    and "sub_is8Bit (seg_currentString s') = sub_is8Bit (seg_currentString s)"
  shows "routine_ok r s' = routine_ok r s"
  using assms by (cases r) simp_all

lemma updateSlow_frame [simp]:
  "seg_pushedChar1 (updateSlowCaseFunctionPointers s) = seg_pushedChar1 s"
  "seg_pushedChar2 (updateSlowCaseFunctionPointers s) = seg_pushedChar2 s"
  "seg_currentString (updateSlowCaseFunctionPointers s) = seg_currentString s"
  "seg_currentChar (updateSlowCaseFunctionPointers s) = seg_currentChar s"
  "seg_consumedPriorToCurrentString (updateSlowCaseFunctionPointers s) = seg_consumedPriorToCurrentString s"
  "seg_substrings (updateSlowCaseFunctionPointers s) = seg_substrings s"
  "seg_closed (updateSlowCaseFunctionPointers s) = seg_closed s"
  "seg_empty (updateSlowCaseFunctionPointers s) = seg_empty s"
  by (simp_all add: updateSlowCaseFunctionPointers_def)

lemma setAdvanceEmpty_frame [simp]:
  "seg_pushedChar1 (setAdvanceEmpty s) = seg_pushedChar1 s"
  "seg_pushedChar2 (setAdvanceEmpty s) = seg_pushedChar2 s"
  "seg_currentString (setAdvanceEmpty s) = seg_currentString s"
  "seg_currentChar (setAdvanceEmpty s) = seg_currentChar s"
  "seg_consumedPriorToCurrentString (setAdvanceEmpty s) = seg_consumedPriorToCurrentString s"
  "seg_substrings (setAdvanceEmpty s) = seg_substrings s"
  "seg_closed (setAdvanceEmpty s) = seg_closed s"
  "seg_empty (setAdvanceEmpty s) = seg_empty s"
  by (simp_all add: setAdvanceEmpty_def)

lemma updateAdvance_frame [simp]:
  "seg_pushedChar1 (updateAdvanceFunctionPointers s) = seg_pushedChar1 s"
  "seg_pushedChar2 (updateAdvanceFunctionPointers s) = seg_pushedChar2 s"
  "seg_currentString (updateAdvanceFunctionPointers s) = seg_currentString s"
  "seg_currentChar (updateAdvanceFunctionPointers s) = seg_currentChar s"
  "seg_consumedPriorToCurrentString (updateAdvanceFunctionPointers s) = seg_consumedPriorToCurrentString s"
  "seg_substrings (updateAdvanceFunctionPointers s) = seg_substrings s"
  "seg_closed (updateAdvanceFunctionPointers s) = seg_closed s"
  "seg_empty (updateAdvanceFunctionPointers s) = seg_empty s"
  by (simp_all add: updateAdvanceFunctionPointers_def Let_def)

lemma pointers_ok_slow:
  "seg_pushedChar1 s \<noteq> 0 \<or> sub_length (seg_currentString s) \<le> 1 \<Longrightarrow>
   pointers_ok (updateSlowCaseFunctionPointers s)"
  by (simp add: pointers_ok_def updateSlowCaseFunctionPointers_def)

lemma pointers_ok_empty:
  "seg_pushedChar1 s = 0 \<Longrightarrow> sub_length (seg_currentString s) = 0 \<Longrightarrow> pointers_ok (setAdvanceEmpty s)"
  by (simp add: pointers_ok_def setAdvanceEmpty_def)

lemma pointers_ok_update [simp]: "pointers_ok (updateAdvanceFunctionPointers s)"
  by (auto simp: pointers_ok_def updateAdvanceFunctionPointers_def Let_def
      updateSlowCaseFunctionPointers_def)

text \<open>The invariant and the contents do not depend on the line bookkeeping.\<close>

lemma stream_line_irrelevant [simp]:
  "stream_inv (s\<lparr>seg_currentLine := l, seg_consumedPriorToCurrentLine := p\<rparr>) = stream_inv s"
  "seg_toString (s\<lparr>seg_currentLine := l, seg_consumedPriorToCurrentLine := p\<rparr>) = seg_toString s"
  "numberOfCharactersConsumed (s\<lparr>seg_currentLine := l, seg_consumedPriorToCurrentLine := p\<rparr>)
     = numberOfCharactersConsumed s"
  by (auto simp: stream_inv_def stream_core_def pointers_ok_def seg_toString_def
      numberOfCharactersConsumed_def routine_ok_cong[of "s\<lparr>seg_currentLine := l, seg_consumedPriorToCurrentLine := p\<rparr>" s])

lemma toString_pointers [simp]:
  "seg_toString (updateSlowCaseFunctionPointers s) = seg_toString s"
  "seg_toString (updateAdvanceFunctionPointers s) = seg_toString s"
  "seg_toString (setAdvanceEmpty s) = seg_toString s"
  "seg_toString (s\<lparr>seg_currentChar := c\<rparr>) = seg_toString s"
  "seg_toString (s\<lparr>seg_empty := e\<rparr>) = seg_toString s"
  by (simp_all add: seg_toString_def)

lemma consumed_pointers [simp]:
  "numberOfCharactersConsumed (updateSlowCaseFunctionPointers s) = numberOfCharactersConsumed s"
  "numberOfCharactersConsumed (updateAdvanceFunctionPointers s) = numberOfCharactersConsumed s"
  "numberOfCharactersConsumed (setAdvanceEmpty s) = numberOfCharactersConsumed s"
  "numberOfCharactersConsumed (s\<lparr>seg_currentChar := c\<rparr>) = numberOfCharactersConsumed s"
  "numberOfCharactersConsumed (s\<lparr>seg_empty := e\<rparr>) = numberOfCharactersConsumed s"
  by (simp_all add: numberOfCharactersConsumed_def)

lemma core_pointers [simp]:
  "stream_core (updateSlowCaseFunctionPointers s) = stream_core s"
  "stream_core (updateAdvanceFunctionPointers s) = stream_core s"
  "stream_core (setAdvanceEmpty s) = stream_core s"
  "stream_core (s\<lparr>seg_currentChar := c\<rparr>) = stream_core s"
  by (simp_all add: stream_core_def)

lemma pointers_ok_currentChar [simp]: "pointers_ok (s\<lparr>seg_currentChar := c\<rparr>) = pointers_ok s"
  by (simp add: pointers_ok_def routine_ok_cong[of "s\<lparr>seg_currentChar := c\<rparr>" s])

lemma pointers_ok_isEmpty [simp]: "pointers_ok (s\<lparr>seg_empty := e\<rparr>) = pointers_ok s"
  by (simp add: pointers_ok_def routine_ok_cong[of "s\<lparr>seg_empty := e\<rparr>" s])

lemma charOfCurrentString_eq:
  "stream_core s \<Longrightarrow> seg_pushedChar1 s = 0 \<Longrightarrow> charOfCurrentString s = Some (hd0 (seg_toString s))"
  by (auto simp: charOfCurrentString_def stream_core_def sub_getCurrentChar_eq seg_toString_def
      sub_appendTo_Nil_iff sub_appendTo_Nil)

text \<open>Refreshing the cached character turns the structural part of the invariant into all of it.\<close>

lemma stream_inv_refresh:
  "stream_core s \<Longrightarrow> pointers_ok s \<Longrightarrow> seg_pushedChar1 s = 0 \<Longrightarrow>
   charOfCurrentString s = Some c \<Longrightarrow> stream_inv (s\<lparr>seg_currentChar := c\<rparr>)"
  by (simp add: stream_inv_def charOfCurrentString_eq)


section \<open>Advancing\<close>

definition advanced :: "SegmentedString \<Rightarrow> SegmentedString \<Rightarrow> bool" where
  "advanced s s' \<longleftrightarrow> stream_inv s' \<and> seg_toString s' = tl (seg_toString s) \<and>
     numberOfCharactersConsumed s' =
       numberOfCharactersConsumed s + (if seg_toString s = [] then 0 else 1) \<and>
     seg_closed s' = seg_closed s \<and>
     seg_pushedChar1 s' = seg_pushedChar2 s \<and> seg_pushedChar2 s' = 0 \<and>
     (seg_pushedChar1 s \<noteq> 0 \<longrightarrow> seg_empty s' = seg_empty s)"

lemma advanced_line [simp]:
  "advanced (s\<lparr>seg_currentLine := l, seg_consumedPriorToCurrentLine := p\<rparr>) s' = advanced s s'"
  "advanced s (s'\<lparr>seg_currentLine := l, seg_consumedPriorToCurrentLine := p\<rparr>) = advanced s s'"
  by (simp_all add: advanced_def)

text \<open>Inside the current substring: what every fast routine computes.\<close>

definition step_in_current :: "SegmentedString \<Rightarrow> SegmentedString" where
  "step_in_current s =
     (let cur = seg_currentString s;
          s1 = s\<lparr>seg_currentString := sub_rest cur, seg_currentChar := hd (tl (sub_appendTo cur))\<rparr>
      in if sub_length cur - 1 = 1 then updateSlowCaseFunctionPointers s1 else s1)"

lemma pushed_free_toString:
  "seg_pushedChar1 s = 0 \<Longrightarrow> seg_toString s =
     sub_appendTo (seg_currentString s) @ concat (map sub_appendTo (seg_substrings s))"
  by (simp add: seg_toString_def)

lemma sub_rest_consumed [simp]:
  "sub_numberOfCharactersConsumed (sub_rest x) = sub_numberOfCharactersConsumed x + 1"
  by (simp add: sub_rest_def sub_numberOfCharactersConsumed_def)

lemma sub_rest_frame [simp]:
  "sub_length (sub_rest x) = sub_length x - 1" "sub_is8Bit (sub_rest x) = sub_is8Bit x"
  by (simp_all add: sub_rest_def)

lemma routine_ok_step:
  "routine_ok r s \<Longrightarrow> seg_pushedChar1 s = 0 \<Longrightarrow> sub_length (seg_currentString s) > 2 \<Longrightarrow>
   seg_pushedChar1 s' = 0 \<Longrightarrow> sub_length (seg_currentString s') = sub_length (seg_currentString s) - 1 \<Longrightarrow>
   sub_is8Bit (seg_currentString s') = sub_is8Bit (seg_currentString s) \<Longrightarrow> routine_ok r s'"
  by (cases r) auto

lemma step_in_current_advanced:
  assumes inv: "stream_inv s" and p: "seg_pushedChar1 s = 0"
    and len: "sub_length (seg_currentString s) > 1"
  shows "advanced s (step_in_current s)"
proof -
  let ?cur = "seg_currentString s"
  let ?s1 = "s\<lparr>seg_currentString := sub_rest ?cur, seg_currentChar := hd (tl (sub_appendTo ?cur))\<rparr>"
  have ok: "sub_ok ?cur" using inv by (simp add: stream_inv_def stream_core_def)
  have two: "tl (sub_appendTo ?cur) \<noteq> []" "sub_appendTo ?cur \<noteq> []"
    using length_sub_appendTo[OF ok] len by (cases "sub_appendTo ?cur"; auto)+
  have core: "stream_core ?s1"
    using inv len ok by (auto simp: stream_inv_def stream_core_def sub_rest_ok)
  have str: "seg_toString ?s1 = tl (seg_toString s)"
    using p two by (simp add: seg_toString_def sub_rest_appendTo ok len)
  have ptr: "pointers_ok ?s1" if "sub_length ?cur \<noteq> 2"
    using inv p len that routine_ok_step[of "seg_advanceFunc s" s ?s1]
      routine_ok_step[of "seg_advanceAndUpdateLineNumberFunc s" s ?s1]
    by (auto simp: stream_inv_def pointers_ok_def)
  have "hd0 (seg_toString ?s1) = seg_currentChar ?s1"
    using p two by (simp add: seg_toString_def sub_rest_appendTo ok len)
  moreover have "seg_pushedChar2 s = 0" using inv p by (auto simp: stream_inv_def stream_core_def)
  ultimately show ?thesis using core str ptr p two
    by (auto simp: advanced_def step_in_current_def Let_def stream_inv_def pointers_ok_slow
        numberOfCharactersConsumed_def pushed_free_toString)
qed

lemma run_advance_in_current:
  assumes inv: "stream_inv s" and p: "seg_pushedChar1 s = 0"
    and len: "sub_length (seg_currentString s) > 1"
  shows "sub_is8Bit (seg_currentString s) \<Longrightarrow> run_advance8 s = Some (step_in_current s)"
    and "\<not> sub_is8Bit (seg_currentString s) \<Longrightarrow> run_advance16 s = Some (step_in_current s)"
proof -
  have ok: "sub_ok (seg_currentString s)" using inv by (simp add: stream_inv_def stream_core_def)
  show "sub_is8Bit (seg_currentString s) \<Longrightarrow> run_advance8 s = Some (step_in_current s)"
    using p len sub_increment(1)[OF ok len]
    by (auto simp: run_advance8_def decrementAndCheckLength_def step_in_current_def Let_def
        updateSlowCaseFunctionPointers_def)
  show "\<not> sub_is8Bit (seg_currentString s) \<Longrightarrow> run_advance16 s = Some (step_in_current s)"
    using p len sub_increment(2)[OF ok len]
    by (auto simp: run_advance16_def decrementAndCheckLength_def step_in_current_def Let_def
        updateSlowCaseFunctionPointers_def)
qed

lemma toString_Nil_iff:
  "stream_core s \<Longrightarrow> seg_toString s = [] \<longleftrightarrow> seg_pushedChar1 s = 0 \<and> sub_length (seg_currentString s) = 0"
  by (auto simp: stream_core_def seg_toString_def sub_appendTo_Nil_iff)

lemma currentChar_of_sub:
  "stream_inv s \<Longrightarrow> seg_pushedChar1 s = 0 \<Longrightarrow> sub_length (seg_currentString s) \<noteq> 0 \<Longrightarrow>
   sub_getCurrentChar (seg_currentString s) = Some (seg_currentChar s)"
  using charOfCurrentString_eq[of s] by (auto simp: stream_inv_def charOfCurrentString_def)

definition newline_counted :: "SegmentedString \<Rightarrow> SegmentedString" where
  "newline_counted s = (if seg_currentChar s = chLF then countNewline s else s)"

lemma newline_counted_frame [simp]:
  "stream_inv (newline_counted s) = stream_inv s"
  "seg_pushedChar1 (newline_counted s) = seg_pushedChar1 s"
  "seg_currentString (newline_counted s) = seg_currentString s"
  "advanced (newline_counted s) s' = advanced s s'"
  by (auto simp: newline_counted_def countNewline_def)

lemma run_advanceLine_in_current:
  assumes inv: "stream_inv s" and p: "seg_pushedChar1 s = 0"
    and len: "sub_length (seg_currentString s) > 1"
  shows "sub_is8Bit (seg_currentString s) \<Longrightarrow>
      run_advanceAndUpdateLineNumber8 s = Some (step_in_current (newline_counted s))"
    and "\<not> sub_is8Bit (seg_currentString s) \<Longrightarrow>
      run_advanceAndUpdateLineNumber16 s = Some (step_in_current (newline_counted s))"
proof -
  have ch: "sub_getCurrentChar (seg_currentString s) = Some (seg_currentChar s)"
    using currentChar_of_sub[OF inv p] len by simp
  show "sub_is8Bit (seg_currentString s) \<Longrightarrow>
      run_advanceAndUpdateLineNumber8 s = Some (step_in_current (newline_counted s))"
    using run_advance_in_current(1)[of "newline_counted s"] ch inv p len
    by (simp add: run_advanceAndUpdateLineNumber8_def run_advance8_def Let_def
        flip: newline_counted_def)
  show "\<not> sub_is8Bit (seg_currentString s) \<Longrightarrow>
      run_advanceAndUpdateLineNumber16 s = Some (step_in_current (newline_counted s))"
    using run_advance_in_current(2)[of "newline_counted s"] ch inv p len
    by (simp add: run_advanceAndUpdateLineNumber16_def run_advance16_def Let_def
        flip: newline_counted_def)
qed

text \<open>Dropping a pushed-back character.\<close>

definition pop_pushed :: "SegmentedString \<Rightarrow> SegmentedString" where
  "pop_pushed s = s\<lparr>seg_pushedChar1 := seg_pushedChar2 s, seg_pushedChar2 := 0\<rparr>"

lemma pop_pushed_facts:
  assumes "stream_inv s" "seg_pushedChar1 s \<noteq> 0"
  shows "stream_core (pop_pushed s)" "seg_toString (pop_pushed s) = tl (seg_toString s)"
    "seg_toString s \<noteq> []"
    "numberOfCharactersConsumed (pop_pushed s) = numberOfCharactersConsumed s + 1"
  using assms
  by (auto simp: pop_pushed_def stream_inv_def stream_core_def seg_toString_def
      numberOfCharactersConsumed_def)

lemma pop_pushed_advanced:
  assumes inv: "stream_inv s" and p: "seg_pushedChar1 s \<noteq> 0"
  shows "seg_pushedChar2 s \<noteq> 0 \<Longrightarrow> advanced s ((pop_pushed s)\<lparr>seg_currentChar := seg_pushedChar2 s\<rparr>)"
    and "seg_pushedChar2 s = 0 \<Longrightarrow>
      charOfCurrentString (updateAdvanceFunctionPointers (pop_pushed s)) = Some c \<Longrightarrow>
      advanced s ((updateAdvanceFunctionPointers (pop_pushed s))\<lparr>seg_currentChar := c\<rparr>)"
proof -
  note facts = pop_pushed_facts[OF assms]
  {
    assume q: "seg_pushedChar2 s \<noteq> 0"
    let ?s = "(pop_pushed s)\<lparr>seg_currentChar := seg_pushedChar2 s\<rparr>"
    have "pointers_ok ?s"
      using inv p q unfolding stream_inv_def pointers_ok_def
      by (cases "seg_advanceFunc s"; cases "seg_advanceAndUpdateLineNumberFunc s")
        (auto simp: pop_pushed_def)
    moreover have "hd0 (seg_toString ?s) = seg_pushedChar2 s"
      using q by (simp add: pop_pushed_def seg_toString_def)
    ultimately show "advanced s ?s"
      using facts by (simp add: advanced_def stream_inv_def) (simp add: pop_pushed_def)
  }
  {
    assume q: "seg_pushedChar2 s = 0"
      and c: "charOfCurrentString (updateAdvanceFunctionPointers (pop_pushed s)) = Some c"
    let ?t = "updateAdvanceFunctionPointers (pop_pushed s)"
    have "stream_inv (?t\<lparr>seg_currentChar := c\<rparr>)"
      using facts c q by (intro stream_inv_refresh) (simp_all add: pop_pushed_def)
    then show "advanced s (?t\<lparr>seg_currentChar := c\<rparr>)"
      using facts by (simp add: advanced_def) (simp add: pop_pushed_def)
  }
qed

text \<open>Leaving the current substring at its last character.\<close>

lemma advanceSubstring_facts:
  assumes inv: "stream_inv s" and p: "seg_pushedChar1 s = 0"
    and len: "sub_length (seg_currentString s) = 1"
  defines "t \<equiv> advanceSubstring (set_currentString_length 0 s)"
  shows "stream_core t" "pointers_ok t" "seg_pushedChar1 t = 0" "seg_pushedChar2 t = 0" "seg_pushedChar2 s = 0"
    "seg_toString t = tl (seg_toString s)" "seg_closed t = seg_closed s"
    "numberOfCharactersConsumed t = numberOfCharactersConsumed s + 1"
proof -
  have core: "stream_core s" using inv by (simp add: stream_inv_def)
  have one: "tl (sub_appendTo (seg_currentString s)) = []" "sub_appendTo (seg_currentString s) \<noteq> []"
    using core length_sub_appendTo[of "seg_currentString s"] len
    by (cases "sub_appendTo (seg_currentString s)"; auto simp: stream_core_def)+
  show q: "seg_pushedChar2 s = 0" using core p by (auto simp: stream_core_def)
  show "stream_core t" "pointers_ok t" "seg_pushedChar1 t = 0" "seg_pushedChar2 t = 0"
    "seg_closed t = seg_closed s"
    using core p q
    by (cases "seg_substrings s"; auto simp: t_def advanceSubstring_def set_currentString_length_def
        stream_core_def sub_ok_def sub_clear_def pointers_ok_empty)+
  show "seg_toString t = tl (seg_toString s)"
    using p one by (cases "seg_substrings s")
      (simp_all add: t_def advanceSubstring_def set_currentString_length_def pushed_free_toString,
       simp add: sub_clear_def sub_appendTo_def currentSubString_def sub_numberOfCharactersConsumed_def)
  show "numberOfCharactersConsumed t = numberOfCharactersConsumed s + 1"
    using p len by (cases "seg_substrings s")
      (simp_all add: t_def advanceSubstring_def set_currentString_length_def
        numberOfCharactersConsumed_def sub_numberOfCharactersConsumed_def sub_clear_def)
qed

lemma advance_last_advanced:
  assumes "stream_inv s" "seg_pushedChar1 s = 0" "sub_length (seg_currentString s) = 1"
  shows "\<exists>c. charOfCurrentString (advanceSubstring (set_currentString_length 0 s)) = Some c \<and>
     advanced s ((advanceSubstring (set_currentString_length 0 s))\<lparr>seg_currentChar := c\<rparr>)"
proof -
  note facts = advanceSubstring_facts[OF assms]
  have "seg_toString s \<noteq> []"
    using assms toString_Nil_iff[of s] by (simp add: stream_inv_def)
  moreover obtain c where
    c: "charOfCurrentString (advanceSubstring (set_currentString_length 0 s)) = Some c"
    using charOfCurrentString_eq facts by blast
  moreover have "stream_inv ((advanceSubstring (set_currentString_length 0 s))\<lparr>seg_currentChar := c\<rparr>)"
    by (rule stream_inv_refresh) (use facts c in auto)
  ultimately show ?thesis
    using facts assms(2) by (auto simp: advanced_def)
qed

text \<open>At the end of the stream nothing moves.\<close>

lemma advance_at_end_advanced:
  assumes inv: "stream_inv s" and p: "seg_pushedChar1 s = 0"
    and len: "sub_length (seg_currentString s) = 0"
  defines "t \<equiv> setAdvanceEmpty (s\<lparr>seg_currentString := sub_clear (seg_currentString s), seg_empty := True\<rparr>)"
  shows "charOfCurrentString t = Some 0" "advanced s (t\<lparr>seg_currentChar := 0\<rparr>)"
    "advanced s (s\<lparr>seg_currentChar := 0\<rparr>)"
proof -
  have core: "stream_core s" and nil: "seg_toString s = []" and q: "seg_pushedChar2 s = 0"
    using inv toString_Nil_iff[of s] p len by (auto simp: stream_inv_def stream_core_def)
  have t: "stream_core t" "pointers_ok t" "seg_pushedChar1 t = 0"
    using core p len
    by (auto simp: t_def stream_core_def sub_ok_def sub_clear_def intro!: pointers_ok_empty)
  have tn: "seg_toString t = []"
    using toString_Nil_iff[OF t(1)] t(3) by (simp add: t_def sub_clear_def)
  show c: "charOfCurrentString t = Some 0"
    using charOfCurrentString_eq[OF t(1,3)] tn by simp
  have consumed: "numberOfCharactersConsumed t = numberOfCharactersConsumed s"
    using len by (simp add: t_def numberOfCharactersConsumed_def sub_clear_def
        sub_numberOfCharactersConsumed_def)
  show "advanced s (t\<lparr>seg_currentChar := 0\<rparr>)"
    using stream_inv_refresh[OF t c] tn nil consumed p q
    by (simp add: advanced_def) (simp add: t_def)
  have "s\<lparr>seg_currentChar := 0\<rparr> = s"
    using inv nil by (simp add: stream_inv_def)
  then show "advanced s (s\<lparr>seg_currentChar := 0\<rparr>)"
    using inv nil p q by (simp add: advanced_def)
qed

lemma run_advanceSlowCase_advanced:
  assumes inv: "stream_inv s" and r: "routine_ok advanceSlowCase s"
  shows "\<exists>s'. run_advanceSlowCase s = Some s' \<and> advanced s s'"
proof (cases "seg_pushedChar1 s = 0")
  case False
  show ?thesis
  proof (cases "seg_pushedChar2 s = 0")
    case True
    obtain c where c: "charOfCurrentString (updateAdvanceFunctionPointers (pop_pushed s)) = Some c"
      using charOfCurrentString_eq[of "updateAdvanceFunctionPointers (pop_pushed s)"]
        pop_pushed_facts[OF inv False] True by (auto simp: pop_pushed_def)
    with pop_pushed_advanced(2)[OF inv False True c] True False show ?thesis
      by (simp add: run_advanceSlowCase_def pop_pushed_def)
  next
    case q: False
    with pop_pushed_advanced(1)[OF inv False] False show ?thesis
      by (simp add: run_advanceSlowCase_def pop_pushed_def)
  qed
next
  case True
  have nonneg: "0 \<le> sub_length (seg_currentString s)"
    using inv by (simp add: stream_inv_def stream_core_def sub_ok_def)
  show ?thesis
  proof (cases "sub_length (seg_currentString s) = 0")
    case z: True
    then have "\<not> isComposite s"
      using inv by (simp add: stream_inv_def stream_core_def isComposite_def)
    with advance_at_end_advanced(1,2)[OF inv True z] True z show ?thesis
      by (simp add: run_advanceSlowCase_def)
  next
    case False
    then have "sub_length (seg_currentString s) = 1" using True r nonneg by simp
    with advance_last_advanced[OF inv True] True show ?thesis
      by (auto simp: run_advanceSlowCase_def)
  qed
qed

lemma run_advanceLineSlowCase_last:
  assumes inv: "stream_inv s" and p: "seg_pushedChar1 s = 0"
    and one: "sub_length (seg_currentString s) = 1"
  defines "t \<equiv> if sub_doNotExcludeLineNumbers (seg_currentString s) then newline_counted s else s"
  shows "\<exists>c. run_advanceAndUpdateLineNumberSlowCase s =
      Some ((advanceSubstring (set_currentString_length 0 t))\<lparr>seg_currentChar := c\<rparr>) \<and>
    advanced s ((advanceSubstring (set_currentString_length 0 t))\<lparr>seg_currentChar := c\<rparr>)"
proof -
  have t: "stream_inv t" "seg_pushedChar1 t = 0" "sub_length (seg_currentString t) = 1"
    "\<And>s'. advanced t s' = advanced s s'"
    using inv p one by (auto simp: t_def)
  from advance_last_advanced[OF t(1-3)] obtain c where
    c: "charOfCurrentString (advanceSubstring (set_currentString_length 0 t)) = Some c"
    "advanced s ((advanceSubstring (set_currentString_length 0 t))\<lparr>seg_currentChar := c\<rparr>)"
    by (auto simp: t(4))
  with one p currentChar_of_sub[OF inv p] show ?thesis
    by (cases "sub_doNotExcludeLineNumbers (seg_currentString s)")
      (auto simp: run_advanceAndUpdateLineNumberSlowCase_def Let_def t_def newline_counted_def
        split: if_splits)
qed

lemma run_advanceLineSlowCase_advanced:
  assumes inv: "stream_inv s" and r: "routine_ok advanceAndUpdateLineNumberSlowCase s"
  shows "\<exists>s'. run_advanceAndUpdateLineNumberSlowCase s = Some s' \<and> advanced s s'"
proof (cases "seg_pushedChar1 s \<noteq> 0 \<or> sub_length (seg_currentString s) = 0")
  case True
  then have "run_advanceAndUpdateLineNumberSlowCase s = run_advanceSlowCase s"
    by (auto simp: run_advanceAndUpdateLineNumberSlowCase_def run_advanceSlowCase_def Let_def)
  with run_advanceSlowCase_advanced[OF inv] True show ?thesis by auto
next
  case False
  then have "seg_pushedChar1 s = 0" "sub_length (seg_currentString s) = 1"
    using r inv by (auto simp: stream_inv_def stream_core_def sub_ok_def)
  from run_advanceLineSlowCase_last[OF inv this] show ?thesis by blast
qed

lemma call_advance_advanced:
  assumes "stream_inv s" "routine_ok r s"
  shows "\<exists>s'. call_advance r s = Some s' \<and> advanced s s'"
proof (cases r)
  case advanceEmpty
  with assms have "\<not> isComposite s" "seg_pushedChar1 s = 0" "sub_length (seg_currentString s) = 0"
    by (auto simp: stream_inv_def stream_core_def isComposite_def)
  with advanceEmpty advance_at_end_advanced(3)[OF assms(1)] show ?thesis
    by (simp add: run_advanceEmpty_def)
qed (use assms run_advance_in_current[of s] run_advanceLine_in_current[of s]
      step_in_current_advanced[of s] step_in_current_advanced[of "newline_counted s"]
      run_advanceSlowCase_advanced[of s] run_advanceLineSlowCase_advanced[of s] in auto)

lemma fast_path_step:
  assumes "stream_inv s" "seg_fastPathFlags s AND Use8BitAdvance \<noteq> 0"
  shows "seg_pushedChar1 s = 0" "sub_length (seg_currentString s) > 1" "sub_is8Bit (seg_currentString s)"
    "incrementAndGetCurrentChar8 (seg_currentString (set_currentString_length
        (sub_length (seg_currentString s) - 1) s))
       = Some (hd (tl (sub_appendTo (seg_currentString s))), sub_rest (seg_currentString s))"
  using assms sub_increment(1)[of "seg_currentString s"]
  by (auto simp: stream_inv_def stream_core_def pointers_ok_def set_currentString_length_def)

lemma seg_advance_advanced:
  assumes inv: "stream_inv s"
  shows "\<exists>s'. seg_advance s = Some s' \<and> advanced s s'"
proof (cases "seg_fastPathFlags s AND Use8BitAdvance \<noteq> 0")
  case True
  note fp = fast_path_step[OF inv True]
  have "seg_advance s = Some (step_in_current s)"
    using True fp by (simp add: seg_advance_def step_in_current_def Let_def set_currentString_length_def
        updateSlowCaseFunctionPointers_def)
  with step_in_current_advanced[OF inv] fp show ?thesis by simp
next
  case False
  with call_advance_advanced[OF inv, of "seg_advanceFunc s"] inv show ?thesis
    by (simp add: seg_advance_def stream_inv_def pointers_ok_def)
qed

lemma advanceAndUpdateLineNumber_fast:
  assumes inv: "stream_inv s" and f: "seg_fastPathFlags s AND Use8BitAdvance \<noteq> 0"
  defines "nl \<equiv> seg_currentChar s = chLF \<and> seg_fastPathFlags s AND Use8BitAdvanceAndUpdateLineNumbers \<noteq> 0"
  shows "advanceAndUpdateLineNumber s = Some ((step_in_current s)\<lparr>
      seg_currentLine := seg_currentLine s + (if nl then 1 else 0),
      seg_consumedPriorToCurrentLine := (if nl then seg_consumedPriorToCurrentString s
          + sub_numberOfCharactersConsumed (seg_currentString s) + 1
        else seg_consumedPriorToCurrentLine s)\<rparr>)"
  using f fast_path_step[OF inv f] unfolding nl_def
  by (cases "seg_currentChar s = chLF \<and> seg_fastPathFlags s AND Use8BitAdvanceAndUpdateLineNumbers \<noteq> 0")
    (auto simp: advanceAndUpdateLineNumber_def step_in_current_def Let_def
      set_currentString_length_def updateSlowCaseFunctionPointers_def
      intro!: SegmentedString.equality)

lemma advanceAndUpdateLineNumber_advanced:
  assumes inv: "stream_inv s"
  shows "\<exists>s'. advanceAndUpdateLineNumber s = Some s' \<and> advanced s s'"
proof (cases "seg_fastPathFlags s AND Use8BitAdvance \<noteq> 0")
  case True
  with advanceAndUpdateLineNumber_fast[OF inv True] fast_path_step[OF inv True]
    step_in_current_advanced[OF inv] show ?thesis by auto
next
  case False
  with call_advance_advanced[OF inv, of "seg_advanceAndUpdateLineNumberFunc s"] inv show ?thesis
    by (simp add: advanceAndUpdateLineNumber_def stream_inv_def pointers_ok_def)
qed

lemma advancePastNewline_advanced:
  assumes inv: "stream_inv s" and nl: "seg_currentChar s = chLF"
  shows "\<exists>s'. advancePastNewlineAndUpdateLineNumber s = Some s' \<and> advanced s s'"
proof (cases "seg_pushedChar1 s = 0 \<and> sub_length (seg_currentString s) > 1")
  case True
  let ?s = "if sub_doNotExcludeLineNumbers (seg_currentString s) then countNewline s else s"
  have same: "stream_inv ?s" "seg_pushedChar1 ?s = 0" "seg_currentString ?s = seg_currentString s"
    using inv True by (auto simp: countNewline_def)
  have adv: "advanced s (step_in_current ?s)"
    using step_in_current_advanced[of ?s] same True by (auto simp: countNewline_def)
  have ok: "sub_ok (seg_currentString s)" using inv by (simp add: stream_inv_def stream_core_def)
  have "advancePastNewlineAndUpdateLineNumber s = Some (step_in_current ?s)"
    using True nl same sub_increment(3)[OF ok]
    by (cases "sub_doNotExcludeLineNumbers (seg_currentString s)")
      (auto simp: advancePastNewlineAndUpdateLineNumber_def decrementAndCheckLength_def Let_def
        step_in_current_def updateSlowCaseFunctionPointers_def)
  with adv show ?thesis by simp
next
  case False
  with run_advanceLineSlowCase_advanced[OF inv] nl show ?thesis
    by (auto simp: advancePastNewlineAndUpdateLineNumber_def)
qed


text \<open>
  A stream is \<open>readable\<close> when its \<open>m_empty\<close> flag is clear; then the flag turns on exactly
  when the contents are exhausted.
\<close>

definition readable :: "SegmentedString \<Rightarrow> bool" where
  "readable s \<longleftrightarrow> stream_inv s \<and> \<not> seg_empty s"

lemma readable_nonempty: "readable s \<Longrightarrow> seg_toString s \<noteq> []"
  using toString_Nil_iff[of s] by (auto simp: readable_def stream_inv_def stream_core_def)

lemma readable_currentChar: "readable s \<Longrightarrow> seg_currentChar s = hd (seg_toString s)"
  using readable_nonempty[of s] by (simp add: readable_def stream_inv_def)

lemma readable_advanced:
  assumes "readable s" "advanced s s'"
  shows "seg_empty s' \<longleftrightarrow> seg_toString s' = []" "readable s' \<longleftrightarrow> tl (seg_toString s) \<noteq> []"
proof -
  have inv: "stream_inv s'" and core: "stream_core s'" using assms by (auto simp: advanced_def stream_inv_def)
  have "seg_pushedChar1 s' = 0" if "seg_empty s'"
  proof (rule ccontr)
    assume "seg_pushedChar1 s' \<noteq> 0"
    then have "seg_pushedChar1 s \<noteq> 0" using assms by (auto simp: advanced_def readable_def stream_inv_def stream_core_def)
    with assms that show False by (auto simp: advanced_def readable_def)
  qed
  with core show e: "seg_empty s' \<longleftrightarrow> seg_toString s' = []"
    using toString_Nil_iff[OF core] by (auto simp: stream_core_def)
  show "readable s' \<longleftrightarrow> tl (seg_toString s) \<noteq> []"
    using inv e assms by (auto simp: readable_def advanced_def)
qed

section \<open>Advancing several times\<close>

text \<open>The characters pushed back, and what any number of advances keeps.\<close>

definition pushedChars :: "SegmentedString \<Rightarrow> UChar list" where
  "pushedChars s = filter (\<lambda>c. c \<noteq> 0) [seg_pushedChar1 s, seg_pushedChar2 s]"

abbreviation advances :: "SegmentedString \<Rightarrow> SegmentedString \<Rightarrow> bool" where
  "advances \<equiv> advanced\<^sup>*\<^sup>*"

lemma pushedChars_Nil: "stream_core s \<Longrightarrow> pushedChars s = [] \<longleftrightarrow> \<not> escaped s"
  by (auto simp: pushedChars_def escaped_def stream_core_def)

lemma pushedChars_advanced:
  "stream_inv s \<Longrightarrow> advanced s s' \<Longrightarrow> pushedChars s' = tl (pushedChars s)"
  by (auto simp: pushedChars_def advanced_def stream_inv_def stream_core_def)

lemma toString_pushed: "stream_core s \<Longrightarrow> \<exists>rest. seg_toString s = pushedChars s @ rest"
  by (auto simp: seg_toString_def pushedChars_def stream_core_def)

lemma advances_facts:
  assumes "advances s s'" "stream_inv s"
  shows "stream_inv s'" "\<exists>n. seg_toString s' = drop n (seg_toString s) \<and> pushedChars s' = drop n (pushedChars s)"
    "numberOfCharactersConsumed s' + int (length (seg_toString s')) =
       numberOfCharactersConsumed s + int (length (seg_toString s))"
    "seg_closed s' = seg_closed s"
proof -
  have "stream_inv s' \<and> (\<exists>n. seg_toString s' = drop n (seg_toString s) \<and> pushedChars s' = drop n (pushedChars s)) \<and>
    numberOfCharactersConsumed s' + int (length (seg_toString s')) =
       numberOfCharactersConsumed s + int (length (seg_toString s)) \<and>
    seg_closed s' = seg_closed s"
    using assms(1)
  proof (induction rule: rtranclp_induct)
    case base
    have "seg_toString s = drop 0 (seg_toString s) \<and> pushedChars s = drop 0 (pushedChars s)" by simp
    then show ?case using assms(2) by blast
  next
    case (step y z)
    then obtain n where n: "seg_toString y = drop n (seg_toString s)" "pushedChars y = drop n (pushedChars s)"
      by auto
    have "seg_toString z = drop (Suc n) (seg_toString s)" "pushedChars z = drop (Suc n) (pushedChars s)"
      using step(2,3) n pushedChars_advanced[of y z] by (auto simp: advanced_def drop_Suc tl_drop)
    moreover have "numberOfCharactersConsumed z + int (length (seg_toString z)) =
        numberOfCharactersConsumed y + int (length (seg_toString y))"
      using step(2) by (cases "seg_toString y") (auto simp: advanced_def)
    ultimately show ?case using step(2,3) unfolding advanced_def by auto
  qed
  then show "stream_inv s'" "\<exists>n. seg_toString s' = drop n (seg_toString s) \<and> pushedChars s' = drop n (pushedChars s)"
    "numberOfCharactersConsumed s' + int (length (seg_toString s')) =
       numberOfCharactersConsumed s + int (length (seg_toString s))"
    "seg_closed s' = seg_closed s" by auto
qed

section \<open>Pushing back, appending, prepending\<close>

lemma seg_push_first:
  assumes "stream_inv s" "seg_pushedChar1 s = 0" "c \<noteq> 0"
  shows "\<exists>s'. seg_push c s = Some s' \<and> stream_inv s' \<and> seg_toString s' = c # seg_toString s \<and>
     numberOfCharactersConsumed s' = numberOfCharactersConsumed s - 1 \<and>
     seg_closed s' = seg_closed s \<and> seg_empty s' = seg_empty s \<and>
     seg_pushedChar1 s' = c \<and> seg_pushedChar2 s' = 0"
  using assms
  by (auto simp: seg_push_def stream_inv_def stream_core_def seg_toString_def pointers_ok_slow
      numberOfCharactersConsumed_def Let_def)

lemma seg_push_second:
  assumes "stream_inv s" "seg_pushedChar1 s \<noteq> 0" "seg_pushedChar2 s = 0" "c \<noteq> 0"
  shows "\<exists>s'. seg_push c s = Some s' \<and> stream_inv s' \<and>
     seg_toString s' = seg_pushedChar1 s # c # tl (seg_toString s) \<and>
     numberOfCharactersConsumed s' = numberOfCharactersConsumed s - 1 \<and>
     seg_closed s' = seg_closed s \<and> seg_empty s' = seg_empty s \<and>
     seg_pushedChar1 s' = seg_pushedChar1 s \<and> seg_pushedChar2 s' = c"
proof -
  have "pointers_ok (s\<lparr>seg_pushedChar2 := c\<rparr>) = pointers_ok s"
    by (simp add: pointers_ok_def routine_ok_cong[of "s\<lparr>seg_pushedChar2 := c\<rparr>" s])
  with assms show ?thesis
    by (auto simp: seg_push_def stream_inv_def stream_core_def seg_toString_def
        numberOfCharactersConsumed_def)
qed

lemma makeSegmentedString_inv:
  "\<exists>s. makeSegmentedString str = Some s \<and> stream_inv s \<and> seg_toString s = characters str \<and>
     seg_currentString s = makeSubstring str \<and> seg_substrings s = [] \<and> \<not> escaped s \<and>
     seg_pushedChar2 s = 0 \<and>
     \<not> seg_closed s \<and> numberOfCharactersConsumed s = 0"
proof -
  let ?s = "emptySegmentedString\<lparr>seg_currentString := makeSubstring str, seg_empty := (string_length str = 0)\<rparr>"
  have core: "stream_core ?s"
    by (simp add: stream_core_def makeSubstring_ok emptySegmentedString_def)
      (simp add: makeSubstring_def)
  have p: "seg_pushedChar1 ?s = 0" by (simp add: emptySegmentedString_def)
  have str: "seg_toString ?s = characters str"
    by (simp add: seg_toString_def emptySegmentedString_def makeSubstring_appendTo)
  let ?t = "updateAdvanceFunctionPointers (?s\<lparr>seg_currentChar := hd0 (characters str)\<rparr>)"
  have "makeSegmentedString str = Some ?t"
    using charOfCurrentString_eq[OF core p] str by (simp add: makeSegmentedString_def)
  moreover have "stream_inv ?t" "seg_toString ?t = characters str"
    using core str by (simp_all add: stream_inv_def)
  moreover have "seg_currentString ?t = makeSubstring str" "seg_substrings ?t = []"
    "\<not> escaped ?t" "seg_pushedChar2 ?t = 0" "\<not> seg_closed ?t"
    by (simp_all add: escaped_def emptySegmentedString_def)
  moreover have "numberOfCharactersConsumed ?t = 0"
    by (simp add: numberOfCharactersConsumed_def emptySegmentedString_def
        sub_numberOfCharactersConsumed_def makeSubstring_def)
  ultimately show ?thesis by blast
qed

lemma append_substring_core:
  assumes "stream_core s" "pointers_ok s" "\<not> seg_closed s" "sub_ok x"
  shows "\<exists>s'. append_substring x s = Some s' \<and> stream_core s' \<and> pointers_ok s' \<and>
     \<not> seg_closed s' \<and> seg_toString s' = seg_toString s @ sub_appendTo x \<and>
     seg_pushedChar1 s' = seg_pushedChar1 s \<and> seg_pushedChar2 s' = seg_pushedChar2 s"
proof (cases "sub_length x = 0")
  case True
  with assms show ?thesis by (auto simp: append_substring_def sub_appendTo_Nil)
next
  case False
  show ?thesis
  proof (cases "sub_length (seg_currentString s) = 0")
    case True
    with False assms show ?thesis
      by (auto simp: append_substring_def stream_core_def seg_toString_def sub_appendTo_Nil)
  next
    case nz: False
    let ?s = "s\<lparr>seg_substrings := seg_substrings s @ [x], seg_empty := False\<rparr>"
    have "pointers_ok ?s = pointers_ok s"
      by (simp add: pointers_ok_def routine_ok_cong[of ?s s])
    with nz False assms show ?thesis
      by (auto simp: append_substring_def stream_core_def seg_toString_def)
  qed
qed

lemma append_substrings_core:
  assumes "stream_core s" "pointers_ok s" "\<not> seg_closed s" "\<forall>x \<in> set xs. sub_ok x"
  shows "\<exists>s'. append_substrings xs s = Some s' \<and> stream_core s' \<and> pointers_ok s' \<and>
     \<not> seg_closed s' \<and> seg_toString s' = seg_toString s @ concat (map sub_appendTo xs) \<and>
     seg_pushedChar1 s' = seg_pushedChar1 s \<and> seg_pushedChar2 s' = seg_pushedChar2 s"
  using assms
proof (induction xs arbitrary: s)
  case Nil
  then show ?case by simp
next
  case (Cons x xs)
  obtain s1 where s1: "append_substring x s = Some s1" "stream_core s1" "pointers_ok s1"
    "\<not> seg_closed s1" "seg_toString s1 = seg_toString s @ sub_appendTo x"
    "seg_pushedChar1 s1 = seg_pushedChar1 s" "seg_pushedChar2 s1 = seg_pushedChar2 s"
    using append_substring_core[of s x] Cons.prems by auto
  with Cons.IH[of s1] Cons.prems show ?case by auto
qed

lemma seg_append_inv:
  assumes inv: "stream_inv s" and other: "stream_inv t" and opn: "\<not> seg_closed s"
  shows "\<exists>s'. seg_append t s = Some s' \<and> stream_inv s' \<and> \<not> seg_closed s' \<and>
     seg_toString s' = seg_toString s @ seg_toString t \<and>
     seg_pushedChar1 s' = seg_pushedChar1 s \<and> seg_pushedChar2 s' = seg_pushedChar2 s"
proof -
  let ?pushed = "seg_pushedChar1 t # (if seg_pushedChar2 t \<noteq> 0 then [seg_pushedChar2 t] else [])"
  have core: "stream_core s" "pointers_ok s"
    using inv by (auto simp: stream_inv_def)
  have oks: "sub_ok (seg_currentString t)" "\<forall>x \<in> set (seg_substrings t). sub_ok x"
    using other by (auto simp: stream_inv_def stream_core_def)
  obtain s1 where s1: "(if seg_pushedChar1 t \<noteq> 0 then append_substring (makeSubstring (UTF16 ?pushed)) s
       else Some s) = Some s1" "stream_core s1" "pointers_ok s1" "\<not> seg_closed s1"
    "seg_toString s1 = seg_toString s @ (if seg_pushedChar1 t \<noteq> 0 then ?pushed else [])"
    "seg_pushedChar1 s1 = seg_pushedChar1 s" "seg_pushedChar2 s1 = seg_pushedChar2 s"
    using append_substring_core[OF core(1,2) opn makeSubstring_ok[of "UTF16 ?pushed"]] core opn
    by (cases "seg_pushedChar1 t = 0") (auto simp: makeSubstring_appendTo)
  obtain s2 where s2: "append_substring (seg_currentString t) s1 = Some s2" "stream_core s2"
    "pointers_ok s2" "\<not> seg_closed s2"
    "seg_toString s2 = seg_toString s1 @ sub_appendTo (seg_currentString t)"
    "seg_pushedChar1 s2 = seg_pushedChar1 s" "seg_pushedChar2 s2 = seg_pushedChar2 s"
    using append_substring_core[OF s1(2,3,4) oks(1)] s1(6,7) by auto
  obtain s3 where s3: "append_substrings (seg_substrings t) s2 = Some s3" "stream_core s3"
    "pointers_ok s3" "\<not> seg_closed s3"
    "seg_toString s3 = seg_toString s2 @ concat (map sub_appendTo (seg_substrings t))"
    "seg_pushedChar1 s3 = seg_pushedChar1 s" "seg_pushedChar2 s3 = seg_pushedChar2 s"
    using append_substrings_core[OF s2(2,3,4) oks(2)] s2(6,7) by auto
  have str: "seg_toString s3 = seg_toString s @ seg_toString t"
    using s1(5) s2(5) s3(5) by (simp add: seg_toString_def[of t])
  let ?c = "if seg_pushedChar1 s3 \<noteq> 0 then seg_pushedChar1 s3 else hd0 (seg_toString s3)"
  have c: "(if seg_pushedChar1 s3 \<noteq> 0 then Some (seg_pushedChar1 s3) else charOfCurrentString s3)
      = Some ?c"
    using charOfCurrentString_eq[of s3] s3 by auto
  have "?c = hd0 (seg_toString s3)"
    by (auto simp: seg_toString_def)
  then have "stream_inv (s3\<lparr>seg_currentChar := ?c\<rparr>)"
    using s3 by (simp add: stream_inv_def)
  then show ?thesis
    using opn s1(1) s2(1) s3 str c by (simp add: seg_append_def)
qed

lemma prepend_substring_core:
  assumes "stream_core s" "pointers_ok s" "\<not> escaped s" "sub_ok x"
    "sub_numberOfCharactersConsumed x = 0"
  shows "\<exists>s'. prepend_substring x s = Some s' \<and> stream_core s' \<and> pointers_ok s' \<and>
     seg_toString s' = sub_appendTo x @ seg_toString s \<and> \<not> escaped s' \<and>
     seg_pushedChar2 s' = seg_pushedChar2 s \<and>
     seg_closed s' = seg_closed s \<and>
     numberOfCharactersConsumed s' = numberOfCharactersConsumed s - sub_length x"
  using assms
  by (cases "sub_length x = 0"; cases "sub_length (seg_currentString s) = 0")
    (auto simp: prepend_substring_def Let_def stream_core_def seg_toString_def sub_appendTo_Nil
      escaped_def numberOfCharactersConsumed_def)

lemma seg_prepend_fresh:
  assumes inv: "stream_inv s" and ne: "\<not> escaped s"
  shows "\<exists>p s'. makeSegmentedString str = Some p \<and> seg_prepend p s = Some s' \<and> stream_inv s' \<and>
     seg_toString s' = characters str @ seg_toString s \<and> \<not> escaped s' \<and>
     seg_closed s' = seg_closed s \<and>
     numberOfCharactersConsumed s' = numberOfCharactersConsumed s - int (string_length str)"
proof -
  obtain p where p: "makeSegmentedString str = Some p" "seg_currentString p = makeSubstring str"
    "seg_substrings p = []" "\<not> escaped p"
    using makeSegmentedString_inv[of str] by auto
  have "sub_numberOfCharactersConsumed (makeSubstring str) = 0"
    "sub_length (makeSubstring str) = int (string_length str)"
    by (simp_all add: sub_numberOfCharactersConsumed_def makeSubstring_def)
  then obtain s1 where s1: "prepend_substring (makeSubstring str) s = Some s1" "stream_core s1"
    "pointers_ok s1" "seg_toString s1 = characters str @ seg_toString s" "\<not> escaped s1"
    "seg_closed s1 = seg_closed s"
    "numberOfCharactersConsumed s1 = numberOfCharactersConsumed s - int (string_length str)"
    using prepend_substring_core[of s "makeSubstring str"] inv ne
    by (auto simp: stream_inv_def makeSubstring_ok makeSubstring_appendTo)
  have c: "charOfCurrentString s1 = Some (hd0 (seg_toString s1))"
    using charOfCurrentString_eq[of s1] s1 by (simp add: escaped_def)
  have "stream_inv (s1\<lparr>seg_currentChar := hd0 (seg_toString s1)\<rparr>)"
    using stream_inv_refresh[OF s1(2,3) _ c] s1(5) by (simp add: escaped_def)
  with s1 p c ne show ?thesis
    by (auto simp: seg_prepend_def escaped_def)
qed

section \<open>Looking ahead\<close>

lemma length_toString: "stream_core s \<Longrightarrow> int (length (seg_toString s)) = seg_length s"
proof -
  assume core: "stream_core s"
  have "int (length (concat (map sub_appendTo xs))) = sum_list (map sub_length xs)"
    if "\<forall>x \<in> set xs. sub_ok x" for xs
    using that by (induction xs) (auto simp: length_sub_appendTo)
  with core length_sub_appendTo[of "seg_currentString s"] show ?thesis
    by (auto simp: seg_length_def seg_toString_def stream_core_def)
qed

lemma advance_loop_inv:
  assumes "stream_inv s" "n \<le> length (seg_toString s)"
  shows "\<exists>s'. advance_loop n s = Some (take n (seg_toString s), s') \<and> stream_inv s' \<and>
     seg_toString s' = drop n (seg_toString s) \<and> seg_closed s' = seg_closed s \<and>
     numberOfCharactersConsumed s' = numberOfCharactersConsumed s + int n \<and>
     (2 \<le> n \<longrightarrow> \<not> escaped s')"
  using assms
proof (induction n arbitrary: s)
  case 0
  then show ?case by simp
next
  case (Suc n)
  obtain c rest where cs: "seg_toString s = c # rest"
    using Suc.prems by (cases "seg_toString s") auto
  obtain s1 where s1: "seg_advance s = Some s1" "advanced s s1"
    using seg_advance_advanced[OF Suc.prems(1)] by blast
  then have s1': "stream_inv s1" "seg_toString s1 = rest" "n \<le> length (seg_toString s1)"
    using cs Suc.prems by (auto simp: advanced_def)
  obtain s2 where s2: "advance_loop n s1 = Some (take n rest, s2)" "stream_inv s2"
    "seg_toString s2 = drop n rest" "seg_closed s2 = seg_closed s1"
    "numberOfCharactersConsumed s2 = numberOfCharactersConsumed s1 + int n"
    "2 \<le> n \<longrightarrow> \<not> escaped s2"
    using Suc.IH[OF s1'(1,3)] s1'(2) by auto
  have "\<not> escaped s2" if "n = 1"
    using that s2(1) s1 seg_advance_advanced[OF s1'(1)]
    by (auto simp: escaped_def advanced_def split: Option.bind_splits)
  then have "2 \<le> Suc n \<longrightarrow> \<not> escaped s2" using s2(6) by (cases "n = 1") auto
  moreover have "advance_loop (Suc n) s = Some (c # take n rest, s2)"
    using s1(1) s2(1) Suc.prems(1) cs by (simp add: stream_inv_def)
  ultimately show ?case
    using s1(2) s2(2-5) cs by (simp add: advanced_def)
qed

definition lookAheadSpec ::
  "(UChar32 \<Rightarrow> UChar32) \<Rightarrow> UChar list \<Rightarrow> bool \<Rightarrow> UChar list \<Rightarrow> LookAheadResult" where
  "lookAheadSpec foldCase string caseSensitive cs =
     (if length string > length cs then NotEnoughCharacters
      else if string_startsWith foldCase cs string caseSensitive then DidMatch else DidNotMatch)"

lemma string_startsWith_take:
  "length match \<le> length s \<Longrightarrow>
   string_startsWith f (take (length match) s) match cs = string_startsWith f s match cs"
  by (simp add: string_startsWith_def)

lemma lookAheadSlowCase_inv:
  assumes inv: "stream_inv s" and n: "2 \<le> length string"
  shows "\<exists>s'. lookAheadSlowCase f string cse s = Some (lookAheadSpec f string cse (seg_toString s), s') \<and>
     stream_inv s' \<and> seg_toString s' = seg_toString s \<and> seg_closed s' = seg_closed s \<and>
     numberOfCharactersConsumed s' = numberOfCharactersConsumed s \<and>
     (length string \<le> length (seg_toString s) \<longrightarrow> \<not> escaped s' \<and> \<not> seg_empty s') \<and>
     (length string > length (seg_toString s) \<longrightarrow> s' = s)"
proof (cases "length string > length (seg_toString s)")
  case True
  with length_toString[of s] inv show ?thesis
    by (auto simp: lookAheadSlowCase_def lookAheadSpec_def stream_inv_def)
next
  case False
  then have le: "length string \<le> length (seg_toString s)" by simp
  obtain s1 where s1: "advance_loop (length string) s = Some (take (length string) (seg_toString s), s1)"
    "stream_inv s1" "seg_toString s1 = drop (length string) (seg_toString s)"
    "seg_closed s1 = seg_closed s" "\<not> escaped s1"
    "numberOfCharactersConsumed s1 = numberOfCharactersConsumed s + int (length string)"
    using advance_loop_inv[OF inv le] n by auto
  obtain p s2 where s2: "makeSegmentedString (UTF16 (take (length string) (seg_toString s))) = Some p"
    "seg_prepend p s1 = Some s2" "stream_inv s2" "seg_toString s2 = seg_toString s" "\<not> escaped s2"
    "seg_closed s2 = seg_closed s1"
    "numberOfCharactersConsumed s2 = numberOfCharactersConsumed s1 - int (length string)"
    using seg_prepend_fresh[OF s1(2,5), of "UTF16 (take (length string) (seg_toString s))"] s1(3) le
    by auto
  have "\<not> seg_empty s2"
    using s2(3,4,5) toString_Nil_iff[of s2] le n
    by (auto simp: stream_inv_def stream_core_def escaped_def)
  with False length_toString[of s] inv s1 s2 le show ?thesis
    by (simp add: lookAheadSlowCase_def advance_count_def lookAheadSpec_def stream_inv_def
        string_startsWith_take)
qed

lemma lookAheadInline_inv:
  assumes inv: "stream_inv s" and n: "2 \<le> length string"
  shows "\<exists>s'. lookAheadInline f string cse s = Some (lookAheadSpec f string cse (seg_toString s), s') \<and>
     stream_inv s' \<and> seg_toString s' = seg_toString s \<and> seg_closed s' = seg_closed s \<and>
     numberOfCharactersConsumed s' = numberOfCharactersConsumed s \<and>
     (length string \<le> length (seg_toString s) \<longrightarrow> \<not> escaped s' \<and> \<not> seg_empty s') \<and>
     (length string > length (seg_toString s) \<longrightarrow> s' = s)"
proof (cases "seg_pushedChar1 s = 0 \<and> int (length string) \<le> sub_length (seg_currentString s)")
  case True
  let ?cur = "seg_currentString s"
  have core: "stream_core s" and ok: "sub_ok ?cur" and e: "seg_empty s \<longleftrightarrow> sub_length ?cur = 0"
    using inv by (auto simp: stream_inv_def stream_core_def)
  have le: "length string \<le> length (sub_appendTo ?cur)"
    using length_sub_appendTo[OF ok] True by simp
  have sub: "currentSubString ?cur (length string) = take (length string) (seg_toString s)"
    using True le by (simp add: currentSubString_def pushed_free_toString sub_appendTo_eq[OF ok])
  have "string_startsWith f (take (length string) (seg_toString s)) string cse
      = string_startsWith f (seg_toString s) string cse"
    using le True by (intro string_startsWith_take) (simp add: pushed_free_toString)
  with True le inv n e show ?thesis
    by (auto simp: lookAheadInline_def lookAheadSpec_def sub escaped_def pushed_free_toString)
next
  case False
  with lookAheadSlowCase_inv[OF assms] show ?thesis
    by (auto simp: lookAheadInline_def)
qed

section \<open>The reader's interface\<close>

text \<open>
  What a reader of a stream relies on: the current character is the first of the contents, and
  advancing always succeeds and drops it. Whoever reads character by character sees exactly the
  contents, whichever routine advances the stream.
\<close>

fun drain :: "('s \<Rightarrow> UChar) \<Rightarrow> ('s \<Rightarrow> 's option) \<Rightarrow> nat \<Rightarrow> 's \<Rightarrow> (UChar list \<times> 's) option" where
  "drain cur adv 0 s = Some ([], s)"
| "drain cur adv (Suc n) s = do {
     s1 \<leftarrow> adv s;
     (cs, s2) \<leftarrow> drain cur adv n s1;
     Some (cur s # cs, s2) }"

locale char_stream =
  fixes inv :: "'s \<Rightarrow> bool"
    and contents :: "'s \<Rightarrow> UChar list"
    and current :: "'s \<Rightarrow> UChar"
    and adv :: "'s \<Rightarrow> 's option"
  assumes current_contents: "inv s \<Longrightarrow> current s = hd0 (contents s)"
    and adv_contents: "inv s \<Longrightarrow> \<exists>s'. adv s = Some s' \<and> inv s' \<and> contents s' = tl (contents s)"
begin

lemma drain_contents:
  "inv s \<Longrightarrow> n \<le> length (contents s) \<Longrightarrow>
   \<exists>s'. drain current adv n s = Some (take n (contents s), s') \<and> inv s' \<and>
     contents s' = drop n (contents s)"
proof (induction n arbitrary: s)
  case 0
  then show ?case by simp
next
  case (Suc n)
  obtain c cs where cs: "contents s = c # cs" using Suc.prems by (cases "contents s") auto
  obtain s1 where s1: "adv s = Some s1" "inv s1" "contents s1 = cs"
    using adv_contents[OF Suc.prems(1)] cs by auto
  then show ?case
    using Suc.IH[of s1] Suc.prems cs current_contents[OF Suc.prems(1)] by auto
qed

lemma drain_all:
  "inv s \<Longrightarrow> \<exists>s'. drain current adv (length (contents s)) s = Some (contents s, s') \<and> contents s' = []"
  using drain_contents[of s "length (contents s)"] by auto

end

interpretation plain: char_stream stream_inv seg_toString seg_currentChar seg_advance
proof
  show "stream_inv s \<Longrightarrow> seg_currentChar s = hd0 (seg_toString s)" for s
    by (simp add: stream_inv_def)
  show "stream_inv s \<Longrightarrow> \<exists>s'. seg_advance s = Some s' \<and> stream_inv s' \<and> seg_toString s' = tl (seg_toString s)" for s
    using seg_advance_advanced[of s] by (auto simp: advanced_def)
qed

interpretation lines: char_stream stream_inv seg_toString seg_currentChar advanceAndUpdateLineNumber
proof
  show "stream_inv s \<Longrightarrow> seg_currentChar s = hd0 (seg_toString s)" for s
    by (simp add: stream_inv_def)
  show "stream_inv s \<Longrightarrow> \<exists>s'. advanceAndUpdateLineNumber s = Some s' \<and> stream_inv s' \<and>
      seg_toString s' = tl (seg_toString s)" for s
    using advanceAndUpdateLineNumber_advanced[of s] by (auto simp: advanced_def)
qed

section \<open>Line and column tracking\<close>

text \<open>
  \<open>counts_lines\<close>: nothing is pushed back, no substring excludes line numbers, and the cached
  routine is one that counts them. Then the stream's line and column are those of the text read.
\<close>

definition counts_lines :: "SegmentedString \<Rightarrow> bool" where
  "counts_lines s \<longleftrightarrow> seg_pushedChar1 s = 0 \<and>
     sub_doNotExcludeLineNumbers (seg_currentString s) \<and>
     (\<forall>x \<in> set (seg_substrings s). sub_doNotExcludeLineNumbers x) \<and>
     seg_fastPathFlags s \<noteq> 2 \<and>
     seg_advanceAndUpdateLineNumberFunc s \<notin> {advance8, advance16, advanceSlowCase}"

fun track :: "int \<times> int \<Rightarrow> UChar list \<Rightarrow> int \<times> int" where
  "track lc [] = lc"
| "track (l, c) (x # xs) = track (if x = chLF then (l + 1, 0) else (l, c + 1)) xs"

definition seg_position :: "SegmentedString \<Rightarrow> int \<times> int" where
  "seg_position s = (seg_currentLine s, currentColumn s)"

lemma counts_lines_update:
  "seg_pushedChar1 s = 0 \<Longrightarrow> sub_doNotExcludeLineNumbers (seg_currentString s) \<Longrightarrow>
   (\<forall>x \<in> set (seg_substrings s). sub_doNotExcludeLineNumbers x) \<Longrightarrow>
   counts_lines (updateAdvanceFunctionPointers s)"
  by (auto simp: counts_lines_def updateAdvanceFunctionPointers_def Let_def
      updateSlowCaseFunctionPointers_def)

lemma counts_lines_step:
  "counts_lines s \<Longrightarrow> counts_lines (step_in_current s)"
  by (auto simp: counts_lines_def step_in_current_def Let_def updateSlowCaseFunctionPointers_def
      sub_rest_def)

lemma counts_lines_frame [simp]:
  "counts_lines (s\<lparr>seg_currentLine := l, seg_consumedPriorToCurrentLine := p\<rparr>) = counts_lines s"
  "counts_lines (s\<lparr>seg_currentChar := c\<rparr>) = counts_lines s"
  by (simp_all add: counts_lines_def)

lemma counts_lines_advanceSubstring:
  "counts_lines s \<Longrightarrow> counts_lines (advanceSubstring (set_currentString_length n s))"
  by (cases "seg_substrings s")
    (auto simp: advanceSubstring_def set_currentString_length_def
      intro!: counts_lines_update, auto simp: counts_lines_def setAdvanceEmpty_def sub_clear_def)


lemma step_in_current_lines [simp]:
  "seg_currentLine (step_in_current s) = seg_currentLine s"
  "seg_consumedPriorToCurrentLine (step_in_current s) = seg_consumedPriorToCurrentLine s"
  by (simp_all add: step_in_current_def Let_def updateSlowCaseFunctionPointers_def)

lemma advanceSubstring_lines [simp]:
  "seg_currentLine (advanceSubstring (set_currentString_length n s)) = seg_currentLine s"
  "seg_consumedPriorToCurrentLine (advanceSubstring (set_currentString_length n s))
     = seg_consumedPriorToCurrentLine s"
  by (cases "seg_substrings s"; simp add: advanceSubstring_def set_currentString_length_def
      updateAdvanceFunctionPointers_def setAdvanceEmpty_def updateSlowCaseFunctionPointers_def Let_def)+

lemma newline_counted_lines:
  "seg_currentLine (newline_counted s) = seg_currentLine s + (if seg_currentChar s = chLF then 1 else 0)"
  "seg_consumedPriorToCurrentLine (newline_counted s) =
     (if seg_currentChar s = chLF then numberOfCharactersConsumed s + 1
      else seg_consumedPriorToCurrentLine s)"
  "counts_lines (newline_counted s) = counts_lines s"
  by (auto simp: newline_counted_def countNewline_def)

text \<open>All routines that \<open>counts_lines\<close> admits record a newline in the same way.\<close>

lemma advanceAndUpdateLineNumber_counts:
  assumes inv: "stream_inv s" and cl: "counts_lines s" and ne: "seg_toString s \<noteq> []"
  shows "\<exists>s'. advanceAndUpdateLineNumber s = Some s' \<and> advanced s s' \<and> counts_lines s' \<and>
     seg_currentLine s' = seg_currentLine (newline_counted s) \<and>
     seg_consumedPriorToCurrentLine s' = seg_consumedPriorToCurrentLine (newline_counted s)"
proof (cases "seg_fastPathFlags s AND Use8BitAdvance \<noteq> 0")
  case True
  have f3: "seg_fastPathFlags s = 3" and p: "seg_pushedChar1 s = 0"
    using inv cl True by (auto simp: stream_inv_def pointers_ok_def counts_lines_def)
  show ?thesis
    using advanceAndUpdateLineNumber_fast[OF inv True] step_in_current_advanced[OF inv]
      fast_path_step[OF inv True] counts_lines_step[OF cl] f3 p
    by (simp add: newline_counted_lines numberOfCharactersConsumed_def)
next
  case False
  let ?r = "seg_advanceAndUpdateLineNumberFunc s"
  have p: "seg_pushedChar1 s = 0" and r: "routine_ok ?r s"
    and nz: "sub_length (seg_currentString s) \<noteq> 0"
    and dn: "sub_doNotExcludeLineNumbers (seg_currentString s)"
    using inv cl ne toString_Nil_iff[of s]
    by (auto simp: stream_inv_def pointers_ok_def counts_lines_def)
  have eq: "advanceAndUpdateLineNumber s = call_advance ?r s"
    using False by (simp add: advanceAndUpdateLineNumber_def)
  show ?thesis
  proof (cases "?r = advanceAndUpdateLineNumberSlowCase")
    case True
    with r p nz have "sub_length (seg_currentString s) = 1"
      using inv by (auto simp: stream_inv_def stream_core_def sub_ok_def)
    from run_advanceLineSlowCase_last[OF inv p this] dn eq True
    show ?thesis
      using counts_lines_advanceSubstring[of "newline_counted s" 0] cl
      by (auto simp: newline_counted_lines)
  next
    case slow: False
    have "call_advance ?r s = Some (step_in_current (newline_counted s))"
      "sub_length (seg_currentString s) > 1"
      using r p nz cl slow run_advanceLine_in_current[OF inv p]
      by (cases ?r; auto simp: counts_lines_def)+
    with eq step_in_current_advanced[of "newline_counted s"] inv p
      counts_lines_step[of "newline_counted s"] cl show ?thesis
      by (simp add: newline_counted_lines)
  qed
qed

lemma track_append: "track lc (xs @ ys) = track (track lc xs) ys"
  by (induction lc xs rule: track.induct) auto

lemma drain_position:
  assumes "stream_inv s" "counts_lines s" "n \<le> length (seg_toString s)"
  shows "\<exists>s'. drain seg_currentChar advanceAndUpdateLineNumber n s = Some (take n (seg_toString s), s') \<and>
     seg_position s' = track (seg_position s) (take n (seg_toString s))"
  using assms
proof (induction n arbitrary: s)
  case 0
  then show ?case by simp
next
  case (Suc n)
  obtain c cs where cs: "seg_toString s = c # cs" using Suc.prems by (cases "seg_toString s") auto
  with Suc.prems(1) have c: "seg_currentChar s = c" by (simp add: stream_inv_def)
  obtain s1 where s1: "advanceAndUpdateLineNumber s = Some s1" "advanced s s1" "counts_lines s1"
    "seg_currentLine s1 = seg_currentLine (newline_counted s)"
    "seg_consumedPriorToCurrentLine s1 = seg_consumedPriorToCurrentLine (newline_counted s)"
    using advanceAndUpdateLineNumber_counts[OF Suc.prems(1,2)] cs by auto
  then have inv1: "stream_inv s1" "seg_toString s1 = cs" "n \<le> length (seg_toString s1)"
    using Suc.prems(3) cs by (auto simp: advanced_def)
  have pos: "seg_position s1 = track (seg_position s) [c]"
    using s1 cs c by (auto simp: seg_position_def currentColumn_def advanced_def newline_counted_lines)
  obtain s2 where s2: "drain seg_currentChar advanceAndUpdateLineNumber n s1 = Some (take n cs, s2)"
    "seg_position s2 = track (seg_position s1) (take n cs)"
    using Suc.IH[OF inv1(1) s1(3) inv1(3)] inv1(2) by auto
  have "track (seg_position s1) (take n cs) = track (seg_position s) (c # take n cs)"
    using pos track_append[of "seg_position s" "[c]" "take n cs"] by simp
  with s1(1) s2 cs c show ?case by simp
qed

lemma fresh_counts_lines:
  "makeSegmentedString str = Some s \<Longrightarrow> counts_lines s \<and> seg_position s = (0, 0)"
proof -
  assume m: "makeSegmentedString str = Some s"
  then obtain c where s: "s = updateAdvanceFunctionPointers (emptySegmentedString\<lparr>
      seg_currentString := makeSubstring str, seg_empty := (string_length str = 0),
      seg_currentChar := c\<rparr>)"
    by (auto simp: makeSegmentedString_def Let_def bind_eq_Some_conv)
  have "counts_lines s"
    unfolding s by (rule counts_lines_update) (simp_all add: emptySegmentedString_def makeSubstring_def)
  moreover have "seg_currentLine s = 0" "seg_consumedPriorToCurrentLine s = 0"
    by (simp_all add: s updateAdvanceFunctionPointers_def Let_def updateSlowCaseFunctionPointers_def
        setAdvanceEmpty_def emptySegmentedString_def)
  moreover have "numberOfCharactersConsumed s = 0"
    using makeSegmentedString_inv[of str] m by auto
  ultimately show ?thesis by (simp add: seg_position_def currentColumn_def)
qed


section \<open>Properties\<close>

text \<open>C4: Each of the two advancing entry points, through whichever fast path or function pointer it
  dispatches, succeeds on every stream that satisfies the invariant (no assertion fails, no read is
  out of range), keeps the invariant, drops exactly the first character of the contents and counts
  it as consumed: the stream refines a queue of characters.\<close>

theorem stream_advance_refines_queue:
  assumes "stream_inv s" "adv = seg_advance \<or> adv = advanceAndUpdateLineNumber"
  shows "\<exists>s'. adv s = Some s' \<and> stream_inv s' \<and> seg_toString s' = tl (seg_toString s) \<and>
     seg_currentChar s' = hd0 (tl (seg_toString s)) \<and>
     numberOfCharactersConsumed s' =
       numberOfCharactersConsumed s + (if seg_toString s = [] then 0 else 1)"
  using assms(2) seg_advance_advanced[OF assms(1)] advanceAndUpdateLineNumber_advanced[OF assms(1)]
  by (auto simp: advanced_def stream_inv_def)

theorem stream_advance_refines_queue_witness:
  "\<exists>s'. seg_advance (the (makeSegmentedString (Latin1 [0x61, 0x62]))) = Some s' \<and>
     stream_inv s' \<and> seg_toString s' = [0x62] \<and> seg_currentChar s' = 0x62"
proof -
  let ?s = "the (makeSegmentedString (Latin1 [0x61, 0x62]))"
  have s: "stream_inv ?s" "seg_toString ?s = [0x61, 0x62]"
    using makeSegmentedString_inv[of "Latin1 [0x61, 0x62]"] by auto
  show ?thesis
    using stream_advance_refines_queue[OF s(1), of seg_advance] s(2) by auto
qed

text \<open>C30: Reading a fresh stream to its end, by either advancing routine, yields exactly the
  characters of the string it was made from, in the 8-bit and in the 16-bit representation, and
  leaves the stream empty.\<close>

theorem stream_reads_back_string:
  "\<exists>s s1 s2. makeSegmentedString str = Some s \<and>
     drain seg_currentChar seg_advance (string_length str) s = Some (characters str, s1) \<and>
     drain seg_currentChar advanceAndUpdateLineNumber (string_length str) s = Some (characters str, s2) \<and>
     seg_empty s1 \<and> seg_empty s2"
proof -
  obtain s where s: "makeSegmentedString str = Some s" "stream_inv s" "seg_toString s = characters str"
    using makeSegmentedString_inv[of str] by auto
  have empty: "seg_empty t" if "stream_inv t" "seg_toString t = []" for t
    using that toString_Nil_iff[of t] by (auto simp: stream_inv_def stream_core_def)
  show ?thesis
    using plain.drain_contents[OF s(2), of "string_length str"]
      lines.drain_contents[OF s(2), of "string_length str"] s empty by fastforce
qed

text \<open>While a fresh stream is read, its line and column are those of the text read so far:
  the line is the number of line feeds, the column the number of characters since the last one,
  across the fast path, the cached routines and the slow case.\<close>

lemma stream_tracks_position:
  assumes "makeSegmentedString str = Some s" "n \<le> string_length str"
  shows "\<exists>s'. drain seg_currentChar advanceAndUpdateLineNumber n s = Some (take n (characters str), s') \<and>
     (seg_currentLine s', currentColumn s') = track (0, 0) (take n (characters str))"
  using drain_position[of s n] fresh_counts_lines[OF assms(1)] makeSegmentedString_inv[of str] assms
  by (auto simp: seg_position_def)

text \<open>Appending a stream to an open one succeeds, keeps the invariant and concatenates the
  contents, pushed-back characters of both included; the current character is refreshed even when
  the stream had run empty with characters pushed back.\<close>

lemma stream_append_concatenates:
  assumes "stream_inv s" "stream_inv t" "\<not> seg_closed s"
  shows "\<exists>s'. seg_append t s = Some s' \<and> stream_inv s' \<and>
     seg_toString s' = seg_toString s @ seg_toString t \<and>
     seg_currentChar s' = hd0 (seg_toString s @ seg_toString t)"
  using seg_append_inv[OF assms] by (auto simp: stream_inv_def)

text \<open>C32: Looking ahead for a string of two or more characters answers as if the whole contents were
  compared, although it may consume characters of several substrings and prepend them again: the
  contents and the consumed count are unchanged.\<close>

theorem stream_lookAhead_pure:
  assumes "stream_inv s" "2 \<le> length string"
  shows "\<exists>s'. lookAheadInline foldCase string caseSensitive s = Some
       (if length string > length (seg_toString s) then NotEnoughCharacters
        else if string_startsWith foldCase (seg_toString s) string caseSensitive
        then DidMatch else DidNotMatch, s') \<and>
     stream_inv s' \<and> seg_toString s' = seg_toString s \<and>
     numberOfCharactersConsumed s' = numberOfCharactersConsumed s"
  using lookAheadInline_inv[OF assms, of foldCase caseSensitive] by (auto simp: lookAheadSpec_def)

theorem stream_lookAhead_pure_witness:
  "\<exists>s'. lookAheadInline id [0x2D, 0x2D] True (the (makeSegmentedString (Latin1 [0x2D, 0x2D, 0x61])))
     = Some (DidMatch, s') \<and> seg_toString s' = [0x2D, 0x2D, 0x61]"
proof -
  let ?s = "the (makeSegmentedString (Latin1 [0x2D, 0x2D, 0x61]))"
  have s: "stream_inv ?s" "seg_toString ?s = [0x2D, 0x2D, 0x61]"
    using makeSegmentedString_inv[of "Latin1 [0x2D, 0x2D, 0x61]"] by auto
  show ?thesis
    using stream_lookAhead_pure[OF s(1), of "[0x2D, 0x2D]" id True] s(2)
    by (auto simp: string_startsWith_def)
qed

text \<open>Pushing a character back and advancing again restores the contents and the consumed count.\<close>

lemma stream_push_advance_roundtrip:
  assumes "stream_inv s" "\<not> escaped s" "c \<noteq> 0"
  shows "\<exists>s1 s2. seg_push c s = Some s1 \<and> seg_currentChar s1 = c \<and> seg_advance s1 = Some s2 \<and>
     stream_inv s2 \<and> seg_toString s2 = seg_toString s \<and>
     numberOfCharactersConsumed s2 = numberOfCharactersConsumed s"
proof -
  obtain s1 where s1: "seg_push c s = Some s1" "stream_inv s1" "seg_toString s1 = c # seg_toString s"
    "numberOfCharactersConsumed s1 = numberOfCharactersConsumed s - 1"
    using seg_push_first[of s c] assms by (auto simp: escaped_def)
  moreover have "seg_currentChar s1 = c" using s1(2,3) by (simp add: stream_inv_def)
  ultimately show ?thesis
    using seg_advance_advanced[OF s1(2)] by (auto simp: advanced_def)
qed

text \<open>C36: Copying a stream with two pushed-back characters makes the second of them the current
  character, although the first is read first: the copy breaks the invariant, and reading it yields
  the second character twice.\<close>

theorem stream_copy_two_pushed:
  assumes inv: "stream_inv s" and p2: "seg_pushedChar2 s \<noteq> 0"
    and diff: "seg_pushedChar1 s \<noteq> seg_pushedChar2 s"
  shows "\<exists>s' s1. copySegmentedString s = Some s' \<and> seg_toString s' = seg_toString s \<and>
     hd (seg_toString s') = seg_pushedChar1 s \<and> seg_currentChar s' = seg_pushedChar2 s \<and>
     \<not> stream_inv s' \<and> seg_advance s' = Some s1 \<and> seg_currentChar s1 = seg_pushedChar2 s"
proof -
  have p1: "seg_pushedChar1 s \<noteq> 0" using inv p2 by (auto simp: stream_inv_def stream_core_def)
  have hd: "hd (seg_toString s) = seg_pushedChar1 s" "hd0 (seg_toString s) = seg_pushedChar1 s"
    using p1 by (simp_all add: seg_toString_def)
  have flags: "seg_fastPathFlags s = 0" and r: "routine_ok (seg_advanceFunc s) s"
    using inv p1 by (simp_all add: stream_inv_def pointers_ok_def)
  from r p1 have "seg_advanceFunc s = advanceSlowCase \<or>
      seg_advanceFunc s = advanceAndUpdateLineNumberSlowCase"
    by (cases "seg_advanceFunc s") simp_all
  then have adv: "\<exists>s1. seg_advance (s\<lparr>seg_currentChar := seg_pushedChar2 s\<rparr>) = Some s1 \<and>
      seg_currentChar s1 = seg_pushedChar2 s"
    using flags p1 p2 by (auto simp: seg_advance_def run_advanceSlowCase_def
        run_advanceAndUpdateLineNumberSlowCase_def)
  show ?thesis
    using hd diff p2 adv by (auto simp: copySegmentedString_def stream_inv_def)
qed

theorem stream_copy_two_pushed_witness:
  "\<exists>s s' s1. (do { s0 \<leftarrow> seg_push 0x23 emptySegmentedString; seg_push 0x78 s0 }) = Some s \<and>
     copySegmentedString s = Some s' \<and> seg_toString s' = [0x23, 0x78] \<and>
     seg_currentChar s' = 0x78 \<and> seg_advance s' = Some s1 \<and> seg_currentChar s1 = 0x78"
proof -
  have inv: "stream_inv emptySegmentedString" "seg_pushedChar1 emptySegmentedString = 0"
    "seg_toString emptySegmentedString = []"
    by (simp_all add: stream_inv_def stream_core_def pointers_ok_def emptySegmentedString_def
        emptySubstring_def sub_ok_def seg_toString_def sub_appendTo_def
        sub_numberOfCharactersConsumed_def)
  from seg_push_first[OF inv(1,2), of "0x23"] inv(3) obtain s0 where
    s0: "seg_push 0x23 emptySegmentedString = Some s0" "stream_inv s0" "seg_toString s0 = [0x23]"
      "seg_pushedChar1 s0 = 0x23" "seg_pushedChar2 s0 = 0" by auto
  from seg_push_second[OF s0(2), of "0x78"] s0 obtain s where
    s: "seg_push 0x78 s0 = Some s" "stream_inv s" "seg_toString s = [0x23, 0x78]"
      "seg_pushedChar1 s = 0x23" "seg_pushedChar2 s = 0x78" by auto
  from stream_copy_two_pushed[OF s(2)] s s0(1) show ?thesis by auto
qed

text \<open>C37: \<open>clear\<close> resets the counters but keeps the string of the current substring, so a cleared
  stream reports as many consumed characters as that string is long.\<close>

theorem stream_clear_consumed:
  "seg_toString (seg_clear s) = [] \<and>
   numberOfCharactersConsumed (seg_clear s) = int (string_length (sub_string (seg_currentString s)))"
  by (simp add: seg_clear_def seg_toString_def numberOfCharactersConsumed_def sub_clear_def
      sub_numberOfCharactersConsumed_def)
    (simp add: sub_appendTo_def currentSubString_def)

end
