(* ===== verification/Input_Preprocessor.thy ===== *)
theory Input_Preprocessor
  imports Segmented_String
begin

text \<open>
  The input stream preprocessor of \<open>src/Source/WebCore/html/parser/InputStreamPreprocessor.h\<close>:
  it sits between the character stream and the tokenizer, turns CR LF pairs and lone CRs into LF,
  and drops or replaces NUL characters, except for the NUL that marks the end of a closed stream.

  Whether NULs are dropped is asked of the tokenizer (\<open>shouldSkipNullCharacters\<close>), so it is an
  argument here. The retry loop behind the label \<open>ProcessAgain\<close> is a partial function whose
  termination is part of what is proved.
\<close>

abbreviation kEndOfFileMarker :: UChar where "kEndOfFileMarker \<equiv> 0"

record InputStreamPreprocessor =
  pre_nextInputCharacter :: UChar
  pre_skipNextNewLine :: bool

definition pre_reset :: "bool \<Rightarrow> InputStreamPreprocessor" where
  "pre_reset skip = \<lparr>pre_nextInputCharacter = 0, pre_skipNextNewLine = skip\<rparr>"

definition shouldTreatNullAsEndOfFileMarker :: "SegmentedString \<Rightarrow> bool" where
  "shouldTreatNullAsEndOfFileMarker source \<longleftrightarrow> seg_closed source \<and> seg_length source = 1"

partial_function (option) processNextInputCharacter ::
  "bool \<Rightarrow> InputStreamPreprocessor \<Rightarrow> SegmentedString \<Rightarrow>
   (bool \<times> InputStreamPreprocessor \<times> SegmentedString) option" where
  "processNextInputCharacter skipNulls p source = do {
     ASSERT (pre_nextInputCharacter p = seg_currentChar source);
     (more, p1, source1) \<leftarrow>
       (if pre_nextInputCharacter p = chLF \<and> pre_skipNextNewLine p then do {
          s1 \<leftarrow> advancePastNewlineAndUpdateLineNumber source;
          Some (\<not> seg_empty s1, p\<lparr>pre_skipNextNewLine := False,
            pre_nextInputCharacter := (if seg_empty s1 then pre_nextInputCharacter p
                                       else seg_currentChar s1)\<rparr>, s1) }
        else Some (True, p, source));
     if \<not> more then Some (False, p1, source1)
     else if pre_nextInputCharacter p1 = chCR then
       Some (True, p1\<lparr>pre_nextInputCharacter := chLF, pre_skipNextNewLine := True\<rparr>, source1)
     else do {
       let p2 = p1\<lparr>pre_skipNextNewLine := False\<rparr>;
       if pre_nextInputCharacter p2 = 0 \<and> \<not> shouldTreatNullAsEndOfFileMarker source1 then
         if skipNulls then do {
           s2 \<leftarrow> advancePastNonNewline source1;
           if seg_empty s2 then Some (False, p2, s2)
           else processNextInputCharacter skipNulls
                  (p2\<lparr>pre_nextInputCharacter := seg_currentChar s2\<rparr>) s2 }
         else Some (True, p2\<lparr>pre_nextInputCharacter := 0xFFFD\<rparr>, source1)
       else Some (True, p2, source1) } }"

text \<open>\<open>'\n' | '\r' | '\0'\<close>\<close>

definition specialCharacterMask :: UChar where
  "specialCharacterMask = 0x0A OR 0x0D OR 0x00"

definition pre_peek ::
  "bool \<Rightarrow> InputStreamPreprocessor \<Rightarrow> SegmentedString \<Rightarrow>
   (bool \<times> InputStreamPreprocessor \<times> SegmentedString) option" where
  "pre_peek skipNulls p source =
     (let p1 = p\<lparr>pre_nextInputCharacter := seg_currentChar source\<rparr> in
      if pre_nextInputCharacter p1 AND NOT specialCharacterMask \<noteq> 0
      then Some (True, p1\<lparr>pre_skipNextNewLine := False\<rparr>, source)
      else processNextInputCharacter skipNulls p1 source)"

definition pre_advance ::
  "bool \<Rightarrow> InputStreamPreprocessor \<Rightarrow> SegmentedString \<Rightarrow>
   (bool \<times> InputStreamPreprocessor \<times> SegmentedString) option" where
  "pre_advance skipNulls p source = do {
     s1 \<leftarrow> advanceAndUpdateLineNumber source;
     if seg_empty s1 then Some (False, p, s1) else pre_peek skipNulls p s1 }"

section \<open>What peeking computes\<close>

text \<open>
  \<open>classify\<close> is the reference: on the remaining characters, the next input character, whether a
  following LF is to be dropped, and the characters that then remain (the current one first).
\<close>

fun classify :: "bool \<Rightarrow> bool \<Rightarrow> UChar list \<Rightarrow> (UChar \<times> bool \<times> UChar list) option" where
  "classify skipNulls closed [] = None"
| "classify skipNulls closed (c # cs) =
     (if c = chCR then Some (chLF, True, c # cs)
      else if c = 0 \<and> \<not> (closed \<and> cs = []) then
        (if skipNulls then classify skipNulls closed cs else Some (0xFFFD, False, c # cs))
      else Some (c, False, c # cs))"

definition peek_spec :: "bool \<Rightarrow> bool \<Rightarrow> bool \<Rightarrow> UChar list \<Rightarrow> (UChar \<times> bool \<times> UChar list) option" where
  "peek_spec skipNulls closed skip cs =
     classify skipNulls closed (if skip \<and> cs \<noteq> [] \<and> hd cs = chLF then tl cs else cs)"

definition peek_ok ::
  "SegmentedString \<Rightarrow> (UChar \<times> bool \<times> UChar list) option \<Rightarrow>
   (bool \<times> InputStreamPreprocessor \<times> SegmentedString) option \<Rightarrow> bool" where
  "peek_ok s spec r \<longleftrightarrow> (case spec of
     None \<Rightarrow> \<exists>p' s'. r = Some (False, p', s') \<and> advances s s' \<and> stream_inv s' \<and> seg_toString s' = [] \<and>
                seg_closed s' = seg_closed s \<and> \<not> pre_skipNextNewLine p'
   | Some (c, skip, cs) \<Rightarrow> \<exists>p' s'. r = Some (True, p', s') \<and> advances s s' \<and> readable s' \<and> seg_toString s' = cs \<and>
                seg_closed s' = seg_closed s \<and>
                pre_nextInputCharacter p' = c \<and> pre_skipNextNewLine p' = skip)"

lemma peek_ok_advanced:
  "advanced s s1 \<Longrightarrow> peek_ok s1 spec r \<Longrightarrow> peek_ok s spec r"
  by (fastforce simp: peek_ok_def advanced_def split: option.splits
      intro: converse_rtranclp_into_rtranclp)

lemma seg_length_1: "readable s \<Longrightarrow> seg_length s = 1 \<longleftrightarrow> tl (seg_toString s) = []"
  using length_toString[of s] readable_nonempty[of s]
  by (cases "seg_toString s") (auto simp: readable_def stream_inv_def)

lemma advancePastNonNewline_advanced:
  "stream_inv s \<Longrightarrow> seg_currentChar s \<noteq> chLF \<Longrightarrow>
   \<exists>s'. advancePastNonNewline s = Some s' \<and> advanced s s'"
  using seg_advance_advanced[of s] by (simp add: advancePastNonNewline_def)

lemma process_no_skip:
  assumes "readable s" "pre_nextInputCharacter p = seg_currentChar s"
    "\<not> (pre_nextInputCharacter p = chLF \<and> pre_skipNextNewLine p)"
  shows "peek_ok s (classify skipNulls (seg_closed s) (seg_toString s))
           (processNextInputCharacter skipNulls p s)"
  using assms
proof (induction "seg_toString s" arbitrary: s p)
  case Nil
  then show ?case using readable_nonempty by fastforce
next
  case (Cons c cs)
  have cur: "seg_currentChar s = c" and inv: "stream_inv s"
    using Cons.prems(1) Cons.hyps(2)[symmetric] readable_currentChar[of s] by (auto simp: readable_def)
  show ?case
  proof (cases "c = 0 \<and> \<not> (seg_closed s \<and> cs = []) \<and> skipNulls")
    case True
    from advancePastNonNewline_advanced[OF inv] cur True obtain s2 where
      s2: "advancePastNonNewline s = Some s2" "advanced s s2" by auto
    note ra = readable_advanced[OF Cons.prems(1) s2(2)]
    have cs: "seg_toString s2 = cs" "seg_closed s2 = seg_closed s" "stream_inv s2"
      using s2(2) Cons.hyps(2)[symmetric] by (auto simp: advanced_def)
    have eof: "\<not> shouldTreatNullAsEndOfFileMarker s"
      using True seg_length_1[OF Cons.prems(1)] Cons.hyps(2)[symmetric]
      by (auto simp: shouldTreatNullAsEndOfFileMarker_def)
    show ?thesis
    proof (cases "cs = []")
      case nil: True
      with True s2 cs ra eof cur Cons.prems Cons.hyps(2)[symmetric] show ?thesis
        by (subst processNextInputCharacter.simps) (auto simp: peek_ok_def)
    next
      case False
      let ?p = "p\<lparr>pre_skipNextNewLine := False, pre_nextInputCharacter := seg_currentChar s2\<rparr>"
      have "peek_ok s2 (classify skipNulls (seg_closed s2) (seg_toString s2))
              (processNextInputCharacter skipNulls ?p s2)"
        by (rule Cons.hyps(1)) (use ra cs False Cons.hyps(2)[symmetric] in auto)
      note peek_ok_advanced[OF s2(2) this]
      with True s2(1) cs ra eof cur False Cons.prems Cons.hyps(2)[symmetric] show ?thesis
        by (subst processNextInputCharacter.simps) auto
    qed
  next
    case False
    then show ?thesis
      using cur Cons.prems Cons.hyps(2)[symmetric] seg_length_1[OF Cons.prems(1)]
      by (subst processNextInputCharacter.simps)
        (auto simp: peek_ok_def shouldTreatNullAsEndOfFileMarker_def)
  qed
qed


lemma process_spec:
  assumes r: "readable s" and n: "pre_nextInputCharacter p = seg_currentChar s"
  shows "peek_ok s
     (peek_spec skipNulls (seg_closed s) (pre_skipNextNewLine p) (seg_toString s))
     (processNextInputCharacter skipNulls p s)"
proof (cases "pre_nextInputCharacter p = chLF \<and> pre_skipNextNewLine p")
  case False
  have "\<not> (pre_skipNextNewLine p \<and> seg_toString s \<noteq> [] \<and> hd (seg_toString s) = chLF)"
    using False n readable_currentChar[OF r] by auto
  then have "peek_spec skipNulls (seg_closed s) (pre_skipNextNewLine p) (seg_toString s) =
      classify skipNulls (seg_closed s) (seg_toString s)"
    by (auto simp: peek_spec_def)
  with process_no_skip[OF r n False, of skipNulls] show ?thesis by simp
next
  case True
  have inv: "stream_inv s" using r by (simp add: readable_def)
  obtain s1 where s1: "advancePastNewlineAndUpdateLineNumber s = Some s1" "advanced s s1"
    using advancePastNewline_advanced[OF inv] True n by auto
  note ra = readable_advanced[OF r s1(2)]
  have cs: "seg_toString s1 = tl (seg_toString s)" "seg_closed s1 = seg_closed s" "stream_inv s1"
    using s1(2) by (auto simp: advanced_def)
  have hd: "seg_toString s \<noteq> []" "hd (seg_toString s) = chLF"
    using readable_nonempty[OF r] readable_currentChar[OF r] True n by auto
  show ?thesis
  proof (cases "tl (seg_toString s) = []")
    case nil: True
    with True s1 ra cs n hd show ?thesis
      by (subst processNextInputCharacter.simps) (auto simp: peek_ok_def peek_spec_def)
  next
    case ne: False
    let ?p = "p\<lparr>pre_skipNextNewLine := False, pre_nextInputCharacter := seg_currentChar s1\<rparr>"
    have "processNextInputCharacter skipNulls p s = processNextInputCharacter skipNulls ?p s1"
      using True s1 ra cs n ne
      by (subst (1 2) processNextInputCharacter.simps) simp
    with process_no_skip[of s1 ?p skipNulls] ra ne cs True hd show ?thesis
      by (intro peek_ok_advanced[OF s1(2)]) (simp add: peek_spec_def)
  qed
qed

lemma mask_fast_reject:
  "c AND NOT specialCharacterMask \<noteq> 0 \<Longrightarrow> c \<noteq> chLF \<and> c \<noteq> chCR \<and> c \<noteq> 0"
  by (auto simp: specialCharacterMask_def)

lemma pre_peek_spec:
  assumes r: "readable s"
  shows "peek_ok s
     (peek_spec skipNulls (seg_closed s) (pre_skipNextNewLine p) (seg_toString s))
     (pre_peek skipNulls p s)"
proof (cases "seg_currentChar s AND NOT specialCharacterMask \<noteq> 0")
  case True
  obtain c cs where cs: "seg_toString s = c # cs" using readable_nonempty[OF r] by (cases "seg_toString s") auto
  with True mask_fast_reject[OF True] readable_currentChar[OF r] r show ?thesis
    by (simp add: pre_peek_def peek_ok_def peek_spec_def)
next
  case False
  with process_spec[OF r, of "p\<lparr>pre_nextInputCharacter := seg_currentChar s\<rparr>" skipNulls] show ?thesis
    by (simp add: pre_peek_def)
qed

lemma pre_advance_spec:
  assumes r: "readable s"
  obtains s1 where "advanced s s1"
    "peek_ok s1 (peek_spec skipNulls (seg_closed s) (pre_skipNextNewLine p) (tl (seg_toString s)))
       (pre_advance skipNulls p s) \<or>
     tl (seg_toString s) = [] \<and> pre_advance skipNulls p s = Some (False, p, s1)"
proof -
  have inv: "stream_inv s" using r by (simp add: readable_def)
  obtain s1 where s1: "advanceAndUpdateLineNumber s = Some s1" "advanced s s1"
    using advanceAndUpdateLineNumber_advanced[OF inv] by auto
  note ra = readable_advanced[OF r s1(2)]
  show ?thesis
    by (rule that[OF s1(2)])
      (use s1 ra pre_peek_spec[of s1 skipNulls p] in \<open>auto simp: pre_advance_def advanced_def\<close>)
qed

section \<open>Preprocessing a whole stream\<close>

text \<open>
  \<open>normalize\<close> is the preprocessing the HTML standard asks for, on a whole text: \<open>skip\<close> says
  that a leading LF belongs to a CR already seen.
\<close>

fun normalize :: "bool \<Rightarrow> bool \<Rightarrow> bool \<Rightarrow> UChar list \<Rightarrow> UChar list" where
  "normalize skipNulls closed skip [] = []"
| "normalize skipNulls closed skip (c # cs) =
     (if skip \<and> c = chLF then normalize skipNulls closed False cs
      else if c = chCR then chLF # normalize skipNulls closed True cs
      else if c = 0 \<and> \<not> (closed \<and> cs = []) then
        (if skipNulls then normalize skipNulls closed False cs
         else 0xFFFD # normalize skipNulls closed False cs)
      else c # normalize skipNulls closed False cs)"

text \<open>Reading as the tokenizer does: peek once, then advance until nothing is left.\<close>

fun read_rest :: "nat \<Rightarrow> bool \<Rightarrow> InputStreamPreprocessor \<Rightarrow> SegmentedString \<Rightarrow> UChar list option" where
  "read_rest 0 skipNulls p s = None"
| "read_rest (Suc n) skipNulls p s = do {
     (more, p1, s1) \<leftarrow> pre_advance skipNulls p s;
     if more then do { cs \<leftarrow> read_rest n skipNulls p1 s1; Some (pre_nextInputCharacter p1 # cs) }
     else Some [] }"

definition read_preprocessed :: "bool \<Rightarrow> InputStreamPreprocessor \<Rightarrow> SegmentedString \<Rightarrow> UChar list option" where
  "read_preprocessed skipNulls p s =
     (if seg_empty s then Some []
      else do {
        (more, p1, s1) \<leftarrow> pre_peek skipNulls p s;
        if more then do {
          cs \<leftarrow> read_rest (length (seg_toString s)) skipNulls p1 s1;
          Some (pre_nextInputCharacter p1 # cs) }
        else Some [] })"

lemma normalize_classify:
  "normalize skipNulls closed skip cs = (case peek_spec skipNulls closed skip cs of
     None \<Rightarrow> [] | Some (c, skip', cs') \<Rightarrow> c # normalize skipNulls closed skip' (tl cs'))"
proof (induction cs arbitrary: skip)
  case Nil
  then show ?case by (simp add: peek_spec_def)
next
  case (Cons a cs)
  then show ?case
    by (cases cs) (auto simp: peek_spec_def split: option.splits)
qed

lemma peek_spec_length:
  "peek_spec skipNulls closed skip cs = Some (c, skip', cs') \<Longrightarrow> length cs' \<le> length cs \<and> cs' \<noteq> []"
proof -
  have "classify skipNulls closed xs = Some (c, skip', cs') \<Longrightarrow> length cs' \<le> length xs \<and> cs' \<noteq> []" for xs
    by (induction xs) (auto split: if_splits)
  then show "peek_spec skipNulls closed skip cs = Some (c, skip', cs') \<Longrightarrow> length cs' \<le> length cs \<and> cs' \<noteq> []"
    by (fastforce simp: peek_spec_def split: if_splits)
qed

lemma read_rest_normalizes:
  "readable s \<Longrightarrow> length (seg_toString s) \<le> n \<Longrightarrow>
   read_rest n skipNulls p s =
     Some (normalize skipNulls (seg_closed s) (pre_skipNextNewLine p) (tl (seg_toString s)))"
proof (induction n arbitrary: p s)
  case 0
  then show ?case using readable_nonempty[of s] by simp
next
  case (Suc n)
  let ?spec = "peek_spec skipNulls (seg_closed s) (pre_skipNextNewLine p) (tl (seg_toString s))"
  obtain s0 where s0: "advanced s s0" "peek_ok s0 ?spec (pre_advance skipNulls p s) \<or>
      tl (seg_toString s) = [] \<and> pre_advance skipNulls p s = Some (False, p, s0)"
    using pre_advance_spec[OF Suc.prems(1)] by metis
  from s0(2) show ?case
  proof (elim disjE)
    assume "peek_ok s0 ?spec (pre_advance skipNulls p s)"
    from peek_ok_advanced[OF s0(1) this] have ok: "peek_ok s ?spec (pre_advance skipNulls p s)" .
    show ?thesis
    proof (cases ?spec)
      case None
      with ok normalize_classify[of skipNulls "seg_closed s" "pre_skipNextNewLine p" "tl (seg_toString s)"]
      show ?thesis by (auto simp: peek_ok_def)
    next
      case (Some x)
      obtain c skip' cs' where x: "x = (c, skip', cs')" by (cases x)
      with ok Some obtain p1 s1 where
        1: "pre_advance skipNulls p s = Some (True, p1, s1)" "readable s1" "seg_toString s1 = cs'"
          "seg_closed s1 = seg_closed s" "pre_nextInputCharacter p1 = c" "pre_skipNextNewLine p1 = skip'"
        by (auto simp: peek_ok_def)
      have "length (seg_toString s1) \<le> n"
        using peek_spec_length[OF Some[unfolded x]] 1(3) Suc.prems(2) by auto
      from Suc.IH[OF 1(2) this] 1 Some x
        normalize_classify[of skipNulls "seg_closed s" "pre_skipNextNewLine p" "tl (seg_toString s)"]
      show ?thesis by simp
    qed
  qed auto
qed

section \<open>Properties\<close>

text \<open>Peeking at the next input character, through the bit-mask fast path or the retry loop, always
  returns, and returns what the reference classification of the remaining characters says: the next
  character with CR and CR LF turned into LF, NULs dropped or replaced by U+FFFD, and the end-of-file
  NUL kept; it reports failure exactly when nothing is left.\<close>

lemma peek_matches_classification:
  assumes "readable s"
  shows "case peek_spec skipNulls (seg_closed s) (pre_skipNextNewLine p) (seg_toString s) of
      None \<Rightarrow> \<exists>p' s'. pre_peek skipNulls p s = Some (False, p', s') \<and> stream_inv s' \<and> seg_toString s' = []
    | Some (c, skip, cs) \<Rightarrow> \<exists>p' s'. pre_peek skipNulls p s = Some (True, p', s') \<and> readable s' \<and>
        seg_toString s' = cs \<and> pre_nextInputCharacter p' = c \<and> pre_skipNextNewLine p' = skip"
  using pre_peek_spec[OF assms, of skipNulls p] by (auto simp: peek_ok_def split: option.splits)

text \<open>C7: Reading a whole stream through the preprocessor returns the normalised text: every CR LF and
  every lone CR becomes one LF, NULs are dropped or replaced, whatever the segmentation of the stream.\<close>

theorem preprocessing_normalizes:
  assumes "readable s"
  shows "read_preprocessed skipNulls p s =
     Some (normalize skipNulls (seg_closed s) (pre_skipNextNewLine p) (seg_toString s))"
proof -
  let ?spec = "peek_spec skipNulls (seg_closed s) (pre_skipNextNewLine p) (seg_toString s)"
  have ok: "peek_ok s ?spec (pre_peek skipNulls p s)" by (rule pre_peek_spec[OF assms])
  note nc = normalize_classify[of skipNulls "seg_closed s" "pre_skipNextNewLine p" "seg_toString s"]
  show ?thesis
  proof (cases ?spec)
    case None
    with ok nc assms show ?thesis
      by (auto simp: peek_ok_def read_preprocessed_def readable_def)
  next
    case (Some x)
    obtain c skip' cs' where x: "x = (c, skip', cs')" by (cases x)
    with ok Some obtain p1 s1 where
      1: "pre_peek skipNulls p s = Some (True, p1, s1)" "readable s1" "seg_toString s1 = cs'"
        "seg_closed s1 = seg_closed s" "pre_nextInputCharacter p1 = c" "pre_skipNextNewLine p1 = skip'"
      by (auto simp: peek_ok_def)
    have "length (seg_toString s1) \<le> length (seg_toString s)"
      using peek_spec_length[OF Some[unfolded x]] 1(3) by auto
    from read_rest_normalizes[OF 1(2) this] 1 Some x nc assms show ?thesis
      by (simp add: read_preprocessed_def readable_def)
  qed
qed

theorem preprocessing_normalizes_witness:
  "read_preprocessed False (pre_reset False)
     (the (makeSegmentedString (Latin1 [0x61, 0x0D, 0x0A, 0x0D, 0x00]))) =
   Some [0x61, 0x0A, 0x0A, 0xFFFD]"
proof -
  let ?s = "the (makeSegmentedString (Latin1 [0x61, 0x0D, 0x0A, 0x0D, 0x00]))"
  have s: "stream_inv ?s" "seg_toString ?s = [0x61, 0x0D, 0x0A, 0x0D, 0x00]" "\<not> seg_closed ?s"
    using makeSegmentedString_inv[of "Latin1 [0x61, 0x0D, 0x0A, 0x0D, 0x00]"] by auto
  then have "readable ?s"
    using toString_Nil_iff[of ?s] makeSegmentedString_inv[of "Latin1 [0x61, 0x0D, 0x0A, 0x0D, 0x00]"]
    by (auto simp: readable_def stream_inv_def stream_core_def makeSubstring_def)
  from preprocessing_normalizes[OF this, of False "pre_reset False"] s(2,3) show ?thesis
    by (simp add: pre_reset_def)
qed

end
