(* ===== verification/HTML_Token.thy ===== *)
theory HTML_Token
  imports Segmented_String
begin

text \<open>
  The token the tokenizer fills, \<open>HTMLToken\<close> and \<open>DoctypeData\<close> of
  \<open>src/Source/WebCore/html/parser/HTMLToken.h\<close>.

  Every member function that asserts something about the token's type, or follows
  \<open>m_currentAttribute\<close> or \<open>m_doctypeData\<close>, returns an \<open>option\<close>. The pointer into
  the attribute vector is the index of the attribute it points to: \<open>addNewAttribute\<close> recomputes it
  after every growth of the vector. Fields the constructor leaves uninitialised
  (\<open>m_selfClosing\<close>, \<open>m_currentAttribute\<close>) start as \<open>False\<close> and the null pointer;
  the begin operations set both before anything reads them. Offsets are \<open>int\<close>.
\<close>

section \<open>Data\<close>

record DoctypeData =
  dt_hasPublicIdentifier :: bool
  dt_hasSystemIdentifier :: bool
  dt_publicIdentifier :: "UChar list"
  dt_systemIdentifier :: "UChar list"
  dt_forceQuirks :: bool

definition newDoctypeData :: DoctypeData where
  "newDoctypeData = \<lparr>dt_hasPublicIdentifier = False, dt_hasSystemIdentifier = False,
     dt_publicIdentifier = [], dt_systemIdentifier = [], dt_forceQuirks = False\<rparr>"

datatype TokenType = Uninitialized | DOCTYPE | StartTag | EndTag | Comment | Character | EndOfFile

record Range =
  rg_start :: int
  rg_end :: int

record TokenAttribute =
  attr_nameRange :: Range
  attr_valueRange :: Range
  attr_name :: "UChar list"
  attr_value :: "UChar list"

record HTMLToken =
  tok_type :: TokenType
  tok_range :: Range
  tok_baseOffset :: int
  tok_data :: "UChar list"
  tok_orAllData :: UChar
  tok_selfClosing :: bool
  tok_attributes :: "TokenAttribute list"
  tok_currentAttribute :: "nat option"
  tok_doctypeData :: "DoctypeData option"

abbreviation zeroRange :: Range where "zeroRange \<equiv> \<lparr>rg_start = 0, rg_end = 0\<rparr>"

section \<open>Operations on any token\<close>

definition tok_clear :: "HTMLToken \<Rightarrow> HTMLToken" where
  "tok_clear t = t\<lparr>tok_type := Uninitialized, tok_range := zeroRange, tok_baseOffset := 0,
     tok_data := [], tok_orAllData := 0\<rparr>"

definition newHTMLToken :: HTMLToken where
  "newHTMLToken = tok_clear \<lparr>tok_type = Uninitialized, tok_range = zeroRange, tok_baseOffset = 0,
     tok_data = [], tok_orAllData = 0, tok_selfClosing = False, tok_attributes = [],
     tok_currentAttribute = None, tok_doctypeData = None\<rparr>"

definition isUninitialized :: "HTMLToken \<Rightarrow> bool" where
  "isUninitialized t \<longleftrightarrow> tok_type t = Uninitialized"

definition makeEndOfFile :: "HTMLToken \<Rightarrow> HTMLToken option" where
  "makeEndOfFile t = do { ASSERT (tok_type t = Uninitialized); Some (t\<lparr>tok_type := EndOfFile\<rparr>) }"

definition setBaseOffset :: "int \<Rightarrow> HTMLToken \<Rightarrow> HTMLToken" where
  "setBaseOffset offset t = t\<lparr>tok_baseOffset := offset\<rparr>"

definition tok_end :: "int \<Rightarrow> HTMLToken \<Rightarrow> HTMLToken" where
  "tok_end endOffset t = t\<lparr>tok_range := (tok_range t)\<lparr>rg_end := endOffset - tok_baseOffset t\<rparr>\<rparr>"

definition isAll8BitData :: "HTMLToken \<Rightarrow> bool" where
  "isAll8BitData t \<longleftrightarrow> tok_orAllData t \<le> 0xFF"

definition token_data :: "HTMLToken \<Rightarrow> UChar list option" where
  "token_data t = do { ASSERT (tok_type t \<in> {Character, Comment, StartTag, EndTag}); Some (tok_data t) }"

definition token_name :: "HTMLToken \<Rightarrow> UChar list option" where
  "token_name t = do { ASSERT (tok_type t \<in> {StartTag, EndTag, DOCTYPE}); Some (tok_data t) }"

text \<open>The pair of statements \<open>m_data.append(character); m_orAllData |= character;\<close>.\<close>

definition appendData :: "UChar \<Rightarrow> HTMLToken \<Rightarrow> HTMLToken" where
  "appendData character t = t\<lparr>tok_data := tok_data t @ [character],
     tok_orAllData := tok_orAllData t OR character\<rparr>"

definition appendToName :: "UChar \<Rightarrow> HTMLToken \<Rightarrow> HTMLToken option" where
  "appendToName character t = do {
     ASSERT (tok_type t \<in> {StartTag, EndTag, DOCTYPE});
     ASSERT (character \<noteq> 0);
     Some (appendData character t) }"

section \<open>DOCTYPE tokens\<close>

text \<open>Following \<open>m_doctypeData\<close>, which must not be null.\<close>

definition onDoctypeData :: "(DoctypeData \<Rightarrow> DoctypeData) \<Rightarrow> HTMLToken \<Rightarrow> HTMLToken option" where
  "onDoctypeData f t = do { d \<leftarrow> tok_doctypeData t; Some (t\<lparr>tok_doctypeData := Some (f d)\<rparr>) }"

definition forceQuirks :: "HTMLToken \<Rightarrow> bool option" where
  "forceQuirks t = do { ASSERT (tok_type t = DOCTYPE); d \<leftarrow> tok_doctypeData t; Some (dt_forceQuirks d) }"

definition setForceQuirks :: "HTMLToken \<Rightarrow> HTMLToken option" where
  "setForceQuirks t = do {
     ASSERT (tok_type t = DOCTYPE);
     onDoctypeData (\<lambda>d. d\<lparr>dt_forceQuirks := True\<rparr>) t }"

definition beginDOCTYPE :: "HTMLToken \<Rightarrow> HTMLToken option" where
  "beginDOCTYPE t = do {
     ASSERT (tok_type t = Uninitialized);
     Some (t\<lparr>tok_type := DOCTYPE, tok_doctypeData := Some newDoctypeData\<rparr>) }"

definition beginDOCTYPE_char :: "UChar \<Rightarrow> HTMLToken \<Rightarrow> HTMLToken option" where
  "beginDOCTYPE_char character t = do {
     ASSERT (character \<noteq> 0);
     t1 \<leftarrow> beginDOCTYPE t;
     Some (appendData character t1) }"

definition publicIdentifier :: "HTMLToken \<Rightarrow> UChar list option" where
  "publicIdentifier t = do {
     ASSERT (tok_type t = DOCTYPE); d \<leftarrow> tok_doctypeData t; Some (dt_publicIdentifier d) }"

definition systemIdentifier :: "HTMLToken \<Rightarrow> UChar list option" where
  "systemIdentifier t = do {
     ASSERT (tok_type t = DOCTYPE); d \<leftarrow> tok_doctypeData t; Some (dt_systemIdentifier d) }"

definition setPublicIdentifierToEmptyString :: "HTMLToken \<Rightarrow> HTMLToken option" where
  "setPublicIdentifierToEmptyString t = do {
     ASSERT (tok_type t = DOCTYPE);
     onDoctypeData (\<lambda>d. d\<lparr>dt_hasPublicIdentifier := True, dt_publicIdentifier := []\<rparr>) t }"

definition setSystemIdentifierToEmptyString :: "HTMLToken \<Rightarrow> HTMLToken option" where
  "setSystemIdentifierToEmptyString t = do {
     ASSERT (tok_type t = DOCTYPE);
     onDoctypeData (\<lambda>d. d\<lparr>dt_hasSystemIdentifier := True, dt_systemIdentifier := []\<rparr>) t }"

definition appendToPublicIdentifier :: "UChar \<Rightarrow> HTMLToken \<Rightarrow> HTMLToken option" where
  "appendToPublicIdentifier character t = do {
     ASSERT (character \<noteq> 0);
     ASSERT (tok_type t = DOCTYPE);
     d \<leftarrow> tok_doctypeData t;
     ASSERT (dt_hasPublicIdentifier d);
     onDoctypeData (\<lambda>d. d\<lparr>dt_publicIdentifier := dt_publicIdentifier d @ [character]\<rparr>) t }"

definition appendToSystemIdentifier :: "UChar \<Rightarrow> HTMLToken \<Rightarrow> HTMLToken option" where
  "appendToSystemIdentifier character t = do {
     ASSERT (character \<noteq> 0);
     ASSERT (tok_type t = DOCTYPE);
     d \<leftarrow> tok_doctypeData t;
     ASSERT (dt_hasSystemIdentifier d);
     onDoctypeData (\<lambda>d. d\<lparr>dt_systemIdentifier := dt_systemIdentifier d @ [character]\<rparr>) t }"

definition releaseDoctypeData :: "HTMLToken \<Rightarrow> DoctypeData option \<times> HTMLToken" where
  "releaseDoctypeData t = (tok_doctypeData t, t\<lparr>tok_doctypeData := None\<rparr>)"

section \<open>Start and end tag tokens\<close>

abbreviation isTagType :: "TokenType \<Rightarrow> bool" where
  "isTagType ty \<equiv> ty \<in> {StartTag, EndTag}"

definition selfClosing :: "HTMLToken \<Rightarrow> bool option" where
  "selfClosing t = do { ASSERT (isTagType (tok_type t)); Some (tok_selfClosing t) }"

definition setSelfClosing :: "HTMLToken \<Rightarrow> HTMLToken option" where
  "setSelfClosing t = do { ASSERT (isTagType (tok_type t)); Some (t\<lparr>tok_selfClosing := True\<rparr>) }"

definition beginStartTag :: "UChar \<Rightarrow> HTMLToken \<Rightarrow> HTMLToken option" where
  "beginStartTag character t = do {
     ASSERT (character \<noteq> 0);
     ASSERT (tok_type t = Uninitialized);
     Some (appendData character (t\<lparr>tok_type := StartTag, tok_selfClosing := False,
       tok_currentAttribute := None, tok_attributes := []\<rparr>)) }"

definition beginEndTag :: "LChar \<Rightarrow> HTMLToken \<Rightarrow> HTMLToken option" where
  "beginEndTag character t = do {
     ASSERT (tok_type t = Uninitialized);
     Some (t\<lparr>tok_type := EndTag, tok_selfClosing := False, tok_currentAttribute := None,
       tok_attributes := [], tok_data := tok_data t @ [ucast character]\<rparr>) }"

definition beginEndTag_vector :: "LChar list \<Rightarrow> HTMLToken \<Rightarrow> HTMLToken option" where
  "beginEndTag_vector cs t = do {
     ASSERT (tok_type t = Uninitialized);
     Some (t\<lparr>tok_type := EndTag, tok_selfClosing := False, tok_currentAttribute := None,
       tok_attributes := [], tok_data := tok_data t @ map ucast cs\<rparr>) }"

definition addNewAttribute :: "HTMLToken \<Rightarrow> HTMLToken option" where
  "addNewAttribute t = do {
     ASSERT (isTagType (tok_type t));
     Some (t\<lparr>tok_attributes := tok_attributes t @
         [\<lparr>attr_nameRange = zeroRange, attr_valueRange = zeroRange, attr_name = [], attr_value = []\<rparr>],
       tok_currentAttribute := Some (length (tok_attributes t))\<rparr>) }"

text \<open>Following \<open>m_currentAttribute\<close>.\<close>

definition currentAttribute :: "HTMLToken \<Rightarrow> TokenAttribute option" where
  "currentAttribute t = do {
     i \<leftarrow> tok_currentAttribute t;
     if i < length (tok_attributes t) then Some (tok_attributes t ! i) else None }"

definition onCurrentAttribute :: "(TokenAttribute \<Rightarrow> TokenAttribute) \<Rightarrow> HTMLToken \<Rightarrow> HTMLToken option" where
  "onCurrentAttribute f t = do {
     i \<leftarrow> tok_currentAttribute t;
     if i < length (tok_attributes t)
     then Some (t\<lparr>tok_attributes := (tok_attributes t)[i := f (tok_attributes t ! i)]\<rparr>) else None }"

definition beginAttributeName :: "int \<Rightarrow> HTMLToken \<Rightarrow> HTMLToken option" where
  "beginAttributeName offset t = onCurrentAttribute (\<lambda>a. a\<lparr>attr_nameRange :=
     (attr_nameRange a)\<lparr>rg_start := offset - tok_baseOffset t\<rparr>\<rparr>) t"

definition endAttributeName :: "int \<Rightarrow> HTMLToken \<Rightarrow> HTMLToken option" where
  "endAttributeName offset t = (let index = offset - tok_baseOffset t in
     onCurrentAttribute (\<lambda>a. a\<lparr>attr_nameRange := (attr_nameRange a)\<lparr>rg_end := index\<rparr>,
       attr_valueRange := \<lparr>rg_start = index, rg_end = index\<rparr>\<rparr>) t)"

definition beginAttributeValue :: "int \<Rightarrow> HTMLToken \<Rightarrow> HTMLToken option" where
  "beginAttributeValue offset t = onCurrentAttribute (\<lambda>a. a\<lparr>attr_valueRange :=
     \<lparr>rg_start = offset - tok_baseOffset t, rg_end = 0\<rparr>\<rparr>) t"

definition endAttributeValue :: "int \<Rightarrow> HTMLToken \<Rightarrow> HTMLToken option" where
  "endAttributeValue offset t = onCurrentAttribute (\<lambda>a. a\<lparr>attr_valueRange :=
     (attr_valueRange a)\<lparr>rg_end := offset - tok_baseOffset t\<rparr>\<rparr>) t"

definition appendToAttributeName :: "UChar \<Rightarrow> HTMLToken \<Rightarrow> HTMLToken option" where
  "appendToAttributeName character t = do {
     ASSERT (character \<noteq> 0);
     ASSERT (isTagType (tok_type t));
     onCurrentAttribute (\<lambda>a. a\<lparr>attr_name := attr_name a @ [character]\<rparr>) t }"

definition appendToAttributeValue :: "UChar \<Rightarrow> HTMLToken \<Rightarrow> HTMLToken option" where
  "appendToAttributeValue character t = do {
     ASSERT (character \<noteq> 0);
     ASSERT (isTagType (tok_type t));
     a \<leftarrow> currentAttribute t;
     ASSERT (rg_start (attr_valueRange a) \<noteq> 0);
     onCurrentAttribute (\<lambda>a. a\<lparr>attr_value := attr_value a @ [character]\<rparr>) t }"

text \<open>The overload with an index; \<open>Vector::operator[]\<close> fails out of range.\<close>

definition appendToAttributeValue_at :: "nat \<Rightarrow> UChar list \<Rightarrow> HTMLToken \<Rightarrow> HTMLToken option" where
  "appendToAttributeValue_at i value t = do {
     ASSERT (value \<noteq> []);
     ASSERT (isTagType (tok_type t));
     if i < length (tok_attributes t)
     then Some (t\<lparr>tok_attributes := (tok_attributes t)[i :=
       (tok_attributes t ! i)\<lparr>attr_value := attr_value (tok_attributes t ! i) @ value\<rparr>]\<rparr>) else None }"

definition token_attributes :: "HTMLToken \<Rightarrow> TokenAttribute list option" where
  "token_attributes t = do { ASSERT (isTagType (tok_type t)); Some (tok_attributes t) }"

definition getAttributeItem :: "UChar list \<Rightarrow> HTMLToken \<Rightarrow> TokenAttribute option" where
  "getAttributeItem localName t = find (\<lambda>a. attr_name a = localName) (tok_attributes t)"

definition eraseValueOfAttribute :: "nat \<Rightarrow> HTMLToken \<Rightarrow> HTMLToken option" where
  "eraseValueOfAttribute i t = do {
     ASSERT (isTagType (tok_type t));
     if i < length (tok_attributes t)
     then Some (t\<lparr>tok_attributes := (tok_attributes t)[i :=
       (tok_attributes t ! i)\<lparr>attr_value := []\<rparr>]\<rparr>) else None }"

section \<open>Character and comment tokens\<close>

definition ensureIsCharacterToken :: "HTMLToken \<Rightarrow> HTMLToken option" where
  "ensureIsCharacterToken t = do {
     ASSERT (tok_type t \<in> {Uninitialized, Character});
     Some (t\<lparr>tok_type := Character\<rparr>) }"

definition token_characters :: "HTMLToken \<Rightarrow> UChar list option" where
  "token_characters t = do { ASSERT (tok_type t = Character); Some (tok_data t) }"

text \<open>A \<open>char\<close> is widened to a \<open>UChar\<close> with its sign.\<close>

definition appendToCharacter_char :: "8 word \<Rightarrow> HTMLToken \<Rightarrow> HTMLToken option" where
  "appendToCharacter_char character t = do {
     ASSERT (tok_type t = Character);
     Some (t\<lparr>tok_data := tok_data t @ [scast character]\<rparr>) }"

definition appendToCharacter :: "UChar \<Rightarrow> HTMLToken \<Rightarrow> HTMLToken option" where
  "appendToCharacter character t = do {
     ASSERT (tok_type t = Character);
     Some (appendData character t) }"

definition appendToCharacter_vector :: "LChar list \<Rightarrow> HTMLToken \<Rightarrow> HTMLToken option" where
  "appendToCharacter_vector cs t = do {
     ASSERT (tok_type t = Character);
     Some (t\<lparr>tok_data := tok_data t @ map ucast cs\<rparr>) }"

definition token_comment :: "HTMLToken \<Rightarrow> UChar list option" where
  "token_comment t = do { ASSERT (tok_type t = Comment); Some (tok_data t) }"

definition beginComment :: "HTMLToken \<Rightarrow> HTMLToken option" where
  "beginComment t = do { ASSERT (tok_type t = Uninitialized); Some (t\<lparr>tok_type := Comment\<rparr>) }"

definition appendToComment :: "UChar \<Rightarrow> HTMLToken \<Rightarrow> HTMLToken option" where
  "appendToComment character t = do {
     ASSERT (character \<noteq> 0);
     ASSERT (tok_type t = Comment);
     Some (appendData character t) }"

definition eraseCharacters :: "HTMLToken \<Rightarrow> HTMLToken option" where
  "eraseCharacters t = do {
     ASSERT (tok_type t = Character);
     Some (t\<lparr>tok_data := [], tok_orAllData := 0\<rparr>) }"

end
