(* ===== verification/Entity_Search.thy ===== *)
theory Entity_Search
  imports Segmented_String "HOL-Library.Sublist"
begin

text \<open>
  The incremental lookup of named character references,
  \<open>src/Source/WebCore/html/parser/HTMLEntitySearch.h\<close> and \<open>HTMLEntitySearch.cpp\<close>.

  The search keeps a range of a sorted table, the entries that start with the characters read so
  far, and narrows it by two binary searches for each further character. The table itself
  (\<open>HTMLEntityTable\<close>, declared in \<open>HTMLEntityTable.h\<close>) is generated by the build from
  \<open>HTMLEntityNames.in\<close>, so it is a parameter; \<open>table_ok\<close> is what the search relies on:
  the entries are sorted and without duplicates, and the two functions that give the entries
  starting with a letter give the first and the last of them. Pointers into the table are indices.

  The theory shows that after reading \<open>w\<close> the search knows whether \<open>w\<close> starts an entity name
  and which longest entity name \<open>w\<close> starts with.
\<close>

section \<open>Table and search state\<close>

record HTMLEntityTableEntry =
  ent_entity :: "UChar list"   \<comment> \<open>\<open>entity\<close> and \<open>length\<close>\<close>
  ent_firstValue :: UChar32
  ent_secondValue :: UChar32

abbreviation ent_length :: "HTMLEntityTableEntry \<Rightarrow> nat" where
  "ent_length e \<equiv> length (ent_entity e)"

definition lastCharacter :: "HTMLEntityTableEntry \<Rightarrow> UChar option" where
  "lastCharacter e = (if ent_entity e = [] then None else Some (ent_entity e ! (ent_length e - 1)))"

record HTMLEntityTable =
  tab_entries :: "HTMLEntityTableEntry list"
  tab_firstEntryStartingWith :: "UChar \<Rightarrow> nat option"
  tab_lastEntryStartingWith :: "UChar \<Rightarrow> nat option"

definition entryAt :: "HTMLEntityTable \<Rightarrow> nat \<Rightarrow> HTMLEntityTableEntry option" where
  "entryAt T i = (if i < length (tab_entries T) then Some (tab_entries T ! i) else None)"

datatype CompareResult = Before | Prefix | After

record HTMLEntitySearch =
  es_currentLength :: nat
  es_mostRecentMatch :: "nat option"
  es_first :: "nat option"
  es_last :: "nat option"

definition newHTMLEntitySearch :: "HTMLEntityTable \<Rightarrow> HTMLEntitySearch" where
  "newHTMLEntitySearch T = \<lparr>es_currentLength = 0, es_mostRecentMatch = None,
     es_first = Some 0, es_last = Some (length (tab_entries T) - 1)\<rparr>"

definition isEntityPrefix :: "HTMLEntitySearch \<Rightarrow> bool" where
  "isEntityPrefix st \<longleftrightarrow> es_first st \<noteq> None"

definition search_fail :: "HTMLEntitySearch \<Rightarrow> HTMLEntitySearch" where
  "search_fail st = st\<lparr>es_first := None, es_last := None\<rparr>"

definition halfway :: "nat \<Rightarrow> nat \<Rightarrow> nat" where
  "halfway left right = left + (right - left) div 2"

section \<open>Operations\<close>

definition compare :: "HTMLEntityTable \<Rightarrow> nat \<Rightarrow> nat \<Rightarrow> UChar \<Rightarrow> CompareResult option" where
  "compare T currentLength i nextCharacter = do {
     e \<leftarrow> entryAt T i;
     if ent_length e < currentLength + 1 then Some Before
     else
       let entryNextCharacter = ent_entity e ! currentLength in
       Some (if entryNextCharacter = nextCharacter then Prefix
             else if entryNextCharacter < nextCharacter then Before else After) }"

function findFirst_loop ::
  "HTMLEntityTable \<Rightarrow> nat \<Rightarrow> UChar \<Rightarrow> nat \<Rightarrow> nat \<Rightarrow> (nat \<times> nat) option" where
  "findFirst_loop T currentLength nextCharacter left right =
     (if left + 1 < right then do {
        let probe = halfway left right;
        result \<leftarrow> compare T currentLength probe nextCharacter;
        if result = Before then findFirst_loop T currentLength nextCharacter probe right
        else do {
          ASSERT (result = After \<or> result = Prefix);
          findFirst_loop T currentLength nextCharacter left probe } }
      else Some (left, right))"
  by pat_completeness auto
termination
  by (relation "measure (\<lambda>(T, n, c, left, right). right - left)") (auto simp: halfway_def)

definition findFirst :: "HTMLEntityTable \<Rightarrow> UChar \<Rightarrow> HTMLEntitySearch \<Rightarrow> nat option" where
  "findFirst T nextCharacter st = do {
     left \<leftarrow> es_first st;
     right \<leftarrow> es_last st;
     if left = right then Some left
     else do {
       result \<leftarrow> compare T (es_currentLength st) left nextCharacter;
       if result = Prefix then Some left
       else if result = After then Some right
       else do {
         (left1, right1) \<leftarrow> findFirst_loop T (es_currentLength st) nextCharacter left right;
         ASSERT (left1 + 1 = right1);
         Some right1 } } }"

function findLast_loop ::
  "HTMLEntityTable \<Rightarrow> nat \<Rightarrow> UChar \<Rightarrow> nat \<Rightarrow> nat \<Rightarrow> (nat \<times> nat) option" where
  "findLast_loop T currentLength nextCharacter left right =
     (if left + 1 < right then do {
        let probe = halfway left right;
        result \<leftarrow> compare T currentLength probe nextCharacter;
        if result = After then findLast_loop T currentLength nextCharacter left probe
        else do {
          ASSERT (result = Before \<or> result = Prefix);
          findLast_loop T currentLength nextCharacter probe right } }
      else Some (left, right))"
  by pat_completeness auto
termination
  by (relation "measure (\<lambda>(T, n, c, left, right). right - left)") (auto simp: halfway_def)

definition findLast :: "HTMLEntityTable \<Rightarrow> UChar \<Rightarrow> HTMLEntitySearch \<Rightarrow> nat option" where
  "findLast T nextCharacter st = do {
     left \<leftarrow> es_first st;
     right \<leftarrow> es_last st;
     if left = right then Some right
     else do {
       result \<leftarrow> compare T (es_currentLength st) right nextCharacter;
       if result = Prefix then Some right
       else if result = Before then Some left
       else do {
         (left1, right1) \<leftarrow> findLast_loop T (es_currentLength st) nextCharacter left right;
         ASSERT (left1 + 1 = right1);
         Some left1 } } }"

text \<open>\<open>m_first\<close> is assigned before \<open>findLast\<close> reads it.\<close>

definition search_advance :: "HTMLEntityTable \<Rightarrow> UChar \<Rightarrow> HTMLEntitySearch \<Rightarrow> HTMLEntitySearch option" where
  "search_advance T nextCharacter st = do {
     ASSERT (isEntityPrefix st);
     st1 \<leftarrow>
       (if es_currentLength st = 0 then
          let st0 = st\<lparr>es_first := tab_firstEntryStartingWith T nextCharacter,
                       es_last := tab_lastEntryStartingWith T nextCharacter\<rparr> in
          Some (if es_first st0 = None \<or> es_last st0 = None then search_fail st0 else st0)
        else do {
          f \<leftarrow> findFirst T nextCharacter st;
          let st0 = st\<lparr>es_first := Some f\<rparr>;
          l \<leftarrow> findLast T nextCharacter st0;
          let st2 = st0\<lparr>es_last := Some l\<rparr>;
          if f = l then do {
            result \<leftarrow> compare T (es_currentLength st) f nextCharacter;
            Some (if result \<noteq> Prefix then search_fail st2 else st2) }
          else Some st2 });
     case es_first st1 of
       None \<Rightarrow> Some st1
     | Some f \<Rightarrow> do {
         e \<leftarrow> entryAt T f;
         let st3 = st1\<lparr>es_currentLength := es_currentLength st1 + 1\<rparr>;
         Some (if ent_length e \<noteq> es_currentLength st3 then st3
               else st3\<lparr>es_mostRecentMatch := Some f\<rparr>) } }"

text \<open>Reading several characters, stopping as the callers do when no entity can start so.\<close>

fun search_run :: "HTMLEntityTable \<Rightarrow> UChar list \<Rightarrow> HTMLEntitySearch \<Rightarrow> HTMLEntitySearch option" where
  "search_run T [] st = Some st"
| "search_run T (c # cs) st = do {
     st1 \<leftarrow> search_advance T c st;
     if isEntityPrefix st1 then search_run T cs st1 else Some st1 }"

section \<open>What the search relies on\<close>

fun ent_less :: "UChar list \<Rightarrow> UChar list \<Rightarrow> bool" where
  "ent_less xs [] = False"
| "ent_less [] (y # ys) = True"
| "ent_less (x # xs) (y # ys) = (x < y \<or> x = y \<and> ent_less xs ys)"

definition entity :: "HTMLEntityTable \<Rightarrow> nat \<Rightarrow> UChar list" where
  "entity T i = ent_entity (tab_entries T ! i)"

abbreviation table_size :: "HTMLEntityTable \<Rightarrow> nat" where
  "table_size T \<equiv> length (tab_entries T)"

definition starting_with :: "HTMLEntityTable \<Rightarrow> UChar list \<Rightarrow> nat list" where
  "starting_with T w = filter (\<lambda>i. prefix w (entity T i)) [0..<table_size T]"

definition table_ok :: "HTMLEntityTable \<Rightarrow> bool" where
  "table_ok T \<longleftrightarrow>
     sorted_wrt ent_less (map ent_entity (tab_entries T)) \<and>
     list_all (\<lambda>e. ent_entity e \<noteq> []) (tab_entries T) \<and>
     (\<forall>c. tab_firstEntryStartingWith T c =
        (if starting_with T [c] = [] then None else Some (hd (starting_with T [c])))) \<and>
     (\<forall>c. tab_lastEntryStartingWith T c =
        (if starting_with T [c] = [] then None else Some (last (starting_with T [c]))))"

section \<open>Reference semantics\<close>

definition has_prefix :: "HTMLEntityTable \<Rightarrow> UChar list \<Rightarrow> bool" where
  "has_prefix T w \<longleftrightarrow> starting_with T w \<noteq> []"

definition entry_named :: "HTMLEntityTable \<Rightarrow> UChar list \<Rightarrow> nat option" where
  "entry_named T w = List.find (\<lambda>i. entity T i = w) [0..<table_size T]"

definition longest_match :: "HTMLEntityTable \<Rightarrow> UChar list \<Rightarrow> nat option" where
  "longest_match T w =
     (case List.find (\<lambda>k. entry_named T (take k w) \<noteq> None) (rev [1..<Suc (length w)]) of
        None \<Rightarrow> None | Some k \<Rightarrow> entry_named T (take k w))"

definition prefix_length :: "HTMLEntityTable \<Rightarrow> UChar list \<Rightarrow> nat" where
  "prefix_length T w = last (0 # filter (\<lambda>k. has_prefix T (take k w)) [1..<Suc (length w)])"


section \<open>The binary searches\<close>

definition cmp_val :: "HTMLEntityTable \<Rightarrow> nat \<Rightarrow> UChar \<Rightarrow> nat \<Rightarrow> CompareResult" where
  "cmp_val T n c i = (if length (entity T i) < n + 1 then Before
     else if entity T i ! n = c then Prefix else if entity T i ! n < c then Before else After)"

lemma compare_eq: "i < table_size T \<Longrightarrow> compare T n i c = Some (cmp_val T n c i)"
  by (simp add: compare_def entryAt_def cmp_val_def entity_def Let_def)

definition in_order :: "(nat \<Rightarrow> CompareResult) \<Rightarrow> nat \<Rightarrow> nat \<Rightarrow> bool" where
  "in_order f a b \<longleftrightarrow> (\<forall>i j. a \<le> i \<and> i \<le> j \<and> j \<le> b \<longrightarrow>
     (f j = Before \<longrightarrow> f i = Before) \<and> (f i = After \<longrightarrow> f j = After))"

lemma halfway_between: "left + 1 < right \<Longrightarrow> left < halfway left right \<and> halfway left right < right"
  by (auto simp: halfway_def)

declare findFirst_loop.simps [simp del] findLast_loop.simps [simp del]

lemma findFirst_loop_step:
  assumes "right < table_size T" "left + 1 < right"
  shows "findFirst_loop T n c left right =
    (if cmp_val T n c (halfway left right) = Before then findFirst_loop T n c (halfway left right) right
     else findFirst_loop T n c left (halfway left right))"
  using assms halfway_between[OF assms(2)]
  by (subst findFirst_loop.simps) (cases "cmp_val T n c (halfway left right)"; simp add: compare_eq)

lemma findLast_loop_step:
  assumes "right < table_size T" "left + 1 < right"
  shows "findLast_loop T n c left right =
    (if cmp_val T n c (halfway left right) = After then findLast_loop T n c left (halfway left right)
     else findLast_loop T n c (halfway left right) right)"
  using assms halfway_between[OF assms(2)]
  by (subst findLast_loop.simps) (cases "cmp_val T n c (halfway left right)"; simp add: compare_eq)

lemma findFirst_loop_spec:
  assumes "b < table_size T" "right \<le> b" "left < right"
    "cmp_val T n c left = Before" "right = b \<or> cmp_val T n c right \<noteq> Before"
  shows "\<exists>m. findFirst_loop T n c left right = Some (m, m + 1) \<and> left \<le> m \<and> m < right \<and>
     cmp_val T n c m = Before \<and> (m + 1 = b \<or> cmp_val T n c (m + 1) \<noteq> Before)"
  using assms
proof (induction "right - left" arbitrary: left right rule: less_induct)
  case less
  let ?p = "halfway left right"
  show ?case
  proof (cases "left + 1 < right")
    case False
    with less.prems have "right = left + 1" by simp
    with less.prems show ?thesis by (subst findFirst_loop.simps) auto
  next
    case True
    note hb = halfway_between[OF True]
    show ?thesis
    proof (cases "cmp_val T n c ?p = Before")
      case before: True
      have "\<exists>m. findFirst_loop T n c ?p right = Some (m, m + 1) \<and> ?p \<le> m \<and> m < right \<and>
        cmp_val T n c m = Before \<and> (m + 1 = b \<or> cmp_val T n c (m + 1) \<noteq> Before)"
        by (rule less.hyps) (use before hb less.prems in auto)
      then show ?thesis using findFirst_loop_step[of right T left n c] less.prems True before hb by auto
    next
      case False
      have "\<exists>m. findFirst_loop T n c left ?p = Some (m, m + 1) \<and> left \<le> m \<and> m < ?p \<and>
        cmp_val T n c m = Before \<and> (m + 1 = b \<or> cmp_val T n c (m + 1) \<noteq> Before)"
        by (rule less.hyps) (use False hb less.prems in auto)
      then show ?thesis using findFirst_loop_step[of right T left n c] less.prems True False hb by auto
    qed
  qed
qed

lemma findLast_loop_spec:
  assumes "right < table_size T" "left < right" "a \<le> left"
    "cmp_val T n c right = After" "left = a \<or> cmp_val T n c left \<noteq> After"
  shows "\<exists>m. findLast_loop T n c left right = Some (m, m + 1) \<and> left \<le> m \<and> m < right \<and>
     cmp_val T n c (m + 1) = After \<and> (m = a \<or> cmp_val T n c m \<noteq> After)"
  using assms
proof (induction "right - left" arbitrary: left right rule: less_induct)
  case less
  let ?p = "halfway left right"
  show ?case
  proof (cases "left + 1 < right")
    case False
    with less.prems have "right = left + 1" by simp
    with less.prems show ?thesis by (subst findLast_loop.simps) auto
  next
    case True
    note hb = halfway_between[OF True]
    show ?thesis
    proof (cases "cmp_val T n c ?p = After")
      case after: True
      have "\<exists>m. findLast_loop T n c left ?p = Some (m, m + 1) \<and> left \<le> m \<and> m < ?p \<and>
        cmp_val T n c (m + 1) = After \<and> (m = a \<or> cmp_val T n c m \<noteq> After)"
        by (rule less.hyps) (use after hb less.prems in auto)
      then show ?thesis using findLast_loop_step[of right T left n c] less.prems True after hb by auto
    next
      case False
      have "\<exists>m. findLast_loop T n c ?p right = Some (m, m + 1) \<and> ?p \<le> m \<and> m < right \<and>
        cmp_val T n c (m + 1) = After \<and> (m = a \<or> cmp_val T n c m \<noteq> After)"
        by (rule less.hyps) (use False hb less.prems in auto)
      then show ?thesis using findLast_loop_step[of right T left n c] less.prems True False hb by auto
    qed
  qed
qed

lemma findFirst_spec:
  assumes "es_first st = Some a" "es_last st = Some b" "a \<le> b" "b < table_size T"
    "in_order (cmp_val T (es_currentLength st) c) a b"
  shows "\<exists>f. findFirst T c st = Some f \<and> a \<le> f \<and> f \<le> b \<and>
     (\<forall>i. a \<le> i \<and> i < f \<longrightarrow> cmp_val T (es_currentLength st) c i \<noteq> Prefix) \<and>
     (cmp_val T (es_currentLength st) c f = Prefix \<or>
      (\<forall>i. a \<le> i \<and> i \<le> b \<longrightarrow> cmp_val T (es_currentLength st) c i \<noteq> Prefix) \<and>
      (f = b \<or> cmp_val T (es_currentLength st) c f = After))"
proof -
  let ?n = "es_currentLength st" let ?f = "cmp_val T ?n c"
  have ca: "compare T ?n a c = Some (?f a)" using assms by (simp add: compare_eq)
  have ord: "a \<le> i \<Longrightarrow> i \<le> j \<Longrightarrow> j \<le> b \<Longrightarrow> ?f j = Before \<Longrightarrow> ?f i = Before"
    "a \<le> i \<Longrightarrow> i \<le> j \<Longrightarrow> j \<le> b \<Longrightarrow> ?f i = After \<Longrightarrow> ?f j = After" for i j
    using assms(5) by (auto simp: in_order_def)
  show ?thesis
  proof (cases "a = b")
    case True
    with assms show ?thesis by (auto simp: findFirst_def)
  next
    case ab: False
    show ?thesis
    proof (cases "?f a")
      case Prefix
      with ab ca assms show ?thesis by (auto simp: findFirst_def)
    next
      case After
      with ab ca assms ord(2)[of a] show ?thesis by (auto simp: findFirst_def)
    next
      case Before
      then obtain m where m: "findFirst_loop T ?n c a b = Some (m, m + 1)" "a \<le> m" "m < b"
        "?f m = Before" "m + 1 = b \<or> ?f (m + 1) \<noteq> Before"
        using findFirst_loop_spec[of b T b a ?n c] assms ab by auto
      have low: "i \<le> m \<Longrightarrow> a \<le> i \<Longrightarrow> ?f i = Before" for i using ord(1)[of i m] m by simp
      have np: "?f i \<noteq> Prefix" if "?f (m + 1) \<noteq> Prefix" "a \<le> i" "i \<le> b" for i
      proof (cases "i \<le> m")
        case True
        then show ?thesis using low that by simp
      next
        case False
        with that m(5) ord(2)[of "m + 1" i] ord(1)[of i b] show ?thesis
          by (cases "?f (m + 1)") (use m in auto)
      qed
      have "findFirst T c st = Some (m + 1)" using ab ca Before m(1) assms by (simp add: findFirst_def)
      moreover have "?f (m + 1) = Prefix \<or> ((\<forall>i. a \<le> i \<and> i \<le> b \<longrightarrow> ?f i \<noteq> Prefix) \<and>
          (m + 1 = b \<or> ?f (m + 1) = After))"
        using np m(5) by (cases "?f (m + 1)") auto
      ultimately show ?thesis using m low by (intro exI[of _ "m + 1"]) (auto simp: less_Suc_eq_le)
    qed
  qed
qed

lemma findLast_spec:
  assumes "es_first st = Some f" "es_last st = Some b" "f \<le> b" "b < table_size T"
    "in_order (cmp_val T (es_currentLength st) c) f b"
    "cmp_val T (es_currentLength st) c f = Prefix \<or> f = b \<or> cmp_val T (es_currentLength st) c f = After"
  shows "\<exists>l. findLast T c st = Some l \<and> f \<le> l \<and> l \<le> b \<and>
     (if cmp_val T (es_currentLength st) c f = Prefix
      then cmp_val T (es_currentLength st) c l = Prefix \<and>
        (\<forall>i. l < i \<and> i \<le> b \<longrightarrow> cmp_val T (es_currentLength st) c i \<noteq> Prefix)
      else l = f)"
proof -
  let ?n = "es_currentLength st" let ?f = "cmp_val T ?n c"
  have cb: "compare T ?n b c = Some (?f b)" using assms by (simp add: compare_eq)
  have ord: "f \<le> i \<Longrightarrow> i \<le> j \<Longrightarrow> j \<le> b \<Longrightarrow> ?f j = Before \<Longrightarrow> ?f i = Before"
    "f \<le> i \<Longrightarrow> i \<le> j \<Longrightarrow> j \<le> b \<Longrightarrow> ?f i = After \<Longrightarrow> ?f j = After" for i j
    using assms(5) by (auto simp: in_order_def)
  show ?thesis
  proof (cases "f = b")
    case True
    with assms show ?thesis by (auto simp: findLast_def)
  next
    case fb: False
    show ?thesis
    proof (cases "?f b")
      case Prefix
      with fb cb assms ord(2)[of f b] show ?thesis by (auto simp: findLast_def)
    next
      case Before
      with fb assms ord(1)[of f b] show ?thesis by auto
    next
      case After
      then obtain m where m: "findLast_loop T ?n c f b = Some (m, m + 1)" "f \<le> m" "m < b"
        "?f (m + 1) = After" "m = f \<or> ?f m \<noteq> After"
        using findLast_loop_spec[of b T f f ?n c] assms fb by auto
      have "findLast T c st = Some m" using fb cb After m(1) assms by (simp add: findLast_def)
      moreover have "?f i \<noteq> Prefix" if "m < i" "i \<le> b" for i using ord(2)[of "m + 1" i] m that by auto
      moreover have "m = f" if "?f f \<noteq> Prefix" using that m assms(6) fb ord(2)[of f m] by auto
      moreover have "?f m = Prefix" if "?f f = Prefix"
        using that m ord(1)[of f m] by (cases "?f m") auto
      ultimately show ?thesis using m by auto
    qed
  qed
qed

section \<open>Narrowing the range\<close>

definition covers :: "HTMLEntityTable \<Rightarrow> UChar list \<Rightarrow> nat \<Rightarrow> nat \<Rightarrow> bool" where
  "covers T w a b \<longleftrightarrow> a \<le> b \<and> b < table_size T \<and>
     (\<forall>i < table_size T. prefix w (entity T i) \<longleftrightarrow> a \<le> i \<and> i \<le> b)"

lemma ent_less_append: "ent_less (w @ u) (w @ v) = ent_less u v"
  by (induction w) auto

lemma ent_less_irrefl_prefix: "\<not> ent_less (w @ u) w"
  using ent_less_append[of w u "[]"] by simp

lemma table_sorted:
  "table_ok T \<Longrightarrow> i < j \<Longrightarrow> j < table_size T \<Longrightarrow> ent_less (entity T i) (entity T j)"
  by (auto simp: table_ok_def entity_def sorted_wrt_map sorted_wrt_iff_nth_less)

lemma has_prefix_iff: "has_prefix T w \<longleftrightarrow> (\<exists>i < table_size T. prefix w (entity T i))"
  by (auto simp: has_prefix_def starting_with_def filter_empty_conv)

lemma covers_has_prefix: "covers T w a b \<Longrightarrow> has_prefix T w"
  by (auto simp: covers_def has_prefix_iff)

lemma in_order_sub: "in_order f a b \<Longrightarrow> a \<le> a' \<Longrightarrow> in_order f a' b"
  unfolding in_order_def by (meson le_trans)

lemma covers_suffix:
  "covers T w a b \<Longrightarrow> a \<le> i \<Longrightarrow> i \<le> b \<Longrightarrow> \<exists>u. entity T i = w @ u"
  using order.strict_trans1[of i b "table_size T"] unfolding covers_def prefix_def by blast

lemma cmp_val_prefix:
  "prefix w (entity T i) \<Longrightarrow> cmp_val T (length w) c i = Prefix \<longleftrightarrow> prefix (w @ [c]) (entity T i)"
  by (auto simp: cmp_val_def prefix_def nth_append append_eq_Cons_conv neq_Nil_conv
      simp flip: length_greater_0_conv split: if_splits)

lemma cmp_val_less:
  assumes "ent_less u v"
    "entity T i = w @ u" "entity T j = w @ v"
  shows "(cmp_val T (length w) c j = Before \<longrightarrow> cmp_val T (length w) c i = Before) \<and>
    (cmp_val T (length w) c i = After \<longrightarrow> cmp_val T (length w) c j = After)"
  using assms by (cases u; cases v) (auto simp: cmp_val_def)

lemma covers_in_order:
  assumes "table_ok T" "covers T w a b"
  shows "in_order (cmp_val T (length w) c) a b"
  unfolding in_order_def
proof (intro allI impI)
  fix i j assume ij: "a \<le> i \<and> i \<le> j \<and> j \<le> b"
  show "(cmp_val T (length w) c j = Before \<longrightarrow> cmp_val T (length w) c i = Before) \<and>
    (cmp_val T (length w) c i = After \<longrightarrow> cmp_val T (length w) c j = After)"
  proof (cases "i = j")
    case False
    obtain u v where uv: "entity T i = w @ u" "entity T j = w @ v"
      using covers_suffix[OF assms(2), of i] covers_suffix[OF assms(2), of j] ij by auto
    have "ent_less (entity T i) (entity T j)"
      using table_sorted[OF assms(1), of i j] False ij assms(2) by (auto simp: covers_def)
    with cmp_val_less[OF _ uv] show ?thesis using uv by (simp add: ent_less_append)
  qed simp
qed

lemma covers_narrow:
  assumes "covers T w a b" "a \<le> f" "f \<le> l" "l \<le> b"
    "\<And>i. a \<le> i \<Longrightarrow> i < f \<Longrightarrow> cmp_val T (length w) c i \<noteq> Prefix"
    "\<And>i. l < i \<Longrightarrow> i \<le> b \<Longrightarrow> cmp_val T (length w) c i \<noteq> Prefix"
    "\<And>i. f \<le> i \<Longrightarrow> i \<le> l \<Longrightarrow> cmp_val T (length w) c i = Prefix"
  shows "covers T (w @ [c]) f l"
  unfolding covers_def
proof (intro conjI allI impI)
  fix i assume i: "i < table_size T"
  have "prefix (w @ [c]) (entity T i) \<Longrightarrow> a \<le> i \<and> i \<le> b"
    using assms(1) i append_prefixD[of w "[c]"] by (auto simp: covers_def)
  then show "prefix (w @ [c]) (entity T i) \<longleftrightarrow> f \<le> i \<and> i \<le> l"
    using assms i cmp_val_prefix[of w T i c] unfolding covers_def
    by (meson le_trans not_le order.trans)
qed (use assms in \<open>auto simp: covers_def\<close>)

lemma covers_entry_named:
  assumes "table_ok T" "covers T w a b"
  shows "entry_named T w = (if length (entity T a) = length w then Some a else None)"
proof -
  obtain u where u: "entity T a = w @ u"
    using covers_suffix[OF assms(2), of a] assms(2) by (auto simp: covers_def)
  have only: "i = a" if "i < table_size T" "entity T i = w" for i
  proof -
    have "a \<le> i" using assms(2) that by (auto simp: covers_def)
    moreover have "\<not> a < i"
      using table_sorted[OF assms(1), of a i] that u ent_less_irrefl_prefix[of w u] by auto
    ultimately show ?thesis by simp
  qed
  show ?thesis
  proof (cases "u = []")
    case True
    have "entry_named T w = Some a"
    proof (cases "entry_named T w")
      case None
      with True u assms(2) show ?thesis by (auto simp: entry_named_def find_None_iff covers_def)
    next
      case (Some i)
      with only[of i] show ?thesis by (auto simp: entry_named_def find_Some_iff)
    qed
    with True u show ?thesis by simp
  next
    case False
    with only u have "entry_named T w = None" by (auto simp: entry_named_def find_None_iff)
    with False u show ?thesis by simp
  qed
qed

lemma entry_named_has_prefix: "entry_named T w \<noteq> None \<Longrightarrow> has_prefix T w"
  by (auto simp: entry_named_def find_None_iff has_prefix_iff)

lemma has_prefix_append: "has_prefix T (w @ u) \<Longrightarrow> has_prefix T w"
  by (auto simp: has_prefix_iff dest: append_prefixD)

lemma longest_match_Nil [simp]: "longest_match T [] = None"
  by (simp add: longest_match_def)

lemma longest_match_snoc:
  "longest_match T (w @ [c]) =
     (if entry_named T (w @ [c]) \<noteq> None then entry_named T (w @ [c]) else longest_match T w)"
proof -
  let ?find = "\<lambda>v. List.find (\<lambda>k. entry_named T (take k v) \<noteq> None) (rev [1..<Suc (length w)])"
  have eq: "?find (w @ [c]) = ?find w" by (rule find_cong) auto
  have le: "k \<le> length w" if "?find w = Some k" for k using find_SomeD[OF that] by auto
  have upt: "rev [1..<Suc (length (w @ [c]))] = Suc (length w) # rev [1..<Suc (length w)]" by simp
  show ?thesis
    unfolding longest_match_def upt using eq le
    by (cases "?find w") (simp_all del: upt_Suc)
qed

lemma prefix_length_snoc:
  "prefix_length T (w @ [c]) =
     (if has_prefix T (w @ [c]) then Suc (length w) else prefix_length T w)"
proof -
  have "filter (\<lambda>k. has_prefix T (take k (w @ [c]))) [1..<Suc (length w)] =
    filter (\<lambda>k. has_prefix T (take k w)) [1..<Suc (length w)]"
    by (rule filter_cong) auto
  then show ?thesis by (auto simp: prefix_length_def)
qed

lemma longest_match_dead:
  "\<not> has_prefix T w \<Longrightarrow> longest_match T (w @ u) = longest_match T w"
proof (induction u rule: rev_induct)
  case (snoc x xs)
  then have "entry_named T (w @ xs @ [x]) = None"
    using entry_named_has_prefix[of T "w @ xs @ [x]"] has_prefix_append[of T w "xs @ [x]"] by blast
  with snoc longest_match_snoc[of T "w @ xs" x] show ?case by simp
qed simp

lemma prefix_length_dead:
  "\<not> has_prefix T w \<Longrightarrow> prefix_length T (w @ u) = prefix_length T w"
proof (induction u rule: rev_induct)
  case (snoc x xs)
  then have "\<not> has_prefix T (w @ xs @ [x])"
    using has_prefix_append[of T w "xs @ [x]"] by auto
  with snoc prefix_length_snoc[of T "w @ xs" x] show ?case by simp
qed simp

section \<open>The search follows the reference\<close>

definition search_inv :: "HTMLEntityTable \<Rightarrow> UChar list \<Rightarrow> HTMLEntitySearch \<Rightarrow> bool" where
  "search_inv T w st \<longleftrightarrow> es_currentLength st = length w \<and> es_mostRecentMatch st = longest_match T w \<and>
     (\<exists>a b. es_first st = Some a \<and> es_last st = Some b \<and> (w \<noteq> [] \<longrightarrow> covers T w a b))"

lemma search_inv_new: "search_inv T [] (newHTMLEntitySearch T)"
  by (simp add: search_inv_def newHTMLEntitySearch_def)

lemma starting_with_nth_mono:
  "starting_with T w = xs \<Longrightarrow> sorted xs \<and> distinct xs \<and> set xs = {i. i < table_size T \<and> prefix w (entity T i)}"
  by (auto simp: starting_with_def sorted_wrt_filter)

lemma sorted_hd_last: "sorted xs \<Longrightarrow> (x::nat) \<in> set xs \<Longrightarrow> hd xs \<le> x \<and> x \<le> last xs"
  by (induction xs) auto

lemma covers_start:
  assumes "table_ok T" "starting_with T [c] \<noteq> []"
  shows "covers T [c] (hd (starting_with T [c])) (last (starting_with T [c]))"
proof -
  let ?xs = "starting_with T [c]"
  note f = starting_with_nth_mono[of T "[c]" ?xs, OF refl]
  have hl: "hd ?xs \<in> set ?xs" "last ?xs \<in> set ?xs" using assms by simp_all
  obtain u where u: "entity T (hd ?xs) = c # u" using hl f by (auto simp: prefix_def)
  obtain v where v: "entity T (last ?xs) = c # v" using hl f by (auto simp: prefix_def)
  have between: "prefix [c] (entity T i)" if "hd ?xs \<le> i" "i \<le> last ?xs" for i
  proof (cases "i = hd ?xs \<or> i = last ?xs")
    case False
    have "last ?xs < table_size T" using hl f by auto
    then have "ent_less (c # u) (entity T i)" "ent_less (entity T i) (c # v)"
      using table_sorted[OF assms(1), of "hd ?xs" i] table_sorted[OF assms(1), of i "last ?xs"] that False u v
      by auto
    then show ?thesis by (cases "entity T i") auto
  qed (use u v in auto)
  show ?thesis
    unfolding covers_def
  proof (intro conjI allI impI)
    show "hd ?xs \<le> last ?xs" using sorted_hd_last f hl by blast
    show "last ?xs < table_size T" using hl f by auto
    fix i assume "i < table_size T"
    then show "prefix [c] (entity T i) \<longleftrightarrow> hd ?xs \<le> i \<and> i \<le> last ?xs"
      using between[of i] sorted_hd_last[of ?xs i] f by auto
  qed
qed


lemma search_advance_spec:
  assumes ok: "table_ok T" and inv: "search_inv T w st"
  shows "\<exists>st'. search_advance T c st = Some st' \<and>
    (if has_prefix T (w @ [c]) then search_inv T (w @ [c]) st'
     else \<not> isEntityPrefix st' \<and> es_currentLength st' = length w \<and>
       es_mostRecentMatch st' = longest_match T w)"
proof -
  obtain a b where ab: "es_first st = Some a" "es_last st = Some b" "w \<noteq> [] \<longrightarrow> covers T w a b"
    "es_currentLength st = length w" "es_mostRecentMatch st = longest_match T w"
    using inv by (auto simp: search_inv_def)
  have pre: "isEntityPrefix st" by (simp add: isEntityPrefix_def ab)
  have found: "\<exists>st'. (do { e \<leftarrow> entryAt T f;
         let st3 = st1\<lparr>es_currentLength := es_currentLength st1 + 1\<rparr>;
         Some (if ent_length e \<noteq> es_currentLength st3 then st3
               else st3\<lparr>es_mostRecentMatch := Some f\<rparr>) }) = Some st' \<and> search_inv T (w @ [c]) st'"
    if cov: "covers T (w @ [c]) f l" and st1: "st1 = st\<lparr>es_first := Some f, es_last := Some l\<rparr>" for f l st1
  proof -
    have "entryAt T f = Some (tab_entries T ! f)" "ent_length (tab_entries T ! f) = length (entity T f)"
      using cov by (simp_all add: covers_def entryAt_def entity_def)
    with st1 ab cov covers_entry_named[OF ok cov] show ?thesis
      by (auto simp: search_inv_def longest_match_snoc)
  qed
  show ?thesis
  proof (cases "w = []")
    case True
    show ?thesis
    proof (cases "starting_with T [c] = []")
      case none: True
      with True ab ok pre show ?thesis
        by (auto simp: search_advance_def table_ok_def has_prefix_def search_fail_def isEntityPrefix_def)
    next
      case False
      let ?f = "hd (starting_with T [c])" and ?l = "last (starting_with T [c])"
      have "covers T (w @ [c]) ?f ?l" using covers_start[OF ok False] True by simp
      from found[OF this refl] True False ab ok pre show ?thesis
        by (auto simp: search_advance_def table_ok_def has_prefix_def Let_def)
    qed
  next
    case False
    then have cov: "covers T w a b" using ab by simp
    note ord = covers_in_order[OF ok cov, of c]
    let ?v = "cmp_val T (length w) c"
    obtain f where f: "findFirst T c st = Some f" "a \<le> f" "f \<le> b" "\<forall>i. a \<le> i \<and> i < f \<longrightarrow> ?v i \<noteq> Prefix"
      "?v f = Prefix \<or> ((\<forall>i. a \<le> i \<and> i \<le> b \<longrightarrow> ?v i \<noteq> Prefix) \<and> (f = b \<or> ?v f = After))"
      using findFirst_spec[OF ab(1,2), of T c] cov ord ab(4) by (auto simp: covers_def)
    let ?st0 = "st\<lparr>es_first := Some f\<rparr>"
    have "in_order ?v f b" using ord f by (auto intro: in_order_sub)
    then obtain l where l: "findLast T c ?st0 = Some l" "f \<le> l" "l \<le> b"
      "if ?v f = Prefix then ?v l = Prefix \<and> (\<forall>i. l < i \<and> i \<le> b \<longrightarrow> ?v i \<noteq> Prefix) else l = f"
      using findLast_spec[of ?st0 f b T c] f cov ab by (auto simp: covers_def)
    have cmp: "compare T (length w) f c = Some (?v f)" using f cov by (simp add: compare_eq covers_def)
    show ?thesis
    proof (cases "?v f = Prefix")
      case True
      have mid: "?v i = Prefix" if "f \<le> i" "i \<le> l" for i
        using ord True l that f unfolding in_order_def
        by (metis (full_types) CompareResult.exhaust CompareResult.distinct(1) CompareResult.distinct(5) le_trans)
      have c2: "covers T (w @ [c]) f l" by (rule covers_narrow[OF cov f(2) l(2,3)]) (use f l True mid in auto)
      from found[OF c2 refl] covers_has_prefix[OF c2] False ab f(1) l(1) True cmp pre show ?thesis
        by (cases "f = l") (auto simp: search_advance_def Let_def)
    next
      case np: False
      have "\<not> has_prefix T (w @ [c])"
        unfolding has_prefix_iff
      proof safe
        fix i assume i: "i < table_size T" "prefix (w @ [c]) (entity T i)"
        then have "a \<le> i \<and> i \<le> b" "prefix w (entity T i)"
          using cov append_prefixD[of w "[c]"] by (auto simp: covers_def)
        with np f(5) i cmp_val_prefix[of w T i c] show False by auto
      qed
      moreover have "l = f" using np l by simp
      ultimately show ?thesis
        using np ab False f(1) l(1) cmp pre
        by (auto simp: search_advance_def search_fail_def isEntityPrefix_def)
    qed
  qed
qed

lemma search_run_spec:
  assumes "table_ok T" "search_inv T w st" "w = [] \<or> has_prefix T w" "prefix_length T w = length w"
  shows "\<exists>st'. search_run T cs st = Some st' \<and>
     (isEntityPrefix st' \<longleftrightarrow> cs = [] \<or> has_prefix T (w @ cs)) \<and>
     es_currentLength st' = prefix_length T (w @ cs) \<and>
     es_mostRecentMatch st' = longest_match T (w @ cs)"
  using assms(2-)
proof (induction cs arbitrary: w st)
  case Nil
  then show ?case by (auto simp: search_inv_def isEntityPrefix_def)
next
  case (Cons c cs)
  obtain st1 where st1: "search_advance T c st = Some st1"
    "if has_prefix T (w @ [c]) then search_inv T (w @ [c]) st1
     else \<not> isEntityPrefix st1 \<and> es_currentLength st1 = length w \<and> es_mostRecentMatch st1 = longest_match T w"
    using search_advance_spec[OF assms(1) Cons.prems(1)] by blast
  show ?case
  proof (cases "has_prefix T (w @ [c])")
    case True
    then have "isEntityPrefix st1" using st1 by (auto simp: search_inv_def isEntityPrefix_def)
    with Cons.IH[of "w @ [c]" st1] st1 True prefix_length_snoc[of T w c] show ?thesis
      by (auto simp: True)
  next
    case False
    have "longest_match T (w @ [c]) = longest_match T w"
      using longest_match_snoc[of T w c] entry_named_has_prefix[of T "w @ [c]"] False by auto
    with False st1 longest_match_dead[OF False, of cs] prefix_length_dead[OF False, of cs]
      prefix_length_snoc[of T w c] Cons.prems(3) has_prefix_append[of T "w @ [c]" cs]
    show ?thesis by auto
  qed
qed

section \<open>Properties\<close>

text \<open>C5: On any sorted table, reading characters one at a time through the two binary searches never fails
  an assertion or reads outside the table, and afterwards the search knows exactly whether some
  entity name starts with what was read, how many of the characters could still start one, and
  which is the longest entity name that is a prefix of them.\<close>

theorem entity_search_correct:
  assumes "table_ok T"
  shows "\<exists>st. search_run T w (newHTMLEntitySearch T) = Some st \<and>
     (isEntityPrefix st \<longleftrightarrow> w = [] \<or> (\<exists>e \<in> set (tab_entries T). prefix w (ent_entity e))) \<and>
     es_currentLength st = prefix_length T w \<and>
     es_mostRecentMatch st = longest_match T w"
proof -
  have "has_prefix T w \<longleftrightarrow> (\<exists>e \<in> set (tab_entries T). prefix w (ent_entity e))"
    unfolding has_prefix_iff entity_def by (metis in_set_conv_nth)
  then show ?thesis
    using search_run_spec[OF assms search_inv_new, of w] by (simp add: prefix_length_def)
qed

definition sample_entries :: "HTMLEntityTableEntry list" where
  "sample_entries = [
     \<lparr>ent_entity = lit ''amp'', ent_firstValue = 0x26, ent_secondValue = 0\<rparr>,
     \<lparr>ent_entity = lit ''amp;'', ent_firstValue = 0x26, ent_secondValue = 0\<rparr>,
     \<lparr>ent_entity = lit ''lt;'', ent_firstValue = 0x3C, ent_secondValue = 0\<rparr>,
     \<lparr>ent_entity = lit ''not'', ent_firstValue = 0xAC, ent_secondValue = 0\<rparr>,
     \<lparr>ent_entity = lit ''notin;'', ent_firstValue = 0x2209, ent_secondValue = 0\<rparr>]"

definition table_of :: "HTMLEntityTableEntry list \<Rightarrow> HTMLEntityTable" where
  "table_of es = (let T = \<lparr>tab_entries = es, tab_firstEntryStartingWith = (\<lambda>c. None),
       tab_lastEntryStartingWith = (\<lambda>c. None)\<rparr> in
     T\<lparr>tab_firstEntryStartingWith := \<lambda>c. (if starting_with T [c] = [] then None
         else Some (hd (starting_with T [c]))),
       tab_lastEntryStartingWith := \<lambda>c. (if starting_with T [c] = [] then None
         else Some (last (starting_with T [c])))\<rparr>)"

lemma table_of_ok:
  "sorted_wrt ent_less (map ent_entity es) \<Longrightarrow> list_all (\<lambda>e. ent_entity e \<noteq> []) es \<Longrightarrow>
   table_ok (table_of es)"
  by (simp add: table_ok_def table_of_def Let_def starting_with_def entity_def)

lemma sample_table_ok: "table_ok (table_of sample_entries)"
  by (rule table_of_ok) (simp_all add: sample_entries_def lit_def)

theorem entity_search_correct_witness:
  "\<exists>st. search_run (table_of sample_entries) (lit ''notit'') (newHTMLEntitySearch (table_of sample_entries)) = Some st \<and>
     \<not> isEntityPrefix st \<and> es_currentLength st = 4 \<and> es_mostRecentMatch st = Some 3"
proof -
  let ?T = "table_of sample_entries"
  have "prefix_length ?T (lit ''notit'') = 4" "longest_match ?T (lit ''notit'') = Some 3" by code_simp+
  moreover have "\<not> (\<exists>e \<in> set (tab_entries ?T). prefix (lit ''notit'') (ent_entity e))" by code_simp
  moreover have "lit ''notit'' \<noteq> []" by (simp add: lit_def)
  ultimately show ?thesis
    using entity_search_correct[OF sample_table_ok, of "lit ''notit''"] by auto
qed

end
