(* ===== verification/Entity_Parser.thy ===== *)
theory Entity_Parser
  imports Entity_Search Input_Preprocessor
begin

text \<open>
  Character references: \<open>src/Source/WebCore/xml/parser/CharacterReferenceParserInlines.h\<close>,
  instantiated with the functions of \<open>src/Source/WebCore/html/parser/HTMLEntityParser.cpp\<close>.

  The parser consumes the characters after an ampersand and either decodes them, or puts back
  what it consumed: by pushing one or two characters, by prepending more. Code points
  (\<open>UChar32\<close>) are 32-bit words read as signed where the code compares them; the accumulation
  of digits wraps around at 32 bits. \<open>U_IS_BMP\<close> is ICU's, which compares as unsigned.

  \<open>charref_spec\<close> is the reference semantics, a function on plain text, and the refinement
  lemma \<open>consumeHTMLEntity_spec\<close> shows that the implementation computes it on
  every stream, whatever its segmentation and whatever was pushed back before.
\<close>

section \<open>Code points\<close>

definition U_IS_BMP :: "UChar32 \<Rightarrow> bool" where
  "U_IS_BMP c \<longleftrightarrow> c \<le> 0xFFFF"

definition U16_LEAD :: "UChar32 \<Rightarrow> UChar" where
  "U16_LEAD c = ucast (signed_drop_bit 10 c + 0xD7C0)"

definition U16_TRAIL :: "UChar32 \<Rightarrow> UChar" where
  "U16_TRAIL c = ucast ((c AND 0x3FF) OR 0xDC00)"

text \<open>\<open>StringBuilder::append(UChar32)\<close>: what is appended.\<close>

definition append_UChar32 :: "UChar32 \<Rightarrow> UChar list" where
  "append_UChar32 c = (if U_IS_BMP c then [ucast c] else [U16_LEAD c, U16_TRAIL c])"

definition isHexDigit :: "UChar \<Rightarrow> bool" where
  "isHexDigit cc \<longleftrightarrow> (cc \<ge> 0x30 \<and> cc \<le> 0x39) \<or> (cc \<ge> 0x61 \<and> cc \<le> 0x66) \<or> (cc \<ge> 0x41 \<and> cc \<le> 0x46)"

definition isAlphaNumeric :: "UChar \<Rightarrow> bool" where
  "isAlphaNumeric cc \<longleftrightarrow> (cc \<ge> 0x30 \<and> cc \<le> 0x39) \<or> (cc \<ge> 0x61 \<and> cc \<le> 0x7A) \<or> (cc \<ge> 0x41 \<and> cc \<le> 0x5A)"

definition windowsLatin1ExtensionArray :: "UChar list" where
  "windowsLatin1ExtensionArray = [
     0x20AC, 0x0081, 0x201A, 0x0192, 0x201E, 0x2026, 0x2020, 0x2021,
     0x02C6, 0x2030, 0x0160, 0x2039, 0x0152, 0x008D, 0x017D, 0x008F,
     0x0090, 0x2018, 0x2019, 0x201C, 0x201D, 0x2022, 0x2013, 0x2014,
     0x02DC, 0x2122, 0x0161, 0x203A, 0x0153, 0x009D, 0x017E, 0x0178]"

definition adjustEntity :: "UChar32 \<Rightarrow> UChar" where
  "adjustEntity value =
     (if value AND NOT 0x1F \<noteq> 0x80 then ucast value
      else windowsLatin1ExtensionArray ! unat (value - 0x80))"

definition legalEntityFor :: "UChar32 \<Rightarrow> UChar32" where
  "legalEntityFor value =
     (if value = 0 \<or> sint value > 0x10FFFF \<or> (sint value \<ge> 0xD800 \<and> sint value \<le> 0xDFFF) then 0xFFFD
      else if U_IS_BMP value then ucast (adjustEntity value)
      else value)"

definition acceptMalformed :: bool where "acceptMalformed = True"

section \<open>Putting characters back\<close>

definition unconsumeCharacters :: "SegmentedString \<Rightarrow> UChar list \<Rightarrow> SegmentedString option" where
  "unconsumeCharacters source consumedCharacters =
     (if length consumedCharacters = 1 then seg_push (consumedCharacters ! 0) source
      else if length consumedCharacters = 2 then do {
        s1 \<leftarrow> seg_push (consumedCharacters ! 0) source;
        seg_push (consumedCharacters ! 1) s1 }
      else do {
        p \<leftarrow> makeSegmentedString (StringBuilder_toString consumedCharacters);
        seg_prepend p source })"

section \<open>Named references\<close>

text \<open>
  The result of the parser: whether it succeeded, \<open>notEnoughCharacters\<close>, the decoded
  characters, and the stream.
\<close>

type_synonym ref_result = "bool \<times> bool \<times> UChar list \<times> SegmentedString"

partial_function (option) named_scan ::
  "HTMLEntityTable \<Rightarrow> HTMLEntitySearch \<Rightarrow> UChar \<Rightarrow> UChar list \<Rightarrow> SegmentedString \<Rightarrow>
   (HTMLEntitySearch \<times> UChar \<times> UChar list \<times> SegmentedString) option" where
  "named_scan T entitySearch cc consumedCharacters source =
     (if seg_empty source then Some (entitySearch, cc, consumedCharacters, source)
      else do {
        let cc = seg_currentChar source;
        entitySearch1 \<leftarrow> search_advance T cc entitySearch;
        if \<not> isEntityPrefix entitySearch1 then Some (entitySearch1, cc, consumedCharacters, source)
        else do {
          s1 \<leftarrow> advanceAndASSERT cc source;
          named_scan T entitySearch1 cc (consumedCharacters @ [cc]) s1 } })"

text \<open>Walking back over the matched name after too many characters were consumed.\<close>

fun named_walk :: "UChar list \<Rightarrow> UChar list \<Rightarrow> SegmentedString \<Rightarrow> (UChar list \<times> SegmentedString) option" where
  "named_walk [] consumedCharacters source = Some (consumedCharacters, source)"
| "named_walk (r # reference) consumedCharacters source = do {
     let cc = seg_currentChar source;
     ASSERT (cc = r);
     s1 \<leftarrow> advanceAndASSERT cc source;
     ASSERT (\<not> seg_empty s1);
     named_walk reference (consumedCharacters @ [cc]) s1 }"

definition decodeEntry :: "HTMLEntityTableEntry \<Rightarrow> UChar list" where
  "decodeEntry e = append_UChar32 (ent_firstValue e) @
     (if ent_secondValue e \<noteq> 0 then append_UChar32 (ent_secondValue e) else [])"

definition consumeNamedEntity ::
  "HTMLEntityTable \<Rightarrow> UChar \<Rightarrow> UChar \<Rightarrow> SegmentedString \<Rightarrow> ref_result option" where
  "consumeNamedEntity T additionalAllowedCharacter cc source = do {
     (entitySearch, cc1, consumed1, s1) \<leftarrow> named_scan T (newHTMLEntitySearch T) cc [] source;
     if seg_empty s1 then do {
       s2 \<leftarrow> unconsumeCharacters s1 consumed1;
       Some (False, True, [], s2) }
     else
       case es_mostRecentMatch entitySearch of
         None \<Rightarrow> do {
           s2 \<leftarrow> unconsumeCharacters s1 consumed1;
           Some (False, False, [], s2) }
       | Some i \<Rightarrow> do {
           match \<leftarrow> entryAt T i;
           (cc3, consumed3, s3) \<leftarrow>
             (if ent_length match \<noteq> es_currentLength entitySearch then do {
                s2 \<leftarrow> unconsumeCharacters s1 consumed1;
                (consumed2, s3) \<leftarrow> named_walk (ent_entity match) [] s2;
                Some (seg_currentChar s3, consumed2, s3) }
              else Some (cc1, consumed1, s1));
           lastCh \<leftarrow> lastCharacter match;
           if lastCh = chSemi \<or> additionalAllowedCharacter = 0
              \<or> \<not> (isAlphaNumeric cc3 \<or> cc3 = chEqual)
           then Some (True, False, decodeEntry match, s3)
           else do {
             s4 \<leftarrow> unconsumeCharacters s3 consumed3;
             Some (False, False, [], s4) } } }"

section \<open>The reference parser\<close>

datatype EntityState = Initial | Number | MaybeHexLowerCaseX | MaybeHexUpperCaseX | Hex | Decimal | Named

text \<open>
  One iteration of the loop: leave the \<open>switch\<close> with a result, \<open>continue\<close> in another
  state on the same character, or \<open>break\<close> out of it and consume the character.
\<close>

datatype ref_step = RefReturn ref_result | RefContinue EntityState | RefBreak EntityState UChar32

definition ref_finish :: "UChar \<Rightarrow> UChar32 \<Rightarrow> SegmentedString \<Rightarrow> UChar list \<Rightarrow> ref_step option" where
  "ref_finish cc result source consumedCharacters =
     (if cc = chSemi then do {
        s1 \<leftarrow> advanceAndASSERT cc source;
        Some (RefReturn (True, False, append_UChar32 (legalEntityFor result), s1)) }
      else if acceptMalformed then
        Some (RefReturn (True, False, append_UChar32 (legalEntityFor result), source))
      else do {
        s1 \<leftarrow> unconsumeCharacters source consumedCharacters;
        Some (RefReturn (False, False, [], s1)) })"

definition push_and_fail :: "UChar list \<Rightarrow> SegmentedString \<Rightarrow> ref_step option" where
  "push_and_fail cs source = do {
     s1 \<leftarrow> (case cs of [c] \<Rightarrow> seg_push c source
       | [c, d] \<Rightarrow> do { s \<leftarrow> seg_push c source; seg_push d s } | _ \<Rightarrow> Some source);
     Some (RefReturn (False, False, [], s1)) }"

fun ref_switch ::
  "HTMLEntityTable \<Rightarrow> UChar \<Rightarrow> EntityState \<Rightarrow> UChar32 \<Rightarrow> UChar list \<Rightarrow> UChar \<Rightarrow> SegmentedString \<Rightarrow>
   ref_step option" where
  "ref_switch T additionalAllowedCharacter Initial result consumedCharacters cc source =
     (if cc = chTab \<or> cc = chLF \<or> cc = chFF \<or> cc = chSpace \<or> cc = chLess \<or> cc = chAmp
      then Some (RefReturn (False, False, [], source))
      else if additionalAllowedCharacter \<noteq> 0 \<and> cc = additionalAllowedCharacter
      then Some (RefReturn (False, False, [], source))
      else if cc = chHash then Some (RefBreak Number result)
      else if (cc \<ge> 0x61 \<and> cc \<le> 0x7A) \<or> (cc \<ge> 0x41 \<and> cc \<le> 0x5A) then Some (RefContinue Named)
      else Some (RefReturn (False, False, [], source)))"
| "ref_switch T additionalAllowedCharacter Number result consumedCharacters cc source =
     (if cc = 0x78 then Some (RefBreak MaybeHexLowerCaseX result)
      else if cc = 0x58 then Some (RefBreak MaybeHexUpperCaseX result)
      else if cc \<ge> 0x30 \<and> cc \<le> 0x39 then Some (RefContinue Decimal)
      else push_and_fail [chHash] source)"
| "ref_switch T additionalAllowedCharacter MaybeHexLowerCaseX result consumedCharacters cc source =
     (if isHexDigit cc then Some (RefContinue Hex) else push_and_fail [chHash, 0x78] source)"
| "ref_switch T additionalAllowedCharacter MaybeHexUpperCaseX result consumedCharacters cc source =
     (if isHexDigit cc then Some (RefContinue Hex) else push_and_fail [chHash, 0x58] source)"
| "ref_switch T additionalAllowedCharacter Hex result consumedCharacters cc source =
     (if cc \<ge> 0x30 \<and> cc \<le> 0x39 then Some (RefBreak Hex (result * 16 + ucast cc - 0x30))
      else if cc \<ge> 0x61 \<and> cc \<le> 0x66 then Some (RefBreak Hex (result * 16 + 10 + ucast cc - 0x61))
      else if cc \<ge> 0x41 \<and> cc \<le> 0x46 then Some (RefBreak Hex (result * 16 + 10 + ucast cc - 0x41))
      else ref_finish cc result source consumedCharacters)"
| "ref_switch T additionalAllowedCharacter Decimal result consumedCharacters cc source =
     (if cc \<ge> 0x30 \<and> cc \<le> 0x39 then Some (RefBreak Decimal (result * 10 + ucast cc - 0x30))
      else ref_finish cc result source consumedCharacters)"
| "ref_switch T additionalAllowedCharacter Named result consumedCharacters cc source = do {
     r \<leftarrow> consumeNamedEntity T additionalAllowedCharacter cc source;
     Some (RefReturn r) }"

partial_function (option) ref_loop ::
  "HTMLEntityTable \<Rightarrow> UChar \<Rightarrow> EntityState \<Rightarrow> UChar32 \<Rightarrow> UChar list \<Rightarrow> SegmentedString \<Rightarrow> ref_result option" where
  "ref_loop T additionalAllowedCharacter entityState result consumedCharacters source =
     (if seg_empty source then do {
        s1 \<leftarrow> unconsumeCharacters source consumedCharacters;
        Some (False, True, [], s1) }
      else do {
        let cc = seg_currentChar source;
        step \<leftarrow> ref_switch T additionalAllowedCharacter entityState result consumedCharacters cc source;
        case step of
          RefReturn r \<Rightarrow> Some r
        | RefContinue st \<Rightarrow> ref_loop T additionalAllowedCharacter st result consumedCharacters source
        | RefBreak st v \<Rightarrow> do {
            s1 \<leftarrow> advanceAndASSERT cc source;
            ref_loop T additionalAllowedCharacter st v (consumedCharacters @ [cc]) s1 } })"

definition consumeHTMLEntity :: "HTMLEntityTable \<Rightarrow> UChar \<Rightarrow> SegmentedString \<Rightarrow> ref_result option" where
  "consumeHTMLEntity T additionalAllowedCharacter source = do {
     ASSERT (additionalAllowedCharacter = 0 \<or> additionalAllowedCharacter = chQuot
       \<or> additionalAllowedCharacter = chApos \<or> additionalAllowedCharacter = chGreater);
     ref_loop T additionalAllowedCharacter Initial 0 [] source }"

section \<open>Decoding a name given in full\<close>

definition appendUChar32ToUCharArray :: "UChar32 \<Rightarrow> UChar list option" where
  "appendUChar32ToUCharArray value =
     (if U_IS_BMP value then do {
        let character = (ucast value :: UChar);
        ASSERT (ucast character = value);
        Some [character] }
      else Some [U16_LEAD value, U16_TRAIL value])"

fun decode_scan :: "HTMLEntityTable \<Rightarrow> UChar list \<Rightarrow> HTMLEntitySearch \<Rightarrow> HTMLEntitySearch option option" where
  "decode_scan T [] search = Some (Some search)"
| "decode_scan T (c # name) search = do {
     search1 \<leftarrow> search_advance T c search;
     if \<not> isEntityPrefix search1 then Some None else decode_scan T name search1 }"

text \<open>The units written to the result array; the empty list where the code returns 0.\<close>

definition decodeNamedEntityToUCharArray :: "HTMLEntityTable \<Rightarrow> UChar list \<Rightarrow> UChar list option" where
  "decodeNamedEntityToUCharArray T name = do {
     r \<leftarrow> decode_scan T name (newHTMLEntitySearch T);
     case r of None \<Rightarrow> Some []
     | Some search \<Rightarrow> do {
         search1 \<leftarrow> search_advance T chSemi search;
         if \<not> isEntityPrefix search1 then Some []
         else do {
           i \<leftarrow> es_mostRecentMatch search1;
           e \<leftarrow> entryAt T i;
           us \<leftarrow> appendUChar32ToUCharArray (ent_firstValue e);
           if ent_secondValue e = 0 then Some us
           else do {
             vs \<leftarrow> appendUChar32ToUCharArray (ent_secondValue e);
             Some (us @ vs) } } } }"

section \<open>Reference semantics\<close>

datatype reference = NeedMore | NoReference | Reference "UChar list" "UChar list"

definition hexValue :: "UChar \<Rightarrow> UChar32" where
  "hexValue c = (if c \<le> 0x39 then ucast c - 0x30 else if c \<ge> 0x61 then ucast c - 0x57 else ucast c - 0x37)"

fun digit_run :: "(UChar \<Rightarrow> bool) \<Rightarrow> UChar32 \<Rightarrow> UChar32 \<Rightarrow> UChar list \<Rightarrow> UChar32 \<times> UChar list" where
  "digit_run digit base v [] = (v, [])"
| "digit_run digit base v (c # cs) =
     (if digit c then digit_run digit base (v * base + hexValue c) cs else (v, c # cs))"

definition number_end :: "UChar32 \<times> UChar list \<Rightarrow> reference" where
  "number_end p = (case p of (v, []) \<Rightarrow> NeedMore
     | (v, t # ts) \<Rightarrow> Reference (append_UChar32 (legalEntityFor v)) (if t = chSemi then ts else t # ts))"

text \<open>\<open>numeric_spec\<close> reads what follows the number sign.\<close>

definition numeric_spec :: "UChar list \<Rightarrow> reference" where
  "numeric_spec cs = (case cs of [] \<Rightarrow> NeedMore
     | x # rest \<Rightarrow>
         if x = 0x78 \<or> x = 0x58 then
           (case rest of [] \<Rightarrow> NeedMore
            | h # _ \<Rightarrow> if isHexDigit h then number_end (digit_run isHexDigit 16 0 rest) else NoReference)
         else if isASCIIDigit x then number_end (digit_run isASCIIDigit 10 0 cs)
         else NoReference)"

definition named_spec :: "HTMLEntityTable \<Rightarrow> UChar \<Rightarrow> UChar list \<Rightarrow> reference" where
  "named_spec T add cs =
     (if prefix_length T cs = length cs then NeedMore
      else case longest_match T cs of None \<Rightarrow> NoReference
      | Some i \<Rightarrow>
          let e = tab_entries T ! i; next = cs ! ent_length e in
          if last (ent_entity e) = chSemi \<or> add = 0 \<or> \<not> (isAlphaNumeric next \<or> next = chEqual)
          then Reference (decodeEntry e) (drop (ent_length e) cs) else NoReference)"

definition charref_spec :: "HTMLEntityTable \<Rightarrow> UChar \<Rightarrow> UChar list \<Rightarrow> reference" where
  "charref_spec T add cs = (case cs of [] \<Rightarrow> NeedMore
     | c # rest \<Rightarrow>
         if c \<in> {chTab, chLF, chFF, chSpace, chLess, chAmp} \<or> (add \<noteq> 0 \<and> c = add) then NoReference
         else if c = chHash then numeric_spec rest
         else if isASCIILower c \<or> isASCIIUpper c then named_spec T add cs
         else NoReference)"

text \<open>
  What the parser relies on in the table beyond \<open>table_ok\<close>: names of at least two
  characters, made of letters and digits and possibly a final semicolon, and values that are
  code points other than NUL.
\<close>

definition names_ok :: "HTMLEntityTable \<Rightarrow> bool" where
  "names_ok T \<longleftrightarrow> list_all (\<lambda>e. length (ent_entity e) \<ge> 2 \<and>
     list_all (\<lambda>c. isAlphaNumeric c \<or> c = chSemi) (ent_entity e) \<and>
     0 < ent_firstValue e \<and> ent_firstValue e \<le> 0x10FFFF \<and> ent_secondValue e \<le> 0x10FFFF) (tab_entries T)"

section \<open>What moving through the stream keeps\<close>

definition kept :: "SegmentedString \<Rightarrow> SegmentedString \<Rightarrow> bool" where
  "kept s s' \<longleftrightarrow> seg_closed s' = seg_closed s \<and>
     numberOfCharactersConsumed s' + int (length (seg_toString s')) =
     numberOfCharactersConsumed s + int (length (seg_toString s))"

lemma kept_refl [simp]: "kept s s"
  by (simp add: kept_def)

lemma kept_trans: "kept a b \<Longrightarrow> kept b c \<Longrightarrow> kept a c"
  by (simp add: kept_def)

lemma kept_advanced: "advanced s s' \<Longrightarrow> kept s s'"
  by (cases "seg_toString s") (auto simp: kept_def advanced_def)

definition flagged :: "SegmentedString \<Rightarrow> bool" where
  "flagged s \<longleftrightarrow> stream_inv s \<and> (seg_empty s \<longleftrightarrow> seg_toString s = [])"

lemma readable_flagged: "readable s \<Longrightarrow> flagged s"
  using readable_nonempty by (auto simp: flagged_def readable_def)

lemma flagged_readable: "flagged s \<Longrightarrow> seg_toString s \<noteq> [] \<Longrightarrow> readable s"
  by (simp add: flagged_def readable_def)

lemma flagged_advance:
  assumes "flagged s" "seg_toString s = c # cs"
  shows "\<exists>s'. advanceAndASSERT (seg_currentChar s) s = Some s' \<and> seg_currentChar s = c \<and> flagged s' \<and>
     seg_toString s' = cs \<and> kept s s' \<and> pushedChars s' = tl (pushedChars s)"
proof -
  have r: "readable s" using flagged_readable assms by simp
  then have inv: "stream_inv s" by (simp add: readable_def)
  obtain s' where s': "seg_advance s = Some s'" "advanced s s'" using seg_advance_advanced[OF inv] by auto
  then show ?thesis
    using readable_advanced[OF r s'(2)] kept_advanced[OF s'(2)] pushedChars_advanced[OF inv s'(2)] assms
      readable_currentChar[OF r]
    by (auto simp: advanceAndASSERT_def flagged_def advanced_def)
qed

lemma stream_nil_not_escaped: "stream_inv s \<Longrightarrow> seg_toString s = [] \<Longrightarrow> \<not> escaped s"
  using toString_Nil_iff[of s] by (auto simp: stream_inv_def escaped_def)

lemma StringBuilder_toString_characters [simp]: "characters (StringBuilder_toString cs) = cs"
proof -
  have "ucast (ucast c :: LChar) = c" if "c \<le> 0xFF" for c :: UChar
    using that unsigned_word_eqI[where ?'a = nat, of "ucast (ucast c :: LChar)" c]
    by (simp add: word_le_nat_alt unsigned_ucast_eq unsigned_take_bit_eq take_bit_nat_eq_self)
  then have "list_all (\<lambda>c. c \<le> 0xFF) cs \<Longrightarrow> map (ucast \<circ> (ucast :: UChar \<Rightarrow> LChar)) cs = cs"
    by (induction cs) auto
  then show ?thesis by (simp add: StringBuilder_toString_def)
qed

lemma unconsume_spec:
  assumes "stream_inv s" "\<not> escaped s" "0 \<notin> set cs"
  shows "\<exists>s'. unconsumeCharacters s cs = Some s' \<and> stream_inv s' \<and> seg_toString s' = cs @ seg_toString s \<and>
     kept s s' \<and> (\<not> seg_empty s \<longrightarrow> \<not> seg_empty s') \<and>
     pushedChars s' = (if length cs = 1 \<or> length cs = 2 then cs else [])"
proof -
  have p0: "seg_pushedChar1 s = 0" "seg_pushedChar2 s = 0"
    using assms by (auto simp: escaped_def stream_inv_def stream_core_def)
  consider c where "cs = [c]" | c d where "cs = [c, d]" | "length cs \<noteq> 1 \<and> length cs \<noteq> 2"
    by (metis One_nat_def Suc_1 length_0_conv length_Suc_conv)
  then show ?thesis
  proof cases
    case 1
    then obtain s1 where "seg_push c s = Some s1" "stream_inv s1" "seg_toString s1 = c # seg_toString s"
      "numberOfCharactersConsumed s1 = numberOfCharactersConsumed s - 1" "seg_closed s1 = seg_closed s"
      "seg_empty s1 = seg_empty s" "seg_pushedChar1 s1 = c" "seg_pushedChar2 s1 = 0"
      using seg_push_first[OF assms(1) p0(1), of c] assms(3) by auto
    with 1 assms(3) show ?thesis
      by (simp add: unconsumeCharacters_def kept_def pushedChars_def)
  next
    case 2
    obtain s1 where s1: "seg_push c s = Some s1" "stream_inv s1" "seg_toString s1 = c # seg_toString s"
      "numberOfCharactersConsumed s1 = numberOfCharactersConsumed s - 1" "seg_closed s1 = seg_closed s"
      "seg_empty s1 = seg_empty s" "seg_pushedChar1 s1 = c" "seg_pushedChar2 s1 = 0"
      using seg_push_first[OF assms(1) p0(1), of c] assms(3) 2 by auto
    then obtain s2 where "seg_push d s1 = Some s2" "stream_inv s2" "seg_toString s2 = c # d # seg_toString s"
      "numberOfCharactersConsumed s2 = numberOfCharactersConsumed s1 - 1" "seg_closed s2 = seg_closed s1"
      "seg_empty s2 = seg_empty s1" "seg_pushedChar1 s2 = c" "seg_pushedChar2 s2 = d"
      using seg_push_second[OF s1(2), of d] 2 assms(3) by auto
    with 2 s1 assms(3) show ?thesis
      by (simp add: unconsumeCharacters_def kept_def pushedChars_def)
  next
    case 3
    obtain p s' where s': "makeSegmentedString (StringBuilder_toString cs) = Some p" "seg_prepend p s = Some s'"
      "stream_inv s'" "seg_toString s' = cs @ seg_toString s" "\<not> escaped s'" "seg_closed s' = seg_closed s"
      "numberOfCharactersConsumed s' = numberOfCharactersConsumed s - int (length cs)"
      using seg_prepend_fresh[OF assms(1,2), of "StringBuilder_toString cs"] by auto
    have "seg_empty s' \<Longrightarrow> seg_empty s"
      using toString_Nil_iff[of s'] toString_Nil_iff[of s] s'(3,4,5) p0 assms(1)
      by (auto simp: stream_inv_def stream_core_def escaped_def)
    with 3 s' pushedChars_Nil[of s'] show ?thesis
      by (auto simp: unconsumeCharacters_def kept_def stream_inv_def)
  qed
qed

section \<open>Named references\<close>

lemma names_ok_chars:
  assumes "names_ok T" "has_prefix T w" "c \<in> set w"
  shows "isAlphaNumeric c \<or> c = chSemi"
proof -
  obtain i where i: "i < table_size T" "prefix w (entity T i)" using assms(2) by (auto simp: has_prefix_iff)
  then have "c \<in> set (ent_entity (tab_entries T ! i))"
    using assms(3) set_mono_prefix[OF i(2)] by (auto simp: entity_def)
  then show ?thesis using assms(1) i(1) by (auto simp: names_ok_def list_all_iff)
qed

lemma names_ok_prefix: "names_ok T \<Longrightarrow> has_prefix T w \<Longrightarrow> c \<in> set w \<Longrightarrow> c \<noteq> 0 \<and> c \<noteq> chAmp"
  using names_ok_chars[of T w c] by (auto simp: isAlphaNumeric_def)

lemma named_scan_spec:
  assumes ok: "table_ok T" and "search_inv T w st" "flagged s" "prefix_length T w = length w"
    "pushedChars s = [] \<or> has_prefix T (w @ pushedChars s)"
  shows "\<exists>st' cc' s' u. named_scan T st cc w s = Some (st', cc', w @ u, s') \<and> flagged s' \<and> kept s s' \<and>
     seg_toString s = u @ seg_toString s' \<and> \<not> escaped s' \<and> (u = [] \<or> has_prefix T (w @ u)) \<and>
     es_currentLength st' = length (w @ u) \<and> es_mostRecentMatch st' = longest_match T (w @ seg_toString s) \<and>
     prefix_length T (w @ seg_toString s) = length (w @ u) \<and>
     (seg_toString s' \<noteq> [] \<longrightarrow> cc' = hd (seg_toString s'))"
  using assms(2-)
proof (induction "seg_toString s" arbitrary: s w st cc)
  case Nil
  then show ?case
    using stream_nil_not_escaped[of s]
    by (subst named_scan.simps) (auto simp: flagged_def search_inv_def)
next
  case (Cons c cs)
  note cs = Cons.hyps(2)[symmetric]
  have inv: "stream_inv s" using Cons.prems(2) by (simp add: flagged_def)
  have ne: "\<not> seg_empty s" using Cons.prems(2) cs by (simp add: flagged_def)
  have cur: "seg_currentChar s = c" using inv cs by (simp add: stream_inv_def)
  obtain st1 where st1: "search_advance T c st = Some st1"
    "if has_prefix T (w @ [c]) then search_inv T (w @ [c]) st1
     else \<not> isEntityPrefix st1 \<and> es_currentLength st1 = length w \<and> es_mostRecentMatch st1 = longest_match T w"
    using search_advance_spec[OF ok Cons.prems(1)] by blast
  have hdp: "hd (pushedChars s) = c" if "pushedChars s \<noteq> []"
    using toString_pushed[of s] inv cs that by (cases "pushedChars s") (auto simp: stream_inv_def)
  show ?case
  proof (cases "has_prefix T (w @ [c])")
    case True
    obtain s1 where s1: "advanceAndASSERT c s = Some s1" "flagged s1" "seg_toString s1 = cs" "kept s s1"
      "pushedChars s1 = tl (pushedChars s)"
      using flagged_advance[OF Cons.prems(2) cs] cur by auto
    have i1: "search_inv T (w @ [c]) st1" using True st1 by simp
    have p1: "isEntityPrefix st1" using i1 by (auto simp: search_inv_def isEntityPrefix_def)
    have "pushedChars s1 = [] \<or> has_prefix T ((w @ [c]) @ pushedChars s1)"
      using Cons.prems(4) hdp s1(5) by (cases "pushedChars s") auto
    from Cons.hyps(1)[OF _ i1 s1(2) _ this, of c] s1(3) prefix_length_snoc[of T w c] True
    obtain st' cc' s' u where
      "named_scan T st1 c (w @ [c]) s1 = Some (st', cc', (w @ [c]) @ u, s')" "flagged s'" "kept s1 s'"
      "seg_toString s1 = u @ seg_toString s'" "\<not> escaped s'" "u = [] \<or> has_prefix T ((w @ [c]) @ u)"
      "es_currentLength st' = length ((w @ [c]) @ u)" "es_mostRecentMatch st' = longest_match T ((w @ [c]) @ cs)"
      "prefix_length T ((w @ [c]) @ cs) = length ((w @ [c]) @ u)"
      "seg_toString s' \<noteq> [] \<longrightarrow> cc' = hd (seg_toString s')"
      by (auto simp del: append_assoc)
    then show ?thesis
      using ne cur st1(1) p1 s1 True cs kept_trans[OF s1(4)]
      by (subst named_scan.simps) (auto intro!: exI[of _ "c # u"])
  next
    case False
    have "pushedChars s = []"
      using Cons.prems(4) hdp False has_prefix_append[of T "w @ [c]" "tl (pushedChars s)"]
      by (cases "pushedChars s") auto
    then have esc: "\<not> escaped s" using pushedChars_Nil inv by (simp add: stream_inv_def)
    have "longest_match T (w @ [c]) = longest_match T w"
      using longest_match_snoc[of T w c] entry_named_has_prefix[of T "w @ [c]"] False by auto
    then have "longest_match T (w @ c # cs) = longest_match T w" "prefix_length T (w @ c # cs) = length w"
      using longest_match_dead[OF False, of cs] prefix_length_dead[OF False, of cs] prefix_length_snoc[of T w c]
        False Cons.prems(3) by auto
    then show ?thesis
      using ne cur st1 False esc cs Cons.prems(2)
      by (subst named_scan.simps) auto
  qed
qed

lemma named_walk_spec:
  assumes "flagged s" "seg_toString s = u @ rest" "rest \<noteq> []"
  shows "\<exists>s'. named_walk u w s = Some (w @ u, s') \<and> flagged s' \<and> seg_toString s' = rest \<and> kept s s' \<and>
    pushedChars s' = drop (length u) (pushedChars s)"
  using assms
proof (induction u arbitrary: w s)
  case Nil
  then show ?case by simp
next
  case (Cons c u)
  obtain s1 where s1: "advanceAndASSERT (seg_currentChar s) s = Some s1" "seg_currentChar s = c" "flagged s1"
    "seg_toString s1 = u @ rest" "kept s s1" "pushedChars s1 = tl (pushedChars s)"
    using flagged_advance[OF Cons.prems(1), of c "u @ rest"] Cons.prems(2) by auto
  then obtain s' where s': "named_walk u (w @ [c]) s1 = Some ((w @ [c]) @ u, s')" "flagged s'" "seg_toString s' = rest"
    "kept s1 s'" "pushedChars s' = drop (length u) (pushedChars s1)"
    using Cons.IH[OF s1(3,4) Cons.prems(3), of "w @ [c]"] by auto
  have "\<not> seg_empty s1" using s1(3,4) Cons.prems(3) by (simp add: flagged_def)
  with s1 s' kept_trans[OF s1(5) s'(4)] show ?case by (auto simp: drop_Suc tl_drop)
qed


lemma entry_named_entity: "entry_named T v = Some i \<Longrightarrow> i < table_size T \<and> entity T i = v"
  using find_SomeD[of "\<lambda>i. entity T i = v" "[0..<table_size T]" i] by (auto simp: entry_named_def)

lemma longest_match_facts:
  assumes "longest_match T w = Some i"
  shows "i < table_size T \<and> prefix (entity T i) w \<and> length (entity T i) \<le> prefix_length T w"
  using assms
proof (induction w rule: rev_induct)
  case Nil
  then show ?case by simp
next
  case (snoc c w)
  show ?case
  proof (cases "entry_named T (w @ [c])")
    case (Some j)
    with snoc.prems entry_named_entity[OF Some] entry_named_has_prefix[of T "w @ [c]"] show ?thesis
      by (auto simp: longest_match_snoc prefix_length_snoc)
  next
    case None
    with snoc have "i < table_size T \<and> prefix (entity T i) w \<and> length (entity T i) \<le> prefix_length T w"
      by (simp add: longest_match_snoc)
    moreover have "prefix_length T w \<le> length w"
      by (auto simp: prefix_length_def dest!: last_in_set)
    ultimately show ?thesis by (auto simp: prefix_length_snoc intro: prefix_order.trans)
  qed
qed

text \<open>
  A stream on which a reference can be resumed: what is pushed back is the start of a
  reference, as \<open>unconsumeCharacters\<close> leaves it when the input ran out.
\<close>

definition resumable :: "HTMLEntityTable \<Rightarrow> SegmentedString \<Rightarrow> bool" where
  "resumable T s \<longleftrightarrow> (case pushedChars s of [] \<Rightarrow> True
     | c # ps \<Rightarrow> (c = chHash \<and> (\<forall>d \<in> set ps. d = 0x78 \<or> d = 0x58 \<or> isASCIIDigit d)) \<or>
         has_prefix T (pushedChars s))"

definition ref_ok :: "HTMLEntityTable \<Rightarrow> SegmentedString \<Rightarrow> reference \<Rightarrow> ref_result option \<Rightarrow> bool" where
  "ref_ok T s spec r \<longleftrightarrow> (case spec of
     NeedMore \<Rightarrow> \<exists>s'. r = Some (False, True, [], s') \<and> stream_inv s' \<and> seg_toString s' = seg_toString s \<and>
       kept s s' \<and> resumable T s'
   | NoReference \<Rightarrow> \<exists>s'. r = Some (False, False, [], s') \<and> readable s' \<and> seg_toString s' = seg_toString s \<and>
       kept s s' \<and> chAmp \<notin> set (pushedChars s')
   | Reference dec rest \<Rightarrow> \<exists>s'. r = Some (True, False, dec, s') \<and> flagged s' \<and> seg_toString s' = rest \<and>
       kept s s' \<and> chAmp \<notin> set (pushedChars s'))"

lemma ref_ok_unconsume_more:
  assumes "flagged s" "seg_toString s = []" "0 \<notin> set w" "seg_toString s0 = w" "kept s0 s"
    "length w = 1 \<or> length w = 2 \<Longrightarrow> (case w of [] \<Rightarrow> True
     | c # ps \<Rightarrow> (c = chHash \<and> (\<forall>d \<in> set ps. d = 0x78 \<or> d = 0x58 \<or> isASCIIDigit d)) \<or> has_prefix T w)"
  shows "ref_ok T s0 NeedMore (do { s2 \<leftarrow> unconsumeCharacters s w; Some (False, True, [], s2) })"
proof -
  have inv: "stream_inv s" using assms(1) by (simp add: flagged_def)
  obtain s' where s': "unconsumeCharacters s w = Some s'" "stream_inv s'" "seg_toString s' = w @ seg_toString s"
     "kept s s'" "pushedChars s' = (if length w = 1 \<or> length w = 2 then w else [])"
    using unconsume_spec[OF inv stream_nil_not_escaped[OF inv assms(2)] assms(3)] by auto
  have "resumable T s'" using s'(5) assms(6) by (auto simp: resumable_def split: if_splits)
  with s' assms kept_trans[OF assms(5) s'(4)] show ?thesis by (simp add: ref_ok_def)
qed

lemma ref_ok_unconsume_fail:
  assumes "readable s" "\<not> escaped s" "0 \<notin> set w" "chAmp \<notin> set w"
    "seg_toString s0 = w @ seg_toString s" "kept s0 s"
  shows "ref_ok T s0 NoReference (do { s2 \<leftarrow> unconsumeCharacters s w; Some (False, False, [], s2) })"
proof -
  have inv: "stream_inv s" "\<not> seg_empty s" using assms(1) by (auto simp: readable_def)
  obtain s' where s': "unconsumeCharacters s w = Some s'" "stream_inv s'" "seg_toString s' = w @ seg_toString s"
     "kept s s'" "pushedChars s' = (if length w = 1 \<or> length w = 2 then w else [])" "\<not> seg_empty s'"
    using unconsume_spec[OF inv(1) assms(2,3)] inv(2) by auto
  with assms kept_trans[OF assms(6) s'(4)] show ?thesis by (auto simp: ref_ok_def readable_def split: if_splits)
qed

lemma take_prefix_eq: "prefix x (u @ v) \<Longrightarrow> length x \<le> length u \<Longrightarrow> x = take (length x) u"
  by (metis append_eq_conv_conj prefix_def take_append take_is_prefix
      append_Nil2 diff_is_0_eq take_eq_Nil2)

lemma walk_back:
  assumes s1: "flagged s1" "kept s s1" "seg_toString s = u @ seg_toString s1" "\<not> escaped s1"
    and u: "0 \<notin> set u" "seg_toString s1 \<noteq> []" "u = v @ x" "2 \<le> length v" "cc = hd (seg_toString s1)"
  shows "\<exists>cc3 s3. (if length v \<noteq> length u then do {
                s2 \<leftarrow> unconsumeCharacters s1 u;
                (consumed2, s3) \<leftarrow> named_walk v [] s2;
                Some (seg_currentChar s3, consumed2, s3) }
              else Some (cc, u, s1)) = Some (cc3, v, s3) \<and> flagged s3 \<and>
       seg_toString s3 = x @ seg_toString s1 \<and> kept s s3 \<and> \<not> escaped s3 \<and> cc3 = hd (x @ seg_toString s1)"
proof (cases "x = []")
  case True
  then show ?thesis using s1 u by simp
next
  case False
  have inv1: "stream_inv s1" "\<not> seg_empty s1" using s1(1) u(2) by (auto simp: flagged_def)
  obtain s2 where s2: "unconsumeCharacters s1 u = Some s2" "stream_inv s2" "seg_toString s2 = u @ seg_toString s1"
    "kept s1 s2" "\<not> seg_empty s2" "pushedChars s2 = (if length u = 1 \<or> length u = 2 then u else [])"
    using unconsume_spec[OF inv1(1) s1(4) u(1)] inv1(2) by auto
  have "2 < length u" using u(3,4) False by (cases x) auto
  then have f2: "flagged s2" "pushedChars s2 = []" using s2 by (auto simp: flagged_def)
  then obtain s3 where s3: "named_walk v [] s2 = Some (v, s3)" "flagged s3"
    "seg_toString s3 = x @ seg_toString s1" "kept s2 s3" "pushedChars s3 = []"
    using named_walk_spec[of s2 v "x @ seg_toString s1" "[]"] u s2(3) by auto
  have "\<not> escaped s3" "seg_currentChar s3 = hd (x @ seg_toString s1)"
    using s3 pushedChars_Nil False by (auto simp: flagged_def stream_inv_def)
  with s2 s3 False u(3) kept_trans[OF kept_trans[OF s1(2) s2(4)] s3(4)] show ?thesis by simp
qed

lemma consumeNamedEntity_spec:
  assumes T: "table_ok T" "names_ok T" and s: "readable s" and p: "pushedChars s = [] \<or> has_prefix T (pushedChars s)"
  shows "ref_ok T s (named_spec T add (seg_toString s)) (consumeNamedEntity T add cc s)"
proof -
  let ?cs = "seg_toString s"
  have p0: "prefix_length T [] = length []" "pushedChars s = [] \<or> has_prefix T ([] @ pushedChars s)"
    using p by (simp_all add: prefix_length_def)
  obtain st' cc' s1 u where scan: "named_scan T (newHTMLEntitySearch T) cc [] s = Some (st', cc', u, s1)"
    and s1: "flagged s1" "kept s s1" "?cs = u @ seg_toString s1" "\<not> escaped s1" "u = [] \<or> has_prefix T u"
    and st': "es_currentLength st' = length u" "es_mostRecentMatch st' = longest_match T ?cs"
      "prefix_length T ?cs = length u" "seg_toString s1 \<noteq> [] \<longrightarrow> cc' = hd (seg_toString s1)"
    using named_scan_spec[OF T(1) search_inv_new readable_flagged[OF s] p0, of cc]
    unfolding append_Nil by blast
  have u0: "0 \<notin> set u" "chAmp \<notin> set u" using names_ok_prefix[OF T(2)] s1(5) by force+
  have inv1: "stream_inv s1" using s1(1) by (simp add: flagged_def)
  have ne1: "seg_empty s1 \<longleftrightarrow> seg_toString s1 = []" using s1(1) by (simp add: flagged_def)
  show ?thesis
  proof (cases "seg_toString s1 = []")
    case True
    then have "named_spec T add ?cs = NeedMore" using st'(3) s1(3) by (simp add: named_spec_def)
    moreover have "case u of [] \<Rightarrow> True
      | c # ps \<Rightarrow> (c = chHash \<and> (\<forall>d \<in> set ps. d = 0x78 \<or> d = 0x58 \<or> isASCIIDigit d)) \<or> has_prefix T u"
      using s1(5) by (auto split: list.splits)
    ultimately show ?thesis
      using ref_ok_unconsume_more[OF s1(1) True u0(1) _ s1(2), of T] True s1(3) scan ne1
      by (simp add: consumeNamedEntity_def)
  next
    case False
    have r1: "readable s1" using flagged_readable[OF s1(1) False] .
    have len: "prefix_length T ?cs \<noteq> length ?cs" using st'(3) s1(3) False by simp
    show ?thesis
    proof (cases "longest_match T ?cs")
      case None
      then have "named_spec T add ?cs = NoReference" using len by (simp add: named_spec_def)
      with ref_ok_unconsume_fail[OF r1 s1(4) u0 s1(3,2), of T] None False ne1 scan st'(2)
      show ?thesis by (simp add: consumeNamedEntity_def)
    next
      case (Some i)
      let ?e = "tab_entries T ! i"
      let ?k = "ent_length ?e"
      have i: "i < table_size T" "prefix (ent_entity ?e) ?cs" "?k \<le> length u"
        using longest_match_facts[OF Some] st'(3) by (auto simp: entity_def)
      have k2: "2 \<le> ?k" using T(2) i(1) by (auto simp: names_ok_def list_all_iff)
      have pre: "ent_entity ?e = take ?k u"
        using take_prefix_eq[of "ent_entity ?e" u "seg_toString s1"] i(2,3) s1(3) by simp
      have pre2: "u = ent_entity ?e @ drop ?k u" using append_take_drop_id[of ?k u] pre by simp
      define rest where "rest = drop ?k u @ seg_toString s1"
      have rest: "?cs = ent_entity ?e @ rest" "rest \<noteq> []" "drop ?k ?cs = rest" "?cs ! ?k = hd rest"
        using pre2 s1(3) False i(3) hd_conv_nth[of "drop ?k ?cs"] by (auto simp: rest_def nth_append)
      have e0: "0 \<notin> set (ent_entity ?e)" "chAmp \<notin> set (ent_entity ?e)"
        using u0 set_take_subset[of ?k u] pre by auto
      obtain cc3 s3 where 3: "(if ?k \<noteq> es_currentLength st' then do {
                s2 \<leftarrow> unconsumeCharacters s1 u;
                (consumed2, s3) \<leftarrow> named_walk (ent_entity ?e) [] s2;
                Some (seg_currentChar s3, consumed2, s3) }
              else Some (cc', u, s1)) = Some (cc3, ent_entity ?e, s3)"
        "flagged s3" "seg_toString s3 = rest" "kept s s3" "\<not> escaped s3" "cc3 = hd rest"
      proof -
        have cc: "cc' = hd (seg_toString s1)" and l: "es_currentLength st' = length u" using st'(1,4) False by simp_all
        from walk_back[OF s1(1-4) u0(1) False pre2 k2 cc] show ?thesis
          unfolding l rest_def by (elim exE conjE) (rule that[unfolded l rest_def])
      qed
      have r3: "readable s3" using flagged_readable[OF 3(2)] 3(3) rest(2) by simp
      have lc: "lastCharacter ?e = Some (last (ent_entity ?e))"
        using k2 by (auto simp: lastCharacter_def last_conv_nth)
      have pc: "pushedChars s3 = []" using 3(2,5) pushedChars_Nil by (auto simp: flagged_def stream_inv_def)
      have entry: "entryAt T i = Some ?e" using i(1) by (simp add: entryAt_def)
      show ?thesis
      proof (cases "last (ent_entity ?e) = chSemi \<or> add = 0 \<or> \<not> (isAlphaNumeric (hd rest) \<or> hd rest = chEqual)")
        case True
        then have "named_spec T add ?cs = Reference (decodeEntry ?e) rest"
          using len Some rest by (simp add: named_spec_def Let_def)
        moreover have "consumeNamedEntity T add cc s = Some (True, False, decodeEntry ?e, s3)"
          using scan ne1 False st'(2) Some entry 3(1,6) lc True
          by (simp add: consumeNamedEntity_def)
        ultimately show ?thesis using 3 pc by (simp add: ref_ok_def)
      next
        case no: False
        then have "named_spec T add ?cs = NoReference"
          using len Some rest by (simp add: named_spec_def Let_def)
        moreover have "consumeNamedEntity T add cc s =
            (do { s2 \<leftarrow> unconsumeCharacters s3 (ent_entity ?e); Some (False, False, [], s2) })"
          using scan ne1 False st'(2) Some entry 3(1,6) lc no
          by (auto simp add: consumeNamedEntity_def)
        ultimately show ?thesis
          using ref_ok_unconsume_fail[OF r3 3(5) e0 _ 3(4), of T] 3(3) rest(1) by simp
      qed
    qed
  qed
qed

section \<open>Numeric references\<close>

lemma push_and_fail_unconsume:
  "length w = 1 \<or> length w = 2 \<Longrightarrow>
   push_and_fail w s = do { s2 \<leftarrow> unconsumeCharacters s w; Some (RefReturn (False, False, [], s2)) }"
  by (auto simp: push_and_fail_def unconsumeCharacters_def numeral_2_eq_2 length_Suc_conv)

lemma switch_digit:
  "ref_switch T add Hex v w c s =
     (if isHexDigit c then Some (RefBreak Hex (v * 16 + hexValue c)) else ref_finish c v s w)"
  "ref_switch T add Decimal v w c s =
     (if isASCIIDigit c then Some (RefBreak Decimal (v * 10 + hexValue c)) else ref_finish c v s w)"
proof -
  have *: "0x61 \<le> c \<Longrightarrow> \<not> c \<le> 0x39" "0x41 \<le> c \<Longrightarrow> \<not> c \<le> 0x39" "c \<le> 0x46 \<Longrightarrow> \<not> 0x61 \<le> c"
    using order_trans[of "0x61 :: UChar" c "0x39"] order_trans[of "0x41 :: UChar" c "0x39"]
      order_trans[of "0x61 :: UChar" c "0x46"] by auto
  show "ref_switch T add Hex v w c s =
     (if isHexDigit c then Some (RefBreak Hex (v * 16 + hexValue c)) else ref_finish c v s w)"
    using * by (auto simp: isHexDigit_def hexValue_def algebra_simps)
  show "ref_switch T add Decimal v w c s =
     (if isASCIIDigit c then Some (RefBreak Decimal (v * 10 + hexValue c)) else ref_finish c v s w)"
    by (auto simp: isASCIIDigit_def hexValue_def algebra_simps)
qed

definition started :: "HTMLEntityTable \<Rightarrow> UChar list \<Rightarrow> bool" where
  "started T w \<longleftrightarrow> 0 \<notin> set w \<and> (length w = 1 \<or> length w = 2 \<longrightarrow> (case w of [] \<Rightarrow> True
     | c # ps \<Rightarrow> (c = chHash \<and> (\<forall>d \<in> set ps. d = 0x78 \<or> d = 0x58 \<or> isASCIIDigit d)) \<or> has_prefix T w))"

lemma ref_loop_end:
  assumes "flagged s" "seg_toString s = []" "started T w" "seg_toString s0 = w" "kept s0 s"
  shows "ref_ok T s0 NeedMore (ref_loop T add st v w s)"
proof -
  have "seg_empty s" using assms(1,2) by (simp add: flagged_def)
  then have "ref_loop T add st v w s = do { s1 \<leftarrow> unconsumeCharacters s w; Some (False, True, [], s1) }"
    by (subst ref_loop.simps) simp
  moreover have "0 \<notin> set w" using assms(3) by (simp add: started_def)
  ultimately show ?thesis
    using ref_ok_unconsume_more[OF assms(1,2) _ assms(4,5), of T] assms(3)[unfolded started_def]
    by (simp only:)
qed

lemma ref_loop_digits:
  assumes sw: "\<And>v w c s. ref_switch T add st v w c s =
      (if digit c then Some (RefBreak st (v * base + hexValue c)) else ref_finish c v s w)"
    and P: "\<And>w. P w \<Longrightarrow> started T w" "\<And>w c. P w \<Longrightarrow> digit c \<Longrightarrow> P (w @ [c])"
  shows "flagged s \<Longrightarrow> P w \<Longrightarrow> seg_toString s0 = w @ seg_toString s \<Longrightarrow> kept s0 s \<Longrightarrow>
    chAmp \<notin> set (pushedChars s) \<Longrightarrow>
    ref_ok T s0 (number_end (digit_run digit base v (seg_toString s))) (ref_loop T add st v w s)"
proof (induction "seg_toString s" arbitrary: s w v)
  case Nil
  then show ?case using ref_loop_end[of s T w s0 add st v] P(1)[of w] by (simp add: number_end_def)
next
  case (Cons c cs)
  note cs = Cons.hyps(2)[symmetric]
  have ne: "\<not> seg_empty s" using Cons.prems(1) cs by (simp add: flagged_def)
  obtain s1 where s1: "advanceAndASSERT c s = Some s1" "seg_currentChar s = c" "flagged s1"
    "seg_toString s1 = cs" "kept s s1" "pushedChars s1 = tl (pushedChars s)"
    using flagged_advance[OF Cons.prems(1) cs] by auto
  have amp: "chAmp \<notin> set (pushedChars s1)"
    using Cons.prems(5) s1(6) by (cases "pushedChars s") auto
  note k1 = kept_trans[OF Cons.prems(4) s1(5)]
  show ?case
  proof (cases "digit c")
    case True
    have "ref_ok T s0 (number_end (digit_run digit base (v * base + hexValue c) (seg_toString s1)))
        (ref_loop T add st (v * base + hexValue c) (w @ [c]) s1)"
      by (rule Cons.hyps(1)) (use s1 cs amp k1 Cons.prems P(2) True in auto)
    with True ne s1 cs show ?thesis by (subst ref_loop.simps) (simp add: sw)
  next
    case False
    with ne s1 cs Cons.prems amp k1 show ?thesis
      by (subst ref_loop.simps)
        (auto simp: sw ref_finish_def acceptMalformed_def number_end_def ref_ok_def)
  qed
qed

lemma started_decimal:
  "list_all isASCIIDigit ds \<Longrightarrow> started T (chHash # ds)"
  by (auto simp: started_def list_all_iff isASCIIDigit_def)

lemma started_hex: "x = 0x78 \<or> x = 0x58 \<Longrightarrow> list_all isHexDigit ds \<Longrightarrow> started T (chHash # x # ds)"
  by (auto simp: started_def list_all_iff isHexDigit_def)

lemma ref_loop_hex:
  assumes s: "flagged s" "seg_toString s0 = [chHash, x] @ seg_toString s" "kept s0 s"
    and x: "st = MaybeHexLowerCaseX \<and> x = 0x78 \<or> st = MaybeHexUpperCaseX \<and> x = 0x58" and p: "pushedChars s = []"
  shows "ref_ok T s0 (numeric_spec (x # seg_toString s)) (ref_loop T add st 0 [chHash, x] s)"
proof (cases "seg_toString s")
  case Nil
  then show ?thesis
    using ref_loop_end[OF s(1) Nil _ _ s(3), of T "[chHash, x]"] s(2) started_hex[of x "[]" T] x
    by (auto simp: numeric_spec_def)
next
  case (Cons h cs)
  have r: "readable s" "seg_currentChar s = h" "\<not> seg_empty s" "\<not> escaped s"
    using flagged_readable[OF s(1)] readable_currentChar[of s] Cons s(1) p pushedChars_Nil[of s]
    by (auto simp: flagged_def stream_inv_def)
  show ?thesis
  proof (cases "isHexDigit h")
    case True
    let ?P = "\<lambda>w. \<exists>ds. w = chHash # x # ds \<and> list_all isHexDigit ds"
    have "ref_ok T s0 (number_end (digit_run isHexDigit 16 0 (seg_toString s))) (ref_loop T add Hex 0 [chHash, x] s)"
      by (rule ref_loop_digits[where P = ?P, OF switch_digit(1)])
        (use started_hex x s p in \<open>auto\<close>)
    with True Cons r x show ?thesis
      by (subst ref_loop.simps) (auto simp: numeric_spec_def)
  next
    case False
    have "ref_ok T s0 NoReference (do { s2 \<leftarrow> unconsumeCharacters s [chHash, x]; Some (False, False, [], s2) })"
      by (rule ref_ok_unconsume_fail[OF r(1,4)]) (use x s in auto)
    with False Cons r x show ?thesis
      by (subst ref_loop.simps) (auto simp: numeric_spec_def push_and_fail_unconsume)
  qed
qed

lemma ref_loop_number:
  assumes s: "flagged s" "seg_toString s0 = chHash # seg_toString s" "kept s0 s"
    and p: "\<forall>d \<in> set (pushedChars s). d = 0x78 \<or> d = 0x58 \<or> isASCIIDigit d" "length (pushedChars s) \<le> 1"
  shows "ref_ok T s0 (numeric_spec (seg_toString s)) (ref_loop T add Number 0 [chHash] s)"
proof (cases "seg_toString s")
  case Nil
  then show ?thesis
    using ref_loop_end[OF s(1) Nil _ _ s(3), of T "[chHash]"] s(2) started_decimal[of "[]" T]
    by (auto simp: numeric_spec_def)
next
  case (Cons c cs)
  obtain s1 where s1: "advanceAndASSERT c s = Some s1" "seg_currentChar s = c" "flagged s1"
    "seg_toString s1 = cs" "kept s s1" "pushedChars s1 = tl (pushedChars s)"
    using flagged_advance[OF s(1) Cons] by auto
  have r: "readable s" "\<not> seg_empty s" using flagged_readable[OF s(1)] Cons by (auto simp: readable_def)
  have p1: "pushedChars s1 = []" using s1(6) p(2) by (cases "pushedChars s") auto
  note k1 = kept_trans[OF s(3) s1(5)]
  consider "c = 0x78" | "c = 0x58" | "isASCIIDigit c" | "c \<noteq> 0x78 \<and> c \<noteq> 0x58 \<and> \<not> isASCIIDigit c" by blast
  then show ?thesis
  proof cases
    case 1
    then show ?thesis
      using ref_loop_hex[OF s1(3) _ k1 _ p1, of c MaybeHexLowerCaseX T add] s1 s(2) Cons r
      by (subst ref_loop.simps) auto
  next
    case 2
    then show ?thesis
      using ref_loop_hex[OF s1(3) _ k1 _ p1, of c MaybeHexUpperCaseX T add] s1 s(2) Cons r
      by (subst ref_loop.simps) auto
  next
    case 3
    let ?P = "\<lambda>w. \<exists>ds. w = chHash # ds \<and> list_all isASCIIDigit ds"
    have "ref_ok T s0 (number_end (digit_run isASCIIDigit 10 0 (seg_toString s))) (ref_loop T add Decimal 0 [chHash] s)"
      by (rule ref_loop_digits[where P = ?P, OF switch_digit(2)])
        (use started_decimal s p in \<open>auto simp: isASCIIDigit_def\<close>)
    with 3 Cons r s1(2) show ?thesis
      by (subst ref_loop.simps) (auto simp: numeric_spec_def isASCIIDigit_def)
  next
    case 4
    have "pushedChars s = []"
      using toString_pushed[of s] s(1) Cons p(1) 4
      by (cases "pushedChars s") (auto simp: flagged_def stream_inv_def)
    then have "\<not> escaped s" using pushedChars_Nil s(1) by (simp add: flagged_def stream_inv_def)
    then have "ref_ok T s0 NoReference (do { s2 \<leftarrow> unconsumeCharacters s [chHash]; Some (False, False, [], s2) })"
      by (rule ref_ok_unconsume_fail[OF r(1)]) (use s in auto)
    with 4 Cons r s1(2) show ?thesis
      by (subst ref_loop.simps) (auto simp: numeric_spec_def push_and_fail_unconsume isASCIIDigit_def)
  qed
qed


section \<open>The parser computes the reference semantics\<close>

lemma resumable_no_amp:
  assumes "names_ok T" "resumable T s"
  shows "chAmp \<notin> set (pushedChars s)"
  using assms(2) names_ok_prefix[OF assms(1), of "pushedChars s" chAmp]
  by (auto simp: resumable_def isASCIIDigit_def split: list.splits)

lemma consumeHTMLEntity_spec:
  assumes T: "table_ok T" "names_ok T" and s: "readable s" "resumable T s"
    and add: "add \<in> {0, chQuot, chApos, chGreater}"
  shows "ref_ok T s (charref_spec T add (seg_toString s)) (consumeHTMLEntity T add s)"
proof -
  obtain c cs where cs: "seg_toString s = c # cs" using readable_nonempty[OF s(1)] by (cases "seg_toString s") auto
  have ne: "\<not> seg_empty s" and inv: "stream_inv s" using s(1) by (auto simp: readable_def)
  have cur: "seg_currentChar s = c" using readable_currentChar[OF s(1)] cs by simp
  have hdp: "pushedChars s = c # tl (pushedChars s)" if "pushedChars s \<noteq> []"
    using toString_pushed[of s] inv cs that by (cases "pushedChars s") (auto simp: stream_inv_def)
  have start: "consumeHTMLEntity T add s = ref_loop T add Initial 0 [] s"
    using add by (auto simp: consumeHTMLEntity_def)
  have none: "ref_ok T s NoReference (Some (False, False, [], s))"
    using s(1) resumable_no_amp[OF T(2) s(2)] by (simp add: ref_ok_def)
  consider "c \<in> {chTab, chLF, chFF, chSpace, chLess, chAmp} \<or> (add \<noteq> 0 \<and> c = add)" | "c = chHash"
    | "(isASCIILower c \<or> isASCIIUpper c) \<and> \<not> (add \<noteq> 0 \<and> c = add)"
    | "c \<notin> {chTab, chLF, chFF, chSpace, chLess, chAmp, chHash} \<and> \<not> (add \<noteq> 0 \<and> c = add) \<and>
       \<not> isASCIILower c \<and> \<not> isASCIIUpper c" by blast
  then show ?thesis
  proof cases
    case 1
    then show ?thesis
      using start none ne cur cs by (subst (asm) ref_loop.simps) (auto simp: charref_spec_def)
  next
    case 2
    obtain s1 where s1: "advanceAndASSERT c s = Some s1" "flagged s1" "seg_toString s1 = cs" "kept s s1"
      "pushedChars s1 = tl (pushedChars s)"
      using flagged_advance[OF readable_flagged[OF s(1)] cs] cur by auto
    have "\<not> isAlphaNumeric c" using 2 by (auto simp: isAlphaNumeric_def)
    then have p: "\<forall>d \<in> set (pushedChars s1). d = 0x78 \<or> d = 0x58 \<or> isASCIIDigit d"
      using s(2) s1(5) 2 T(2) hdp has_prefix_append[of T "[c]" "tl (pushedChars s)"]
        names_ok_chars[OF T(2), of "[c]" c]
      by (auto simp: resumable_def split: list.splits)
    have "length (pushedChars s1) \<le> 1"
      using s1(5) by (simp add: pushedChars_def)
    from ref_loop_number[OF s1(2) _ s1(4) p this, of T add] s1 cs 2 show ?thesis
      using start ne cur add
      by (subst (asm) (2) ref_loop.simps) (auto simp: charref_spec_def)
  next
    case 3
    then have "c \<notin> {chTab, chLF, chFF, chSpace, chLess, chAmp, chHash}"
      by (auto simp: isASCIILower_def isASCIIUpper_def)
    moreover have "pushedChars s = [] \<or> has_prefix T (pushedChars s)"
      using s(2) hdp calculation by (auto simp: resumable_def split: list.splits)
    from consumeNamedEntity_spec[OF T s(1) this, of add c]
    have "ref_ok T s (named_spec T add (seg_toString s)) (ref_loop T add Named 0 [] s)"
      using ne cur by (subst ref_loop.simps) (auto simp: option.case_eq_if split: Option.bind_splits)
    ultimately show ?thesis
      using start ne cur cs 3
      by (subst (asm) (2) ref_loop.simps) (auto simp: charref_spec_def isASCIILower_def isASCIIUpper_def)
  next
    case 4
    then show ?thesis
      using start none ne cur cs
      by (subst (asm) ref_loop.simps) (auto simp: charref_spec_def isASCIILower_def isASCIIUpper_def)
  qed
qed

section \<open>Printing a numeric reference\<close>

text \<open>The decimal digits of a number, as code units.\<close>

fun decimal :: "nat \<Rightarrow> UChar list" where
  "decimal n = (if n < 10 then [] else decimal (n div 10)) @ [0x30 + of_nat (n mod 10)]"

declare decimal.simps [simp del]

lemma decimal_digit: "d < 10 \<Longrightarrow> isASCIIDigit (0x30 + of_nat d) \<and> hexValue (0x30 + of_nat d) = of_nat d"
proof -
  assume "d < 10"
  then have "d \<in> {0, 1, 2, 3, 4, 5, 6, 7, 8, 9}" by auto
  then show ?thesis by (auto simp: isASCIIDigit_def hexValue_def)
qed

lemma digit_run_append:
  "list_all digit ds \<Longrightarrow> digit_run digit base v (ds @ cs) =
     digit_run digit base (foldl (\<lambda>v c. v * base + hexValue c) v ds) cs"
  by (induction ds arbitrary: v) auto

lemma decimal_value:
  "list_all isASCIIDigit (decimal n) \<and> foldl (\<lambda>v c. v * 10 + hexValue c) 0 (decimal n) = of_nat n"
proof (induction n rule: decimal.induct)
  case (1 n)
  have d: "isASCIIDigit (0x30 + of_nat (n mod 10))" "hexValue (0x30 + of_nat (n mod 10)) = of_nat (n mod 10)"
    using decimal_digit[of "n mod 10"] by auto
  show ?case
  proof (cases "n < 10")
    case True
    with d show ?thesis by (subst (1 2) decimal.simps) simp
  next
    case False
    have "(of_nat n :: UChar32) = of_nat (n div 10) * 10 + of_nat (n mod 10)"
      by (metis div_mult_mod_eq of_nat_add of_nat_mult of_nat_numeral)
    with 1 False d show ?thesis by (subst (1 2) decimal.simps) simp
  qed
qed

lemma charref_decimal:
  assumes "\<not> isASCIIDigit t" "add \<noteq> chHash"
  shows "charref_spec T add (chHash # decimal n @ t # cs) =
     Reference (append_UChar32 (legalEntityFor (of_nat n))) (if t = chSemi then cs else t # cs)"
proof -
  obtain d ds where dec: "decimal n = d # ds" by (subst (asm) decimal.simps) (cases "decimal n", simp_all add: decimal.simps[of n])
  then have d: "isASCIIDigit d" using decimal_value[of n] by simp
  then have "d \<noteq> 0x78" "d \<noteq> 0x58" by (auto simp: isASCIIDigit_def)
  moreover have "digit_run isASCIIDigit 10 0 (decimal n @ t # cs) = (of_nat n, t # cs)"
    using decimal_value[of n] digit_run_append[of isASCIIDigit "decimal n" 10 0 "t # cs"] assms by simp
  ultimately show ?thesis using d dec assms(2)
    by (simp add: charref_spec_def numeric_spec_def number_end_def)
qed

text \<open>Decoding UTF-16, to state what was appended.\<close>

definition utf16_value :: "UChar list \<Rightarrow> nat" where
  "utf16_value us = (case us of [u] \<Rightarrow> unat u
     | [u, v] \<Rightarrow> 0x10000 + (unat u - 0xD800) * 0x400 + (unat v - 0xDC00) | _ \<Rightarrow> 0)"

lemma unat_code_point: "n \<le> 0x10FFFF \<Longrightarrow> unat (of_nat n :: UChar32) = n"
  by (simp add: unat_of_nat take_bit_nat_eq_self)

lemma sint_code_point: "n \<le> 0x10FFFF \<Longrightarrow> sint (of_nat n :: UChar32) = int n"
proof -
  assume n: "n \<le> 0x10FFFF"
  then have "uint (of_nat n :: UChar32) = int n" using unat_code_point[OF n] by (metis uint_nat)
  with n show ?thesis by (simp add: sint_uint signed_take_bit_int_eq_self)
qed

lemma not_windows_range:
  assumes "(x :: UChar32) AND NOT 0x1F = 0x80"
  shows "0x80 \<le> unat x \<and> unat x \<le> 0x9F"
proof -
  have m: "(0x1F :: UChar32) = mask 5" by (simp add: mask_eq_exp_minus_1)
  have "x = (x AND NOT 0x1F) OR take_bit 5 x"
    unfolding m by (rule bit_word_eqI) (auto simp: bit_simps)
  then have x: "x = 0x80 OR take_bit 5 x" using assms by simp
  have t: "unat (take_bit 5 x) \<le> 31"
    using take_bit_nat_less_exp[of 5 "unat x"] by (simp add: unsigned_take_bit_eq)
  have "0x80 AND take_bit 5 x = 0"
    by (simp add: take_bit_eq_mask mask_eq_exp_minus_1 and.left_commute[of "0x80"])
  then have "0x80 OR take_bit 5 x = 0x80 + take_bit 5 x"
    by (simp only: disjunctive_add_eq_or)
  with x have "unat x = unat (0x80 + take_bit 5 x)" by simp
  also have "\<dots> = 0x80 + unat (take_bit 5 x)"
    using t by (simp add: unat_word_ariths unat_add_lem unsigned_take_bit_eq take_bit_nat_eq_self)
  finally show ?thesis using t by simp
qed


lemma ucast_code_point: "n < 0x10000 \<Longrightarrow> (ucast (of_nat n :: UChar32) :: UChar) = of_nat n"
  using unsigned_word_eqI[where ?'a = nat, of "ucast (of_nat n :: UChar32)" "of_nat n :: UChar"]
  by (simp add: unsigned_ucast_eq unsigned_of_nat take_bit_nat_eq_self)

lemma legalEntityFor_id:
  assumes "0 < n" "n \<le> 0x10FFFF" "n < 0xD800 \<or> 0xDFFF < n" "n < 0x80 \<or> 0x9F < n"
  shows "legalEntityFor (of_nat n) = of_nat n"
proof -
  have nz: "(of_nat n :: UChar32) \<noteq> 0" using unat_code_point[OF assms(2)] assms(1) by auto
  have adj: "ucast (adjustEntity (of_nat n)) = (of_nat n :: UChar32)" if "U_IS_BMP (of_nat n)"
  proof -
    have n: "n < 0x10000" using that unat_code_point[OF assms(2)] by (simp add: U_IS_BMP_def word_le_nat_alt)
    have "adjustEntity (of_nat n) = (of_nat n :: UChar)"
      using not_windows_range[of "of_nat n"] unat_code_point[OF assms(2)] assms(4) ucast_code_point[OF n]
      by (auto simp: adjustEntity_def)
    moreover have "ucast (of_nat n :: UChar) = (of_nat n :: UChar32)"
      using unsigned_word_eqI[where ?'a = nat, of "ucast (of_nat n :: UChar)" "of_nat n :: UChar32"] n
      by (simp add: unsigned_ucast_eq unsigned_of_nat take_bit_nat_eq_self)
    ultimately show ?thesis by simp
  qed
  show ?thesis using nz adj sint_code_point[OF assms(2)] assms(2,3) by (auto simp: legalEntityFor_def)
qed

lemma surrogates:
  assumes "n \<le> 0x10FFFF"
  shows "unat (U16_LEAD (of_nat n)) = n div 1024 + 0xD7C0" "unat (U16_TRAIL (of_nat n)) = n mod 1024 + 0xDC00"
proof -
  let ?c = "of_nat n :: UChar32"
  have "signed_drop_bit 10 ?c = of_nat (n div 1024)"
    by (rule signed_word_eqI[where ?'a = int])
      (use assms div_le_dividend[of n 1024] in
        \<open>simp add: sint_signed_drop_bit_eq sint_code_point drop_bit_eq_div zdiv_int del: div_le_dividend\<close>)
  then have "U16_LEAD ?c = ucast (of_nat (n div 1024 + 0xD7C0) :: UChar32)" by (simp add: U16_LEAD_def)
  then show "unat (U16_LEAD ?c) = n div 1024 + 0xD7C0"
    using assms ucast_code_point[of "n div 1024 + 0xD7C0"] by (simp add: unsigned_of_nat take_bit_nat_eq_self del: of_nat_add)
  have "?c AND 0x3FF = take_bit 10 ?c" by (simp add: take_bit_eq_mask mask_eq_exp_minus_1)
  then have "?c AND 0x3FF = of_nat (n mod 1024)"
    by (simp add: take_bit_of_nat take_bit_nat_def)
  moreover have "0xDC00 AND (?c AND 0x3FF) = 0" by (simp add: and.left_commute[of "0xDC00"])
  then have "(?c AND 0x3FF) OR 0xDC00 = (?c AND 0x3FF) + 0xDC00"
    by (simp only: disjunctive_add_eq_or and.commute)
  ultimately have "U16_TRAIL ?c = ucast (of_nat (n mod 1024 + 0xDC00) :: UChar32)" by (simp add: U16_TRAIL_def)
  moreover have "n mod 1024 + 0xDC00 < 0x10000" using mod_less_divisor[of 1024 n] by simp
  ultimately show "unat (U16_TRAIL ?c) = n mod 1024 + 0xDC00"
    using ucast_code_point[of "n mod 1024 + 0xDC00"] by (simp add: unsigned_of_nat take_bit_nat_eq_self del: of_nat_add)
qed

lemma utf16_value_append:
  assumes "n \<le> 0x10FFFF"
  shows "utf16_value (append_UChar32 (of_nat n)) = n"
proof (cases "n < 0x10000")
  case True
  then show ?thesis
    using ucast_code_point[OF True] unat_code_point[OF assms]
    by (simp add: append_UChar32_def U_IS_BMP_def word_le_nat_alt utf16_value_def unat_of_nat take_bit_nat_eq_self)
next
  case False
  have "64 \<le> n div 1024" using False by simp
  then obtain q where q: "n div 1024 = 64 + q" using le_Suc_ex by blast
  have "0x10000 + (n div 1024 + 0xD7C0 - 0xD800) * 0x400 + n mod 1024 = n"
    using div_mult_mod_eq[of n 1024] unfolding q by simp
  with surrogates[OF assms] show ?thesis
    using False unat_code_point[OF assms]
    by (simp add: append_UChar32_def U_IS_BMP_def word_le_nat_alt utf16_value_def)
qed


section \<open>Properties\<close>

text \<open>C6: The character reference parser, run after an ampersand on a stream that is freshly read or
  resumed after running out of input, always returns, fails no assertion, and computes the reference
  semantics on the remaining text: it reports that more input is needed and gives every character
  back, or reports no reference and gives every character back, or returns the decoded units and
  leaves exactly the text after the reference, whatever the segmentation of the stream.\<close>

theorem character_reference_correct:
  assumes "table_ok T" "names_ok T" "readable s" "resumable T s" "add \<in> {0, chQuot, chApos, chGreater}"
  shows "\<exists>success notEnough decoded s'.
     consumeHTMLEntity T add s = Some (success, notEnough, decoded, s') \<and> stream_inv s' \<and>
     (case charref_spec T add (seg_toString s) of
        NeedMore \<Rightarrow> \<not> success \<and> notEnough \<and> decoded = [] \<and> seg_toString s' = seg_toString s \<and> resumable T s'
      | NoReference \<Rightarrow> \<not> success \<and> \<not> notEnough \<and> decoded = [] \<and> seg_toString s' = seg_toString s
      | Reference dec rest \<Rightarrow> success \<and> \<not> notEnough \<and> decoded = dec \<and> seg_toString s' = rest)"
  using consumeHTMLEntity_spec[OF assms]
  by (cases "charref_spec T add (seg_toString s)") (auto simp: ref_ok_def readable_def flagged_def)

lemma sample_names_ok: "names_ok (table_of sample_entries)"
  by (simp add: names_ok_def table_of_def sample_entries_def lit_def isAlphaNumeric_def Let_def)

lemma fresh_readable:
  assumes "characters str \<noteq> []"
  shows "readable (the (makeSegmentedString str)) \<and> resumable T (the (makeSegmentedString str)) \<and>
    seg_toString (the (makeSegmentedString str)) = characters str"
proof -
  obtain s where s: "makeSegmentedString str = Some s" "stream_inv s" "seg_toString s = characters str" "\<not> escaped s"
    "seg_currentString s = makeSubstring str"
    using makeSegmentedString_inv[of str] by auto
  have "pushedChars s = []" using s pushedChars_Nil by (simp add: stream_inv_def)
  moreover have "\<not> seg_empty s" using s assms by (simp add: stream_inv_def stream_core_def makeSubstring_def)
  ultimately show ?thesis using s by (simp add: readable_def resumable_def)
qed

theorem character_reference_correct_witness:
  "\<exists>s'. consumeHTMLEntity (table_of sample_entries) 0 (the (makeSegmentedString (UTF16 (lit ''notit;'')))) =
     Some (True, False, [0xAC], s') \<and> seg_toString s' = lit ''it;''"
proof -
  let ?T = "table_of sample_entries" let ?s = "the (makeSegmentedString (UTF16 (lit ''notit;'')))"
  have s: "readable ?s" "resumable ?T ?s" "seg_toString ?s = lit ''notit;''"
    using fresh_readable[of "UTF16 (lit ''notit;'')" ?T] by (simp_all add: lit_def)
  have "charref_spec ?T 0 (lit ''notit;'') = Reference [0xAC] (lit ''it;'')" by code_simp
  with character_reference_correct[OF sample_table_ok sample_names_ok s(1,2), of 0] s(3)
  show ?thesis by auto
qed

text \<open>C31: Printing a code point as a decimal reference and parsing it gives the code point back in UTF-16,
  for every code point that is not NUL, a surrogate, or one of the C1 controls that are
  remapped; the text after the semicolon is left unread.\<close>

theorem numeric_reference_roundtrip:
  assumes "0 < n" "n \<le> 0x10FFFF" "n < 0xD800 \<or> 0xDFFF < n" "n < 0x80 \<or> 0x9F < n"
    and "table_ok T" "names_ok T" "readable s" "resumable T s" "add \<in> {0, chQuot, chApos, chGreater}"
    and "seg_toString s = chHash # decimal n @ chSemi # rest"
  shows "\<exists>decoded s'. consumeHTMLEntity T add s = Some (True, False, decoded, s') \<and>
     utf16_value decoded = n \<and> stream_inv s' \<and> seg_toString s' = rest"
proof -
  have "\<not> isASCIIDigit chSemi" "add \<noteq> chHash" using assms(9) by (auto simp: isASCIIDigit_def)
  from charref_decimal[OF this] assms(10) legalEntityFor_id[OF assms(1-4)]
  have "charref_spec T add (seg_toString s) = Reference (append_UChar32 (of_nat n)) rest" by simp
  with consumeHTMLEntity_spec[OF assms(5-9)] utf16_value_append[OF assms(2)] show ?thesis
    by (auto simp: ref_ok_def flagged_def)
qed

theorem numeric_reference_roundtrip_witness:
  "\<exists>decoded s'. consumeHTMLEntity (table_of sample_entries) 0
       (the (makeSegmentedString (UTF16 (lit ''#128512;!'')))) = Some (True, False, decoded, s') \<and>
     utf16_value decoded = 128512 \<and> stream_inv s' \<and> seg_toString s' = lit ''!''"
proof -
  let ?s = "the (makeSegmentedString (UTF16 (lit ''#128512;!'')))"
  have s: "readable ?s" "resumable (table_of sample_entries) ?s" "seg_toString ?s = lit ''#128512;!''"
    using fresh_readable[of "UTF16 (lit ''#128512;!'')"] by (simp_all add: lit_def)
  have "decimal 128512 = lit ''128512''" by (simp add: decimal.simps lit_def)
  then have "seg_toString ?s = chHash # decimal 128512 @ chSemi # lit ''!''" using s(3) by (simp add: lit_def)
  from numeric_reference_roundtrip[OF _ _ _ _ sample_table_ok sample_names_ok s(1,2) _ this, of 0]
  show ?thesis by simp
qed

section \<open>Numbers beyond 32 bits\<close>

lemma of_nat_wraps: "(of_nat (n mod 2 ^ 32) :: UChar32) = of_nat n"
  by (simp add: word_of_nat_eq_iff take_bit_eq_mod)

lemma unat_wraps: "unat (of_nat n :: UChar32) = n mod 2 ^ 32"
  by (simp add: unat_of_nat take_bit_eq_mod)

lemma sint_high: "2 ^ 31 \<le> unat (w :: UChar32) \<Longrightarrow> sint w < 0"
proof -
  assume w: "2 ^ 31 \<le> unat w"
  have "unat w < 2 ^ LENGTH(32)" by (rule unsigned_less)
  with w have "unat w div 2 ^ 31 = 1" by (intro div_nat_eqI) simp_all
  then have "bit (unat w) 31" by (simp add: bit_iff_odd)
  then have "bit w 31" by (simp add: bit_unsigned_iff)
  then show ?thesis using bit_last_iff[of w] by simp
qed

lemma sint_low: "unat (w :: UChar32) < 2 ^ 31 \<Longrightarrow> sint w = int (unat w)"
proof -
  assume w: "unat w < 2 ^ 31"
  define k where "k = unat w"
  have u: "uint w = int k" unfolding k_def by (rule uint_nat)
  have "signed_take_bit 31 (int k) = int k" by (rule signed_take_bit_int_eq_self) (use w in \<open>auto simp: k_def[symmetric]\<close>)
  then show ?thesis unfolding sint_uint u k_def[symmetric] by simp
qed

lemma lead_zero: "U16_LEAD c = 0 \<longleftrightarrow> unat c div 2 ^ 10 mod 2 ^ 16 = 0x2840"
proof -
  have e: "(ucast (signed_drop_bit 10 c) :: UChar) = ucast (drop_bit 10 c)"
    by (rule bit_word_eqI) (auto simp: bit_simps)
  have take: "take_bit 16 (take_bit 32 x + take_bit 32 y) = take_bit 16 (x + y)" for x y :: int
    using take_bit_add[of 16 "take_bit 32 x" "take_bit 32 y"] take_bit_add[of 16 x y] by simp
  have add: "(ucast (x + y) :: UChar) = ucast x + ucast y" for x y :: UChar32 by transfer (simp add: take)
  have "U16_LEAD c = ucast (drop_bit 10 c) + 0xD7C0" unfolding U16_LEAD_def e[symmetric] add by simp
  moreover have minus: "- (0xD7C0 :: UChar) = 0x2840" by simp
  ultimately have "U16_LEAD c = 0 \<longleftrightarrow> (ucast (drop_bit 10 c) :: UChar) = 0x2840" using eq_neg_iff_add_eq_0[of "ucast (drop_bit 10 c) :: UChar" "0xD7C0"] minus by simp
  also have "\<dots> \<longleftrightarrow> unat (ucast (drop_bit 10 c) :: UChar) = unat (0x2840 :: UChar)" by (simp only: word_unat_eq_iff)
  also have "unat (ucast (drop_bit 10 c) :: UChar) = unat c div 2 ^ 10 mod 2 ^ 16"
    using unat_div[of c 1024] by (simp add: unsigned_ucast_eq take_bit_eq_mod drop_bit_eq_div)
  finally show ?thesis by simp
qed

lemma trail_nonzero: "U16_TRAIL c \<noteq> 0"
proof -
  have "bit (U16_TRAIL c) 15" by (simp add: U16_TRAIL_def bit_simps)
  then show ?thesis by auto
qed

lemma numeric_cases:
  defines "decode \<equiv> (\<lambda>n. append_UChar32 (legalEntityFor (of_nat n)))"
  assumes "v < 2 ^ 32"
  shows "0 < v \<Longrightarrow> v \<le> 0x10FFFF \<Longrightarrow> v < 0xD800 \<or> 0xDFFF < v \<Longrightarrow> v < 0x80 \<or> 0x9F < v \<Longrightarrow> utf16_value (decode v) = v"
    "v = 0 \<or> 0xD800 \<le> v \<and> v \<le> 0xDFFF \<or> 0x10FFFF < v \<and> v < 2 ^ 31 \<Longrightarrow> decode v = [0xFFFD]"
    "2 ^ 31 \<le> v \<Longrightarrow> 0 \<in> set (decode v) \<longleftrightarrow> v div 2 ^ 10 mod 2 ^ 16 = 0x2840"
proof -
  let ?w = "of_nat v :: UChar32"
  have u: "unat ?w = v" using unat_wraps[of v] assms(2) by simp
  show "0 < v \<Longrightarrow> v \<le> 0x10FFFF \<Longrightarrow> v < 0xD800 \<or> 0xDFFF < v \<Longrightarrow> v < 0x80 \<or> 0x9F < v \<Longrightarrow> utf16_value (decode v) = v"
    using legalEntityFor_id[of v] utf16_value_append[of v] by (simp add: decode_def)
  have "legalEntityFor ?w = 0xFFFD" if c: "v = 0 \<or> 0xD800 \<le> v \<and> v \<le> 0xDFFF \<or> 0x10FFFF < v \<and> v < 2 ^ 31"
  proof (cases "v = 0")
    case False
    have "sint ?w = int v" using sint_low[of ?w] u c by auto
    with c False show ?thesis by (auto simp: legalEntityFor_def)
  qed (simp add: legalEntityFor_def)
  then show "v = 0 \<or> 0xD800 \<le> v \<and> v \<le> 0xDFFF \<or> 0x10FFFF < v \<and> v < 2 ^ 31 \<Longrightarrow> decode v = [0xFFFD]"
    by (simp add: decode_def append_UChar32_def U_IS_BMP_def)
  show "0 \<in> set (decode v) \<longleftrightarrow> v div 2 ^ 10 mod 2 ^ 16 = 0x2840" if "2 ^ 31 \<le> v"
  proof -
    have "sint ?w < 0" "\<not> U_IS_BMP ?w" "?w \<noteq> 0" using sint_high[of ?w] u that by (auto simp: U_IS_BMP_def word_le_nat_alt)
    then have "decode v = [U16_LEAD ?w, U16_TRAIL ?w]" by (simp add: decode_def legalEntityFor_def append_UChar32_def)
    with lead_zero[of ?w] trail_nonzero[of ?w] u show ?thesis by auto
  qed
qed

text \<open>C35: Numeric references wrap around at 32 bits. Whatever number a decimal reference writes, only its value \<open>v\<close> modulo \<open>2^32\<close>
  counts: it decodes to the code point \<open>v\<close> when that is a legal one that is not remapped, so a number far outside Unicode can name
  an ASCII letter; to the replacement character when \<open>v\<close> is NUL, a surrogate or positive and too large; and when \<open>v\<close> is negative as a
  signed number the range check lets it pass, and the two units appended hold a NUL exactly when bits 10 to 25 of \<open>v\<close> are \<open>0x2840\<close>.\<close>

theorem numeric_reference_wraps:
  fixes n :: nat
  defines "v \<equiv> n mod 2 ^ 32"
  assumes "table_ok T" "names_ok T" "readable s" "resumable T s" "add \<in> {0, chQuot, chApos, chGreater}"
    and "seg_toString s = chHash # decimal n @ chSemi # rest"
  shows "\<exists>decoded s'. consumeHTMLEntity T add s = Some (True, False, decoded, s') \<and> stream_inv s' \<and> seg_toString s' = rest \<and>
     (0 < v \<and> v \<le> 0x10FFFF \<and> (v < 0xD800 \<or> 0xDFFF < v) \<and> (v < 0x80 \<or> 0x9F < v) \<longrightarrow> utf16_value decoded = v) \<and>
     (v = 0 \<or> 0xD800 \<le> v \<and> v \<le> 0xDFFF \<or> 0x10FFFF < v \<and> v < 2 ^ 31 \<longrightarrow> decoded = [0xFFFD]) \<and>
     (2 ^ 31 \<le> v \<longrightarrow> (0 \<in> set decoded \<longleftrightarrow> v div 2 ^ 10 mod 2 ^ 16 = 0x2840))"
proof -
  let ?d = "append_UChar32 (legalEntityFor (of_nat v))"
  have v: "v < 2 ^ 32" and n: "(of_nat n :: UChar32) = of_nat v" using of_nat_wraps[of n] by (simp_all add: v_def)
  have "\<not> isASCIIDigit chSemi" "add \<noteq> chHash" using assms(6) by (auto simp: isASCIIDigit_def)
  from charref_decimal[OF this, of T n rest] assms(7) n have "charref_spec T add (seg_toString s) = Reference ?d rest" by simp
  with consumeHTMLEntity_spec[OF assms(2-6)] obtain s' where "consumeHTMLEntity T add s = Some (True, False, ?d, s')" "stream_inv s'" "seg_toString s' = rest"
    by (auto simp: ref_ok_def flagged_def)
  then show ?thesis using numeric_cases[OF v] by (intro exI[of _ ?d] exI[of _ s']) (intro conjI impI; blast)
qed

theorem numeric_reference_wraps_witness:
  "\<exists>decoded s'. consumeHTMLEntity (table_of sample_entries) 0 (the (makeSegmentedString (UTF16 (lit ''#2158034944;'')))) = Some (True, False, decoded, s') \<and>
     0 \<in> set decoded"
proof -
  let ?s = "the (makeSegmentedString (UTF16 (lit ''#2158034944;'')))"
  have s: "readable ?s" "resumable (table_of sample_entries) ?s" "seg_toString ?s = lit ''#2158034944;''"
    using fresh_readable[of "UTF16 (lit ''#2158034944;'')"] by (simp_all add: lit_def)
  have "decimal 2158034944 = lit ''2158034944''" by (simp add: decimal.simps lit_def)
  then have "seg_toString ?s = chHash # decimal 2158034944 @ chSemi # []" using s(3) by (simp add: lit_def)
  from numeric_reference_wraps[OF sample_table_ok sample_names_ok s(1,2) _ this, of 0] show ?thesis by auto
qed

section \<open>Names decoded in full\<close>

lemma decode_scan_spec:
  assumes "table_ok T" "search_inv T w st"
  shows "\<exists>r. decode_scan T name st = Some r \<and>
    (case r of Some st' \<Rightarrow> search_inv T (w @ name) st' | None \<Rightarrow> \<not> has_prefix T (w @ name))"
  using assms(2)
proof (induction name arbitrary: w st)
  case (Cons c name)
  obtain st1 where st1: "search_advance T c st = Some st1"
    "if has_prefix T (w @ [c]) then search_inv T (w @ [c]) st1 else \<not> isEntityPrefix st1"
    using search_advance_spec[OF assms(1) Cons.prems, of c] by (metis (full_types))
  show ?case
  proof (cases "has_prefix T (w @ [c])")
    case True
    with st1 have "search_inv T (w @ [c]) st1" "isEntityPrefix st1"
      by (auto simp: search_inv_def isEntityPrefix_def)
    with Cons.IH[of "w @ [c]" st1] st1(1) show ?thesis by (simp cong: option.case_cong)
  next
    case False
    with st1 has_prefix_append[of T "w @ [c]" name] show ?thesis by auto
  qed
qed simp

lemma appendUChar32ToUCharArray_eq: "appendUChar32ToUCharArray v = Some (append_UChar32 v)"
proof (cases "U_IS_BMP v")
  case True
  have "unat v \<le> 0xFFFF" using True by (simp add: U_IS_BMP_def word_le_nat_alt)
  then have "unat (ucast (ucast v :: UChar) :: UChar32) = unat v"
    by (simp add: unsigned_ucast_eq unsigned_take_bit_eq take_bit_nat_eq_self)
  then have "ucast (ucast v :: UChar) = v" by (rule unsigned_word_eqI)
  with True show ?thesis by (simp add: appendUChar32ToUCharArray_def append_UChar32_def)
qed (simp add: appendUChar32ToUCharArray_def append_UChar32_def)

text \<open>Decoding an entity name given without its semicolon returns the units of the entry named by it
  with the semicolon, and nothing when no entry starts so; no assertion fails and the null
  match is never dereferenced.\<close>

lemma decode_named_entity_correct:
  assumes "table_ok T" "has_prefix T (name @ [chSemi]) \<longrightarrow> entry_named T (name @ [chSemi]) \<noteq> None"
  shows "decodeNamedEntityToUCharArray T name =
    Some (case entry_named T (name @ [chSemi]) of None \<Rightarrow> [] | Some i \<Rightarrow> decodeEntry (tab_entries T ! i))"
proof -
  obtain r where r: "decode_scan T name (newHTMLEntitySearch T) = Some r"
    "case r of Some st' \<Rightarrow> search_inv T name st' | None \<Rightarrow> \<not> has_prefix T name"
    using decode_scan_spec[OF assms(1) search_inv_new, of name] unfolding append_Nil by blast
  show ?thesis
  proof (cases r)
    case None
    then have "\<not> has_prefix T (name @ [chSemi])" using r has_prefix_append[of T name "[chSemi]"] by auto
    then have "entry_named T (name @ [chSemi]) = None" using entry_named_has_prefix by blast
    with r None show ?thesis by (simp add: decodeNamedEntityToUCharArray_def)
  next
    case (Some st)
    then have inv: "search_inv T name st" using r by simp
    obtain st1 where st1: "search_advance T chSemi st = Some st1"
      "if has_prefix T (name @ [chSemi]) then search_inv T (name @ [chSemi]) st1 else \<not> isEntityPrefix st1"
      using search_advance_spec[OF assms(1) inv, of chSemi] by (metis (full_types))
    show ?thesis
    proof (cases "has_prefix T (name @ [chSemi])")
      case True
      then obtain i where i: "entry_named T (name @ [chSemi]) = Some i" using assms(2) by auto
      then have "es_mostRecentMatch st1 = Some i" "isEntityPrefix st1"
        using st1 True by (auto simp: search_inv_def isEntityPrefix_def longest_match_snoc)
      moreover have "entryAt T i = Some (tab_entries T ! i)" using entry_named_entity[OF i] by (simp add: entryAt_def)
      ultimately show ?thesis using r Some st1(1) i
        by (auto simp: decodeNamedEntityToUCharArray_def appendUChar32ToUCharArray_eq decodeEntry_def)
    next
      case False
      then have "entry_named T (name @ [chSemi]) = None" using entry_named_has_prefix by blast
      with r Some st1 False show ?thesis by (simp add: decodeNamedEntityToUCharArray_def)
    qed
  qed
qed

end
