(* ===== verification/Tokenizer.thy ===== *)
theory Tokenizer
  imports Entity_Parser HTML_Token
begin

text \<open>
  The HTML tokenizer: \<open>src/Source/WebCore/html/parser/HTMLTokenizer.h\<close>, \<open>HTMLTokenizer.cpp\<close>
  and the macros of \<open>src/Source/WebCore/xml/parser/MarkupTokenizerInlines.h\<close>.

  \<open>nextToken\<close> is one large switch over 71 states joined by \<open>goto\<close>. Each state is a
  definition \<open>X_step\<close> that takes the current input character and the configuration (the
  tokenizer's fields, the stream and the token being built) and says how its block ends: jump to
  another state with a character (\<open>Goto\<close>), return from \<open>nextToken\<close> (\<open>Ret\<close>), or fail an
  assertion (\<open>Crash\<close>). The statements of a block are composed in continuation style:
  \<open>token_do f k\<close> is a call on the token followed by \<open>k\<close>, and the macros \<open>ADVANCE_TO\<close>,
  \<open>SWITCH_TO\<close>, \<open>RECONSUME_IN\<close> and \<open>FLUSH_AND_ADVANCE_TO\<close> are the ends of blocks.
  \<open>parseError()\<close> does nothing in the source and is left out. Case folding and the entity table
  are parameters, collected in \<open>TokenizerEnv\<close>.
\<close>

section \<open>Data\<close>

datatype (plugins only: code) State =
    DataState | CharacterReferenceInDataState | RCDATAState | CharacterReferenceInRCDATAState
  | RAWTEXTState | ScriptDataState | PLAINTEXTState | TagOpenState | EndTagOpenState | TagNameState
  | RCDATALessThanSignState | RCDATAEndTagOpenState | RCDATAEndTagNameState
  | RAWTEXTLessThanSignState | RAWTEXTEndTagOpenState | RAWTEXTEndTagNameState
  | ScriptDataLessThanSignState | ScriptDataEndTagOpenState | ScriptDataEndTagNameState
  | ScriptDataEscapeStartState | ScriptDataEscapeStartDashState | ScriptDataEscapedState
  | ScriptDataEscapedDashState | ScriptDataEscapedDashDashState | ScriptDataEscapedLessThanSignState
  | ScriptDataEscapedEndTagOpenState | ScriptDataEscapedEndTagNameState
  | ScriptDataDoubleEscapeStartState | ScriptDataDoubleEscapedState | ScriptDataDoubleEscapedDashState
  | ScriptDataDoubleEscapedDashDashState | ScriptDataDoubleEscapedLessThanSignState
  | ScriptDataDoubleEscapeEndState | BeforeAttributeNameState | AttributeNameState
  | AfterAttributeNameState | BeforeAttributeValueState | AttributeValueDoubleQuotedState
  | AttributeValueSingleQuotedState | AttributeValueUnquotedState
  | CharacterReferenceInAttributeValueState | AfterAttributeValueQuotedState
  | SelfClosingStartTagState | BogusCommentState | ContinueBogusCommentState
  | MarkupDeclarationOpenState | CommentStartState | CommentStartDashState | CommentState
  | CommentEndDashState | CommentEndState | CommentEndBangState | DOCTYPEState
  | BeforeDOCTYPENameState | DOCTYPENameState | AfterDOCTYPENameState
  | AfterDOCTYPEPublicKeywordState | BeforeDOCTYPEPublicIdentifierState
  | DOCTYPEPublicIdentifierDoubleQuotedState | DOCTYPEPublicIdentifierSingleQuotedState
  | AfterDOCTYPEPublicIdentifierState | BetweenDOCTYPEPublicAndSystemIdentifiersState
  | AfterDOCTYPESystemKeywordState | BeforeDOCTYPESystemIdentifierState
  | DOCTYPESystemIdentifierDoubleQuotedState | DOCTYPESystemIdentifierSingleQuotedState
  | AfterDOCTYPESystemIdentifierState | BogusDOCTYPEState | CDATASectionState
  | CDATASectionRightSquareBracketState | CDATASectionDoubleRightSquareBracketState

record HTMLParserOptions =
  opt_scriptEnabled :: bool
  opt_pluginsEnabled :: bool
  opt_usePreHTML5ParserQuirks :: bool
  opt_useThreading :: bool
  opt_maximumDOMTreeDepth :: "32 word"

record HTMLTokenizer =
  tk_state :: State
  tk_forceNullCharacterReplacement :: bool
  tk_shouldAllowCDATA :: bool
  tk_token :: "nat option"   \<comment> \<open>\<open>m_token\<close>: the address of the caller's token\<close>
  tk_additionalAllowedCharacter :: UChar
  tk_inputStreamPreprocessor :: InputStreamPreprocessor
  tk_appropriateEndTagName :: "UChar list"
  tk_temporaryBuffer :: "LChar list"
  tk_bufferedEndTagName :: "LChar list"
  tk_options :: HTMLParserOptions

text \<open>During a call of \<open>nextToken\<close>, the two reference arguments are part of the state.\<close>

record Conf = HTMLTokenizer +
  run_source :: SegmentedString
  run_token :: HTMLToken

record TokenizerEnv =
  env_foldCase :: "UChar32 \<Rightarrow> UChar32"
  env_table :: HTMLEntityTable

datatype outcome = Goto UChar Conf | Ret bool Conf | Crash

type_synonym block = "Conf \<Rightarrow> outcome"

section \<open>Helpers of the tokenizer\<close>

definition tk_reset :: "'a HTMLTokenizer_scheme \<Rightarrow> 'a HTMLTokenizer_scheme" where
  "tk_reset tk = tk\<lparr>tk_state := DataState, tk_token := None, tk_forceNullCharacterReplacement := False,
     tk_shouldAllowCDATA := False, tk_additionalAllowedCharacter := 0\<rparr>"

definition newHTMLTokenizer :: "HTMLParserOptions \<Rightarrow> HTMLTokenizer" where
  "newHTMLTokenizer options = tk_reset \<lparr>tk_state = DataState, tk_forceNullCharacterReplacement = False,
     tk_shouldAllowCDATA = False, tk_token = None, tk_additionalAllowedCharacter = 0,
     tk_inputStreamPreprocessor = pre_reset False, tk_appropriateEndTagName = [],
     tk_temporaryBuffer = [], tk_bufferedEndTagName = [], tk_options = options\<rparr>"

definition isTokenizerWhitespace :: "UChar \<Rightarrow> bool" where
  "isTokenizerWhitespace cc \<longleftrightarrow> cc = chSpace \<or> cc = chLF \<or> cc = chTab \<or> cc = chFF"

definition toLowerCase :: "UChar \<Rightarrow> UChar option" where
  "toLowerCase cc = do { ASSERT (isASCIIUpper cc); Some (cc + 0x20) }"

definition vectorEqualsString :: "LChar list \<Rightarrow> UChar list \<Rightarrow> bool" where
  "vectorEqualsString vector string \<longleftrightarrow>
     (if length vector \<noteq> length string then False
      else if length string = 0 then True
      else map ucast vector = string)"

definition isEndTagBufferingState :: "State \<Rightarrow> bool" where
  "isEndTagBufferingState state \<longleftrightarrow> state \<in> {RCDATAEndTagOpenState, RCDATAEndTagNameState,
     RAWTEXTEndTagOpenState, RAWTEXTEndTagNameState, ScriptDataEndTagOpenState,
     ScriptDataEndTagNameState, ScriptDataEscapedEndTagOpenState, ScriptDataEscapedEndTagNameState}"

definition shouldSkipNullCharacters :: "'a HTMLTokenizer_scheme \<Rightarrow> bool" where
  "shouldSkipNullCharacters tk \<longleftrightarrow> \<not> tk_forceNullCharacterReplacement tk \<and>
     (tk_state tk = DataState \<or> tk_state tk = RCDATAState \<or> tk_state tk = RAWTEXTState)"

definition numberOfBufferedCharacters :: "'a HTMLTokenizer_scheme \<Rightarrow> nat" where
  "numberOfBufferedCharacters tk =
     (if length (tk_temporaryBuffer tk) \<noteq> 0 then length (tk_temporaryBuffer tk) + 2 else 0)"

definition bufferedCharacters :: "'a HTMLTokenizer_scheme \<Rightarrow> UChar list" where
  "bufferedCharacters tk = [chLess, chSlash] @ map ucast (tk_temporaryBuffer tk)"

definition updateStateFor :: "UChar list \<Rightarrow> 'a HTMLTokenizer_scheme \<Rightarrow> 'a HTMLTokenizer_scheme" where
  "updateStateFor tagName tk =
     (if tagName = lit ''textarea'' \<or> tagName = lit ''title'' then tk\<lparr>tk_state := RCDATAState\<rparr>
      else if tagName = lit ''plaintext'' then tk\<lparr>tk_state := PLAINTEXTState\<rparr>
      else if tagName = lit ''script'' then tk\<lparr>tk_state := ScriptDataState\<rparr>
      else if tagName = lit ''style'' \<or> tagName = lit ''iframe'' \<or> tagName = lit ''xmp''
        \<or> (tagName = lit ''noembed'' \<and> opt_pluginsEnabled (tk_options tk))
        \<or> tagName = lit ''noframes''
        \<or> (tagName = lit ''noscript'' \<and> opt_scriptEnabled (tk_options tk))
      then tk\<lparr>tk_state := RAWTEXTState\<rparr>
      else tk)"

definition temporaryBufferIs :: "UChar list \<Rightarrow> 'a HTMLTokenizer_scheme \<Rightarrow> bool" where
  "temporaryBufferIs expectedString tk \<longleftrightarrow> vectorEqualsString (tk_temporaryBuffer tk) expectedString"

definition addToPossibleEndTag :: "LChar \<Rightarrow> Conf \<Rightarrow> Conf option" where
  "addToPossibleEndTag cc c = do {
     ASSERT (isEndTagBufferingState (tk_state c));
     Some (c\<lparr>tk_bufferedEndTagName := tk_bufferedEndTagName c @ [cc]\<rparr>) }"

definition isAppropriateEndTag :: "'a HTMLTokenizer_scheme \<Rightarrow> bool" where
  "isAppropriateEndTag tk \<longleftrightarrow>
     length (tk_bufferedEndTagName tk) = length (tk_appropriateEndTagName tk) \<and>
     list_all2 (\<lambda>a b. ucast a = b) (tk_bufferedEndTagName tk) (tk_appropriateEndTagName tk)"

section \<open>Ends of blocks\<close>

definition haveBufferedCharacterToken :: "Conf \<Rightarrow> bool" where
  "haveBufferedCharacterToken c \<longleftrightarrow> tok_type (run_token c) = Character"

definition return_buffered :: block where
  "return_buffered c = Ret (haveBufferedCharacterToken c) c"

text \<open>The common tail of the macros: return, or load \<open>cc\<close> and jump.\<close>

definition after_read :: "Conf \<Rightarrow> (bool \<times> InputStreamPreprocessor \<times> SegmentedString) option \<Rightarrow> outcome" where
  "after_read c r = (case r of None \<Rightarrow> Crash
     | Some (available, p, s) \<Rightarrow>
         let c1 = c\<lparr>tk_inputStreamPreprocessor := p, run_source := s\<rparr> in
         if available then Goto (pre_nextInputCharacter p) c1 else return_buffered c1)"

definition peek_source :: "Conf \<Rightarrow> outcome" where
  "peek_source c = after_read c (pre_peek (shouldSkipNullCharacters c) (tk_inputStreamPreprocessor c) (run_source c))"

definition RECONSUME_IN :: "State \<Rightarrow> UChar \<Rightarrow> block" where
  "RECONSUME_IN stateName cc c = Goto cc (c\<lparr>tk_state := stateName\<rparr>)"

definition ADVANCE_TO :: "State \<Rightarrow> block" where
  "ADVANCE_TO stateName c = (let c0 = c\<lparr>tk_state := stateName\<rparr> in
     after_read c0 (pre_advance (shouldSkipNullCharacters c0) (tk_inputStreamPreprocessor c0) (run_source c0)))"

definition SWITCH_TO :: "State \<Rightarrow> block" where
  "SWITCH_TO stateName c = (let c0 = c\<lparr>tk_state := stateName\<rparr> in
     if seg_empty (run_source c0) then return_buffered c0 else peek_source c0)"

definition token_do :: "(HTMLToken \<Rightarrow> HTMLToken option) \<Rightarrow> block \<Rightarrow> block" where
  "token_do f k c = (case f (run_token c) of None \<Rightarrow> Crash | Some t \<Rightarrow> k (c\<lparr>run_token := t\<rparr>))"

definition conf_do :: "(Conf \<Rightarrow> Conf option) \<Rightarrow> block \<Rightarrow> block" where
  "conf_do f k c = (case f c of None \<Rightarrow> Crash | Some c1 \<Rightarrow> k c1)"

definition bufferCharacter :: "UChar \<Rightarrow> block \<Rightarrow> block" where
  "bufferCharacter character = token_do (\<lambda>t. do {
     ASSERT (character \<noteq> kEndOfFileMarker);
     t1 \<leftarrow> ensureIsCharacterToken t;
     appendToCharacter character t1 })"

definition saveEndTagNameIfNeeded :: "Conf \<Rightarrow> Conf option" where
  "saveEndTagNameIfNeeded c = do {
     ASSERT (tok_type (run_token c) \<noteq> Uninitialized);
     if tok_type (run_token c) = StartTag then do {
       n \<leftarrow> token_name (run_token c);
       Some (c\<lparr>tk_appropriateEndTagName := n\<rparr>) }
     else Some c }"

definition advance_source :: "Conf \<Rightarrow> Conf option" where
  "advance_source c = do {
     s \<leftarrow> advanceAndUpdateLineNumber (run_source c);
     Some (c\<lparr>run_source := s\<rparr>) }"

definition emitAndResumeIn :: "State \<Rightarrow> block" where
  "emitAndResumeIn state =
     conf_do (\<lambda>c. do { c1 \<leftarrow> saveEndTagNameIfNeeded c; advance_source (c1\<lparr>tk_state := state\<rparr>) }) (Ret True)"

definition emitAndReconsumeIn :: "State \<Rightarrow> block" where
  "emitAndReconsumeIn state =
     conf_do (\<lambda>c. do { c1 \<leftarrow> saveEndTagNameIfNeeded c; Some (c1\<lparr>tk_state := state\<rparr>) }) (Ret True)"

definition emitEndOfFile :: block where
  "emitEndOfFile c =
     (if haveBufferedCharacterToken c then Ret True c
      else conf_do (\<lambda>c. advance_source (c\<lparr>tk_state := DataState\<rparr>))
             (token_do (\<lambda>t. makeEndOfFile (tok_clear t)) (Ret True)) c)"

definition flushBufferedEndTag :: "Conf \<Rightarrow> (bool \<times> Conf) option" where
  "flushBufferedEndTag c = do {
     ASSERT (tok_type (run_token c) = Character \<or> tok_type (run_token c) = Uninitialized);
     c1 \<leftarrow> advance_source c;
     if tok_type (run_token c1) = Character then Some (True, c1)
     else do {
       t \<leftarrow> beginEndTag_vector (tk_bufferedEndTagName c1) (run_token c1);
       Some (False, c1\<lparr>run_token := t, tk_bufferedEndTagName := [], tk_appropriateEndTagName := [],
         tk_temporaryBuffer := []\<rparr>) } }"

definition FLUSH_AND_ADVANCE_TO :: "State \<Rightarrow> block" where
  "FLUSH_AND_ADVANCE_TO stateName c =
     (case flushBufferedEndTag (c\<lparr>tk_state := stateName\<rparr>) of None \<Rightarrow> Crash
      | Some (True, c1) \<Rightarrow> Ret True c1
      | Some (False, c1) \<Rightarrow> if seg_empty (run_source c1) then return_buffered c1 else peek_source c1)"

definition flushEmitAndResumeIn :: "State \<Rightarrow> block" where
  "flushEmitAndResumeIn state c =
     (case flushBufferedEndTag (c\<lparr>tk_state := state\<rparr>) of None \<Rightarrow> Crash | Some (b, c1) \<Rightarrow> Ret True c1)"

text \<open>Appending each unit of a decoded reference.\<close>

fun buffer_all :: "UChar list \<Rightarrow> block \<Rightarrow> block" where
  "buffer_all [] k = k"
| "buffer_all (u # us) k = bufferCharacter u (buffer_all us k)"

fun value_all :: "UChar list \<Rightarrow> block \<Rightarrow> block" where
  "value_all [] k = k"
| "value_all (u # us) k = token_do (appendToAttributeValue u) (value_all us k)"

text \<open>\<open>processEntity\<close> with the two continuations of its callers: \<open>false\<close> returns.\<close>

definition processEntity :: "TokenizerEnv \<Rightarrow> block \<Rightarrow> block" where
  "processEntity E k c =
     (case consumeHTMLEntity (env_table E) 0 (run_source c) of None \<Rightarrow> Crash
      | Some (success, notEnoughCharacters, decodedEntity, s) \<Rightarrow>
          let c1 = c\<lparr>run_source := s\<rparr> in
          if notEnoughCharacters then return_buffered c1
          else if \<not> success then (if decodedEntity = [] then bufferCharacter chAmp k c1 else Crash)
          else buffer_all decodedEntity k c1)"

definition with_lower :: "UChar \<Rightarrow> (UChar \<Rightarrow> block) \<Rightarrow> block" where
  "with_lower cc k c = (case toLowerCase cc of None \<Rightarrow> Crash | Some d \<Rightarrow> k d c)"

definition set_temporaryBuffer :: "(LChar list \<Rightarrow> LChar list) \<Rightarrow> block \<Rightarrow> block" where
  "set_temporaryBuffer f k c = k (c\<lparr>tk_temporaryBuffer := f (tk_temporaryBuffer c)\<rparr>)"

end
