(* ===== verification/Tokenizer_States.thy ===== *)
theory Tokenizer_States
  imports Tokenizer
begin

text \<open>
  The states of the tokenizer, one definition per block of the switch in
  \<open>HTMLTokenizer::nextToken\<close> (\<open>src/Source/WebCore/html/parser/HTMLTokenizer.cpp\<close>), in the
  order of the source, and \<open>nextToken\<close> itself.
\<close>

section \<open>Data, RCDATA, RAWTEXT, script data, PLAINTEXT\<close>

definition DataState_step :: "UChar \<Rightarrow> block" where
  "DataState_step cc c =
     (if cc = chAmp then ADVANCE_TO CharacterReferenceInDataState c
      else if cc = chLess then
        (if tok_type (run_token c) = Character then Ret True c else ADVANCE_TO TagOpenState c)
      else if cc = kEndOfFileMarker then emitEndOfFile c
      else bufferCharacter cc (ADVANCE_TO DataState) c)"

definition CharacterReferenceInDataState_step :: "TokenizerEnv \<Rightarrow> UChar \<Rightarrow> block" where
  "CharacterReferenceInDataState_step E cc = processEntity E (SWITCH_TO DataState)"

definition RCDATAState_step :: "UChar \<Rightarrow> block" where
  "RCDATAState_step cc =
     (if cc = chAmp then ADVANCE_TO CharacterReferenceInRCDATAState
      else if cc = chLess then ADVANCE_TO RCDATALessThanSignState
      else if cc = kEndOfFileMarker then emitEndOfFile
      else bufferCharacter cc (ADVANCE_TO RCDATAState))"

definition CharacterReferenceInRCDATAState_step :: "TokenizerEnv \<Rightarrow> UChar \<Rightarrow> block" where
  "CharacterReferenceInRCDATAState_step E cc = processEntity E (SWITCH_TO RCDATAState)"

definition RAWTEXTState_step :: "UChar \<Rightarrow> block" where
  "RAWTEXTState_step cc =
     (if cc = chLess then ADVANCE_TO RAWTEXTLessThanSignState
      else if cc = kEndOfFileMarker then emitEndOfFile
      else bufferCharacter cc (ADVANCE_TO RAWTEXTState))"

definition ScriptDataState_step :: "UChar \<Rightarrow> block" where
  "ScriptDataState_step cc =
     (if cc = chLess then ADVANCE_TO ScriptDataLessThanSignState
      else if cc = kEndOfFileMarker then emitEndOfFile
      else bufferCharacter cc (ADVANCE_TO ScriptDataState))"

definition PLAINTEXTState_step :: "UChar \<Rightarrow> block" where
  "PLAINTEXTState_step cc =
     (if cc = kEndOfFileMarker then emitEndOfFile
      else bufferCharacter cc (ADVANCE_TO PLAINTEXTState))"

section \<open>Tags\<close>

definition TagOpenState_step :: "UChar \<Rightarrow> block" where
  "TagOpenState_step cc =
     (if cc = chBang then ADVANCE_TO MarkupDeclarationOpenState
      else if cc = chSlash then ADVANCE_TO EndTagOpenState
      else if isASCIIUpper cc then
        with_lower cc (\<lambda>d. token_do (beginStartTag d) (ADVANCE_TO TagNameState))
      else if isASCIILower cc then token_do (beginStartTag cc) (ADVANCE_TO TagNameState)
      else if cc = chQuest then RECONSUME_IN BogusCommentState cc
      else bufferCharacter chLess (RECONSUME_IN DataState cc))"

definition clear_appropriateEndTagName :: "block \<Rightarrow> block" where
  "clear_appropriateEndTagName k c = k (c\<lparr>tk_appropriateEndTagName := []\<rparr>)"

definition EndTagOpenState_step :: "UChar \<Rightarrow> block" where
  "EndTagOpenState_step cc =
     (if isASCIIUpper cc then
        with_lower cc (\<lambda>d. token_do (beginEndTag (ucast d))
          (clear_appropriateEndTagName (ADVANCE_TO TagNameState)))
      else if isASCIILower cc then
        token_do (beginEndTag (ucast cc)) (clear_appropriateEndTagName (ADVANCE_TO TagNameState))
      else if cc = chGreater then ADVANCE_TO DataState
      else if cc = kEndOfFileMarker then
        bufferCharacter chLess (bufferCharacter chSlash (RECONSUME_IN DataState cc))
      else RECONSUME_IN BogusCommentState cc)"

abbreviation quirks :: "Conf \<Rightarrow> bool" where
  "quirks c \<equiv> opt_usePreHTML5ParserQuirks (tk_options c)"

definition TagNameState_step :: "UChar \<Rightarrow> block" where
  "TagNameState_step cc c =
     (if isTokenizerWhitespace cc then ADVANCE_TO BeforeAttributeNameState c
      else if cc = chSlash then ADVANCE_TO SelfClosingStartTagState c
      else if cc = chGreater then emitAndResumeIn DataState c
      else if quirks c \<and> cc = chLess then emitAndReconsumeIn DataState c
      else if isASCIIUpper cc then
        with_lower cc (\<lambda>d. token_do (appendToName d) (ADVANCE_TO TagNameState)) c
      else if cc = kEndOfFileMarker then RECONSUME_IN DataState cc c
      else token_do (appendToName cc) (ADVANCE_TO TagNameState) c)"

section \<open>Possible end tags in RCDATA, RAWTEXT and script data\<close>

definition assert_noBufferedEndTag :: "block \<Rightarrow> block" where
  "assert_noBufferedEndTag k c = (if tk_bufferedEndTagName c = [] then k c else Crash)"

text \<open>
  The blocks \<open>XLessThanSignState\<close>, \<open>XEndTagOpenState\<close> and \<open>XEndTagNameState\<close> differ
  between the families only in the states they jump to.
\<close>

definition lessThanSign_slash :: "State \<Rightarrow> block" where
  "lessThanSign_slash endTagOpen =
     set_temporaryBuffer (\<lambda>_. []) (assert_noBufferedEndTag (ADVANCE_TO endTagOpen))"

definition endTagOpen_block :: "State \<Rightarrow> State \<Rightarrow> UChar \<Rightarrow> block" where
  "endTagOpen_block endTagName text cc =
     (if isASCIIUpper cc then
        set_temporaryBuffer (\<lambda>b. b @ [ucast cc])
          (with_lower cc (\<lambda>d. conf_do (addToPossibleEndTag (ucast d)) (ADVANCE_TO endTagName)))
      else if isASCIILower cc then
        set_temporaryBuffer (\<lambda>b. b @ [ucast cc])
          (conf_do (addToPossibleEndTag (ucast cc)) (ADVANCE_TO endTagName))
      else bufferCharacter chLess (bufferCharacter chSlash (RECONSUME_IN text cc)))"

definition giveUpEndTag :: "State \<Rightarrow> UChar \<Rightarrow> block" where
  "giveUpEndTag text cc = bufferCharacter chLess (bufferCharacter chSlash (\<lambda>c.
     token_do (appendToCharacter_vector (tk_temporaryBuffer c))
       (\<lambda>c. RECONSUME_IN text cc (c\<lparr>tk_bufferedEndTagName := [], tk_temporaryBuffer := []\<rparr>)) c))"

definition endTagName_block :: "State \<Rightarrow> State \<Rightarrow> UChar \<Rightarrow> block" where
  "endTagName_block endTagName text cc c =
     (if isASCIIUpper cc then
        set_temporaryBuffer (\<lambda>b. b @ [ucast cc])
          (with_lower cc (\<lambda>d. conf_do (addToPossibleEndTag (ucast d)) (ADVANCE_TO endTagName))) c
      else if isASCIILower cc then
        set_temporaryBuffer (\<lambda>b. b @ [ucast cc])
          (conf_do (addToPossibleEndTag (ucast cc)) (ADVANCE_TO endTagName)) c
      else if isTokenizerWhitespace cc \<and> isAppropriateEndTag c then
        set_temporaryBuffer (\<lambda>b. b @ [ucast cc]) (FLUSH_AND_ADVANCE_TO BeforeAttributeNameState) c
      else if cc = chSlash \<and> isAppropriateEndTag c then
        set_temporaryBuffer (\<lambda>b. b @ [ucast cc]) (FLUSH_AND_ADVANCE_TO SelfClosingStartTagState) c
      else if cc = chGreater \<and> isAppropriateEndTag c then
        set_temporaryBuffer (\<lambda>b. b @ [ucast cc]) (flushEmitAndResumeIn DataState) c
      else giveUpEndTag text cc c)"

definition RCDATALessThanSignState_step :: "UChar \<Rightarrow> block" where
  "RCDATALessThanSignState_step cc =
     (if cc = chSlash then lessThanSign_slash RCDATAEndTagOpenState
      else bufferCharacter chLess (RECONSUME_IN RCDATAState cc))"

definition RCDATAEndTagOpenState_step :: "UChar \<Rightarrow> block" where
  "RCDATAEndTagOpenState_step = endTagOpen_block RCDATAEndTagNameState RCDATAState"

definition RCDATAEndTagNameState_step :: "UChar \<Rightarrow> block" where
  "RCDATAEndTagNameState_step = endTagName_block RCDATAEndTagNameState RCDATAState"

definition RAWTEXTLessThanSignState_step :: "UChar \<Rightarrow> block" where
  "RAWTEXTLessThanSignState_step cc =
     (if cc = chSlash then lessThanSign_slash RAWTEXTEndTagOpenState
      else bufferCharacter chLess (RECONSUME_IN RAWTEXTState cc))"

definition RAWTEXTEndTagOpenState_step :: "UChar \<Rightarrow> block" where
  "RAWTEXTEndTagOpenState_step = endTagOpen_block RAWTEXTEndTagNameState RAWTEXTState"

definition RAWTEXTEndTagNameState_step :: "UChar \<Rightarrow> block" where
  "RAWTEXTEndTagNameState_step = endTagName_block RAWTEXTEndTagNameState RAWTEXTState"

definition ScriptDataLessThanSignState_step :: "UChar \<Rightarrow> block" where
  "ScriptDataLessThanSignState_step cc =
     (if cc = chSlash then lessThanSign_slash ScriptDataEndTagOpenState
      else if cc = chBang then
        bufferCharacter chLess (bufferCharacter chBang (ADVANCE_TO ScriptDataEscapeStartState))
      else bufferCharacter chLess (RECONSUME_IN ScriptDataState cc))"

definition ScriptDataEndTagOpenState_step :: "UChar \<Rightarrow> block" where
  "ScriptDataEndTagOpenState_step = endTagOpen_block ScriptDataEndTagNameState ScriptDataState"

definition ScriptDataEndTagNameState_step :: "UChar \<Rightarrow> block" where
  "ScriptDataEndTagNameState_step = endTagName_block ScriptDataEndTagNameState ScriptDataState"

section \<open>Escaped script data\<close>

definition ScriptDataEscapeStartState_step :: "UChar \<Rightarrow> block" where
  "ScriptDataEscapeStartState_step cc =
     (if cc = chDash then bufferCharacter cc (ADVANCE_TO ScriptDataEscapeStartDashState)
      else RECONSUME_IN ScriptDataState cc)"

definition ScriptDataEscapeStartDashState_step :: "UChar \<Rightarrow> block" where
  "ScriptDataEscapeStartDashState_step cc =
     (if cc = chDash then bufferCharacter cc (ADVANCE_TO ScriptDataEscapedDashDashState)
      else RECONSUME_IN ScriptDataState cc)"

definition ScriptDataEscapedState_step :: "UChar \<Rightarrow> block" where
  "ScriptDataEscapedState_step cc =
     (if cc = chDash then bufferCharacter cc (ADVANCE_TO ScriptDataEscapedDashState)
      else if cc = chLess then ADVANCE_TO ScriptDataEscapedLessThanSignState
      else if cc = kEndOfFileMarker then RECONSUME_IN DataState cc
      else bufferCharacter cc (ADVANCE_TO ScriptDataEscapedState))"

definition ScriptDataEscapedDashState_step :: "UChar \<Rightarrow> block" where
  "ScriptDataEscapedDashState_step cc =
     (if cc = chDash then bufferCharacter cc (ADVANCE_TO ScriptDataEscapedDashDashState)
      else if cc = chLess then ADVANCE_TO ScriptDataEscapedLessThanSignState
      else if cc = kEndOfFileMarker then RECONSUME_IN DataState cc
      else bufferCharacter cc (ADVANCE_TO ScriptDataEscapedState))"

definition ScriptDataEscapedDashDashState_step :: "UChar \<Rightarrow> block" where
  "ScriptDataEscapedDashDashState_step cc =
     (if cc = chDash then bufferCharacter cc (ADVANCE_TO ScriptDataEscapedDashDashState)
      else if cc = chLess then ADVANCE_TO ScriptDataEscapedLessThanSignState
      else if cc = chGreater then bufferCharacter cc (ADVANCE_TO ScriptDataState)
      else if cc = kEndOfFileMarker then RECONSUME_IN DataState cc
      else bufferCharacter cc (ADVANCE_TO ScriptDataEscapedState))"

definition ScriptDataEscapedLessThanSignState_step :: "UChar \<Rightarrow> block" where
  "ScriptDataEscapedLessThanSignState_step cc =
     (if cc = chSlash then lessThanSign_slash ScriptDataEscapedEndTagOpenState
      else if isASCIIUpper cc then
        bufferCharacter chLess (bufferCharacter cc
          (with_lower cc (\<lambda>d. set_temporaryBuffer (\<lambda>_. [ucast d])
            (ADVANCE_TO ScriptDataDoubleEscapeStartState))))
      else if isASCIILower cc then
        bufferCharacter chLess (bufferCharacter cc
          (set_temporaryBuffer (\<lambda>_. [ucast cc]) (ADVANCE_TO ScriptDataDoubleEscapeStartState)))
      else bufferCharacter chLess (RECONSUME_IN ScriptDataEscapedState cc))"

definition ScriptDataEscapedEndTagOpenState_step :: "UChar \<Rightarrow> block" where
  "ScriptDataEscapedEndTagOpenState_step =
     endTagOpen_block ScriptDataEscapedEndTagNameState ScriptDataEscapedState"

definition ScriptDataEscapedEndTagNameState_step :: "UChar \<Rightarrow> block" where
  "ScriptDataEscapedEndTagNameState_step =
     endTagName_block ScriptDataEscapedEndTagNameState ScriptDataEscapedState"

definition ScriptDataDoubleEscapeStartState_step :: "UChar \<Rightarrow> block" where
  "ScriptDataDoubleEscapeStartState_step cc =
     (if isTokenizerWhitespace cc \<or> cc = chSlash \<or> cc = chGreater then
        bufferCharacter cc (\<lambda>c. if temporaryBufferIs (lit ''script'') c
          then ADVANCE_TO ScriptDataDoubleEscapedState c
          else ADVANCE_TO ScriptDataEscapedState c)
      else if isASCIIUpper cc then
        bufferCharacter cc (with_lower cc (\<lambda>d. set_temporaryBuffer (\<lambda>b. b @ [ucast d])
          (ADVANCE_TO ScriptDataDoubleEscapeStartState)))
      else if isASCIILower cc then
        bufferCharacter cc (set_temporaryBuffer (\<lambda>b. b @ [ucast cc])
          (ADVANCE_TO ScriptDataDoubleEscapeStartState))
      else RECONSUME_IN ScriptDataEscapedState cc)"

definition ScriptDataDoubleEscapedState_step :: "UChar \<Rightarrow> block" where
  "ScriptDataDoubleEscapedState_step cc =
     (if cc = chDash then bufferCharacter cc (ADVANCE_TO ScriptDataDoubleEscapedDashState)
      else if cc = chLess then bufferCharacter cc (ADVANCE_TO ScriptDataDoubleEscapedLessThanSignState)
      else if cc = kEndOfFileMarker then RECONSUME_IN DataState cc
      else bufferCharacter cc (ADVANCE_TO ScriptDataDoubleEscapedState))"

definition ScriptDataDoubleEscapedDashState_step :: "UChar \<Rightarrow> block" where
  "ScriptDataDoubleEscapedDashState_step cc =
     (if cc = chDash then bufferCharacter cc (ADVANCE_TO ScriptDataDoubleEscapedDashDashState)
      else if cc = chLess then bufferCharacter cc (ADVANCE_TO ScriptDataDoubleEscapedLessThanSignState)
      else if cc = kEndOfFileMarker then RECONSUME_IN DataState cc
      else bufferCharacter cc (ADVANCE_TO ScriptDataDoubleEscapedState))"

definition ScriptDataDoubleEscapedDashDashState_step :: "UChar \<Rightarrow> block" where
  "ScriptDataDoubleEscapedDashDashState_step cc =
     (if cc = chDash then bufferCharacter cc (ADVANCE_TO ScriptDataDoubleEscapedDashDashState)
      else if cc = chLess then bufferCharacter cc (ADVANCE_TO ScriptDataDoubleEscapedLessThanSignState)
      else if cc = chGreater then bufferCharacter cc (ADVANCE_TO ScriptDataState)
      else if cc = kEndOfFileMarker then RECONSUME_IN DataState cc
      else bufferCharacter cc (ADVANCE_TO ScriptDataDoubleEscapedState))"

definition ScriptDataDoubleEscapedLessThanSignState_step :: "UChar \<Rightarrow> block" where
  "ScriptDataDoubleEscapedLessThanSignState_step cc =
     (if cc = chSlash then
        bufferCharacter cc (set_temporaryBuffer (\<lambda>_. []) (ADVANCE_TO ScriptDataDoubleEscapeEndState))
      else RECONSUME_IN ScriptDataDoubleEscapedState cc)"

definition ScriptDataDoubleEscapeEndState_step :: "UChar \<Rightarrow> block" where
  "ScriptDataDoubleEscapeEndState_step cc =
     (if isTokenizerWhitespace cc \<or> cc = chSlash \<or> cc = chGreater then
        bufferCharacter cc (\<lambda>c. if temporaryBufferIs (lit ''script'') c
          then ADVANCE_TO ScriptDataEscapedState c
          else ADVANCE_TO ScriptDataDoubleEscapedState c)
      else if isASCIIUpper cc then
        bufferCharacter cc (with_lower cc (\<lambda>d. set_temporaryBuffer (\<lambda>b. b @ [ucast d])
          (ADVANCE_TO ScriptDataDoubleEscapeEndState)))
      else if isASCIILower cc then
        bufferCharacter cc (set_temporaryBuffer (\<lambda>b. b @ [ucast cc])
          (ADVANCE_TO ScriptDataDoubleEscapeEndState))
      else RECONSUME_IN ScriptDataDoubleEscapedState cc)"

section \<open>Attributes\<close>

abbreviation offset :: "Conf \<Rightarrow> int" where
  "offset c \<equiv> numberOfCharactersConsumed (run_source c)"

definition begin_attribute :: "UChar \<Rightarrow> block" where
  "begin_attribute character c =
     token_do addNewAttribute (token_do (beginAttributeName (offset c))
       (token_do (appendToAttributeName character) (ADVANCE_TO AttributeNameState))) c"

definition BeforeAttributeNameState_step :: "UChar \<Rightarrow> block" where
  "BeforeAttributeNameState_step cc c =
     (if isTokenizerWhitespace cc then ADVANCE_TO BeforeAttributeNameState c
      else if cc = chSlash then ADVANCE_TO SelfClosingStartTagState c
      else if cc = chGreater then emitAndResumeIn DataState c
      else if quirks c \<and> cc = chLess then emitAndReconsumeIn DataState c
      else if isASCIIUpper cc then with_lower cc begin_attribute c
      else if cc = kEndOfFileMarker then RECONSUME_IN DataState cc c
      else begin_attribute cc c)"

definition AttributeNameState_step :: "UChar \<Rightarrow> block" where
  "AttributeNameState_step cc c =
     (if isTokenizerWhitespace cc then
        token_do (endAttributeName (offset c)) (ADVANCE_TO AfterAttributeNameState) c
      else if cc = chSlash then
        token_do (endAttributeName (offset c)) (ADVANCE_TO SelfClosingStartTagState) c
      else if cc = chEqual then
        token_do (endAttributeName (offset c)) (ADVANCE_TO BeforeAttributeValueState) c
      else if cc = chGreater then
        token_do (endAttributeName (offset c)) (emitAndResumeIn DataState) c
      else if quirks c \<and> cc = chLess then
        token_do (endAttributeName (offset c)) (emitAndReconsumeIn DataState) c
      else if isASCIIUpper cc then
        with_lower cc (\<lambda>d. token_do (appendToAttributeName d) (ADVANCE_TO AttributeNameState)) c
      else if cc = kEndOfFileMarker then
        token_do (endAttributeName (offset c)) (RECONSUME_IN DataState cc) c
      else token_do (appendToAttributeName cc) (ADVANCE_TO AttributeNameState) c)"

definition AfterAttributeNameState_step :: "UChar \<Rightarrow> block" where
  "AfterAttributeNameState_step cc c =
     (if isTokenizerWhitespace cc then ADVANCE_TO AfterAttributeNameState c
      else if cc = chSlash then ADVANCE_TO SelfClosingStartTagState c
      else if cc = chEqual then ADVANCE_TO BeforeAttributeValueState c
      else if cc = chGreater then emitAndResumeIn DataState c
      else if quirks c \<and> cc = chLess then emitAndReconsumeIn DataState c
      else if isASCIIUpper cc then with_lower cc begin_attribute c
      else if cc = kEndOfFileMarker then RECONSUME_IN DataState cc c
      else begin_attribute cc c)"

definition BeforeAttributeValueState_step :: "UChar \<Rightarrow> block" where
  "BeforeAttributeValueState_step cc c =
     (if isTokenizerWhitespace cc then ADVANCE_TO BeforeAttributeValueState c
      else if cc = chQuot then
        token_do (beginAttributeValue (offset c + 1)) (ADVANCE_TO AttributeValueDoubleQuotedState) c
      else if cc = chAmp then
        token_do (beginAttributeValue (offset c)) (RECONSUME_IN AttributeValueUnquotedState cc) c
      else if cc = chApos then
        token_do (beginAttributeValue (offset c + 1)) (ADVANCE_TO AttributeValueSingleQuotedState) c
      else if cc = chGreater then emitAndResumeIn DataState c
      else if cc = kEndOfFileMarker then RECONSUME_IN DataState cc c
      else token_do (beginAttributeValue (offset c))
             (token_do (appendToAttributeValue cc) (ADVANCE_TO AttributeValueUnquotedState)) c)"

definition set_additionalAllowedCharacter :: "UChar \<Rightarrow> block \<Rightarrow> block" where
  "set_additionalAllowedCharacter character k c = k (c\<lparr>tk_additionalAllowedCharacter := character\<rparr>)"

definition AttributeValueDoubleQuotedState_step :: "UChar \<Rightarrow> block" where
  "AttributeValueDoubleQuotedState_step cc c =
     (if cc = chQuot then
        token_do (endAttributeValue (offset c)) (ADVANCE_TO AfterAttributeValueQuotedState) c
      else if cc = chAmp then
        set_additionalAllowedCharacter chQuot (ADVANCE_TO CharacterReferenceInAttributeValueState) c
      else if cc = kEndOfFileMarker then
        token_do (endAttributeValue (offset c)) (RECONSUME_IN DataState cc) c
      else token_do (appendToAttributeValue cc) (ADVANCE_TO AttributeValueDoubleQuotedState) c)"

definition AttributeValueSingleQuotedState_step :: "UChar \<Rightarrow> block" where
  "AttributeValueSingleQuotedState_step cc c =
     (if cc = chApos then
        token_do (endAttributeValue (offset c)) (ADVANCE_TO AfterAttributeValueQuotedState) c
      else if cc = chAmp then
        set_additionalAllowedCharacter chApos (ADVANCE_TO CharacterReferenceInAttributeValueState) c
      else if cc = kEndOfFileMarker then
        token_do (endAttributeValue (offset c)) (RECONSUME_IN DataState cc) c
      else token_do (appendToAttributeValue cc) (ADVANCE_TO AttributeValueSingleQuotedState) c)"

definition AttributeValueUnquotedState_step :: "UChar \<Rightarrow> block" where
  "AttributeValueUnquotedState_step cc c =
     (if isTokenizerWhitespace cc then
        token_do (endAttributeValue (offset c)) (ADVANCE_TO BeforeAttributeNameState) c
      else if cc = chAmp then
        set_additionalAllowedCharacter chGreater (ADVANCE_TO CharacterReferenceInAttributeValueState) c
      else if cc = chGreater then
        token_do (endAttributeValue (offset c)) (emitAndResumeIn DataState) c
      else if cc = kEndOfFileMarker then
        token_do (endAttributeValue (offset c)) (RECONSUME_IN DataState cc) c
      else token_do (appendToAttributeValue cc) (ADVANCE_TO AttributeValueUnquotedState) c)"

definition return_to_attribute_value :: block where
  "return_to_attribute_value c =
     (if tk_additionalAllowedCharacter c = chQuot then SWITCH_TO AttributeValueDoubleQuotedState c
      else if tk_additionalAllowedCharacter c = chApos then SWITCH_TO AttributeValueSingleQuotedState c
      else if tk_additionalAllowedCharacter c = chGreater then SWITCH_TO AttributeValueUnquotedState c
      else Crash)"

definition CharacterReferenceInAttributeValueState_step :: "TokenizerEnv \<Rightarrow> UChar \<Rightarrow> block" where
  "CharacterReferenceInAttributeValueState_step E cc c =
     (case consumeHTMLEntity (env_table E) (tk_additionalAllowedCharacter c) (run_source c) of
        None \<Rightarrow> Crash
      | Some (success, notEnoughCharacters, decodedEntity, s) \<Rightarrow>
          let c1 = c\<lparr>run_source := s\<rparr> in
          if notEnoughCharacters then return_buffered c1
          else if \<not> success then
            (if decodedEntity = [] then token_do (appendToAttributeValue chAmp) return_to_attribute_value c1
             else Crash)
          else value_all decodedEntity return_to_attribute_value c1)"

definition AfterAttributeValueQuotedState_step :: "UChar \<Rightarrow> block" where
  "AfterAttributeValueQuotedState_step cc c =
     (if isTokenizerWhitespace cc then ADVANCE_TO BeforeAttributeNameState c
      else if cc = chSlash then ADVANCE_TO SelfClosingStartTagState c
      else if cc = chGreater then emitAndResumeIn DataState c
      else if quirks c \<and> cc = chLess then emitAndReconsumeIn DataState c
      else if cc = kEndOfFileMarker then RECONSUME_IN DataState cc c
      else RECONSUME_IN BeforeAttributeNameState cc c)"

definition SelfClosingStartTagState_step :: "UChar \<Rightarrow> block" where
  "SelfClosingStartTagState_step cc =
     (if cc = chGreater then token_do setSelfClosing (emitAndResumeIn DataState)
      else if cc = kEndOfFileMarker then RECONSUME_IN DataState cc
      else RECONSUME_IN BeforeAttributeNameState cc)"

section \<open>Comments\<close>

definition BogusCommentState_step :: "UChar \<Rightarrow> block" where
  "BogusCommentState_step cc = token_do beginComment (RECONSUME_IN ContinueBogusCommentState cc)"

definition ContinueBogusCommentState_step :: "UChar \<Rightarrow> block" where
  "ContinueBogusCommentState_step cc =
     (if cc = chGreater then emitAndResumeIn DataState
      else if cc = kEndOfFileMarker then emitAndReconsumeIn DataState
      else token_do (appendToComment cc) (ADVANCE_TO ContinueBogusCommentState))"

text \<open>
  \<open>look_ahead\<close>: on \<open>DidMatch\<close> the first continuation, on \<open>NotEnoughCharacters\<close> return, otherwise
  the second.
\<close>

definition look_ahead :: "(SegmentedString \<Rightarrow> (LookAheadResult \<times> SegmentedString) option) \<Rightarrow> block \<Rightarrow> block \<Rightarrow> block" where
  "look_ahead look matched k c =
     (case look (run_source c) of None \<Rightarrow> Crash
      | Some (DidMatch, s) \<Rightarrow> matched (c\<lparr>run_source := s\<rparr>)
      | Some (NotEnoughCharacters, s) \<Rightarrow> return_buffered (c\<lparr>run_source := s\<rparr>)
      | Some (DidNotMatch, s) \<Rightarrow> k (c\<lparr>run_source := s\<rparr>))"

fun advanceStringAndASSERT :: "UChar list \<Rightarrow> SegmentedString \<Rightarrow> SegmentedString option" where
  "advanceStringAndASSERT [] s = Some s"
| "advanceStringAndASSERT (e # expected) s = do {
     s1 \<leftarrow> advanceAndASSERT e s; advanceStringAndASSERT expected s1 }"

fun advanceStringAndASSERTIgnoringCase ::
  "(UChar32 \<Rightarrow> UChar32) \<Rightarrow> UChar list \<Rightarrow> SegmentedString \<Rightarrow> SegmentedString option" where
  "advanceStringAndASSERTIgnoringCase foldCase [] s = Some s"
| "advanceStringAndASSERTIgnoringCase foldCase (e # expected) s = do {
     s1 \<leftarrow> advanceAndASSERTIgnoringCase foldCase e s;
     advanceStringAndASSERTIgnoringCase foldCase expected s1 }"

definition source_do :: "(SegmentedString \<Rightarrow> SegmentedString option) \<Rightarrow> block \<Rightarrow> block" where
  "source_do f = conf_do (\<lambda>c. do { s \<leftarrow> f (run_source c); Some (c\<lparr>run_source := s\<rparr>) })"

definition MarkupDeclarationOpenState_step :: "TokenizerEnv \<Rightarrow> UChar \<Rightarrow> block" where
  "MarkupDeclarationOpenState_step E cc c =
     (let f = env_foldCase E; bogus = RECONSUME_IN BogusCommentState cc in
      if cc = chDash then
        look_ahead (lookAhead f (lit ''--''))
          (source_do (advanceAndASSERT chDash) (source_do (advanceAndASSERT chDash)
            (token_do beginComment (SWITCH_TO CommentStartState)))) bogus c
      else if cc = 0x44 \<or> cc = 0x64 then
        look_ahead (lookAheadIgnoringCase f (lit ''doctype''))
          (source_do (advanceStringAndASSERTIgnoringCase f (lit ''doctype'')) (SWITCH_TO DOCTYPEState)) bogus c
      else if cc = chBracket \<and> tk_shouldAllowCDATA c then
        look_ahead (lookAhead f (lit ''[CDATA[''))
          (source_do (advanceStringAndASSERT (lit ''[CDATA['')) (SWITCH_TO CDATASectionState)) bogus c
      else bogus c)"

definition append_comment :: "UChar list \<Rightarrow> block \<Rightarrow> block" where
  "append_comment cs k = foldr (\<lambda>ch. token_do (appendToComment ch)) cs k"

definition CommentStartState_step :: "UChar \<Rightarrow> block" where
  "CommentStartState_step cc =
     (if cc = chDash then ADVANCE_TO CommentStartDashState
      else if cc = chGreater then emitAndResumeIn DataState
      else if cc = kEndOfFileMarker then emitAndReconsumeIn DataState
      else append_comment [cc] (ADVANCE_TO CommentState))"

definition CommentStartDashState_step :: "UChar \<Rightarrow> block" where
  "CommentStartDashState_step cc =
     (if cc = chDash then ADVANCE_TO CommentEndState
      else if cc = chGreater then emitAndResumeIn DataState
      else if cc = kEndOfFileMarker then emitAndReconsumeIn DataState
      else append_comment [chDash, cc] (ADVANCE_TO CommentState))"

definition CommentState_step :: "UChar \<Rightarrow> block" where
  "CommentState_step cc =
     (if cc = chDash then ADVANCE_TO CommentEndDashState
      else if cc = kEndOfFileMarker then emitAndReconsumeIn DataState
      else append_comment [cc] (ADVANCE_TO CommentState))"

definition CommentEndDashState_step :: "UChar \<Rightarrow> block" where
  "CommentEndDashState_step cc =
     (if cc = chDash then ADVANCE_TO CommentEndState
      else if cc = kEndOfFileMarker then emitAndReconsumeIn DataState
      else append_comment [chDash, cc] (ADVANCE_TO CommentState))"

definition CommentEndState_step :: "UChar \<Rightarrow> block" where
  "CommentEndState_step cc =
     (if cc = chGreater then emitAndResumeIn DataState
      else if cc = chBang then ADVANCE_TO CommentEndBangState
      else if cc = chDash then append_comment [chDash] (ADVANCE_TO CommentEndState)
      else if cc = kEndOfFileMarker then emitAndReconsumeIn DataState
      else append_comment [chDash, chDash, cc] (ADVANCE_TO CommentState))"

definition CommentEndBangState_step :: "UChar \<Rightarrow> block" where
  "CommentEndBangState_step cc =
     (if cc = chDash then append_comment [chDash, chDash, chBang] (ADVANCE_TO CommentEndDashState)
      else if cc = chGreater then emitAndResumeIn DataState
      else if cc = kEndOfFileMarker then emitAndReconsumeIn DataState
      else append_comment [chDash, chDash, chBang, cc] (ADVANCE_TO CommentState))"

section \<open>DOCTYPE\<close>

definition DOCTYPEState_step :: "UChar \<Rightarrow> block" where
  "DOCTYPEState_step cc =
     (if isTokenizerWhitespace cc then ADVANCE_TO BeforeDOCTYPENameState
      else if cc = kEndOfFileMarker then
        token_do beginDOCTYPE (token_do setForceQuirks (emitAndReconsumeIn DataState))
      else RECONSUME_IN BeforeDOCTYPENameState cc)"

definition BeforeDOCTYPENameState_step :: "UChar \<Rightarrow> block" where
  "BeforeDOCTYPENameState_step cc =
     (if isTokenizerWhitespace cc then ADVANCE_TO BeforeDOCTYPENameState
      else if isASCIIUpper cc then
        with_lower cc (\<lambda>d. token_do (beginDOCTYPE_char d) (ADVANCE_TO DOCTYPENameState))
      else if cc = chGreater then
        token_do beginDOCTYPE (token_do setForceQuirks (emitAndResumeIn DataState))
      else if cc = kEndOfFileMarker then
        token_do beginDOCTYPE (token_do setForceQuirks (emitAndReconsumeIn DataState))
      else token_do (beginDOCTYPE_char cc) (ADVANCE_TO DOCTYPENameState))"

definition DOCTYPENameState_step :: "UChar \<Rightarrow> block" where
  "DOCTYPENameState_step cc =
     (if isTokenizerWhitespace cc then ADVANCE_TO AfterDOCTYPENameState
      else if cc = chGreater then emitAndResumeIn DataState
      else if isASCIIUpper cc then
        with_lower cc (\<lambda>d. token_do (appendToName d) (ADVANCE_TO DOCTYPENameState))
      else if cc = kEndOfFileMarker then token_do setForceQuirks (emitAndReconsumeIn DataState)
      else token_do (appendToName cc) (ADVANCE_TO DOCTYPENameState))"

definition bogus_doctype :: block where
  "bogus_doctype = token_do setForceQuirks (ADVANCE_TO BogusDOCTYPEState)"

definition AfterDOCTYPENameState_step :: "TokenizerEnv \<Rightarrow> UChar \<Rightarrow> block" where
  "AfterDOCTYPENameState_step E cc =
     (let f = env_foldCase E in
      if isTokenizerWhitespace cc then ADVANCE_TO AfterDOCTYPENameState
      else if cc = chGreater then emitAndResumeIn DataState
      else if cc = kEndOfFileMarker then token_do setForceQuirks (emitAndReconsumeIn DataState)
      else if cc = 0x50 \<or> cc = 0x70 then
        look_ahead (lookAheadIgnoringCase f (lit ''public''))
          (source_do (advanceStringAndASSERTIgnoringCase f (lit ''public''))
            (SWITCH_TO AfterDOCTYPEPublicKeywordState)) bogus_doctype
      else if cc = 0x53 \<or> cc = 0x73 then
        look_ahead (lookAheadIgnoringCase f (lit ''system''))
          (source_do (advanceStringAndASSERTIgnoringCase f (lit ''system''))
            (SWITCH_TO AfterDOCTYPESystemKeywordState)) bogus_doctype
      else bogus_doctype)"

definition AfterDOCTYPEPublicKeywordState_step :: "UChar \<Rightarrow> block" where
  "AfterDOCTYPEPublicKeywordState_step cc =
     (if isTokenizerWhitespace cc then ADVANCE_TO BeforeDOCTYPEPublicIdentifierState
      else if cc = chQuot then
        token_do setPublicIdentifierToEmptyString (ADVANCE_TO DOCTYPEPublicIdentifierDoubleQuotedState)
      else if cc = chApos then
        token_do setPublicIdentifierToEmptyString (ADVANCE_TO DOCTYPEPublicIdentifierSingleQuotedState)
      else if cc = chGreater then token_do setForceQuirks (emitAndResumeIn DataState)
      else if cc = kEndOfFileMarker then token_do setForceQuirks (emitAndReconsumeIn DataState)
      else bogus_doctype)"

definition BeforeDOCTYPEPublicIdentifierState_step :: "UChar \<Rightarrow> block" where
  "BeforeDOCTYPEPublicIdentifierState_step cc =
     (if isTokenizerWhitespace cc then ADVANCE_TO BeforeDOCTYPEPublicIdentifierState
      else if cc = chQuot then
        token_do setPublicIdentifierToEmptyString (ADVANCE_TO DOCTYPEPublicIdentifierDoubleQuotedState)
      else if cc = chApos then
        token_do setPublicIdentifierToEmptyString (ADVANCE_TO DOCTYPEPublicIdentifierSingleQuotedState)
      else if cc = chGreater then token_do setForceQuirks (emitAndResumeIn DataState)
      else if cc = kEndOfFileMarker then token_do setForceQuirks (emitAndReconsumeIn DataState)
      else bogus_doctype)"

definition DOCTYPEPublicIdentifierDoubleQuotedState_step :: "UChar \<Rightarrow> block" where
  "DOCTYPEPublicIdentifierDoubleQuotedState_step cc =
     (if cc = chQuot then ADVANCE_TO AfterDOCTYPEPublicIdentifierState
      else if cc = chGreater then token_do setForceQuirks (emitAndResumeIn DataState)
      else if cc = kEndOfFileMarker then token_do setForceQuirks (emitAndReconsumeIn DataState)
      else token_do (appendToPublicIdentifier cc) (ADVANCE_TO DOCTYPEPublicIdentifierDoubleQuotedState))"

definition DOCTYPEPublicIdentifierSingleQuotedState_step :: "UChar \<Rightarrow> block" where
  "DOCTYPEPublicIdentifierSingleQuotedState_step cc =
     (if cc = chApos then ADVANCE_TO AfterDOCTYPEPublicIdentifierState
      else if cc = chGreater then token_do setForceQuirks (emitAndResumeIn DataState)
      else if cc = kEndOfFileMarker then token_do setForceQuirks (emitAndReconsumeIn DataState)
      else token_do (appendToPublicIdentifier cc) (ADVANCE_TO DOCTYPEPublicIdentifierSingleQuotedState))"

definition AfterDOCTYPEPublicIdentifierState_step :: "UChar \<Rightarrow> block" where
  "AfterDOCTYPEPublicIdentifierState_step cc =
     (if isTokenizerWhitespace cc then ADVANCE_TO BetweenDOCTYPEPublicAndSystemIdentifiersState
      else if cc = chGreater then emitAndResumeIn DataState
      else if cc = chQuot then
        token_do setSystemIdentifierToEmptyString (ADVANCE_TO DOCTYPESystemIdentifierDoubleQuotedState)
      else if cc = chApos then
        token_do setSystemIdentifierToEmptyString (ADVANCE_TO DOCTYPESystemIdentifierSingleQuotedState)
      else if cc = kEndOfFileMarker then token_do setForceQuirks (emitAndReconsumeIn DataState)
      else bogus_doctype)"

definition BetweenDOCTYPEPublicAndSystemIdentifiersState_step :: "UChar \<Rightarrow> block" where
  "BetweenDOCTYPEPublicAndSystemIdentifiersState_step cc =
     (if isTokenizerWhitespace cc then ADVANCE_TO BetweenDOCTYPEPublicAndSystemIdentifiersState
      else if cc = chGreater then emitAndResumeIn DataState
      else if cc = chQuot then
        token_do setSystemIdentifierToEmptyString (ADVANCE_TO DOCTYPESystemIdentifierDoubleQuotedState)
      else if cc = chApos then
        token_do setSystemIdentifierToEmptyString (ADVANCE_TO DOCTYPESystemIdentifierSingleQuotedState)
      else if cc = kEndOfFileMarker then token_do setForceQuirks (emitAndReconsumeIn DataState)
      else bogus_doctype)"

definition AfterDOCTYPESystemKeywordState_step :: "UChar \<Rightarrow> block" where
  "AfterDOCTYPESystemKeywordState_step cc =
     (if isTokenizerWhitespace cc then ADVANCE_TO BeforeDOCTYPESystemIdentifierState
      else if cc = chQuot then
        token_do setSystemIdentifierToEmptyString (ADVANCE_TO DOCTYPESystemIdentifierDoubleQuotedState)
      else if cc = chApos then
        token_do setSystemIdentifierToEmptyString (ADVANCE_TO DOCTYPESystemIdentifierSingleQuotedState)
      else if cc = chGreater then token_do setForceQuirks (emitAndResumeIn DataState)
      else if cc = kEndOfFileMarker then token_do setForceQuirks (emitAndReconsumeIn DataState)
      else bogus_doctype)"

definition BeforeDOCTYPESystemIdentifierState_step :: "UChar \<Rightarrow> block" where
  "BeforeDOCTYPESystemIdentifierState_step cc =
     (if isTokenizerWhitespace cc then ADVANCE_TO BeforeDOCTYPESystemIdentifierState
      else if cc = chQuot then
        token_do setSystemIdentifierToEmptyString (ADVANCE_TO DOCTYPESystemIdentifierDoubleQuotedState)
      else if cc = chApos then
        token_do setSystemIdentifierToEmptyString (ADVANCE_TO DOCTYPESystemIdentifierSingleQuotedState)
      else if cc = chGreater then token_do setForceQuirks (emitAndResumeIn DataState)
      else if cc = kEndOfFileMarker then token_do setForceQuirks (emitAndReconsumeIn DataState)
      else bogus_doctype)"

definition DOCTYPESystemIdentifierDoubleQuotedState_step :: "UChar \<Rightarrow> block" where
  "DOCTYPESystemIdentifierDoubleQuotedState_step cc =
     (if cc = chQuot then ADVANCE_TO AfterDOCTYPESystemIdentifierState
      else if cc = chGreater then token_do setForceQuirks (emitAndResumeIn DataState)
      else if cc = kEndOfFileMarker then token_do setForceQuirks (emitAndReconsumeIn DataState)
      else token_do (appendToSystemIdentifier cc) (ADVANCE_TO DOCTYPESystemIdentifierDoubleQuotedState))"

definition DOCTYPESystemIdentifierSingleQuotedState_step :: "UChar \<Rightarrow> block" where
  "DOCTYPESystemIdentifierSingleQuotedState_step cc =
     (if cc = chApos then ADVANCE_TO AfterDOCTYPESystemIdentifierState
      else if cc = chGreater then token_do setForceQuirks (emitAndResumeIn DataState)
      else if cc = kEndOfFileMarker then token_do setForceQuirks (emitAndReconsumeIn DataState)
      else token_do (appendToSystemIdentifier cc) (ADVANCE_TO DOCTYPESystemIdentifierSingleQuotedState))"

definition AfterDOCTYPESystemIdentifierState_step :: "UChar \<Rightarrow> block" where
  "AfterDOCTYPESystemIdentifierState_step cc =
     (if isTokenizerWhitespace cc then ADVANCE_TO AfterDOCTYPESystemIdentifierState
      else if cc = chGreater then emitAndResumeIn DataState
      else if cc = kEndOfFileMarker then token_do setForceQuirks (emitAndReconsumeIn DataState)
      else ADVANCE_TO BogusDOCTYPEState)"

definition BogusDOCTYPEState_step :: "UChar \<Rightarrow> block" where
  "BogusDOCTYPEState_step cc =
     (if cc = chGreater then emitAndResumeIn DataState
      else if cc = kEndOfFileMarker then emitAndReconsumeIn DataState
      else ADVANCE_TO BogusDOCTYPEState)"

section \<open>CDATA sections\<close>

definition CDATASectionState_step :: "UChar \<Rightarrow> block" where
  "CDATASectionState_step cc =
     (if cc = chUnbracket then ADVANCE_TO CDATASectionRightSquareBracketState
      else if cc = kEndOfFileMarker then RECONSUME_IN DataState cc
      else bufferCharacter cc (ADVANCE_TO CDATASectionState))"

definition CDATASectionRightSquareBracketState_step :: "UChar \<Rightarrow> block" where
  "CDATASectionRightSquareBracketState_step cc =
     (if cc = chUnbracket then ADVANCE_TO CDATASectionDoubleRightSquareBracketState
      else bufferCharacter chUnbracket (RECONSUME_IN CDATASectionState cc))"

definition CDATASectionDoubleRightSquareBracketState_step :: "UChar \<Rightarrow> block" where
  "CDATASectionDoubleRightSquareBracketState_step cc =
     (if cc = chGreater then ADVANCE_TO DataState
      else bufferCharacter chUnbracket (bufferCharacter chUnbracket (RECONSUME_IN CDATASectionState cc)))"

section \<open>The switch and the loop of jumps\<close>

definition state_block :: "TokenizerEnv \<Rightarrow> UChar \<Rightarrow> block" where
  "state_block E cc c = (case tk_state c of
    DataState \<Rightarrow> DataState_step cc c
  | CharacterReferenceInDataState \<Rightarrow> CharacterReferenceInDataState_step E cc c
  | RCDATAState \<Rightarrow> RCDATAState_step cc c
  | CharacterReferenceInRCDATAState \<Rightarrow> CharacterReferenceInRCDATAState_step E cc c
  | RAWTEXTState \<Rightarrow> RAWTEXTState_step cc c
  | ScriptDataState \<Rightarrow> ScriptDataState_step cc c
  | PLAINTEXTState \<Rightarrow> PLAINTEXTState_step cc c
  | TagOpenState \<Rightarrow> TagOpenState_step cc c
  | EndTagOpenState \<Rightarrow> EndTagOpenState_step cc c
  | TagNameState \<Rightarrow> TagNameState_step cc c
  | RCDATALessThanSignState \<Rightarrow> RCDATALessThanSignState_step cc c
  | RCDATAEndTagOpenState \<Rightarrow> RCDATAEndTagOpenState_step cc c
  | RCDATAEndTagNameState \<Rightarrow> RCDATAEndTagNameState_step cc c
  | RAWTEXTLessThanSignState \<Rightarrow> RAWTEXTLessThanSignState_step cc c
  | RAWTEXTEndTagOpenState \<Rightarrow> RAWTEXTEndTagOpenState_step cc c
  | RAWTEXTEndTagNameState \<Rightarrow> RAWTEXTEndTagNameState_step cc c
  | ScriptDataLessThanSignState \<Rightarrow> ScriptDataLessThanSignState_step cc c
  | ScriptDataEndTagOpenState \<Rightarrow> ScriptDataEndTagOpenState_step cc c
  | ScriptDataEndTagNameState \<Rightarrow> ScriptDataEndTagNameState_step cc c
  | ScriptDataEscapeStartState \<Rightarrow> ScriptDataEscapeStartState_step cc c
  | ScriptDataEscapeStartDashState \<Rightarrow> ScriptDataEscapeStartDashState_step cc c
  | ScriptDataEscapedState \<Rightarrow> ScriptDataEscapedState_step cc c
  | ScriptDataEscapedDashState \<Rightarrow> ScriptDataEscapedDashState_step cc c
  | ScriptDataEscapedDashDashState \<Rightarrow> ScriptDataEscapedDashDashState_step cc c
  | ScriptDataEscapedLessThanSignState \<Rightarrow> ScriptDataEscapedLessThanSignState_step cc c
  | ScriptDataEscapedEndTagOpenState \<Rightarrow> ScriptDataEscapedEndTagOpenState_step cc c
  | ScriptDataEscapedEndTagNameState \<Rightarrow> ScriptDataEscapedEndTagNameState_step cc c
  | ScriptDataDoubleEscapeStartState \<Rightarrow> ScriptDataDoubleEscapeStartState_step cc c
  | ScriptDataDoubleEscapedState \<Rightarrow> ScriptDataDoubleEscapedState_step cc c
  | ScriptDataDoubleEscapedDashState \<Rightarrow> ScriptDataDoubleEscapedDashState_step cc c
  | ScriptDataDoubleEscapedDashDashState \<Rightarrow> ScriptDataDoubleEscapedDashDashState_step cc c
  | ScriptDataDoubleEscapedLessThanSignState \<Rightarrow> ScriptDataDoubleEscapedLessThanSignState_step cc c
  | ScriptDataDoubleEscapeEndState \<Rightarrow> ScriptDataDoubleEscapeEndState_step cc c
  | BeforeAttributeNameState \<Rightarrow> BeforeAttributeNameState_step cc c
  | AttributeNameState \<Rightarrow> AttributeNameState_step cc c
  | AfterAttributeNameState \<Rightarrow> AfterAttributeNameState_step cc c
  | BeforeAttributeValueState \<Rightarrow> BeforeAttributeValueState_step cc c
  | AttributeValueDoubleQuotedState \<Rightarrow> AttributeValueDoubleQuotedState_step cc c
  | AttributeValueSingleQuotedState \<Rightarrow> AttributeValueSingleQuotedState_step cc c
  | AttributeValueUnquotedState \<Rightarrow> AttributeValueUnquotedState_step cc c
  | CharacterReferenceInAttributeValueState \<Rightarrow> CharacterReferenceInAttributeValueState_step E cc c
  | AfterAttributeValueQuotedState \<Rightarrow> AfterAttributeValueQuotedState_step cc c
  | SelfClosingStartTagState \<Rightarrow> SelfClosingStartTagState_step cc c
  | BogusCommentState \<Rightarrow> BogusCommentState_step cc c
  | ContinueBogusCommentState \<Rightarrow> ContinueBogusCommentState_step cc c
  | MarkupDeclarationOpenState \<Rightarrow> MarkupDeclarationOpenState_step E cc c
  | CommentStartState \<Rightarrow> CommentStartState_step cc c
  | CommentStartDashState \<Rightarrow> CommentStartDashState_step cc c
  | CommentState \<Rightarrow> CommentState_step cc c
  | CommentEndDashState \<Rightarrow> CommentEndDashState_step cc c
  | CommentEndState \<Rightarrow> CommentEndState_step cc c
  | CommentEndBangState \<Rightarrow> CommentEndBangState_step cc c
  | DOCTYPEState \<Rightarrow> DOCTYPEState_step cc c
  | BeforeDOCTYPENameState \<Rightarrow> BeforeDOCTYPENameState_step cc c
  | DOCTYPENameState \<Rightarrow> DOCTYPENameState_step cc c
  | AfterDOCTYPENameState \<Rightarrow> AfterDOCTYPENameState_step E cc c
  | AfterDOCTYPEPublicKeywordState \<Rightarrow> AfterDOCTYPEPublicKeywordState_step cc c
  | BeforeDOCTYPEPublicIdentifierState \<Rightarrow> BeforeDOCTYPEPublicIdentifierState_step cc c
  | DOCTYPEPublicIdentifierDoubleQuotedState \<Rightarrow> DOCTYPEPublicIdentifierDoubleQuotedState_step cc c
  | DOCTYPEPublicIdentifierSingleQuotedState \<Rightarrow> DOCTYPEPublicIdentifierSingleQuotedState_step cc c
  | AfterDOCTYPEPublicIdentifierState \<Rightarrow> AfterDOCTYPEPublicIdentifierState_step cc c
  | BetweenDOCTYPEPublicAndSystemIdentifiersState \<Rightarrow> BetweenDOCTYPEPublicAndSystemIdentifiersState_step cc c
  | AfterDOCTYPESystemKeywordState \<Rightarrow> AfterDOCTYPESystemKeywordState_step cc c
  | BeforeDOCTYPESystemIdentifierState \<Rightarrow> BeforeDOCTYPESystemIdentifierState_step cc c
  | DOCTYPESystemIdentifierDoubleQuotedState \<Rightarrow> DOCTYPESystemIdentifierDoubleQuotedState_step cc c
  | DOCTYPESystemIdentifierSingleQuotedState \<Rightarrow> DOCTYPESystemIdentifierSingleQuotedState_step cc c
  | AfterDOCTYPESystemIdentifierState \<Rightarrow> AfterDOCTYPESystemIdentifierState_step cc c
  | BogusDOCTYPEState \<Rightarrow> BogusDOCTYPEState_step cc c
  | CDATASectionState \<Rightarrow> CDATASectionState_step cc c
  | CDATASectionRightSquareBracketState \<Rightarrow> CDATASectionRightSquareBracketState_step cc c
  | CDATASectionDoubleRightSquareBracketState \<Rightarrow> CDATASectionDoubleRightSquareBracketState_step cc c)"

text \<open>
  Jumping from block to block until one returns. A failed assertion is \<open>None\<close>, and so would be
  an infinite loop of jumps.
\<close>

partial_function (option) run_states :: "TokenizerEnv \<Rightarrow> UChar \<Rightarrow> Conf \<Rightarrow> (bool \<times> Conf) option" where
  "run_states E cc c = (case state_block E cc c of
     Goto cc1 c1 \<Rightarrow> run_states E cc1 c1
   | Ret b c1 \<Rightarrow> Some (b, c1)
   | Crash \<Rightarrow> None)"

definition startBufferedEndTag :: "Conf \<Rightarrow> Conf option" where
  "startBufferedEndTag c = do {
     t \<leftarrow> beginEndTag_vector (tk_bufferedEndTagName c) (run_token c);
     Some (c\<lparr>run_token := t, tk_bufferedEndTagName := [], tk_appropriateEndTagName := [],
       tk_temporaryBuffer := []\<rparr>) }"

definition enter_switch :: "TokenizerEnv \<Rightarrow> Conf \<Rightarrow> (bool \<times> Conf) option" where
  "enter_switch E c =
     (if seg_empty (run_source c) then Some (haveBufferedCharacterToken c, c)
      else case peek_source c of
        Goto cc c1 \<Rightarrow> run_states E cc c1 | Ret b c1 \<Rightarrow> Some (b, c1) | Crash \<Rightarrow> None)"

text \<open>\<open>nextToken\<close>: the result and the configuration after the call; \<open>token\<close> is the address of
  the token passed in.\<close>

definition nextToken :: "TokenizerEnv \<Rightarrow> nat \<Rightarrow> Conf \<Rightarrow> (bool \<times> Conf) option" where
  "nextToken E token c = do {
     ASSERT (tk_token c = None \<or> tk_token c = Some token \<or> tok_type (run_token c) = Uninitialized);
     let c0 = c\<lparr>tk_token := Some token\<rparr>;
     if tk_bufferedEndTagName c0 \<noteq> [] \<and> \<not> isEndTagBufferingState (tk_state c0) then do {
       c1 \<leftarrow> startBufferedEndTag c0;
       if tk_state c1 = DataState then Some (True, c1) else enter_switch E c1 }
     else enter_switch E c0 }"

end
