(* ===== verification/Tokenizer_Invariant.thy ===== *)
theory Tokenizer_Invariant
  imports Tokenizer_States
begin

text \<open>
  The invariant of the tokenizer between two blocks and between two calls of \<open>nextToken\<close>, the
  measure that bounds the jumps of one call, and the rules by which each end of a block keeps
  them. \<open>Tokenizer_Safety\<close> applies the rules to every state.
\<close>

section \<open>Well-formed tokens\<close>

definition name_ok :: "UChar list \<Rightarrow> bool" where
  "name_ok cs \<longleftrightarrow> cs \<noteq> [] \<and> (\<forall>ch \<in> set cs. ch \<noteq> 0 \<and> \<not> isASCIIUpper ch)"

definition attributes_ok :: "HTMLToken \<Rightarrow> bool" where
  "attributes_ok t \<longleftrightarrow> (\<forall>a \<in> set (tok_attributes t). name_ok (attr_name a) \<and> 0 \<notin> set (attr_value a))"

definition doctype_ok :: "HTMLToken \<Rightarrow> bool" where
  "doctype_ok t \<longleftrightarrow> (\<forall>ch \<in> set (tok_data t). ch \<noteq> 0 \<and> \<not> isASCIIUpper ch) \<and>
     (case tok_doctypeData t of None \<Rightarrow> False
      | Some d \<Rightarrow> 0 \<notin> set (dt_publicIdentifier d) \<and> 0 \<notin> set (dt_systemIdentifier d))"

definition wf_token :: "HTMLToken \<Rightarrow> bool" where
  "wf_token t \<longleftrightarrow> (isAll8BitData t \<longleftrightarrow> (\<forall>ch \<in> set (tok_data t). ch \<le> 0xFF)) \<and>
     (case tok_type t of
        Uninitialized \<Rightarrow> tok_data t = []
      | Character \<Rightarrow> tok_data t \<noteq> [] \<and> 0 \<notin> set (tok_data t)
      | Comment \<Rightarrow> 0 \<notin> set (tok_data t)
      | StartTag \<Rightarrow> name_ok (tok_data t) \<and> attributes_ok t
      | EndTag \<Rightarrow> name_ok (tok_data t) \<and> attributes_ok t
      | DOCTYPE \<Rightarrow> doctype_ok t
      | EndOfFile \<Rightarrow> tok_data t = [])"

section \<open>What each state expects of the token\<close>

datatype state_kind = KText | KOpen | KTag | KAttribute | KValue | KComment | KDoctype | KPublic | KSystem

definition kind :: "State \<Rightarrow> state_kind" where
  "kind st = (case st of
    TagOpenState \<Rightarrow> KOpen | EndTagOpenState \<Rightarrow> KOpen | MarkupDeclarationOpenState \<Rightarrow> KOpen
  | BogusCommentState \<Rightarrow> KOpen | DOCTYPEState \<Rightarrow> KOpen | BeforeDOCTYPENameState \<Rightarrow> KOpen
  | TagNameState \<Rightarrow> KTag | BeforeAttributeNameState \<Rightarrow> KTag | AfterAttributeValueQuotedState \<Rightarrow> KTag
  | SelfClosingStartTagState \<Rightarrow> KTag
  | AttributeNameState \<Rightarrow> KAttribute | AfterAttributeNameState \<Rightarrow> KAttribute
  | BeforeAttributeValueState \<Rightarrow> KAttribute
  | AttributeValueDoubleQuotedState \<Rightarrow> KValue | AttributeValueSingleQuotedState \<Rightarrow> KValue
  | AttributeValueUnquotedState \<Rightarrow> KValue | CharacterReferenceInAttributeValueState \<Rightarrow> KValue
  | ContinueBogusCommentState \<Rightarrow> KComment | CommentStartState \<Rightarrow> KComment
  | CommentStartDashState \<Rightarrow> KComment | CommentState \<Rightarrow> KComment | CommentEndDashState \<Rightarrow> KComment
  | CommentEndState \<Rightarrow> KComment | CommentEndBangState \<Rightarrow> KComment
  | DOCTYPENameState \<Rightarrow> KDoctype | AfterDOCTYPENameState \<Rightarrow> KDoctype
  | AfterDOCTYPEPublicKeywordState \<Rightarrow> KDoctype | BeforeDOCTYPEPublicIdentifierState \<Rightarrow> KDoctype
  | DOCTYPEPublicIdentifierDoubleQuotedState \<Rightarrow> KPublic | DOCTYPEPublicIdentifierSingleQuotedState \<Rightarrow> KPublic
  | AfterDOCTYPEPublicIdentifierState \<Rightarrow> KDoctype | BetweenDOCTYPEPublicAndSystemIdentifiersState \<Rightarrow> KDoctype
  | AfterDOCTYPESystemKeywordState \<Rightarrow> KDoctype | BeforeDOCTYPESystemIdentifierState \<Rightarrow> KDoctype
  | DOCTYPESystemIdentifierDoubleQuotedState \<Rightarrow> KSystem | DOCTYPESystemIdentifierSingleQuotedState \<Rightarrow> KSystem
  | AfterDOCTYPESystemIdentifierState \<Rightarrow> KDoctype | BogusDOCTYPEState \<Rightarrow> KDoctype
  | _ \<Rightarrow> KText)"

definition isEndTagNameState :: "State \<Rightarrow> bool" where
  "isEndTagNameState st \<longleftrightarrow> st = RCDATAEndTagNameState \<or> st = RAWTEXTEndTagNameState \<or>
     st = ScriptDataEndTagNameState \<or> st = ScriptDataEscapedEndTagNameState"

definition isReferenceState :: "State \<Rightarrow> bool" where
  "isReferenceState st \<longleftrightarrow> st = CharacterReferenceInDataState \<or> st = CharacterReferenceInRCDATAState \<or>
     st = CharacterReferenceInAttributeValueState"

definition attribute_in_progress :: "HTMLToken \<Rightarrow> bool" where
  "attribute_in_progress t \<longleftrightarrow> (\<exists>i. tok_currentAttribute t = Some i \<and> i < length (tok_attributes t))"

definition value_in_progress :: "HTMLToken \<Rightarrow> bool" where
  "value_in_progress t \<longleftrightarrow> (\<exists>i. tok_currentAttribute t = Some i \<and> i < length (tok_attributes t) \<and>
     rg_start (attr_valueRange (tok_attributes t ! i)) \<noteq> 0)"

definition kind_ok :: "state_kind \<Rightarrow> HTMLToken \<Rightarrow> bool" where
  "kind_ok k t \<longleftrightarrow> (case k of
     KText \<Rightarrow> tok_type t = Uninitialized \<or> tok_type t = Character
   | KOpen \<Rightarrow> tok_type t = Uninitialized
   | KTag \<Rightarrow> isTagType (tok_type t)
   | KAttribute \<Rightarrow> isTagType (tok_type t) \<and> attribute_in_progress t
   | KValue \<Rightarrow> isTagType (tok_type t) \<and> value_in_progress t
   | KComment \<Rightarrow> tok_type t = Comment
   | KDoctype \<Rightarrow> tok_type t = DOCTYPE
   | KPublic \<Rightarrow> tok_type t = DOCTYPE \<and> (\<exists>d. tok_doctypeData t = Some d \<and> dt_hasPublicIdentifier d)
   | KSystem \<Rightarrow> tok_type t = DOCTYPE \<and> (\<exists>d. tok_doctypeData t = Some d \<and> dt_hasSystemIdentifier d))"

definition buffers_ok :: "State \<Rightarrow> LChar list \<Rightarrow> LChar list \<Rightarrow> UChar \<Rightarrow> bool" where
  "buffers_ok st tmp buf add \<longleftrightarrow> 0 \<notin> set tmp \<and>
     (if isEndTagNameState st then name_ok (map ucast buf) else buf = []) \<and>
     (st = CharacterReferenceInAttributeValueState \<longrightarrow> add \<in> {chQuot, chApos, chGreater})"

definition token_ok :: "State \<Rightarrow> bool \<Rightarrow> Conf \<Rightarrow> bool" where
  "token_ok st eof c \<longleftrightarrow> wf_token (run_token c) \<and>
     (kind_ok (kind st) (run_token c) \<or> st = DataState \<and> eof \<and> isTagType (tok_type (run_token c))) \<and>
     buffers_ok st (tk_temporaryBuffer c) (tk_bufferedEndTagName c) (tk_additionalAllowedCharacter c)"

text \<open>
  Offsets of a tag's attributes are relative to the base offset the caller gave the token; inside
  an attribute something has been consumed since.
\<close>

definition offsets_ok :: "State \<Rightarrow> HTMLToken \<Rightarrow> SegmentedString \<Rightarrow> bool" where
  "offsets_ok st t s \<longleftrightarrow> tok_baseOffset t \<le> numberOfCharactersConsumed s \<and>
     (kind st = KAttribute \<longrightarrow> tok_baseOffset t < numberOfCharactersConsumed s)"

section \<open>The stream\<close>

text \<open>
  No numeric reference in the text decodes to NUL. \<open>HTMLTokenizer.cpp\<close> has no such restriction: a reference whose value wraps around to
  a negative number, such as \<open>&#x80A10000;\<close>, decodes to units that start with NUL (\<open>numeric_reference_wraps\<close>), and the tokenizer then
  fails the assertion of \<open>bufferCharacter\<close> or \<open>appendToAttributeValue\<close>. The invariant holds for the documents without one.
\<close>

definition no_nul_reference :: "UChar list \<Rightarrow> bool" where
  "no_nul_reference cs \<longleftrightarrow>
     list_all (\<lambda>t. case numeric_spec t of Reference dec rest \<Rightarrow> 0 \<notin> set dec | _ \<Rightarrow> True) (suffixes cs)"

definition pushed_ok :: "TokenizerEnv \<Rightarrow> State \<Rightarrow> SegmentedString \<Rightarrow> bool" where
  "pushed_ok E st s \<longleftrightarrow>
     (if isReferenceState st then resumable (env_table E) s else chAmp \<notin> set (pushedChars s))"

definition env_ok :: "TokenizerEnv \<Rightarrow> bool" where
  "env_ok E \<longleftrightarrow> table_ok (env_table E) \<and> names_ok (env_table E)"

section \<open>The invariant\<close>

definition run_inv :: "TokenizerEnv \<Rightarrow> UChar \<Rightarrow> Conf \<Rightarrow> bool" where
  "run_inv E cc c \<longleftrightarrow> readable (run_source c) \<and> no_nul_reference (seg_toString (run_source c)) \<and>
     pushed_ok E (tk_state c) (run_source c) \<and>
     (cc = chAmp \<longrightarrow> hd (seg_toString (run_source c)) = chAmp) \<and>
     offsets_ok (tk_state c) (run_token c) (run_source c) \<and> token_ok (tk_state c) (cc = 0) c"

text \<open>An end tag whose name is buffered, waiting for the next call.\<close>

definition end_tag_pending :: "Conf \<Rightarrow> bool" where
  "end_tag_pending c \<longleftrightarrow> tk_state c \<in> {BeforeAttributeNameState, SelfClosingStartTagState, DataState} \<and>
     name_ok (map ucast (tk_bufferedEndTagName c)) \<and> 0 \<notin> set (tk_temporaryBuffer c) \<and>
     tok_type (run_token c) = Uninitialized \<and> wf_token (run_token c)"

definition idle_inv :: "TokenizerEnv \<Rightarrow> Conf \<Rightarrow> bool" where
  "idle_inv E c \<longleftrightarrow> stream_inv (run_source c) \<and> no_nul_reference (seg_toString (run_source c)) \<and>
     pushed_ok E (tk_state c) (run_source c) \<and>
     (token_ok (tk_state c) False c \<or> end_tag_pending c)"

definition next_call :: "Conf \<Rightarrow> Conf" where
  "next_call c = c\<lparr>run_token := tok_clear (run_token c)\<rparr>"

definition ret_inv :: "TokenizerEnv \<Rightarrow> bool \<Rightarrow> Conf \<Rightarrow> bool" where
  "ret_inv E b c \<longleftrightarrow>
     (if b then wf_token (run_token c) \<and> tok_type (run_token c) \<noteq> Uninitialized \<and> idle_inv E (next_call c)
      else tok_type (run_token c) \<noteq> Character \<and> idle_inv E c \<and> offsets_ok (tk_state c) (run_token c) (run_source c))"

text \<open>Jumps that consume nothing go down in \<open>rank\<close>.\<close>

definition rank :: "State \<Rightarrow> nat" where
  "rank st = (case st of
    DataState \<Rightarrow> 0 | RCDATAState \<Rightarrow> 0 | RAWTEXTState \<Rightarrow> 0 | ScriptDataState \<Rightarrow> 0 | PLAINTEXTState \<Rightarrow> 0
  | ContinueBogusCommentState \<Rightarrow> 0 | BeforeDOCTYPENameState \<Rightarrow> 0
  | TagOpenState \<Rightarrow> 2 | EndTagOpenState \<Rightarrow> 2 | MarkupDeclarationOpenState \<Rightarrow> 2
  | ScriptDataEscapedLessThanSignState \<Rightarrow> 2 | ScriptDataEscapedEndTagOpenState \<Rightarrow> 2
  | ScriptDataEscapedEndTagNameState \<Rightarrow> 2 | ScriptDataDoubleEscapeStartState \<Rightarrow> 2
  | ScriptDataDoubleEscapedLessThanSignState \<Rightarrow> 2 | ScriptDataDoubleEscapeEndState \<Rightarrow> 2
  | BeforeAttributeValueState \<Rightarrow> 2 | CharacterReferenceInAttributeValueState \<Rightarrow> 2
  | AfterAttributeValueQuotedState \<Rightarrow> 2 | SelfClosingStartTagState \<Rightarrow> 2
  | CDATASectionRightSquareBracketState \<Rightarrow> 2 | CDATASectionDoubleRightSquareBracketState \<Rightarrow> 2
  | _ \<Rightarrow> 1)"

abbreviation remaining :: "Conf \<Rightarrow> nat" where
  "remaining c \<equiv> length (seg_toString (run_source c))"

definition progress :: "Conf \<Rightarrow> nat" where
  "progress c = 3 * remaining c + rank (tk_state c)"

definition good :: "TokenizerEnv \<Rightarrow> nat \<Rightarrow> SegmentedString \<Rightarrow> outcome \<Rightarrow> bool" where
  "good E m s oc \<longleftrightarrow> (case oc of
     Goto cc c \<Rightarrow> run_inv E cc c \<and> progress c < m \<and> kept s (run_source c)
   | Ret b c \<Rightarrow> ret_inv E b c \<and> kept s (run_source c)
   | Crash \<Rightarrow> False)"

lemma rank_bound: "rank st \<le> 2"
  by (simp add: rank_def split: State.splits)

section \<open>Token operations keep tokens well-formed\<close>

lemma or_le_FF: "(x :: UChar) OR y \<le> 0xFF \<longleftrightarrow> x \<le> 0xFF \<and> y \<le> 0xFF"
proof -
  have le: "w \<le> 0xFF \<longleftrightarrow> take_bit 8 w = w" for w :: UChar
  proof
    assume "w \<le> 0xFF"
    then have "unat (take_bit 8 w) = unat w"
      by (simp add: word_le_nat_alt unsigned_take_bit_eq take_bit_nat_eq_self)
    then show "take_bit 8 w = w" by (rule unsigned_word_eqI)
  next
    assume "take_bit 8 w = w"
    then have "unat w = take_bit 8 (unat w)" by (metis unsigned_take_bit_eq)
    then show "w \<le> 0xFF" using take_bit_nat_less_exp[of 8 "unat w"] by (simp add: word_le_nat_alt)
  qed
  have "take_bit 8 (x OR y) = x OR y \<longleftrightarrow> take_bit 8 x = x \<and> take_bit 8 y = y"
    by (auto simp: bit_eq_iff bit_simps)
  then show ?thesis by (simp add: le)
qed

lemma LChar_le [simp]: "(ucast (l :: LChar) :: UChar) \<le> 0xFF"
proof -
  have "unat l < 2 ^ LENGTH(8)" by (rule unsigned_less)
  then show ?thesis by (simp add: word_le_nat_alt unsigned_ucast_eq take_bit_nat_eq_self)
qed

lemma LChar_zero [simp]: "(ucast (l :: LChar) :: UChar) = 0 \<longleftrightarrow> l = 0"
proof
  assume "(ucast l :: UChar) = 0"
  then have "unat (ucast l :: UChar) = 0" by simp
  moreover have "unat l < 2 ^ LENGTH(8)" by (rule unsigned_less)
  ultimately have "unat l = unat (0 :: LChar)" by (simp add: unsigned_ucast_eq take_bit_nat_eq_self)
  then show "l = 0" by (rule unsigned_word_eqI)
qed simp

lemma all8_append [simp]:
  "isAll8BitData (appendData ch t) \<longleftrightarrow> isAll8BitData t \<and> ch \<le> 0xFF"
  by (simp add: isAll8BitData_def appendData_def or_le_FF)

lemma appendData_simps [simp]:
  "tok_type (appendData ch t) = tok_type t" "tok_data (appendData ch t) = tok_data t @ [ch]"
  "tok_attributes (appendData ch t) = tok_attributes t" "tok_doctypeData (appendData ch t) = tok_doctypeData t"
  "tok_currentAttribute (appendData ch t) = tok_currentAttribute t"
  "tok_baseOffset (appendData ch t) = tok_baseOffset t"
  by (simp_all add: appendData_def)

lemma name_ok_snoc: "name_ok cs \<Longrightarrow> ch \<noteq> 0 \<Longrightarrow> \<not> isASCIIUpper ch \<Longrightarrow> name_ok (cs @ [ch])"
  by (auto simp: name_ok_def)

lemma all8_updates [simp]:
  "isAll8BitData (t\<lparr>tok_type := ty\<rparr>) = isAll8BitData t"
  "isAll8BitData (t\<lparr>tok_data := ds\<rparr>) = isAll8BitData t"
  "isAll8BitData (t\<lparr>tok_attributes := as\<rparr>) = isAll8BitData t"
  "isAll8BitData (t\<lparr>tok_currentAttribute := i\<rparr>) = isAll8BitData t"
  "isAll8BitData (t\<lparr>tok_doctypeData := d\<rparr>) = isAll8BitData t"
  "isAll8BitData (t\<lparr>tok_selfClosing := sc\<rparr>) = isAll8BitData t"
  by (simp_all add: isAll8BitData_def)

lemma wf_clear [simp]: "wf_token (tok_clear t)" "tok_type (tok_clear t) = Uninitialized"
  by (simp_all add: wf_token_def tok_clear_def isAll8BitData_def)

definition afterOp :: "(HTMLToken \<Rightarrow> bool) \<Rightarrow> HTMLToken \<Rightarrow> HTMLToken option \<Rightarrow> bool" where
  "afterOp P t r \<longleftrightarrow> (\<exists>t'. r = Some t' \<and> wf_token t' \<and> tok_baseOffset t' = tok_baseOffset t \<and> P t')"

lemmas wf_defs = wf_token_def attributes_ok_def doctype_ok_def

lemma op_buffer:
  assumes "wf_token t" "tok_type t = Uninitialized \<or> tok_type t = Character" "ch \<noteq> 0"
  shows "afterOp (\<lambda>t'. tok_type t' = Character) t (do { ASSERT (ch \<noteq> kEndOfFileMarker);
     t1 \<leftarrow> ensureIsCharacterToken t; appendToCharacter ch t1 })"
  using assms by (auto simp: afterOp_def ensureIsCharacterToken_def appendToCharacter_def wf_defs)

lemma op_buffer_vector:
  assumes "wf_token t" "tok_type t = Character" "0 \<notin> set cs"
  shows "afterOp (\<lambda>t'. tok_type t' = Character) t (appendToCharacter_vector cs t)"
  using assms by (auto simp: afterOp_def appendToCharacter_vector_def wf_defs eq_commute[of 0])

lemma op_beginStartTag:
  assumes "wf_token t" "tok_type t = Uninitialized" "ch \<noteq> 0" "\<not> isASCIIUpper ch"
  shows "afterOp (\<lambda>t'. tok_type t' = StartTag) t (beginStartTag ch t)"
  using assms by (auto simp: afterOp_def beginStartTag_def wf_defs name_ok_def)

lemma op_beginEndTag_vector:
  assumes "wf_token t" "tok_type t = Uninitialized" "name_ok (map ucast cs)"
  shows "afterOp (\<lambda>t'. tok_type t' = EndTag) t (beginEndTag_vector cs t)"
  using assms by (auto simp: afterOp_def beginEndTag_vector_def wf_defs)

lemma op_beginEndTag:
  assumes "wf_token t" "tok_type t = Uninitialized" "name_ok [ucast l]"
  shows "afterOp (\<lambda>t'. tok_type t' = EndTag) t (beginEndTag l t)"
  using assms by (auto simp: afterOp_def beginEndTag_def wf_defs)

lemma op_appendToName_tag:
  assumes "wf_token t" "isTagType (tok_type t)" "ch \<noteq> 0" "\<not> isASCIIUpper ch"
  shows "afterOp (\<lambda>t'. isTagType (tok_type t')) t (appendToName ch t)"
  using assms by (auto simp: afterOp_def appendToName_def wf_defs name_ok_snoc)

lemma op_appendToName_doctype:
  assumes "wf_token t" "tok_type t = DOCTYPE" "ch \<noteq> 0" "\<not> isASCIIUpper ch"
  shows "afterOp (\<lambda>t'. tok_type t' = DOCTYPE) t (appendToName ch t)"
  using assms by (auto simp: afterOp_def appendToName_def wf_defs)

lemma op_setSelfClosing:
  assumes "wf_token t" "isTagType (tok_type t)"
  shows "afterOp (\<lambda>t'. isTagType (tok_type t')) t (setSelfClosing t)"
  using assms by (auto simp: afterOp_def setSelfClosing_def wf_defs)

lemma op_newAttribute:
  assumes "wf_token t" "isTagType (tok_type t)" "ch \<noteq> 0" "\<not> isASCIIUpper ch"
  shows "afterOp (\<lambda>t'. isTagType (tok_type t') \<and> attribute_in_progress t') t
     (do { t1 \<leftarrow> addNewAttribute t; t2 \<leftarrow> beginAttributeName n t1; appendToAttributeName ch t2 })"
  using assms
  by (auto simp: afterOp_def addNewAttribute_def beginAttributeName_def appendToAttributeName_def
      onCurrentAttribute_def wf_defs attribute_in_progress_def name_ok_def list_update_append)

lemma wf_onCurrent:
  assumes "wf_token t" "isTagType (tok_type t)" "attribute_in_progress t"
    "\<And>a. name_ok (attr_name a) \<and> 0 \<notin> set (attr_value a) \<Longrightarrow> name_ok (attr_name (f a)) \<and> 0 \<notin> set (attr_value (f a))"
  shows "\<exists>i. tok_currentAttribute t = Some i \<and> i < length (tok_attributes t) \<and>
    onCurrentAttribute f t = Some (t\<lparr>tok_attributes := (tok_attributes t)[i := f (tok_attributes t ! i)]\<rparr>) \<and>
    wf_token (t\<lparr>tok_attributes := (tok_attributes t)[i := f (tok_attributes t ! i)]\<rparr>)"
proof -
  obtain i where i: "tok_currentAttribute t = Some i" "i < length (tok_attributes t)"
    using assms(3) by (auto simp: attribute_in_progress_def)
  have "attributes_ok t \<Longrightarrow> attributes_ok (t\<lparr>tok_attributes := (tok_attributes t)[i := f (tok_attributes t ! i)]\<rparr>)"
    using i(2) assms(4) set_update_subset_insert[of "tok_attributes t" i "f (tok_attributes t ! i)"]
    by (fastforce simp: attributes_ok_def)
  with i assms(1,2) show ?thesis
    by (auto simp: onCurrentAttribute_def wf_token_def)
qed

lemma op_appendToAttributeName:
  assumes "wf_token t" "isTagType (tok_type t)" "attribute_in_progress t" "ch \<noteq> 0" "\<not> isASCIIUpper ch"
  shows "afterOp (\<lambda>t'. isTagType (tok_type t') \<and> attribute_in_progress t') t (appendToAttributeName ch t)"
  using wf_onCurrent[OF assms(1-3), of "\<lambda>a. a\<lparr>attr_name := attr_name a @ [ch]\<rparr>"] assms
  by (auto simp: afterOp_def appendToAttributeName_def name_ok_snoc attribute_in_progress_def)

lemma op_endAttributeName:
  assumes "wf_token t" "isTagType (tok_type t)" "attribute_in_progress t"
  shows "afterOp (\<lambda>t'. isTagType (tok_type t') \<and> attribute_in_progress t') t (endAttributeName n t)"
  using wf_onCurrent[OF assms, of "\<lambda>a. a\<lparr>attr_nameRange := (attr_nameRange a)\<lparr>rg_end := n - tok_baseOffset t\<rparr>,
       attr_valueRange := \<lparr>rg_start = n - tok_baseOffset t, rg_end = n - tok_baseOffset t\<rparr>\<rparr>"] assms
  by (auto simp: afterOp_def endAttributeName_def attribute_in_progress_def Let_def)

lemma value_attribute: "value_in_progress t \<Longrightarrow> attribute_in_progress t"
  by (auto simp: value_in_progress_def attribute_in_progress_def)

lemma op_beginAttributeValue:
  assumes "wf_token t" "isTagType (tok_type t)" "attribute_in_progress t" "n \<noteq> tok_baseOffset t"
  shows "afterOp (\<lambda>t'. isTagType (tok_type t') \<and> value_in_progress t') t (beginAttributeValue n t)"
  using wf_onCurrent[OF assms(1-3), of "\<lambda>a. a\<lparr>attr_valueRange := \<lparr>rg_start = n - tok_baseOffset t, rg_end = 0\<rparr>\<rparr>"] assms
  by (auto simp: afterOp_def beginAttributeValue_def value_in_progress_def)

lemma op_endAttributeValue:
  assumes "wf_token t" "isTagType (tok_type t)" "value_in_progress t"
  shows "afterOp (\<lambda>t'. isTagType (tok_type t')) t (endAttributeValue n t)"
  using wf_onCurrent[OF assms(1,2) value_attribute[OF assms(3)],
      of "\<lambda>a. a\<lparr>attr_valueRange := (attr_valueRange a)\<lparr>rg_end := n - tok_baseOffset t\<rparr>\<rparr>"] assms
  by (auto simp: afterOp_def endAttributeValue_def)

lemma op_appendToAttributeValue:
  assumes "wf_token t" "isTagType (tok_type t)" "value_in_progress t" "ch \<noteq> 0"
  shows "afterOp (\<lambda>t'. isTagType (tok_type t') \<and> value_in_progress t') t (appendToAttributeValue ch t)"
  using wf_onCurrent[OF assms(1,2) value_attribute[OF assms(3)],
      of "\<lambda>a. a\<lparr>attr_value := attr_value a @ [ch]\<rparr>"] assms
  by (auto simp: afterOp_def appendToAttributeValue_def value_in_progress_def currentAttribute_def)

lemma op_beginComment:
  assumes "wf_token t" "tok_type t = Uninitialized"
  shows "afterOp (\<lambda>t'. tok_type t' = Comment) t (beginComment t)"
  using assms by (auto simp: afterOp_def beginComment_def wf_defs)

lemma op_appendToComment:
  assumes "wf_token t" "tok_type t = Comment" "ch \<noteq> 0"
  shows "afterOp (\<lambda>t'. tok_type t' = Comment) t (appendToComment ch t)"
  using assms by (auto simp: afterOp_def appendToComment_def wf_defs)

lemma op_beginDOCTYPE:
  assumes "wf_token t" "tok_type t = Uninitialized"
  shows "afterOp (\<lambda>t'. tok_type t' = DOCTYPE) t (beginDOCTYPE t)"
  using assms by (auto simp: afterOp_def beginDOCTYPE_def newDoctypeData_def wf_defs)

lemma op_beginDOCTYPE_char:
  assumes "wf_token t" "tok_type t = Uninitialized" "ch \<noteq> 0" "\<not> isASCIIUpper ch"
  shows "afterOp (\<lambda>t'. tok_type t' = DOCTYPE) t (beginDOCTYPE_char ch t)"
  using assms by (auto simp: afterOp_def beginDOCTYPE_char_def beginDOCTYPE_def newDoctypeData_def wf_defs)

lemma op_setForceQuirks:
  assumes "wf_token t" "tok_type t = DOCTYPE"
  shows "afterOp (\<lambda>t'. tok_type t' = DOCTYPE) t (setForceQuirks t)"
  using assms by (auto simp: afterOp_def setForceQuirks_def onDoctypeData_def wf_defs split: option.splits)

lemma op_setPublic:
  assumes "wf_token t" "tok_type t = DOCTYPE"
  shows "afterOp (\<lambda>t'. tok_type t' = DOCTYPE \<and> (\<exists>d. tok_doctypeData t' = Some d \<and> dt_hasPublicIdentifier d)) t
    (setPublicIdentifierToEmptyString t)"
  using assms by (auto simp: afterOp_def setPublicIdentifierToEmptyString_def onDoctypeData_def wf_defs split: option.splits)

lemma op_setSystem:
  assumes "wf_token t" "tok_type t = DOCTYPE"
  shows "afterOp (\<lambda>t'. tok_type t' = DOCTYPE \<and> (\<exists>d. tok_doctypeData t' = Some d \<and> dt_hasSystemIdentifier d)) t
    (setSystemIdentifierToEmptyString t)"
  using assms by (auto simp: afterOp_def setSystemIdentifierToEmptyString_def onDoctypeData_def wf_defs split: option.splits)

lemma op_appendPublic:
  assumes "wf_token t" "tok_type t = DOCTYPE" "tok_doctypeData t = Some d" "dt_hasPublicIdentifier d" "ch \<noteq> 0"
  shows "afterOp (\<lambda>t'. tok_type t' = DOCTYPE \<and> (\<exists>d. tok_doctypeData t' = Some d \<and> dt_hasPublicIdentifier d)) t
    (appendToPublicIdentifier ch t)"
  using assms by (auto simp: afterOp_def appendToPublicIdentifier_def onDoctypeData_def wf_defs)

lemma op_appendSystem:
  assumes "wf_token t" "tok_type t = DOCTYPE" "tok_doctypeData t = Some d" "dt_hasSystemIdentifier d" "ch \<noteq> 0"
  shows "afterOp (\<lambda>t'. tok_type t' = DOCTYPE \<and> (\<exists>d. tok_doctypeData t' = Some d \<and> dt_hasSystemIdentifier d)) t
    (appendToSystemIdentifier ch t)"
  using assms by (auto simp: afterOp_def appendToSystemIdentifier_def onDoctypeData_def wf_defs)

section \<open>Reading the stream\<close>

lemma no_nul_drop: "no_nul_reference cs \<Longrightarrow> no_nul_reference (drop n cs)"
proof -
  assume a: "no_nul_reference cs"
  have "suffix t cs" if "suffix t (drop n cs)" for t using that suffix_drop suffix_order.trans by blast
  with a show ?thesis by (auto simp: no_nul_reference_def list_all_iff)
qed

lemma no_nul_Nil [simp]: "no_nul_reference []"
  by (simp add: no_nul_reference_def numeric_spec_def)

lemma classify_facts:
  "classify sk cl cs = Some (cc, skip, cs') \<Longrightarrow> cs' \<noteq> [] \<and> (cc = chAmp \<longrightarrow> hd cs' = chAmp)"
  by (induction cs) (auto split: if_splits)

lemma peek_spec_facts:
  "peek_spec sk cl skip0 cs = Some (cc, skip, cs') \<Longrightarrow> cs' \<noteq> [] \<and> (cc = chAmp \<longrightarrow> hd cs' = chAmp)"
  by (auto simp: peek_spec_def dest: classify_facts)

text \<open>What a successful or failed read gives, in the terms of the invariant.\<close>

definition read_ok :: "SegmentedString \<Rightarrow> (bool \<times> InputStreamPreprocessor \<times> SegmentedString) option \<Rightarrow> bool" where
  "read_ok s r \<longleftrightarrow> (\<exists>b p s'. r = Some (b, p, s') \<and> stream_inv s' \<and> advances s s' \<and>
     (if b then readable s' \<and> (pre_nextInputCharacter p = chAmp \<longrightarrow> hd (seg_toString s') = chAmp)
      else seg_toString s' = []))"

lemma peek_ok_read: "stream_inv s \<Longrightarrow> peek_ok s (peek_spec sk cl skip cs) r \<Longrightarrow> read_ok s r"
  using peek_spec_facts[of sk cl skip cs]
  by (auto simp: peek_ok_def read_ok_def readable_def split: option.splits)

lemma peek_read: "readable s \<Longrightarrow> read_ok s (pre_peek sk p s)"
  using peek_ok_read[OF _ pre_peek_spec, of s sk p] by (simp add: readable_def)

lemma advance_read:
  assumes "readable s"
  shows "\<exists>s1. advanced s s1 \<and> read_ok s1 (pre_advance sk p s)"
proof -
  obtain s1 where s1: "advanced s s1"
    "peek_ok s1 (peek_spec sk (seg_closed s) (pre_skipNextNewLine p) (tl (seg_toString s))) (pre_advance sk p s) \<or>
     tl (seg_toString s) = [] \<and> pre_advance sk p s = Some (False, p, s1)"
    using pre_advance_spec[OF assms] by metis
  have "stream_inv s1" "seg_toString s1 = tl (seg_toString s)" using s1(1) by (auto simp: advanced_def)
  moreover have "read_ok s1 (Some (False, p, s1))" if "stream_inv s1" "seg_toString s1 = []"
    unfolding read_ok_def using that by (intro exI[of _ False] exI[of _ p] exI[of _ s1]) simp
  ultimately have "read_ok s1 (pre_advance sk p s)" using s1(2) peek_ok_read[of s1] by metis
  with s1(1) show ?thesis by blast
qed

lemma kept_advances: "stream_inv s \<Longrightarrow> advances s s' \<Longrightarrow> kept s s'"
  using advances_facts(3,4)[of s s'] by (simp add: kept_def)

lemma pushed_ok_Nil: "stream_inv s \<Longrightarrow> pushedChars s = [] \<Longrightarrow> pushed_ok E st s"
  by (simp add: pushed_ok_def resumable_def)

lemma pushed_ok_end: "stream_inv s \<Longrightarrow> seg_toString s = [] \<Longrightarrow> pushed_ok E st s"
  using stream_nil_not_escaped[of s] pushedChars_Nil[of s] pushed_ok_Nil by (simp add: stream_inv_def)

lemma mask_above: "0x10 \<le> (c :: UChar) \<Longrightarrow> c AND NOT specialCharacterMask \<noteq> 0"
proof
  assume c: "0x10 \<le> c" "c AND NOT specialCharacterMask = 0"
  have m: "specialCharacterMask = mask 4" by (simp add: specialCharacterMask_def mask_eq_exp_minus_1)
  have "c = (c AND NOT (mask 4)) OR take_bit 4 c" by (rule bit_word_eqI) (auto simp: bit_simps)
  then have "c = take_bit 4 c" using c(2) m by simp
  then have "unat c = take_bit 4 (unat c)" by (metis unsigned_take_bit_eq)
  then show False using take_bit_nat_less_exp[of 4 "unat c"] c(1) by (simp add: word_le_nat_alt)
qed

text \<open>Peeking in a reference state on pushed-back characters does not move the stream.\<close>

lemma resumable_char:
  assumes "names_ok T" "resumable T s" "stream_inv s" "pushedChars s \<noteq> []"
  shows "0x10 \<le> seg_currentChar s"
proof -
  obtain d ps where d: "pushedChars s = d # ps" using assms(4) by (cases "pushedChars s") auto
  then have "hd0 (seg_toString s) = d" using toString_pushed[of s] assms(3) by (auto simp: stream_inv_def)
  then have cur: "seg_currentChar s = d" using assms(3) by (simp add: stream_inv_def)
  have "d = chHash \<or> isAlphaNumeric d \<or> d = chSemi"
    using assms(2) d names_ok_chars[OF assms(1), of "pushedChars s" d] by (auto simp: resumable_def)
  then show ?thesis unfolding cur isAlphaNumeric_def by (auto elim: order_trans[rotated])
qed

lemma pushed_ok_advances:
  assumes "names_ok (env_table E)" "stream_inv s" "pushed_ok E st s" "advances s s'"
    "isReferenceState st \<Longrightarrow> s' = s \<or> pushedChars s = []"
  shows "pushed_ok E st s'"
proof -
  obtain n where n: "pushedChars s' = drop n (pushedChars s)" using advances_facts(2)[OF assms(4,2)] by auto
  show ?thesis
    using assms n set_drop_subset[of n "pushedChars s"] by (auto simp: pushed_ok_def resumable_def)
qed

section \<open>Returning\<close>

lemma token_ok_eof: "token_ok st False c \<Longrightarrow> token_ok st eof c"
  by (auto simp: token_ok_def)

lemma token_ok_run [simp]:
  "token_ok st eof (c\<lparr>tk_state := st'\<rparr>) = token_ok st eof c"
  "token_ok st eof (c\<lparr>tk_inputStreamPreprocessor := p\<rparr>) = token_ok st eof c"
  "token_ok st eof (c\<lparr>run_source := s\<rparr>) = token_ok st eof c"
  "token_ok st eof (c\<lparr>tk_appropriateEndTagName := n\<rparr>) = token_ok st eof c"
  "token_ok st eof (c\<lparr>tk_token := a\<rparr>) = token_ok st eof c"
  by (simp_all add: token_ok_def)

lemma kind_character: "kind_ok k t \<Longrightarrow> tok_type t = Character \<Longrightarrow> k = KText"
  by (cases k) (auto simp: kind_ok_def)

lemma token_ok_next: "token_ok st False c \<Longrightarrow> tok_type (run_token c) = Character \<Longrightarrow> token_ok st False (next_call c)"
  using kind_character[of "kind st" "run_token c"] by (auto simp: token_ok_def next_call_def kind_ok_def)

lemma return_buffered_good:
  assumes "stream_inv (run_source c)" "no_nul_reference (seg_toString (run_source c))"
    "pushed_ok E (tk_state c) (run_source c)" "offsets_ok (tk_state c) (run_token c) (run_source c)" "token_ok (tk_state c) False c"
    "kept s0 (run_source c)"
  shows "good E m s0 (return_buffered c)"
proof (cases "haveBufferedCharacterToken c")
  case True
  then have ch: "tok_type (run_token c) = Character" by (simp add: haveBufferedCharacterToken_def)
  with assms token_ok_next[OF assms(5) ch] have "idle_inv E (next_call c)"
    by (simp add: idle_inv_def next_call_def)
  with True ch assms show ?thesis by (simp add: good_def return_buffered_def ret_inv_def token_ok_def)
next
  case False
  with assms show ?thesis
    by (simp add: good_def return_buffered_def ret_inv_def idle_inv_def haveBufferedCharacterToken_def)
qed

section \<open>The ends of blocks\<close>

lemma after_read_good:
  assumes "read_ok s1 r" "stream_inv s1" "kept s0 s1" "no_nul_reference (seg_toString s1)"
    and "\<And>s'. advances s1 s' \<Longrightarrow> pushed_ok E (tk_state c) s'"
    and "offsets_ok (tk_state c) (run_token c) s1" "token_ok (tk_state c) False c"
    and "3 * length (seg_toString s1) + rank (tk_state c) < m"
  shows "good E m s0 (after_read c r)"
proof -
  obtain b p s' where r: "r = Some (b, p, s')" "stream_inv s'" "advances s1 s'"
    "if b then readable s' \<and> (pre_nextInputCharacter p = chAmp \<longrightarrow> hd (seg_toString s') = chAmp)
      else seg_toString s' = []"
    using assms(1) by (auto simp: read_ok_def)
  obtain n where n: "seg_toString s' = drop n (seg_toString s1)" using advances_facts(2)[OF r(3) assms(2)] by auto
  note k = kept_trans[OF assms(3) kept_advances[OF assms(2) r(3)]]
  have off: "offsets_ok (tk_state c) (run_token c) s'"
    using assms(6) advances_facts(3)[OF r(3) assms(2)] n by (auto simp: offsets_ok_def)
  have nn: "no_nul_reference (seg_toString s')" using no_nul_drop[OF assms(4)] n by simp
  show ?thesis
  proof (cases b)
    case True
    then show ?thesis
      using r off nn k assms(5)[OF r(3)] assms(7,8) n token_ok_eof[OF assms(7)]
      by (auto simp: after_read_def good_def run_inv_def progress_def)
  next
    case False
    have "good E m s0 (return_buffered (c\<lparr>tk_inputStreamPreprocessor := p, run_source := s'\<rparr>))"
      by (rule return_buffered_good) (use r off nn k assms(5)[OF r(3)] assms(7) in \<open>auto simp: offsets_ok_def\<close>)
    with False r(1) show ?thesis by (simp add: after_read_def)
  qed
qed

lemma ADVANCE_good:
  assumes "env_ok E" "readable (run_source c)" "no_nul_reference (seg_toString (run_source c))"
    "chAmp \<notin> set (pushedChars (run_source c))" "isReferenceState st \<Longrightarrow> pushedChars (run_source c) = []"
    "tok_baseOffset (run_token c) \<le> numberOfCharactersConsumed (run_source c)"
    "token_ok st False c" "3 * remaining c \<le> m" "kept s0 (run_source c)"
  shows "good E m s0 (ADVANCE_TO st c)"
proof -
  let ?s = "run_source c" let ?c = "c\<lparr>tk_state := st\<rparr>"
  let ?r = "pre_advance (shouldSkipNullCharacters ?c) (tk_inputStreamPreprocessor ?c) (run_source ?c)"
  have inv: "stream_inv ?s" and names: "names_ok (env_table E)"
    using assms(1,2) by (simp_all add: readable_def env_ok_def)
  obtain s1 where s1: "advanced ?s s1" "read_ok s1 ?r" using advance_read[OF assms(2)] by auto
  have inv1: "stream_inv s1" and t1: "seg_toString s1 = tl (seg_toString ?s)"
    using s1(1) by (auto simp: advanced_def)
  have p1: "pushedChars s1 = tl (pushedChars ?s)" by (rule pushedChars_advanced[OF inv s1(1)])
  have "set (tl (pushedChars ?s)) \<subseteq> set (pushedChars ?s)" by (cases "pushedChars ?s") auto
  then have "pushed_ok E st s1" using assms(4,5) p1 by (auto simp: pushed_ok_def resumable_def)
  then have push: "advances s1 s' \<Longrightarrow> pushed_ok E st s'" for s'
    using pushed_ok_advances[OF names inv1, of st s'] assms(5) p1 by auto
  have "numberOfCharactersConsumed s1 = numberOfCharactersConsumed ?s + 1"
    using s1(1) readable_nonempty[OF assms(2)] by (simp add: advanced_def)
  then have off: "offsets_ok st (run_token c) s1" using assms(6) by (simp add: offsets_ok_def)
  have "length (seg_toString s1) < remaining c" using t1 readable_nonempty[OF assms(2)] by simp
  then have lt: "3 * length (seg_toString s1) + rank st < m" using assms(8) rank_bound[of st] by linarith
  have nn: "no_nul_reference (seg_toString s1)" using no_nul_drop[OF assms(3), of 1] t1 by (simp add: drop_Suc)
  have "good E m s0 (after_read ?c ?r)"
    by (rule after_read_good[OF s1(2) inv1 kept_trans[OF assms(9) kept_advanced[OF s1(1)]] nn])
      (use push off lt assms(7) in auto)
  then show ?thesis by (simp add: ADVANCE_TO_def Let_def)
qed

lemma peek_good:
  assumes "env_ok E" "readable (run_source c)" "no_nul_reference (seg_toString (run_source c))"
    "pushed_ok E (tk_state c) (run_source c)" "offsets_ok (tk_state c) (run_token c) (run_source c)" "token_ok (tk_state c) False c"
    "progress c < m" "kept s0 (run_source c)"
  shows "good E m s0 (peek_source c)"
proof -
  let ?s = "run_source c"
  let ?r = "pre_peek (shouldSkipNullCharacters c) (tk_inputStreamPreprocessor c) ?s"
  have inv: "stream_inv ?s" and names: "names_ok (env_table E)"
    using assms(1,2) by (simp_all add: readable_def env_ok_def)
  show ?thesis
  proof (cases "isReferenceState (tk_state c) \<and> pushedChars ?s \<noteq> []")
    case True
    then have "0x10 \<le> seg_currentChar ?s"
      using resumable_char[OF names _ inv] assms(4) by (simp add: pushed_ok_def)
    from mask_above[OF this] have fast: "?r = Some (True, (tk_inputStreamPreprocessor c)
        \<lparr>pre_nextInputCharacter := seg_currentChar ?s, pre_skipNextNewLine := False\<rparr>, ?s)"
      by (simp add: pre_peek_def)
    have "seg_currentChar ?s = hd (seg_toString ?s)" by (rule readable_currentChar[OF assms(2)])
    with assms fast token_ok_eof[OF assms(6)] show ?thesis
      by (auto simp: peek_source_def after_read_def good_def run_inv_def progress_def offsets_ok_def)
  next
    case False
    have "good E m s0 (after_read c ?r)"
      by (rule after_read_good[OF peek_read[OF assms(2)] inv assms(8,3) _ assms(5,6)])
        (use pushed_ok_advances[OF names inv assms(4)] False assms(7) in \<open>auto simp: progress_def\<close>)
    then show ?thesis by (simp add: peek_source_def)
  qed
qed

lemma SWITCH_good:
  assumes "env_ok E" "stream_inv (run_source c)" "no_nul_reference (seg_toString (run_source c))"
    "pushed_ok E st (run_source c)" "offsets_ok st (run_token c) (run_source c)" "token_ok st False c"
    "3 * remaining c + rank st < m" "kept s0 (run_source c)"
  shows "good E m s0 (SWITCH_TO st c)"
proof (cases "seg_empty (run_source c)")
  case True
  with assms return_buffered_good[of "c\<lparr>tk_state := st\<rparr>" E s0 m] show ?thesis by (simp add: SWITCH_TO_def)
next
  case False
  with assms peek_good[of E "c\<lparr>tk_state := st\<rparr>" m s0] show ?thesis
    by (simp add: SWITCH_TO_def readable_def progress_def)
qed

lemma RECONSUME_good:
  assumes "run_inv E cc (c\<lparr>tk_state := st\<rparr>)" "3 * remaining c + rank st < m" "kept s0 (run_source c)"
  shows "good E m s0 (RECONSUME_IN st cc c)"
  using assms by (simp add: RECONSUME_IN_def good_def progress_def)

lemma token_do_good:
  assumes "afterOp P (run_token c) (f (run_token c))"
    "\<And>t. wf_token t \<Longrightarrow> tok_baseOffset t = tok_baseOffset (run_token c) \<Longrightarrow> P t \<Longrightarrow> good E m s0 (k (c\<lparr>run_token := t\<rparr>))"
  shows "good E m s0 (token_do f k c)"
  using assms by (auto simp: afterOp_def token_do_def)

lemma buffer_good:
  assumes "wf_token (run_token c)" "tok_type (run_token c) = Uninitialized \<or> tok_type (run_token c) = Character"
    "ch \<noteq> 0"
    "\<And>t. wf_token t \<Longrightarrow> tok_baseOffset t = tok_baseOffset (run_token c) \<Longrightarrow> tok_type t = Character \<Longrightarrow>
       good E m s0 (k (c\<lparr>run_token := t\<rparr>))"
  shows "good E m s0 (bufferCharacter ch k c)"
  unfolding bufferCharacter_def
  by (rule token_do_good[where f = "\<lambda>t. do { ASSERT (ch \<noteq> kEndOfFileMarker);
      t1 \<leftarrow> ensureIsCharacterToken t; appendToCharacter ch t1 }", OF op_buffer[OF assms(1-3)]])
    (use assms(4) in auto)

lemma lower_good:
  assumes "isASCIIUpper cc"
    "cc + 0x20 \<noteq> 0 \<Longrightarrow> cc + 0x20 \<le> 0xFF \<Longrightarrow> \<not> isASCIIUpper (cc + 0x20) \<Longrightarrow> good E m s0 (k (cc + 0x20) c)"
  shows "good E m s0 (with_lower cc k c)"
proof -
  have cc: "0x41 \<le> unat cc" "unat cc \<le> 0x5A" using assms(1) by (auto simp: isASCIIUpper_def word_le_nat_alt)
  then have "unat (cc + 0x20) = unat cc + 0x20" by (simp add: unat_word_ariths take_bit_nat_eq_self)
  then have "cc + 0x20 \<noteq> 0" "cc + 0x20 \<le> 0xFF" "\<not> isASCIIUpper (cc + 0x20)"
    using cc by (auto simp: isASCIIUpper_def word_le_nat_alt unat_eq_0[symmetric] simp del: unat_eq_0)
  with assms show ?thesis by (simp add: with_lower_def toLowerCase_def)
qed

section \<open>Inside a block\<close>

text \<open>What every block but those of character references can rely on, whatever it has done to the token.\<close>

definition at_char :: "TokenizerEnv \<Rightarrow> UChar \<Rightarrow> nat \<Rightarrow> SegmentedString \<Rightarrow> Conf \<Rightarrow> bool" where
  "at_char E cc m s0 c \<longleftrightarrow> env_ok E \<and> readable (run_source c) \<and> no_nul_reference (seg_toString (run_source c)) \<and>
     chAmp \<notin> set (pushedChars (run_source c)) \<and> (cc = chAmp \<longrightarrow> hd (seg_toString (run_source c)) = chAmp) \<and>
     tok_baseOffset (run_token c) \<le> numberOfCharactersConsumed (run_source c) \<and>
     kept s0 (run_source c) \<and> 3 * remaining c \<le> m"

lemma at_char_enter:
  assumes "env_ok E" "run_inv E cc c" "\<not> isReferenceState (tk_state c)"
  shows "at_char E cc (progress c) (run_source c) c"
  using assms by (auto simp: at_char_def run_inv_def pushed_ok_def progress_def offsets_ok_def)

lemma at_char_update [simp]:
  "at_char E cc m s0 (c\<lparr>tk_state := st\<rparr>) = at_char E cc m s0 c"
  "at_char E cc m s0 (c\<lparr>tk_temporaryBuffer := tmp\<rparr>) = at_char E cc m s0 c"
  "at_char E cc m s0 (c\<lparr>tk_bufferedEndTagName := buf\<rparr>) = at_char E cc m s0 c"
  "at_char E cc m s0 (c\<lparr>tk_appropriateEndTagName := n\<rparr>) = at_char E cc m s0 c"
  "at_char E cc m s0 (c\<lparr>tk_additionalAllowedCharacter := a\<rparr>) = at_char E cc m s0 c"
  by (simp_all add: at_char_def)

lemma at_char_token [simp]:
  "tok_baseOffset t = tok_baseOffset (run_token c) \<Longrightarrow>
   at_char E cc m s0 (c\<lparr>run_token := t\<rparr>) = at_char E cc m s0 c"
  by (simp add: at_char_def)

lemma at_amp: "at_char E chAmp m s0 c \<Longrightarrow> pushedChars (run_source c) = []"
  using toString_pushed[of "run_source c"]
  by (cases "pushedChars (run_source c)") (auto simp: at_char_def readable_def stream_inv_def)

lemma advance_to_good:
  assumes "at_char E cc m s0 c" "token_ok st False c" "isReferenceState st \<longrightarrow> cc = chAmp"
  shows "good E m s0 (ADVANCE_TO st c)"
  by (rule ADVANCE_good) (use assms at_amp[of E m s0 c] in \<open>auto simp: at_char_def\<close>)

lemma reconsume_good:
  assumes "at_char E cc m s0 c" "token_ok st (cc = 0) c" "kind st \<noteq> KAttribute" "\<not> isReferenceState st"
    "3 * remaining c + rank st < m"
  shows "good E m s0 (RECONSUME_IN st cc c)"
  using assms by (auto simp: RECONSUME_IN_def good_def progress_def at_char_def run_inv_def pushed_ok_def offsets_ok_def)

lemma switch_good:
  assumes "at_char E cc m s0 c \<or>
     env_ok E \<and> stream_inv (run_source c) \<and> no_nul_reference (seg_toString (run_source c)) \<and>
     chAmp \<notin> set (pushedChars (run_source c)) \<and> tok_baseOffset (run_token c) \<le> numberOfCharactersConsumed (run_source c) \<and>
     kept s0 (run_source c)" "token_ok st False c" "kind st \<noteq> KAttribute" "\<not> isReferenceState st"
    "3 * remaining c + rank st < m"
  shows "good E m s0 (SWITCH_TO st c)"
  by (rule SWITCH_good) (use assms in \<open>auto simp: at_char_def readable_def pushed_ok_def offsets_ok_def\<close>)

section \<open>Emitting\<close>

lemma advance_source_at:
  assumes "at_char E cc m s0 c"
  obtains s where "advance_source c = Some (c\<lparr>run_source := s\<rparr>)" "advanced (run_source c) s" "stream_inv s"
    "no_nul_reference (seg_toString s)" "chAmp \<notin> set (pushedChars s)" "kept s0 s"
    "tok_baseOffset (run_token c) \<le> numberOfCharactersConsumed s" "3 * length (seg_toString s) + 2 < m"
proof -
  have r: "readable (run_source c)" and inv: "stream_inv (run_source c)" using assms by (auto simp: at_char_def readable_def)
  obtain s where s: "advanceAndUpdateLineNumber (run_source c) = Some s" "advanced (run_source c) s"
    using advanceAndUpdateLineNumber_advanced[OF inv] by auto
  have "set (pushedChars s) \<subseteq> set (pushedChars (run_source c))"
    using pushedChars_advanced[OF inv s(2)] by (cases "pushedChars (run_source c)") auto
  moreover have "3 * length (seg_toString s) + 2 < m"
    using s(2) readable_nonempty[OF r] assms by (cases "seg_toString (run_source c)") (auto simp: at_char_def advanced_def)
  moreover have "no_nul_reference (seg_toString s)"
    using no_nul_drop[of "seg_toString (run_source c)" 1] assms s(2) by (auto simp: at_char_def advanced_def drop_Suc)
  moreover have "kept s0 s" "chAmp \<notin> set (pushedChars (run_source c))"
    using assms kept_trans[OF _ kept_advanced[OF s(2)], of s0] by (auto simp: at_char_def)
  moreover have "stream_inv s" "tok_baseOffset (run_token c) \<le> numberOfCharactersConsumed s"
    using s(2) assms by (auto simp: at_char_def advanced_def)
  moreover have "advance_source c = Some (c\<lparr>run_source := s\<rparr>)" using s(1) by (simp add: advance_source_def)
  ultimately show thesis using that[of s] s(2) by blast
qed

text \<open>After the token is handed over, the next call starts from a cleared token.\<close>

lemma emitted:
  assumes "stream_inv (run_source c)" "no_nul_reference (seg_toString (run_source c))"
    "chAmp \<notin> set (pushedChars (run_source c))" "tk_state c = DataState"
    "tk_bufferedEndTagName c = []" "0 \<notin> set (tk_temporaryBuffer c)"
    "wf_token (run_token c)" "tok_type (run_token c) \<noteq> Uninitialized" "kept s0 (run_source c)"
  shows "good E m s0 (Ret True c)"
  using assms by (simp add: good_def ret_inv_def idle_inv_def next_call_def pushed_ok_def isReferenceState_def
      token_ok_def kind_def kind_ok_def buffers_ok_def isEndTagNameState_def)

lemma save_name:
  assumes "tok_type (run_token c) \<noteq> Uninitialized"
  obtains n where "saveEndTagNameIfNeeded c = Some (c\<lparr>tk_appropriateEndTagName := n\<rparr>)"
proof -
  have "c = c\<lparr>tk_appropriateEndTagName := tk_appropriateEndTagName c\<rparr>" by simp
  then show thesis
    using that[of "tok_data (run_token c)"] that[of "tk_appropriateEndTagName c"] assms
    by (cases "tok_type (run_token c) = StartTag") (auto simp: saveEndTagNameIfNeeded_def token_name_def)
qed

lemma emit_resume_good:
  assumes "at_char E cc m s0 c" "wf_token (run_token c)" "tok_type (run_token c) \<noteq> Uninitialized"
    "tk_bufferedEndTagName c = []" "0 \<notin> set (tk_temporaryBuffer c)"
  shows "good E m s0 (emitAndResumeIn DataState c)"
proof -
  obtain n where n: "saveEndTagNameIfNeeded c = Some (c\<lparr>tk_appropriateEndTagName := n\<rparr>)"
    using save_name assms(3) by blast
  let ?c = "c\<lparr>tk_appropriateEndTagName := n, tk_state := DataState\<rparr>"
  obtain s where s: "advance_source ?c = Some (?c\<lparr>run_source := s\<rparr>)" "stream_inv s"
    "no_nul_reference (seg_toString s)" "chAmp \<notin> set (pushedChars s)" "kept s0 s"
    using advance_source_at[of E cc m s0 ?c] assms(1) by auto
  have "good E m s0 (Ret True (?c\<lparr>run_source := s\<rparr>))"
    by (rule emitted) (use s assms in auto)
  with n s(1) show ?thesis by (simp add: emitAndResumeIn_def conf_do_def)
qed

lemma emit_reconsume_good:
  assumes "at_char E cc m s0 c" "wf_token (run_token c)" "tok_type (run_token c) \<noteq> Uninitialized"
    "tk_bufferedEndTagName c = []" "0 \<notin> set (tk_temporaryBuffer c)"
  shows "good E m s0 (emitAndReconsumeIn DataState c)"
proof -
  obtain n where n: "saveEndTagNameIfNeeded c = Some (c\<lparr>tk_appropriateEndTagName := n\<rparr>)"
    using save_name assms(3) by blast
  have "good E m s0 (Ret True (c\<lparr>tk_appropriateEndTagName := n, tk_state := DataState\<rparr>))"
    by (rule emitted) (use assms in \<open>auto simp: at_char_def readable_def\<close>)
  with n show ?thesis by (simp add: emitAndReconsumeIn_def conf_do_def)
qed

lemma emit_buffered_good:
  assumes "at_char E cc m s0 c" "token_ok (tk_state c) eof c" "tok_type (run_token c) = Character"
    "\<not> isReferenceState (tk_state c)"
  shows "good E m s0 (Ret True c)"
proof -
  have ok: "token_ok (tk_state c) False c" using assms(2,3) by (auto simp: token_ok_def)
  with assms token_ok_next[OF ok assms(3)] show ?thesis
    by (simp add: good_def ret_inv_def idle_inv_def next_call_def at_char_def readable_def pushed_ok_def token_ok_def)
qed

lemma emit_eof_good:
  assumes "at_char E cc m s0 c" "token_ok (tk_state c) eof c" "\<not> isReferenceState (tk_state c)"
    "tk_bufferedEndTagName c = []" "0 \<notin> set (tk_temporaryBuffer c)"
  shows "good E m s0 (emitEndOfFile c)"
proof (cases "tok_type (run_token c) = Character")
  case True
  with emit_buffered_good[OF assms(1,2) _ assms(3)] show ?thesis
    by (simp add: emitEndOfFile_def haveBufferedCharacterToken_def)
next
  case False
  obtain s where s: "advance_source (c\<lparr>tk_state := DataState\<rparr>) = Some (c\<lparr>tk_state := DataState, run_source := s\<rparr>)"
    "stream_inv s" "no_nul_reference (seg_toString s)" "chAmp \<notin> set (pushedChars s)" "kept s0 s"
    using advance_source_at[of E cc m s0 "c\<lparr>tk_state := DataState\<rparr>"] assms(1) by auto
  let ?t = "tok_clear (run_token c)\<lparr>tok_type := EndOfFile\<rparr>"
  have "wf_token ?t" by (simp add: wf_token_def tok_clear_def isAll8BitData_def)
  then have "good E m s0 (Ret True (c\<lparr>tk_state := DataState, run_source := s, run_token := ?t\<rparr>))"
    by (intro emitted) (use s assms in auto)
  with s(1) False show ?thesis
    by (simp add: emitEndOfFile_def haveBufferedCharacterToken_def conf_do_def token_do_def makeEndOfFile_def)
qed

section \<open>Possible end tags\<close>

lemma LChar_round: "cc \<le> 0xFF \<Longrightarrow> (ucast (ucast cc :: LChar) :: UChar) = cc"
proof (rule unsigned_word_eqI)
  assume "cc \<le> 0xFF"
  then have "unat cc < 2 ^ 8" by (simp add: word_le_nat_alt)
  then show "unat (ucast (ucast cc :: LChar) :: UChar) = unat cc"
    by (simp add: unsigned_ucast_eq unsigned_take_bit_eq take_bit_nat_eq_self)
qed

lemma LChar_nonzero: "(cc :: UChar) \<le> 0xFF \<Longrightarrow> cc \<noteq> 0 \<Longrightarrow> (ucast cc :: LChar) \<noteq> 0"
  using LChar_round[of cc] by auto

lemma flush_at:
  assumes "at_char E cc m s0 c" "wf_token (run_token c)"
    "tok_type (run_token c) = Uninitialized \<or> tok_type (run_token c) = Character"
    "name_ok (map ucast (tk_bufferedEndTagName c))" "0 \<notin> set (tk_temporaryBuffer c)"
  obtains (chars) s where "flushBufferedEndTag c = Some (True, c\<lparr>run_source := s\<rparr>)" "tok_type (run_token c) = Character"
      "stream_inv s" "no_nul_reference (seg_toString s)" "chAmp \<notin> set (pushedChars s)" "kept s0 s"
  | (tag) s t where "flushBufferedEndTag c = Some (False, c\<lparr>run_source := s, run_token := t,
        tk_bufferedEndTagName := [], tk_appropriateEndTagName := [], tk_temporaryBuffer := []\<rparr>)"
      "advanced (run_source c) s" "stream_inv s" "no_nul_reference (seg_toString s)"
      "chAmp \<notin> set (pushedChars s)" "kept s0 s" "tok_baseOffset t \<le> numberOfCharactersConsumed s"
      "3 * length (seg_toString s) + 2 < m" "wf_token t" "tok_type t = EndTag"
proof -
  obtain s where s: "advance_source c = Some (c\<lparr>run_source := s\<rparr>)" "advanced (run_source c) s" "stream_inv s"
    "no_nul_reference (seg_toString s)" "chAmp \<notin> set (pushedChars s)" "kept s0 s"
    "tok_baseOffset (run_token c) \<le> numberOfCharactersConsumed s" "3 * length (seg_toString s) + 2 < m"
    using advance_source_at[OF assms(1)] by blast
  show thesis
  proof (cases "tok_type (run_token c) = Character")
    case True
    with s chars show thesis by (simp add: flushBufferedEndTag_def)
  next
    case False
    then obtain t where t: "beginEndTag_vector (tk_bufferedEndTagName c) (run_token c) = Some t" "wf_token t"
      "tok_baseOffset t = tok_baseOffset (run_token c)" "tok_type t = EndTag"
      using op_beginEndTag_vector[of "run_token c"] assms(2-4) by (auto simp: afterOp_def)
    then have "flushBufferedEndTag c = Some (False, c\<lparr>run_source := s, run_token := t,
        tk_bufferedEndTagName := [], tk_appropriateEndTagName := [], tk_temporaryBuffer := []\<rparr>)"
      using s(1) False assms(3) by (simp add: flushBufferedEndTag_def)
    with s(2-8) t tag show thesis by simp
  qed
qed

lemma pending_good:
  assumes "stream_inv s" "no_nul_reference (seg_toString s)" "chAmp \<notin> set (pushedChars s)" "kept s0 s"
    "wf_token (run_token c)" "tok_type (run_token c) = Character" "name_ok (map ucast (tk_bufferedEndTagName c))"
    "0 \<notin> set (tk_temporaryBuffer c)" "tk_state c \<in> {BeforeAttributeNameState, SelfClosingStartTagState, DataState}"
  shows "good E m s0 (Ret True (c\<lparr>run_source := s\<rparr>))"
  using assms by (auto simp: good_def ret_inv_def idle_inv_def next_call_def pushed_ok_def isReferenceState_def
      end_tag_pending_def)

lemma flush_advance_good:
  assumes "at_char E cc m s0 c" "wf_token (run_token c)"
    "tok_type (run_token c) = Uninitialized \<or> tok_type (run_token c) = Character"
    "name_ok (map ucast (tk_bufferedEndTagName c))" "0 \<notin> set (tk_temporaryBuffer c)"
    "st \<in> {BeforeAttributeNameState, SelfClosingStartTagState}"
  shows "good E m s0 (FLUSH_AND_ADVANCE_TO st c)"
proof -
  let ?c = "c\<lparr>tk_state := st\<rparr>"
  have env: "env_ok E" using assms(1) by (simp add: at_char_def)
  have st: "kind st = KTag" "\<not> isReferenceState st" "\<not> isEndTagNameState st" "st \<noteq> CharacterReferenceInAttributeValueState"
    using assms(6) by (auto simp: kind_def isReferenceState_def isEndTagNameState_def)
  have pre: "at_char E cc m s0 ?c" "wf_token (run_token ?c)"
    "tok_type (run_token ?c) = Uninitialized \<or> tok_type (run_token ?c) = Character"
    "name_ok (map ucast (tk_bufferedEndTagName ?c))" "0 \<notin> set (tk_temporaryBuffer ?c)" using assms by auto
  show ?thesis
  proof (cases rule: flush_at[OF pre])
    case (1 s)
    have "good E m s0 (Ret True (?c\<lparr>run_source := s\<rparr>))" by (rule pending_good) (use 1 assms in auto)
    with 1(1) show ?thesis by (simp add: FLUSH_AND_ADVANCE_TO_def)
  next
    case (2 s t)
    let ?d = "?c\<lparr>run_source := s, run_token := t,
        tk_bufferedEndTagName := [], tk_appropriateEndTagName := [], tk_temporaryBuffer := []\<rparr>"
    have ok: "token_ok st False ?d" "offsets_ok st t s" "pushed_ok E st s"
      using 2 st by (auto simp: token_ok_def kind_ok_def buffers_ok_def offsets_ok_def pushed_ok_def)
    have "good E m s0 (SWITCH_TO st ?d)"
      by (rule SWITCH_good) (use 2 env ok rank_bound[of st] in auto)
    moreover have "?d\<lparr>tk_state := st\<rparr> = ?d" by simp
    ultimately show ?thesis using 2(1) by (simp only: FLUSH_AND_ADVANCE_TO_def SWITCH_TO_def Let_def) simp
  qed
qed

lemma flush_emit_good:
  assumes "at_char E cc m s0 c" "wf_token (run_token c)"
    "tok_type (run_token c) = Uninitialized \<or> tok_type (run_token c) = Character"
    "name_ok (map ucast (tk_bufferedEndTagName c))" "0 \<notin> set (tk_temporaryBuffer c)"
  shows "good E m s0 (flushEmitAndResumeIn DataState c)"
proof -
  let ?c = "c\<lparr>tk_state := DataState\<rparr>"
  have pre: "at_char E cc m s0 ?c" "wf_token (run_token ?c)"
    "tok_type (run_token ?c) = Uninitialized \<or> tok_type (run_token ?c) = Character"
    "name_ok (map ucast (tk_bufferedEndTagName ?c))" "0 \<notin> set (tk_temporaryBuffer ?c)" using assms by auto
  show ?thesis
  proof (cases rule: flush_at[OF pre])
    case (1 s)
    have "good E m s0 (Ret True (?c\<lparr>run_source := s\<rparr>))" by (rule pending_good) (use 1 assms in auto)
    with 1(1) show ?thesis by (simp add: flushEmitAndResumeIn_def)
  next
    case (2 s t)
    have "good E m s0 (Ret True (?c\<lparr>run_source := s, run_token := t,
        tk_bufferedEndTagName := [], tk_appropriateEndTagName := [], tk_temporaryBuffer := []\<rparr>))"
      by (rule emitted) (use 2 in auto)
    with 2(1) show ?thesis by (simp add: flushEmitAndResumeIn_def)
  qed
qed

end
