(* ===== verification/Tokenizer_Safety.thy ===== *)
theory Tokenizer_Safety
  imports Tokenizer_Invariant
begin

text \<open>
  Every block of the tokenizer's switch keeps the invariant of \<open>Tokenizer_Invariant\<close> and makes
  progress (\<open>X_good\<close> for each state \<open>X\<close>), so a call of \<open>nextToken\<close> returns, fails no assertion
  and hands over well-formed tokens only.
\<close>

section \<open>Operations followed by the rest of a block\<close>

lemma op_buffer_good:
  assumes "wf_token (run_token c)" "tok_type (run_token c) = Uninitialized \<or> tok_type (run_token c) = Character"
    "ch \<noteq> 0"
    "\<And>t. wf_token t \<Longrightarrow> tok_baseOffset t = tok_baseOffset (run_token c) \<Longrightarrow> tok_type t = Character \<Longrightarrow>
       good E m s0 (k (c\<lparr>run_token := t\<rparr>))"
  shows "good E m s0 (bufferCharacter ch k c)"
  using buffer_good assms by blast

lemmas do_rules = 
  token_do_good[where f = "beginStartTag ch" for ch, OF op_beginStartTag]
  token_do_good[where f = "beginEndTag ch" for ch, OF op_beginEndTag]
  token_do_good[where f = "setSelfClosing", OF op_setSelfClosing]
  token_do_good[where f = "appendToAttributeName ch" for ch, OF op_appendToAttributeName]
  token_do_good[where f = "endAttributeName n" for n, OF op_endAttributeName]
  token_do_good[where f = "beginAttributeValue n" for n, OF op_beginAttributeValue]
  token_do_good[where f = "endAttributeValue n" for n, OF op_endAttributeValue]
  token_do_good[where f = "appendToAttributeValue ch" for ch, OF op_appendToAttributeValue]
  token_do_good[where f = "beginComment", OF op_beginComment]
  token_do_good[where f = "appendToComment ch" for ch, OF op_appendToComment]
  token_do_good[where f = "beginDOCTYPE", OF op_beginDOCTYPE]
  token_do_good[where f = "beginDOCTYPE_char ch" for ch, OF op_beginDOCTYPE_char]
  token_do_good[where f = "setForceQuirks", OF op_setForceQuirks]
  token_do_good[where f = "setPublicIdentifierToEmptyString", OF op_setPublic]
  token_do_good[where f = "setSystemIdentifierToEmptyString", OF op_setSystem]
  token_do_good[where f = "appendToPublicIdentifier ch" for ch, OF op_appendPublic]
  token_do_good[where f = "appendToSystemIdentifier ch" for ch, OF op_appendSystem]

lemmas tag_name_good = token_do_good[where f = "appendToName ch" for ch, OF op_appendToName_tag]
lemmas doctype_name_good = token_do_good[where f = "appendToName ch" for ch, OF op_appendToName_doctype]

lemma ascii_zero [simp]: "\<not> isASCIILower chGreater" "\<not> isASCIIUpper chGreater" "\<not> isASCIILower 0" "\<not> isASCIIUpper 0" "\<not> isTokenizerWhitespace 0"
  by (simp_all add: isASCIILower_def isASCIIUpper_def isTokenizerWhitespace_def)

lemmas state_defs = token_ok_def kind_def kind_ok_def buffers_ok_def isEndTagNameState_def isReferenceState_def

lemmas end_rules = advance_to_good reconsume_good emit_resume_good emit_reconsume_good emit_buffered_good emit_eof_good

definition block_good :: "TokenizerEnv \<Rightarrow> State \<Rightarrow> (UChar \<Rightarrow> block) \<Rightarrow> bool" where
  "block_good E st b \<longleftrightarrow> (\<forall>cc c. run_inv E cc c \<longrightarrow> tk_state c = st \<longrightarrow> good E (progress c) (run_source c) (b cc c))"

lemma block_goodI:
  assumes "env_ok E" "\<not> isReferenceState st"
    "\<And>cc m s0 c. at_char E cc m s0 c \<Longrightarrow> m = 3 * remaining c + rank st \<Longrightarrow> tk_state c = st \<Longrightarrow> token_ok st (cc = 0) c \<Longrightarrow>
       offsets_ok st (run_token c) (run_source c) \<Longrightarrow> good E m s0 (b cc c)"
  shows "block_good E st b"
  using assms at_char_enter[of E] by (auto simp: block_good_def run_inv_def progress_def)

lemma ascii_bounds:
  "isASCIILower cc \<Longrightarrow> cc \<le> 0xFF \<and> cc \<noteq> 0 \<and> \<not> isASCIIUpper cc"
  "isASCIIUpper cc \<Longrightarrow> cc \<le> 0xFF \<and> cc \<noteq> 0"
  "isTokenizerWhitespace cc \<Longrightarrow> cc \<le> 0xFF \<and> cc \<noteq> 0"
  by (auto simp: isASCIILower_def isASCIIUpper_def isTokenizerWhitespace_def word_le_nat_alt word_less_nat_alt)

lemma name_ok_LChar:
  "ch \<le> 0xFF \<Longrightarrow> ch \<noteq> 0 \<Longrightarrow> \<not> isASCIIUpper ch \<Longrightarrow> name_ok [ucast (ucast ch :: LChar)]"
  "ch \<le> 0xFF \<Longrightarrow> ch \<noteq> 0 \<Longrightarrow> \<not> isASCIIUpper ch \<Longrightarrow> name_ok cs \<Longrightarrow> name_ok (cs @ [ucast (ucast ch :: LChar)])"
  by (simp_all add: LChar_round name_ok_snoc) (simp add: name_ok_def)

lemma LChar_ascii [simp]:
  "isASCIILower cc \<Longrightarrow> (0 :: LChar) \<noteq> ucast cc" "isASCIIUpper cc \<Longrightarrow> (0 :: LChar) \<noteq> ucast cc"
  "isTokenizerWhitespace cc \<Longrightarrow> (0 :: LChar) \<noteq> ucast cc"
  "isASCIILower cc \<Longrightarrow> ucast cc \<noteq> (0 :: LChar)" "isASCIIUpper cc \<Longrightarrow> ucast cc \<noteq> (0 :: LChar)"
  "isTokenizerWhitespace cc \<Longrightarrow> ucast cc \<noteq> (0 :: LChar)"
  using ascii_bounds[of cc] LChar_nonzero[of cc] by auto

lemma end_tag_name_state:
  assumes "isEndTagNameState st"
  shows "kind st = KText" "\<not> isReferenceState st" "isEndTagBufferingState st" "st \<noteq> CharacterReferenceInAttributeValueState"
  using assms by (auto simp: isEndTagNameState_def kind_def isReferenceState_def isEndTagBufferingState_def)

lemma possible_name_good:
  assumes "at_char E cc m s0 c" "wf_token (run_token c)"
    "tok_type (run_token c) = Uninitialized \<or> tok_type (run_token c) = Character"
    "0 \<notin> set (tk_temporaryBuffer c)" "isEndTagBufferingState (tk_state c)" "isEndTagNameState st"
    "tk_bufferedEndTagName c = [] \<or> name_ok (map ucast (tk_bufferedEndTagName c))"
    "ch \<noteq> 0" "ch \<le> 0xFF" "\<not> isASCIIUpper ch"
  shows "good E m s0 (conf_do (addToPossibleEndTag (ucast ch)) (ADVANCE_TO st) c)"
proof -
  have "name_ok (map ucast (tk_bufferedEndTagName c @ [ucast ch :: LChar]))"
    using assms(7-10) name_ok_LChar by auto
  then have "token_ok st False (c\<lparr>tk_bufferedEndTagName := tk_bufferedEndTagName c @ [ucast ch]\<rparr>)"
    using assms end_tag_name_state[OF assms(6)] by (auto simp: token_ok_def kind_ok_def buffers_ok_def)
  then show ?thesis
    using assms advance_to_good[of E cc m s0 "c\<lparr>tk_bufferedEndTagName := tk_bufferedEndTagName c @ [ucast ch]\<rparr>" st]
      end_tag_name_state[OF assms(6)]
    by (simp add: conf_do_def addToPossibleEndTag_def)
qed

lemma give_up_good:
  assumes "at_char E cc m s0 c" "wf_token (run_token c)"
    "tok_type (run_token c) = Uninitialized \<or> tok_type (run_token c) = Character" "0 \<notin> set (tk_temporaryBuffer c)"
    "kind st = KText" "\<not> isReferenceState st" "\<not> isEndTagNameState st" "st \<noteq> CharacterReferenceInAttributeValueState"
    "3 * remaining c + rank st < m"
  shows "good E m s0 (giveUpEndTag st cc c)"
proof -
  have "good E m s0 (token_do (appendToCharacter_vector (tk_temporaryBuffer c))
       (\<lambda>c. RECONSUME_IN st cc (c\<lparr>tk_bufferedEndTagName := [], tk_temporaryBuffer := []\<rparr>)) (c\<lparr>run_token := t\<rparr>))"
    if t: "wf_token t" "tok_baseOffset t = tok_baseOffset (run_token c)" "tok_type t = Character" for t
    by (rule token_do_good[where f = "appendToCharacter_vector cs" for cs, OF op_buffer_vector])
      (use assms t in \<open>auto intro!: reconsume_good simp: token_ok_def kind_ok_def buffers_ok_def\<close>)
  then show ?thesis
    unfolding giveUpEndTag_def using assms by (intro op_buffer_good) auto
qed

lemma end_tag_name_block_good:
  assumes "env_ok E" "isEndTagNameState st" "kind txt = KText" "\<not> isReferenceState txt" "\<not> isEndTagNameState txt"
    "txt \<noteq> CharacterReferenceInAttributeValueState" "rank txt < rank st"
  shows "block_good E st (endTagName_block st txt)"
proof (rule block_goodI[OF assms(1)])
  show "\<not> isReferenceState st" by (rule end_tag_name_state(2)[OF assms(2)])
  fix cc m s0 c
  assume at: "at_char E cc m s0 c" "m = 3 * remaining c + rank st" "tk_state c = st" "token_ok st (cc = 0) c"
  have ok: "wf_token (run_token c)" "tok_type (run_token c) = Uninitialized \<or> tok_type (run_token c) = Character"
    "0 \<notin> set (tk_temporaryBuffer c)" "name_ok (map ucast (tk_bufferedEndTagName c))"
    using at(4) end_tag_name_state[OF assms(2)] assms(2) by (auto simp: token_ok_def kind_ok_def buffers_ok_def isEndTagNameState_def)
  let ?c = "c\<lparr>tk_temporaryBuffer := tk_temporaryBuffer c @ [ucast cc]\<rparr>"
  consider "isASCIIUpper cc" | "\<not> isASCIIUpper cc" "isASCIILower cc"
    | "\<not> isASCIIUpper cc" "\<not> isASCIILower cc" "isTokenizerWhitespace cc \<or> cc = chSlash \<or> cc = chGreater" "isAppropriateEndTag c"
    | "\<not> isASCIIUpper cc" "\<not> isASCIILower cc" "\<not> (isTokenizerWhitespace cc \<or> cc = chSlash \<or> cc = chGreater) \<or> \<not> isAppropriateEndTag c"
    by blast
  then show "good E m s0 (endTagName_block st txt cc c)"
  proof cases
    case 1
    then have "good E m s0 (with_lower cc (\<lambda>d. conf_do (addToPossibleEndTag (ucast d)) (ADVANCE_TO st)) ?c)"
      by (intro lower_good possible_name_good) (use at ok assms(2) end_tag_name_state[OF assms(2)] in auto)
    with 1 show ?thesis by (simp add: endTagName_block_def set_temporaryBuffer_def)
  next
    case 2
    then have "good E m s0 (conf_do (addToPossibleEndTag (ucast cc)) (ADVANCE_TO st) ?c)"
      by (intro possible_name_good) (use at ok assms(2) end_tag_name_state[OF assms(2)] ascii_bounds in auto)
    with 2 show ?thesis by (simp add: endTagName_block_def set_temporaryBuffer_def)
  next
    case 3
    then have "0 \<notin> set (tk_temporaryBuffer ?c)" using ok(3) by auto
    then have "good E m s0 (FLUSH_AND_ADVANCE_TO BeforeAttributeNameState ?c)"
      "good E m s0 (FLUSH_AND_ADVANCE_TO SelfClosingStartTagState ?c)" "good E m s0 (flushEmitAndResumeIn DataState ?c)"
      using at(1) ok by (auto intro!: flush_advance_good flush_emit_good simp del: set_append)
    with 3 show ?thesis by (auto simp: endTagName_block_def set_temporaryBuffer_def)
  next
    case 4
    then have "good E m s0 (giveUpEndTag txt cc c)"
      by (intro give_up_good) (use at ok assms in auto)
    with 4 show ?thesis by (auto simp: endTagName_block_def)
  qed
qed

lemma begin_attribute_good:
  assumes "at_char E cc m s0 c" "wf_token (run_token c)" "isTagType (tok_type (run_token c))" "ch \<noteq> 0" "\<not> isASCIIUpper ch"
    "tk_bufferedEndTagName c = []" "0 \<notin> set (tk_temporaryBuffer c)"
  shows "good E m s0 (begin_attribute ch c)"
proof -
  obtain t where t: "do { t1 \<leftarrow> addNewAttribute (run_token c); t2 \<leftarrow> beginAttributeName (offset c) t1; appendToAttributeName ch t2 } = Some t"
    "wf_token t" "tok_baseOffset t = tok_baseOffset (run_token c)" "isTagType (tok_type t)" "attribute_in_progress t"
    using op_newAttribute[OF assms(2-5), of "offset c"] by (auto simp: afterOp_def)
  have "good E m s0 (ADVANCE_TO AttributeNameState (c\<lparr>run_token := t\<rparr>))"
    by (rule advance_to_good) (use assms t in \<open>auto simp: state_defs\<close>)
  with t(1) show ?thesis by (auto simp: begin_attribute_def token_do_def split: Option.bind_splits option.splits)
qed

lemma append_comment_good:
  assumes "wf_token (run_token c)" "tok_type (run_token c) = Comment" "0 \<notin> set cs"
    "\<And>t. wf_token t \<Longrightarrow> tok_baseOffset t = tok_baseOffset (run_token c) \<Longrightarrow> tok_type t = Comment \<Longrightarrow>
       good E m s0 (k (c\<lparr>run_token := t\<rparr>))"
  shows "good E m s0 (append_comment cs k c)"
  using assms
proof (induction cs arbitrary: c)
  case Nil
  then show ?case using Nil(4)[of "run_token c"] by (simp add: append_comment_def)
next
  case (Cons ch cs)
  have "good E m s0 (append_comment cs k (c\<lparr>run_token := t\<rparr>))"
    if "wf_token t" "tok_baseOffset t = tok_baseOffset (run_token c)" "tok_type t = Comment" for t
    by (rule Cons.IH) (use that Cons.prems in auto)
  then have "good E m s0 (token_do (appendToComment ch) (append_comment cs k) c)"
    using Cons.prems by (intro do_rules) auto
  then show ?case by (simp add: append_comment_def)
qed

lemma bogus_doctype_good:
  assumes "at_char E cc m s0 c" "wf_token (run_token c)" "tok_type (run_token c) = DOCTYPE"
    "tk_bufferedEndTagName c = []" "0 \<notin> set (tk_temporaryBuffer c)"
  shows "good E m s0 (bogus_doctype c)"
  using assms unfolding bogus_doctype_def by (intro do_rules advance_to_good) (auto simp: state_defs)

lemmas block_rules = end_rules op_buffer_good do_rules lower_good begin_attribute_good append_comment_good bogus_doctype_good
  possible_name_good

lemmas block_defs = state_defs rank_def set_temporaryBuffer_def clear_appropriateEndTagName_def
  set_additionalAllowedCharacter_def lessThanSign_slash_def assert_noBufferedEndTag_def isEndTagBufferingState_def
  endTagOpen_block_def name_ok_LChar LChar_nonzero LChar_nonzero[THEN not_sym]

lemma Data_good: "env_ok E \<Longrightarrow> block_good E DataState DataState_step"
  by (rule block_goodI) (auto simp: block_defs DataState_step_def dest: ascii_bounds intro!: block_rules)

lemma RCDATA_good: "env_ok E \<Longrightarrow> block_good E RCDATAState RCDATAState_step"
  by (rule block_goodI) (auto simp: block_defs RCDATAState_step_def dest: ascii_bounds intro!: block_rules)

lemma RAWTEXT_good: "env_ok E \<Longrightarrow> block_good E RAWTEXTState RAWTEXTState_step"
  by (rule block_goodI) (auto simp: block_defs RAWTEXTState_step_def dest: ascii_bounds intro!: block_rules)

lemma ScriptData_good: "env_ok E \<Longrightarrow> block_good E ScriptDataState ScriptDataState_step"
  by (rule block_goodI) (auto simp: block_defs ScriptDataState_step_def dest: ascii_bounds intro!: block_rules)

lemma PLAINTEXT_good: "env_ok E \<Longrightarrow> block_good E PLAINTEXTState PLAINTEXTState_step"
  by (rule block_goodI) (auto simp: block_defs PLAINTEXTState_step_def dest: ascii_bounds intro!: block_rules)

lemma TagOpen_good: "env_ok E \<Longrightarrow> block_good E TagOpenState TagOpenState_step"
  by (rule block_goodI) (auto simp: block_defs TagOpenState_step_def dest: ascii_bounds intro!: block_rules)

lemma EndTagOpen_good: "env_ok E \<Longrightarrow> block_good E EndTagOpenState EndTagOpenState_step"
  by (rule block_goodI) (auto simp: block_defs EndTagOpenState_step_def dest: ascii_bounds intro!: block_rules)

lemma TagName_good: "env_ok E \<Longrightarrow> block_good E TagNameState TagNameState_step"
  by (rule block_goodI) (auto simp: block_defs TagNameState_step_def intro!: block_rules tag_name_good)

lemma ScriptDataEscapeStart_good: "env_ok E \<Longrightarrow> block_good E ScriptDataEscapeStartState ScriptDataEscapeStartState_step"
  by (rule block_goodI) (auto simp: block_defs ScriptDataEscapeStartState_step_def dest: ascii_bounds intro!: block_rules)

lemma ScriptDataEscapeStartDash_good: "env_ok E \<Longrightarrow> block_good E ScriptDataEscapeStartDashState ScriptDataEscapeStartDashState_step"
  by (rule block_goodI) (auto simp: block_defs ScriptDataEscapeStartDashState_step_def dest: ascii_bounds intro!: block_rules)

lemma ScriptDataEscaped_good: "env_ok E \<Longrightarrow> block_good E ScriptDataEscapedState ScriptDataEscapedState_step"
  by (rule block_goodI) (auto simp: block_defs ScriptDataEscapedState_step_def dest: ascii_bounds intro!: block_rules)

lemma ScriptDataEscapedDash_good: "env_ok E \<Longrightarrow> block_good E ScriptDataEscapedDashState ScriptDataEscapedDashState_step"
  by (rule block_goodI) (auto simp: block_defs ScriptDataEscapedDashState_step_def dest: ascii_bounds intro!: block_rules)

lemma ScriptDataEscapedDashDash_good: "env_ok E \<Longrightarrow> block_good E ScriptDataEscapedDashDashState ScriptDataEscapedDashDashState_step"
  by (rule block_goodI) (auto simp: block_defs ScriptDataEscapedDashDashState_step_def dest: ascii_bounds intro!: block_rules)

lemma ScriptDataDoubleEscaped_good: "env_ok E \<Longrightarrow> block_good E ScriptDataDoubleEscapedState ScriptDataDoubleEscapedState_step"
  by (rule block_goodI) (auto simp: block_defs ScriptDataDoubleEscapedState_step_def dest: ascii_bounds intro!: block_rules)

lemma ScriptDataDoubleEscapedDash_good: "env_ok E \<Longrightarrow> block_good E ScriptDataDoubleEscapedDashState ScriptDataDoubleEscapedDashState_step"
  by (rule block_goodI) (auto simp: block_defs ScriptDataDoubleEscapedDashState_step_def dest: ascii_bounds intro!: block_rules)

lemma ScriptDataDoubleEscapedDashDash_good: "env_ok E \<Longrightarrow> block_good E ScriptDataDoubleEscapedDashDashState ScriptDataDoubleEscapedDashDashState_step"
  by (rule block_goodI) (auto simp: block_defs ScriptDataDoubleEscapedDashDashState_step_def dest: ascii_bounds intro!: block_rules)

lemma ScriptDataDoubleEscapedLessThanSign_good: "env_ok E \<Longrightarrow> block_good E ScriptDataDoubleEscapedLessThanSignState ScriptDataDoubleEscapedLessThanSignState_step"
  by (rule block_goodI) (auto simp: block_defs ScriptDataDoubleEscapedLessThanSignState_step_def dest: ascii_bounds intro!: block_rules)

lemma BeforeAttributeName_good: "env_ok E \<Longrightarrow> block_good E BeforeAttributeNameState BeforeAttributeNameState_step"
  by (rule block_goodI) (auto simp: block_defs BeforeAttributeNameState_step_def dest: ascii_bounds intro!: block_rules)

lemma AttributeName_good: "env_ok E \<Longrightarrow> block_good E AttributeNameState AttributeNameState_step"
  by (rule block_goodI) (auto simp: block_defs AttributeNameState_step_def dest: ascii_bounds intro!: block_rules)

lemma AfterAttributeName_good: "env_ok E \<Longrightarrow> block_good E AfterAttributeNameState AfterAttributeNameState_step"
  by (rule block_goodI) (auto simp: block_defs AfterAttributeNameState_step_def dest: ascii_bounds intro!: block_rules)

lemma BeforeAttributeValue_good: "env_ok E \<Longrightarrow> block_good E BeforeAttributeValueState BeforeAttributeValueState_step"
  by (rule block_goodI) (auto simp: block_defs offsets_ok_def BeforeAttributeValueState_step_def dest: ascii_bounds intro!: block_rules)

lemma AttributeValueDoubleQuoted_good: "env_ok E \<Longrightarrow> block_good E AttributeValueDoubleQuotedState AttributeValueDoubleQuotedState_step"
  by (rule block_goodI) (auto simp: block_defs AttributeValueDoubleQuotedState_step_def dest: ascii_bounds intro!: block_rules)

lemma AttributeValueSingleQuoted_good: "env_ok E \<Longrightarrow> block_good E AttributeValueSingleQuotedState AttributeValueSingleQuotedState_step"
  by (rule block_goodI) (auto simp: block_defs AttributeValueSingleQuotedState_step_def dest: ascii_bounds intro!: block_rules)

lemma AttributeValueUnquoted_good: "env_ok E \<Longrightarrow> block_good E AttributeValueUnquotedState AttributeValueUnquotedState_step"
  by (rule block_goodI) (auto simp: block_defs AttributeValueUnquotedState_step_def dest: ascii_bounds intro!: block_rules)

lemma AfterAttributeValueQuoted_good: "env_ok E \<Longrightarrow> block_good E AfterAttributeValueQuotedState AfterAttributeValueQuotedState_step"
  by (rule block_goodI) (auto simp: block_defs AfterAttributeValueQuotedState_step_def dest: ascii_bounds intro!: block_rules)

lemma SelfClosingStartTag_good: "env_ok E \<Longrightarrow> block_good E SelfClosingStartTagState SelfClosingStartTagState_step"
  by (rule block_goodI) (auto simp: block_defs SelfClosingStartTagState_step_def dest: ascii_bounds intro!: block_rules)

lemma BogusComment_good: "env_ok E \<Longrightarrow> block_good E BogusCommentState BogusCommentState_step"
  by (rule block_goodI) (auto simp: block_defs BogusCommentState_step_def dest: ascii_bounds intro!: block_rules)

lemma ContinueBogusComment_good: "env_ok E \<Longrightarrow> block_good E ContinueBogusCommentState ContinueBogusCommentState_step"
  by (rule block_goodI) (auto simp: block_defs ContinueBogusCommentState_step_def dest: ascii_bounds intro!: block_rules)

lemma CommentStart_good: "env_ok E \<Longrightarrow> block_good E CommentStartState CommentStartState_step"
  by (rule block_goodI) (auto simp: block_defs CommentStartState_step_def dest: ascii_bounds intro!: block_rules)

lemma CommentStartDash_good: "env_ok E \<Longrightarrow> block_good E CommentStartDashState CommentStartDashState_step"
  by (rule block_goodI) (auto simp: block_defs CommentStartDashState_step_def dest: ascii_bounds intro!: block_rules)

lemma Comment_good: "env_ok E \<Longrightarrow> block_good E CommentState CommentState_step"
  by (rule block_goodI) (auto simp: block_defs CommentState_step_def dest: ascii_bounds intro!: block_rules)

lemma CommentEndDash_good: "env_ok E \<Longrightarrow> block_good E CommentEndDashState CommentEndDashState_step"
  by (rule block_goodI) (auto simp: block_defs CommentEndDashState_step_def dest: ascii_bounds intro!: block_rules)

lemma CommentEnd_good: "env_ok E \<Longrightarrow> block_good E CommentEndState CommentEndState_step"
  by (rule block_goodI) (auto simp: block_defs CommentEndState_step_def dest: ascii_bounds intro!: block_rules)

lemma CommentEndBang_good: "env_ok E \<Longrightarrow> block_good E CommentEndBangState CommentEndBangState_step"
  by (rule block_goodI) (auto simp: block_defs CommentEndBangState_step_def dest: ascii_bounds intro!: block_rules)

lemma DOCTYPE_good: "env_ok E \<Longrightarrow> block_good E DOCTYPEState DOCTYPEState_step"
  by (rule block_goodI) (auto simp: block_defs DOCTYPEState_step_def dest: ascii_bounds intro!: block_rules)

lemma BeforeDOCTYPEName_good: "env_ok E \<Longrightarrow> block_good E BeforeDOCTYPENameState BeforeDOCTYPENameState_step"
  by (rule block_goodI) (auto simp: block_defs BeforeDOCTYPENameState_step_def dest: ascii_bounds intro!: block_rules)

lemma DOCTYPEName_good: "env_ok E \<Longrightarrow> block_good E DOCTYPENameState DOCTYPENameState_step"
  by (rule block_goodI) (auto simp: block_defs DOCTYPENameState_step_def intro!: block_rules doctype_name_good)

lemma AfterDOCTYPEPublicKeyword_good: "env_ok E \<Longrightarrow> block_good E AfterDOCTYPEPublicKeywordState AfterDOCTYPEPublicKeywordState_step"
  by (rule block_goodI) (auto simp: block_defs AfterDOCTYPEPublicKeywordState_step_def dest: ascii_bounds intro!: block_rules)

lemma BeforeDOCTYPEPublicIdentifier_good: "env_ok E \<Longrightarrow> block_good E BeforeDOCTYPEPublicIdentifierState BeforeDOCTYPEPublicIdentifierState_step"
  by (rule block_goodI) (auto simp: block_defs BeforeDOCTYPEPublicIdentifierState_step_def dest: ascii_bounds intro!: block_rules)

lemma DOCTYPEPublicIdentifierDoubleQuoted_good: "env_ok E \<Longrightarrow> block_good E DOCTYPEPublicIdentifierDoubleQuotedState DOCTYPEPublicIdentifierDoubleQuotedState_step"
  by (rule block_goodI) (auto simp: block_defs DOCTYPEPublicIdentifierDoubleQuotedState_step_def dest: ascii_bounds intro!: block_rules)

lemma DOCTYPEPublicIdentifierSingleQuoted_good: "env_ok E \<Longrightarrow> block_good E DOCTYPEPublicIdentifierSingleQuotedState DOCTYPEPublicIdentifierSingleQuotedState_step"
  by (rule block_goodI) (auto simp: block_defs DOCTYPEPublicIdentifierSingleQuotedState_step_def dest: ascii_bounds intro!: block_rules)

lemma AfterDOCTYPEPublicIdentifier_good: "env_ok E \<Longrightarrow> block_good E AfterDOCTYPEPublicIdentifierState AfterDOCTYPEPublicIdentifierState_step"
  by (rule block_goodI) (auto simp: block_defs AfterDOCTYPEPublicIdentifierState_step_def dest: ascii_bounds intro!: block_rules)

lemma BetweenDOCTYPEPublicAndSystemIdentifiers_good: "env_ok E \<Longrightarrow> block_good E BetweenDOCTYPEPublicAndSystemIdentifiersState BetweenDOCTYPEPublicAndSystemIdentifiersState_step"
  by (rule block_goodI) (auto simp: block_defs BetweenDOCTYPEPublicAndSystemIdentifiersState_step_def dest: ascii_bounds intro!: block_rules)

lemma AfterDOCTYPESystemKeyword_good: "env_ok E \<Longrightarrow> block_good E AfterDOCTYPESystemKeywordState AfterDOCTYPESystemKeywordState_step"
  by (rule block_goodI) (auto simp: block_defs AfterDOCTYPESystemKeywordState_step_def dest: ascii_bounds intro!: block_rules)

lemma BeforeDOCTYPESystemIdentifier_good: "env_ok E \<Longrightarrow> block_good E BeforeDOCTYPESystemIdentifierState BeforeDOCTYPESystemIdentifierState_step"
  by (rule block_goodI) (auto simp: block_defs BeforeDOCTYPESystemIdentifierState_step_def dest: ascii_bounds intro!: block_rules)

lemma DOCTYPESystemIdentifierDoubleQuoted_good: "env_ok E \<Longrightarrow> block_good E DOCTYPESystemIdentifierDoubleQuotedState DOCTYPESystemIdentifierDoubleQuotedState_step"
  by (rule block_goodI) (auto simp: block_defs DOCTYPESystemIdentifierDoubleQuotedState_step_def dest: ascii_bounds intro!: block_rules)

lemma DOCTYPESystemIdentifierSingleQuoted_good: "env_ok E \<Longrightarrow> block_good E DOCTYPESystemIdentifierSingleQuotedState DOCTYPESystemIdentifierSingleQuotedState_step"
  by (rule block_goodI) (auto simp: block_defs DOCTYPESystemIdentifierSingleQuotedState_step_def dest: ascii_bounds intro!: block_rules)

lemma AfterDOCTYPESystemIdentifier_good: "env_ok E \<Longrightarrow> block_good E AfterDOCTYPESystemIdentifierState AfterDOCTYPESystemIdentifierState_step"
  by (rule block_goodI) (auto simp: block_defs AfterDOCTYPESystemIdentifierState_step_def dest: ascii_bounds intro!: block_rules)

lemma BogusDOCTYPE_good: "env_ok E \<Longrightarrow> block_good E BogusDOCTYPEState BogusDOCTYPEState_step"
  by (rule block_goodI) (auto simp: block_defs BogusDOCTYPEState_step_def dest: ascii_bounds intro!: block_rules)

lemma CDATASection_good: "env_ok E \<Longrightarrow> block_good E CDATASectionState CDATASectionState_step"
  by (rule block_goodI) (auto simp: block_defs CDATASectionState_step_def dest: ascii_bounds intro!: block_rules)

lemma CDATASectionRightSquareBracket_good: "env_ok E \<Longrightarrow> block_good E CDATASectionRightSquareBracketState CDATASectionRightSquareBracketState_step"
  by (rule block_goodI) (auto simp: block_defs CDATASectionRightSquareBracketState_step_def dest: ascii_bounds intro!: block_rules)

lemma CDATASectionDoubleRightSquareBracket_good: "env_ok E \<Longrightarrow> block_good E CDATASectionDoubleRightSquareBracketState CDATASectionDoubleRightSquareBracketState_step"
  by (rule block_goodI) (auto simp: block_defs CDATASectionDoubleRightSquareBracketState_step_def dest: ascii_bounds intro!: block_rules)

lemma RCDATALessThanSign_good: "env_ok E \<Longrightarrow> block_good E RCDATALessThanSignState RCDATALessThanSignState_step"
  by (rule block_goodI) (auto simp: block_defs RCDATALessThanSignState_step_def dest: ascii_bounds intro!: block_rules)

lemma RCDATAEndTagOpen_good: "env_ok E \<Longrightarrow> block_good E RCDATAEndTagOpenState RCDATAEndTagOpenState_step"
  by (rule block_goodI) (auto simp: block_defs RCDATAEndTagOpenState_step_def dest: ascii_bounds intro!: block_rules)

lemma RCDATAEndTagName_good: "env_ok E \<Longrightarrow> block_good E RCDATAEndTagNameState RCDATAEndTagNameState_step"
  unfolding RCDATAEndTagNameState_step_def by (rule end_tag_name_block_good) (simp_all add: state_defs rank_def)

lemma RAWTEXTLessThanSign_good: "env_ok E \<Longrightarrow> block_good E RAWTEXTLessThanSignState RAWTEXTLessThanSignState_step"
  by (rule block_goodI) (auto simp: block_defs RAWTEXTLessThanSignState_step_def dest: ascii_bounds intro!: block_rules)

lemma RAWTEXTEndTagOpen_good: "env_ok E \<Longrightarrow> block_good E RAWTEXTEndTagOpenState RAWTEXTEndTagOpenState_step"
  by (rule block_goodI) (auto simp: block_defs RAWTEXTEndTagOpenState_step_def dest: ascii_bounds intro!: block_rules)

lemma RAWTEXTEndTagName_good: "env_ok E \<Longrightarrow> block_good E RAWTEXTEndTagNameState RAWTEXTEndTagNameState_step"
  unfolding RAWTEXTEndTagNameState_step_def by (rule end_tag_name_block_good) (simp_all add: state_defs rank_def)

lemma ScriptDataLessThanSign_good: "env_ok E \<Longrightarrow> block_good E ScriptDataLessThanSignState ScriptDataLessThanSignState_step"
  by (rule block_goodI) (auto simp: block_defs ScriptDataLessThanSignState_step_def dest: ascii_bounds intro!: block_rules)

lemma ScriptDataEndTagOpen_good: "env_ok E \<Longrightarrow> block_good E ScriptDataEndTagOpenState ScriptDataEndTagOpenState_step"
  by (rule block_goodI) (auto simp: block_defs ScriptDataEndTagOpenState_step_def dest: ascii_bounds intro!: block_rules)

lemma ScriptDataEndTagName_good: "env_ok E \<Longrightarrow> block_good E ScriptDataEndTagNameState ScriptDataEndTagNameState_step"
  unfolding ScriptDataEndTagNameState_step_def by (rule end_tag_name_block_good) (simp_all add: state_defs rank_def)

lemma ScriptDataEscapedLessThanSign_good: "env_ok E \<Longrightarrow> block_good E ScriptDataEscapedLessThanSignState ScriptDataEscapedLessThanSignState_step"
  by (rule block_goodI) (auto simp: block_defs ScriptDataEscapedLessThanSignState_step_def dest: ascii_bounds intro!: block_rules)

lemma ScriptDataEscapedEndTagOpen_good: "env_ok E \<Longrightarrow> block_good E ScriptDataEscapedEndTagOpenState ScriptDataEscapedEndTagOpenState_step"
  by (rule block_goodI) (auto simp: block_defs ScriptDataEscapedEndTagOpenState_step_def dest: ascii_bounds intro!: block_rules)

lemma ScriptDataEscapedEndTagName_good: "env_ok E \<Longrightarrow> block_good E ScriptDataEscapedEndTagNameState ScriptDataEscapedEndTagNameState_step"
  unfolding ScriptDataEscapedEndTagNameState_step_def by (rule end_tag_name_block_good) (simp_all add: state_defs rank_def)

lemma ScriptDataDoubleEscapeStart_good: "env_ok E \<Longrightarrow> block_good E ScriptDataDoubleEscapeStartState ScriptDataDoubleEscapeStartState_step"
  by (rule block_goodI) (auto simp: block_defs ScriptDataDoubleEscapeStartState_step_def dest: ascii_bounds intro!: block_rules)

lemma ScriptDataDoubleEscapeEnd_good: "env_ok E \<Longrightarrow> block_good E ScriptDataDoubleEscapeEndState ScriptDataDoubleEscapeEndState_step"
  by (rule block_goodI) (auto simp: block_defs ScriptDataDoubleEscapeEndState_step_def dest: ascii_bounds intro!: block_rules)

section \<open>Character references\<close>

lemma append_UChar32_nonzero:
  assumes "0 < v" "v \<le> 0x10FFFF"
  shows "0 \<notin> set (append_UChar32 v)"
proof -
  define n where "n = unat v"
  have v: "v = of_nat n" and n: "n \<le> 0x10FFFF" "0 < n"
    using assms by (auto simp: n_def word_le_nat_alt word_less_nat_alt)
  have ne: "x \<noteq> (0 :: UChar)" if "0 < unat x" for x using that by auto
  have "unat (ucast v :: UChar) = n" if "v \<le> 0xFFFF"
    using that by (simp add: n_def word_le_nat_alt unsigned_ucast_eq take_bit_nat_eq_self)
  with n surrogates[OF n(1)] ne[of "ucast v"] ne[of "U16_LEAD v"] ne[of "U16_TRAIL v"] show ?thesis
    by (auto simp: append_UChar32_def U_IS_BMP_def v[symmetric])
qed

lemma digit_run_suffix: "digit_run d b v cs = (v', rest) \<Longrightarrow> suffix rest cs"
  by (induction cs arbitrary: v) (auto simp: suffix_Cons split: if_splits)

lemma number_end_suffix: "number_end (digit_run d b v cs) = Reference dec rest \<Longrightarrow> suffix rest cs"
  using digit_run_suffix[of d b v cs]
  by (auto simp: number_end_def suffix_Cons suffix_ConsD split: prod.splits list.splits if_splits dest: suffix_ConsD)

lemma numeric_suffix: "numeric_spec cs = Reference dec rest \<Longrightarrow> suffix rest cs"
  by (auto simp: numeric_spec_def suffix_Cons split: list.splits if_splits simp del: digit_run.simps dest!: number_end_suffix)

text \<open>What a recognized reference gives: non-NUL characters, and progress in the text.\<close>

lemma charref_Reference:
  assumes "charref_spec T add cs = Reference dec rest" "names_ok T" "no_nul_reference cs"
  shows "0 \<notin> set dec" "suffix rest cs" "length rest < length cs"
proof -
  obtain c r where cs: "cs = c # r" using assms(1) by (cases cs) (auto simp: charref_spec_def)
  have "0 \<notin> set dec \<and> suffix rest cs \<and> length rest < length cs"
  proof (cases "c = chHash")
    case True
    then have num: "numeric_spec r = Reference dec rest" using assms(1) cs by (auto simp: charref_spec_def split: if_splits)
    have "0 \<notin> set dec" using assms(3) num cs by (auto simp: no_nul_reference_def list_all_iff suffix_Cons dest!: bspec[of _ _ r])
    with numeric_suffix[OF num] cs show ?thesis using suffix_length_le[of rest r] by (auto simp: suffix_Cons)
  next
    case False
    then have "named_spec T add cs = Reference dec rest" using assms(1) cs by (auto simp: charref_spec_def split: if_splits)
    then obtain i where i: "longest_match T cs = Some i" "dec = decodeEntry (tab_entries T ! i)"
      "rest = drop (ent_length (tab_entries T ! i)) cs"
      by (auto simp: named_spec_def Let_def split: if_splits option.splits)
    have "i < table_size T" using longest_match_facts[OF i(1)] by simp
    then have "ent_length (tab_entries T ! i) \<ge> 2" "0 < ent_firstValue (tab_entries T ! i)"
      "ent_firstValue (tab_entries T ! i) \<le> 0x10FFFF" "ent_secondValue (tab_entries T ! i) \<le> 0x10FFFF"
      using assms(2) by (auto simp: names_ok_def list_all_length)
    then show ?thesis
      using i append_UChar32_nonzero cs by (auto simp: decodeEntry_def suffix_drop word_neq_0_conv)
  qed
  then show "0 \<notin> set dec" "suffix rest cs" "length rest < length cs" by auto
qed

lemma value_all_good:
  assumes "wf_token (run_token c)" "isTagType (tok_type (run_token c))" "value_in_progress (run_token c)" "0 \<notin> set us"
    "\<And>t. wf_token t \<Longrightarrow> tok_baseOffset t = tok_baseOffset (run_token c) \<Longrightarrow> isTagType (tok_type t) \<Longrightarrow>
       value_in_progress t \<Longrightarrow> good E m s0 (k (c\<lparr>run_token := t\<rparr>))"
  shows "good E m s0 (value_all us k c)"
  using assms
proof (induction us arbitrary: c)
  case Nil
  then show ?case using Nil(5)[of "run_token c"] by simp
next
  case (Cons u us)
  have "good E m s0 (value_all us k (c\<lparr>run_token := t\<rparr>))"
    if "wf_token t" "tok_baseOffset t = tok_baseOffset (run_token c)" "isTagType (tok_type t)" "value_in_progress t" for t
    by (rule Cons.IH) (use that Cons.prems in auto)
  then have "good E m s0 (token_do (appendToAttributeValue u) (value_all us k) c)"
    using Cons.prems by (intro do_rules) auto
  then show ?case by simp
qed

lemma buffer_all_good:
  assumes "wf_token (run_token c)" "tok_type (run_token c) = Uninitialized \<or> tok_type (run_token c) = Character" "0 \<notin> set us"
    "\<And>t. wf_token t \<Longrightarrow> tok_baseOffset t = tok_baseOffset (run_token c) \<Longrightarrow>
       tok_type t = Uninitialized \<or> tok_type t = Character \<Longrightarrow> good E m s0 (k (c\<lparr>run_token := t\<rparr>))"
  shows "good E m s0 (buffer_all us k c)"
  using assms
proof (induction us arbitrary: c)
  case Nil
  then show ?case using Nil(4)[of "run_token c"] by simp
next
  case (Cons u us)
  have "good E m s0 (buffer_all us k (c\<lparr>run_token := t\<rparr>))"
    if "wf_token t" "tok_baseOffset t = tok_baseOffset (run_token c)" "tok_type t = Character" for t
    by (rule Cons.IH) (use that Cons.prems in auto)
  then have "good E m s0 (bufferCharacter u (buffer_all us k) c)"
    using Cons.prems by (intro op_buffer_good) auto
  then show ?case by simp
qed

text \<open>The three results of the reference parser inside a block of a reference state.\<close>

lemma reference_cases:
  assumes "env_ok E" "run_inv E cc c" "isReferenceState (tk_state c)" "add \<in> {0, chQuot, chApos, chGreater}"
  obtains (more_input) s where "consumeHTMLEntity (env_table E) add (run_source c) = Some (False, True, [], s)"
      "good E (progress c) (run_source c) (return_buffered (c\<lparr>run_source := s\<rparr>))"
  | (nothing) s where "consumeHTMLEntity (env_table E) add (run_source c) = Some (False, False, [], s)"
      "stream_inv s" "no_nul_reference (seg_toString s)" "chAmp \<notin> set (pushedChars s)"
      "tok_baseOffset (run_token c) \<le> numberOfCharactersConsumed s" "kept (run_source c) s"
      "length (seg_toString s) \<le> remaining c"
  | (decoded) dec s where "consumeHTMLEntity (env_table E) add (run_source c) = Some (True, False, dec, s)" "0 \<notin> set dec"
      "stream_inv s" "no_nul_reference (seg_toString s)" "chAmp \<notin> set (pushedChars s)"
      "tok_baseOffset (run_token c) \<le> numberOfCharactersConsumed s" "kept (run_source c) s"
      "length (seg_toString s) \<le> remaining c"
proof -
  let ?s = "run_source c" let ?T = "env_table E"
  have i: "readable ?s" "no_nul_reference (seg_toString ?s)" "resumable ?T ?s" "offsets_ok (tk_state c) (run_token c) ?s"
    "token_ok (tk_state c) (cc = 0) c"
    using assms(2,3) by (auto simp: run_inv_def pushed_ok_def)
  have T: "table_ok ?T" "names_ok ?T" using assms(1) by (simp_all add: env_ok_def)
  have ok: "token_ok (tk_state c) False c"
    using i(5) assms(3) by (auto simp: token_ok_def isReferenceState_def)
  note spec = consumeHTMLEntity_spec[OF T i(1,3) assms(4)]
  show thesis
  proof (cases "charref_spec ?T add (seg_toString ?s)")
    case NeedMore
    then obtain s where s: "consumeHTMLEntity ?T add ?s = Some (False, True, [], s)" "stream_inv s"
      "seg_toString s = seg_toString ?s" "kept ?s s" "resumable ?T s"
      using spec by (auto simp: ref_ok_def)
    have "good E (progress c) ?s (return_buffered (c\<lparr>run_source := s\<rparr>))"
      by (rule return_buffered_good) (use s i ok assms(3) in \<open>auto simp: pushed_ok_def offsets_ok_def kept_def\<close>)
    with s(1) more_input show thesis by blast
  next
    case NoReference
    then obtain s where s: "consumeHTMLEntity ?T add ?s = Some (False, False, [], s)" "readable s"
      "seg_toString s = seg_toString ?s" "kept ?s s" "chAmp \<notin> set (pushedChars s)"
      using spec by (auto simp: ref_ok_def)
    from s(1) show thesis by (rule nothing) (use s i in \<open>auto simp: readable_def offsets_ok_def kept_def\<close>)
  next
    case (Reference dec rest)
    then obtain s where s: "consumeHTMLEntity ?T add ?s = Some (True, False, dec, s)" "stream_inv s"
      "seg_toString s = rest" "kept ?s s" "chAmp \<notin> set (pushedChars s)"
      using spec by (auto simp: ref_ok_def flagged_def)
    note r = charref_Reference[OF Reference T(2) i(2)]
    obtain zs where "seg_toString ?s = zs @ rest" using r(2) by (auto simp: suffix_def)
    then have "no_nul_reference rest" using no_nul_drop[OF i(2), of "length zs"] by simp
    with s(1) r(1) show thesis by (intro decoded[of dec s]) (use s i r in \<open>auto simp: offsets_ok_def kept_def\<close>)
  qed
qed

lemma text_reference_good:
  assumes "env_ok E" "kind st = KText" "isReferenceState st" "st' \<in> {DataState, RCDATAState}" "rank st = 1"
  shows "block_good E st (\<lambda>cc. processEntity E (SWITCH_TO st'))"
  unfolding block_good_def
proof (intro allI impI)
  fix cc c
  assume inv: "run_inv E cc c" and st: "tk_state c = st"
  have ok: "wf_token (run_token c)" "tok_type (run_token c) = Uninitialized \<or> tok_type (run_token c) = Character"
    "tk_bufferedEndTagName c = []" "0 \<notin> set (tk_temporaryBuffer c)"
    using inv st assms(2,3) by (auto simp: run_inv_def state_defs split: if_splits)
  have st': "kind st' = KText" "rank st' = 0" "\<not> isReferenceState st'" "\<not> isEndTagNameState st'"
    "st' \<noteq> CharacterReferenceInAttributeValueState"
    using assms(4) by (auto simp: state_defs rank_def)
  have go: "good E (progress c) (run_source c) (SWITCH_TO st' (c\<lparr>run_source := s, run_token := t\<rparr>))"
    if "stream_inv s" "no_nul_reference (seg_toString s)" "chAmp \<notin> set (pushedChars s)"
      "tok_baseOffset (run_token c) \<le> numberOfCharactersConsumed s" "kept (run_source c) s"
      "length (seg_toString s) \<le> remaining c" "wf_token t" "tok_type t = Uninitialized \<or> tok_type t = Character"
      "tok_baseOffset t = tok_baseOffset (run_token c)" for s t
    by (rule switch_good) (use that ok st' assms st in \<open>auto simp: token_ok_def kind_ok_def buffers_ok_def progress_def\<close>)
  have ref: "isReferenceState (tk_state c)" using assms(3) st by simp
  show "good E (progress c) (run_source c) (processEntity E (SWITCH_TO st') c)"
  proof (cases rule: reference_cases[OF assms(1) inv ref, of 0, simplified])
    case (1 s)
    then show ?thesis by (simp add: processEntity_def)
  next
    case (2 s)
    have "good E (progress c) (run_source c) (bufferCharacter chAmp (SWITCH_TO st') (c\<lparr>run_source := s\<rparr>))"
      by (rule op_buffer_good) (use 2 ok go in auto)
    with 2(1) show ?thesis by (simp add: processEntity_def)
  next
    case (3 dec s)
    have "good E (progress c) (run_source c) (buffer_all dec (SWITCH_TO st') (c\<lparr>run_source := s\<rparr>))"
      by (rule buffer_all_good) (use 3 ok go in auto)
    with 3(1) show ?thesis by (simp add: processEntity_def)
  qed
qed

lemma CharacterReferenceInData_good:
  "env_ok E \<Longrightarrow> block_good E CharacterReferenceInDataState (CharacterReferenceInDataState_step E)"
  using text_reference_good[of E CharacterReferenceInDataState DataState]
  by (simp add: state_defs rank_def CharacterReferenceInDataState_step_def[abs_def])

lemma CharacterReferenceInRCDATA_good:
  "env_ok E \<Longrightarrow> block_good E CharacterReferenceInRCDATAState (CharacterReferenceInRCDATAState_step E)"
  using text_reference_good[of E CharacterReferenceInRCDATAState RCDATAState]
  by (simp add: state_defs rank_def CharacterReferenceInRCDATAState_step_def[abs_def])

lemma CharacterReferenceInAttributeValue_good:
  assumes "env_ok E"
  shows "block_good E CharacterReferenceInAttributeValueState (CharacterReferenceInAttributeValueState_step E)"
  unfolding block_good_def
proof (intro allI impI)
  fix cc c
  assume inv: "run_inv E cc c" and st: "tk_state c = CharacterReferenceInAttributeValueState"
  let ?add = "tk_additionalAllowedCharacter c"
  have ok: "wf_token (run_token c)" "isTagType (tok_type (run_token c))" "value_in_progress (run_token c)"
    "tk_bufferedEndTagName c = []" "0 \<notin> set (tk_temporaryBuffer c)" "?add \<in> {chQuot, chApos, chGreater}"
    using inv st by (auto simp: run_inv_def state_defs)
  have go: "good E (progress c) (run_source c) (return_to_attribute_value (c\<lparr>run_source := s, run_token := t\<rparr>))"
    if "stream_inv s" "no_nul_reference (seg_toString s)" "chAmp \<notin> set (pushedChars s)"
      "tok_baseOffset (run_token c) \<le> numberOfCharactersConsumed s" "kept (run_source c) s"
      "length (seg_toString s) \<le> remaining c" "wf_token t" "isTagType (tok_type t)" "value_in_progress t"
      "tok_baseOffset t = tok_baseOffset (run_token c)" for s t
    unfolding return_to_attribute_value_def
    using that ok assms st by (auto intro!: switch_good simp: state_defs progress_def rank_def)
  have ref: "isReferenceState (tk_state c)" using st by (simp add: isReferenceState_def)
  have add: "?add \<in> {0, chQuot, chApos, chGreater}" using ok(6) by auto
  show "good E (progress c) (run_source c) (CharacterReferenceInAttributeValueState_step E cc c)"
  proof (cases rule: reference_cases[OF assms inv ref add])
    case (1 s)
    then show ?thesis by (simp add: CharacterReferenceInAttributeValueState_step_def)
  next
    case (2 s)
    have "good E (progress c) (run_source c) (token_do (appendToAttributeValue chAmp) return_to_attribute_value (c\<lparr>run_source := s\<rparr>))"
      by (intro do_rules) (use 2 ok go in auto)
    with 2(1) show ?thesis by (simp add: CharacterReferenceInAttributeValueState_step_def)
  next
    case (3 dec s)
    have "good E (progress c) (run_source c) (value_all dec return_to_attribute_value (c\<lparr>run_source := s\<rparr>))"
      by (rule value_all_good) (use 3 ok go in auto)
    with 3(1) show ?thesis by (simp add: CharacterReferenceInAttributeValueState_step_def)
  qed
qed

section \<open>Looking ahead\<close>

lemma look_ahead_good:
  assumes at: "at_char E cc m s0 c" and n: "2 \<le> length str" and look: "look = lookAheadInline f str cse"
    and st: "tk_state c = st" "token_ok st False c" "offsets_ok st (run_token c) (run_source c)" "\<not> isReferenceState st"
    and matched: "\<And>s. flagged s \<Longrightarrow> seg_toString s = seg_toString (run_source c) \<Longrightarrow> kept s0 s \<Longrightarrow> pushedChars s = [] \<Longrightarrow>
      no_nul_reference (seg_toString s) \<Longrightarrow> numberOfCharactersConsumed s = offset c \<Longrightarrow>
      string_startsWith f (seg_toString s) str cse \<Longrightarrow> good E m s0 (k1 (c\<lparr>run_source := s\<rparr>))"
    and otherwise: "\<And>s. at_char E cc m s0 (c\<lparr>run_source := s\<rparr>) \<Longrightarrow> seg_toString s = seg_toString (run_source c) \<Longrightarrow> good E m s0 (k2 (c\<lparr>run_source := s\<rparr>))"
  shows "good E m s0 (look_ahead look k1 k2 c)"
proof -
  let ?s = "run_source c"
  have inv: "stream_inv ?s" using at by (simp add: at_char_def readable_def)
  obtain s where s: "lookAheadInline f str cse ?s = Some (lookAheadSpec f str cse (seg_toString ?s), s)"
    "stream_inv s" "seg_toString s = seg_toString ?s" "seg_closed s = seg_closed ?s"
    "numberOfCharactersConsumed s = numberOfCharactersConsumed ?s"
    "length str \<le> length (seg_toString ?s) \<longrightarrow> \<not> escaped s \<and> \<not> seg_empty s"
    "length str > length (seg_toString ?s) \<longrightarrow> s = ?s"
    using lookAheadInline_inv[OF inv n, of f cse] by auto
  have k: "kept s0 s" using at s by (simp add: at_char_def kept_def)
  have nn: "no_nul_reference (seg_toString s)" using at s by (simp add: at_char_def)
  show ?thesis
  proof (cases "length str > length (seg_toString ?s)")
    case True
    have "good E m s0 (return_buffered c)"
      by (rule return_buffered_good) (use at st inv in \<open>auto simp: at_char_def pushed_ok_def\<close>)
    with True s show ?thesis by (simp add: look_ahead_def look lookAheadSpec_def)
  next
    case False
    with s have r: "\<not> escaped s" "readable s" by (auto simp: readable_def)
    then have p: "pushedChars s = []" using pushedChars_Nil s(2) by (simp add: stream_inv_def)
    have at': "at_char E cc m s0 (c\<lparr>run_source := s\<rparr>)" using at r p s k by (auto simp: at_char_def)
    have "good E m s0 (k1 (c\<lparr>run_source := s\<rparr>))" if "string_startsWith f (seg_toString ?s) str cse"
      by (rule matched) (use that s k nn p readable_flagged[OF r(2)] in auto)
    with otherwise[OF at' s(3)] False s(1) show ?thesis by (simp add: look_ahead_def look lookAheadSpec_def)
  qed
qed

lemma list_all2_take_Cons:
  "list_all2 P (take (length (e # es)) cs) (e # es) \<Longrightarrow> \<exists>c r. cs = c # r \<and> P c e \<and> list_all2 P (take (length es) r) es"
  by (cases cs) auto

text \<open>Consuming what the look ahead has matched does not fail an assertion.\<close>

lemma advance_matched:
  assumes "flagged s" "list_all2 (\<lambda>a b. f (ucast a) = f (ucast b)) (take (length str) (seg_toString s)) str"
  shows "\<exists>s'. advanceStringAndASSERTIgnoringCase f str s = Some s' \<and> flagged s' \<and>
    seg_toString s' = drop (length str) (seg_toString s) \<and> kept s s' \<and> set (pushedChars s') \<subseteq> set (pushedChars s)"
  using assms
proof (induction str arbitrary: s)
  case Nil
  then show ?case by simp
next
  case (Cons e str)
  obtain ch r where ch: "seg_toString s = ch # r" "f (ucast ch) = f (ucast e)"
    "list_all2 (\<lambda>a b. f (ucast a) = f (ucast b)) (take (length str) r) str"
    using list_all2_take_Cons[OF Cons.prems(2)] by auto
  obtain s1 where s1: "advanceAndASSERT (seg_currentChar s) s = Some s1" "seg_currentChar s = ch" "flagged s1"
    "seg_toString s1 = r" "kept s s1" "pushedChars s1 = tl (pushedChars s)"
    using flagged_advance[OF Cons.prems(1) ch(1)] by auto
  have "set (pushedChars s1) \<subseteq> set (pushedChars s)" using s1(6) by (cases "pushedChars s") auto
  moreover have "advanceAndASSERTIgnoringCase f e s = Some s1"
    using s1(1,2) ch(2) by (auto simp: advanceAndASSERT_def advanceAndASSERTIgnoringCase_def)
  ultimately show ?case using Cons.IH[OF s1(3)] ch(1,3) s1(4) kept_trans[OF s1(5)] by fastforce
qed

lemma advance_exact:
  assumes "flagged s" "take (length str) (seg_toString s) = str"
  shows "\<exists>s'. advanceStringAndASSERT str s = Some s' \<and> flagged s' \<and>
    seg_toString s' = drop (length str) (seg_toString s) \<and> kept s s' \<and> set (pushedChars s') \<subseteq> set (pushedChars s)"
  using assms
proof (induction str arbitrary: s)
  case Nil
  then show ?case by simp
next
  case (Cons e str)
  obtain r where ch: "seg_toString s = e # r" "take (length str) r = str"
    using Cons.prems(2) by (cases "seg_toString s") auto
  obtain s1 where s1: "advanceAndASSERT (seg_currentChar s) s = Some s1" "seg_currentChar s = e" "flagged s1"
    "seg_toString s1 = r" "kept s s1" "pushedChars s1 = tl (pushedChars s)"
    using flagged_advance[OF Cons.prems(1) ch(1)] by auto
  have "set (pushedChars s1) \<subseteq> set (pushedChars s)" using s1(6) by (cases "pushedChars s") auto
  with Cons.IH[OF s1(3)] ch s1 kept_trans[OF s1(5)] show ?case by fastforce
qed

lemma matched_switch_good:
  assumes "at_char E cc m s0 c" "flagged s" "seg_toString s = seg_toString (run_source c)" "kept s0 s" "pushedChars s = []"
    "no_nul_reference (seg_toString s)" "numberOfCharactersConsumed s = offset c"
    "flagged s'" "seg_toString s' = drop n (seg_toString s)" "kept s s'"
    "set (pushedChars s') \<subseteq> set (pushedChars s)" "0 < n"
    "tok_baseOffset t = tok_baseOffset (run_token c)"
    "token_ok st False (c\<lparr>run_token := t\<rparr>)" "kind st \<noteq> KAttribute" "\<not> isReferenceState st"
  shows "good E m s0 (SWITCH_TO st (c\<lparr>run_source := s', run_token := t\<rparr>))"
proof -
  have "readable (run_source c)" "3 * remaining c \<le> m" using assms(1) by (auto simp: at_char_def)
  then have "length (seg_toString s') < remaining c"
    using assms(3,9,12) readable_nonempty[of "run_source c"] by (simp add: diff_less)
  then have "3 * length (seg_toString s') + rank st < m"
    using rank_bound[of st] \<open>3 * remaining c \<le> m\<close> by linarith
  moreover have "no_nul_reference (seg_toString s')" using no_nul_drop[OF assms(6)] assms(9) by simp
  moreover have "numberOfCharactersConsumed s \<le> numberOfCharactersConsumed s'"
    using assms(9,10) by (auto simp: kept_def)
  ultimately show ?thesis
    by (intro switch_good) (use assms kept_trans[OF assms(4,10)] in \<open>auto simp: at_char_def flagged_def token_ok_def\<close>)
qed

lemma startsWith_exact: "string_startsWith f cs str True \<Longrightarrow> take (length str) cs = str"
  by (auto simp: string_startsWith_def split: if_splits)

lemma startsWith_fold: "string_startsWith f cs str False \<Longrightarrow>
   list_all2 (\<lambda>a b. f (ucast a) = f (ucast b)) (take (length str) cs) str"
  by (auto simp: string_startsWith_def split: if_splits)

lemma keyword_good:
  assumes "at_char E cc m s0 c" "2 \<le> length str"
    "tk_state c = st" "token_ok st False c" "offsets_ok st (run_token c) (run_source c)" "\<not> isReferenceState st"
    "token_ok st' False c" "kind st' \<noteq> KAttribute" "\<not> isReferenceState st'"
    "\<And>s. at_char E cc m s0 (c\<lparr>run_source := s\<rparr>) \<Longrightarrow> seg_toString s = seg_toString (run_source c) \<Longrightarrow> good E m s0 (k (c\<lparr>run_source := s\<rparr>))"
  shows "good E m s0 (look_ahead (lookAheadIgnoringCase f str)
     (source_do (advanceStringAndASSERTIgnoringCase f str) (SWITCH_TO st')) k c)"
proof (rule look_ahead_good[OF assms(1,2) refl assms(3-6)])
  fix s
  assume s: "flagged s" "seg_toString s = seg_toString (run_source c)" "kept s0 s" "pushedChars s = []"
    "no_nul_reference (seg_toString s)" "numberOfCharactersConsumed s = offset c" "string_startsWith f (seg_toString s) str False"
  obtain s' where s': "advanceStringAndASSERTIgnoringCase f str s = Some s'" "flagged s'"
    "seg_toString s' = drop (length str) (seg_toString s)" "kept s s'" "set (pushedChars s') \<subseteq> set (pushedChars s)"
    using advance_matched[OF s(1) startsWith_fold[OF s(7)]] by auto
  have "good E m s0 (SWITCH_TO st' (c\<lparr>run_source := s', run_token := run_token c\<rparr>))"
    by (rule matched_switch_good[OF assms(1) s(1-6) s'(2-5)]) (use assms in \<open>auto simp: token_ok_def\<close>)
  then show "good E m s0 (source_do (advanceStringAndASSERTIgnoringCase f str) (SWITCH_TO st') (c\<lparr>run_source := s\<rparr>))"
    using s'(1) by (simp add: source_do_def conf_do_def)
qed (use assms(10) in auto)

lemma keyword_exact_good:
  assumes "at_char E cc m s0 c" "2 \<le> length str"
    "tk_state c = st" "token_ok st False c" "offsets_ok st (run_token c) (run_source c)" "\<not> isReferenceState st"
    "token_ok st' False c" "kind st' \<noteq> KAttribute" "\<not> isReferenceState st'"
    "\<And>s. at_char E cc m s0 (c\<lparr>run_source := s\<rparr>) \<Longrightarrow> seg_toString s = seg_toString (run_source c) \<Longrightarrow> good E m s0 (k (c\<lparr>run_source := s\<rparr>))"
  shows "good E m s0 (look_ahead (lookAhead f str)
     (source_do (advanceStringAndASSERT str) (SWITCH_TO st')) k c)"
proof (rule look_ahead_good[OF assms(1,2) refl assms(3-6)])
  fix s
  assume s: "flagged s" "seg_toString s = seg_toString (run_source c)" "kept s0 s" "pushedChars s = []"
    "no_nul_reference (seg_toString s)" "numberOfCharactersConsumed s = offset c" "string_startsWith f (seg_toString s) str True"
  obtain s' where s': "advanceStringAndASSERT str s = Some s'" "flagged s'"
    "seg_toString s' = drop (length str) (seg_toString s)" "kept s s'" "set (pushedChars s') \<subseteq> set (pushedChars s)"
    using advance_exact[OF s(1) startsWith_exact[OF s(7)]] by auto
  have "good E m s0 (SWITCH_TO st' (c\<lparr>run_source := s', run_token := run_token c\<rparr>))"
    by (rule matched_switch_good[OF assms(1) s(1-6) s'(2-5)]) (use assms in \<open>auto simp: token_ok_def\<close>)
  then show "good E m s0 (source_do (advanceStringAndASSERT str) (SWITCH_TO st') (c\<lparr>run_source := s\<rparr>))"
    using s'(1) by (simp add: source_do_def conf_do_def)
qed (use assms(10) in auto)

lemma comment_start_good:
  assumes "at_char E cc m s0 c" "tk_state c = MarkupDeclarationOpenState" "token_ok MarkupDeclarationOpenState False c"
    "offsets_ok MarkupDeclarationOpenState (run_token c) (run_source c)"
    "\<And>s. at_char E cc m s0 (c\<lparr>run_source := s\<rparr>) \<Longrightarrow> seg_toString s = seg_toString (run_source c) \<Longrightarrow> good E m s0 (k (c\<lparr>run_source := s\<rparr>))"
  shows "good E m s0 (look_ahead (lookAhead f (lit ''--'')) (source_do (advanceAndASSERT chDash)
     (source_do (advanceAndASSERT chDash) (token_do beginComment (SWITCH_TO CommentStartState)))) k c)"
proof (rule look_ahead_good[OF assms(1) _ refl assms(2-4)])
  show "2 \<le> length (lit ''--'')" by (simp add: lit_def)
  show "\<not> isReferenceState MarkupDeclarationOpenState" by (simp add: isReferenceState_def)
  fix s
  assume s: "flagged s" "seg_toString s = seg_toString (run_source c)" "kept s0 s" "pushedChars s = []"
    "no_nul_reference (seg_toString s)" "numberOfCharactersConsumed s = offset c" "string_startsWith f (seg_toString s) (lit ''--'') True"
  obtain s' where s': "advanceStringAndASSERT (lit ''--'') s = Some s'" "flagged s'"
    "seg_toString s' = drop (length (lit ''--'')) (seg_toString s)" "kept s s'" "set (pushedChars s') \<subseteq> set (pushedChars s)"
    using advance_exact[OF s(1) startsWith_exact[OF s(7)]] by auto
  have tok: "wf_token (run_token c)" "tok_type (run_token c) = Uninitialized"
    "tk_bufferedEndTagName c = []" "0 \<notin> set (tk_temporaryBuffer c)"
    using assms(3) by (auto simp: state_defs)
  have "good E m s0 (token_do beginComment (SWITCH_TO CommentStartState) (c\<lparr>run_source := s'\<rparr>))"
    by (intro do_rules; simp add: tok)
      (rule matched_switch_good[OF assms(1) s(1-6) s'(2-5)], use tok in \<open>auto simp: state_defs lit_def\<close>)
  then show "good E m s0 (source_do (advanceAndASSERT chDash) (source_do (advanceAndASSERT chDash)
     (token_do beginComment (SWITCH_TO CommentStartState))) (c\<lparr>run_source := s\<rparr>))"
    using s'(1) by (auto simp: source_do_def conf_do_def lit_def split: Option.bind_splits)
qed (use assms(5) in auto)

lemma MarkupDeclarationOpen_good:
  "env_ok E \<Longrightarrow> block_good E MarkupDeclarationOpenState (MarkupDeclarationOpenState_step E)"
proof (rule block_goodI)
  fix cc m s0 c
  assume a: "at_char E cc m s0 c" "m = 3 * remaining c + rank MarkupDeclarationOpenState" "tk_state c = MarkupDeclarationOpenState"
    "token_ok MarkupDeclarationOpenState (cc = 0) c" "offsets_ok MarkupDeclarationOpenState (run_token c) (run_source c)"
  have tok: "wf_token (run_token c)" "tok_type (run_token c) = Uninitialized"
    "tk_bufferedEndTagName c = []" "0 \<notin> set (tk_temporaryBuffer c)" "token_ok MarkupDeclarationOpenState False c"
    using a(4) by (auto simp: state_defs)
  have bogus: "good E m s0 (RECONSUME_IN BogusCommentState cc d)"
    if "at_char E cc m s0 d" "remaining d = remaining c" "token_ok BogusCommentState False d" for d
    by (rule reconsume_good) (use a(2) that token_ok_eof in \<open>auto simp: rank_def kind_def isReferenceState_def\<close>)
  have st: "token_ok BogusCommentState False c" "token_ok DOCTYPEState False c" "token_ok CDATASectionState False c"
    using tok by (auto simp: state_defs)
  have bogus': "good E m s0 (RECONSUME_IN BogusCommentState cc (c\<lparr>run_source := s\<rparr>))"
    if "at_char E cc m s0 (c\<lparr>run_source := s\<rparr>)" "seg_toString s = seg_toString (run_source c)" for s
    by (rule bogus) (use that st in auto)
  note keyword = keyword_good[where k = "RECONSUME_IN BogusCommentState cc", OF a(1) _ a(3) tok(5) a(5) _ st(2) _ _ bogus']
    and exact = keyword_exact_good[where k = "RECONSUME_IN BogusCommentState cc", OF a(1) _ a(3) tok(5) a(5) _ st(3) _ _ bogus']
    and comment = comment_start_good[where k = "RECONSUME_IN BogusCommentState cc", OF a(1,3) tok(5) a(5) bogus']
  have len: "2 \<le> length (lit ''doctype'')" "2 \<le> length (lit ''[CDATA['')" by (simp_all add: lit_def)
  have k: "kind DOCTYPEState \<noteq> KAttribute" "kind CDATASectionState \<noteq> KAttribute" "\<not> isReferenceState DOCTYPEState"
    "\<not> isReferenceState CDATASectionState" "\<not> isReferenceState MarkupDeclarationOpenState"
    by (simp_all add: kind_def isReferenceState_def)
  show "good E m s0 (MarkupDeclarationOpenState_step E cc c)"
    unfolding MarkupDeclarationOpenState_step_def Let_def
    using comment keyword[OF len(1) k(5,1,3)] exact[OF len(2) k(5,2,4)] bogus[OF a(1) refl st(1)] by auto
qed (simp_all add: isReferenceState_def)

lemma AfterDOCTYPEName_good: "env_ok E \<Longrightarrow> block_good E AfterDOCTYPENameState (AfterDOCTYPENameState_step E)"
proof (rule block_goodI)
  fix cc m s0 c
  assume a: "at_char E cc m s0 c" "tk_state c = AfterDOCTYPENameState"
    "token_ok AfterDOCTYPENameState (cc = 0) c" "offsets_ok AfterDOCTYPENameState (run_token c) (run_source c)"
  have tok: "wf_token (run_token c)" "tok_type (run_token c) = DOCTYPE"
    "tk_bufferedEndTagName c = []" "0 \<notin> set (tk_temporaryBuffer c)" "token_ok AfterDOCTYPENameState False c"
    using a(3) by (auto simp: state_defs)
  have st: "token_ok AfterDOCTYPEPublicKeywordState False c" "token_ok AfterDOCTYPESystemKeywordState False c"
    using tok by (auto simp: state_defs)
  have bogus: "good E m s0 (bogus_doctype (c\<lparr>run_source := s\<rparr>))" if "at_char E cc m s0 (c\<lparr>run_source := s\<rparr>)" for s
    by (rule bogus_doctype_good[OF that]) (use tok in auto)
  show "good E m s0 (AfterDOCTYPENameState_step E cc c)"
    unfolding AfterDOCTYPENameState_step_def Let_def using a(1) tok
    by (auto intro!: bogus block_rules
        keyword_good[OF a(1) _ a(2) tok(5) a(4) _ st(1)] keyword_good[OF a(1) _ a(2) tok(5) a(4) _ st(2)]
        simp: lit_def kind_def isReferenceState_def)
qed (simp_all add: isReferenceState_def)

section \<open>The loop of jumps\<close>

lemmas all_blocks_good =
  Data_good CharacterReferenceInData_good RCDATA_good CharacterReferenceInRCDATA_good RAWTEXT_good
  ScriptData_good PLAINTEXT_good TagOpen_good EndTagOpen_good TagName_good RCDATALessThanSign_good
  RCDATAEndTagOpen_good RCDATAEndTagName_good RAWTEXTLessThanSign_good RAWTEXTEndTagOpen_good
  RAWTEXTEndTagName_good ScriptDataLessThanSign_good ScriptDataEndTagOpen_good ScriptDataEndTagName_good
  ScriptDataEscapeStart_good ScriptDataEscapeStartDash_good ScriptDataEscaped_good ScriptDataEscapedDash_good
  ScriptDataEscapedDashDash_good ScriptDataEscapedLessThanSign_good ScriptDataEscapedEndTagOpen_good
  ScriptDataEscapedEndTagName_good ScriptDataDoubleEscapeStart_good ScriptDataDoubleEscaped_good
  ScriptDataDoubleEscapedDash_good ScriptDataDoubleEscapedDashDash_good
  ScriptDataDoubleEscapedLessThanSign_good ScriptDataDoubleEscapeEnd_good BeforeAttributeName_good
  AttributeName_good AfterAttributeName_good BeforeAttributeValue_good AttributeValueDoubleQuoted_good
  AttributeValueSingleQuoted_good AttributeValueUnquoted_good CharacterReferenceInAttributeValue_good
  AfterAttributeValueQuoted_good SelfClosingStartTag_good BogusComment_good ContinueBogusComment_good
  MarkupDeclarationOpen_good CommentStart_good CommentStartDash_good Comment_good CommentEndDash_good
  CommentEnd_good CommentEndBang_good DOCTYPE_good BeforeDOCTYPEName_good DOCTYPEName_good
  AfterDOCTYPEName_good AfterDOCTYPEPublicKeyword_good BeforeDOCTYPEPublicIdentifier_good
  DOCTYPEPublicIdentifierDoubleQuoted_good DOCTYPEPublicIdentifierSingleQuoted_good
  AfterDOCTYPEPublicIdentifier_good BetweenDOCTYPEPublicAndSystemIdentifiers_good
  AfterDOCTYPESystemKeyword_good BeforeDOCTYPESystemIdentifier_good DOCTYPESystemIdentifierDoubleQuoted_good
  DOCTYPESystemIdentifierSingleQuoted_good AfterDOCTYPESystemIdentifier_good BogusDOCTYPE_good
  CDATASection_good CDATASectionRightSquareBracket_good CDATASectionDoubleRightSquareBracket_good

lemma state_block_good:
  assumes "env_ok E" "run_inv E cc c"
  shows "good E (progress c) (run_source c) (state_block E cc c)"
  using all_blocks_good[OF assms(1)] assms(2)
  by (cases "tk_state c") (simp_all only: state_block_def State.case block_good_def simp_thms)

text \<open>From a configuration in the invariant the jumps end, with no assertion failing.\<close>

lemma run_states_returns:
  assumes "env_ok E" "run_inv E cc c"
  shows "\<exists>b c'. run_states E cc c = Some (b, c') \<and> ret_inv E b c' \<and> kept (run_source c) (run_source c')"
  using assms(2)
proof (induction "progress c" arbitrary: cc c rule: less_induct)
  case less
  note g = state_block_good[OF assms(1) less.prems]
  show ?case
  proof (cases "state_block E cc c")
    case (Goto cc1 c1)
    with g have "run_inv E cc1 c1" "progress c1 < progress c" "kept (run_source c) (run_source c1)" by (auto simp: good_def)
    with less.hyps[of c1 cc1] kept_trans Goto show ?thesis by (subst run_states.simps) auto
  next
    case (Ret b c')
    with g show ?thesis by (subst run_states.simps) (auto simp: good_def)
  next
    case Crash
    with g show ?thesis by (simp add: good_def)
  qed
qed

lemma enter_switch_returns:
  assumes "env_ok E" "stream_inv (run_source c)" "no_nul_reference (seg_toString (run_source c))"
    "pushed_ok E (tk_state c) (run_source c)" "offsets_ok (tk_state c) (run_token c) (run_source c)"
    "token_ok (tk_state c) False c"
  shows "\<exists>b c'. enter_switch E c = Some (b, c') \<and> ret_inv E b c' \<and> kept (run_source c) (run_source c')"
proof (cases "seg_empty (run_source c)")
  case True
  with return_buffered_good[OF assms(2-6) kept_refl] show ?thesis
    by (simp add: enter_switch_def good_def return_buffered_def)
next
  case False
  then have g: "good E (Suc (progress c)) (run_source c) (peek_source c)"
    by (intro peek_good) (use assms in \<open>auto simp: readable_def\<close>)
  show ?thesis
  proof (cases "peek_source c")
    case (Goto cc1 c1)
    with g have "run_inv E cc1 c1" "kept (run_source c) (run_source c1)" by (auto simp: good_def)
    with run_states_returns[OF assms(1), of cc1 c1] Goto False kept_trans show ?thesis
      by (auto simp: enter_switch_def)
  qed (use g False in \<open>auto simp: enter_switch_def good_def\<close>)
qed

lemma nextToken_returns:
  assumes "env_ok E" "idle_inv E c" "offsets_ok (tk_state c) (run_token c) (run_source c)"
    "tk_token c = None \<or> tk_token c = Some addr \<or> tok_type (run_token c) = Uninitialized"
  shows "\<exists>b c'. nextToken E addr c = Some (b, c') \<and> ret_inv E b c' \<and> kept (run_source c) (run_source c')"
proof (cases "token_ok (tk_state c) False c")
  case True
  let ?c = "c\<lparr>tk_token := Some addr\<rparr>"
  have "\<exists>b c'. enter_switch E ?c = Some (b, c') \<and> ret_inv E b c' \<and> kept (run_source ?c) (run_source c')"
    by (rule enter_switch_returns) (use assms True in \<open>auto simp: idle_inv_def\<close>)
  moreover have "\<not> (tk_bufferedEndTagName c \<noteq> [] \<and> \<not> isEndTagBufferingState (tk_state c))"
    using True end_tag_name_state(3)[of "tk_state c"] by (auto simp: token_ok_def buffers_ok_def split: if_splits)
  ultimately show ?thesis using assms(4) by (auto simp: nextToken_def)
next
  case False
  then have p: "end_tag_pending c" using assms(2) by (simp add: idle_inv_def)
  let ?c = "c\<lparr>tk_token := Some addr\<rparr>"
  obtain t where t: "beginEndTag_vector (tk_bufferedEndTagName c) (run_token c) = Some t" "wf_token t"
    "tok_baseOffset t = tok_baseOffset (run_token c)" "tok_type t = EndTag"
    using op_beginEndTag_vector[of "run_token c" "tk_bufferedEndTagName c"] p by (auto simp: end_tag_pending_def afterOp_def)
  let ?d = "?c\<lparr>run_token := t, tk_bufferedEndTagName := [], tk_appropriateEndTagName := [], tk_temporaryBuffer := []\<rparr>"
  have start: "startBufferedEndTag ?c = Some ?d" using t(1) by (simp add: startBufferedEndTag_def)
  have nb: "tk_bufferedEndTagName c \<noteq> []" "\<not> isEndTagBufferingState (tk_state c)" "\<not> isReferenceState (tk_state c)"
    using p by (auto simp: end_tag_pending_def name_ok_def isEndTagBufferingState_def isReferenceState_def)
  then have idle: "stream_inv (run_source c)" "no_nul_reference (seg_toString (run_source c))" "chAmp \<notin> set (pushedChars (run_source c))"
    using assms(2) by (auto simp: idle_inv_def pushed_ok_def)
  show ?thesis
  proof (cases "tk_state c = DataState")
    case True
    have "good E 0 (run_source c) (Ret True ?d)" by (rule emitted) (use True idle t in auto)
    with True start nb assms(4) show ?thesis by (auto simp: nextToken_def good_def)
  next
    case False
    then have "tk_state c = BeforeAttributeNameState \<or> tk_state c = SelfClosingStartTagState"
      using p by (simp add: end_tag_pending_def)
    then have "token_ok (tk_state ?d) False ?d" using t by (auto simp: state_defs)
    then have "\<exists>b c'. enter_switch E ?d = Some (b, c') \<and> ret_inv E b c' \<and> kept (run_source ?d) (run_source c')"
      by (intro enter_switch_returns) (use assms idle nb t in \<open>auto simp: pushed_ok_def offsets_ok_def\<close>)
    with False start nb assms(4) show ?thesis by (auto simp: nextToken_def)
  qed
qed

end
