(* ===== verification/Tokenizer_Session.thy ===== *)
theory Tokenizer_Session
  imports Tokenizer_Safety
begin

text \<open>
  The tokenizer in the hands of a client: starting one, what \<open>nextToken\<close> leaves alone, and the
  sequences of calls, appended input and state switches of a parsing session
  (\<open>HTMLDocumentParser::pumpTokenizer\<close> and \<open>HTMLInputStream\<close> drive it so). The safety theorem of
  \<open>nextToken\<close>, the invariant of sessions, and a state in which a session hangs.
\<close>

section \<open>Starting a tokenizer\<close>

definition start_conf :: "HTMLParserOptions \<Rightarrow> SegmentedString \<Rightarrow> Conf" where
  "start_conf options s = HTMLTokenizer.extend (newHTMLTokenizer options) \<lparr>run_source = s, run_token = newHTMLToken\<rparr>"

lemma start_conf_simps [simp]:
  "tk_state (start_conf opt s) = DataState" "tk_token (start_conf opt s) = None" "run_source (start_conf opt s) = s"
  "run_token (start_conf opt s) = newHTMLToken" "tk_temporaryBuffer (start_conf opt s) = []"
  "tk_bufferedEndTagName (start_conf opt s) = []" "tk_options (start_conf opt s) = opt"
  "tk_inputStreamPreprocessor (start_conf opt s) = pre_reset False" "tk_shouldAllowCDATA (start_conf opt s) = False"
  "tk_forceNullCharacterReplacement (start_conf opt s) = False" "tk_appropriateEndTagName (start_conf opt s) = []"
  by (simp_all add: start_conf_def newHTMLTokenizer_def tk_reset_def HTMLTokenizer.defs)

lemma newHTMLToken_clear [simp]:
  "wf_token newHTMLToken" "tok_type newHTMLToken = Uninitialized" "tok_baseOffset newHTMLToken = 0" "tok_data newHTMLToken = []"
  by (simp_all add: newHTMLToken_def tok_clear_def wf_token_def isAll8BitData_def)

lemma start_idle:
  assumes "makeSegmentedString str = Some s" "no_nul_reference (characters str)"
  shows "idle_inv E (start_conf opt s) \<and> offsets_ok DataState newHTMLToken s \<and> tk_token (start_conf opt s) = None"
proof -
  have s: "stream_inv s" "seg_toString s = characters str" "\<not> escaped s" "numberOfCharactersConsumed s = 0"
    using makeSegmentedString_inv[of str] assms(1) by auto
  then have "pushedChars s = []" using pushedChars_Nil by (simp add: stream_inv_def)
  with s assms show ?thesis
    by (simp add: idle_inv_def pushed_ok_def state_defs offsets_ok_def)
qed

section \<open>What no block touches\<close>

definition frame :: "Conf \<Rightarrow> Conf \<Rightarrow> bool" where
  "frame c c' \<longleftrightarrow> tk_token c' = tk_token c \<and> tk_options c' = tk_options c \<and>
     tk_shouldAllowCDATA c' = tk_shouldAllowCDATA c \<and>
     tk_forceNullCharacterReplacement c' = tk_forceNullCharacterReplacement c"

definition framed :: "Conf \<Rightarrow> outcome \<Rightarrow> bool" where
  "framed c oc \<longleftrightarrow> (case oc of Goto cc c' \<Rightarrow> frame c c' | Ret b c' \<Rightarrow> frame c c' | Crash \<Rightarrow> True)"

lemma frame_refl [simp]: "frame c c"
  by (simp add: frame_def)

lemma frame_update [simp]:
  "frame c (d\<lparr>tk_state := st\<rparr>) = frame c d" "frame c (d\<lparr>tk_temporaryBuffer := tmp\<rparr>) = frame c d"
  "frame c (d\<lparr>tk_bufferedEndTagName := buf\<rparr>) = frame c d" "frame c (d\<lparr>tk_appropriateEndTagName := n\<rparr>) = frame c d"
  "frame c (d\<lparr>tk_additionalAllowedCharacter := a\<rparr>) = frame c d" "frame c (d\<lparr>run_token := t\<rparr>) = frame c d"
  "frame c (d\<lparr>run_source := s\<rparr>) = frame c d" "frame c (d\<lparr>tk_inputStreamPreprocessor := p\<rparr>) = frame c d"
  by (simp_all add: frame_def)

lemma framed_simps [simp]: "framed c (Goto cc d) = frame c d" "framed c (Ret b d) = frame c d" "framed c Crash"
  by (simp_all add: framed_def)

lemma framed_read [simp]: "frame c d \<Longrightarrow> framed c (after_read d r)"
  by (auto simp: after_read_def return_buffered_def Let_def split: option.splits)

lemma framed_ends [simp]:
  "frame c d \<Longrightarrow> framed c (ADVANCE_TO st d)" "frame c d \<Longrightarrow> framed c (peek_source d)"
  "frame c d \<Longrightarrow> framed c (SWITCH_TO st d)" "frame c d \<Longrightarrow> framed c (RECONSUME_IN st cc d)"
  "frame c d \<Longrightarrow> framed c (return_buffered d)"
  by (simp_all add: ADVANCE_TO_def peek_source_def SWITCH_TO_def RECONSUME_IN_def return_buffered_def Let_def)

lemma framed_do:
  "frame c d \<Longrightarrow> (\<And>t. framed c (k (d\<lparr>run_token := t\<rparr>))) \<Longrightarrow> framed c (token_do f k d)"
  "frame c d \<Longrightarrow> (\<And>t. framed c (k (d\<lparr>run_token := t\<rparr>))) \<Longrightarrow> framed c (bufferCharacter ch k d)"
  by (auto simp: token_do_def bufferCharacter_def split: option.splits)

lemma framed_conf_do: "(\<And>d'. f d = Some d' \<Longrightarrow> framed c (k d')) \<Longrightarrow> framed c (conf_do f k d)"
  by (auto simp: conf_do_def split: option.splits)

lemma advance_source_form: "advance_source d = Some d' \<Longrightarrow> \<exists>s. d' = d\<lparr>run_source := s\<rparr>"
  by (auto simp: advance_source_def split: Option.bind_splits)

lemma save_form: "saveEndTagNameIfNeeded d = Some d' \<Longrightarrow> \<exists>n. d' = d\<lparr>tk_appropriateEndTagName := n\<rparr>"
  by (auto simp: saveEndTagNameIfNeeded_def split: Option.bind_splits if_splits
      intro: exI[of _ "tk_appropriateEndTagName d"])

lemma frame_flush: "frame c d \<Longrightarrow> flushBufferedEndTag d = Some (b, d') \<Longrightarrow> frame c d'"
  by (auto simp: flushBufferedEndTag_def dest!: advance_source_form split: Option.bind_splits if_splits)

lemma framed_emit [simp]:
  "frame c d \<Longrightarrow> framed c (emitAndResumeIn st d)" "frame c d \<Longrightarrow> framed c (emitAndReconsumeIn st d)"
  "frame c d \<Longrightarrow> framed c (emitEndOfFile d)"
  by (auto simp: emitAndResumeIn_def emitAndReconsumeIn_def emitEndOfFile_def
      intro!: framed_conf_do framed_do dest!: save_form advance_source_form split: Option.bind_splits)

lemma framed_flush [simp]:
  assumes "frame c d"
  shows "framed c (FLUSH_AND_ADVANCE_TO st d)" "framed c (flushEmitAndResumeIn st d)"
proof -
  have f: "flushBufferedEndTag (d\<lparr>tk_state := st\<rparr>) = Some (b, d') \<Longrightarrow> frame c d'" for b d'
    using frame_flush[of c "d\<lparr>tk_state := st\<rparr>"] assms by simp
  show "framed c (FLUSH_AND_ADVANCE_TO st d)" "framed c (flushEmitAndResumeIn st d)"
    by (auto simp: FLUSH_AND_ADVANCE_TO_def flushEmitAndResumeIn_def dest: f split: option.splits bool.splits)
qed

lemma framed_lists:
  "frame c d \<Longrightarrow> (\<And>t. framed c (k (d\<lparr>run_token := t\<rparr>))) \<Longrightarrow> framed c (buffer_all us k d)"
  "frame c d \<Longrightarrow> (\<And>t. framed c (k (d\<lparr>run_token := t\<rparr>))) \<Longrightarrow> framed c (value_all us k d)"
  "frame c d \<Longrightarrow> (\<And>t. framed c (k (d\<lparr>run_token := t\<rparr>))) \<Longrightarrow> framed c (append_comment us k d)"
proof -
  assume d: "frame c d" and k: "\<And>t. framed c (k (d\<lparr>run_token := t\<rparr>))"
  have d': "d\<lparr>run_token := run_token d\<rparr> = d" by simp
  show "framed c (buffer_all us k d)" using d k
    by (induction us arbitrary: d) (auto intro!: framed_do(2), metis Conf.surjective Conf.update_convs(2))
  show "framed c (value_all us k d)" using d k
    by (induction us arbitrary: d) (auto intro!: framed_do(1), metis Conf.surjective Conf.update_convs(2))
  show "framed c (append_comment us k d)" using d k unfolding append_comment_def
    by (induction us arbitrary: d) (auto intro!: framed_do(1), metis Conf.surjective Conf.update_convs(2))
qed

lemma framed_processEntity:
  assumes "frame c d" and k: "\<And>s t. framed c (k (d\<lparr>run_source := s, run_token := t\<rparr>))"
  shows "framed c (processEntity E k d)"
proof -
  have "framed c (buffer_all us k (d\<lparr>run_source := s\<rparr>))" for us s by (rule framed_lists) (use assms in auto)
  with assms show ?thesis
    by (auto simp: processEntity_def Let_def simp del: buffer_all.simps intro!: framed_do split: option.splits)
qed

lemma framed_look_ahead:
  "(\<And>s. framed c (k1 (d\<lparr>run_source := s\<rparr>))) \<Longrightarrow> (\<And>s. framed c (k2 (d\<lparr>run_source := s\<rparr>))) \<Longrightarrow> frame c d \<Longrightarrow>
   framed c (look_ahead look k1 k2 d)"
  by (auto simp: look_ahead_def split: option.splits LookAheadResult.splits)

lemma framed_source_do: "(\<And>s. framed c (k (d\<lparr>run_source := s\<rparr>))) \<Longrightarrow> framed c (source_do f k d)"
  by (auto simp: source_do_def intro!: framed_conf_do split: Option.bind_splits)

lemma framed_lower: "(\<And>x. framed c (k x d)) \<Longrightarrow> framed c (with_lower cc k d)"
  by (auto simp: with_lower_def split: option.splits)

lemma framed_possible: "frame c d \<Longrightarrow> (\<And>buf. framed c (k (d\<lparr>tk_bufferedEndTagName := buf\<rparr>))) \<Longrightarrow> framed c (conf_do (addToPossibleEndTag l) k d)"
  by (auto simp: addToPossibleEndTag_def intro!: framed_conf_do split: if_splits)

lemmas step_defs =
  DataState_step_def CharacterReferenceInDataState_step_def RCDATAState_step_def
  CharacterReferenceInRCDATAState_step_def RAWTEXTState_step_def ScriptDataState_step_def
  PLAINTEXTState_step_def TagOpenState_step_def EndTagOpenState_step_def TagNameState_step_def
  RCDATALessThanSignState_step_def RCDATAEndTagOpenState_step_def RCDATAEndTagNameState_step_def
  RAWTEXTLessThanSignState_step_def RAWTEXTEndTagOpenState_step_def RAWTEXTEndTagNameState_step_def
  ScriptDataLessThanSignState_step_def ScriptDataEndTagOpenState_step_def ScriptDataEndTagNameState_step_def
  ScriptDataEscapeStartState_step_def ScriptDataEscapeStartDashState_step_def ScriptDataEscapedState_step_def
  ScriptDataEscapedDashState_step_def ScriptDataEscapedDashDashState_step_def
  ScriptDataEscapedLessThanSignState_step_def ScriptDataEscapedEndTagOpenState_step_def
  ScriptDataEscapedEndTagNameState_step_def ScriptDataDoubleEscapeStartState_step_def
  ScriptDataDoubleEscapedState_step_def ScriptDataDoubleEscapedDashState_step_def
  ScriptDataDoubleEscapedDashDashState_step_def ScriptDataDoubleEscapedLessThanSignState_step_def
  ScriptDataDoubleEscapeEndState_step_def BeforeAttributeNameState_step_def AttributeNameState_step_def
  AfterAttributeNameState_step_def BeforeAttributeValueState_step_def AttributeValueDoubleQuotedState_step_def
  AttributeValueSingleQuotedState_step_def AttributeValueUnquotedState_step_def
  CharacterReferenceInAttributeValueState_step_def AfterAttributeValueQuotedState_step_def
  SelfClosingStartTagState_step_def BogusCommentState_step_def ContinueBogusCommentState_step_def
  MarkupDeclarationOpenState_step_def CommentStartState_step_def CommentStartDashState_step_def
  CommentState_step_def CommentEndDashState_step_def CommentEndState_step_def CommentEndBangState_step_def
  DOCTYPEState_step_def BeforeDOCTYPENameState_step_def DOCTYPENameState_step_def
  AfterDOCTYPENameState_step_def AfterDOCTYPEPublicKeywordState_step_def
  BeforeDOCTYPEPublicIdentifierState_step_def DOCTYPEPublicIdentifierDoubleQuotedState_step_def
  DOCTYPEPublicIdentifierSingleQuotedState_step_def AfterDOCTYPEPublicIdentifierState_step_def
  BetweenDOCTYPEPublicAndSystemIdentifiersState_step_def AfterDOCTYPESystemKeywordState_step_def
  BeforeDOCTYPESystemIdentifierState_step_def DOCTYPESystemIdentifierDoubleQuotedState_step_def
  DOCTYPESystemIdentifierSingleQuotedState_step_def AfterDOCTYPESystemIdentifierState_step_def
  BogusDOCTYPEState_step_def CDATASectionState_step_def CDATASectionRightSquareBracketState_step_def
  CDATASectionDoubleRightSquareBracketState_step_def


lemmas framed_rules = framed_do framed_lists framed_processEntity framed_look_ahead framed_source_do framed_lower framed_possible

lemmas framed_defs = set_temporaryBuffer_def clear_appropriateEndTagName_def
  set_additionalAllowedCharacter_def lessThanSign_slash_def assert_noBufferedEndTag_def begin_attribute_def
  giveUpEndTag_def bogus_doctype_def return_to_attribute_value_def

lemma framed_end_tag_blocks [simp]:
  "framed c (endTagOpen_block st txt cc c)" "framed c (endTagName_block st txt cc c)"
  by (auto simp: endTagOpen_block_def endTagName_block_def framed_defs intro!: framed_rules)

lemma framed_state_block: "framed c (state_block E cc c)"
  by (cases "tk_state c"; simp only: state_block_def State.case;
     auto simp: step_defs framed_defs Let_def intro!: framed_rules split: option.splits)

lemma frame_trans: "frame a b \<Longrightarrow> frame b c \<Longrightarrow> frame a c"
  by (simp add: frame_def)

lemma run_states_frame:
  assumes "run_states E cc c = Some r"
  shows "frame c (snd r)"
proof (rule run_states.raw_induct[where P = "\<lambda>E cc c r. frame c (snd r)", OF _ assms])
  fix rs E cc c r
  assume ih: "\<And>E cc c y. rs E cc c = Some y \<Longrightarrow> frame c (snd y)"
    and step: "(case state_block E cc c of Goto cc1 c1 \<Rightarrow> rs E cc1 c1 | Ret b c1 \<Rightarrow> Some (b, c1) | Crash \<Rightarrow> None) = Some r"
  show "frame c (snd r)"
    using framed_state_block[of c E cc] step ih frame_trans by (cases "state_block E cc c") auto
qed

lemma enter_switch_frame: "enter_switch E d = Some (b, c') \<Longrightarrow> frame d c'"
  using framed_ends(2)[of d d] run_states_frame[of E _ _ "(b, c')"] frame_trans
  by (cases "peek_source d") (auto simp: enter_switch_def split: if_splits)

lemma nextToken_frame: "nextToken E addr c = Some (b, c') \<Longrightarrow> frame (c\<lparr>tk_token := Some addr\<rparr>) c'"
  using enter_switch_frame[of E _ b c']
  by (auto simp: nextToken_def startBufferedEndTag_def Let_def frame_def split: Option.bind_splits if_splits)

section \<open>Sessions\<close>

text \<open>
  What a client does with a tokenizer, in any order: ask for the next token (the source tracker
  gives the token its base offset first) and clear the token when it was complete, append input,
  close the stream, set the two flags of the tree builder, and switch the state. The steps have the side conditions the invariant needs.
  The base offset is not behind what was consumed, and smaller inside an attribute (as \<open>HTMLSourceTracker\<close> sets it). Input is appended
  only when the unread text then holds no numeric reference that decodes to NUL: such a reference, \<open>&#x80A10000;\<close> for one, gets past the
  preprocessor and fails the assertion of \<open>bufferCharacter\<close>. The state is switched in the data state with no end
  tag held back, where the tree builder does it: after a start tag.
\<close>

inductive session :: "TokenizerEnv \<Rightarrow> nat \<Rightarrow> Conf \<Rightarrow> Conf \<Rightarrow> bool" for E addr where
  session_token: "\<lbrakk>c0 = c\<lparr>run_token := setBaseOffset n (run_token c)\<rparr>; offsets_ok (tk_state c) (run_token c0) (run_source c);
     nextToken E addr c0 = Some (True, c')\<rbrakk> \<Longrightarrow> session E addr c (next_call c')"
| session_more: "\<lbrakk>c0 = c\<lparr>run_token := setBaseOffset n (run_token c)\<rparr>; offsets_ok (tk_state c) (run_token c0) (run_source c);
     nextToken E addr c0 = Some (False, c')\<rbrakk> \<Longrightarrow> session E addr c c'"
| session_append: "\<lbrakk>\<not> seg_closed (run_source c); stream_inv t; seg_append t (run_source c) = Some s;
     no_nul_reference (seg_toString s)\<rbrakk> \<Longrightarrow> session E addr c (c\<lparr>run_source := s\<rparr>)"
| session_close: "seg_close (run_source c) = Some s \<Longrightarrow> session E addr c (c\<lparr>run_source := s\<rparr>)"
| session_state: "\<lbrakk>tk_state c = DataState; tk_bufferedEndTagName c = []\<rbrakk> \<Longrightarrow> session E addr c (updateStateFor name c)"
| session_flags: "session E addr c (c\<lparr>tk_forceNullCharacterReplacement := force, tk_shouldAllowCDATA := cdata\<rparr>)"

definition session_inv :: "TokenizerEnv \<Rightarrow> nat \<Rightarrow> Conf \<Rightarrow> bool" where
  "session_inv E addr c \<longleftrightarrow> idle_inv E c \<and> (tk_token c = None \<or> tk_token c = Some addr)"

lemma pushed_ok_cong: "pushedChars s = pushedChars s' \<Longrightarrow> pushed_ok E st s = pushed_ok E st s'"
proof -
  assume e: "pushedChars s = pushedChars s'"
  show ?thesis unfolding pushed_ok_def resumable_def e ..
qed

lemma session_inv_append:
  assumes "idle_inv E c" "\<not> seg_closed (run_source c)" "stream_inv t" "seg_append t (run_source c) = Some s"
    "no_nul_reference (seg_toString s)"
  shows "idle_inv E (c\<lparr>run_source := s\<rparr>)"
proof -
  have "stream_inv (run_source c)" using assms(1) by (simp add: idle_inv_def)
  from seg_append_inv[OF this assms(3,2)] assms(4)
  have "stream_inv s" "pushedChars s = pushedChars (run_source c)" by (auto simp: pushedChars_def)
  with assms show ?thesis by (auto simp: idle_inv_def pushed_ok_cong[of s] end_tag_pending_def)
qed

lemma idle_updateState:
  assumes "idle_inv E c" "tk_state c = DataState" "tk_bufferedEndTagName c = []"
  shows "idle_inv E (updateStateFor name c)"
  using assms by (auto simp: updateStateFor_def idle_inv_def pushed_ok_def state_defs end_tag_pending_def name_ok_def)

lemma setBaseOffset_simps [simp]:
  "tok_type (setBaseOffset n t) = tok_type t" "wf_token (setBaseOffset n t) = wf_token t"
  "kind_ok k (setBaseOffset n t) = kind_ok k t"
  by (simp_all add: setBaseOffset_def wf_token_def isAll8BitData_def attributes_ok_def doctype_ok_def kind_ok_def
      attribute_in_progress_def value_in_progress_def cong: TokenType.case_cong state_kind.case_cong)

lemma idle_setBaseOffset [simp]: "idle_inv E (c\<lparr>run_token := setBaseOffset n (run_token c)\<rparr>) = idle_inv E c"
  by (simp add: idle_inv_def token_ok_def end_tag_pending_def)

lemma routine_ok_close [simp]: "routine_ok r (s\<lparr>seg_closed := True\<rparr>) = routine_ok r s"
  by (cases r) simp_all

lemma toString_close [simp]: "seg_toString (s\<lparr>seg_closed := True\<rparr>) = seg_toString s"
  by (simp add: seg_toString_def)

lemma stream_inv_close: "stream_inv s \<Longrightarrow> stream_inv (s\<lparr>seg_closed := True\<rparr>)"
  by (simp add: stream_inv_def stream_core_def pointers_ok_def)

lemma pushed_ok_close: "pushed_ok E st (s\<lparr>seg_closed := True\<rparr>) = pushed_ok E st s"
  by (rule pushed_ok_cong) (simp add: pushedChars_def)

lemma session_step:
  assumes "env_ok E" "session E addr c c'" "session_inv E addr c"
  shows "session_inv E addr c'"
proof -
  have idle: "idle_inv E c" and addr: "tk_token c = None \<or> tk_token c = Some addr"
    using assms(3) by (auto simp: session_inv_def)
  have call: "ret_inv E b d \<and> tk_token d = Some addr"
    if "c0 = c\<lparr>run_token := setBaseOffset n (run_token c)\<rparr>" "offsets_ok (tk_state c) (run_token c0) (run_source c)"
      "nextToken E addr c0 = Some (b, d)" for c0 n b d
  proof -
    have "idle_inv E c0" "offsets_ok (tk_state c0) (run_token c0) (run_source c0)"
      "tk_token c0 = None \<or> tk_token c0 = Some addr \<or> tok_type (run_token c0) = Uninitialized"
      using that(1,2) idle addr by auto
    from nextToken_returns[OF assms(1) this] nextToken_frame[OF that(3)] that(3) show ?thesis
      by (auto simp: frame_def)
  qed
  from assms(2) show ?thesis
  proof cases
    case (session_token c0 n d)
    from call[OF session_token(2-4)] session_token(1) show ?thesis by (simp add: session_inv_def ret_inv_def next_call_def)
  next
    case (session_more c0 n)
    from call[OF session_more] show ?thesis by (simp add: session_inv_def ret_inv_def)
  next
    case (session_append t s)
    with session_inv_append[OF idle session_append(2-5)] addr show ?thesis by (simp add: session_inv_def)
  next
    case (session_close s)
    with idle addr show ?thesis
      by (auto simp: session_inv_def idle_inv_def seg_close_def pushed_ok_close end_tag_pending_def
          stream_inv_close split: if_splits)
  next
    case (session_state name)
    with idle_updateState[OF idle] addr show ?thesis by (auto simp: session_inv_def updateStateFor_def)
  next
    case (session_flags force cdata)
    with idle addr show ?thesis by (simp add: session_inv_def idle_inv_def token_ok_def end_tag_pending_def)
  qed
qed

text \<open>C1: From its invariant between two calls, which asks of the unread text that no numeric reference in it decodes to NUL, a call of \<open>nextToken\<close> returns
  (the jumps between the 71 states end), fails no assertion, keeps the invariant and accounts for every character; a
  token it hands over is well-formed: tag and attribute names are not empty and hold neither NUL nor an upper-case
  ASCII letter, no text holds NUL, and the 8-bit flag is right.\<close>

theorem nextToken_safe:
  assumes "env_ok E" "idle_inv E c" "offsets_ok (tk_state c) (run_token c) (run_source c)"
    "tk_token c = None \<or> tk_token c = Some addr \<or> tok_type (run_token c) = Uninitialized"
  shows "\<exists>b c'. nextToken E addr c = Some (b, c') \<and>
     (if b then wf_token (run_token c') \<and> tok_type (run_token c') \<noteq> Uninitialized \<and> idle_inv E (next_call c')
      else tok_type (run_token c') \<noteq> Character \<and> idle_inv E c' \<and> offsets_ok (tk_state c') (run_token c') (run_source c')) \<and>
     numberOfCharactersConsumed (run_source c') + int (remaining c') = numberOfCharactersConsumed (run_source c) + int (remaining c)"
proof -
  obtain b c' where n: "nextToken E addr c = Some (b, c')" "ret_inv E b c'" "kept (run_source c) (run_source c')"
    using nextToken_returns[OF assms] by auto
  show ?thesis
    by (intro exI conjI, rule n(1), rule n(2)[unfolded ret_inv_def], rule n(3)[unfolded kept_def, THEN conjunct2])
qed

definition sample_env :: TokenizerEnv where
  "sample_env = \<lparr>env_foldCase = id, env_table = table_of sample_entries\<rparr>"

definition sample_options :: HTMLParserOptions where
  "sample_options = \<lparr>opt_scriptEnabled = True, opt_pluginsEnabled = True, opt_usePreHTML5ParserQuirks = False,
     opt_useThreading = False, opt_maximumDOMTreeDepth = 512\<rparr>"

lemma sample_env_ok: "env_ok sample_env"
  using sample_table_ok sample_names_ok by (simp add: env_ok_def sample_env_def)

lemma sample_no_nul: "no_nul_reference (lit ''<b>&lt;'')"
  by (simp add: no_nul_reference_def lit_def numeric_spec_def isASCIIDigit_def)

theorem nextToken_safe_witness:
  "\<exists>b c'. nextToken sample_env 7 (start_conf sample_options (the (makeSegmentedString (UTF16 (lit ''<b>&lt;''))))) = Some (b, c') \<and>
     (b \<longrightarrow> wf_token (run_token c'))"
proof -
  let ?c = "start_conf sample_options (the (makeSegmentedString (UTF16 (lit ''<b>&lt;''))))"
  have "makeSegmentedString (UTF16 (lit ''<b>&lt;'')) = Some (run_source ?c)"
    using makeSegmentedString_inv[of "UTF16 (lit ''<b>&lt;'')"] by auto
  from start_idle[OF this, of sample_env] sample_no_nul have "idle_inv sample_env ?c"
    "offsets_ok (tk_state ?c) (run_token ?c) (run_source ?c)" "tk_token ?c = None" by simp_all
  from nextToken_safe[OF sample_env_ok this(1,2), of 7] this(3) show ?thesis by (auto split: if_splits)
qed

text \<open>C8: In a session (asking for tokens, appending input between calls, closing the stream, setting the flags and
  switching the state) the tokenizer stays in its invariant. The text it starts with and the text after each appended piece hold no numeric
  reference that decodes to NUL; the base offset of a token is not behind the input, and smaller inside an attribute; the state is switched
  only in the data state with no end tag held back.\<close>

theorem session_invariant:
  assumes "env_ok E" "makeSegmentedString str = Some s" "no_nul_reference (characters str)"
    "(session E addr)\<^sup>*\<^sup>* (start_conf opt s) c"
  shows "session_inv E addr c"
  using assms(4)
proof (induction rule: rtranclp_induct)
  case base
  then show ?case using start_idle[OF assms(2,3)] by (simp add: session_inv_def)
next
  case (step c c')
  with session_step[OF assms(1)] show ?case by blast
qed

theorem session_invariant_witness:
  "session_inv sample_env 7 (updateStateFor (lit ''title'') (start_conf sample_options (the (makeSegmentedString (UTF16 (lit ''<b>&lt;''))))))"
proof -
  let ?s = "the (makeSegmentedString (UTF16 (lit ''<b>&lt;'')))"
  let ?c = "start_conf sample_options ?s"
  have s: "makeSegmentedString (UTF16 (lit ''<b>&lt;'')) = Some ?s"
    using makeSegmentedString_inv[of "UTF16 (lit ''<b>&lt;'')"] by auto
  have "session sample_env 7 ?c (updateStateFor (lit ''title'') ?c)" by (rule session_state) simp_all
  then have "(session sample_env 7)\<^sup>*\<^sup>* ?c (updateStateFor (lit ''title'') ?c)" by (rule r_into_rtranclp)
  from session_invariant[OF sample_env_ok s _ this] sample_no_nul show ?thesis by simp
qed

section \<open>An unfinished declaration at the end of the file\<close>

definition stalled :: "Conf \<Rightarrow> bool" where
  "stalled c \<longleftrightarrow> tk_state c = MarkupDeclarationOpenState \<and> readable (run_source c) \<and> seg_closed (run_source c) \<and>
     hd (seg_toString (run_source c)) \<in> {0x44, 0x64} \<and> remaining c < 7 \<and> tok_type (run_token c) = Uninitialized \<and>
     tk_bufferedEndTagName c = []"

text \<open>C9: When the input ends inside what could become a DOCTYPE, the tokenizer waits for characters that
  cannot come: every further call returns false without consuming anything, and neither a comment nor an end of
  file token is ever produced.\<close>

theorem unfinished_declaration_stalls:
  assumes "stalled c"
  shows "\<exists>c'. nextToken E addr c = Some (False, c') \<and> stalled c' \<and> seg_toString (run_source c') = seg_toString (run_source c)"
proof -
  let ?c = "c\<lparr>tk_token := Some addr\<rparr>" let ?s = "run_source c"
  have st: "tk_state c = MarkupDeclarationOpenState" "readable ?s" "hd (seg_toString ?s) \<in> {0x44, 0x64}" "remaining c < 7"
    using assms by (auto simp: stalled_def)
  define ch where "ch = seg_currentChar ?s"
  have cur: "ch = 0x44 \<or> ch = 0x64" using readable_currentChar[OF st(2)] st(3) by (simp add: ch_def)
  let ?p = "(tk_inputStreamPreprocessor c)\<lparr>pre_nextInputCharacter := ch, pre_skipNextNewLine := False\<rparr>"
  let ?d = "?c\<lparr>tk_inputStreamPreprocessor := ?p, run_source := ?s\<rparr>"
  have "pre_peek (shouldSkipNullCharacters ?c) (tk_inputStreamPreprocessor c) ?s = Some (True, ?p, ?s)"
    using mask_above[of ch] cur by (auto simp: pre_peek_def ch_def[symmetric])
  then have peek: "peek_source ?c = Goto ch ?d" by (simp add: peek_source_def after_read_def)
  have inv: "stream_inv ?s" using st(2) by (simp add: readable_def)
  have "lookAheadIgnoringCase (env_foldCase E) (lit ''doctype'') ?s = Some (NotEnoughCharacters, ?s)"
    using lookAheadInline_inv[OF inv, of "lit ''doctype''" "env_foldCase E" False] st(4) by (auto simp: lit_def lookAheadSpec_def)
  then have "state_block E ch ?d = Ret False ?d"
    using st(1) assms cur by (auto simp: state_block_def MarkupDeclarationOpenState_step_def look_ahead_def return_buffered_def
        haveBufferedCharacterToken_def stalled_def)
  then have "run_states E ch ?d = Some (False, ?d)" by (subst run_states.simps) simp
  then have "nextToken E addr c = Some (False, ?d)"
    using peek st(2) assms by (simp add: nextToken_def enter_switch_def stalled_def readable_def)
  with assms show ?thesis by (auto simp: stalled_def)
qed

theorem unfinished_declaration_stalls_witness:
  "\<exists>c'. nextToken sample_env 7 ((start_conf sample_options ((the (makeSegmentedString (UTF16 [0x64, 0])))\<lparr>seg_closed := True\<rparr>))
      \<lparr>tk_state := MarkupDeclarationOpenState\<rparr>) = Some (False, c') \<and> stalled c'"
proof -
  let ?s = "the (makeSegmentedString (UTF16 [0x64, 0]))"
  have "readable ?s" "seg_toString ?s = [0x64, 0]" using fresh_readable[of "UTF16 [0x64, 0]"] by simp_all
  then have "readable (?s\<lparr>seg_closed := True\<rparr>)" "seg_toString (?s\<lparr>seg_closed := True\<rparr>) = [0x64, 0]"
    by (simp_all add: readable_def stream_inv_close)
  then have "stalled ((start_conf sample_options (?s\<lparr>seg_closed := True\<rparr>))\<lparr>tk_state := MarkupDeclarationOpenState\<rparr>)"
    by (simp add: stalled_def)
  from unfinished_declaration_stalls[OF this] show ?thesis by blast
qed

end
