(* ===== verification/Tokenizer_Progress.thy ===== *)
theory Tokenizer_Progress
  imports Tokenizer_Session
begin

text \<open>
  A client that takes token after token comes to an end: every call that hands a token over makes the weight of the
  configuration smaller, and the weight is bounded by the characters left. The loops of \<open>HTMLDocumentParser::pumpTokenizer\<close> and
  \<open>HTMLMetaCharsetParser::checkForMetaCharset\<close> rest on it.
\<close>

section \<open>The weight of a configuration\<close>

definition isTextState :: "State \<Rightarrow> bool" where
  "isTextState st \<longleftrightarrow> st \<in> {DataState, RCDATAState, RAWTEXTState, ScriptDataState, PLAINTEXTState}"

definition level :: "State \<Rightarrow> nat" where
  "level st = (if isTextState st then 0 else Suc (rank st))"

definition weight :: "Conf \<Rightarrow> nat" where
  "weight c = 8 * remaining c + 2 * level (tk_state c) + of_bool (tk_bufferedEndTagName c \<noteq> [])"

lemma level_bound: "level st \<le> 3"
  using rank_bound[of st] by (simp add: level_def)

lemma weight_bound: "weight c \<le> 8 * remaining c + 7"
  using level_bound[of "tk_state c"] by (simp add: weight_def)

lemma weight_simps [simp]:
  "weight (c\<lparr>run_token := t\<rparr>) = weight c" "weight (c\<lparr>tk_token := a\<rparr>) = weight c"
  "weight (c\<lparr>tk_appropriateEndTagName := n\<rparr>) = weight c" "weight (c\<lparr>tk_temporaryBuffer := tmp\<rparr>) = weight c"
  "weight (c\<lparr>tk_inputStreamPreprocessor := p\<rparr>) = weight c" "weight (next_call c) = weight c"
  by (simp_all add: weight_def next_call_def)

text \<open>What a block may return to stay below \<open>m\<close>.\<close>

definition shrinks :: "nat \<Rightarrow> outcome \<Rightarrow> bool" where
  "shrinks m oc \<longleftrightarrow> (\<forall>d. oc = Ret True d \<longrightarrow> weight d \<le> m)"

lemma shrinks_simps [simp]: "shrinks m (Goto cc d)" "shrinks m Crash" "shrinks m (Ret True d) = (weight d \<le> m)" "shrinks m (Ret False d)"
  by (auto simp: shrinks_def)

lemma shrinks_buffered: "(tok_type (run_token c) = Character \<Longrightarrow> weight c \<le> m) \<Longrightarrow> shrinks m (return_buffered c)"
  by (simp add: return_buffered_def haveBufferedCharacterToken_def shrinks_def)

section \<open>The ends of blocks\<close>

definition below :: "nat \<Rightarrow> Conf \<Rightarrow> bool" where
  "below m c \<longleftrightarrow> readable (run_source c) \<and> 8 * remaining c \<le> Suc m"

lemma below_simps [simp]:
  "below m (c\<lparr>run_token := t\<rparr>) = below m c" "below m (c\<lparr>tk_state := st\<rparr>) = below m c"
  "below m (c\<lparr>tk_appropriateEndTagName := n\<rparr>) = below m c" "below m (c\<lparr>tk_temporaryBuffer := tmp\<rparr>) = below m c"
  "below m (c\<lparr>tk_bufferedEndTagName := buf\<rparr>) = below m c" "below m (c\<lparr>tk_additionalAllowedCharacter := x\<rparr>) = below m c"
  by (simp_all add: below_def)

lemma consumed_weight:
  assumes "below m c" "advanced (run_source c) s" "length (seg_toString (run_source d)) \<le> length (seg_toString s)"
  shows "weight d \<le> m"
proof -
  have "length (seg_toString s) + 1 = remaining c"
    using assms(1,2) readable_nonempty[of "run_source c"] by (cases "seg_toString (run_source c)") (auto simp: below_def advanced_def)
  then show ?thesis using assms(1,3) weight_bound[of d] by (simp add: below_def)
qed

lemma read_length: "read_ok s (Some (b, p, s')) \<Longrightarrow> stream_inv s \<Longrightarrow> length (seg_toString s') \<le> length (seg_toString s)"
  using advances_facts(2)[of s s'] by (auto simp: read_ok_def)

lemma shrinks_ADVANCE: "below m c \<Longrightarrow> shrinks m (ADVANCE_TO st c)"
proof -
  assume b: "below m c"
  let ?c = "c\<lparr>tk_state := st\<rparr>"
  let ?r = "pre_advance (shouldSkipNullCharacters ?c) (tk_inputStreamPreprocessor ?c) (run_source ?c)"
  obtain s1 where s1: "advanced (run_source c) s1" "read_ok s1 ?r" using advance_read[of "run_source c"] b by (auto simp: below_def)
  have "stream_inv s1" using s1(1) by (simp add: advanced_def)
  with s1 b consumed_weight[OF b s1(1)] read_length[of s1] show ?thesis
    by (auto simp: ADVANCE_TO_def after_read_def return_buffered_def shrinks_def Let_def split: option.splits)
qed

lemma shrinks_peek:
  assumes "readable (run_source c)" "tok_type (run_token c) = Character \<longrightarrow> weight c \<le> m"
  shows "shrinks m (peek_source c)"
proof -
  let ?r = "pre_peek (shouldSkipNullCharacters c) (tk_inputStreamPreprocessor c) (run_source c)"
  have r: "read_ok (run_source c) ?r" "stream_inv (run_source c)" using peek_read[OF assms(1)] assms(1) by (auto simp: readable_def)
  have "weight (c\<lparr>tk_inputStreamPreprocessor := p, run_source := s\<rparr>) \<le> weight c" if "?r = Some (b, p, s)" for b p s
    using read_length[OF r(1)[unfolded that] r(2)] by (simp add: weight_def)
  then show ?thesis using assms(2)
    by (fastforce simp: peek_source_def after_read_def return_buffered_def haveBufferedCharacterToken_def shrinks_def Let_def split: option.splits)
qed

lemma shrinks_SWITCH:
  assumes "stream_inv (run_source c)"
    "tok_type (run_token c) \<noteq> Character \<or> 8 * remaining c + 2 * level st + of_bool (tk_bufferedEndTagName c \<noteq> []) \<le> m"
  shows "shrinks m (SWITCH_TO st c)"
proof (cases "seg_empty (run_source c)")
  case True
  with assms show ?thesis by (auto simp: SWITCH_TO_def weight_def intro!: shrinks_buffered)
next
  case False
  with assms have "shrinks m (peek_source (c\<lparr>tk_state := st\<rparr>))" by (intro shrinks_peek) (auto simp: weight_def readable_def)
  with False show ?thesis by (simp add: SWITCH_TO_def)
qed

lemma shrinks_RECONSUME [simp]: "shrinks m (RECONSUME_IN st cc c)"
  by (simp add: RECONSUME_IN_def)

lemma advance_source_weight:
  assumes "below m c" "advance_source c' = Some d" "run_source c' = run_source c"
  shows "weight d \<le> m"
proof -
  have "stream_inv (run_source c)" using assms(1) by (simp add: below_def readable_def)
  from advanceAndUpdateLineNumber_advanced[OF this] obtain s where s: "advanceAndUpdateLineNumber (run_source c) = Some s" "advanced (run_source c) s"
    by auto
  have "run_source d = s" using assms(2,3) s(1) by (auto simp: advance_source_def)
  then show ?thesis using consumed_weight[OF assms(1) s(2), of d] by simp
qed

lemma shrinks_emitResume: "below m c \<Longrightarrow> shrinks m (emitAndResumeIn st c)"
  by (auto simp: emitAndResumeIn_def conf_do_def dest!: save_form intro: advance_source_weight split: option.splits Option.bind_splits)

lemma shrinks_emitReconsume:
  "8 * remaining c + of_bool (tk_bufferedEndTagName c \<noteq> []) \<le> m \<Longrightarrow> shrinks m (emitAndReconsumeIn DataState c)"
  by (auto simp: emitAndReconsumeIn_def conf_do_def weight_def level_def isTextState_def dest!: save_form split: option.splits Option.bind_splits)

lemma shrinks_eof:
  assumes "below m c" "tok_type (run_token c) = Character \<longrightarrow> weight c \<le> m"
  shows "shrinks m (emitEndOfFile c)"
  using assms by (auto simp: emitEndOfFile_def haveBufferedCharacterToken_def conf_do_def token_do_def
      intro: advance_source_weight[of m c] split: option.splits)

lemma flush_weight:
  assumes "below m c" "flushBufferedEndTag (c\<lparr>tk_state := st\<rparr>) = Some (b, d)"
  shows "weight d \<le> m" "stream_inv (run_source d)"
proof -
  obtain c1 where c1: "advance_source (c\<lparr>tk_state := st\<rparr>) = Some c1" "run_source d = run_source c1"
    using assms(2) by (auto simp: flushBufferedEndTag_def split: Option.bind_splits if_splits)
  have "stream_inv (run_source c)" using assms(1) by (simp add: below_def readable_def)
  from advanceAndUpdateLineNumber_advanced[OF this] obtain s where s: "advanceAndUpdateLineNumber (run_source c) = Some s" "advanced (run_source c) s"
    by auto
  have "run_source c1 = s" using c1(1) s(1) by (auto simp: advance_source_def)
  then show "weight d \<le> m" "stream_inv (run_source d)" using consumed_weight[OF assms(1) s(2), of d] s(2) c1(2) by (auto simp: advanced_def)
qed

lemma shrinks_flush:
  assumes "below m c"
  shows "shrinks m (FLUSH_AND_ADVANCE_TO st c)" "shrinks m (flushEmitAndResumeIn st c)"
proof -
  have tail: "shrinks m (if seg_empty (run_source d) then return_buffered d else peek_source d)"
    if "weight d \<le> m" "stream_inv (run_source d)" for d
    using that by (auto intro!: shrinks_buffered shrinks_peek simp: readable_def)
  show "shrinks m (flushEmitAndResumeIn st c)"
    using flush_weight(1)[OF assms, of st] by (auto simp: flushEmitAndResumeIn_def split: option.splits)
  show "shrinks m (FLUSH_AND_ADVANCE_TO st c)"
  proof (cases "flushBufferedEndTag (c\<lparr>tk_state := st\<rparr>)")
    case (Some r)
    then obtain b d where r: "flushBufferedEndTag (c\<lparr>tk_state := st\<rparr>) = Some (b, d)" by (cases r) auto
    with tail[OF flush_weight[OF assms r]] flush_weight(1)[OF assms r] show ?thesis by (cases b) (simp_all add: FLUSH_AND_ADVANCE_TO_def)
  qed (simp add: FLUSH_AND_ADVANCE_TO_def)
qed

section \<open>Inside a block\<close>

lemma shrinks_do:
  "(\<And>t. shrinks m (k (c\<lparr>run_token := t\<rparr>))) \<Longrightarrow> shrinks m (token_do f k c)"
  "(\<And>t. shrinks m (k (c\<lparr>run_token := t\<rparr>))) \<Longrightarrow> shrinks m (bufferCharacter ch k c)"
  by (auto simp: token_do_def bufferCharacter_def split: option.splits)

lemma shrinks_append_comment: "(\<And>t. shrinks m (k (c\<lparr>run_token := t\<rparr>))) \<Longrightarrow> shrinks m (append_comment us k c)"
proof (induction us arbitrary: c)
  case Nil
  from Nil[of "run_token c"] show ?case by (simp add: append_comment_def)
qed (auto simp: append_comment_def intro!: shrinks_do)

lemma shrinks_all:
  assumes "\<And>t. shrinks m (k (c\<lparr>run_token := t\<rparr>))"
  shows "shrinks m (buffer_all us k c)" "shrinks m (value_all us k c)"
proof -
  have "c\<lparr>run_token := run_token c\<rparr> = c" by simp
  with assms show "shrinks m (buffer_all us k c)"
    by (induction us arbitrary: c) (auto intro!: shrinks_do(2), metis Conf.surjective Conf.update_convs(2))
  from assms \<open>c\<lparr>run_token := run_token c\<rparr> = c\<close> show "shrinks m (value_all us k c)"
    by (induction us arbitrary: c) (auto intro!: shrinks_do(1), metis Conf.surjective Conf.update_convs(2))
qed

lemma shrinks_lower: "(\<And>x. shrinks m (k x c)) \<Longrightarrow> shrinks m (with_lower cc k c)"
  by (auto simp: with_lower_def split: option.splits)

lemma shrinks_possible: "(\<And>buf. shrinks m (k (c\<lparr>tk_bufferedEndTagName := buf\<rparr>))) \<Longrightarrow> shrinks m (conf_do (addToPossibleEndTag l) k c)"
  by (auto simp: conf_do_def addToPossibleEndTag_def split: option.splits if_splits)

text \<open>Looking ahead leaves the characters, and advancing over what was matched leaves fewer.\<close>

lemma advance_assert_inv: "advanceAndASSERT e s = Some s' \<Longrightarrow> stream_inv s \<Longrightarrow> stream_inv s' \<and> length (seg_toString s') \<le> length (seg_toString s)"
  using seg_advance_advanced[of s] by (auto simp: advanceAndASSERT_def advanced_def split: if_splits Option.bind_splits)

lemma shrinks_look_ahead:
  assumes "tok_type (run_token c) \<noteq> Character" "stream_inv (run_source c)" "2 \<le> length str" "look = lookAheadInline f str cse"
    and "\<And>s. stream_inv s \<Longrightarrow> seg_toString s = seg_toString (run_source c) \<Longrightarrow> shrinks m (k1 (c\<lparr>run_source := s\<rparr>))"
    and "\<And>s. stream_inv s \<Longrightarrow> seg_toString s = seg_toString (run_source c) \<Longrightarrow> (readable (run_source c) \<Longrightarrow> readable s) \<Longrightarrow> shrinks m (k2 (c\<lparr>run_source := s\<rparr>))"
  shows "shrinks m (look_ahead look k1 k2 c)"
proof -
  let ?s = "run_source c"
  obtain s where s: "lookAheadInline f str cse ?s = Some (lookAheadSpec f str cse (seg_toString ?s), s)"
    "stream_inv s" "seg_toString s = seg_toString ?s"
    "length str \<le> length (seg_toString ?s) \<longrightarrow> \<not> escaped s \<and> \<not> seg_empty s"
    "length str > length (seg_toString ?s) \<longrightarrow> s = ?s"
    using lookAheadInline_inv[OF assms(2,3), of f cse] by auto
  have "readable ?s \<Longrightarrow> readable s" using s(2,4,5) by (cases "length str \<le> length (seg_toString ?s)") (auto simp: readable_def)
  with s assms show ?thesis
    by (auto simp: look_ahead_def intro!: shrinks_buffered split: LookAheadResult.splits)
qed

definition forward :: "(SegmentedString \<Rightarrow> SegmentedString option) \<Rightarrow> bool" where
  "forward f \<longleftrightarrow> (\<forall>s s'. f s = Some s' \<longrightarrow> stream_inv s \<longrightarrow> stream_inv s' \<and> length (seg_toString s') \<le> length (seg_toString s))"

lemma forward_advance:
  "forward (advanceAndASSERT e)" "forward (advanceStringAndASSERT str)" "forward (advanceStringAndASSERTIgnoringCase f str)"
proof -
  show one: "forward (advanceAndASSERT e)" for e using advance_assert_inv by (simp add: forward_def)
  have fold: "forward (advanceAndASSERTIgnoringCase f e)" for e
    using seg_advance_advanced by (fastforce simp: forward_def advanceAndASSERTIgnoringCase_def advanced_def split: if_splits Option.bind_splits)
  show "forward (advanceStringAndASSERT str)"
    by (induction str) (use one in \<open>fastforce simp: forward_def split: Option.bind_splits\<close>)+
  show "forward (advanceStringAndASSERTIgnoringCase f str)"
    by (induction str) (use fold in \<open>fastforce simp: forward_def split: Option.bind_splits\<close>)+
qed

lemma shrinks_source_do:
  assumes "forward f" "stream_inv (run_source c)"
    "\<And>s. stream_inv s \<Longrightarrow> length (seg_toString s) \<le> remaining c \<Longrightarrow> shrinks m (k (c\<lparr>run_source := s\<rparr>))"
  shows "shrinks m (source_do f k c)"
  using assms by (auto simp: source_do_def conf_do_def forward_def split: option.splits Option.bind_splits)

section \<open>The blocks\<close>

text \<open>A block hands over a token only if it makes the weight smaller, or the token holds characters when the block is entered.\<close>

abbreviation budget :: "Conf \<Rightarrow> nat" where
  "budget c \<equiv> weight c - of_bool (tok_type (run_token c) \<noteq> Character)"

lemma entered:
  assumes "run_inv E cc c"
  shows "below (budget c) c" "readable (run_source c)" "stream_inv (run_source c)" "0 < remaining c"
    "isEndTagNameState (tk_state c) \<or> tk_bufferedEndTagName c = []"
    "tok_type (run_token c) = Character \<Longrightarrow> kind (tk_state c) = KText"
proof -
  have r: "readable (run_source c)" using assms by (simp add: run_inv_def)
  then show "readable (run_source c)" "stream_inv (run_source c)" "0 < remaining c" using readable_nonempty[OF r] by (auto simp: readable_def)
  then show "below (budget c) c" by (auto simp: below_def weight_def)
  show "isEndTagNameState (tk_state c) \<or> tk_bufferedEndTagName c = []"
    using assms by (auto simp: run_inv_def token_ok_def buffers_ok_def split: if_splits)
  show "tok_type (run_token c) = Character \<Longrightarrow> kind (tk_state c) = KText"
    using assms kind_character[of "kind (tk_state c)" "run_token c"] by (auto simp: run_inv_def token_ok_def)
qed

lemma reference_length:
  assumes "env_ok E" "run_inv E cc c" "isReferenceState (tk_state c)" "add \<in> {0, chQuot, chApos, chGreater}"
    "consumeHTMLEntity (env_table E) add (run_source c) = Some (success, notEnough, dec, s)"
  shows "stream_inv s \<and> length (seg_toString s) \<le> remaining c"
proof -
  let ?s = "run_source c" let ?T = "env_table E"
  have i: "readable ?s" "no_nul_reference (seg_toString ?s)" "resumable ?T ?s" "table_ok ?T" "names_ok ?T"
    using assms(1-3) by (auto simp: run_inv_def pushed_ok_def env_ok_def)
  note spec = consumeHTMLEntity_spec[OF i(4,5,1,3) assms(4)]
  show ?thesis
  proof (cases "charref_spec ?T add (seg_toString ?s)")
    case (Reference d rest)
    from charref_Reference(2)[OF this i(5,2)] spec Reference assms(5) show ?thesis
      by (auto simp: ref_ok_def flagged_def dest: suffix_length_le)
  qed (use spec assms(5) in \<open>auto simp: ref_ok_def readable_def\<close>)
qed

lemma shrinks_reference:
  assumes "env_ok E" "run_inv E cc c" "isReferenceState (tk_state c)" "tk_state c \<noteq> CharacterReferenceInAttributeValueState"
    "isTextState st"
  shows "shrinks (budget c) (processEntity E (SWITCH_TO st) c)"
proof -
  note e = entered[OF assms(2)]
  have b: "tk_bufferedEndTagName c = []" using e(5) assms(3) by (auto simp: isReferenceState_def isEndTagNameState_def)
  have l: "1 \<le> level (tk_state c)" using assms(3) by (auto simp: isReferenceState_def level_def isTextState_def)
  have go: "shrinks (budget c) (SWITCH_TO st (c\<lparr>run_source := s, run_token := t\<rparr>))" if "stream_inv s \<and> length (seg_toString s) \<le> remaining c" for s t
    by (rule shrinks_SWITCH) (use that b l assms(5) in \<open>auto simp: weight_def level_def\<close>)
  have "shrinks (budget c) (return_buffered (c\<lparr>run_source := s\<rparr>))" if "stream_inv s \<and> length (seg_toString s) \<le> remaining c" for s
    by (rule shrinks_buffered) (use that in \<open>auto simp: weight_def\<close>)
  with go reference_length[OF assms(1-3), of 0] show ?thesis
    by (auto simp: processEntity_def Let_def simp del: buffer_all.simps intro!: shrinks_do shrinks_all split: option.splits)
qed

lemma shrinks_value_reference:
  assumes "env_ok E" "run_inv E cc c" "tk_state c = CharacterReferenceInAttributeValueState"
  shows "shrinks (budget c) (CharacterReferenceInAttributeValueState_step E cc c)"
proof -
  note e = entered[OF assms(2)]
  have ref: "isReferenceState (tk_state c)" using assms(3) by (simp add: isReferenceState_def)
  have b: "tk_bufferedEndTagName c = []" using e(5) assms(3) by (auto simp: isEndTagNameState_def)
  have add: "tk_additionalAllowedCharacter c \<in> {0, chQuot, chApos, chGreater}"
    using assms(2,3) by (auto simp: run_inv_def token_ok_def buffers_ok_def)
  have l: "level (tk_state c) = 3" "level AttributeValueDoubleQuotedState = 2" "level AttributeValueSingleQuotedState = 2"
    "level AttributeValueUnquotedState = 2" using assms(3) by (simp_all add: level_def isTextState_def rank_def)
  have go: "shrinks (budget c) (return_to_attribute_value (c\<lparr>run_source := s, run_token := t\<rparr>))" if "stream_inv s \<and> length (seg_toString s) \<le> remaining c" for s t
    unfolding return_to_attribute_value_def using that b l by (auto intro!: shrinks_SWITCH simp: weight_def)
  have "shrinks (budget c) (return_buffered (c\<lparr>run_source := s\<rparr>))" if "stream_inv s \<and> length (seg_toString s) \<le> remaining c" for s
    by (rule shrinks_buffered) (use that in \<open>auto simp: weight_def\<close>)
  with go reference_length[OF assms(1,2) ref add] show ?thesis
    by (auto simp: CharacterReferenceInAttributeValueState_step_def Let_def simp del: value_all.simps intro!: shrinks_do shrinks_all split: option.splits)
qed

lemma shrinks_declaration:
  assumes "run_inv E cc c" "tk_state c = MarkupDeclarationOpenState"
  shows "shrinks (budget c) (MarkupDeclarationOpenState_step E cc c)"
proof -
  note e = entered[OF assms(1)]
  have t: "tok_type (run_token c) \<noteq> Character" using e(6) assms(2) by (auto simp: kind_def)
  have b: "tk_bufferedEndTagName c = []" using e(5) assms(2) by (auto simp: isEndTagNameState_def)
  have l: "level (tk_state c) = 3" "level CommentStartState \<le> 2" "level DOCTYPEState \<le> 2" "level CDATASectionState \<le> 2"
    using assms(2) by (simp_all add: level_def isTextState_def rank_def)
  show ?thesis
    unfolding MarkupDeclarationOpenState_step_def Let_def using e t b l
    by (auto intro!: shrinks_look_ahead shrinks_source_do forward_advance shrinks_do shrinks_SWITCH simp: lit_def weight_def)
qed

lemma shrinks_after_name:
  assumes "run_inv E cc c" "tk_state c = AfterDOCTYPENameState"
  shows "shrinks (budget c) (AfterDOCTYPENameState_step E cc c)"
proof -
  note e = entered[OF assms(1)]
  have t: "tok_type (run_token c) \<noteq> Character" using e(6) assms(2) by (auto simp: kind_def)
  have b: "tk_bufferedEndTagName c = []" using e(5) assms(2) by (auto simp: isEndTagNameState_def)
  have l: "level (tk_state c) = 2" using assms(2) by (simp_all add: level_def isTextState_def rank_def)
  have "below (budget c) (c\<lparr>run_source := s\<rparr>)" if "readable s" "seg_toString s = seg_toString (run_source c)" for s
    using e(1) that by (simp add: below_def)
  with e t b l show ?thesis
    unfolding AfterDOCTYPENameState_step_def Let_def bogus_doctype_def
    by (auto intro!: shrinks_look_ahead shrinks_source_do forward_advance shrinks_do shrinks_SWITCH shrinks_ADVANCE shrinks_emitResume shrinks_emitReconsume
        simp: lit_def weight_def)
qed

lemma shrinks_end_tag_blocks:
  assumes "below m c"
  shows "shrinks m (endTagOpen_block st txt cc c)" "shrinks m (endTagName_block st txt cc c)"
  using assms by (auto simp: endTagOpen_block_def endTagName_block_def giveUpEndTag_def set_temporaryBuffer_def
      intro!: shrinks_do shrinks_lower shrinks_possible shrinks_ADVANCE shrinks_flush)

definition special :: "State \<Rightarrow> bool" where
  "special st \<longleftrightarrow> isReferenceState st \<or> st \<in> {MarkupDeclarationOpenState, AfterDOCTYPENameState}"

lemma plain_block_shrinks:
  assumes "below m c" "tok_type (run_token c) = Character \<longrightarrow> weight c \<le> m" "\<not> special (tk_state c)"
    "\<not> isTextState (tk_state c) \<longrightarrow> 8 * remaining c + of_bool (tk_bufferedEndTagName c \<noteq> []) \<le> m"
  shows "shrinks m (state_block E cc c)"
  using assms
  by (cases "tk_state c"; simp only: state_block_def State.case;
     auto simp: step_defs set_temporaryBuffer_def clear_appropriateEndTagName_def
       set_additionalAllowedCharacter_def lessThanSign_slash_def assert_noBufferedEndTag_def begin_attribute_def
       bogus_doctype_def isTextState_def isReferenceState_def special_def
     intro!: shrinks_do shrinks_append_comment shrinks_lower shrinks_possible shrinks_ADVANCE shrinks_emitResume shrinks_emitReconsume
       shrinks_eof shrinks_flush shrinks_end_tag_blocks)

lemma state_block_shrinks:
  assumes "env_ok E" "run_inv E cc c"
  shows "shrinks (budget c) (state_block E cc c)"
proof (cases "special (tk_state c)")
  case True
  have plain: "isTextState DataState" "isTextState RCDATAState" by (simp_all add: isTextState_def)
  from True consider (decl) "tk_state c = MarkupDeclarationOpenState"
    | (name) "tk_state c = AfterDOCTYPENameState"
    | (val) "tk_state c = CharacterReferenceInAttributeValueState"
    | (data) "tk_state c = CharacterReferenceInDataState" "isReferenceState (tk_state c)"
    | (rcdata) "tk_state c = CharacterReferenceInRCDATAState" "isReferenceState (tk_state c)"
    by (auto simp: special_def isReferenceState_def)
  then show ?thesis
  proof cases
    case decl
    with shrinks_declaration[OF assms(2)] show ?thesis by (simp only: state_block_def State.case)
  next
    case name
    with shrinks_after_name[OF assms(2)] show ?thesis by (simp only: state_block_def State.case)
  next
    case val
    with shrinks_value_reference[OF assms] show ?thesis by (simp only: state_block_def State.case)
  next
    case data
    with shrinks_reference[OF assms _ _ plain(1)] show ?thesis by (simp add: state_block_def CharacterReferenceInDataState_step_def)
  next
    case rcdata
    with shrinks_reference[OF assms _ _ plain(2)] show ?thesis by (simp add: state_block_def CharacterReferenceInRCDATAState_step_def)
  qed
next
  case False
  from entered(1)[OF assms(2)] False show ?thesis
    by (intro plain_block_shrinks) (auto simp: weight_def level_def)
qed

section \<open>The jumps and the calls\<close>

lemma text_rank: "isTextState st \<Longrightarrow> rank st = 0"
  by (auto simp: isTextState_def rank_def)

lemma goto_weight:
  assumes "env_ok E" "run_inv E cc c" "state_block E cc c = Goto cc1 c1"
  shows "run_inv E cc1 c1" "progress c1 < progress c" "weight c1 < weight c"
proof -
  show inv: "run_inv E cc1 c1" and p: "progress c1 < progress c" using state_block_good[OF assms(1,2)] assms(3) by (auto simp: good_def)
  have "remaining c1 < remaining c \<or> remaining c1 = remaining c \<and> rank (tk_state c1) < rank (tk_state c)"
    using p rank_bound[of "tk_state c"] rank_bound[of "tk_state c1"] by (auto simp: progress_def)
  moreover have "level (tk_state c1) < level (tk_state c)" if "rank (tk_state c1) < rank (tk_state c)"
    using that text_rank[of "tk_state c"] by (auto simp: level_def)
  ultimately show "weight c1 < weight c" using weight_bound[of c1] by (auto simp: weight_def)
qed

lemma run_states_weight:
  assumes "env_ok E" "run_inv E cc c" "run_states E cc c = Some (True, d)"
  shows "weight d \<le> budget c"
  using assms(2,3)
proof (induction "progress c" arbitrary: cc c rule: less_induct)
  case less
  show ?case
  proof (cases "state_block E cc c")
    case (Goto cc1 c1)
    note g = goto_weight[OF assms(1) less.prems(1) Goto]
    have "run_states E cc1 c1 = Some (True, d)" using less.prems(2) Goto by (subst (asm) run_states.simps) simp
    from less.hyps[OF g(2,1) this] g(3) show ?thesis by (auto split: if_splits)
  next
    case (Ret b c')
    with state_block_shrinks[OF assms(1) less.prems(1)] less.prems(2) show ?thesis by (subst (asm) run_states.simps) (auto simp: shrinks_def)
  next
    case Crash
    with less.prems(2) show ?thesis by (subst (asm) run_states.simps) simp
  qed
qed

lemma enter_switch_weight:
  assumes "env_ok E" "stream_inv (run_source c)" "no_nul_reference (seg_toString (run_source c))"
    "pushed_ok E (tk_state c) (run_source c)" "offsets_ok (tk_state c) (run_token c) (run_source c)"
    "token_ok (tk_state c) False c" "tok_type (run_token c) \<noteq> Character" "enter_switch E c = Some (True, d)"
  shows "weight d < weight c"
proof -
  have ne: "\<not> seg_empty (run_source c)" using assms(7,8) by (auto simp: enter_switch_def haveBufferedCharacterToken_def)
  then have r: "readable (run_source c)" using assms(2) by (simp add: readable_def)
  have g: "good E (Suc (progress c)) (run_source c) (peek_source c)" by (rule peek_good) (use assms r in auto)
  show ?thesis
  proof (cases "peek_source c")
    case (Goto cc1 c1)
    then obtain b p s where c1: "c1 = c\<lparr>tk_inputStreamPreprocessor := p, run_source := s\<rparr>"
      "pre_peek (shouldSkipNullCharacters c) (tk_inputStreamPreprocessor c) (run_source c) = Some (b, p, s)"
      by (auto simp: peek_source_def after_read_def return_buffered_def Let_def split: option.splits if_splits)
    have "length (seg_toString s) \<le> remaining c" using read_length[of "run_source c" b p s] peek_read[OF r] assms(2) c1(2) by metis
    then have "weight c1 \<le> weight c" "tok_type (run_token c1) \<noteq> Character" using c1(1) assms(7) by (auto simp: weight_def)
    moreover have "run_inv E cc1 c1" using g Goto by (simp add: good_def)
    moreover have "run_states E cc1 c1 = Some (True, d)" using assms(8) Goto ne by (simp add: enter_switch_def)
    moreover have "0 < weight c1" using entered(4)[OF \<open>run_inv E cc1 c1\<close>] by (simp add: weight_def)
    ultimately show ?thesis using run_states_weight[OF assms(1), of cc1 c1 d] by simp
  next
    case (Ret b c')
    with assms(7,8) ne show ?thesis
      by (auto simp: enter_switch_def peek_source_def after_read_def return_buffered_def haveBufferedCharacterToken_def Let_def split: option.splits if_splits)
  qed (use assms(8) ne in \<open>auto simp: enter_switch_def\<close>)
qed

text \<open>A call enters the switch, or hands over the end tag that was held back.\<close>

lemma nextToken_cases:
  assumes "idle_inv E c" "offsets_ok (tk_state c) (run_token c) (run_source c)" "nextToken E addr c = Some (b, d)"
  obtains (switch) c1 where "enter_switch E c1 = Some (b, d)" "stream_inv (run_source c1)" "no_nul_reference (seg_toString (run_source c1))"
      "pushed_ok E (tk_state c1) (run_source c1)" "offsets_ok (tk_state c1) (run_token c1) (run_source c1)" "token_ok (tk_state c1) False c1"
      "weight c1 \<le> weight c" "tk_state c1 = tk_state c" "run_source c1 = run_source c"
      "run_token c1 = run_token c \<or> tok_type (run_token c1) = EndTag \<and> tok_attributes (run_token c1) = [] \<and> kind (tk_state c1) = KTag"
  | (held) b "tk_state d = DataState" "tk_bufferedEndTagName d = []" "tok_attributes (run_token d) = []" "weight d < weight c"
proof (cases "tk_bufferedEndTagName c \<noteq> [] \<and> \<not> isEndTagBufferingState (tk_state c)")
  case False
  then have "token_ok (tk_state c) False c"
    using assms(1) by (auto simp: idle_inv_def end_tag_pending_def name_ok_def isEndTagBufferingState_def)
  moreover have "enter_switch E (c\<lparr>tk_token := Some addr\<rparr>) = Some (b, d)" using assms(3) False by (auto simp: nextToken_def split: if_splits)
  ultimately show thesis using switch[of "c\<lparr>tk_token := Some addr\<rparr>"] assms(1,2) by (simp add: idle_inv_def)
next
  case True
  then have p: "end_tag_pending c"
    using assms(1) end_tag_name_state(3)[of "tk_state c"] by (auto simp: idle_inv_def token_ok_def buffers_ok_def split: if_splits)
  let ?c = "c\<lparr>tk_token := Some addr\<rparr>"
  obtain t where t: "beginEndTag_vector (tk_bufferedEndTagName c) (run_token c) = Some t" "wf_token t"
    "tok_baseOffset t = tok_baseOffset (run_token c)" "tok_type t = EndTag" "tok_attributes t = []"
    using op_beginEndTag_vector[of "run_token c" "tk_bufferedEndTagName c"] p
    by (auto simp: end_tag_pending_def afterOp_def beginEndTag_vector_def split: if_splits)
  let ?d = "?c\<lparr>run_token := t, tk_bufferedEndTagName := [], tk_appropriateEndTagName := [], tk_temporaryBuffer := []\<rparr>"
  have start: "startBufferedEndTag ?c = Some ?d" using t(1) by (simp add: startBufferedEndTag_def)
  have less: "weight ?d < weight c" using True by (simp add: weight_def)
  have idle: "stream_inv (run_source c)" "no_nul_reference (seg_toString (run_source c))" "chAmp \<notin> set (pushedChars (run_source c))"
    using assms(1) p by (auto simp: idle_inv_def pushed_ok_def end_tag_pending_def isReferenceState_def)
  show thesis
  proof (cases "tk_state c = DataState")
    case data: True
    then have "d = ?d" "b" using start True assms(3) by (auto simp: nextToken_def split: if_splits)
    with held data less t(5) show thesis by simp
  next
    case False
    then have st: "tk_state c = BeforeAttributeNameState \<or> tk_state c = SelfClosingStartTagState" using p by (simp add: end_tag_pending_def)
    then have "token_ok (tk_state ?d) False ?d" using t by (auto simp: state_defs)
    moreover have "enter_switch E ?d = Some (b, d)"
      using False start True assms(3) by (auto simp: nextToken_def split: if_splits)
    moreover have "pushed_ok E (tk_state ?d) (run_source ?d)" "offsets_ok (tk_state ?d) (run_token ?d) (run_source ?d)"
      using idle(3) st assms(2) t(3) by (auto simp: pushed_ok_def isReferenceState_def offsets_ok_def)
    moreover have "kind (tk_state ?d) = KTag" using st by (auto simp: kind_def)
    ultimately show thesis using switch[of ?d] idle t less by simp
  qed
qed

lemma nextToken_weight:
  assumes "env_ok E" "idle_inv E c" "offsets_ok (tk_state c) (run_token c) (run_source c)"
    "tok_type (run_token c) \<noteq> Character" "nextToken E addr c = Some (True, d)"
  shows "weight d < weight c"
proof (cases rule: nextToken_cases[OF assms(2,3,5)])
  case (1 c1)
  have "tok_type (run_token c1) \<noteq> Character" using 1(10) assms(4) by auto
  with enter_switch_weight[OF assms(1) 1(2-6) _ 1(1)] 1(7) show ?thesis by simp
qed

section \<open>Clients that leave the base offset at zero\<close>

definition zero_based :: "outcome \<Rightarrow> bool" where
  "zero_based oc \<longleftrightarrow> (case oc of Goto cc c \<Rightarrow> tok_baseOffset (run_token c) = 0 | Ret b c \<Rightarrow> tok_baseOffset (run_token c) = 0 | Crash \<Rightarrow> True)"

definition keeps_base :: "(HTMLToken \<Rightarrow> HTMLToken option) \<Rightarrow> bool" where
  "keeps_base f \<longleftrightarrow> (\<forall>t t'. f t = Some t' \<longrightarrow> tok_baseOffset t' = tok_baseOffset t)"

lemma keeps_base_ops:
  "keeps_base (beginStartTag x)" "keeps_base (beginEndTag l)" "keeps_base (beginEndTag_vector v)" "keeps_base (appendToName x)"
  "keeps_base addNewAttribute" "keeps_base (beginAttributeName n)" "keeps_base (appendToAttributeName x)" "keeps_base (endAttributeName n)"
  "keeps_base (beginAttributeValue n)" "keeps_base (appendToAttributeValue x)" "keeps_base (endAttributeValue n)" "keeps_base setSelfClosing"
  "keeps_base beginComment" "keeps_base (appendToComment x)" "keeps_base beginDOCTYPE" "keeps_base (beginDOCTYPE_char x)" "keeps_base setForceQuirks"
  "keeps_base setPublicIdentifierToEmptyString" "keeps_base setSystemIdentifierToEmptyString" "keeps_base (appendToPublicIdentifier x)"
  "keeps_base (appendToSystemIdentifier x)" "keeps_base (appendToCharacter_vector v)"
  by (auto simp: keeps_base_def beginStartTag_def beginEndTag_def beginEndTag_vector_def appendToName_def addNewAttribute_def beginAttributeName_def
      appendToAttributeName_def endAttributeName_def beginAttributeValue_def appendToAttributeValue_def endAttributeValue_def setSelfClosing_def
      beginComment_def appendToComment_def beginDOCTYPE_def beginDOCTYPE_char_def setForceQuirks_def setPublicIdentifierToEmptyString_def
      setSystemIdentifierToEmptyString_def appendToPublicIdentifier_def appendToSystemIdentifier_def appendToCharacter_vector_def
      onDoctypeData_def onCurrentAttribute_def appendData_def Let_def split: Option.bind_splits if_splits option.splits)

abbreviation base :: "Conf \<Rightarrow> int" where
  "base c \<equiv> tok_baseOffset (run_token c)"

lemma zero_based_simps [simp]: "zero_based (Goto cc c) = (base c = 0)" "zero_based (Ret b c) = (base c = 0)" "zero_based Crash"
  by (simp_all add: zero_based_def)

lemma zero_read [simp]: "base c = 0 \<Longrightarrow> zero_based (after_read c r)"
  by (auto simp: after_read_def return_buffered_def Let_def split: option.splits)

lemma zero_ends [simp]:
  "base c = 0 \<Longrightarrow> zero_based (ADVANCE_TO st c)" "base c = 0 \<Longrightarrow> zero_based (peek_source c)" "base c = 0 \<Longrightarrow> zero_based (SWITCH_TO st c)"
  "base c = 0 \<Longrightarrow> zero_based (RECONSUME_IN st cc c)" "base c = 0 \<Longrightarrow> zero_based (return_buffered c)"
  by (simp_all add: ADVANCE_TO_def peek_source_def SWITCH_TO_def RECONSUME_IN_def return_buffered_def Let_def)

lemma zero_do:
  assumes "base c = 0" "\<And>t. tok_baseOffset t = 0 \<Longrightarrow> zero_based (k (c\<lparr>run_token := t\<rparr>))"
  shows "keeps_base f \<Longrightarrow> zero_based (token_do f k c)" "zero_based (bufferCharacter ch k c)" "zero_based (append_comment us k c)"
    "zero_based (buffer_all us k c)" "zero_based (value_all us k c)"
proof -
  have do: "zero_based (token_do f k c)" if "keeps_base f" "base c = 0" "\<And>t. tok_baseOffset t = 0 \<Longrightarrow> zero_based (k (c\<lparr>run_token := t\<rparr>))" for f k c
    using that by (auto simp: token_do_def keeps_base_def split: option.splits)
  have buffer: "keeps_base (\<lambda>t. do { ASSERT (ch \<noteq> kEndOfFileMarker); t1 \<leftarrow> ensureIsCharacterToken t; appendToCharacter ch t1 })" for ch
    by (auto simp: keeps_base_def ensureIsCharacterToken_def appendToCharacter_def appendData_def split: Option.bind_splits if_splits)
  have start: "zero_based (k c)" if "base c = 0" "\<And>t. tok_baseOffset t = 0 \<Longrightarrow> zero_based (k (c\<lparr>run_token := t\<rparr>))" for k c
    using that(2)[of "run_token c"] that(1) by simp
  show "keeps_base f \<Longrightarrow> zero_based (token_do f k c)" using do assms by blast
  show "zero_based (bufferCharacter ch k c)" unfolding bufferCharacter_def using do[OF buffer] assms by blast
  have all: "zero_based (foldr (\<lambda>u. token_do (g u)) us k c)" if "\<And>u. keeps_base (g u)" for g :: "UChar \<Rightarrow> HTMLToken \<Rightarrow> HTMLToken option"
    using assms
  proof (induction us arbitrary: c)
    case Nil
    then show ?case using start[of c k] by simp
  next
    case (Cons u us)
    show ?case unfolding foldr.simps o_apply by (rule do[OF that]) (use Cons in auto)
  qed
  have "buffer_all us k = foldr (\<lambda>u. token_do (\<lambda>t. do { ASSERT (u \<noteq> kEndOfFileMarker); t1 \<leftarrow> ensureIsCharacterToken t; appendToCharacter u t1 })) us k"
    "value_all us k = foldr (\<lambda>u. token_do (appendToAttributeValue u)) us k"
    by (induction us) (simp_all add: bufferCharacter_def)
  then show "zero_based (append_comment us k c)" "zero_based (buffer_all us k c)" "zero_based (value_all us k c)"
    using all[of appendToComment] all[of appendToAttributeValue] all[OF buffer] keeps_base_ops by (simp_all add: append_comment_def)
qed

lemma zero_conf_do: "(\<And>d. f c = Some d \<Longrightarrow> zero_based (k d)) \<Longrightarrow> zero_based (conf_do f k c)"
  by (auto simp: conf_do_def split: option.splits)

lemma zero_emit [simp]:
  "base c = 0 \<Longrightarrow> zero_based (emitAndResumeIn st c)" "base c = 0 \<Longrightarrow> zero_based (emitAndReconsumeIn st c)"
  "base c = 0 \<Longrightarrow> zero_based (emitEndOfFile c)"
  by (auto simp: emitAndResumeIn_def emitAndReconsumeIn_def emitEndOfFile_def token_do_def makeEndOfFile_def tok_clear_def
      intro!: zero_conf_do dest!: save_form advance_source_form split: Option.bind_splits option.splits)

lemma zero_flush [simp]:
  assumes "base c = 0"
  shows "zero_based (FLUSH_AND_ADVANCE_TO st c)" "zero_based (flushEmitAndResumeIn st c)"
proof -
  have f: "flushBufferedEndTag (c\<lparr>tk_state := st\<rparr>) = Some (b, d) \<Longrightarrow> base d = 0" for b d
    using assms keeps_base_ops(3) by (auto simp: flushBufferedEndTag_def keeps_base_def dest!: advance_source_form split: Option.bind_splits if_splits)
  show "zero_based (FLUSH_AND_ADVANCE_TO st c)" "zero_based (flushEmitAndResumeIn st c)"
    by (auto simp: FLUSH_AND_ADVANCE_TO_def flushEmitAndResumeIn_def dest: f split: option.splits bool.splits)
qed

lemma zero_source:
  "base c = 0 \<Longrightarrow> (\<And>s t. tok_baseOffset t = 0 \<Longrightarrow> zero_based (k (c\<lparr>run_source := s, run_token := t\<rparr>))) \<Longrightarrow> zero_based (processEntity E k c)"
  "(\<And>s. zero_based (k1 (c\<lparr>run_source := s\<rparr>))) \<Longrightarrow> (\<And>s. zero_based (k2 (c\<lparr>run_source := s\<rparr>))) \<Longrightarrow> base c = 0 \<Longrightarrow>
   zero_based (look_ahead look k1 k2 c)"
  "(\<And>s. zero_based (k (c\<lparr>run_source := s\<rparr>))) \<Longrightarrow> zero_based (source_do f k c)"
  "(\<And>x. zero_based (kk x c)) \<Longrightarrow> zero_based (with_lower cc kk c)"
  "(\<And>buf. zero_based (k (c\<lparr>tk_bufferedEndTagName := buf\<rparr>))) \<Longrightarrow> zero_based (conf_do (addToPossibleEndTag l) k c)"
proof -
  show "zero_based (processEntity E k c)" if "base c = 0" "\<And>s t. tok_baseOffset t = 0 \<Longrightarrow> zero_based (k (c\<lparr>run_source := s, run_token := t\<rparr>))"
    using that by (auto simp: processEntity_def Let_def simp del: buffer_all.simps intro!: zero_do split: option.splits)
qed (auto simp: look_ahead_def source_do_def with_lower_def addToPossibleEndTag_def intro!: zero_conf_do split: option.splits LookAheadResult.splits Option.bind_splits if_splits)

lemma zero_state_block: "base c = 0 \<Longrightarrow> zero_based (state_block E cc c)"
  by (cases "tk_state c"; simp only: state_block_def State.case;
     auto simp: step_defs framed_defs endTagOpen_block_def endTagName_block_def Let_def intro!: zero_do zero_source keeps_base_ops
       split: option.splits)

lemma run_states_zero:
  assumes "run_states E cc c = Some r" "base c = 0"
  shows "base (snd r) = 0"
proof -
  have "base c = 0 \<longrightarrow> base (snd r) = 0"
  proof (rule run_states.raw_induct[where P = "\<lambda>E cc c r. base c = 0 \<longrightarrow> base (snd r) = 0", OF _ assms(1)])
    fix rs E cc c r
    assume ih: "\<And>E cc c y. rs E cc c = Some y \<Longrightarrow> base c = 0 \<longrightarrow> base (snd y) = 0"
      and step: "(case state_block E cc c of Goto cc1 c1 \<Rightarrow> rs E cc1 c1 | Ret b c1 \<Rightarrow> Some (b, c1) | Crash \<Rightarrow> None) = Some r"
    show "base c = 0 \<longrightarrow> base (snd r) = 0"
      using zero_state_block[of c E cc] step ih by (cases "state_block E cc c") auto
  qed
  with assms(2) show ?thesis by simp
qed

lemma enter_switch_zero: "enter_switch E c = Some (b, d) \<Longrightarrow> base c = 0 \<Longrightarrow> base d = 0"
  using zero_ends(2)[of c] run_states_zero[of E _ _ "(b, d)"] by (cases "peek_source c") (auto simp: enter_switch_def split: if_splits)

lemma nextToken_zero: "nextToken E addr c = Some (b, d) \<Longrightarrow> base c = 0 \<Longrightarrow> base d = 0"
  using enter_switch_zero[of E _ b d] keeps_base_ops(3)
  by (auto simp: nextToken_def startBufferedEndTag_def keeps_base_def Let_def split: Option.bind_splits if_splits)

section \<open>The state after a tag\<close>

text \<open>A token other than characters is handed over in the data state.\<close>

definition settles :: "outcome \<Rightarrow> bool" where
  "settles oc \<longleftrightarrow> (\<forall>d. oc = Ret True d \<longrightarrow> tok_type (run_token d) \<noteq> Character \<longrightarrow> tk_state d = DataState \<and> tk_bufferedEndTagName d = [])"

lemma settles_simps [simp]: "settles (Goto cc c)" "settles Crash" "settles (Ret False c)" "settles (return_buffered c)"
  "settles (Ret True c) = (tok_type (run_token c) \<noteq> Character \<longrightarrow> tk_state c = DataState \<and> tk_bufferedEndTagName c = [])"
  by (auto simp: settles_def return_buffered_def haveBufferedCharacterToken_def)

lemma settles_read [simp]: "settles (after_read c r)"
  by (auto simp: after_read_def Let_def split: option.splits)

lemma settles_ends [simp]: "settles (ADVANCE_TO st c)" "settles (peek_source c)" "settles (SWITCH_TO st c)" "settles (RECONSUME_IN st cc c)"
  by (simp_all add: ADVANCE_TO_def peek_source_def SWITCH_TO_def RECONSUME_IN_def Let_def)

lemma settles_emit:
  "tk_bufferedEndTagName c = [] \<Longrightarrow> settles (emitAndResumeIn DataState c)" "tk_bufferedEndTagName c = [] \<Longrightarrow> settles (emitAndReconsumeIn DataState c)"
  "tk_bufferedEndTagName c = [] \<Longrightarrow> settles (emitEndOfFile c)"
  by (auto simp: emitAndResumeIn_def emitAndReconsumeIn_def emitEndOfFile_def haveBufferedCharacterToken_def conf_do_def token_do_def
      dest!: save_form advance_source_form split: Option.bind_splits option.splits)

lemma settles_flush [simp]: "settles (FLUSH_AND_ADVANCE_TO st c)" "settles (flushEmitAndResumeIn DataState c)"
proof -
  have f: "flushBufferedEndTag (c\<lparr>tk_state := st\<rparr>) = Some (b, d) \<Longrightarrow>
      tk_state d = st \<and> (if b then tok_type (run_token d) = Character else tk_bufferedEndTagName d = [])" for b d st
    by (auto simp: flushBufferedEndTag_def dest!: advance_source_form split: Option.bind_splits if_splits)
  show "settles (FLUSH_AND_ADVANCE_TO st c)" "settles (flushEmitAndResumeIn DataState c)"
    by (auto simp: FLUSH_AND_ADVANCE_TO_def flushEmitAndResumeIn_def dest: f split: option.splits bool.splits if_splits)
qed

lemma settles_do:
  "(\<And>t. settles (k (c\<lparr>run_token := t\<rparr>))) \<Longrightarrow> settles (token_do f k c)"
  "(\<And>t. settles (k (c\<lparr>run_token := t\<rparr>))) \<Longrightarrow> settles (bufferCharacter ch k c)"
  "(\<And>x. settles (kk x c)) \<Longrightarrow> settles (with_lower cc kk c)"
  "(\<And>buf. settles (k (c\<lparr>tk_bufferedEndTagName := buf\<rparr>))) \<Longrightarrow> settles (conf_do (addToPossibleEndTag l) k c)"
  "(\<And>d. settles (k d)) \<Longrightarrow> settles (source_do f' k c)"
  "(\<And>d. settles (k d)) \<Longrightarrow> (\<And>d. settles (k2 d)) \<Longrightarrow> settles (look_ahead look k k2 c)"
  by (auto simp: token_do_def bufferCharacter_def with_lower_def addToPossibleEndTag_def source_do_def conf_do_def look_ahead_def
      split: option.splits if_splits Option.bind_splits LookAheadResult.splits)

lemma settles_lists:
  assumes "\<And>d. settles (k d)"
  shows "settles (append_comment us k c)" "settles (buffer_all us k c)" "settles (value_all us k c)" "settles (processEntity E k c)"
proof -
  show "settles (append_comment us k c)" unfolding append_comment_def using assms by (induction us arbitrary: c) (auto intro!: settles_do)
  show buf: "settles (buffer_all us k c)" for us c using assms by (induction us arbitrary: c) (auto intro!: settles_do)
  show "settles (value_all us k c)" using assms by (induction us arbitrary: c) (auto intro!: settles_do)
  show "settles (processEntity E k c)" using assms buf
    by (auto simp: processEntity_def Let_def simp del: buffer_all.simps intro!: settles_do split: option.splits)
qed

lemma state_block_settles:
  assumes "isEndTagNameState (tk_state c) \<or> tk_bufferedEndTagName c = []"
  shows "settles (state_block E cc c)"
  using assms
  by (cases "tk_state c"; simp only: state_block_def State.case;
     auto simp: step_defs framed_defs endTagOpen_block_def endTagName_block_def isEndTagNameState_def Let_def
       simp del: value_all.simps intro!: settles_do settles_lists settles_emit split: option.splits)

lemma run_states_settles:
  assumes "env_ok E" "run_inv E cc c" "run_states E cc c = Some (True, d)" "tok_type (run_token d) \<noteq> Character"
  shows "tk_state d = DataState \<and> tk_bufferedEndTagName d = []"
  using assms(2,3)
proof (induction "progress c" arbitrary: cc c rule: less_induct)
  case less
  show ?case
  proof (cases "state_block E cc c")
    case (Goto cc1 c1)
    note g = goto_weight[OF assms(1) less.prems(1) Goto]
    have "run_states E cc1 c1 = Some (True, d)" using less.prems(2) Goto by (subst (asm) run_states.simps) simp
    from less.hyps[OF g(2,1) this] show ?thesis .
  next
    case (Ret b c')
    with state_block_settles[OF entered(5)[OF less.prems(1)], of E cc] less.prems(2) assms(4) show ?thesis
      by (subst (asm) run_states.simps) (auto simp: settles_def)
  next
    case Crash
    with less.prems(2) show ?thesis by (subst (asm) run_states.simps) simp
  qed
qed

lemma enter_switch_settles:
  assumes "env_ok E" "stream_inv (run_source c)" "no_nul_reference (seg_toString (run_source c))"
    "pushed_ok E (tk_state c) (run_source c)" "offsets_ok (tk_state c) (run_token c) (run_source c)"
    "token_ok (tk_state c) False c" "enter_switch E c = Some (True, d)" "tok_type (run_token d) \<noteq> Character"
  shows "tk_state d = DataState \<and> tk_bufferedEndTagName d = []"
proof -
  have ne: "\<not> seg_empty (run_source c)" using assms(7,8) by (auto simp: enter_switch_def haveBufferedCharacterToken_def split: if_splits)
  then have g: "good E (Suc (progress c)) (run_source c) (peek_source c)"
    by (intro peek_good) (use assms in \<open>auto simp: readable_def\<close>)
  show ?thesis
  proof (cases "peek_source c")
    case (Goto cc1 c1)
    with g assms(7) ne run_states_settles[OF assms(1) _ _ assms(8), of cc1 c1] show ?thesis by (auto simp: good_def enter_switch_def)
  next
    case (Ret b c')
    with assms(7,8) ne settles_ends(2)[of c] show ?thesis by (auto simp: enter_switch_def settles_def)
  qed (use assms(7) ne in \<open>auto simp: enter_switch_def\<close>)
qed

lemma nextToken_settles:
  assumes "env_ok E" "idle_inv E c" "offsets_ok (tk_state c) (run_token c) (run_source c)"
    "nextToken E addr c = Some (True, d)" "tok_type (run_token d) \<noteq> Character"
  shows "tk_state d = DataState \<and> tk_bufferedEndTagName d = []"
proof (cases rule: nextToken_cases[OF assms(2-4)])
  case (1 c1)
  with enter_switch_settles[OF assms(1) 1(2-6,1) assms(5)] show ?thesis by simp
qed simp

section \<open>A client's loop\<close>

text \<open>What holds when a client asks for a token, and what it may do between two tokens.\<close>

definition client_inv :: "TokenizerEnv \<Rightarrow> nat \<Rightarrow> Conf \<Rightarrow> bool" where
  "client_inv E addr c \<longleftrightarrow> idle_inv E c \<and> (tk_token c = None \<or> tk_token c = Some addr) \<and> base c = 0 \<and>
     offsets_ok (tk_state c) (run_token c) (run_source c) \<and> tok_type (run_token c) \<noteq> Character"

lemma client_start:
  assumes "makeSegmentedString str = Some s" "no_nul_reference (characters str)"
  shows "client_inv E addr (start_conf opt s)"
  using start_idle[OF assms] by (simp add: client_inv_def)

lemma not_in_attribute:
  assumes "idle_inv E c" "tok_type (run_token c) = Uninitialized"
  shows "kind (tk_state c) \<noteq> KAttribute"
  using assms by (auto simp: idle_inv_def token_ok_def kind_ok_def end_tag_pending_def kind_def)

lemma nextToken_client:
  assumes "env_ok E" "client_inv E addr c"
  obtains (token) d where "nextToken E addr c = Some (True, d)" "client_inv E addr (next_call d)" "weight (next_call d) < weight c"
      "wf_token (run_token d)" "tok_type (run_token d) \<noteq> Uninitialized" "tk_token d = Some addr"
      "offset c \<le> offset d" "kept (run_source c) (run_source d)"
      "tok_type (run_token d) \<noteq> Character \<longrightarrow> tk_state d = DataState \<and> tk_bufferedEndTagName d = []"
  | (more) d where "nextToken E addr c = Some (False, d)" "client_inv E addr d" "tk_token d = Some addr" "kept (run_source c) (run_source d)"
proof -
  have c: "idle_inv E c" "offsets_ok (tk_state c) (run_token c) (run_source c)" "base c = 0" "tok_type (run_token c) \<noteq> Character"
    "tk_token c = None \<or> tk_token c = Some addr \<or> tok_type (run_token c) = Uninitialized"
    using assms(2) by (auto simp: client_inv_def)
  obtain b d where d: "nextToken E addr c = Some (b, d)" "ret_inv E b d" "kept (run_source c) (run_source d)"
    using nextToken_returns[OF assms(1) c(1,2,5)] by auto
  have f: "tk_token d = Some addr" "base d = 0" using nextToken_frame[OF d(1)] nextToken_zero[OF d(1) c(3)] by (auto simp: frame_def)
  show thesis
  proof (cases b)
    case True
    then have w: "weight d < weight c" using nextToken_weight[OF assms(1) c(1,2,4)] d(1) by simp
    then have "remaining d \<le> remaining c" using weight_bound[of c] by (simp add: weight_def)
    then have off: "offset c \<le> offset d" using d(3) by (simp add: kept_def)
    have idle: "idle_inv E (next_call d)" "wf_token (run_token d)" "tok_type (run_token d) \<noteq> Uninitialized"
      using d(2) True by (auto simp: ret_inv_def)
    have "0 \<le> offset c" using c(2,3) by (simp add: offsets_ok_def)
    then have "client_inv E addr (next_call d)"
      using idle(1) not_in_attribute[OF idle(1)] f off
      by (auto simp: client_inv_def offsets_ok_def next_call_def tok_clear_def)
    moreover have "tok_type (run_token d) \<noteq> Character \<longrightarrow> tk_state d = DataState \<and> tk_bufferedEndTagName d = []"
      using nextToken_settles[OF assms(1) c(1,2)] d(1) True by simp
    ultimately show thesis using token True d w idle f off by simp
  next
    case False
    then have "client_inv E addr d" using d(2) f by (auto simp: ret_inv_def client_inv_def)
    with more False d f show thesis by simp
  qed
qed

lemma client_append:
  assumes "client_inv E addr c" "\<not> seg_closed (run_source c)" "stream_inv t" "seg_append t (run_source c) = Some s"
    "no_nul_reference (seg_toString s)" "numberOfCharactersConsumed s = offset c"
  shows "client_inv E addr (c\<lparr>run_source := s\<rparr>)"
  using assms session_inv_append[of E c t s] by (auto simp: client_inv_def offsets_ok_def)

lemma client_state:
  assumes "client_inv E addr c" "tk_state c = DataState" "tk_bufferedEndTagName c = []" "isTextState st"
  shows "client_inv E addr (c\<lparr>tk_state := st\<rparr>)" "weight (c\<lparr>tk_state := st\<rparr>) = weight c"
  using assms by (auto simp: client_inv_def idle_inv_def pushed_ok_def state_defs end_tag_pending_def name_ok_def isTextState_def
      offsets_ok_def weight_def level_def)

lemma updateStateFor_text: "tk_state c = DataState \<Longrightarrow> \<exists>st. isTextState st \<and> updateStateFor name c = c\<lparr>tk_state := st\<rparr>"
proof -
  assume "tk_state c = DataState"
  then have id: "c\<lparr>tk_state := DataState\<rparr> = c" by simp
  have st: "isTextState DataState" "isTextState RCDATAState" "isTextState PLAINTEXTState" "isTextState ScriptDataState" "isTextState RAWTEXTState"
    by (simp_all add: isTextState_def)
  define reached where "reached = (\<lambda>d. \<exists>st. isTextState st \<and> d = c\<lparr>tk_state := st\<rparr>)"
  have "reached (c\<lparr>tk_state := RCDATAState\<rparr>)" "reached (c\<lparr>tk_state := PLAINTEXTState\<rparr>)" "reached (c\<lparr>tk_state := ScriptDataState\<rparr>)"
    "reached (c\<lparr>tk_state := RAWTEXTState\<rparr>)" "reached c"
    unfolding reached_def using st id by (blast, blast, blast, blast, metis)
  then have "reached (updateStateFor name c)" unfolding updateStateFor_def by (simp only: if_cancel split: if_split) simp
  then show ?thesis by (simp only: reached_def)
qed

lemma client_update:
  assumes "client_inv E addr c" "tk_state c = DataState" "tk_bufferedEndTagName c = []"
  shows "client_inv E addr (updateStateFor name c)" "weight (updateStateFor name c) = weight c"
  using updateStateFor_text[OF assms(2), of name] client_state[OF assms] by auto

text \<open>\<open>n\<close> tokens in a row: the client clears each token, and after a token other than characters it may switch to another text state.\<close>

inductive hands_over :: "TokenizerEnv \<Rightarrow> nat \<Rightarrow> nat \<Rightarrow> Conf \<Rightarrow> Conf \<Rightarrow> bool" for E addr where
  hands_none: "hands_over E addr 0 c c"
| hands_token: "hands_over E addr n c d \<Longrightarrow> nextToken E addr d = Some (True, e) \<Longrightarrow> hands_over E addr (Suc n) c (next_call e)"
| hands_switch: "hands_over E addr n c d \<Longrightarrow> nextToken E addr d = Some (True, e) \<Longrightarrow> tok_type (run_token e) \<noteq> Character \<Longrightarrow> isTextState st \<Longrightarrow>
    hands_over E addr (Suc n) c (next_call (e\<lparr>tk_state := st\<rparr>))"

lemma next_call_state: "next_call (e\<lparr>tk_state := st\<rparr>) = (next_call e)\<lparr>tk_state := st\<rparr>"
  by (simp add: next_call_def)

lemma hands_over_client:
  assumes "env_ok E" "client_inv E addr c" "hands_over E addr n c d"
  shows "client_inv E addr d \<and> n + weight d \<le> weight c"
  using assms(3,2)
proof (induction rule: hands_over.induct)
  case (hands_token n c d e)
  then have d: "client_inv E addr d" "n + weight d \<le> weight c" by auto
  show ?case by (cases rule: nextToken_client[OF assms(1) d(1)]) (use hands_token d(2) in auto)
next
  case (hands_switch n c d e st)
  then have d: "client_inv E addr d" "n + weight d \<le> weight c" by auto
  show ?case
  proof (cases rule: nextToken_client[OF assms(1) d(1)])
    case (1 e')
    with hands_switch have e: "e' = e" "tk_state (next_call e) = DataState" "tk_bufferedEndTagName (next_call e) = []"
      by (auto simp: next_call_def)
    from client_state[OF 1(2)[unfolded e(1)] e(2,3) hands_switch(4)] 1(3) d(2) e(1) show ?thesis by (simp add: next_call_state)
  qed (use hands_switch in auto)
qed simp

text \<open>C2: A client that takes token after token comes to an end. From any state of a parsing session whose unread text holds no numeric reference that decodes to NUL, at most eight tokens per character left, and seven more,
  can be handed over; the calls go on until one returns false, also when the client switches the tokenizer to another text state after a token.\<close>

theorem token_loop_ends:
  assumes "env_ok E" "client_inv E addr c"
  shows "(\<forall>n d. hands_over E addr n c d \<longrightarrow> n \<le> 8 * remaining c + 7 \<and> (\<exists>b e. nextToken E addr d = Some (b, e))) \<and>
    (\<exists>n d e. hands_over E addr n c d \<and> nextToken E addr d = Some (False, e))"
proof -
  have all: "n \<le> 8 * remaining c + 7 \<and> (\<exists>b e. nextToken E addr d = Some (b, e))" if "hands_over E addr n c d" for n d
  proof -
    have d: "client_inv E addr d" "n + weight d \<le> weight c" using hands_over_client[OF assms that] by auto
    then have "n \<le> 8 * remaining c + 7" using weight_bound[of c] by simp
    moreover have "\<exists>b e. nextToken E addr d = Some (b, e)" by (cases rule: nextToken_client[OF assms(1) d(1)]) auto
    ultimately show ?thesis by blast
  qed
  have "\<exists>d. hands_over E addr n c d" if never: "\<nexists>n d e. hands_over E addr n c d \<and> nextToken E addr d = Some (False, e)" for n
  proof (induction n)
    case 0
    show ?case using hands_none by blast
  next
    case (Suc n)
    then obtain d b e where "hands_over E addr n c d" "nextToken E addr d = Some (b, e)" using all by blast
    with never show ?case using hands_token[of E addr n c d e] by (cases b) auto
  qed
  from this[of "8 * remaining c + 8"] all show ?thesis by fastforce
qed

theorem token_loop_ends_witness:
  "\<exists>n d e. hands_over sample_env 7 n (start_conf sample_options (the (makeSegmentedString (UTF16 (lit ''<b>&lt;''))))) d \<and>
     nextToken sample_env 7 d = Some (False, e)"
proof -
  let ?s = "the (makeSegmentedString (UTF16 (lit ''<b>&lt;'')))"
  have "makeSegmentedString (UTF16 (lit ''<b>&lt;'')) = Some ?s" using makeSegmentedString_inv[of "UTF16 (lit ''<b>&lt;'')"] by auto
  from client_start[OF this, of sample_env 7] sample_no_nul have "client_inv sample_env 7 (start_conf sample_options ?s)" by simp
  from token_loop_ends[OF sample_env_ok this] show ?thesis by blast
qed

end
