(* ===== verification/Stack_Item.thy ===== *)
theory Stack_Item
  imports HTML_Token
begin

text \<open>
  What the tree builder keeps of a token and an element: \<open>AtomicHTMLToken\<close>
  (\<open>src/Source/WebCore/html/parser/AtomicHTMLToken.h\<close>) and \<open>HTMLStackItem\<close>
  (\<open>src/Source/WebCore/html/parser/HTMLStackItem.h\<close>).

  An \<open>AtomicString\<close> is its characters, \<open>None\<close> the null string. A DOM node is its address and,
  for an element, the qualified name it was created with. The tag and attribute names that the
  build generates from \<open>HTMLTagNames.in\<close>, \<open>mathtags.in\<close> and \<open>svgtags.in\<close> are written as the name
  and the namespace of those files. \<open>ENABLE(TEMPLATE_ELEMENT)\<close> is off, as in the Qt build.
\<close>

section \<open>Names and attributes\<close>

type_synonym AtomicString = "UChar list option"

record QualifiedName =
  qn_prefix :: AtomicString
  qn_localName :: AtomicString
  qn_namespaceURI :: AtomicString

definition qn_matches :: "QualifiedName \<Rightarrow> QualifiedName \<Rightarrow> bool" where
  "qn_matches q other \<longleftrightarrow> q = other \<or>
     (qn_localName q = qn_localName other \<and> qn_namespaceURI q = qn_namespaceURI other)"

record DOMAttribute =
  da_name :: QualifiedName
  da_value :: AtomicString

fun findAttributeInVector :: "DOMAttribute list \<Rightarrow> QualifiedName \<Rightarrow> DOMAttribute option" where
  "findAttributeInVector [] name = None"
| "findAttributeInVector (a # attributes) name =
     (if qn_matches (da_name a) name then Some a else findAttributeInVector attributes name)"

definition xhtmlNamespaceURI :: AtomicString where
  "xhtmlNamespaceURI = Some (lit ''http://www.w3.org/1999/xhtml'')"

definition mathmlNamespaceURI :: AtomicString where
  "mathmlNamespaceURI = Some (lit ''http://www.w3.org/1998/Math/MathML'')"

definition svgNamespaceURI :: AtomicString where
  "svgNamespaceURI = Some (lit ''http://www.w3.org/2000/svg'')"

definition htmlName :: "string \<Rightarrow> QualifiedName" where
  "htmlName s = \<lparr>qn_prefix = None, qn_localName = Some (lit s), qn_namespaceURI = xhtmlNamespaceURI\<rparr>"

definition mathmlName :: "string \<Rightarrow> QualifiedName" where
  "mathmlName s = \<lparr>qn_prefix = None, qn_localName = Some (lit s), qn_namespaceURI = mathmlNamespaceURI\<rparr>"

definition svgName :: "string \<Rightarrow> QualifiedName" where
  "svgName s = \<lparr>qn_prefix = None, qn_localName = Some (lit s), qn_namespaceURI = svgNamespaceURI\<rparr>"

definition attrName :: "string \<Rightarrow> QualifiedName" where
  "attrName s = \<lparr>qn_prefix = None, qn_localName = Some (lit s), qn_namespaceURI = None\<rparr>"

section \<open>AtomicHTMLToken\<close>

text \<open>Fields the constructor does not set for the token's type are \<open>None\<close>.\<close>

record AtomicHTMLToken =
  am_type :: TokenType
  am_name :: AtomicString
  am_data :: "UChar list"
  am_externalCharacters :: "UChar list option"
  am_isAll8BitData :: "bool option"
  am_doctypeData :: "DoctypeData option"
  am_selfClosing :: "bool option"
  am_attributes :: "DOMAttribute list"

definition nameForAttribute :: "TokenAttribute \<Rightarrow> QualifiedName" where
  "nameForAttribute a = \<lparr>qn_prefix = None, qn_localName = Some (attr_name a), qn_namespaceURI = None\<rparr>"

definition usesName :: "AtomicHTMLToken \<Rightarrow> bool" where
  "usesName t \<longleftrightarrow> am_type t = StartTag \<or> am_type t = EndTag \<or> am_type t = DOCTYPE"

definition usesAttributes :: "AtomicHTMLToken \<Rightarrow> bool" where
  "usesAttributes t \<longleftrightarrow> am_type t = StartTag \<or> am_type t = EndTag"

text \<open>
  The loop of \<open>initializeAttributes\<close>: attributes without a name are skipped, the ranges the tokenizer
  recorded are asserted, and of two attributes with one name the first stays.
\<close>

fun initializeAttributes_loop :: "TokenAttribute list \<Rightarrow> DOMAttribute list \<Rightarrow> DOMAttribute list option" where
  "initializeAttributes_loop [] acc = Some acc"
| "initializeAttributes_loop (a # rest) acc =
     (if attr_name a = [] then initializeAttributes_loop rest acc
      else do {
        ASSERT (rg_end (attr_nameRange a) \<noteq> 0);
        ASSERT (rg_start (attr_valueRange a) \<noteq> 0);
        ASSERT (rg_end (attr_valueRange a) \<noteq> 0);
        let name = nameForAttribute a;
        initializeAttributes_loop rest
          (if findAttributeInVector acc name = None then acc @ [\<lparr>da_name = name, da_value = Some (attr_value a)\<rparr>] else acc) })"

definition initializeAttributes :: "TokenAttribute list \<Rightarrow> AtomicHTMLToken \<Rightarrow> AtomicHTMLToken option" where
  "initializeAttributes attributes t =
     (if attributes = [] then Some t
      else do { as \<leftarrow> initializeAttributes_loop attributes []; Some (t\<lparr>am_attributes := as\<rparr>) })"

definition make8BitFrom16BitSource :: "UChar list \<Rightarrow> UChar list" where
  "make8BitFrom16BitSource cs = map (\<lambda>u. ucast (ucast u :: LChar)) cs"

definition blankAtomicToken :: "TokenType \<Rightarrow> AtomicHTMLToken" where
  "blankAtomicToken ty = \<lparr>am_type = ty, am_name = None, am_data = [], am_externalCharacters = None,
     am_isAll8BitData = None, am_doctypeData = None, am_selfClosing = None, am_attributes = []\<rparr>"

text \<open>The constructor from an \<open>HTMLToken\<close>, which takes the doctype data out of the token.\<close>

definition makeAtomicHTMLToken :: "HTMLToken \<Rightarrow> (AtomicHTMLToken \<times> HTMLToken) option" where
  "makeAtomicHTMLToken t =
     (let a = blankAtomicToken (tok_type t) in
      case tok_type t of
        Uninitialized \<Rightarrow> None
      | DOCTYPE \<Rightarrow> do {
          n \<leftarrow> token_name t;
          let (d, t1) = releaseDoctypeData t;
          Some (a\<lparr>am_name := Some n, am_doctypeData := d\<rparr>, t1) }
      | EndOfFile \<Rightarrow> Some (a, t)
      | StartTag \<Rightarrow> do {
          sc \<leftarrow> selfClosing t; n \<leftarrow> token_name t; as \<leftarrow> token_attributes t;
          a1 \<leftarrow> initializeAttributes as (a\<lparr>am_selfClosing := Some sc, am_name := Some n\<rparr>); Some (a1, t) }
      | EndTag \<Rightarrow> do {
          sc \<leftarrow> selfClosing t; n \<leftarrow> token_name t; as \<leftarrow> token_attributes t;
          a1 \<leftarrow> initializeAttributes as (a\<lparr>am_selfClosing := Some sc, am_name := Some n\<rparr>); Some (a1, t) }
      | Comment \<Rightarrow> do {
          cs \<leftarrow> token_comment t;
          Some (a\<lparr>am_data := if isAll8BitData t then make8BitFrom16BitSource cs else cs\<rparr>, t) }
      | Character \<Rightarrow> do {
          cs \<leftarrow> token_characters t;
          Some (a\<lparr>am_externalCharacters := Some cs, am_isAll8BitData := Some (isAll8BitData t)\<rparr>, t) })"

definition makeAtomicHTMLToken_name :: "TokenType \<Rightarrow> AtomicString \<Rightarrow> DOMAttribute list \<Rightarrow> AtomicHTMLToken option" where
  "makeAtomicHTMLToken_name ty name attributes = do {
     let a = (blankAtomicToken ty)\<lparr>am_name := name, am_externalCharacters := Some [], am_isAll8BitData := Some False,
       am_selfClosing := Some False, am_attributes := attributes\<rparr>;
     ASSERT (usesName a);
     Some a }"

definition am_getName :: "AtomicHTMLToken \<Rightarrow> AtomicString option" where
  "am_getName t = do { ASSERT (usesName t); Some (am_name t) }"

definition am_setName :: "AtomicString \<Rightarrow> AtomicHTMLToken \<Rightarrow> AtomicHTMLToken option" where
  "am_setName name t = do { ASSERT (usesName t); Some (t\<lparr>am_name := name\<rparr>) }"

definition am_getAttributes :: "AtomicHTMLToken \<Rightarrow> DOMAttribute list option" where
  "am_getAttributes t = do { ASSERT (usesAttributes t); Some (am_attributes t) }"

definition am_getAttributeItem :: "QualifiedName \<Rightarrow> AtomicHTMLToken \<Rightarrow> DOMAttribute option option" where
  "am_getAttributeItem attributeName t = do {
     ASSERT (usesAttributes t); Some (findAttributeInVector (am_attributes t) attributeName) }"

definition am_getSelfClosing :: "AtomicHTMLToken \<Rightarrow> bool option" where
  "am_getSelfClosing t = do { ASSERT (am_type t = StartTag \<or> am_type t = EndTag); am_selfClosing t }"

definition am_doctype :: "AtomicHTMLToken \<Rightarrow> DoctypeData option" where
  "am_doctype t = do { ASSERT (am_type t = DOCTYPE); am_doctypeData t }"

definition am_forceQuirks :: "AtomicHTMLToken \<Rightarrow> bool option" where
  "am_forceQuirks t = map_option dt_forceQuirks (am_doctype t)"

definition am_publicIdentifier :: "AtomicHTMLToken \<Rightarrow> UChar list option" where
  "am_publicIdentifier t = map_option dt_publicIdentifier (am_doctype t)"

definition am_systemIdentifier :: "AtomicHTMLToken \<Rightarrow> UChar list option" where
  "am_systemIdentifier t = map_option dt_systemIdentifier (am_doctype t)"

definition am_characters :: "AtomicHTMLToken \<Rightarrow> UChar list option" where
  "am_characters t = do { ASSERT (am_type t = Character); am_externalCharacters t }"

definition am_charactersLength :: "AtomicHTMLToken \<Rightarrow> nat option" where
  "am_charactersLength t = map_option length (am_characters t)"

definition am_comment :: "AtomicHTMLToken \<Rightarrow> UChar list option" where
  "am_comment t = do { ASSERT (am_type t = Comment); Some (am_data t) }"

definition makeAtomicHTMLToken_type :: "TokenType \<Rightarrow> AtomicHTMLToken" where
  "makeAtomicHTMLToken_type ty = (blankAtomicToken ty)\<lparr>am_externalCharacters := Some [],
     am_isAll8BitData := Some False, am_selfClosing := Some False\<rparr>"

section \<open>HTMLStackItem\<close>

record ContainerNode =
  nd_address :: nat
  nd_tagName :: "QualifiedName option"   \<comment> \<open>\<open>None\<close>: not an element\<close>

record HTMLStackItem =
  si_node :: ContainerNode
  si_tokenLocalName :: AtomicString
  si_tokenAttributes :: "DOMAttribute list"
  si_namespaceURI :: AtomicString
  si_isDocumentFragmentNode :: bool

datatype ItemType = ItemForContextElement | ItemForDocumentFragmentNode

definition createItem :: "ContainerNode \<Rightarrow> ItemType \<Rightarrow> HTMLStackItem" where
  "createItem node type = (let item = \<lparr>si_node = node, si_tokenLocalName = None, si_tokenAttributes = [],
       si_namespaceURI = None, si_isDocumentFragmentNode = False\<rparr> in
     case type of
       ItemForDocumentFragmentNode \<Rightarrow> item\<lparr>si_isDocumentFragmentNode := True\<rparr>
     | ItemForContextElement \<Rightarrow> item\<lparr>
         si_tokenLocalName := (case nd_tagName node of None \<Rightarrow> None | Some q \<Rightarrow> qn_localName q),
         si_namespaceURI := (case nd_tagName node of None \<Rightarrow> None | Some q \<Rightarrow> qn_namespaceURI q)\<rparr>)"

definition createItem_token :: "ContainerNode \<Rightarrow> AtomicHTMLToken \<Rightarrow> AtomicString \<Rightarrow> HTMLStackItem option" where
  "createItem_token node token namespaceURI = do {
     n \<leftarrow> am_getName token; as \<leftarrow> am_getAttributes token;
     Some \<lparr>si_node = node, si_tokenLocalName = n, si_tokenAttributes = as,
       si_namespaceURI = namespaceURI, si_isDocumentFragmentNode = False\<rparr> }"

text \<open>\<open>Node::hasTagName\<close> and \<open>toElement\<close>; an element is its address.\<close>

definition node_hasTagName :: "ContainerNode \<Rightarrow> QualifiedName \<Rightarrow> bool" where
  "node_hasTagName node name \<longleftrightarrow> (case nd_tagName node of None \<Rightarrow> False | Some q \<Rightarrow> qn_matches q name)"

definition item_element :: "HTMLStackItem \<Rightarrow> nat option" where
  "item_element item = do { ASSERT (nd_tagName (si_node item) \<noteq> None); Some (nd_address (si_node item)) }"

definition isElementNode :: "HTMLStackItem \<Rightarrow> bool" where
  "isElementNode item \<longleftrightarrow> \<not> si_isDocumentFragmentNode item"

definition item_attributes :: "HTMLStackItem \<Rightarrow> DOMAttribute list option" where
  "item_attributes item = do { ASSERT (si_tokenLocalName item \<noteq> None); Some (si_tokenAttributes item) }"

definition item_getAttributeItem :: "HTMLStackItem \<Rightarrow> QualifiedName \<Rightarrow> DOMAttribute option option" where
  "item_getAttributeItem item attributeName = do {
     ASSERT (si_tokenLocalName item \<noteq> None);
     Some (findAttributeInVector (si_tokenAttributes item) attributeName) }"

definition hasLocalName :: "HTMLStackItem \<Rightarrow> AtomicString \<Rightarrow> bool" where
  "hasLocalName item name \<longleftrightarrow> si_tokenLocalName item = name"

definition hasTagName :: "HTMLStackItem \<Rightarrow> QualifiedName \<Rightarrow> bool" where
  "hasTagName item name \<longleftrightarrow> si_tokenLocalName item = qn_localName name \<and> si_namespaceURI item = qn_namespaceURI name"

definition matchesHTMLTag :: "HTMLStackItem \<Rightarrow> AtomicString \<Rightarrow> bool" where
  "matchesHTMLTag item name \<longleftrightarrow> si_tokenLocalName item = name \<and> si_namespaceURI item = xhtmlNamespaceURI"

definition causesFosterParenting :: "HTMLStackItem \<Rightarrow> bool" where
  "causesFosterParenting item \<longleftrightarrow> hasTagName item (htmlName ''table'') \<or> hasTagName item (htmlName ''tbody'')
     \<or> hasTagName item (htmlName ''tfoot'') \<or> hasTagName item (htmlName ''thead'') \<or> hasTagName item (htmlName ''tr'')"

definition isInHTMLNamespace :: "HTMLStackItem \<Rightarrow> bool" where
  "isInHTMLNamespace item \<longleftrightarrow> si_namespaceURI item = xhtmlNamespaceURI \<or> si_isDocumentFragmentNode item"

definition isNumberedHeaderElement :: "HTMLStackItem \<Rightarrow> bool" where
  "isNumberedHeaderElement item \<longleftrightarrow> hasTagName item (htmlName ''h1'') \<or> hasTagName item (htmlName ''h2'')
     \<or> hasTagName item (htmlName ''h3'') \<or> hasTagName item (htmlName ''h4'')
     \<or> hasTagName item (htmlName ''h5'') \<or> hasTagName item (htmlName ''h6'')"

definition isTableBodyContextElement :: "HTMLStackItem \<Rightarrow> bool" where
  "isTableBodyContextElement item \<longleftrightarrow> hasTagName item (htmlName ''tbody'')
     \<or> hasTagName item (htmlName ''tfoot'') \<or> hasTagName item (htmlName ''thead'')"

definition localNameIn :: "HTMLStackItem \<Rightarrow> string list \<Rightarrow> bool" where
  "localNameIn item names \<longleftrightarrow> list_ex (\<lambda>n. si_tokenLocalName item = Some (lit n)) names"

definition isSpecialNode :: "HTMLStackItem \<Rightarrow> bool" where
  "isSpecialNode item \<longleftrightarrow>
   (if hasTagName item (mathmlName ''mi'') \<or> hasTagName item (mathmlName ''mo'') \<or> hasTagName item (mathmlName ''mn'')
     \<or> hasTagName item (mathmlName ''ms'') \<or> hasTagName item (mathmlName ''mtext'')
     \<or> hasTagName item (mathmlName ''annotation-xml'') \<or> hasTagName item (svgName ''foreignObject'')
     \<or> hasTagName item (svgName ''desc'') \<or> hasTagName item (svgName ''title'') then True
    else if si_isDocumentFragmentNode item then True
    else if \<not> isInHTMLNamespace item then False
    else localNameIn item [
     ''address'', ''applet'', ''area'', ''article'', ''aside'', ''base'', ''basefont'',
     ''bgsound'', ''blockquote'', ''body'', ''br'', ''button'', ''caption'', ''center'',
     ''col'', ''colgroup'', ''command'', ''dd'', ''details'', ''dir'', ''div'', ''dl'', ''dt'',
     ''embed'', ''fieldset'', ''figcaption'', ''figure'', ''footer'', ''form'', ''frame'',
     ''frameset'']
     \<or> isNumberedHeaderElement item
     \<or> localNameIn item [
     ''head'', ''header'', ''hgroup'', ''hr'', ''html'', ''iframe'', ''img'', ''input'',
     ''isindex'', ''li'', ''link'', ''listing'', ''main'', ''marquee'', ''menu'', ''meta'',
     ''nav'', ''noembed'', ''noframes'', ''noscript'', ''object'', ''ol'', ''p'', ''param'',
     ''plaintext'', ''pre'', ''script'', ''section'', ''select'', ''style'', ''summary'',
     ''table'']
     \<or> isTableBodyContextElement item
     \<or> localNameIn item [
     ''td'', ''textarea'', ''th'', ''title'', ''tr'', ''ul'', ''wbr'', ''xmp''])"

section \<open>Attributes of an atomic token\<close>

definition domAttribute :: "TokenAttribute \<Rightarrow> DOMAttribute" where
  "domAttribute a = \<lparr>da_name = nameForAttribute a, da_value = Some (attr_value a)\<rparr>"

definition ranges_set :: "TokenAttribute \<Rightarrow> bool" where
  "ranges_set a \<longleftrightarrow> rg_end (attr_nameRange a) \<noteq> 0 \<and> rg_start (attr_valueRange a) \<noteq> 0 \<and> rg_end (attr_valueRange a) \<noteq> 0"

lemma findAttribute_append: "findAttributeInVector (xs @ ys) q =
   (case findAttributeInVector xs q of None \<Rightarrow> findAttributeInVector ys q | Some d \<Rightarrow> Some d)"
  by (induction xs) auto

lemma findAttribute_None: "findAttributeInVector xs q = None \<longleftrightarrow> (\<forall>d \<in> set xs. \<not> qn_matches (da_name d) q)"
  by (induction xs) auto

lemma matches_nameForAttribute: "qn_matches (nameForAttribute a) (nameForAttribute b) \<longleftrightarrow> attr_name a = attr_name b"
  by (auto simp: qn_matches_def nameForAttribute_def)

lemma matches_trans: "qn_matches q r \<Longrightarrow> qn_matches r r' \<Longrightarrow> qn_matches q r'"
  by (auto simp: qn_matches_def)

lemma initializeAttributes_loop_spec:
  assumes "\<forall>a \<in> set as. attr_name a \<noteq> [] \<and> ranges_set a" "distinct (map da_name acc)"
  shows "\<exists>ds. initializeAttributes_loop as acc = Some ds \<and> distinct (map da_name ds) \<and>
    (\<forall>q. findAttributeInVector ds q = (case findAttributeInVector acc q of Some d \<Rightarrow> Some d
       | None \<Rightarrow> map_option domAttribute (List.find (\<lambda>a. qn_matches (nameForAttribute a) q) as)))"
  using assms
proof (induction as arbitrary: acc)
  case Nil
  then show ?case by (auto split: option.splits)
next
  case (Cons a as)
  define acc' where "acc' = (if findAttributeInVector acc (nameForAttribute a) = None then acc @ [domAttribute a] else acc)"
  have step: "initializeAttributes_loop (a # as) acc = initializeAttributes_loop as acc'"
    using Cons.prems(1) by (simp add: ranges_set_def acc'_def domAttribute_def Let_def)
  have "nameForAttribute a \<notin> set (map da_name acc)" if "findAttributeInVector acc (nameForAttribute a) = None"
    using that by (auto simp: findAttribute_None qn_matches_def)
  then have "distinct (map da_name acc')" using Cons.prems(2) by (simp add: acc'_def domAttribute_def)
  then obtain ds where ds: "initializeAttributes_loop as acc' = Some ds" "distinct (map da_name ds)"
    "\<And>q. findAttributeInVector ds q = (case findAttributeInVector acc' q of Some d \<Rightarrow> Some d
       | None \<Rightarrow> map_option domAttribute (List.find (\<lambda>a. qn_matches (nameForAttribute a) q) as))"
    using Cons.IH[of acc'] Cons.prems(1) by auto
  have "findAttributeInVector acc' q = (case findAttributeInVector acc q of Some d \<Rightarrow> Some d
       | None \<Rightarrow> if qn_matches (nameForAttribute a) q then Some (domAttribute a) else None)" for q
  proof (cases "findAttributeInVector acc (nameForAttribute a) = None")
    case True
    then show ?thesis by (simp add: acc'_def findAttribute_append domAttribute_def split: option.splits)
  next
    case False
    then have "findAttributeInVector acc q \<noteq> None" if "qn_matches (nameForAttribute a) q"
      using that unfolding findAttribute_None by (blast intro: matches_trans)
    with False show ?thesis by (auto simp: acc'_def split: option.splits)
  qed
  then have "findAttributeInVector ds q = (case findAttributeInVector acc q of Some d \<Rightarrow> Some d
       | None \<Rightarrow> map_option domAttribute (List.find (\<lambda>a. qn_matches (nameForAttribute a) q) (a # as)))" for q
    unfolding ds(3) by (auto split: option.splits)
  with step ds(1,2) show ?case by auto
qed

lemma make8Bit_lossless: "\<forall>u \<in> set cs. u \<le> 0xFF \<Longrightarrow> make8BitFrom16BitSource cs = cs"
proof -
  have "ucast (ucast u :: LChar) = (u :: UChar)" if "u \<le> 0xFF" for u
  proof -
    have "unat u < 2 ^ 8" using that by (simp add: word_le_nat_alt)
    then show ?thesis by (intro word_unat_eq_iff[THEN iffD2]) (simp add: unsigned_ucast_eq unsigned_take_bit_eq take_bit_nat_eq_self)
  qed
  then show "\<forall>u \<in> set cs. u \<le> 0xFF \<Longrightarrow> make8BitFrom16BitSource cs = cs"
    unfolding make8BitFrom16BitSource_def by (intro map_idI) blast
qed

section \<open>Literals and items for examples\<close>

lemma of_char_UChar: "(of_char c :: UChar) = of_char d \<longleftrightarrow> c = d"
proof
  assume a: "(of_char c :: UChar) = of_char d"
  have "unat (of_char e :: UChar) = of_char e" for e
  proof -
    have "of_char e < (2 :: nat) ^ 16" by (rule less_le_trans[OF nat_of_char_less_256]) simp
    then have "take_bit 16 (of_char e :: nat) = of_char e" by (rule take_bit_nat_eq_self)
    then have "unat (of_nat (of_char e) :: UChar) = of_char e" by (simp add: unsigned_of_nat del: of_nat_of_char)
    then show ?thesis unfolding of_nat_of_char .
  qed
  then have "(of_char c :: nat) = of_char d" using a by metis
  then show "c = d" by simp
qed simp

lemma lit_eq [simp]: "lit a = lit b \<longleftrightarrow> a = b"
proof
  assume "lit a = lit b"
  then show "a = b" unfolding lit_def
    by (induction a arbitrary: b) (auto simp: of_char_UChar Cons_eq_map_conv)
qed simp


definition sample_item :: "nat \<Rightarrow> string \<Rightarrow> HTMLStackItem" where
  "sample_item a n = \<lparr>si_node = \<lparr>nd_address = a, nd_tagName = Some (htmlName n)\<rparr>, si_tokenLocalName = Some (lit n),
     si_tokenAttributes = [], si_namespaceURI = xhtmlNamespaceURI, si_isDocumentFragmentNode = False\<rparr>"

lemma sample_tag [simp]: "hasTagName (sample_item a n) (htmlName m) \<longleftrightarrow> n = m"
  by (auto simp: hasTagName_def sample_item_def htmlName_def)

lemma sample_matches [simp]: "matchesHTMLTag (sample_item a n) (Some (lit m)) \<longleftrightarrow> n = m"
  by (auto simp: matchesHTMLTag_def sample_item_def)

end
