(* ===== verification/Token_Ranges.thy ===== *)
theory Token_Ranges
  imports Tokenizer_Progress Stack_Item
begin

text \<open>
  The source ranges of attributes. The tokenizer records where the name and the value of an attribute start and end, relative to the
  base offset of the token, and \<open>AtomicHTMLToken\<close> asserts that the ends it reads are not zero. Here: every state keeps the ranges of finished
  attributes set, so every tag handed over has them all.
\<close>

section \<open>Ranges of a tag in progress\<close>

definition untagged :: "HTMLToken \<Rightarrow> bool" where
  "untagged t \<longleftrightarrow> \<not> isTagType (tok_type t)"

definition attribute_open :: "TokenAttribute list \<Rightarrow> TokenAttribute \<Rightarrow> HTMLToken \<Rightarrow> bool" where
  "attribute_open as a t \<longleftrightarrow> tok_attributes t = as @ [a] \<and> tok_currentAttribute t = Some (length as) \<and> list_all ranges_set as"

definition value_open :: "TokenAttribute \<Rightarrow> bool" where
  "value_open a \<longleftrightarrow> rg_end (attr_nameRange a) \<noteq> 0 \<and> rg_start (attr_valueRange a) \<noteq> 0"

definition ranged :: "State \<Rightarrow> HTMLToken \<Rightarrow> SegmentedString \<Rightarrow> bool" where
  "ranged st t s \<longleftrightarrow> isTagType (tok_type t) \<and> st \<noteq> DataState \<longrightarrow>
     (if st = AttributeNameState then \<exists>as a. attribute_open as a t
      else if kind st = KAttribute then \<exists>as a. attribute_open as a t \<and> ranges_set a
      else if kind st = KValue then (\<exists>as a. attribute_open as a t \<and> value_open a) \<and> tok_baseOffset t < numberOfCharactersConsumed s
      else list_all ranges_set (tok_attributes t))"

definition ranges :: "outcome \<Rightarrow> bool" where
  "ranges oc \<longleftrightarrow> (case oc of
     Goto cc c \<Rightarrow> ranged (tk_state c) (run_token c) (run_source c)
   | Ret b c \<Rightarrow> if b then isTagType (tok_type (run_token c)) \<longrightarrow> list_all ranges_set (tok_attributes (run_token c))
       else ranged (tk_state c) (run_token c) (run_source c)
   | Crash \<Rightarrow> True)"

lemma ranges_simps [simp]: "ranges (Goto cc c) = ranged (tk_state c) (run_token c) (run_source c)" "ranges Crash"
  "ranges (Ret True c) = (isTagType (tok_type (run_token c)) \<longrightarrow> list_all ranges_set (tok_attributes (run_token c)))"
  "ranges (Ret False c) = ranged (tk_state c) (run_token c) (run_source c)"
  by (simp_all add: ranges_def)

lemma ranged_untagged [simp]: "untagged t \<Longrightarrow> ranged st t s"
  by (simp add: ranged_def untagged_def)

lemma ranged_data [simp]: "ranged DataState t s"
  by (simp add: ranged_def)

lemma ranged_tag: "kind st = KTag \<Longrightarrow> isTagType (tok_type t) \<Longrightarrow> ranged st t s = list_all ranges_set (tok_attributes t)"
  by (cases st) (auto simp: ranged_def kind_def)

lemma ranged_mono: "ranged st t s \<Longrightarrow> numberOfCharactersConsumed s \<le> numberOfCharactersConsumed s' \<Longrightarrow> ranged st t s'"
  by (auto simp: ranged_def)

section \<open>The ends of blocks\<close>

lemma ranges_buffered: "ranged (tk_state c) (run_token c) (run_source c) \<Longrightarrow> ranges (return_buffered c)"
  by (cases "haveBufferedCharacterToken c") (auto simp: return_buffered_def haveBufferedCharacterToken_def)

lemma ranges_read:
  assumes "read_ok s r" "stream_inv s" "ranged (tk_state c) (run_token c) s"
  shows "ranges (after_read c r)"
proof -
  obtain b p s' where r: "r = Some (b, p, s')" "advances s s'" using assms(1) by (auto simp: read_ok_def)
  have "numberOfCharactersConsumed s \<le> numberOfCharactersConsumed s'"
    using advances_facts(2,3)[OF r(2) assms(2)] by auto
  from ranged_mono[OF assms(3) this] r(1) show ?thesis by (auto simp: after_read_def Let_def intro!: ranges_buffered)
qed

lemma ranges_ADVANCE:
  assumes "readable (run_source c)" "ranged st (run_token c) (run_source c)"
  shows "ranges (ADVANCE_TO st c)"
proof -
  let ?c = "c\<lparr>tk_state := st\<rparr>"
  obtain s where s: "advanced (run_source c) s" "read_ok s (pre_advance (shouldSkipNullCharacters ?c) (tk_inputStreamPreprocessor ?c) (run_source ?c))"
    using advance_read[of "run_source c"] assms(1) by auto
  have "stream_inv s" "numberOfCharactersConsumed (run_source c) \<le> numberOfCharactersConsumed s"
    using s(1) by (auto simp: advanced_def)
  with s(2) ranged_mono[OF assms(2)] show ?thesis unfolding ADVANCE_TO_def Let_def by (intro ranges_read[of s]) auto
qed

lemma ranges_SWITCH:
  assumes "stream_inv (run_source c)" "ranged st (run_token c) (run_source c)"
  shows "ranges (SWITCH_TO st c)"
proof (cases "seg_empty (run_source c)")
  case False
  with peek_read[of "run_source c"] assms show ?thesis
    by (auto simp: SWITCH_TO_def peek_source_def readable_def Let_def intro!: ranges_read[of "run_source c"])
qed (use assms in \<open>simp add: SWITCH_TO_def ranges_buffered\<close>)

lemma ranges_RECONSUME [simp]: "ranges (RECONSUME_IN st cc c) = ranged st (run_token c) (run_source c)"
  by (simp add: RECONSUME_IN_def)

lemma ranges_emit:
  assumes "isTagType (tok_type (run_token c)) \<longrightarrow> list_all ranges_set (tok_attributes (run_token c))"
  shows "ranges (emitAndResumeIn st c)" "ranges (emitAndReconsumeIn st c)"
  using assms by (auto simp: emitAndResumeIn_def emitAndReconsumeIn_def conf_do_def dest!: save_form advance_source_form
      split: Option.bind_splits option.splits)

lemma ranges_eof [simp]: "ranges (emitEndOfFile c)"
  by (auto simp: emitEndOfFile_def haveBufferedCharacterToken_def conf_do_def token_do_def makeEndOfFile_def
      dest!: advance_source_form split: Option.bind_splits option.splits)

section \<open>Blocks without a tag\<close>

definition keeps_untagged :: "(HTMLToken \<Rightarrow> HTMLToken option) \<Rightarrow> bool" where
  "keeps_untagged f \<longleftrightarrow> (\<forall>t t'. f t = Some t' \<longrightarrow> untagged t \<longrightarrow> untagged t')"

lemma keeps_untagged_ops:
  "keeps_untagged beginComment" "keeps_untagged (appendToComment x)" "keeps_untagged beginDOCTYPE" "keeps_untagged (beginDOCTYPE_char x)"
  "keeps_untagged setForceQuirks" "keeps_untagged setPublicIdentifierToEmptyString" "keeps_untagged setSystemIdentifierToEmptyString"
  "keeps_untagged (appendToPublicIdentifier x)" "keeps_untagged (appendToSystemIdentifier x)" "keeps_untagged (appendToCharacter_vector v)"
  "keeps_untagged (appendToName x)"
  by (auto simp: keeps_untagged_def untagged_def beginComment_def appendToComment_def beginDOCTYPE_def beginDOCTYPE_char_def setForceQuirks_def
      setPublicIdentifierToEmptyString_def setSystemIdentifierToEmptyString_def appendToPublicIdentifier_def appendToSystemIdentifier_def
      appendToCharacter_vector_def appendToName_def onDoctypeData_def appendData_def split: Option.bind_splits if_splits option.splits)

lemma untagged_read: "untagged (run_token c) \<Longrightarrow> ranges (after_read c r)"
  by (auto simp: after_read_def Let_def intro!: ranges_buffered split: option.splits)

lemma untagged_ends [simp]:
  assumes "untagged (run_token c)"
  shows "ranges (ADVANCE_TO st c)" "ranges (SWITCH_TO st c)" "ranges (peek_source c)" "ranges (return_buffered c)" "ranges (emitAndResumeIn st c)"
    "ranges (emitAndReconsumeIn st c)"
  using assms assms[unfolded untagged_def] by (auto simp: ADVANCE_TO_def SWITCH_TO_def peek_source_def Let_def intro!: untagged_read ranges_buffered ranges_emit)

lemma ranges_do: "(\<And>t. f (run_token c) = Some t \<Longrightarrow> ranges (k (c\<lparr>run_token := t\<rparr>))) \<Longrightarrow> ranges (token_do f k c)"
  by (auto simp: token_do_def split: option.splits)

lemma untagged_do:
  assumes "untagged (run_token c)" "\<And>t. untagged t \<Longrightarrow> ranges (k (c\<lparr>run_token := t\<rparr>))"
  shows "keeps_untagged f \<Longrightarrow> ranges (token_do f k c)" "ranges (bufferCharacter ch k c)" "ranges (append_comment us k c)" "ranges (buffer_all us k c)"
proof -
  have do: "ranges (token_do f k c)" if "keeps_untagged f" "untagged (run_token c)" "\<And>t. untagged t \<Longrightarrow> ranges (k (c\<lparr>run_token := t\<rparr>))" for f k c
    using that by (auto simp: keeps_untagged_def intro!: ranges_do)
  have buffer: "keeps_untagged (\<lambda>t. do { ASSERT (ch \<noteq> kEndOfFileMarker); t1 \<leftarrow> ensureIsCharacterToken t; appendToCharacter ch t1 })" for ch
    by (auto simp: keeps_untagged_def untagged_def ensureIsCharacterToken_def appendToCharacter_def split: Option.bind_splits if_splits)
  show "keeps_untagged f \<Longrightarrow> ranges (token_do f k c)" using do assms by blast
  show "ranges (bufferCharacter ch k c)" unfolding bufferCharacter_def using do[OF buffer] assms by blast
  have all: "ranges (foldr (\<lambda>u. token_do (g u)) us k c)" if "\<And>u. keeps_untagged (g u)" for g :: "UChar \<Rightarrow> HTMLToken \<Rightarrow> HTMLToken option"
    using assms
  proof (induction us arbitrary: c)
    case Nil
    from Nil(2)[OF Nil(1)] show ?case by simp
  next
    case (Cons u us)
    show ?case unfolding foldr.simps o_apply by (rule do[OF that]) (use Cons in auto)
  qed
  have "buffer_all us k = foldr (\<lambda>u. token_do (\<lambda>t. do { ASSERT (u \<noteq> kEndOfFileMarker); t1 \<leftarrow> ensureIsCharacterToken t; appendToCharacter u t1 })) us k"
    by (induction us) (simp_all add: bufferCharacter_def)
  then show "ranges (append_comment us k c)" "ranges (buffer_all us k c)"
    using all[of appendToComment] all[OF buffer] keeps_untagged_ops by (simp_all add: append_comment_def)
qed

lemma ranges_inside:
  "(\<And>x. ranges (kk x c)) \<Longrightarrow> ranges (with_lower cc kk c)"
  "(\<And>buf. ranges (k (c\<lparr>tk_bufferedEndTagName := buf\<rparr>))) \<Longrightarrow> ranges (conf_do (addToPossibleEndTag l) k c)"
  "(\<And>s. ranges (k (c\<lparr>run_source := s\<rparr>))) \<Longrightarrow> ranges (source_do f k c)"
  "(\<And>s. ranges (k (c\<lparr>run_source := s\<rparr>))) \<Longrightarrow> (\<And>s. ranges (k2 (c\<lparr>run_source := s\<rparr>))) \<Longrightarrow> untagged (run_token c) \<Longrightarrow> ranges (look_ahead look k k2 c)"
  "untagged (run_token c) \<Longrightarrow> (\<And>s t. untagged t \<Longrightarrow> ranges (k (c\<lparr>run_source := s, run_token := t\<rparr>))) \<Longrightarrow> ranges (processEntity E k c)"
proof -
  show "ranges (processEntity E k c)" if "untagged (run_token c)" "\<And>s t. untagged t \<Longrightarrow> ranges (k (c\<lparr>run_source := s, run_token := t\<rparr>))"
    using that by (auto simp: processEntity_def Let_def simp del: buffer_all.simps intro!: untagged_do split: option.splits)
qed (auto simp: with_lower_def addToPossibleEndTag_def source_do_def conf_do_def look_ahead_def
    split: option.splits if_splits Option.bind_splits LookAheadResult.splits)

text \<open>A possible end tag becomes a tag without attributes.\<close>

lemma ranges_flush:
  "ranges (flushEmitAndResumeIn st c)" "readable (run_source c) \<Longrightarrow> kind st = KTag \<Longrightarrow> ranges (FLUSH_AND_ADVANCE_TO st c)"
proof -
  have f: "tk_state d = st \<and> (if b then tok_type (run_token d) = Character else isTagType (tok_type (run_token d)) \<and> tok_attributes (run_token d) = []) \<and>
      (readable (run_source c) \<longrightarrow> stream_inv (run_source d))"
    if "flushBufferedEndTag (c\<lparr>tk_state := st\<rparr>) = Some (b, d)" for b d
  proof -
    have "stream_inv (run_source d)" if r: "readable (run_source c)"
      using flush_weight(2)[of "8 * remaining c" c st b d] r \<open>flushBufferedEndTag (c\<lparr>tk_state := st\<rparr>) = Some (b, d)\<close> by (simp add: below_def)
    then show ?thesis using that
      by (auto simp: flushBufferedEndTag_def beginEndTag_vector_def dest!: advance_source_form split: Option.bind_splits if_splits)
  qed
  show "ranges (flushEmitAndResumeIn st c)"
    by (auto simp: flushEmitAndResumeIn_def dest!: f split: option.splits if_splits)
  show "ranges (FLUSH_AND_ADVANCE_TO st c)" if "readable (run_source c)" "kind st = KTag"
  proof (cases "flushBufferedEndTag (c\<lparr>tk_state := st\<rparr>)")
    case (Some r)
    obtain b d where r: "flushBufferedEndTag (c\<lparr>tk_state := st\<rparr>) = Some (b, d)" using Some by (cases r) auto
    have "ranges (if seg_empty (run_source d) then return_buffered d else peek_source d)" if "\<not> b"
      using ranges_SWITCH[of d st] f[OF r] \<open>readable (run_source c)\<close> \<open>kind st = KTag\<close> that
      by (auto simp: SWITCH_TO_def ranged_tag Let_def)
    with r f[OF r] show ?thesis by (cases b) (auto simp: FLUSH_AND_ADVANCE_TO_def)
  qed (simp add: FLUSH_AND_ADVANCE_TO_def)
qed

definition tag_kind :: "State \<Rightarrow> bool" where
  "tag_kind st \<longleftrightarrow> kind st \<in> {KTag, KAttribute, KValue}"

lemma begin_tag:
  assumes "readable (run_source c)"
  shows "ranges (token_do (beginStartTag x) (ADVANCE_TO TagNameState) c)" "ranges (token_do (beginEndTag l) (clear_appropriateEndTagName (ADVANCE_TO TagNameState)) c)"
  using assms by (auto simp: beginStartTag_def beginEndTag_def clear_appropriateEndTagName_def ranged_tag kind_def split: if_splits intro!: ranges_do ranges_ADVANCE)

lemma open_block:
  assumes "untagged (run_token c)" "readable (run_source c)"
  shows "ranges (TagOpenState_step cc c)" "ranges (EndTagOpenState_step cc c)"
  using assms begin_tag[OF assms(2)] by (auto simp: TagOpenState_step_def EndTagOpenState_step_def intro!: untagged_do(2) ranges_inside(1))

lemma end_tag_block:
  assumes "untagged (run_token c)" "readable (run_source c)"
  shows "ranges (endTagOpen_block st txt cc c)" "ranges (endTagName_block st txt cc c)"
  using assms by (auto simp: endTagOpen_block_def endTagName_block_def giveUpEndTag_def set_temporaryBuffer_def kind_def
      intro!: untagged_do keeps_untagged_ops ranges_inside ranges_flush)

lemma untagged_block:
  assumes "untagged (run_token c)" "\<not> tag_kind (tk_state c)" "tk_state c \<notin> {TagOpenState, EndTagOpenState}" "readable (run_source c)"
  shows "ranges (state_block E cc c)"
  using assms
  by (cases "tk_state c"; simp only: state_block_def State.case;
     auto simp: step_defs framed_defs Let_def tag_kind_def kind_def
       intro!: untagged_do ranges_inside keeps_untagged_ops end_tag_block split: option.splits)

section \<open>Blocks of a tag\<close>

lemma open_finished: "attribute_open as a t \<Longrightarrow> ranges_set a \<Longrightarrow> list_all ranges_set (tok_attributes t)"
  by (simp add: attribute_open_def)

lemma open_update:
  assumes "attribute_open as a t"
  shows "onCurrentAttribute f t = Some (t\<lparr>tok_attributes := as @ [f a]\<rparr>)" "attribute_open as b (t\<lparr>tok_attributes := as @ [d]\<rparr>) \<longleftrightarrow> d = b"
    "currentAttribute t = Some a"
  using assms by (simp_all add: attribute_open_def onCurrentAttribute_def currentAttribute_def)

text \<open>What each call on the current attribute does to its ranges.\<close>

lemma open_ops:
  assumes "attribute_open as a t"
  shows "beginAttributeName n t = Some t' \<Longrightarrow> \<exists>b. attribute_open as b t' \<and> tok_type t' = tok_type t \<and> tok_baseOffset t' = tok_baseOffset t"
    "appendToAttributeName ch t = Some t' \<Longrightarrow> \<exists>b. attribute_open as b t' \<and> tok_type t' = tok_type t \<and> tok_baseOffset t' = tok_baseOffset t"
    "endAttributeName n t = Some t' \<Longrightarrow> n \<noteq> tok_baseOffset t \<Longrightarrow> \<exists>b. attribute_open as b t' \<and> ranges_set b \<and> tok_type t' = tok_type t \<and> tok_baseOffset t' = tok_baseOffset t"
    "beginAttributeValue n t = Some t' \<Longrightarrow> n \<noteq> tok_baseOffset t \<Longrightarrow> ranges_set a \<Longrightarrow> \<exists>b. attribute_open as b t' \<and> value_open b \<and> tok_type t' = tok_type t \<and> tok_baseOffset t' = tok_baseOffset t"
    "appendToAttributeValue ch t = Some t' \<Longrightarrow> value_open a \<Longrightarrow> \<exists>b. attribute_open as b t' \<and> value_open b \<and> tok_type t' = tok_type t \<and> tok_baseOffset t' = tok_baseOffset t"
    "endAttributeValue n t = Some t' \<Longrightarrow> n \<noteq> tok_baseOffset t \<Longrightarrow> value_open a \<Longrightarrow> \<exists>b. attribute_open as b t' \<and> ranges_set b \<and> tok_type t' = tok_type t \<and> tok_baseOffset t' = tok_baseOffset t"
  by (auto simp: beginAttributeName_def appendToAttributeName_def endAttributeName_def beginAttributeValue_def appendToAttributeValue_def endAttributeValue_def
      ranges_set_def value_open_def Let_def open_update[OF assms] split: if_splits)

lemma open_new:
  assumes "addNewAttribute t = Some t'" "list_all ranges_set (tok_attributes t)"
  shows "\<exists>as a. attribute_open as a t' \<and> tok_type t' = tok_type t"
  using assms by (auto simp: addNewAttribute_def attribute_open_def split: if_splits)

lemma begin_attribute_ranges:
  assumes "readable (run_source c)" "list_all ranges_set (tok_attributes (run_token c))"
  shows "ranges (begin_attribute x c)"
  unfolding begin_attribute_def
proof (intro ranges_do ranges_ADVANCE; simp)
  fix t1 t2 t3
  assume t: "addNewAttribute (run_token c) = Some t1" "beginAttributeName (offset c) t1 = Some t2" "appendToAttributeName x t2 = Some t3"
  from open_new[OF t(1) assms(2)] obtain as a where "attribute_open as a t1" by blast
  from open_ops(1)[OF this t(2)] obtain b where "attribute_open as b t2" by blast
  from open_ops(2)[OF this t(3)] show "ranged AttributeNameState t3 (run_source c)" by (auto simp: ranged_def)
qed (rule assms)

lemma tag_ops:
  "appendToName ch t = Some t' \<Longrightarrow> tok_attributes t' = tok_attributes t \<and> tok_type t' = tok_type t"
  "setSelfClosing t = Some t' \<Longrightarrow> tok_attributes t' = tok_attributes t \<and> tok_type t' = tok_type t"
  by (auto simp: appendToName_def setSelfClosing_def split: if_splits)

lemma tag_block:
  assumes "readable (run_source c)" "isTagType (tok_type (run_token c))" "list_all ranges_set (tok_attributes (run_token c))" "kind (tk_state c) = KTag"
  shows "ranges (state_block E cc c)"
proof -
  have go: "ranges (ADVANCE_TO st d)" "ranged st (run_token d) (run_source d)"
    if "kind st = KTag" "run_source d = run_source c" "isTagType (tok_type (run_token d))" "tok_attributes (run_token d) = tok_attributes (run_token c)" for st d
    using ranged_tag[OF that(1,3)] that assms by (auto intro!: ranges_ADVANCE)
  have emit: "ranges (emitAndResumeIn DataState d)" "ranges (emitAndReconsumeIn DataState d)" if "tok_attributes (run_token d) = tok_attributes (run_token c)" for d
    using that assms by (auto intro!: ranges_emit)
  note new = begin_attribute_ranges[OF assms(1,3)]
  have k: "kind TagNameState = KTag" "kind BeforeAttributeNameState = KTag" "kind SelfClosingStartTagState = KTag" by (simp_all add: kind_def)
  from assms(4) consider "tk_state c = TagNameState" | "tk_state c = BeforeAttributeNameState" | "tk_state c = AfterAttributeValueQuotedState"
    | "tk_state c = SelfClosingStartTagState" by (cases "tk_state c") (auto simp: kind_def)
  then show ?thesis
    using go emit new k assms(2)
    by cases (auto simp: state_block_def TagNameState_step_def BeforeAttributeNameState_step_def AfterAttributeValueQuotedState_step_def
        SelfClosingStartTagState_step_def intro!: ranges_do ranges_inside(1) dest!: tag_ops)
qed

lemma ranged_open:
  assumes "attribute_open as a t"
  shows "ranges_set a \<Longrightarrow> kind st = KAttribute \<or> kind st = KTag \<Longrightarrow> ranged st t s"
    "value_open a \<Longrightarrow> tok_baseOffset t < numberOfCharactersConsumed s \<Longrightarrow> kind st = KValue \<Longrightarrow> ranged st t s"
    "ranged AttributeNameState t s"
proof -
  have st: "kind AttributeNameState = KAttribute" by (simp add: kind_def)
  have all: "list_all ranges_set (tok_attributes t)" if "ranges_set a" using open_finished[OF assms that] .
  show "ranges_set a \<Longrightarrow> kind st = KAttribute \<or> kind st = KTag \<Longrightarrow> ranged st t s" unfolding ranged_def using assms all st by (metis state_kind.distinct)
  show "value_open a \<Longrightarrow> tok_baseOffset t < numberOfCharactersConsumed s \<Longrightarrow> kind st = KValue \<Longrightarrow> ranged st t s"
    unfolding ranged_def using assms st by (metis state_kind.distinct)
  show "ranged AttributeNameState t s" unfolding ranged_def using assms by auto
qed

lemma set_ends:
  assumes "attribute_open as a (run_token d)" "ranges_set a" "readable (run_source d)"
  shows "kind st = KAttribute \<or> kind st = KTag \<Longrightarrow> ranges (ADVANCE_TO st d)" "ranges (emitAndResumeIn DataState d)"
    "ranges (emitAndReconsumeIn DataState d)" "ranges (begin_attribute x d)"
  using assms open_finished[OF assms(1,2)] ranged_open(1)[OF assms(1,2)] by (blast intro: ranges_ADVANCE ranges_emit begin_attribute_ranges)+

lemma value_ends:
  assumes "attribute_open as a (run_token d)" "value_open a" "base d < offset d" "kind st = KValue"
  shows "ranged st (run_token d) (run_source d)" "readable (run_source d) \<Longrightarrow> ranges (ADVANCE_TO st d)" "stream_inv (run_source d) \<Longrightarrow> ranges (SWITCH_TO st d)"
  using ranged_open(2)[OF assms] by (blast intro: ranges_ADVANCE ranges_SWITCH)+

text \<open>Calls on the current attribute followed by the rest of a block.\<close>

lemma attribute_do:
  assumes "attribute_open as a (run_token c)"
  shows "(\<And>t b. attribute_open as b t \<Longrightarrow> ranges (k (c\<lparr>run_token := t\<rparr>))) \<Longrightarrow> ranges (token_do (appendToAttributeName ch) k c)"
    "n \<noteq> base c \<Longrightarrow> (\<And>t b. attribute_open as b t \<Longrightarrow> ranges_set b \<Longrightarrow> ranges (k (c\<lparr>run_token := t\<rparr>))) \<Longrightarrow> ranges (token_do (endAttributeName n) k c)"
    "n \<noteq> base c \<Longrightarrow> ranges_set a \<Longrightarrow> (\<And>t b. attribute_open as b t \<Longrightarrow> value_open b \<Longrightarrow> tok_baseOffset t = base c \<Longrightarrow> ranges (k (c\<lparr>run_token := t\<rparr>))) \<Longrightarrow>
       ranges (token_do (beginAttributeValue n) k c)"
    "value_open a \<Longrightarrow> (\<And>t b. attribute_open as b t \<Longrightarrow> value_open b \<Longrightarrow> tok_baseOffset t = base c \<Longrightarrow> ranges (k (c\<lparr>run_token := t\<rparr>))) \<Longrightarrow>
       ranges (token_do (appendToAttributeValue ch) k c)"
    "value_open a \<Longrightarrow> n \<noteq> base c \<Longrightarrow> (\<And>t b. attribute_open as b t \<Longrightarrow> ranges_set b \<Longrightarrow> ranges (k (c\<lparr>run_token := t\<rparr>))) \<Longrightarrow>
       ranges (token_do (endAttributeValue n) k c)"
  using open_ops[OF assms] by (blast intro: ranges_do)+

lemma attribute_block:
  assumes "readable (run_source c)" "isTagType (tok_type (run_token c))" "ranged (tk_state c) (run_token c) (run_source c)"
    "base c < offset c" "kind (tk_state c) = KAttribute"
  shows "ranges (state_block E cc c)"
proof -
  have k: "kind AttributeNameState = KAttribute" "kind AfterAttributeNameState = KAttribute" "kind BeforeAttributeValueState = KAttribute"
    "kind SelfClosingStartTagState = KTag" "kind AttributeValueDoubleQuotedState = KValue" "kind AttributeValueSingleQuotedState = KValue"
    "kind AttributeValueUnquotedState = KValue" by (simp_all add: kind_def)
  consider (name) "tk_state c = AttributeNameState" | (after) "tk_state c = AfterAttributeNameState" | (val) "tk_state c = BeforeAttributeValueState"
    using assms(5) by (cases "tk_state c") (auto simp: kind_def)
  then show ?thesis
  proof cases
    case name
    then obtain as a where a: "attribute_open as a (run_token c)" using assms(2,3) by (auto simp: ranged_def)
    have stay: "ranges (ADVANCE_TO AttributeNameState (c\<lparr>run_token := t\<rparr>))" if "attribute_open as b t" for t b
      by (rule ranges_ADVANCE) (use ranged_open(3)[OF that] assms(1) in auto)
    note ends = set_ends[of as _ "c\<lparr>run_token := t\<rparr>" for t, simplified, OF _ _ assms(1)]
    from name stay ends a k assms(4) show ?thesis unfolding state_block_def
      by (auto simp: AttributeNameState_step_def intro!: attribute_do[OF a] ranges_inside(1))
  next
    case after
    then obtain as a where a: "attribute_open as a (run_token c)" "ranges_set a" using assms(2,3) by (auto simp: ranged_def kind_def)
    from set_ends[OF a assms(1)] k after show ?thesis
      by (auto simp: state_block_def AfterAttributeNameState_step_def intro!: ranges_inside(1))
  next
    case val
    then obtain as a where a: "attribute_open as a (run_token c)" "ranges_set a" using assms(2,3) by (auto simp: ranged_def kind_def)
    note go = value_ends[of as _ "c\<lparr>run_token := t\<rparr>" for t, simplified]
    from set_ends[OF a assms(1)] go k val assms(1,4) a(2) show ?thesis
      by (auto simp: state_block_def BeforeAttributeValueState_step_def intro!: attribute_do[OF a(1)] attribute_do(4))
  qed
qed

lemma value_all_ranges:
  assumes "attribute_open as a (run_token c)" "value_open a"
    "\<And>t b. attribute_open as b t \<Longrightarrow> value_open b \<Longrightarrow> tok_baseOffset t = base c \<Longrightarrow> ranges (k (c\<lparr>run_token := t\<rparr>))"
  shows "ranges (value_all us k c)"
  using assms
proof (induction us arbitrary: a c)
  case Nil
  from Nil(3)[OF Nil(1,2)] show ?case by simp
next
  case (Cons u us)
  show ?case unfolding value_all.simps
    by (rule attribute_do(4)[OF Cons.prems(1,2)]) (use Cons in auto)
qed

lemma reference_kept:
  assumes "env_ok E" "run_inv E cc c" "isReferenceState (tk_state c)" "add \<in> {0, chQuot, chApos, chGreater}"
    "consumeHTMLEntity (env_table E) add (run_source c) = Some (success, notEnough, dec, s)"
  shows "kept (run_source c) s"
proof -
  let ?s = "run_source c" let ?T = "env_table E"
  have i: "readable ?s" "resumable ?T ?s" "table_ok ?T" "names_ok ?T" using assms(1-3) by (auto simp: run_inv_def pushed_ok_def env_ok_def)
  from consumeHTMLEntity_spec[OF i(3,4,1,2) assms(4)] assms(5) show ?thesis by (auto simp: ref_ok_def flagged_def split: reference.splits)
qed

lemma value_reference_block:
  assumes "env_ok E" "run_inv E cc c" "tk_state c = CharacterReferenceInAttributeValueState"
    "attribute_open as a (run_token c)" "value_open a" "base c < offset c"
  shows "ranges (CharacterReferenceInAttributeValueState_step E cc c)"
proof -
  have ref: "isReferenceState (tk_state c)" using assms(3) by (simp add: isReferenceState_def)
  have add: "tk_additionalAllowedCharacter c \<in> {0, chQuot, chApos, chGreater}"
    using assms(2,3) by (auto simp: run_inv_def token_ok_def buffers_ok_def)
  have s: "stream_inv s \<and> base c < numberOfCharactersConsumed s"
    if "consumeHTMLEntity (env_table E) (tk_additionalAllowedCharacter c) (run_source c) = Some (success, notEnough, dec, s)" for success notEnough dec s
    using reference_length[OF assms(1,2) ref add that] reference_kept[OF assms(1,2) ref add that] assms(6) by (auto simp: kept_def)
  have k: "kind CharacterReferenceInAttributeValueState = KValue" "kind AttributeValueDoubleQuotedState = KValue"
    "kind AttributeValueSingleQuotedState = KValue" "kind AttributeValueUnquotedState = KValue" by (simp_all add: kind_def)
  have resume: "ranges (return_to_attribute_value (c\<lparr>run_source := s, run_token := t\<rparr>))"
    if "attribute_open as b t" "value_open b" "tok_baseOffset t = base c" "stream_inv s \<and> base c < numberOfCharactersConsumed s" for s t b
    using that value_ends(3)[of as b "c\<lparr>run_source := s, run_token := t\<rparr>"] k by (simp add: return_to_attribute_value_def)
  have stay: "ranges (return_buffered (c\<lparr>run_source := s\<rparr>))" if "base c < numberOfCharactersConsumed s" for s
    by (rule ranges_buffered) (use ranged_open(2)[OF assms(4,5)] that k assms(3) in auto)
  show ?thesis using resume stay s assms(4,5)
    by (auto simp: CharacterReferenceInAttributeValueState_step_def Let_def simp del: value_all.simps
        intro!: value_all_ranges[of as a] attribute_do(4)[of as a] split: option.splits)
qed

lemma value_block:
  assumes "env_ok E" "run_inv E cc c" "isTagType (tok_type (run_token c))" "ranged (tk_state c) (run_token c) (run_source c)" "kind (tk_state c) = KValue"
  shows "ranges (state_block E cc c)"
proof -
  have r: "readable (run_source c)" using assms(2) by (simp add: run_inv_def)
  obtain as a where a: "attribute_open as a (run_token c)" "value_open a" "base c < offset c"
    using assms(3-5) by (auto simp: ranged_def kind_def split: if_splits)
  have k: "kind CharacterReferenceInAttributeValueState = KValue" "kind AttributeValueDoubleQuotedState = KValue" "kind AttributeValueSingleQuotedState = KValue"
    "kind AttributeValueUnquotedState = KValue" "kind BeforeAttributeNameState = KTag" "kind AfterAttributeValueQuotedState = KTag" by (simp_all add: kind_def)
  note go = value_ends[of as _ "c\<lparr>run_token := t\<rparr>" for t, simplified]
    value_ends(2)[of as a "c\<lparr>tk_additionalAllowedCharacter := x\<rparr>" for x, simplified, OF a]
    set_ends[of as _ "c\<lparr>run_token := t\<rparr>" for t, simplified, OF _ _ r]
  consider (ref) "tk_state c = CharacterReferenceInAttributeValueState"
    | (quoted) "tk_state c \<in> {AttributeValueDoubleQuotedState, AttributeValueSingleQuotedState, AttributeValueUnquotedState}"
    using assms(5) by (cases "tk_state c") (auto simp: kind_def)
  then show ?thesis
  proof cases
    case ref
    with value_reference_block[OF assms(1,2) ref a] show ?thesis by (simp add: state_block_def)
  next
    case quoted
    with go k a(2,3) r show ?thesis
      by (auto simp: state_block_def AttributeValueDoubleQuotedState_step_def AttributeValueSingleQuotedState_step_def AttributeValueUnquotedState_step_def
          set_additionalAllowedCharacter_def intro!: attribute_do(4,5)[OF a(1)])
  qed
qed

lemma state_block_ranges:
  assumes "env_ok E" "run_inv E cc c" "ranged (tk_state c) (run_token c) (run_source c)"
  shows "ranges (state_block E cc c)"
proof -
  let ?k = "kind (tk_state c)"
  have r: "readable (run_source c)" and off: "?k = KAttribute \<Longrightarrow> base c < offset c"
    and tok: "kind_ok ?k (run_token c) \<or> tk_state c = DataState \<and> cc = 0 \<and> isTagType (tok_type (run_token c))"
    using assms(2) by (auto simp: run_inv_def offsets_ok_def token_ok_def)
  show ?thesis
  proof (cases "tag_kind (tk_state c)")
    case True
    then have tag: "isTagType (tok_type (run_token c))" using tok by (auto simp: tag_kind_def kind_ok_def)
    from True consider "?k = KTag" | "?k = KAttribute" | "?k = KValue" by (auto simp: tag_kind_def)
    then show ?thesis
    proof cases
      case 1
      then show ?thesis using tag_block[OF r tag] ranged_tag[OF 1 tag] assms(3) by simp
    next
      case 2
      from attribute_block[OF r tag assms(3) off[OF 2] 2] show ?thesis .
    next
      case 3
      from value_block[OF assms(1,2) tag assms(3) 3] show ?thesis .
    qed
  next
    case False
    show ?thesis
    proof (cases "untagged (run_token c)")
      case True
      show ?thesis
      proof (cases "tk_state c \<in> {TagOpenState, EndTagOpenState}")
        case tag_open: True
        with open_block[OF True r] show ?thesis by (auto simp: state_block_def)
      qed (rule untagged_block[OF True False _ r])
    next
      case tagged: False
      with False tok have "tk_state c = DataState" "cc = 0" by (auto simp: tag_kind_def kind_ok_def untagged_def split: state_kind.splits)
      then show ?thesis by (simp add: state_block_def DataState_step_def)
    qed
  qed
qed

section \<open>The jumps and the calls\<close>

lemma run_states_ranges:
  assumes "env_ok E" "run_inv E cc c" "ranged (tk_state c) (run_token c) (run_source c)" "run_states E cc c = Some (b, d)"
  shows "ranges (Ret b d)"
  using assms(2-4)
proof (induction "progress c" arbitrary: cc c rule: less_induct)
  case less
  note blk = state_block_ranges[OF assms(1) less.prems(1,2)]
  show ?case
  proof (cases "state_block E cc c")
    case (Goto cc1 c1)
    note g = goto_weight[OF assms(1) less.prems(1) Goto]
    have "run_states E cc1 c1 = Some (b, d)" using less.prems(3) Goto by (subst (asm) run_states.simps) simp
    from less.hyps[OF g(2,1) _ this] blk Goto show ?thesis by simp
  next
    case (Ret b c')
    with blk less.prems(3) show ?thesis by (subst (asm) run_states.simps) simp
  next
    case Crash
    with less.prems(3) show ?thesis by (subst (asm) run_states.simps) simp
  qed
qed

lemma enter_switch_ranges:
  assumes "env_ok E" "stream_inv (run_source c)" "no_nul_reference (seg_toString (run_source c))"
    "pushed_ok E (tk_state c) (run_source c)" "offsets_ok (tk_state c) (run_token c) (run_source c)"
    "token_ok (tk_state c) False c" "enter_switch E c = Some (b, d)" "ranged (tk_state c) (run_token c) (run_source c)"
  shows "ranges (Ret b d)"
proof (cases "seg_empty (run_source c)")
  case True
  with assms(7) ranges_buffered[OF assms(8)] show ?thesis by (auto simp: enter_switch_def return_buffered_def)
next
  case ne: False
  then have r: "readable (run_source c)" using assms(2) by (simp add: readable_def)
  have g: "good E (Suc (progress c)) (run_source c) (peek_source c)" by (rule peek_good) (use assms r in auto)
  have p: "ranges (peek_source c)"
    unfolding peek_source_def by (rule ranges_read[OF peek_read[OF r] assms(2,8)])
  show ?thesis
  proof (cases "peek_source c")
    case (Goto cc1 c1)
    with g p assms(7) ne run_states_ranges[OF assms(1), of cc1 c1 b d] show ?thesis by (auto simp: good_def enter_switch_def)
  qed (use assms(7) ne p in \<open>auto simp: enter_switch_def\<close>)
qed

text \<open>A call keeps the ranges of a tag in progress, and a tag it hands over has all of them.\<close>

lemma nextToken_ranges:
  assumes "env_ok E" "idle_inv E c" "offsets_ok (tk_state c) (run_token c) (run_source c)" "nextToken E addr c = Some (b, d)"
    "ranged (tk_state c) (run_token c) (run_source c)"
  shows "ranges (Ret b d)"
proof (cases rule: nextToken_cases[OF assms(2-4)])
  case (1 c1)
  have "ranged (tk_state c1) (run_token c1) (run_source c1)"
    using 1(8-10) assms(5) ranged_tag[of "tk_state c1" "run_token c1"] by auto
  from enter_switch_ranges[OF assms(1) 1(2-6,1) this] show ?thesis .
qed (simp add: ranges_def)

end
