(* ===== verification/Input_Stream.thy ===== *)
theory Input_Stream
  imports Input_Preprocessor
begin

text \<open>
  The input stream of the document parser: \<open>src/Source/WebCore/html/parser/HTMLInputStream.h\<close>. Each \<open>InsertionPointRecord\<close> on the call stack holds
  the text behind its insertion point; \<open>in_nexts\<close> are these strings, the innermost first. \<open>m_last\<close> points to \<open>m_first\<close> (\<open>None\<close>) or to the string of
  the record at some depth, counted from the outermost record (\<open>Some 0\<close>).

  The operations refine a list of texts: what script writes goes to the end of the first, what the network delivers to the end of the last.
\<close>

section \<open>The stream\<close>

record HTMLInputStream =
  in_first :: SegmentedString
  in_nexts :: "SegmentedString list"
  in_last :: "nat option"

definition newHTMLInputStream :: HTMLInputStream where
  "newHTMLInputStream = \<lparr>in_first = emptySegmentedString, in_nexts = [], in_last = None\<rparr>"

text \<open>Where the record at a depth is in the list.\<close>

definition next_index :: "nat \<Rightarrow> HTMLInputStream \<Rightarrow> nat option" where
  "next_index depth st = (if depth < length (in_nexts st) then Some (length (in_nexts st) - 1 - depth) else None)"

definition last_string :: "HTMLInputStream \<Rightarrow> SegmentedString option" where
  "last_string st = (case in_last st of None \<Rightarrow> Some (in_first st)
     | Some d \<Rightarrow> do { i \<leftarrow> next_index d st; Some (in_nexts st ! i) })"

definition set_last :: "SegmentedString \<Rightarrow> HTMLInputStream \<Rightarrow> HTMLInputStream option" where
  "set_last s st = (case in_last st of None \<Rightarrow> Some (st\<lparr>in_first := s\<rparr>)
     | Some d \<Rightarrow> do { i \<leftarrow> next_index d st; Some (st\<lparr>in_nexts := (in_nexts st)[i := s]\<rparr>) })"

definition appendToEnd :: "SegmentedString \<Rightarrow> HTMLInputStream \<Rightarrow> HTMLInputStream option" where
  "appendToEnd string st = do { l \<leftarrow> last_string st; l1 \<leftarrow> seg_append string l; set_last l1 st }"

definition insertAtCurrentInsertionPoint :: "SegmentedString \<Rightarrow> HTMLInputStream \<Rightarrow> HTMLInputStream option" where
  "insertAtCurrentInsertionPoint string st = do { f \<leftarrow> seg_append string (in_first st); Some (st\<lparr>in_first := f\<rparr>) }"

definition in_hasInsertionPoint :: "HTMLInputStream \<Rightarrow> bool" where
  "in_hasInsertionPoint st \<longleftrightarrow> in_last st \<noteq> None"

definition closeWithoutMarkingEndOfFile :: "HTMLInputStream \<Rightarrow> HTMLInputStream option" where
  "closeWithoutMarkingEndOfFile st = do { l \<leftarrow> last_string st; l1 \<leftarrow> seg_close l; set_last l1 st }"

definition markEndOfFile :: "HTMLInputStream \<Rightarrow> HTMLInputStream option" where
  "markEndOfFile st = do {
     e \<leftarrow> makeSegmentedString (UTF16 [kEndOfFileMarker]);
     st1 \<leftarrow> appendToEnd e st;
     closeWithoutMarkingEndOfFile st1 }"

definition haveSeenEndOfFile :: "HTMLInputStream \<Rightarrow> bool option" where
  "haveSeenEndOfFile st = map_option seg_closed (last_string st)"

text \<open>\<open>next\<close> is the string of a record that is being created; it becomes the innermost one.\<close>

definition splitInto :: "HTMLInputStream \<Rightarrow> HTMLInputStream option" where
  "splitInto st = do {
     next \<leftarrow> assignSegmentedString emptySegmentedString (in_first st);
     f \<leftarrow> assignSegmentedString (in_first st) emptySegmentedString;
     let depth = length (in_nexts st);
     Some (st\<lparr>in_first := f, in_nexts := next # in_nexts st,
       in_last := (if in_last st = None then Some depth else in_last st)\<rparr>) }"

text \<open>\<open>next\<close> is the string of the innermost record, which is being destroyed.\<close>

definition mergeFrom :: "HTMLInputStream \<Rightarrow> HTMLInputStream option" where
  "mergeFrom st = (case in_nexts st of [] \<Rightarrow> None
     | next # nexts \<Rightarrow> do {
         f \<leftarrow> seg_append next (in_first st);
         let last = (if in_last st = Some (length nexts) then None else in_last st);
         f1 \<leftarrow> (if seg_closed next then seg_close f else Some f);
         Some (st\<lparr>in_first := f1, in_nexts := nexts, in_last := last\<rparr>) })"

section \<open>Insertion points\<close>

record InsertionPointRecord =
  ip_line :: int
  ip_column :: int

definition on_current :: "(SegmentedString \<Rightarrow> SegmentedString) \<Rightarrow> HTMLInputStream \<Rightarrow> HTMLInputStream" where
  "on_current f st = st\<lparr>in_first := f (in_first st)\<rparr>"

definition newInsertionPointRecord :: "HTMLInputStream \<Rightarrow> (InsertionPointRecord \<times> HTMLInputStream) option" where
  "newInsertionPointRecord st = do {
     let line = seg_currentLine (in_first st);
     let column = currentColumn (in_first st);
     st1 \<leftarrow> splitInto st;
     Some (\<lparr>ip_line = line, ip_column = column\<rparr>, on_current (setCurrentPosition line column 0) st1) }"

definition deleteInsertionPointRecord :: "InsertionPointRecord \<Rightarrow> HTMLInputStream \<Rightarrow> HTMLInputStream option" where
  "deleteInsertionPointRecord ip st = do {
     let unparsedRemainderLength = seg_length (in_first st);
     st1 \<leftarrow> mergeFrom st;
     Some (on_current (setCurrentPosition (ip_line ip) (ip_column ip) unparsedRemainderLength) st1) }"

section \<open>The texts of the stream\<close>

definition in_texts :: "HTMLInputStream \<Rightarrow> UChar list list" where
  "in_texts st = map seg_toString (in_first st # in_nexts st)"

text \<open>Only the last string can be closed, and \<open>m_last\<close> is the outermost one.\<close>

definition input_ok :: "HTMLInputStream \<Rightarrow> bool" where
  "input_ok st \<longleftrightarrow> (\<forall>s \<in> set (in_first st # in_nexts st). stream_inv s) \<and>
     in_last st = (if in_nexts st = [] then None else Some 0) \<and>
     (\<forall>s \<in> set (butlast (in_first st # in_nexts st)). \<not> seg_closed s)"

lemma new_input_ok: "input_ok newHTMLInputStream" "in_texts newHTMLInputStream = [[]]"
  by (simp_all add: input_ok_def newHTMLInputStream_def in_texts_def stream_inv_def stream_core_def pointers_ok_def emptySegmentedString_def
      emptySubstring_def sub_ok_def seg_toString_def sub_appendTo_def sub_numberOfCharactersConsumed_def)

lemma last_of: "input_ok st \<Longrightarrow> last_string st = Some (last (in_first st # in_nexts st))"
  by (simp add: input_ok_def last_string_def next_index_def last_conv_nth)

lemma set_last_of:
  assumes "input_ok st" "stream_inv s"
  shows "\<exists>st'. set_last s st = Some st' \<and> input_ok st' \<and> in_first st' # in_nexts st' = butlast (in_first st # in_nexts st) @ [s]"
proof (cases "in_nexts st" rule: rev_cases)
  case Nil
  with assms show ?thesis by (simp add: input_ok_def set_last_def)
next
  case (snoc ns n)
  with assms show ?thesis by (auto simp: input_ok_def set_last_def next_index_def butlast_append)
qed

lemma empty_inv: "stream_inv emptySegmentedString" "seg_toString emptySegmentedString = []" "\<not> seg_closed emptySegmentedString" "seg_pushedChar2 emptySegmentedString = 0"
  by (simp_all add: stream_inv_def stream_core_def pointers_ok_def emptySegmentedString_def emptySubstring_def sub_ok_def seg_toString_def sub_appendTo_def
      sub_numberOfCharactersConsumed_def)

lemma assign_same:
  assumes "stream_inv other" "seg_pushedChar2 other = 0"
  shows "assignSegmentedString this other = Some other"
proof -
  let ?t = "this\<lparr>seg_pushedChar1 := seg_pushedChar1 other, seg_pushedChar2 := seg_pushedChar2 other, seg_currentString := seg_currentString other,
    seg_substrings := seg_substrings other\<rparr>"
  have c: "seg_currentChar other = hd0 (seg_toString other)" and core: "stream_core other" using assms(1) by (simp_all add: stream_inv_def)
  have ch: "charOfCurrentString (this\<lparr>seg_pushedChar1 := p, seg_pushedChar2 := q, seg_currentString := seg_currentString other,
      seg_substrings := seg_substrings other\<rparr>) = charOfCurrentString other" for p q by (simp add: charOfCurrentString_def)
  have "seg_pushedChar1 other \<noteq> 0 \<Longrightarrow> seg_currentChar other = seg_pushedChar1 other" using c by (simp add: seg_toString_def hd0_def)
  then have "(if seg_pushedChar2 ?t \<noteq> 0 then Some (seg_pushedChar2 ?t) else if seg_pushedChar1 ?t \<noteq> 0 then Some (seg_pushedChar1 ?t)
      else charOfCurrentString ?t) = Some (seg_currentChar other)"
    unfolding ch using assms(2) charOfCurrentString_eq[OF core] c by simp
  then show ?thesis unfolding assignSegmentedString_def Let_def by (cases this; cases other) simp
qed

lemma routine_frame [simp]: "routine_ok r (s\<lparr>seg_currentLine := l, seg_consumedPriorToCurrentLine := k\<rparr>) = routine_ok r s"
  "routine_ok r (s\<lparr>seg_closed := v\<rparr>) = routine_ok r s"
  by (rule routine_ok_cong; simp)+

lemma closed_inv [simp]: "stream_inv (s\<lparr>seg_closed := v\<rparr>) = stream_inv s" "seg_toString (s\<lparr>seg_closed := v\<rparr>) = seg_toString s"
  by (simp_all add: stream_inv_def stream_core_def pointers_ok_def seg_toString_def isComposite_def escaped_def)

lemma position_inv [simp]:
  "stream_inv (setCurrentPosition l k n s) = stream_inv s" "seg_toString (setCurrentPosition l k n s) = seg_toString s"
  "seg_closed (setCurrentPosition l k n s) = seg_closed s" "seg_pushedChar2 (setCurrentPosition l k n s) = seg_pushedChar2 s"
  "seg_currentLine (setCurrentPosition l k n s) = l" "currentColumn (setCurrentPosition l k n s) = k - n"
  by (simp_all add: setCurrentPosition_def stream_inv_def stream_core_def pointers_ok_def seg_toString_def currentColumn_def numberOfCharactersConsumed_def
      isComposite_def escaped_def)

section \<open>Operations refine lists of texts\<close>

lemma split_refines:
  assumes "input_ok st" "seg_pushedChar2 (in_first st) = 0"
  shows "\<exists>st'. newInsertionPointRecord st = Some (\<lparr>ip_line = seg_currentLine (in_first st), ip_column = currentColumn (in_first st)\<rparr>, st') \<and> input_ok st' \<and>
    in_texts st' = [] # in_texts st \<and> haveSeenEndOfFile st' = haveSeenEndOfFile st"
proof -
  have inv: "stream_inv (in_first st)" using assms(1) by (simp add: input_ok_def)
  let ?f = "setCurrentPosition (seg_currentLine (in_first st)) (currentColumn (in_first st)) 0 emptySegmentedString"
  define st' where "st' = st\<lparr>in_first := ?f, in_nexts := in_first st # in_nexts st, in_last := (if in_last st = None then Some (length (in_nexts st)) else in_last st)\<rparr>"
  have st': "newInsertionPointRecord st = Some (\<lparr>ip_line = seg_currentLine (in_first st), ip_column = currentColumn (in_first st)\<rparr>, st')"
    "in_first st' = ?f" "in_nexts st' = in_first st # in_nexts st" "in_last st' = (if in_last st = None then Some (length (in_nexts st)) else in_last st)"
    using assign_same[OF inv assms(2)] assign_same[OF empty_inv(1,4)] by (simp_all add: newInsertionPointRecord_def splitInto_def on_current_def Let_def st'_def)
  then have "input_ok st'" using assms(1) empty_inv by (auto simp: input_ok_def)
  moreover have "last (in_first st' # in_nexts st') = last (in_first st # in_nexts st)" using st'(3) by simp
  ultimately show ?thesis using st' empty_inv last_of[OF assms(1)] last_of[of st'] by (simp add: in_texts_def haveSeenEndOfFile_def)
qed

lemma input_insert_refines:
  assumes "input_ok st" "in_nexts st \<noteq> [] \<or> \<not> seg_closed (in_first st)" "stream_inv s"
  shows "\<exists>st'. insertAtCurrentInsertionPoint s st = Some st' \<and> input_ok st' \<and> in_nexts st' = in_nexts st \<and>
    seg_toString (in_first st') = seg_toString (in_first st) @ seg_toString s"
proof -
  have "stream_inv (in_first st)" "\<not> seg_closed (in_first st)" using assms(1,2) by (auto simp: input_ok_def split: if_splits)
  from seg_append_inv[OF this(1) assms(3) this(2)] obtain f where f: "seg_append s (in_first st) = Some f" "stream_inv f" "\<not> seg_closed f"
    "seg_toString f = seg_toString (in_first st) @ seg_toString s" by blast
  then show ?thesis using assms(1) by (auto simp: insertAtCurrentInsertionPoint_def input_ok_def split: if_splits)
qed

definition append_last :: "'a list \<Rightarrow> 'a list list \<Rightarrow> 'a list list" where
  "append_last y xs = butlast xs @ [last xs @ y]"

lemma input_append_refines:
  assumes "input_ok st" "haveSeenEndOfFile st = Some False" "stream_inv s"
  shows "\<exists>st'. appendToEnd s st = Some st' \<and> input_ok st' \<and> in_texts st' = append_last (seg_toString s) (in_texts st) \<and>
    haveSeenEndOfFile st' = Some False \<and> length (in_nexts st') = length (in_nexts st)"
proof -
  let ?l = "last (in_first st # in_nexts st)"
  have "stream_inv ?l" using assms(1) last_in_set[of "in_first st # in_nexts st"] by (auto simp: input_ok_def)
  moreover have "\<not> seg_closed ?l" using assms(2) last_of[OF assms(1)] by (simp add: haveSeenEndOfFile_def)
  ultimately obtain l where l: "seg_append s ?l = Some l" "stream_inv l" "\<not> seg_closed l" "seg_toString l = seg_toString ?l @ seg_toString s"
    using seg_append_inv[OF _ assms(3)] by blast
  obtain st' where st': "set_last l st = Some st'" "input_ok st'" "in_first st' # in_nexts st' = butlast (in_first st # in_nexts st) @ [l]"
    using set_last_of[OF assms(1) l(2)] by blast
  have "length (in_nexts st') = length (in_nexts st)" using arg_cong[OF st'(3), of length] by simp
  moreover have "in_texts st' = append_last (seg_toString s) (in_texts st)" using l(4) unfolding in_texts_def st'(3) append_last_def
    by (simp only: map_append map_butlast) (simp add: last_map)
  moreover have "haveSeenEndOfFile st' = Some False" using last_of[OF st'(2)] l(3) unfolding haveSeenEndOfFile_def st'(3) by simp
  ultimately show ?thesis using st' l(1) last_of[OF assms(1)] by (simp add: appendToEnd_def)
qed

lemma map_replace_last: "xs \<noteq> [] \<Longrightarrow> f y = f (last xs) \<Longrightarrow> map f (butlast xs @ [y]) = map f xs"
  by (induction xs rule: rev_induct) simp_all

lemma mark_refines:
  assumes "input_ok st" "haveSeenEndOfFile st = Some False"
  shows "\<exists>st'. markEndOfFile st = Some st' \<and> input_ok st' \<and> in_texts st' = append_last [kEndOfFileMarker] (in_texts st) \<and> haveSeenEndOfFile st' = Some True"
proof -
  obtain e where e: "makeSegmentedString (UTF16 [kEndOfFileMarker]) = Some e" "stream_inv e" "seg_toString e = [kEndOfFileMarker]"
    using makeSegmentedString_inv[of "UTF16 [kEndOfFileMarker]"] by auto
  obtain st1 where st1: "appendToEnd e st = Some st1" "input_ok st1" "in_texts st1 = append_last [kEndOfFileMarker] (in_texts st)" "haveSeenEndOfFile st1 = Some False"
    using input_append_refines[OF assms e(2)] e(3) by auto
  let ?l = "last (in_first st1 # in_nexts st1)"
  have l: "stream_inv ?l" "\<not> seg_closed ?l" using st1(2,4) last_of[OF st1(2)] last_in_set[of "in_first st1 # in_nexts st1"] by (auto simp: input_ok_def haveSeenEndOfFile_def)
  have c: "stream_inv (?l\<lparr>seg_closed := True\<rparr>)" "seg_toString (?l\<lparr>seg_closed := True\<rparr>) = seg_toString ?l" using l(1) by simp_all
  obtain st2 where st2: "set_last (?l\<lparr>seg_closed := True\<rparr>) st1 = Some st2" "input_ok st2"
    "in_first st2 # in_nexts st2 = butlast (in_first st1 # in_nexts st1) @ [?l\<lparr>seg_closed := True\<rparr>]" using set_last_of[OF st1(2) c(1)] by blast
  have "in_texts st2 = in_texts st1" unfolding in_texts_def st2(3) by (rule map_replace_last) (simp_all add: c(2))
  moreover have "haveSeenEndOfFile st2 = Some True" using last_of[OF st2(2)] unfolding haveSeenEndOfFile_def st2(3) by simp
  ultimately show ?thesis using st1 st2(1,2) e(1) l(2) last_of[OF st1(2)]
    by (simp add: markEndOfFile_def closeWithoutMarkingEndOfFile_def seg_close_def)
qed

lemma merge_refines:
  assumes "input_ok st" "in_nexts st = n # ns"
  shows "\<exists>st'. deleteInsertionPointRecord ip st = Some st' \<and> input_ok st' \<and> in_nexts st' = ns \<and>
    seg_toString (in_first st') = seg_toString (in_first st) @ seg_toString n \<and>
    seg_currentLine (in_first st') = ip_line ip \<and> currentColumn (in_first st') = ip_column ip - int (length (seg_toString (in_first st))) \<and>
    haveSeenEndOfFile st' = haveSeenEndOfFile st"
proof -
  have inv: "stream_inv (in_first st)" "stream_inv n" "\<not> seg_closed (in_first st)" "ns \<noteq> [] \<longrightarrow> \<not> seg_closed n" "in_last st = Some 0"
    and rest: "\<forall>s \<in> set ns. stream_inv s" "\<forall>s \<in> set (butlast ns). \<not> seg_closed s"
    using assms by (auto simp: input_ok_def split: if_splits)
  obtain f where f: "seg_append n (in_first st) = Some f" "stream_inv f" "\<not> seg_closed f" "seg_toString f = seg_toString (in_first st) @ seg_toString n"
    using seg_append_inv[OF inv(1,2,3)] by blast
  let ?f = "setCurrentPosition (ip_line ip) (ip_column ip) (seg_length (in_first st)) (f\<lparr>seg_closed := seg_closed n\<rparr>)"
  define st' where "st' = st\<lparr>in_nexts := ns, in_last := (if ns = [] then None else Some 0), in_first := ?f\<rparr>"
  have fc: "f\<lparr>seg_closed := False\<rparr> = f" using f(3) by (cases f) simp
  have d: "deleteInsertionPointRecord ip st = Some st'" using assms(2) f(1,3) inv(5)
    by (simp add: deleteInsertionPointRecord_def mergeFrom_def seg_close_def on_current_def Let_def st'_def fc)
  have ok: "input_ok st'" using f inv rest by (simp add: input_ok_def st'_def)
  have "haveSeenEndOfFile st' = haveSeenEndOfFile st" using last_of[OF ok] last_of[OF assms(1)] assms(2) by (simp add: haveSeenEndOfFile_def st'_def)
  then show ?thesis using d ok f(4) length_toString[of "in_first st"] inv(1) by (simp add: st'_def stream_inv_def)
qed

section \<open>A script that writes\<close>

text \<open>What can happen while an insertion point is open: script writes, or the network delivers.\<close>

datatype delivery = Written SegmentedString | Received SegmentedString

fun deliver :: "delivery list \<Rightarrow> HTMLInputStream \<Rightarrow> HTMLInputStream option" where
  "deliver [] st = Some st"
| "deliver (Written s # ds) st = do { st1 \<leftarrow> insertAtCurrentInsertionPoint s st; deliver ds st1 }"
| "deliver (Received s # ds) st = do { st1 \<leftarrow> appendToEnd s st; deliver ds st1 }"

definition insertion_session :: "delivery list \<Rightarrow> HTMLInputStream \<Rightarrow> HTMLInputStream option" where
  "insertion_session ds st = do {
     (ip, st1) \<leftarrow> newInsertionPointRecord st;
     st2 \<leftarrow> deliver ds st1;
     deleteInsertionPointRecord ip st2 }"

fun delivered :: "delivery \<Rightarrow> SegmentedString" where
  "delivered (Written s) = s"
| "delivered (Received s) = s"

definition written :: "delivery list \<Rightarrow> UChar list" where
  "written ds = concat (map (\<lambda>d. case d of Written s \<Rightarrow> seg_toString s | Received s \<Rightarrow> []) ds)"

definition received :: "delivery list \<Rightarrow> UChar list" where
  "received ds = concat (map (\<lambda>d. case d of Written s \<Rightarrow> [] | Received s \<Rightarrow> seg_toString s) ds)"

lemma deliver_refines:
  assumes "input_ok st" "in_nexts st \<noteq> []" "haveSeenEndOfFile st = Some False" "\<forall>d \<in> set ds. stream_inv (delivered d)" "in_texts st = x # xs"
  shows "\<exists>st'. deliver ds st = Some st' \<and> input_ok st' \<and> in_nexts st' \<noteq> [] \<and> haveSeenEndOfFile st' = Some False \<and>
    in_texts st' = (x @ written ds) # append_last (received ds) xs"
  using assms
proof (induction ds arbitrary: st x xs)
  case Nil
  then have "xs \<noteq> []" by (auto simp: in_texts_def)
  with Nil show ?case by (simp add: written_def received_def append_last_def)
next
  case (Cons d ds)
  then have xs: "xs \<noteq> []" by (auto simp: in_texts_def)
  show ?case
  proof (cases d)
    case (Written s)
    with Cons.prems obtain st1 where st1: "insertAtCurrentInsertionPoint s st = Some st1" "input_ok st1" "in_nexts st1 = in_nexts st"
      "seg_toString (in_first st1) = seg_toString (in_first st) @ seg_toString s" using input_insert_refines[of st s] by auto
    have "in_texts st1 = (x @ seg_toString s) # xs" using st1(3,4) Cons.prems(5) by (simp add: in_texts_def)
    moreover have "haveSeenEndOfFile st1 = Some False" using Cons.prems(1,2,3) last_of[OF st1(2)] last_of[OF Cons.prems(1)] st1(3) by (simp add: haveSeenEndOfFile_def)
    ultimately show ?thesis using Cons.IH[OF st1(2)] st1 Cons.prems(2,4) Written by (simp add: written_def received_def)
  next
    case (Received s)
    with Cons.prems obtain st1 where st1: "appendToEnd s st = Some st1" "input_ok st1" "in_texts st1 = append_last (seg_toString s) (in_texts st)"
      "haveSeenEndOfFile st1 = Some False" "length (in_nexts st1) = length (in_nexts st)" using input_append_refines[of st s] by auto
    have t: "in_texts st1 = x # append_last (seg_toString s) xs" using st1(3) Cons.prems(5) xs by (simp add: append_last_def)
    have "in_nexts st1 \<noteq> []" using st1(5) Cons.prems(2) by auto
    with Cons.IH[OF st1(2) _ st1(4) _ t] st1(1) Cons.prems(4) Received show ?thesis by (simp add: written_def received_def append_last_def)
  qed
qed

text \<open>C26: before the end of the file has been seen, text that a script writes goes in front of the text the parser has not read yet, in the order it is written, and text that arrives from the network in
  the meantime goes behind everything. Opening and closing the insertion point fails no assertion, and afterwards the position is such that the character
  behind the written text has the line and column it had before.\<close>

theorem insertion_point_order:
  assumes "input_ok st" "seg_pushedChar2 (in_first st) = 0" "haveSeenEndOfFile st = Some False" "\<forall>d \<in> set ds. stream_inv (delivered d)"
  shows "\<exists>st' t ts. insertion_session ds st = Some st' \<and> input_ok st' \<and> append_last (received ds) (in_texts st) = t # ts \<and>
     in_texts st' = (written ds @ t) # ts \<and> seg_currentLine (in_first st') = seg_currentLine (in_first st) \<and>
     currentColumn (in_first st') + int (length (written ds)) = currentColumn (in_first st)"
proof -
  obtain ip st1 where st1: "newInsertionPointRecord st = Some (ip, st1)" "ip = \<lparr>ip_line = seg_currentLine (in_first st), ip_column = currentColumn (in_first st)\<rparr>"
    "input_ok st1" "in_texts st1 = [] # in_texts st" "haveSeenEndOfFile st1 = Some False"
    using split_refines[OF assms(1,2)] assms(3) by auto
  have "in_nexts st1 \<noteq> []" using st1(4) by (auto simp: in_texts_def)
  then obtain st2 where st2: "deliver ds st1 = Some st2" "input_ok st2" "in_nexts st2 \<noteq> []" "in_texts st2 = written ds # append_last (received ds) (in_texts st)"
    using deliver_refines[OF st1(3) _ st1(5) assms(4) st1(4)] by auto
  then obtain n ns where n: "in_nexts st2 = n # ns" by (cases "in_nexts st2") auto
  obtain st' where st': "deleteInsertionPointRecord ip st2 = Some st'" "input_ok st'" "in_nexts st' = ns"
    "seg_toString (in_first st') = seg_toString (in_first st2) @ seg_toString n" "seg_currentLine (in_first st') = ip_line ip"
    "currentColumn (in_first st') = ip_column ip - int (length (seg_toString (in_first st2)))" using merge_refines[OF st2(2) n] by blast
  have f: "seg_toString (in_first st2) = written ds" "append_last (received ds) (in_texts st) = seg_toString n # map seg_toString ns"
    using st2(4) n by (simp_all add: in_texts_def)
  show ?thesis using st1(1,2) st2(1) st' f by (auto simp: insertion_session_def in_texts_def)
qed

theorem insertion_point_order_witness:
  "\<exists>st'. insertion_session [Written (the (makeSegmentedString (Latin1 [0x61]))), Received (the (makeSegmentedString (Latin1 [0x62])))]
     (newHTMLInputStream\<lparr>in_first := the (makeSegmentedString (Latin1 [0x63, 0x64]))\<rparr>) = Some st' \<and> in_texts st' = [[0x61, 0x63, 0x64, 0x62]]"
proof -
  let ?w = "the (makeSegmentedString (Latin1 [0x61]))" and ?r = "the (makeSegmentedString (Latin1 [0x62]))" and ?f = "the (makeSegmentedString (Latin1 [0x63, 0x64]))"
  have s: "stream_inv ?w" "seg_toString ?w = [0x61]" "stream_inv ?r" "seg_toString ?r = [0x62]"
    "stream_inv ?f" "seg_toString ?f = [0x63, 0x64]" "\<not> seg_closed ?f" "seg_pushedChar2 ?f = 0"
    using makeSegmentedString_inv[of "Latin1 [0x61]"] makeSegmentedString_inv[of "Latin1 [0x62]"] makeSegmentedString_inv[of "Latin1 [0x63, 0x64]"] by auto
  let ?st = "newHTMLInputStream\<lparr>in_first := ?f\<rparr>"
  have "input_ok ?st" "haveSeenEndOfFile ?st = Some False" "in_texts ?st = [[0x63, 0x64]]"
    using s by (simp_all add: input_ok_def newHTMLInputStream_def haveSeenEndOfFile_def last_string_def in_texts_def)
  then show ?thesis using insertion_point_order[of ?st "[Written ?w, Received ?r]"] s by (auto simp: written_def received_def append_last_def newHTMLInputStream_def)
qed

end
