(* ===== verification/Source_Tracker.thy ===== *)
theory Source_Tracker
  imports Token_Ranges Input_Stream
begin

text \<open>
  \<open>src/Source/WebCore/html/parser/HTMLSourceTracker.cpp\<close>: before each call of the tokenizer the tracker keeps a copy of the
  input and gives the token its base offset; after a complete token it records where the token ends. A session of the document parser is the
  loop of \<open>HTMLDocumentParser::pumpTokenizer\<close> for a document, with input appended, the stream closed and the state switched
  between two calls. \<open>sourceForToken\<close>, which the XSS auditor calls on a complete token, only reads the copies forward; they are dropped when
  the next token starts.
\<close>

section \<open>The tracker\<close>

record HTMLSourceTracker =
  st_previousSource :: SegmentedString
  st_currentSource :: SegmentedString
  st_cachedSourceForToken :: "UChar list"

definition newHTMLSourceTracker :: HTMLSourceTracker where
  "newHTMLSourceTracker = \<lparr>st_previousSource = emptySegmentedString, st_currentSource = emptySegmentedString, st_cachedSourceForToken = []\<rparr>"

definition tracker_start :: "SegmentedString \<Rightarrow> 'a HTMLTokenizer_scheme \<Rightarrow> HTMLToken \<Rightarrow> HTMLSourceTracker \<Rightarrow> (HTMLSourceTracker \<times> HTMLToken) option" where
  "tracker_start currentInput tokenizer token tr = do {
     previous \<leftarrow> (if tok_type token = Uninitialized then do {
         let cleared = seg_clear (st_previousSource tr);
         if numberOfBufferedCharacters tokenizer \<noteq> 0 then do {
           buffered \<leftarrow> makeSegmentedString (UTF16 (bufferedCharacters tokenizer));
           assignSegmentedString cleared buffered }
         else Some cleared }
       else seg_append (st_currentSource tr) (st_previousSource tr));
     current \<leftarrow> assignSegmentedString (st_currentSource tr) currentInput;
     Some (tr\<lparr>st_previousSource := previous, st_currentSource := current\<rparr>,
       setBaseOffset (numberOfCharactersConsumed current - seg_length previous) token) }"

definition tracker_end :: "SegmentedString \<Rightarrow> 'a HTMLTokenizer_scheme \<Rightarrow> HTMLToken \<Rightarrow> HTMLSourceTracker \<Rightarrow> HTMLSourceTracker \<times> HTMLToken" where
  "tracker_end currentInput tokenizer token tr =
     (tr\<lparr>st_cachedSourceForToken := []\<rparr>,
      tok_end (numberOfCharactersConsumed currentInput - int (numberOfBufferedCharacters tokenizer)) token)"

section \<open>Starting never fails\<close>

text \<open>A copy may have the wrong current character, which neither its length nor appending it looks at.\<close>

definition tracker_inv :: "HTMLSourceTracker \<Rightarrow> bool" where
  "tracker_inv tr \<longleftrightarrow> stream_inv (st_previousSource tr) \<and> \<not> seg_closed (st_previousSource tr) \<and>
     (\<exists>x. stream_inv ((st_currentSource tr)\<lparr>seg_currentChar := x\<rparr>))"

lemma tracker_new [simp]: "tracker_inv newHTMLSourceTracker"
  unfolding tracker_inv_def newHTMLSourceTracker_def
  using empty_inv exI[of "\<lambda>x. stream_inv (emptySegmentedString\<lparr>seg_currentChar := x\<rparr>)" "seg_currentChar emptySegmentedString"] by simp

lemma seg_clear_inv:
  assumes "stream_inv s"
  shows "stream_inv (seg_clear s)" "\<not> seg_closed (seg_clear s)" "seg_length (seg_clear s) = 0"
proof -
  have "seg_toString (seg_clear s) = []" by (simp add: seg_clear_def seg_toString_def sub_clear_def sub_appendTo_def setAdvanceEmpty_def currentSubString_def)
  then show "stream_inv (seg_clear s)"
    by (simp add: stream_inv_def) (simp add: stream_core_def pointers_ok_def seg_clear_def sub_ok_def sub_clear_def setAdvanceEmpty_def)
  show "\<not> seg_closed (seg_clear s)" "seg_length (seg_clear s) = 0" by (simp_all add: seg_clear_def setAdvanceEmpty_def seg_length_def sub_clear_def)
qed

lemma assign_copy:
  assumes "stream_inv s"
  shows "\<exists>x. assignSegmentedString t s = Some (s\<lparr>seg_currentChar := x\<rparr>)"
proof (cases "seg_pushedChar2 s = 0")
  case True
  then show ?thesis using assign_same[OF assms True] by (auto intro!: exI[of _ "seg_currentChar s"])
next
  case False
  then have "assignSegmentedString t s = Some (s\<lparr>seg_currentChar := seg_pushedChar2 s\<rparr>)"
    unfolding assignSegmentedString_def Let_def by (cases t; cases s) simp
  then show ?thesis by blast
qed

lemma length_copy [simp]: "seg_length (s\<lparr>seg_currentChar := x\<rparr>) = seg_length s" "numberOfCharactersConsumed (s\<lparr>seg_currentChar := x\<rparr>) = numberOfCharactersConsumed s"
  by (simp_all add: seg_length_def numberOfCharactersConsumed_def)

lemma append_copy: "seg_append (s\<lparr>seg_currentChar := x\<rparr>) t = seg_append s t"
  by (simp add: seg_append_def)

lemma length_nonneg: "stream_inv s \<Longrightarrow> 0 \<le> seg_length s"
  using length_toString[of s] by (simp add: stream_inv_def)

lemma tracker_start_ok:
  assumes "tracker_inv tr" "stream_inv input"
  shows "\<exists>tr'. tracker_start input tk t tr = Some (tr', setBaseOffset (numberOfCharactersConsumed input - seg_length (st_previousSource tr')) t) \<and>
    tracker_inv tr' \<and> seg_length (st_currentSource tr') = seg_length input \<and>
    (tok_type t \<noteq> Uninitialized \<longrightarrow> seg_length (st_previousSource tr') = seg_length (st_previousSource tr) + seg_length (st_currentSource tr))"
proof -
  have prev: "stream_inv (st_previousSource tr)" "\<not> seg_closed (st_previousSource tr)" using assms(1) by (simp_all add: tracker_inv_def)
  obtain x where cur: "stream_inv ((st_currentSource tr)\<lparr>seg_currentChar := x\<rparr>)" using assms(1) by (auto simp: tracker_inv_def)
  obtain y where y: "assignSegmentedString (st_currentSource tr) input = Some (input\<lparr>seg_currentChar := y\<rparr>)" using assign_copy[OF assms(2)] by blast
  have inp: "\<exists>z. stream_inv (input\<lparr>seg_currentChar := y, seg_currentChar := z\<rparr>)" using assms(2) by (intro exI[of _ "seg_currentChar input"]) simp
  define previous where "previous = (if tok_type t = Uninitialized then
         if numberOfBufferedCharacters tk \<noteq> 0 then do { buffered \<leftarrow> makeSegmentedString (UTF16 (bufferedCharacters tk));
           assignSegmentedString (seg_clear (st_previousSource tr)) buffered }
         else Some (seg_clear (st_previousSource tr))
       else seg_append (st_currentSource tr) (st_previousSource tr))"
  have "\<exists>p. previous = Some p \<and> stream_inv p \<and> \<not> seg_closed p \<and>
      (tok_type t \<noteq> Uninitialized \<longrightarrow> seg_length p = seg_length (st_previousSource tr) + seg_length (st_currentSource tr))"
  proof (cases "tok_type t = Uninitialized")
    case True
    obtain b where b: "makeSegmentedString (UTF16 (bufferedCharacters tk)) = Some b" "stream_inv b" "seg_pushedChar2 b = 0" "\<not> seg_closed b"
      using makeSegmentedString_inv[of "UTF16 (bufferedCharacters tk)"] by auto
    with True seg_clear_inv[OF prev(1)] assign_same[OF b(2,3)] show ?thesis by (simp add: previous_def)
  next
    case False
    obtain p where p: "seg_append (st_currentSource tr) (st_previousSource tr) = Some p" "stream_inv p" "\<not> seg_closed p"
      "seg_toString p = seg_toString (st_previousSource tr) @ seg_toString ((st_currentSource tr)\<lparr>seg_currentChar := x\<rparr>)"
      using seg_append_inv[OF prev(1) cur prev(2)] by (auto simp: append_copy)
    then have "seg_length p = seg_length (st_previousSource tr) + seg_length (st_currentSource tr)"
      using length_toString[of p] length_toString[of "st_previousSource tr"] length_toString[of "(st_currentSource tr)\<lparr>seg_currentChar := x\<rparr>"] prev(1) cur
      by (simp add: stream_inv_def)
    with p False show ?thesis by (simp add: previous_def)
  qed
  then obtain p where p: "previous = Some p" "stream_inv p" "\<not> seg_closed p"
    "tok_type t \<noteq> Uninitialized \<longrightarrow> seg_length p = seg_length (st_previousSource tr) + seg_length (st_currentSource tr)" by blast
  have "tracker_start input tk t tr = Some (tr\<lparr>st_previousSource := p, st_currentSource := input\<lparr>seg_currentChar := y\<rparr>\<rparr>,
      setBaseOffset (numberOfCharactersConsumed input - seg_length p) t)"
    using p(1) y unfolding tracker_start_def previous_def Let_def by (cases "tok_type t = Uninitialized") auto
  then show ?thesis using p(2-4) inp by (simp add: tracker_inv_def)
qed

section \<open>Sessions with a tracker\<close>

definition pump_start :: "Conf \<Rightarrow> HTMLSourceTracker \<Rightarrow> (Conf \<times> HTMLSourceTracker) option" where
  "pump_start c tr = do { (tr', t) \<leftarrow> tracker_start (run_source c) c (run_token c) tr; Some (c\<lparr>run_token := t\<rparr>, tr') }"

definition pump_end :: "Conf \<Rightarrow> HTMLSourceTracker \<Rightarrow> Conf \<times> HTMLSourceTracker" where
  "pump_end c tr = (let (tr', t) = tracker_end (run_source c) c (run_token c) tr in (c\<lparr>run_token := t\<rparr>, tr'))"

inductive tracked :: "TokenizerEnv \<Rightarrow> nat \<Rightarrow> Conf \<times> HTMLSourceTracker \<Rightarrow> Conf \<times> HTMLSourceTracker \<Rightarrow> bool" for E addr where
  tracked_token: "\<lbrakk>pump_start c tr = Some (c0, tr0); nextToken E addr c0 = Some (True, d); pump_end d tr0 = (e, tr1)\<rbrakk> \<Longrightarrow>
     tracked E addr (c, tr) (next_call e, tr1)"
| tracked_more: "\<lbrakk>pump_start c tr = Some (c0, tr0); nextToken E addr c0 = Some (False, d)\<rbrakk> \<Longrightarrow> tracked E addr (c, tr) (d, tr0)"
| tracked_append: "\<lbrakk>\<not> seg_closed (run_source c); stream_inv t; seg_append t (run_source c) = Some s;
     no_nul_reference (seg_toString s)\<rbrakk> \<Longrightarrow> tracked E addr (c, tr) (c\<lparr>run_source := s\<rparr>, tr)"
| tracked_close: "seg_close (run_source c) = Some s \<Longrightarrow> tracked E addr (c, tr) (c\<lparr>run_source := s\<rparr>, tr)"
| tracked_state: "\<lbrakk>tk_state c = DataState; tk_bufferedEndTagName c = []\<rbrakk> \<Longrightarrow> tracked E addr (c, tr) (updateStateFor name c, tr)"
| tracked_flags: "tracked E addr (c, tr) (c\<lparr>tk_forceNullCharacterReplacement := force, tk_shouldAllowCDATA := cdata\<rparr>, tr)"

text \<open>Inside an attribute some source of the token is already behind.\<close>

definition in_attribute :: "Conf \<Rightarrow> bool" where
  "in_attribute c \<longleftrightarrow> kind (tk_state c) \<in> {KAttribute, KValue}"

definition tracked_inv :: "TokenizerEnv \<Rightarrow> nat \<Rightarrow> Conf \<times> HTMLSourceTracker \<Rightarrow> bool" where
  "tracked_inv E addr = (\<lambda>(c, tr). session_inv E addr c \<and> tracker_inv tr \<and> (\<exists>s. ranged (tk_state c) (run_token c) s) \<and>
     (in_attribute c \<longrightarrow> 0 < seg_length (st_previousSource tr) + seg_length (st_currentSource tr)))"

lemma tracked_start: "makeSegmentedString str = Some s \<Longrightarrow> no_nul_reference (characters str) \<Longrightarrow> tracked_inv E addr (start_conf opt s, newHTMLSourceTracker)"
  using start_idle[of str s E opt] by (auto simp: tracked_inv_def session_inv_def in_attribute_def kind_def intro: exI[of _ s])

lemma in_attribute_tag: "idle_inv E c \<Longrightarrow> in_attribute c \<Longrightarrow> isTagType (tok_type (run_token c))"
  by (auto simp: idle_inv_def token_ok_def kind_ok_def end_tag_pending_def in_attribute_def kind_def)

lemma ranged_rebase: "ranged st t s \<Longrightarrow> (kind st = KValue \<Longrightarrow> n < numberOfCharactersConsumed s') \<Longrightarrow> ranged st (setBaseOffset n t) s'"
  by (auto simp: ranged_def attribute_open_def setBaseOffset_def)

text \<open>The tracker gives the token a base offset that the tokenizer can count from.\<close>

lemma pump_start_ok:
  assumes "tracked_inv E addr (c, tr)"
  shows "\<exists>n tr0. pump_start c tr = Some (c\<lparr>run_token := setBaseOffset n (run_token c)\<rparr>, tr0) \<and> tracker_inv tr0 \<and>
    seg_length (st_currentSource tr0) = seg_length (run_source c) \<and> (in_attribute c \<longrightarrow> 0 < seg_length (st_previousSource tr0)) \<and>
    offsets_ok (tk_state c) (setBaseOffset n (run_token c)) (run_source c) \<and> ranged (tk_state c) (setBaseOffset n (run_token c)) (run_source c)"
proof -
  have inv: "idle_inv E c" "tracker_inv tr" "stream_inv (run_source c)" and at: "in_attribute c \<Longrightarrow> 0 < seg_length (st_previousSource tr) + seg_length (st_currentSource tr)"
    using assms by (auto simp: tracked_inv_def session_inv_def idle_inv_def)
  obtain s where s: "ranged (tk_state c) (run_token c) s" using assms by (auto simp: tracked_inv_def)
  from tracker_start_ok[OF inv(2,3), of c "run_token c"] obtain tr0 where
    tr0: "tracker_start (run_source c) c (run_token c) tr = Some (tr0, setBaseOffset (offset c - seg_length (st_previousSource tr0)) (run_token c))"
      "tracker_inv tr0" "seg_length (st_currentSource tr0) = seg_length (run_source c)"
      "tok_type (run_token c) \<noteq> Uninitialized \<longrightarrow> seg_length (st_previousSource tr0) = seg_length (st_previousSource tr) + seg_length (st_currentSource tr)"
    by blast
  let ?n = "offset c - seg_length (st_previousSource tr0)"
  have pos: "0 \<le> seg_length (st_previousSource tr0)" "in_attribute c \<Longrightarrow> 0 < seg_length (st_previousSource tr0)"
    using tr0(2,4) length_nonneg at in_attribute_tag[OF inv(1)] by (auto simp: tracker_inv_def)
  have "offsets_ok (tk_state c) (setBaseOffset ?n (run_token c)) (run_source c)"
    using pos by (auto simp: offsets_ok_def setBaseOffset_def in_attribute_def)
  moreover have "ranged (tk_state c) (setBaseOffset ?n (run_token c)) (run_source c)"
    by (rule ranged_rebase[OF s]) (use pos(2) in \<open>simp add: in_attribute_def\<close>)
  ultimately show ?thesis using tr0 pos(2) by (intro exI[of _ ?n] exI[of _ tr0]) (simp add: pump_start_def)
qed

text \<open>A call that finds no input leaves the state alone.\<close>

lemma nextToken_no_input:
  assumes "nextToken E addr c = Some (b, d)" "seg_empty (run_source c)"
  shows "tk_state d = tk_state c"
  using assms by (auto simp: nextToken_def startBufferedEndTag_def enter_switch_def Let_def split: Option.bind_splits if_splits)

lemma tracked_call:
  assumes "env_ok E" "tracked_inv E addr (c, tr)"
  shows "\<exists>c0 tr0 b d. pump_start c tr = Some (c0, tr0) \<and> nextToken E addr c0 = Some (b, d) \<and> tracker_inv tr0 \<and> session E addr c (if b then next_call d else d) \<and>
    ret_inv E b d \<and> ranges (Ret b d) \<and> (in_attribute d \<longrightarrow> 0 < seg_length (st_previousSource tr0) + seg_length (st_currentSource tr0))"
proof -
  obtain n tr0 where st: "pump_start c tr = Some (c\<lparr>run_token := setBaseOffset n (run_token c)\<rparr>, tr0)" "tracker_inv tr0"
    "seg_length (st_currentSource tr0) = seg_length (run_source c)" "in_attribute c \<longrightarrow> 0 < seg_length (st_previousSource tr0)"
    "offsets_ok (tk_state c) (setBaseOffset n (run_token c)) (run_source c)" "ranged (tk_state c) (setBaseOffset n (run_token c)) (run_source c)"
    using pump_start_ok[OF assms(2)] by blast
  let ?c = "c\<lparr>run_token := setBaseOffset n (run_token c)\<rparr>"
  have idle: "idle_inv E c" "tk_token c = None \<or> tk_token c = Some addr" using assms(2) by (auto simp: tracked_inv_def session_inv_def)
  obtain b d where d: "nextToken E addr ?c = Some (b, d)" "ret_inv E b d"
    using nextToken_returns[of E ?c addr] assms(1) idle st(5) by auto
  have r: "ranges (Ret b d)" using nextToken_ranges[OF assms(1) _ _ d(1)] idle st(5,6) by simp
  have "session E addr c (if b then next_call d else d)"
    using d(1) st(5) session_token[OF refl, of c n E addr d] session_more[OF refl, of c n E addr d] by (cases b) simp_all
  moreover have "0 < seg_length (st_previousSource tr0) + seg_length (st_currentSource tr0)" if "in_attribute d"
  proof -
    have core: "stream_core (run_source c)" "stream_inv (run_source c)" using idle(1) by (auto simp: idle_inv_def stream_inv_def)
    have nn: "0 \<le> seg_length (st_previousSource tr0)" using st(2) length_nonneg by (simp add: tracker_inv_def)
    show ?thesis
    proof (cases "seg_empty (run_source c)")
      case True
      then have "in_attribute c" using nextToken_no_input[OF d(1)] that by (simp add: in_attribute_def)
      with st(3,4) length_nonneg[OF core(2)] show ?thesis by simp
    next
      case False
      then have "seg_toString (run_source c) \<noteq> []" using readable_nonempty core(2) by (simp add: readable_def)
      then have "0 < seg_length (run_source c)" using length_toString[OF core(1)] by (cases "seg_toString (run_source c)") auto
      with st(3) nn show ?thesis by simp
    qed
  qed
  ultimately show ?thesis using st(1,2) d r by blast
qed

lemma not_in_attribute_next: "ret_inv E True d \<Longrightarrow> \<not> in_attribute (next_call d)"
  using in_attribute_tag[of E "next_call d"] by (auto simp: ret_inv_def next_call_def)

lemma tracked_step:
  assumes "env_ok E" "tracked E addr p q" "tracked_inv E addr p"
  shows "tracked_inv E addr q"
proof -
  obtain c tr where p: "p = (c, tr)" by (cases p)
  note inv = assms(3)[unfolded p]
  have sess: "session_inv E addr c" using inv by (simp add: tracked_inv_def)
  from assms(2)[unfolded p] show ?thesis
  proof cases
    case (tracked_token c0 tr0 d e tr1)
    with tracked_call[OF assms(1) inv] have d: "tracker_inv tr0" "session E addr c (next_call d)" "ret_inv E True d" by auto
    have "next_call e = next_call d" "tracker_inv tr1"
      using tracked_token(4) d(1) by (auto simp: pump_end_def tracker_end_def tok_end_def next_call_def tok_clear_def tracker_inv_def)
    moreover have "ranged (tk_state (next_call d)) (run_token (next_call d)) s" for s
      by (simp add: next_call_def untagged_def)
    ultimately show ?thesis using tracked_token(1) session_step[OF assms(1) d(2) sess] not_in_attribute_next[OF d(3)] by (auto simp: tracked_inv_def)
  next
    case (tracked_more c0 tr0 d)
    with tracked_call[OF assms(1) inv] have d: "tracker_inv tr0" "session E addr c d" "ranged (tk_state d) (run_token d) (run_source d)"
      "in_attribute d \<longrightarrow> 0 < seg_length (st_previousSource tr0) + seg_length (st_currentSource tr0)" by auto
    from d session_step[OF assms(1) d(2) sess] tracked_more(1) show ?thesis by (auto simp: tracked_inv_def)
  next
    case (tracked_append t s)
    from session_step[OF assms(1) session_append[OF tracked_append(2-5)] sess] inv tracked_append(1) show ?thesis by (auto simp: tracked_inv_def in_attribute_def)
  next
    case (tracked_close s)
    from session_step[OF assms(1) session_close[OF tracked_close(2)] sess] inv tracked_close(1) show ?thesis by (auto simp: tracked_inv_def in_attribute_def)
  next
    case (tracked_state name)
    obtain st where st: "isTextState st" "updateStateFor name c = c\<lparr>tk_state := st\<rparr>" using updateStateFor_text[OF tracked_state(2)] by blast
    have "untagged (run_token c)" using sess tracked_state(2)
      by (auto simp: session_inv_def idle_inv_def token_ok_def kind_ok_def kind_def end_tag_pending_def untagged_def)
    moreover have "\<not> in_attribute (c\<lparr>tk_state := st\<rparr>)" using st(1) by (auto simp: in_attribute_def isTextState_def kind_def)
    ultimately show ?thesis using session_step[OF assms(1) session_state[OF tracked_state(2,3), of E addr name] sess] inv tracked_state(1) st(2)
      by (auto simp: tracked_inv_def intro: ranged_untagged)
  next
    case (tracked_flags force cdata)
    with session_step[OF assms(1) session_flags sess] inv show ?thesis by (simp add: tracked_inv_def in_attribute_def)
  qed
qed

lemma tracked_reachable:
  assumes "env_ok E" "makeSegmentedString str = Some s" "no_nul_reference (characters str)"
    "(tracked E addr)\<^sup>*\<^sup>* (start_conf opt s, newHTMLSourceTracker) p"
  shows "tracked_inv E addr p"
  using assms(4) by (induction rule: rtranclp_induct) (use tracked_start[OF assms(2,3)] tracked_step[OF assms(1)] in blast)+

section \<open>A session with one tag\<close>

text \<open>A start tag with a repeated attribute.\<close>

declare run_states.simps [code]

definition sample_session :: "(Conf \<times> HTMLSourceTracker) option" where
  "sample_session = do { s \<leftarrow> makeSegmentedString (UTF16 (lit ''<a y=p y=q>''));
     pump_start (start_conf sample_options s) newHTMLSourceTracker }"

lemma sample_session_token:
  "(case sample_session of None \<Rightarrow> False | Some (c0, tr0) \<Rightarrow> (case nextToken sample_env 7 c0 of None \<Rightarrow> False
     | Some (b, d) \<Rightarrow> b \<and> tok_type (run_token d) = StartTag \<and> tok_data (run_token d) = lit ''a'' \<and>
         map (\<lambda>x. (attr_name x, attr_value x)) (tok_attributes (run_token d)) = [(lit ''y'', lit ''p''), (lit ''y'', lit ''q'')]))"
  by code_simp

end
