(* ===== verification/Element_Stack.thy ===== *)
theory Element_Stack
  imports Stack_Item
begin

text \<open>
  The stack of open elements: \<open>src/Source/WebCore/html/parser/HTMLElementStack.h\<close> and
  \<open>HTMLElementStack.cpp\<close>.

  The records of the stack form a chain in which each owns the next, so the chain is a list, its
  head the top. A record has an address, since callers keep pointers to records. The calls
  \<open>beginParsingChildren\<close> and \<open>finishParsingChildren\<close> on DOM nodes are kept as a trace. An operation
  is \<open>None\<close> where the source fails an assertion or dereferences a null pointer.
\<close>

section \<open>Data\<close>

record ElementRecord =
  er_address :: nat
  er_item :: HTMLStackItem

datatype ParsingCall = BeginParsingChildren nat | FinishParsingChildren nat

record HTMLElementStack =
  es_top :: "ElementRecord list"
  es_rootNode :: "ContainerNode option"
  es_headElement :: "nat option"
  es_bodyElement :: "nat option"
  es_stackDepth :: "32 word"
  es_nextRecord :: nat           \<comment> \<open>the next address \<open>new ElementRecord\<close> returns\<close>
  es_calls :: "ParsingCall list"

abbreviation er_node :: "ElementRecord \<Rightarrow> nat" where
  "er_node r \<equiv> nd_address (si_node (er_item r))"

definition newHTMLElementStack :: HTMLElementStack where
  "newHTMLElementStack = \<lparr>es_top = [], es_rootNode = None, es_headElement = None, es_bodyElement = None,
     es_stackDepth = 0, es_nextRecord = 0, es_calls = []\<rparr>"

section \<open>Scope markers\<close>

definition isRootNode :: "HTMLStackItem \<Rightarrow> bool" where
  "isRootNode item \<longleftrightarrow> si_isDocumentFragmentNode item \<or> hasTagName item (htmlName ''html'')"

definition isHTMLTableElement :: "ContainerNode \<Rightarrow> bool" where
  "isHTMLTableElement node \<longleftrightarrow> node_hasTagName node (htmlName ''table'')"

definition isHTMLOptGroupElement :: "ContainerNode \<Rightarrow> bool" where
  "isHTMLOptGroupElement node \<longleftrightarrow> node_hasTagName node (htmlName ''optgroup'')"

definition isHTMLOptionElement :: "ContainerNode \<Rightarrow> bool" where
  "isHTMLOptionElement node \<longleftrightarrow> node_hasTagName node (htmlName ''option'')"

definition isScopeMarker :: "HTMLStackItem \<Rightarrow> bool" where
  "isScopeMarker item \<longleftrightarrow> hasTagName item (htmlName ''applet'') \<or> hasTagName item (htmlName ''caption'')
     \<or> hasTagName item (htmlName ''marquee'') \<or> hasTagName item (htmlName ''object'')
     \<or> isHTMLTableElement (si_node item) \<or> hasTagName item (htmlName ''td'') \<or> hasTagName item (htmlName ''th'')
     \<or> hasTagName item (mathmlName ''mi'') \<or> hasTagName item (mathmlName ''mo'') \<or> hasTagName item (mathmlName ''mn'')
     \<or> hasTagName item (mathmlName ''ms'') \<or> hasTagName item (mathmlName ''mtext'')
     \<or> hasTagName item (mathmlName ''annotation-xml'') \<or> hasTagName item (svgName ''foreignObject'')
     \<or> hasTagName item (svgName ''desc'') \<or> hasTagName item (svgName ''title'') \<or> isRootNode item"

definition isListItemScopeMarker :: "HTMLStackItem \<Rightarrow> bool" where
  "isListItemScopeMarker item \<longleftrightarrow> isScopeMarker item \<or> hasTagName item (htmlName ''ol'') \<or> hasTagName item (htmlName ''ul'')"

definition isTableScopeMarker :: "HTMLStackItem \<Rightarrow> bool" where
  "isTableScopeMarker item \<longleftrightarrow> isHTMLTableElement (si_node item) \<or> isRootNode item"

definition isTableBodyScopeMarker :: "HTMLStackItem \<Rightarrow> bool" where
  "isTableBodyScopeMarker item \<longleftrightarrow> hasTagName item (htmlName ''tbody'') \<or> hasTagName item (htmlName ''tfoot'')
     \<or> hasTagName item (htmlName ''thead'') \<or> isRootNode item"

definition isTableRowScopeMarker :: "HTMLStackItem \<Rightarrow> bool" where
  "isTableRowScopeMarker item \<longleftrightarrow> hasTagName item (htmlName ''tr'') \<or> isRootNode item"

definition isMathMLTextIntegrationPoint :: "HTMLStackItem \<Rightarrow> bool" where
  "isMathMLTextIntegrationPoint item \<longleftrightarrow>
     (if \<not> isElementNode item then False
      else hasTagName item (mathmlName ''mi'') \<or> hasTagName item (mathmlName ''mo'') \<or> hasTagName item (mathmlName ''mn'')
        \<or> hasTagName item (mathmlName ''ms'') \<or> hasTagName item (mathmlName ''mtext''))"

text \<open>
  \<open>equalIgnoringCase\<close> with a NUL-terminated literal: characters are compared as ASCII letters, and
  again with the Unicode folding of ICU, a parameter, when one of them is not ASCII.
\<close>

definition toASCIILower :: "UChar \<Rightarrow> UChar" where
  "toASCIILower c = c OR (if isASCIIUpper c then 0x20 else 0)"

definition equalIgnoringCase_lit :: "(UChar32 \<Rightarrow> UChar32) \<Rightarrow> AtomicString \<Rightarrow> string \<Rightarrow> bool" where
  "equalIgnoringCase_lit foldCase s l \<longleftrightarrow> (case s of None \<Rightarrow> False
     | Some as \<Rightarrow> (let b = lit l; ored = foldl (OR) 0 as in
         if length b < length as then False
         else (if ored AND 0xFF80 \<noteq> 0
               then list_all (\<lambda>(ac, bc). foldCase (ucast ac) = foldCase (ucast bc)) (zip as b)
               else list_all (\<lambda>(ac, bc). toASCIILower ac = toASCIILower bc) (zip as b)) \<and> length b = length as))"

definition isHTMLIntegrationPoint :: "(UChar32 \<Rightarrow> UChar32) \<Rightarrow> HTMLStackItem \<Rightarrow> bool option" where
  "isHTMLIntegrationPoint foldCase item =
     (if \<not> isElementNode item then Some False
      else if hasTagName item (mathmlName ''annotation-xml'') then do {
        encodingAttr \<leftarrow> item_getAttributeItem item (attrName ''encoding'');
        Some (case encodingAttr of None \<Rightarrow> False
          | Some a \<Rightarrow> equalIgnoringCase_lit foldCase (da_value a) ''text/html''
              \<or> equalIgnoringCase_lit foldCase (da_value a) ''application/xhtml+xml'') }
      else Some (hasTagName item (svgName ''foreignObject'') \<or> hasTagName item (svgName ''desc'')
        \<or> hasTagName item (svgName ''title'')))"

definition isForeignContentScopeMarker :: "(UChar32 \<Rightarrow> UChar32) \<Rightarrow> HTMLStackItem \<Rightarrow> bool option" where
  "isForeignContentScopeMarker foldCase item =
     (if isMathMLTextIntegrationPoint item then Some True
      else do { h \<leftarrow> isHTMLIntegrationPoint foldCase item;
        Some (h \<or> isInHTMLNamespace item) })"

definition isButtonScopeMarker :: "HTMLStackItem \<Rightarrow> bool" where
  "isButtonScopeMarker item \<longleftrightarrow> isScopeMarker item \<or> hasTagName item (htmlName ''button'')"

definition isSelectScopeMarker :: "HTMLStackItem \<Rightarrow> bool" where
  "isSelectScopeMarker item \<longleftrightarrow> \<not> isHTMLOptGroupElement (si_node item) \<and> \<not> isHTMLOptionElement (si_node item)"

section \<open>Reading the stack\<close>

definition topRecord :: "HTMLElementStack \<Rightarrow> ElementRecord option" where
  "topRecord s = (case es_top s of [] \<Rightarrow> None | r # _ \<Rightarrow> Some r)"

definition topStackItem :: "HTMLElementStack \<Rightarrow> HTMLStackItem option" where
  "topStackItem s = map_option er_item (topRecord s)"

definition es_topElement :: "HTMLElementStack \<Rightarrow> nat option" where
  "es_topElement s = Option.bind (topStackItem s) item_element"

definition topNode :: "HTMLElementStack \<Rightarrow> nat option" where
  "topNode s = map_option (\<lambda>i. nd_address (si_node i)) (topStackItem s)"

definition hasOnlyOneElement :: "HTMLElementStack \<Rightarrow> bool option" where
  "hasOnlyOneElement s = do { r \<leftarrow> topRecord s; Some (tl (es_top s) = []) }"

definition secondElementIsHTMLBodyElement :: "HTMLElementStack \<Rightarrow> bool option" where
  "secondElementIsHTMLBodyElement s = do { ASSERT (es_rootNode s \<noteq> None); Some (es_bodyElement s \<noteq> None) }"

definition oneBelowTop :: "HTMLElementStack \<Rightarrow> HTMLStackItem option option" where
  "oneBelowTop s = do {
     ASSERT (es_top s \<noteq> []);
     ASSERT (tl (es_top s) \<noteq> []);
     let item = er_item (es_top s ! 1);
     Some (if isElementNode item then Some item else None) }"

text \<open>The addresses of records, in the loops that return one.\<close>

definition es_find :: "nat \<Rightarrow> HTMLElementStack \<Rightarrow> ElementRecord option" where
  "es_find element s = List.find (\<lambda>r. er_node r = element) (es_top s)"

definition es_topmost :: "AtomicString \<Rightarrow> HTMLElementStack \<Rightarrow> ElementRecord option" where
  "es_topmost tagName s = List.find (\<lambda>r. matchesHTMLTag (er_item r) tagName) (es_top s)"

definition es_contains :: "nat \<Rightarrow> HTMLElementStack \<Rightarrow> bool" where
  "es_contains element s \<longleftrightarrow> es_find element s \<noteq> None"

definition es_contains_tag :: "AtomicString \<Rightarrow> HTMLElementStack \<Rightarrow> bool" where
  "es_contains_tag tagName s \<longleftrightarrow> es_topmost tagName s \<noteq> None"

definition isAbove :: "ElementRecord list \<Rightarrow> nat \<Rightarrow> nat \<Rightarrow> bool" where
  "isAbove records this other \<longleftrightarrow>
     other \<in> set (map er_address (tl (dropWhile (\<lambda>r. er_address r \<noteq> this) records)))"

text \<open>The loops that stop at a target or at a marker; running off the stack is \<open>ASSERT_NOT_REACHED\<close>.\<close>

fun scope_loop :: "(HTMLStackItem \<Rightarrow> bool) \<Rightarrow> (HTMLStackItem \<Rightarrow> bool) \<Rightarrow> ElementRecord list \<Rightarrow> bool option" where
  "scope_loop target marker [] = None"
| "scope_loop target marker (r # rs) =
     (if target (er_item r) then Some True
      else if marker (er_item r) then Some False
      else scope_loop target marker rs)"

definition inScopeCommon :: "(HTMLStackItem \<Rightarrow> bool) \<Rightarrow> AtomicString \<Rightarrow> HTMLElementStack \<Rightarrow> bool option" where
  "inScopeCommon marker targetTag s = scope_loop (\<lambda>i. matchesHTMLTag i targetTag) marker (es_top s)"

definition hasNumberedHeaderElementInScope :: "HTMLElementStack \<Rightarrow> bool option" where
  "hasNumberedHeaderElementInScope s = scope_loop isNumberedHeaderElement isScopeMarker (es_top s)"

definition inScope_element :: "nat \<Rightarrow> HTMLElementStack \<Rightarrow> bool option" where
  "inScope_element targetElement s =
     scope_loop (\<lambda>i. nd_address (si_node i) = targetElement) isScopeMarker (es_top s)"

definition inScope :: "AtomicString \<Rightarrow> HTMLElementStack \<Rightarrow> bool option" where
  "inScope targetTag = inScopeCommon isScopeMarker targetTag"

definition inListItemScope :: "AtomicString \<Rightarrow> HTMLElementStack \<Rightarrow> bool option" where
  "inListItemScope targetTag = inScopeCommon isListItemScopeMarker targetTag"

definition inTableScope :: "AtomicString \<Rightarrow> HTMLElementStack \<Rightarrow> bool option" where
  "inTableScope targetTag = inScopeCommon isTableScopeMarker targetTag"

definition inButtonScope :: "AtomicString \<Rightarrow> HTMLElementStack \<Rightarrow> bool option" where
  "inButtonScope targetTag = inScopeCommon isButtonScopeMarker targetTag"

definition inSelectScope :: "AtomicString \<Rightarrow> HTMLElementStack \<Rightarrow> bool option" where
  "inSelectScope targetTag = inScopeCommon isSelectScopeMarker targetTag"

definition htmlElement :: "HTMLElementStack \<Rightarrow> nat option" where
  "htmlElement s = do { n \<leftarrow> es_rootNode s; ASSERT (nd_tagName n \<noteq> None); Some (nd_address n) }"

definition es_getRootNode :: "HTMLElementStack \<Rightarrow> ContainerNode option" where
  "es_getRootNode s = es_rootNode s"

definition headElement :: "HTMLElementStack \<Rightarrow> nat option" where
  "headElement s = es_headElement s"

definition bodyElement :: "HTMLElementStack \<Rightarrow> nat option" where
  "bodyElement s = es_bodyElement s"

fun furthestBlock_loop :: "nat \<Rightarrow> nat option \<Rightarrow> ElementRecord list \<Rightarrow> nat option option" where
  "furthestBlock_loop formattingElement furthestBlock [] = None"
| "furthestBlock_loop formattingElement furthestBlock (r # rs) = do {
     e \<leftarrow> item_element (er_item r);
     if e = formattingElement then Some furthestBlock
     else furthestBlock_loop formattingElement
            (if isSpecialNode (er_item r) then Some (er_address r) else furthestBlock) rs }"

definition furthestBlockForFormattingElement :: "nat \<Rightarrow> HTMLElementStack \<Rightarrow> nat option option" where
  "furthestBlockForFormattingElement formattingElement s = furthestBlock_loop formattingElement None (es_top s)"

section \<open>Pushing\<close>

definition pushCommon :: "HTMLStackItem \<Rightarrow> HTMLElementStack \<Rightarrow> HTMLElementStack option" where
  "pushCommon item s = do {
     ASSERT (es_rootNode s \<noteq> None);
     Some (s\<lparr>es_stackDepth := es_stackDepth s + 1,
       es_top := \<lparr>er_address = es_nextRecord s, er_item = item\<rparr> # es_top s,
       es_nextRecord := es_nextRecord s + 1\<rparr>) }"

definition pushRootNodeCommon :: "HTMLStackItem \<Rightarrow> HTMLElementStack \<Rightarrow> HTMLElementStack option" where
  "pushRootNodeCommon rootItem s = do {
     ASSERT (es_top s = []);
     ASSERT (es_rootNode s = None);
     pushCommon rootItem (s\<lparr>es_rootNode := Some (si_node rootItem)\<rparr>) }"

definition pushRootNode :: "HTMLStackItem \<Rightarrow> HTMLElementStack \<Rightarrow> HTMLElementStack option" where
  "pushRootNode rootItem s = do { ASSERT (si_isDocumentFragmentNode rootItem); pushRootNodeCommon rootItem s }"

definition pushHTMLHtmlElement :: "HTMLStackItem \<Rightarrow> HTMLElementStack \<Rightarrow> HTMLElementStack option" where
  "pushHTMLHtmlElement item s = do { ASSERT (hasTagName item (htmlName ''html'')); pushRootNodeCommon item s }"

definition pushHTMLHeadElement :: "HTMLStackItem \<Rightarrow> HTMLElementStack \<Rightarrow> HTMLElementStack option" where
  "pushHTMLHeadElement item s = do {
     ASSERT (hasTagName item (htmlName ''head''));
     ASSERT (es_headElement s = None);
     e \<leftarrow> item_element item;
     pushCommon item (s\<lparr>es_headElement := Some e\<rparr>) }"

definition pushHTMLBodyElement :: "HTMLStackItem \<Rightarrow> HTMLElementStack \<Rightarrow> HTMLElementStack option" where
  "pushHTMLBodyElement item s = do {
     ASSERT (hasTagName item (htmlName ''body''));
     ASSERT (es_bodyElement s = None);
     e \<leftarrow> item_element item;
     pushCommon item (s\<lparr>es_bodyElement := Some e\<rparr>) }"

definition ordinary_item :: "HTMLStackItem \<Rightarrow> bool" where
  "ordinary_item item \<longleftrightarrow> \<not> hasTagName item (htmlName ''html'') \<and> \<not> hasTagName item (htmlName ''head'') \<and>
     \<not> hasTagName item (htmlName ''body'')"

definition es_push :: "HTMLStackItem \<Rightarrow> HTMLElementStack \<Rightarrow> HTMLElementStack option" where
  "es_push item s = do {
     ASSERT (ordinary_item item);
     ASSERT (es_rootNode s \<noteq> None);
     pushCommon item s }"

fun insertAbove_loop :: "ElementRecord \<Rightarrow> nat \<Rightarrow> ElementRecord list \<Rightarrow> ElementRecord list option" where
  "insertAbove_loop new recordBelow (r # below # rs) =
     (if er_address below = recordBelow then Some (r # new # below # rs)
      else map_option (Cons r) (insertAbove_loop new recordBelow (below # rs)))"
| "insertAbove_loop new recordBelow rs = None"

definition insertAbove :: "HTMLStackItem \<Rightarrow> nat \<Rightarrow> HTMLElementStack \<Rightarrow> HTMLElementStack option" where
  "insertAbove item recordBelow s = do {
     top \<leftarrow> topRecord s;
     ASSERT (ordinary_item item);
     ASSERT (es_rootNode s \<noteq> None);
     if er_address top = recordBelow then es_push item s
     else do {
       rs \<leftarrow> insertAbove_loop \<lparr>er_address = es_nextRecord s, er_item = item\<rparr> recordBelow (es_top s);
       e \<leftarrow> item_element item;
       Some (s\<lparr>es_stackDepth := es_stackDepth s + 1, es_top := rs, es_nextRecord := es_nextRecord s + 1,
         es_calls := es_calls s @ [BeginParsingChildren e]\<rparr>) } }"

definition replaceElement :: "nat \<Rightarrow> HTMLStackItem \<Rightarrow> HTMLElementStack \<Rightarrow> HTMLElementStack option" where
  "replaceElement record item s = do {
     r \<leftarrow> List.find (\<lambda>r. er_address r = record) (es_top s);
     ASSERT (isElementNode (er_item r));
     Some (s\<lparr>es_top := map (\<lambda>r. if er_address r = record then r\<lparr>er_item := item\<rparr> else r) (es_top s)\<rparr>) }"

section \<open>Popping and removing\<close>

definition popCommon :: "HTMLElementStack \<Rightarrow> HTMLElementStack option" where
  "popCommon s = do {
     item \<leftarrow> topStackItem s;
     ASSERT (\<not> hasTagName item (htmlName ''html''));
     ASSERT (\<not> hasTagName item (htmlName ''head'') \<or> es_headElement s = None);
     ASSERT (\<not> hasTagName item (htmlName ''body'') \<or> es_bodyElement s = None);
     e \<leftarrow> es_topElement s;
     Some (s\<lparr>es_calls := es_calls s @ [FinishParsingChildren e], es_top := tl (es_top s),
       es_stackDepth := es_stackDepth s - 1\<rparr>) }"

definition popHTMLHeadElement :: "HTMLElementStack \<Rightarrow> HTMLElementStack option" where
  "popHTMLHeadElement s = do {
     e \<leftarrow> es_topElement s;
     ASSERT (Some e = es_headElement s);
     popCommon (s\<lparr>es_headElement := None\<rparr>) }"

definition popHTMLBodyElement :: "HTMLElementStack \<Rightarrow> HTMLElementStack option" where
  "popHTMLBodyElement s = do {
     e \<leftarrow> es_topElement s;
     ASSERT (Some e = es_bodyElement s);
     popCommon (s\<lparr>es_bodyElement := None\<rparr>) }"

definition popAll :: "HTMLElementStack \<Rightarrow> HTMLElementStack" where
  "popAll s = s\<lparr>es_rootNode := None, es_headElement := None, es_bodyElement := None, es_stackDepth := 0,
     es_calls := es_calls s @ map (\<lambda>r. FinishParsingChildren (er_node r)) (es_top s), es_top := []\<rparr>"

definition es_pop :: "HTMLElementStack \<Rightarrow> HTMLElementStack option" where
  "es_pop s = do {
     item \<leftarrow> topStackItem s;
     ASSERT (\<not> hasTagName item (htmlName ''head''));
     popCommon s }"

lemma pop_shorter: "es_pop s = Some s' \<Longrightarrow> length (es_top s') < length (es_top s)"
  by (cases "es_top s") (auto simp: es_pop_def popCommon_def topStackItem_def topRecord_def split: Option.bind_splits if_splits)

text \<open>The loops \<open>while (!stop(topStackItem())) pop();\<close>.\<close>

function pop_loop :: "(HTMLStackItem \<Rightarrow> bool option) \<Rightarrow> HTMLElementStack \<Rightarrow> HTMLElementStack option" where
  "pop_loop stop s = (case topStackItem s of None \<Rightarrow> None
     | Some item \<Rightarrow> (case stop item of None \<Rightarrow> None
        | Some True \<Rightarrow> Some s
        | Some False \<Rightarrow> (case es_pop s of None \<Rightarrow> None | Some s' \<Rightarrow> pop_loop stop s')))"
  by pat_completeness auto
termination
  by (relation "measure (\<lambda>(stop, s). length (es_top s))") (auto dest: pop_shorter)

declare pop_loop.simps [simp del]

definition popUntil :: "AtomicString \<Rightarrow> HTMLElementStack \<Rightarrow> HTMLElementStack option" where
  "popUntil tagName = pop_loop (\<lambda>i. Some (matchesHTMLTag i tagName))"

definition popUntilPopped :: "AtomicString \<Rightarrow> HTMLElementStack \<Rightarrow> HTMLElementStack option" where
  "popUntilPopped tagName s = do { s1 \<leftarrow> popUntil tagName s; es_pop s1 }"

definition popUntilNumberedHeaderElementPopped :: "HTMLElementStack \<Rightarrow> HTMLElementStack option" where
  "popUntilNumberedHeaderElementPopped s = do {
     s1 \<leftarrow> pop_loop (\<lambda>i. Some (isNumberedHeaderElement i)) s; es_pop s1 }"

definition popUntil_element :: "nat \<Rightarrow> HTMLElementStack \<Rightarrow> HTMLElementStack option" where
  "popUntil_element element = pop_loop (\<lambda>i. do { e \<leftarrow> item_element i; Some (e = element) })"

definition popUntilPopped_element :: "nat \<Rightarrow> HTMLElementStack \<Rightarrow> HTMLElementStack option" where
  "popUntilPopped_element element s = do { s1 \<leftarrow> popUntil_element element s; es_pop s1 }"

definition popUntilTableScopeMarker :: "HTMLElementStack \<Rightarrow> HTMLElementStack option" where
  "popUntilTableScopeMarker = pop_loop (\<lambda>i. Some (isTableScopeMarker i))"

definition popUntilTableBodyScopeMarker :: "HTMLElementStack \<Rightarrow> HTMLElementStack option" where
  "popUntilTableBodyScopeMarker = pop_loop (\<lambda>i. Some (isTableBodyScopeMarker i))"

definition popUntilTableRowScopeMarker :: "HTMLElementStack \<Rightarrow> HTMLElementStack option" where
  "popUntilTableRowScopeMarker = pop_loop (\<lambda>i. Some (isTableRowScopeMarker i))"

definition popUntilForeignContentScopeMarker :: "(UChar32 \<Rightarrow> UChar32) \<Rightarrow> HTMLElementStack \<Rightarrow> HTMLElementStack option" where
  "popUntilForeignContentScopeMarker foldCase = pop_loop (isForeignContentScopeMarker foldCase)"

text \<open>\<open>pos->next()->element()\<close>: at the last record the next pointer is null.\<close>

fun removeNonTop_loop :: "nat \<Rightarrow> ElementRecord list \<Rightarrow> ElementRecord list option" where
  "removeNonTop_loop element (r # below # rs) = do {
     e \<leftarrow> item_element (er_item below);
     if e = element then Some (r # rs)
     else map_option (Cons r) (removeNonTop_loop element (below # rs)) }"
| "removeNonTop_loop element rs = None"

definition removeNonTopCommon :: "ContainerNode \<Rightarrow> HTMLElementStack \<Rightarrow> HTMLElementStack option" where
  "removeNonTopCommon element s = do {
     ASSERT (\<not> node_hasTagName element (htmlName ''html''));
     ASSERT (\<not> node_hasTagName element (htmlName ''body''));
     e \<leftarrow> es_topElement s;
     ASSERT (e \<noteq> nd_address element);
     rs \<leftarrow> removeNonTop_loop (nd_address element) (es_top s);
     Some (s\<lparr>es_calls := es_calls s @ [FinishParsingChildren (nd_address element)], es_top := rs,
       es_stackDepth := es_stackDepth s - 1\<rparr>) }"

definition removeHTMLHeadElement :: "ContainerNode \<Rightarrow> HTMLElementStack \<Rightarrow> HTMLElementStack option" where
  "removeHTMLHeadElement element s = do {
     ASSERT (es_headElement s = Some (nd_address element));
     e \<leftarrow> es_topElement s;
     if e = nd_address element then popHTMLHeadElement s
     else removeNonTopCommon element (s\<lparr>es_headElement := None\<rparr>) }"

definition es_remove :: "ContainerNode \<Rightarrow> HTMLElementStack \<Rightarrow> HTMLElementStack option" where
  "es_remove element s = do {
     ASSERT (\<not> node_hasTagName element (htmlName ''head''));
     e \<leftarrow> es_topElement s;
     if e = nd_address element then es_pop s else removeNonTopCommon element s }"

end
