(* ===== verification/Element_Stack_Laws.thy ===== *)
theory Element_Stack_Laws
  imports Element_Stack
begin

text \<open>
  The laws of the stack of open elements. Every operation keeps an invariant, \<open>stack_inv\<close>; under it
  the scope queries, the popping loops, the removal of an element and the search for the furthest
  block compute what the parsing specification asks for and fail no assertion.

  The locale \<open>scope\<close> states what the loops rely on, that the root of the stack is a marker; it is
  interpreted for each of the seven kinds of marker of the source.
\<close>

section \<open>The invariant\<close>

text \<open>An item agrees with its node; every item but the root is an element.\<close>

definition item_ok :: "HTMLStackItem \<Rightarrow> bool" where
  "item_ok i \<longleftrightarrow> \<not> si_isDocumentFragmentNode i \<and> (case nd_tagName (si_node i) of None \<Rightarrow> False
     | Some q \<Rightarrow> qn_localName q = si_tokenLocalName i \<and> qn_namespaceURI q = si_namespaceURI i)"

definition fragment_ok :: "HTMLStackItem \<Rightarrow> bool" where
  "fragment_ok i \<longleftrightarrow> si_isDocumentFragmentNode i \<and> nd_tagName (si_node i) = None \<and> si_tokenLocalName i = None"

definition root_ok :: "HTMLStackItem \<Rightarrow> bool" where
  "root_ok i \<longleftrightarrow> fragment_ok i \<or> (item_ok i \<and> hasTagName i (htmlName ''html''))"

fun chain_ok :: "ElementRecord list \<Rightarrow> bool" where
  "chain_ok [] = True"
| "chain_ok [r] = root_ok (er_item r)"
| "chain_ok (r # rs) \<longleftrightarrow> item_ok (er_item r) \<and> \<not> hasTagName (er_item r) (htmlName ''html'') \<and> chain_ok rs"

definition remembered :: "string \<Rightarrow> nat option \<Rightarrow> ElementRecord list \<Rightarrow> bool" where
  "remembered name e rs \<longleftrightarrow> (\<forall>r \<in> set rs. hasTagName (er_item r) (htmlName name) \<longleftrightarrow> e = Some (er_node r)) \<and>
     (\<forall>x. e = Some x \<longrightarrow> x \<in> er_node ` set rs)"

definition stack_inv :: "HTMLElementStack \<Rightarrow> bool" where
  "stack_inv s \<longleftrightarrow> es_stackDepth s = of_nat (length (es_top s)) \<and>
     distinct (map er_address (es_top s)) \<and> (\<forall>r \<in> set (es_top s). er_address r < es_nextRecord s) \<and>
     distinct (map er_node (es_top s)) \<and> chain_ok (es_top s) \<and>
     es_rootNode s = (if es_top s = [] then None else Some (si_node (er_item (last (es_top s))))) \<and>
     remembered ''head'' (es_headElement s) (es_top s) \<and> remembered ''body'' (es_bodyElement s) (es_top s)"

lemma item_ok_tag: "item_ok i \<Longrightarrow> node_hasTagName (si_node i) q = hasTagName i q"
  by (auto simp: item_ok_def node_hasTagName_def hasTagName_def qn_matches_def split: option.splits)

lemma item_ok_element: "item_ok i \<Longrightarrow> item_element i = Some (nd_address (si_node i))"
  by (auto simp: item_ok_def item_element_def split: option.splits)

lemma chain_Cons: "chain_ok (r # rs) \<Longrightarrow> chain_ok rs"
  by (cases rs) auto

lemma chain_append: "chain_ok (as @ bs) \<Longrightarrow> chain_ok bs"
  by (induction as) (auto dest: chain_Cons)

lemma chain_above: "chain_ok (as @ b # bs) \<Longrightarrow> a \<in> set as \<Longrightarrow>
   item_ok (er_item a) \<and> \<not> hasTagName (er_item a) (htmlName ''html'')"
proof (induction as)
  case (Cons x xs)
  then show ?case by (cases xs) auto
qed simp

lemma chain_last: "chain_ok rs \<Longrightarrow> rs \<noteq> [] \<Longrightarrow> root_ok (er_item (last rs))"
  by (induction rs rule: chain_ok.induct) auto

lemma root_ok_isRoot: "root_ok i \<Longrightarrow> isRootNode i"
  by (auto simp: root_ok_def isRootNode_def fragment_ok_def)

section \<open>Scope queries\<close>

text \<open>What every kind of scope promises: the root of the stack is a marker of it.\<close>

locale scope =
  fixes marker :: "HTMLStackItem \<Rightarrow> bool"
  assumes root_marker: "root_ok i \<Longrightarrow> marker i"
begin

lemma scope_loop_iff:
  assumes "chain_ok rs" "rs \<noteq> []"
  shows "scope_loop target marker rs =
    Some (\<exists>k < length rs. target (er_item (rs ! k)) \<and> (\<forall>j < k. \<not> marker (er_item (rs ! j))))"
  using assms
proof (induction rs)
  case (Cons r rs)
  show ?case
  proof (cases "target (er_item r) \<or> marker (er_item r)")
    case True
    then show ?thesis by (auto simp: nth_Cons' intro!: exI[of _ "0 :: nat"])
  next
    case False
    then have ne: "rs \<noteq> []" using Cons.prems root_marker by (cases rs) auto
    have "(\<exists>k < length (r # rs). target (er_item ((r # rs) ! k)) \<and> (\<forall>j < k. \<not> marker (er_item ((r # rs) ! j)))) \<longleftrightarrow>
      (\<exists>k < length rs. target (er_item (rs ! k)) \<and> (\<forall>j < k. \<not> marker (er_item (rs ! j))))"
      (is "?l \<longleftrightarrow> ?r")
    proof
      assume ?l
      then obtain k where k: "k < length (r # rs)" "target (er_item ((r # rs) ! k))" "\<forall>j < k. \<not> marker (er_item ((r # rs) ! j))" by auto
      with False obtain k' where "k = Suc k'" by (cases k) auto
      with k show ?r by (auto intro!: exI[of _ k'])
    next
      assume ?r
      then obtain k where "k < length rs" "target (er_item (rs ! k))" "\<forall>j < k. \<not> marker (er_item (rs ! j))" by auto
      with False show ?l by (intro exI[of _ "Suc k"]) (auto simp: less_Suc_eq_0_disj)
    qed
    with False ne Cons show ?thesis using chain_Cons by auto
  qed
qed simp

end

lemma htmlName_eq: "hasTagName i (htmlName a) \<Longrightarrow> hasTagName i (htmlName b) \<longleftrightarrow> a = b"
  by (auto simp: hasTagName_def htmlName_def)

lemma root_not: "root_ok i \<Longrightarrow> n \<noteq> ''html'' \<Longrightarrow> \<not> hasTagName i (htmlName n)"
  by (auto simp: root_ok_def fragment_ok_def htmlName_eq) (auto simp: hasTagName_def htmlName_def)

lemma root_not_node: "root_ok i \<Longrightarrow> n \<noteq> ''html'' \<Longrightarrow> \<not> node_hasTagName (si_node i) (htmlName n)"
  using root_not[of i n] by (auto simp: root_ok_def item_ok_tag) (auto simp: fragment_ok_def node_hasTagName_def)

interpretation any_scope: scope isScopeMarker
  by unfold_locales (simp add: isScopeMarker_def root_ok_isRoot)

interpretation list_item_scope: scope isListItemScopeMarker
  by unfold_locales (simp add: isListItemScopeMarker_def any_scope.root_marker)

interpretation table_scope: scope isTableScopeMarker
  by unfold_locales (simp add: isTableScopeMarker_def root_ok_isRoot)

interpretation button_scope: scope isButtonScopeMarker
  by unfold_locales (simp add: isButtonScopeMarker_def any_scope.root_marker)

interpretation select_scope: scope isSelectScopeMarker
  by unfold_locales (simp add: isSelectScopeMarker_def isHTMLOptGroupElement_def isHTMLOptionElement_def root_not_node)

section \<open>Operations keep the invariant\<close>

lemma chain_push: "chain_ok rs \<Longrightarrow> rs \<noteq> [] \<Longrightarrow> item_ok (er_item r) \<Longrightarrow> \<not> hasTagName (er_item r) (htmlName ''html'') \<Longrightarrow> chain_ok (r # rs)"
  by (cases rs) auto

definition fresh_item :: "HTMLStackItem \<Rightarrow> HTMLElementStack \<Rightarrow> bool" where
  "fresh_item item s \<longleftrightarrow> nd_address (si_node item) \<notin> er_node ` set (es_top s)"

lemma remembered_none: "e = None \<Longrightarrow> remembered n e rs \<longleftrightarrow> (\<forall>r \<in> set rs. \<not> hasTagName (er_item r) (htmlName n))"
  by (auto simp: remembered_def)

lemma remembered_push:
  assumes "remembered n e rs" "nd_address (si_node item) \<notin> er_node ` set rs" "\<not> hasTagName item (htmlName n)"
  shows "remembered n e (\<lparr>er_address = a, er_item = item\<rparr> # rs)"
  using assms by (auto simp: remembered_def)

lemma remembered_new:
  assumes "remembered n None rs" "nd_address (si_node item) \<notin> er_node ` set rs" "hasTagName item (htmlName n)"
  shows "remembered n (Some (nd_address (si_node item))) (\<lparr>er_address = a, er_item = item\<rparr> # rs)"
  using assms by (auto simp: remembered_def)

lemma pushed_inv:
  assumes "stack_inv s" "es_top s \<noteq> []" "item_ok item" "\<not> hasTagName item (htmlName ''html'')" "fresh_item item s"
    and new: "new = \<lparr>er_address = es_nextRecord s, er_item = item\<rparr>"
    and s': "es_top s' = new # es_top s" "es_stackDepth s' = es_stackDepth s + 1" "es_nextRecord s' = es_nextRecord s + 1"
      "es_rootNode s' = es_rootNode s"
    and "remembered ''head'' (es_headElement s') (new # es_top s)" "remembered ''body'' (es_bodyElement s') (new # es_top s)"
  shows "stack_inv s'"
proof -
  have "chain_ok (new # es_top s)" by (rule chain_push) (use assms in \<open>auto simp: stack_inv_def\<close>)
  moreover have "distinct (map er_address (new # es_top s))" "\<forall>r \<in> set (new # es_top s). er_address r < es_nextRecord s + 1"
    using assms(1) new by (auto simp: stack_inv_def less_Suc_eq)
  moreover have "distinct (map er_node (new # es_top s))" using assms(1,5) new by (auto simp: stack_inv_def fresh_item_def)
  ultimately show ?thesis using assms by (simp add: stack_inv_def)
qed

lemma push_inv:
  assumes "stack_inv s" "es_push item s = Some s'" "item_ok item" "fresh_item item s"
  shows "stack_inv s'"
proof -
  have o: "ordinary_item item" "es_top s \<noteq> []" and s': "s' = s\<lparr>es_stackDepth := es_stackDepth s + 1,
       es_top := \<lparr>er_address = es_nextRecord s, er_item = item\<rparr> # es_top s, es_nextRecord := es_nextRecord s + 1\<rparr>"
    using assms(1,2) by (auto simp: es_push_def pushCommon_def stack_inv_def split: if_splits)
  show ?thesis
    by (rule pushed_inv[OF assms(1) o(2) assms(3) _ assms(4) refl])
      (use assms o in \<open>simp_all add: s' ordinary_item_def fresh_item_def stack_inv_def remembered_push\<close>)
qed

lemma push_root_inv:
  assumes "stack_inv s" "pushRootNodeCommon item s = Some s'" "root_ok item"
  shows "stack_inv s'"
proof -
  have "\<not> hasTagName item (htmlName ''head'')" "\<not> hasTagName item (htmlName ''body'')" using root_not[OF assms(3)] by simp_all
  with assms show ?thesis
    by (auto simp: stack_inv_def pushRootNodeCommon_def pushCommon_def remembered_def split: if_splits)
qed

lemma push_head_inv:
  assumes "stack_inv s" "pushHTMLHeadElement item s = Some s'" "item_ok item" "fresh_item item s"
  shows "stack_inv s'"
proof -
  have o: "hasTagName item (htmlName ''head'')" "es_headElement s = None" "es_top s \<noteq> []"
    and s': "s' = s\<lparr>es_headElement := Some (nd_address (si_node item)), es_stackDepth := es_stackDepth s + 1,
       es_top := \<lparr>er_address = es_nextRecord s, er_item = item\<rparr> # es_top s, es_nextRecord := es_nextRecord s + 1\<rparr>"
    using assms(1,2) item_ok_element[OF assms(3)]
    by (auto simp: pushHTMLHeadElement_def pushCommon_def stack_inv_def split: if_splits)
  have n: "\<not> hasTagName item (htmlName ''html'')" "\<not> hasTagName item (htmlName ''body'')" using htmlName_eq[OF o(1)] by simp_all
  show ?thesis
    by (rule pushed_inv[OF assms(1) o(3) assms(3) n(1) assms(4) refl])
      (use assms o n in \<open>simp_all add: s' fresh_item_def stack_inv_def remembered_push remembered_new\<close>)
qed

lemma push_body_inv:
  assumes "stack_inv s" "pushHTMLBodyElement item s = Some s'" "item_ok item" "fresh_item item s"
  shows "stack_inv s'"
proof -
  have o: "hasTagName item (htmlName ''body'')" "es_bodyElement s = None" "es_top s \<noteq> []"
    and s': "s' = s\<lparr>es_bodyElement := Some (nd_address (si_node item)), es_stackDepth := es_stackDepth s + 1,
       es_top := \<lparr>er_address = es_nextRecord s, er_item = item\<rparr> # es_top s, es_nextRecord := es_nextRecord s + 1\<rparr>"
    using assms(1,2) item_ok_element[OF assms(3)]
    by (auto simp: pushHTMLBodyElement_def pushCommon_def stack_inv_def split: if_splits)
  have n: "\<not> hasTagName item (htmlName ''html'')" "\<not> hasTagName item (htmlName ''head'')" using htmlName_eq[OF o(1)] by simp_all
  show ?thesis
    by (rule pushed_inv[OF assms(1) o(3) assms(3) n(1) assms(4) refl])
      (use assms o n in \<open>simp_all add: s' fresh_item_def stack_inv_def remembered_push remembered_new\<close>)
qed

text \<open>Inserting, replacing and removing a record below the top change the chain in the middle.\<close>

lemma chain_insert:
  "chain_ok (as @ b # bs) \<Longrightarrow> as \<noteq> [] \<Longrightarrow> item_ok (er_item r) \<Longrightarrow> \<not> hasTagName (er_item r) (htmlName ''html'') \<Longrightarrow>
   chain_ok (as @ r # b # bs)"
proof (induction as)
  case (Cons a as)
  then show ?case by (cases as) auto
qed simp

lemma chain_delete: "chain_ok (as @ r # b # bs) \<Longrightarrow> chain_ok (as @ b # bs)"
proof (induction as)
  case (Cons a as)
  then show ?case by (cases as) auto
qed simp

lemma insert_loop_split:
  "insertAbove_loop new addr rs = Some rs' \<Longrightarrow>
   \<exists>as b bs. as \<noteq> [] \<and> rs = as @ b # bs \<and> rs' = as @ new # b # bs \<and> er_address b = addr"
proof (induction new addr rs arbitrary: rs' rule: insertAbove_loop.induct)
  case (1 new addr r below rs)
  show ?case
  proof (cases "er_address below = addr")
    case True
    with 1(2) show ?thesis by (intro exI[of _ "[r]"]) auto
  next
    case False
    then obtain xs where xs: "insertAbove_loop new addr (below # rs) = Some xs" "rs' = r # xs" using 1(2) by auto
    then obtain as b bs where "as \<noteq> []" "below # rs = as @ b # bs" "xs = as @ new # b # bs" "er_address b = addr"
      using 1(1)[OF False xs(1)] by blast
    with xs(2) show ?thesis by (intro exI[of _ "r # as"]) auto
  qed
qed auto

lemma insertAbove_inv:
  assumes "stack_inv s" "insertAbove item addr s = Some s'" "item_ok item" "fresh_item item s"
  shows "stack_inv s'"
proof -
  obtain t where t: "topRecord s = Some t" "ordinary_item item" "es_rootNode s \<noteq> None"
    using assms(2) by (auto simp: insertAbove_def split: Option.bind_splits if_splits)
  show ?thesis
  proof (cases "er_address t = addr")
    case True
    with t assms(2) have "es_push item s = Some s'" by (simp add: insertAbove_def)
    from push_inv[OF assms(1) this assms(3,4)] show ?thesis .
  next
    case False
    let ?new = "\<lparr>er_address = es_nextRecord s, er_item = item\<rparr>"
    obtain rs where rs: "insertAbove_loop ?new addr (es_top s) = Some rs"
      "s' = s\<lparr>es_stackDepth := es_stackDepth s + 1, es_top := rs, es_nextRecord := es_nextRecord s + 1,
         es_calls := es_calls s @ [BeginParsingChildren (nd_address (si_node item))]\<rparr>"
      using t False assms(2) item_ok_element[OF assms(3)] by (auto simp: insertAbove_def split: Option.bind_splits)
    obtain as b bs where sp: "as \<noteq> []" "es_top s = as @ b # bs" "rs = as @ ?new # b # bs"
      using insert_loop_split[OF rs(1)] by blast
    have "chain_ok rs" unfolding sp(3)
      by (rule chain_insert) (use assms(1,3) t(2) sp in \<open>auto simp: stack_inv_def ordinary_item_def\<close>)
    moreover have "distinct (map er_address rs)" "\<forall>r \<in> set rs. er_address r < es_nextRecord s + 1" "distinct (map er_node rs)"
      using assms(1,4) sp by (auto simp: stack_inv_def fresh_item_def less_Suc_eq)
    moreover have "remembered n e rs" if "remembered n e (es_top s)" "\<not> hasTagName item (htmlName n)" for n e
      using that assms(4) sp by (auto simp: remembered_def fresh_item_def)
    ultimately show ?thesis
      using assms(1) t(2) sp rs(2) by (auto simp: stack_inv_def ordinary_item_def)
  qed
qed

definition forgets :: "nat option \<Rightarrow> nat \<Rightarrow> nat option \<Rightarrow> bool" where
  "forgets e x e' \<longleftrightarrow> e' = (if e = Some x then None else e)"

lemma remembered_delete:
  assumes "remembered n e (as @ r # bs)" "distinct (map er_node (as @ r # bs))" "forgets e (er_node r) e'"
  shows "remembered n e' (as @ bs)"
  using assms by (auto simp: remembered_def forgets_def split: if_splits)

lemma deleted_inv:
  assumes inv: "stack_inv s" and top: "es_top s = as @ r # bs" "bs \<noteq> []"
    and s': "es_top s' = as @ bs" "es_stackDepth s' = es_stackDepth s - 1" "es_nextRecord s' = es_nextRecord s"
      "es_rootNode s' = es_rootNode s" "forgets (es_headElement s) (er_node r) (es_headElement s')"
      "forgets (es_bodyElement s) (er_node r) (es_bodyElement s')"
  shows "stack_inv s'"
proof -
  obtain b bs' where b: "bs = b # bs'" using top(2) by (cases bs) auto
  have "chain_ok (as @ bs)" using inv top chain_delete[of as r b bs'] b by (simp add: stack_inv_def)
  moreover have "remembered ''head'' (es_headElement s') (as @ bs)" "remembered ''body'' (es_bodyElement s') (as @ bs)"
    using inv top s'(5,6) remembered_delete[of _ _ as r bs] by (auto simp: stack_inv_def)
  moreover have "es_stackDepth s' = of_nat (length (as @ bs))" using inv top s'(2) by (simp add: stack_inv_def)
  ultimately show ?thesis using inv top s' by (auto simp: stack_inv_def)
qed

lemma root_not_element:
  assumes "chain_ok [r]" "item_element (er_item r) \<noteq> None" shows "hasTagName (er_item r) (htmlName ''html'')"
  using assms by (auto simp: root_ok_def fragment_ok_def item_element_def)

lemma popCommon_split:
  assumes "stack_inv s" "popCommon s = Some s'"
  obtains r rs where "es_top s = r # rs" "rs \<noteq> []" "item_ok (er_item r)" "\<not> hasTagName (er_item r) (htmlName ''html'')"
    "s' = s\<lparr>es_calls := es_calls s @ [FinishParsingChildren (er_node r)], es_top := rs, es_stackDepth := es_stackDepth s - 1\<rparr>"
    "hasTagName (er_item r) (htmlName ''head'') \<Longrightarrow> es_headElement s = None"
    "hasTagName (er_item r) (htmlName ''body'') \<Longrightarrow> es_bodyElement s = None"
proof -
  obtain r rs where r: "es_top s = r # rs"
    using assms(2) by (cases "es_top s") (auto simp: popCommon_def topStackItem_def topRecord_def)
  have a: "\<not> hasTagName (er_item r) (htmlName ''html'')" "item_element (er_item r) \<noteq> None"
    "hasTagName (er_item r) (htmlName ''head'') \<longrightarrow> es_headElement s = None"
    "hasTagName (er_item r) (htmlName ''body'') \<longrightarrow> es_bodyElement s = None"
    using assms(2) r by (auto simp: popCommon_def topStackItem_def topRecord_def es_topElement_def split: Option.bind_splits if_splits)
  have c: "chain_ok (r # rs)" using assms(1) r by (simp add: stack_inv_def)
  then have ne: "rs \<noteq> []" using root_not_element[of r] a by auto
  then have "item_ok (er_item r)" using c by (cases rs) auto
  with assms(2) r a item_ok_element[of "er_item r"] ne show thesis
    by (intro that[of r rs]) (auto simp: popCommon_def topStackItem_def topRecord_def es_topElement_def)
qed

lemma remembered_hd: "remembered n e (r # rs) \<Longrightarrow> hasTagName (er_item r) (htmlName n) \<longleftrightarrow> e = Some (er_node r)"
  by (simp add: remembered_def)

lemma pop_split:
  assumes "stack_inv s" "es_pop s = Some s'"
  obtains r rs where "es_top s = r # rs" "rs \<noteq> []" "item_ok (er_item r)" "ordinary_item (er_item r)"
    "s' = s\<lparr>es_calls := es_calls s @ [FinishParsingChildren (er_node r)], es_top := rs, es_stackDepth := es_stackDepth s - 1\<rparr>"
proof -
  have p: "popCommon s = Some s'" using assms(2) by (auto simp: es_pop_def split: Option.bind_splits if_splits)
  obtain r rs where r: "es_top s = r # rs" "rs \<noteq> []" "item_ok (er_item r)" "\<not> hasTagName (er_item r) (htmlName ''html'')"
    "s' = s\<lparr>es_calls := es_calls s @ [FinishParsingChildren (er_node r)], es_top := rs, es_stackDepth := es_stackDepth s - 1\<rparr>"
    "hasTagName (er_item r) (htmlName ''body'') \<Longrightarrow> es_bodyElement s = None"
    using popCommon_split[OF assms(1) p] by metis
  have "\<not> hasTagName (er_item r) (htmlName ''head'')"
    using assms(2) r(1) by (auto simp: es_pop_def topStackItem_def topRecord_def split: if_splits)
  moreover have "\<not> hasTagName (er_item r) (htmlName ''body'')"
    using r(1,6) assms(1) remembered_hd[of "''body''" "es_bodyElement s" r rs] by (auto simp: stack_inv_def)
  ultimately show thesis using r that[of r rs] by (simp add: ordinary_item_def)
qed

lemma pop_inv: "stack_inv s \<Longrightarrow> es_pop s = Some s' \<Longrightarrow> stack_inv s'"
proof -
  assume a: "stack_inv s" "es_pop s = Some s'"
  obtain r rs where r: "es_top s = r # rs" "rs \<noteq> []" "ordinary_item (er_item r)"
    "s' = s\<lparr>es_calls := es_calls s @ [FinishParsingChildren (er_node r)], es_top := rs, es_stackDepth := es_stackDepth s - 1\<rparr>"
    using pop_split[OF a] by metis
  have "es_headElement s \<noteq> Some (er_node r)" "es_bodyElement s \<noteq> Some (er_node r)"
    using a(1) r(1,3) remembered_hd[of "''head''" "es_headElement s" r rs] remembered_hd[of "''body''" "es_bodyElement s" r rs]
    by (simp_all add: stack_inv_def ordinary_item_def)
  note kept = this
  show "stack_inv s'" by (rule deleted_inv[of s "[]" r rs]) (simp_all add: a(1) r forgets_def kept)
qed

lemma pop_head_inv:
  assumes "stack_inv s" "popHTMLHeadElement s = Some s'"
  shows "stack_inv s'"
proof -
  obtain r rs where r: "es_top s = r # rs" using assms(2)
    by (cases "es_top s") (auto simp: popHTMLHeadElement_def es_topElement_def topStackItem_def topRecord_def)
  have a: "item_element (er_item r) = es_headElement s" "es_headElement s \<noteq> None" "popCommon (s\<lparr>es_headElement := None\<rparr>) = Some s'"
    using assms(2) r by (cases "es_headElement s"; auto simp: popHTMLHeadElement_def es_topElement_def topStackItem_def topRecord_def split: Option.bind_splits if_splits)+
  have h: "es_headElement s = Some (er_node r)" using a(1,2) by (auto simp: item_element_def split: if_splits)
  have "hasTagName (er_item r) (htmlName ''head'')"
    using assms(1) r remembered_hd[of "''head''" "es_headElement s" r rs] h by (simp add: stack_inv_def)
  then have n: "\<not> hasTagName (er_item r) (htmlName ''html'')" "\<not> hasTagName (er_item r) (htmlName ''body'')"
    by (simp_all add: htmlName_eq)
  have b: "es_bodyElement s \<noteq> Some (er_node r)"
    using assms(1) r remembered_hd[of "''body''" "es_bodyElement s" r rs] n by (simp add: stack_inv_def)
  have ne: "rs \<noteq> []"
    using root_not_element[of r] assms(1) r n(1) a(1) h by (auto simp: stack_inv_def)
  have s': "s' = s\<lparr>es_headElement := None, es_calls := es_calls s @ [FinishParsingChildren (er_node r)], es_top := rs, es_stackDepth := es_stackDepth s - 1\<rparr>"
    using a(1,3) h r n by (auto simp: popCommon_def topStackItem_def topRecord_def es_topElement_def split: if_splits)
  show ?thesis by (rule deleted_inv[of s "[]" r rs]) (simp_all add: assms(1) r ne s' forgets_def h b)
qed

lemma pop_body_inv:
  assumes "stack_inv s" "popHTMLBodyElement s = Some s'"
  shows "stack_inv s'"
proof -
  obtain r rs where r: "es_top s = r # rs" using assms(2)
    by (cases "es_top s") (auto simp: popHTMLBodyElement_def es_topElement_def topStackItem_def topRecord_def)
  have a: "item_element (er_item r) = es_bodyElement s" "es_bodyElement s \<noteq> None" "popCommon (s\<lparr>es_bodyElement := None\<rparr>) = Some s'"
    using assms(2) r by (cases "es_bodyElement s"; auto simp: popHTMLBodyElement_def es_topElement_def topStackItem_def topRecord_def split: Option.bind_splits if_splits)+
  have h: "es_bodyElement s = Some (er_node r)" using a(1,2) by (auto simp: item_element_def split: if_splits)
  have "hasTagName (er_item r) (htmlName ''body'')"
    using assms(1) r remembered_hd[of "''body''" "es_bodyElement s" r rs] h by (simp add: stack_inv_def)
  then have n: "\<not> hasTagName (er_item r) (htmlName ''html'')" "\<not> hasTagName (er_item r) (htmlName ''head'')"
    by (simp_all add: htmlName_eq)
  have b: "es_headElement s \<noteq> Some (er_node r)"
    using assms(1) r remembered_hd[of "''head''" "es_headElement s" r rs] n by (simp add: stack_inv_def)
  have ne: "rs \<noteq> []"
    using root_not_element[of r] assms(1) r n(1) a(1) h by (auto simp: stack_inv_def)
  have s': "s' = s\<lparr>es_bodyElement := None, es_calls := es_calls s @ [FinishParsingChildren (er_node r)], es_top := rs, es_stackDepth := es_stackDepth s - 1\<rparr>"
    using a(1,3) h r n by (auto simp: popCommon_def topStackItem_def topRecord_def es_topElement_def split: if_splits)
  show ?thesis by (rule deleted_inv[of s "[]" r rs]) (simp_all add: assms(1) r ne s' forgets_def h b)
qed

lemma popAll_inv: "stack_inv (popAll s)"
  by (simp add: stack_inv_def popAll_def remembered_def)

lemma pop_loop_inv: "stack_inv s \<Longrightarrow> pop_loop stop s = Some s' \<Longrightarrow> stack_inv s'"
proof (induction stop s arbitrary: s' rule: pop_loop.induct)
  case (1 stop s)
  from 1(2,3) show ?case
    by (subst (asm) pop_loop.simps)
      (auto split: option.splits bool.splits dest: 1(1)[OF _ _ _ _ pop_inv])
qed

lemma pop_loop_spec:
  assumes "stack_inv s" "es_top s = over @ r # below"
    "\<forall>x \<in> set over. stop (er_item x) = Some False \<and> ordinary_item (er_item x)" "stop (er_item r) = Some True"
  shows "pop_loop stop s = Some (s\<lparr>es_top := r # below, es_stackDepth := es_stackDepth s - of_nat (length over),
     es_calls := es_calls s @ map (\<lambda>x. FinishParsingChildren (er_node x)) over\<rparr>)"
  using assms
proof (induction over arbitrary: s)
  case Nil
  then show ?case by (subst pop_loop.simps) (simp add: topStackItem_def topRecord_def)
next
  case (Cons x over)
  have x: "item_ok (er_item x)" "\<not> hasTagName (er_item x) (htmlName ''html'')"
    using chain_above[of "x # over" r below x] Cons.prems(1,2) by (simp_all add: stack_inv_def)
  let ?s = "s\<lparr>es_calls := es_calls s @ [FinishParsingChildren (er_node x)], es_top := over @ r # below, es_stackDepth := es_stackDepth s - 1\<rparr>"
  have pop: "es_pop s = Some ?s"
    using Cons.prems(2,3) item_ok_element[OF x(1)]
    by (simp add: es_pop_def popCommon_def topStackItem_def topRecord_def es_topElement_def ordinary_item_def)
  have "pop_loop stop ?s = Some (?s\<lparr>es_top := r # below, es_stackDepth := es_stackDepth ?s - of_nat (length over),
     es_calls := es_calls ?s @ map (\<lambda>x. FinishParsingChildren (er_node x)) over\<rparr>)"
    by (rule Cons.IH[OF pop_inv[OF Cons.prems(1) pop]]) (use Cons.prems in auto)
  then have "pop_loop stop s = \<dots>"
    using pop Cons.prems(2,3) by (subst pop_loop.simps) (simp add: topStackItem_def topRecord_def)
  then show ?case by (simp add: algebra_simps)
qed

section \<open>Removing below the top\<close>

text \<open>A DOM node the caller passes is the node a record of the stack with that address holds.\<close>

definition known_node :: "ContainerNode \<Rightarrow> HTMLElementStack \<Rightarrow> bool" where
  "known_node n s \<longleftrightarrow> (\<forall>r \<in> set (es_top s). er_node r = nd_address n \<longrightarrow> si_node (er_item r) = n)"

lemma remove_loop_split:
  "removeNonTop_loop x rs = Some rs' \<Longrightarrow>
   \<exists>as r bs. as \<noteq> [] \<and> rs = as @ r # bs \<and> rs' = as @ bs \<and> item_element (er_item r) = Some x"
proof (induction x rs arbitrary: rs' rule: removeNonTop_loop.induct)
  case (1 x r below rs)
  obtain e where e: "item_element (er_item below) = Some e" using 1(2) by (auto split: Option.bind_splits)
  show ?case
  proof (cases "e = x")
    case True
    with 1(2) e show ?thesis by (intro exI[of _ "[r]"]) auto
  next
    case False
    then obtain xs where xs: "removeNonTop_loop x (below # rs) = Some xs" "rs' = r # xs" using 1(2) e by auto
    then obtain as b bs where "as \<noteq> []" "below # rs = as @ b # bs" "xs = as @ bs" "item_element (er_item b) = Some x"
      using 1(1)[OF e False xs(1)] by blast
    with xs(2) show ?thesis by (intro exI[of _ "r # as"]) auto
  qed
qed auto

lemma item_element_address: "item_element i = Some x \<Longrightarrow> nd_address (si_node i) = x"
  by (auto simp: item_element_def split: if_splits)

lemma stack_item_element:
  assumes "stack_inv s" "r \<in> set (es_top s)" "item_element (er_item r) \<noteq> None"
  shows "item_ok (er_item r)"
proof -
  obtain as bs where sp: "es_top s = as @ r # bs" using split_list[OF assms(2)] by blast
  then have c: "chain_ok (r # bs)" using assms(1) chain_append by (auto simp: stack_inv_def)
  show ?thesis
  proof (cases bs)
    case Nil
    then show ?thesis using c assms(3) by (auto simp: root_ok_def fragment_ok_def item_element_def)
  next
    case (Cons b bs')
    then show ?thesis using c by simp
  qed
qed

lemma remembered_in: "remembered n e rs \<Longrightarrow> r \<in> set rs \<Longrightarrow> hasTagName (er_item r) (htmlName n) \<longleftrightarrow> e = Some (er_node r)"
  by (simp add: remembered_def)

lemma removeNonTop_split:
  assumes inv: "stack_inv s" and known: "known_node n s"
    and e: "removeNonTop_loop (nd_address n) (es_top s) = Some rs" "\<not> node_hasTagName n (htmlName ''html'')"
  obtains as r bs where "es_top s = as @ r # bs" "bs \<noteq> []" "rs = as @ bs" "er_node r = nd_address n"
    "\<And>q. hasTagName (er_item r) q = node_hasTagName n q"
proof -
  obtain as r bs where sp: "es_top s = as @ r # bs" "rs = as @ bs" "item_element (er_item r) = Some (nd_address n)"
    using remove_loop_split[OF e(1)] by blast
  have ok: "item_ok (er_item r)" using stack_item_element[OF inv, of r] sp by simp
  have n: "er_node r = nd_address n" using item_element_address[OF sp(3)] .
  then have "si_node (er_item r) = n" using known sp(1) by (simp add: known_node_def)
  then have tag: "hasTagName (er_item r) q = node_hasTagName n q" for q using item_ok_tag[OF ok, of q] by simp
  have "chain_ok (r # bs)" using inv sp(1) chain_append[of as] by (simp add: stack_inv_def)
  then have "bs \<noteq> []" using root_not_element[of r] sp(3) tag e(2) by auto
  with sp n tag show thesis using that by blast
qed

lemma removeNonTopCommon_inv:
  assumes inv: "stack_inv s" and known: "known_node n s"
    and r: "removeNonTopCommon n (s\<lparr>es_headElement := h\<rparr>) = Some s'"
    and h: "h = (if node_hasTagName n (htmlName ''head'') then None else es_headElement s)"
  shows "stack_inv s'"
proof -
  obtain rs where rs: "removeNonTop_loop (nd_address n) (es_top s) = Some rs" "\<not> node_hasTagName n (htmlName ''html'')"
    "\<not> node_hasTagName n (htmlName ''body'')"
    and s': "s' = s\<lparr>es_headElement := h, es_calls := es_calls s @ [FinishParsingChildren (nd_address n)], es_top := rs,
       es_stackDepth := es_stackDepth s - 1\<rparr>"
    using r by (auto simp: removeNonTopCommon_def split: Option.bind_splits if_splits)
  obtain as x bs where sp: "es_top s = as @ x # bs" "bs \<noteq> []" "rs = as @ bs" "er_node x = nd_address n"
    and tag: "\<And>q. hasTagName (er_item x) q = node_hasTagName n q"
    by (rule removeNonTop_split[OF inv known rs(1,2)]) blast
  have "x \<in> set (es_top s)" using sp(1) by simp
  then have "node_hasTagName n (htmlName ''head'') \<longleftrightarrow> es_headElement s = Some (er_node x)"
      "es_bodyElement s \<noteq> Some (er_node x)"
    using inv remembered_in[of "''head''" "es_headElement s" "es_top s" x] remembered_in[of "''body''" "es_bodyElement s" "es_top s" x]
      tag rs(3) by (simp_all add: stack_inv_def)
  note kept = this
  show ?thesis
    by (rule deleted_inv[of s as x bs]) (simp_all add: inv sp(1-3) s' forgets_def h kept)
qed

lemma remove_inv:
  assumes "stack_inv s" "known_node n s" "es_remove n s = Some s'"
  shows "stack_inv s'"
proof -
  have h: "\<not> node_hasTagName n (htmlName ''head'')" using assms(3) by (auto simp: es_remove_def split: if_splits)
  have "es_pop s = Some s' \<or> removeNonTopCommon n s = Some s'"
    using assms(3) by (auto simp: es_remove_def split: Option.bind_splits if_splits)
  then show ?thesis
  proof
    assume "es_pop s = Some s'"
    then show ?thesis by (rule pop_inv[OF assms(1)])
  next
    assume "removeNonTopCommon n s = Some s'"
    then show ?thesis using removeNonTopCommon_inv[OF assms(1,2), of "es_headElement s" s'] h by simp
  qed
qed

lemma remove_head_inv:
  assumes "stack_inv s" "known_node n s" "removeHTMLHeadElement n s = Some s'"
  shows "stack_inv s'"
proof -
  have h: "es_headElement s = Some (nd_address n)" using assms(3) by (auto simp: removeHTMLHeadElement_def split: if_splits)
  then obtain r where r: "r \<in> set (es_top s)" "er_node r = nd_address n" using assms(1) by (auto simp: stack_inv_def remembered_def)
  then have rn: "si_node (er_item r) = n" using assms(2) by (simp add: known_node_def)
  have ht: "hasTagName (er_item r) (htmlName ''head'')"
    using remembered_in[of "''head''" "es_headElement s" "es_top s" r] assms(1) r h by (simp add: stack_inv_def)
  have "item_ok (er_item r)"
  proof -
    obtain as bs where sp: "es_top s = as @ r # bs" using split_list[OF r(1)] by blast
    then have c: "chain_ok (r # bs)" using assms(1) chain_append[of as] by (simp add: stack_inv_def)
    then have "bs \<noteq> []" using root_not[of "er_item r" "''head''"] ht by auto
    with c show ?thesis by (cases bs) auto
  qed
  then have t: "node_hasTagName n (htmlName ''head'')" using item_ok_tag[of "er_item r"] rn ht by simp
  have "popHTMLHeadElement s = Some s' \<or> removeNonTopCommon n (s\<lparr>es_headElement := None\<rparr>) = Some s'"
    using assms(3) by (auto simp: removeHTMLHeadElement_def split: Option.bind_splits if_splits)
  then show ?thesis
  proof
    assume "popHTMLHeadElement s = Some s'"
    then show ?thesis by (rule pop_head_inv[OF assms(1)])
  next
    assume "removeNonTopCommon n (s\<lparr>es_headElement := None\<rparr>) = Some s'"
    then show ?thesis using removeNonTopCommon_inv[OF assms(1,2), of None s'] t by simp
  qed
qed

lemma chain_replace:
  "chain_ok (as @ r # bs) \<Longrightarrow> item_ok (er_item r') \<Longrightarrow> ordinary_item (er_item r') \<Longrightarrow> bs \<noteq> [] \<Longrightarrow> chain_ok (as @ r' # bs)"
proof (induction as)
  case Nil
  then show ?case by (cases bs) (auto simp: ordinary_item_def)
next
  case (Cons a as)
  then show ?case by (cases as) auto
qed

lemma replace_split:
  assumes "distinct (map er_address rs)" "rs = as @ r # bs" "er_address r = a"
  shows "map (\<lambda>r. if er_address r = a then f r else r) rs = as @ f r # bs"
  using assms by (force simp: image_iff intro!: map_idI)

lemma replaceElement_inv:
  assumes inv: "stack_inv s" and rep: "replaceElement a item s = Some s'" and item: "item_ok item" "ordinary_item item" "fresh_item item s"
    and old: "\<And>r. r \<in> set (es_top s) \<Longrightarrow> er_address r = a \<Longrightarrow> item_ok (er_item r) \<and> ordinary_item (er_item r)"
  shows "stack_inv s'"
proof -
  let ?f = "\<lambda>r. if er_address r = a then r\<lparr>er_item := item\<rparr> else r"
  have s': "s' = s\<lparr>es_top := map ?f (es_top s)\<rparr>" using rep by (auto simp: replaceElement_def split: Option.bind_splits if_splits)
  obtain r where r: "r \<in> set (es_top s)" "er_address r = a"
    using rep by (auto simp: replaceElement_def find_Some_iff in_set_conv_nth split: Option.bind_splits if_splits)
  obtain as bs where sp: "es_top s = as @ r # bs" using split_list[OF r(1)] by blast
  let ?r = "r\<lparr>er_item := item\<rparr>"
  have m: "map ?f (es_top s) = as @ ?r # bs"
    by (rule replace_split) (use inv sp r(2) in \<open>simp_all add: stack_inv_def\<close>)
  have s2: "s' = s\<lparr>es_top := as @ ?r # bs\<rparr>" unfolding s' m ..
  have ro: "item_ok (er_item r)" "ordinary_item (er_item r)" using old[OF r] by simp_all
  have "chain_ok (r # bs)" using inv sp chain_append[of as] by (simp add: stack_inv_def)
  then have ne: "bs \<noteq> []" using ro by (auto simp: root_ok_def fragment_ok_def item_ok_def ordinary_item_def)
  have "chain_ok (as @ ?r # bs)"
    by (rule chain_replace[of as r]) (use inv sp item ne in \<open>simp_all add: stack_inv_def\<close>)
  moreover have "remembered n e (as @ ?r # bs)"
    if rem: "remembered n e (es_top s)" and n: "\<not> hasTagName item (htmlName n)" "\<not> hasTagName (er_item r) (htmlName n)" for n e
  proof -
    have "e \<noteq> Some (er_node r)" using remembered_in[OF rem r(1)] n(2) by simp
    with rem n item(3) sp show ?thesis by (auto simp: remembered_def fresh_item_def)
  qed
  moreover have "distinct (map er_node (as @ ?r # bs))" using inv sp item(3) by (auto simp: stack_inv_def fresh_item_def)
  ultimately show ?thesis using inv sp item(2) ro(2) ne by (simp add: stack_inv_def ordinary_item_def s2)
qed

section \<open>Sequences of operations\<close>

text \<open>
  The calls the tree builder may make. A pushed item is an element that is not on the stack; a
  record whose item is replaced is not the root, the head or the body.
\<close>

inductive stack_step :: "HTMLElementStack \<Rightarrow> HTMLElementStack \<Rightarrow> bool" where
  step_root: "pushRootNode i s = Some s' \<Longrightarrow> fragment_ok i \<Longrightarrow> stack_step s s'"
| step_html: "pushHTMLHtmlElement i s = Some s' \<Longrightarrow> item_ok i \<Longrightarrow> stack_step s s'"
| step_push_head: "pushHTMLHeadElement i s = Some s' \<Longrightarrow> item_ok i \<Longrightarrow> fresh_item i s \<Longrightarrow> stack_step s s'"
| step_push_body: "pushHTMLBodyElement i s = Some s' \<Longrightarrow> item_ok i \<Longrightarrow> fresh_item i s \<Longrightarrow> stack_step s s'"
| step_push: "es_push i s = Some s' \<Longrightarrow> item_ok i \<Longrightarrow> fresh_item i s \<Longrightarrow> stack_step s s'"
| step_insert: "insertAbove i a s = Some s' \<Longrightarrow> item_ok i \<Longrightarrow> fresh_item i s \<Longrightarrow> stack_step s s'"
| step_replace: "replaceElement a i s = Some s' \<Longrightarrow> item_ok i \<Longrightarrow> ordinary_item i \<Longrightarrow> fresh_item i s \<Longrightarrow>
    list_all (\<lambda>r. er_address r = a \<longrightarrow> item_ok (er_item r) \<and> ordinary_item (er_item r)) (es_top s) \<Longrightarrow> stack_step s s'"
| step_pop: "es_pop s = Some s' \<Longrightarrow> stack_step s s'"
| step_pop_until: "pop_loop stop s = Some s' \<Longrightarrow> stack_step s s'"
| step_pop_head: "popHTMLHeadElement s = Some s' \<Longrightarrow> stack_step s s'"
| step_pop_body: "popHTMLBodyElement s = Some s' \<Longrightarrow> stack_step s s'"
| step_pop_all: "stack_step s (popAll s)"
| step_remove: "es_remove n s = Some s' \<Longrightarrow> known_node n s \<Longrightarrow> stack_step s s'"
| step_remove_head: "removeHTMLHeadElement n s = Some s' \<Longrightarrow> known_node n s \<Longrightarrow> stack_step s s'"

inductive stack_reachable :: "HTMLElementStack \<Rightarrow> bool" where
  reach_new: "stack_reachable newHTMLElementStack"
| reach_step: "stack_reachable s \<Longrightarrow> stack_step s s' \<Longrightarrow> stack_reachable s'"

lemma push_fragment_inv: "stack_inv s \<Longrightarrow> pushRootNode i s = Some s' \<Longrightarrow> fragment_ok i \<Longrightarrow> stack_inv s'"
  by (rule push_root_inv[of s i]) (auto simp: pushRootNode_def root_ok_def split: if_splits)

lemma push_html_inv: "stack_inv s \<Longrightarrow> pushHTMLHtmlElement i s = Some s' \<Longrightarrow> item_ok i \<Longrightarrow> stack_inv s'"
  by (rule push_root_inv[of s i]) (auto simp: pushHTMLHtmlElement_def root_ok_def split: if_splits)

lemma stack_step_inv: "stack_step s s' \<Longrightarrow> stack_inv s \<Longrightarrow> stack_inv s'"
proof (induction rule: stack_step.induct)
  case (step_replace a i s s')
  then show ?case by (intro replaceElement_inv[of s a i s']) (auto simp: list_all_iff)
qed (erule (1) push_fragment_inv push_html_inv push_head_inv push_body_inv push_inv insertAbove_inv pop_inv pop_loop_inv
    pop_head_inv pop_body_inv remove_inv remove_head_inv | assumption | rule popAll_inv
  | (rule push_fragment_inv push_html_inv push_head_inv push_body_inv push_inv insertAbove_inv pop_inv pop_loop_inv
    pop_head_inv pop_body_inv remove_inv remove_head_inv; assumption))+

lemma new_stack_inv: "stack_inv newHTMLElementStack"
  by (simp add: newHTMLElementStack_def stack_inv_def remembered_def)

section \<open>Popping to a marker\<close>

context scope
begin

lemma pop_to_marker:
  assumes inv: "stack_inv s" "es_top s \<noteq> []"
    and ord: "\<And>r. r \<in> set (takeWhile (\<lambda>r. \<not> marker (er_item r)) (es_top s)) \<Longrightarrow> ordinary_item (er_item r)"
  shows "pop_loop (\<lambda>i. Some (marker i)) s =
    (let popped = takeWhile (\<lambda>r. \<not> marker (er_item r)) (es_top s) in
     Some (s\<lparr>es_top := dropWhile (\<lambda>r. \<not> marker (er_item r)) (es_top s),
       es_stackDepth := es_stackDepth s - of_nat (length popped),
       es_calls := es_calls s @ map (\<lambda>r. FinishParsingChildren (er_node r)) popped\<rparr>))"
proof -
  have "marker (er_item (last (es_top s)))" using inv chain_last root_marker by (auto simp: stack_inv_def)
  then have "dropWhile (\<lambda>r. \<not> marker (er_item r)) (es_top s) \<noteq> []" using inv(2) by (auto simp: dropWhile_eq_Nil_conv)
  then obtain r below where d: "dropWhile (\<lambda>r. \<not> marker (er_item r)) (es_top s) = r # below" unfolding neq_Nil_conv by blast
  then have m: "marker (er_item r)" using hd_dropWhile[of "\<lambda>r. \<not> marker (er_item r)" "es_top s"] by simp
  have t: "es_top s = takeWhile (\<lambda>r. \<not> marker (er_item r)) (es_top s) @ r # below"
    unfolding d[symmetric] by simp
  show ?thesis
    unfolding Let_def d
    by (rule pop_loop_spec[OF inv(1) t]) (use ord m in \<open>auto dest: set_takeWhileD\<close>)
qed

end

interpretation table_body_scope: scope isTableBodyScopeMarker
  by unfold_locales (simp add: isTableBodyScopeMarker_def root_ok_isRoot)

interpretation table_row_scope: scope isTableRowScopeMarker
  by unfold_locales (simp add: isTableRowScopeMarker_def root_ok_isRoot)

section \<open>Furthest block and removal\<close>

lemma find_snoc: "List.find P (xs @ [x]) = (case List.find P xs of None \<Rightarrow> if P x then Some x else None | Some y \<Rightarrow> Some y)"
  by (induction xs) auto

lemma furthest_loop:
  assumes "\<And>x. x \<in> set over \<Longrightarrow> item_element (er_item x) = Some (er_node x) \<and> er_node x \<noteq> fe"
    "item_element (er_item r) = Some fe"
  shows "furthestBlock_loop fe fb (over @ r # below) =
    Some (case List.find (\<lambda>x. isSpecialNode (er_item x)) (rev over) of None \<Rightarrow> fb | Some x \<Rightarrow> Some (er_address x))"
  using assms
proof (induction over arbitrary: fb)
  case (Cons x over)
  have x: "item_element (er_item x) = Some (er_node x)" "er_node x \<noteq> fe" using Cons.prems(1)[of x] by simp_all
  have "furthestBlock_loop fe fb' (over @ r # below) =
    Some (case List.find (\<lambda>x. isSpecialNode (er_item x)) (rev over) of None \<Rightarrow> fb' | Some x \<Rightarrow> Some (er_address x))" for fb'
    by (rule Cons.IH) (use Cons.prems in auto)
  then show ?case using x by (auto simp: find_snoc split: option.splits)
qed simp

lemma removeNonTop_loop_spec:
  assumes "as \<noteq> []" "\<And>x. x \<in> set as \<Longrightarrow> item_element (er_item x) = Some (er_node x) \<and> er_node x \<noteq> n" "item_element (er_item r) = Some n"
  shows "removeNonTop_loop n (as @ r # bs) = Some (as @ bs)"
  using assms
proof (induction as)
  case (Cons a as)
  then show ?case by (cases as) auto
qed simp

section \<open>Properties\<close>

text \<open>A stack for examples: \<open>html\<close>, \<open>body\<close>, \<open>div\<close>, \<open>b\<close>, \<open>p\<close>, pushed in this order.\<close>

definition sample_record :: "nat \<Rightarrow> string \<Rightarrow> ElementRecord" where
  "sample_record a n = \<lparr>er_address = a, er_item = sample_item a n\<rparr>"

definition sample_stack :: HTMLElementStack where
  "sample_stack = \<lparr>es_top = [sample_record 4 ''p'', sample_record 3 ''b'', sample_record 2 ''div'', sample_record 1 ''body'', sample_record 0 ''html''],
     es_rootNode = Some \<lparr>nd_address = 0, nd_tagName = Some (htmlName ''html'')\<rparr>, es_headElement = None, es_bodyElement = Some 1,
     es_stackDepth = 5, es_nextRecord = 5, es_calls = []\<rparr>"

lemma sample_item_ok [simp]: "item_ok (sample_item a n)"
  by (simp add: item_ok_def sample_item_def htmlName_def)

lemma sample_record_simps [simp]: "er_item (sample_record a n) = sample_item a n" "er_address (sample_record a n) = a"
  "er_node (sample_record a n) = a" "nd_address (si_node (sample_item a n)) = a"
  "si_node (sample_item a n) = \<lparr>nd_address = a, nd_tagName = Some (htmlName n)\<rparr>"
  by (simp_all add: sample_record_def sample_item_def)

lemma sample_stack_inv: "stack_inv sample_stack"
  by (simp add: stack_inv_def sample_stack_def root_ok_def remembered_def)

lemma sample_stack_reachable: "stack_reachable sample_stack"
proof -
  let ?rec = "\<lambda>n. map (\<lambda>i. sample_record i ([''html'', ''body'', ''div'', ''b'', ''p''] ! i)) (rev [0..<n])"
  let ?s = "\<lambda>n. sample_stack\<lparr>es_top := ?rec n, es_stackDepth := of_nat n, es_nextRecord := n\<rparr>"
  have "stack_step newHTMLElementStack (?s 1\<lparr>es_bodyElement := None\<rparr>)"
    by (rule step_html[of "sample_item 0 ''html''"])
      (simp_all add: pushHTMLHtmlElement_def pushRootNodeCommon_def pushCommon_def newHTMLElementStack_def sample_stack_def sample_record_def)
  moreover have "stack_step (?s 1\<lparr>es_bodyElement := None\<rparr>) (?s 2)"
    by (rule step_push_body[of "sample_item 1 ''body''"])
      (simp_all add: pushHTMLBodyElement_def pushCommon_def sample_stack_def sample_record_def numeral_2_eq_2 fresh_item_def item_ok_element)
  moreover have "stack_step (?s 2) (?s 3)"
    by (rule step_push[of "sample_item 2 ''div''"])
      (simp_all add: es_push_def ordinary_item_def pushCommon_def sample_stack_def sample_record_def upt_rec numeral_eq_Suc fresh_item_def)
  moreover have "stack_step (?s 3) (?s 4)"
    by (rule step_push[of "sample_item 3 ''b''"])
      (simp_all add: es_push_def ordinary_item_def pushCommon_def sample_stack_def sample_record_def upt_rec numeral_eq_Suc fresh_item_def)
  moreover have "stack_step (?s 4) sample_stack"
    by (rule step_push[of "sample_item 4 ''p''"])
      (simp_all add: es_push_def ordinary_item_def pushCommon_def sample_stack_def sample_record_def upt_rec numeral_eq_Suc fresh_item_def)
  ultimately show ?thesis using reach_new reach_step by meson
qed

text \<open>C11: in every state the tree builder can bring the stack of open elements to, the depth counter is the number of
  records, record addresses and DOM nodes occur once, only the last record is the root, \<open>rootNode\<close> is its node, and the
  head and body pointers name exactly the records with those tags.\<close>

theorem element_stack_invariant: "stack_reachable s \<Longrightarrow> stack_inv s"
  by (induction rule: stack_reachable.induct) (blast intro: new_stack_inv stack_step_inv)+

theorem element_stack_invariant_witness: "stack_reachable sample_stack \<and> stack_inv sample_stack"
  using element_stack_invariant[OF sample_stack_reachable] sample_stack_reachable by simp

definition in_scope_of :: "(HTMLStackItem \<Rightarrow> bool) \<Rightarrow> AtomicString \<Rightarrow> HTMLElementStack \<Rightarrow> bool" where
  "in_scope_of marker tag s \<longleftrightarrow> (\<exists>k < length (es_top s). matchesHTMLTag (er_item (es_top s ! k)) tag \<and>
     (\<forall>j < k. \<not> marker (er_item (es_top s ! j))))"

text \<open>C13: on a stack that is not empty every scope query answers, without running off the stack, and its answer is
  the one of the specification: some record has the tag and no record above it is a marker of that scope.\<close>

theorem scope_queries_correct:
  assumes "stack_inv s" "es_top s \<noteq> []"
  shows "inScope tag s = Some (in_scope_of isScopeMarker tag s) \<and>
    inListItemScope tag s = Some (in_scope_of isListItemScopeMarker tag s) \<and>
    inTableScope tag s = Some (in_scope_of isTableScopeMarker tag s) \<and>
    inButtonScope tag s = Some (in_scope_of isButtonScopeMarker tag s) \<and>
    inSelectScope tag s = Some (in_scope_of isSelectScopeMarker tag s)"
proof -
  have "chain_ok (es_top s)" using assms(1) by (simp add: stack_inv_def)
  note q = any_scope.scope_loop_iff[OF this assms(2)] list_item_scope.scope_loop_iff[OF this assms(2)]
    table_scope.scope_loop_iff[OF this assms(2)] button_scope.scope_loop_iff[OF this assms(2)] select_scope.scope_loop_iff[OF this assms(2)]
  show ?thesis
    unfolding inScope_def inListItemScope_def inTableScope_def inButtonScope_def inSelectScope_def inScopeCommon_def in_scope_of_def q
    by (intro conjI refl)
qed

theorem scope_queries_correct_witness:
  "stack_inv sample_stack \<and> inButtonScope (Some (lit ''p'')) sample_stack = Some True \<and> inTableScope (Some (lit ''td'')) sample_stack = Some False"
proof -
  have "es_top sample_stack \<noteq> []" by (simp add: sample_stack_def)
  note q = scope_queries_correct[OF sample_stack_inv this]
  have "in_scope_of isButtonScopeMarker (Some (lit ''p'')) sample_stack"
    unfolding in_scope_of_def by (rule exI[of _ 0]) (simp add: sample_stack_def)
  moreover have "\<not> in_scope_of isTableScopeMarker (Some (lit ''td'')) sample_stack"
  proof -
    have "\<not> matchesHTMLTag (er_item r) (Some (lit ''td''))" if "r \<in> set (es_top sample_stack)" for r
      using that by (auto simp: sample_stack_def)
    then show ?thesis unfolding in_scope_of_def by (meson nth_mem)
  qed
  ultimately show ?thesis using q[of "Some (lit ''p'')"] q[of "Some (lit ''td'')"] sample_stack_inv by simp
qed

text \<open>C14: \<open>popUntilPopped\<close> pops every record down to and including the topmost one with the tag, calls
  \<open>finishParsingChildren\<close> once on each of them in that order, and lowers the depth by their number.\<close>

theorem popUntilPopped_correct:
  assumes inv: "stack_inv s" and top: "es_top s = over @ r # below"
    and over: "\<forall>x \<in> set over. \<not> matchesHTMLTag (er_item x) (Some n) \<and> ordinary_item (er_item x)"
    and r: "matchesHTMLTag (er_item r) (Some n)" "ordinary_item (er_item r)"
  shows "popUntilPopped (Some n) s = Some (s\<lparr>es_top := below, es_stackDepth := es_stackDepth s - of_nat (length over) - 1,
    es_calls := es_calls s @ map (\<lambda>x. FinishParsingChildren (er_node x)) (over @ [r])\<rparr>)"
proof -
  have "chain_ok (r # below)" using inv top chain_append[of over] by (simp add: stack_inv_def)
  then have "item_ok (er_item r)"
    using r by (cases below) (auto simp: root_ok_def fragment_ok_def matchesHTMLTag_def)
  then have e: "item_element (er_item r) = Some (er_node r)" by (rule item_ok_element)
  have "popUntil (Some n) s = Some (s\<lparr>es_top := r # below, es_stackDepth := es_stackDepth s - of_nat (length over),
     es_calls := es_calls s @ map (\<lambda>x. FinishParsingChildren (er_node x)) over\<rparr>)"
    unfolding popUntil_def by (rule pop_loop_spec[OF inv top]) (use over r in auto)
  then show ?thesis
    using r(2) e by (simp add: popUntilPopped_def es_pop_def popCommon_def topStackItem_def topRecord_def es_topElement_def ordinary_item_def)
qed

theorem popUntilPopped_correct_witness:
  "popUntilPopped (Some (lit ''b'')) sample_stack = Some (sample_stack\<lparr>
     es_top := [sample_record 2 ''div'', sample_record 1 ''body'', sample_record 0 ''html''], es_stackDepth := 3,
     es_calls := [FinishParsingChildren 4, FinishParsingChildren 3]\<rparr>)"
  using popUntilPopped_correct[OF sample_stack_inv, of "[sample_record 4 ''p'']" "sample_record 3 ''b''"
      "[sample_record 2 ''div'', sample_record 1 ''body'', sample_record 0 ''html'']" "lit ''b''"]
  by (simp add: sample_stack_def ordinary_item_def)

definition cleared_to :: "(HTMLStackItem \<Rightarrow> bool) \<Rightarrow> HTMLElementStack \<Rightarrow> HTMLElementStack" where
  "cleared_to marker s = (let popped = takeWhile (\<lambda>r. \<not> marker (er_item r)) (es_top s) in
     s\<lparr>es_top := dropWhile (\<lambda>r. \<not> marker (er_item r)) (es_top s), es_stackDepth := es_stackDepth s - of_nat (length popped),
       es_calls := es_calls s @ map (\<lambda>r. FinishParsingChildren (er_node r)) popped\<rparr>)"

definition ordinary_over :: "(HTMLStackItem \<Rightarrow> bool) \<Rightarrow> HTMLElementStack \<Rightarrow> bool" where
  "ordinary_over marker s \<longleftrightarrow> list_all (\<lambda>r. ordinary_item (er_item r)) (takeWhile (\<lambda>r. \<not> marker (er_item r)) (es_top s))"

text \<open>Clearing the stack back to a table, table body or table row context returns and leaves exactly the records from
  the topmost marker of that context down, provided no \<open>head\<close> or \<open>body\<close> element lies above it.\<close>

lemma clear_to_table_context:
  assumes "stack_inv s" "es_top s \<noteq> []"
  shows "(ordinary_over isTableScopeMarker s \<longrightarrow> popUntilTableScopeMarker s = Some (cleared_to isTableScopeMarker s)) \<and>
    (ordinary_over isTableBodyScopeMarker s \<longrightarrow> popUntilTableBodyScopeMarker s = Some (cleared_to isTableBodyScopeMarker s)) \<and>
    (ordinary_over isTableRowScopeMarker s \<longrightarrow> popUntilTableRowScopeMarker s = Some (cleared_to isTableRowScopeMarker s))"
  using table_scope.pop_to_marker[OF assms] table_body_scope.pop_to_marker[OF assms] table_row_scope.pop_to_marker[OF assms]
  by (simp add: ordinary_over_def cleared_to_def list_all_iff popUntilTableScopeMarker_def popUntilTableBodyScopeMarker_def
      popUntilTableRowScopeMarker_def Let_def)

definition sample_table_stack :: HTMLElementStack where
  "sample_table_stack = \<lparr>es_top = [sample_record 4 ''td'', sample_record 3 ''tr'', sample_record 2 ''table'', sample_record 1 ''body'', sample_record 0 ''html''],
     es_rootNode = Some \<lparr>nd_address = 0, nd_tagName = Some (htmlName ''html'')\<rparr>, es_headElement = None, es_bodyElement = Some 1,
     es_stackDepth = 5, es_nextRecord = 5, es_calls = []\<rparr>"

lemma node_once:
  assumes "stack_inv s" "es_top s = as @ r # bs" "x \<in> set as \<union> set bs"
  shows "er_node x \<noteq> er_node r"
proof -
  have "er_node r \<notin> er_node ` set as \<union> er_node ` set bs" using assms(1,2) by (simp add: stack_inv_def)
  with assms(3) show ?thesis by (metis UnE UnI1 UnI2 imageI)
qed

text \<open>C15: \<open>furthestBlockForFormattingElement\<close> finds, for a formatting element on the stack, the special element above
  it that is nearest to it, and null when there is none.\<close>

theorem furthest_block_correct:
  assumes inv: "stack_inv s" and top: "es_top s = over @ r # below" and fe: "item_element (er_item r) = Some fe"
  shows "furthestBlockForFormattingElement fe s =
    Some (map_option er_address (List.find (\<lambda>x. isSpecialNode (er_item x)) (rev over)))"
proof -
  have n: "er_node r = fe" using item_element_address[OF fe] .
  have "item_element (er_item x) = Some (er_node x) \<and> er_node x \<noteq> fe" if "x \<in> set over" for x
  proof
    have "item_ok (er_item x)" using chain_above[OF _ that, of r below] inv top by (simp add: stack_inv_def)
    then show "item_element (er_item x) = Some (er_node x)" by (rule item_ok_element)
    show "er_node x \<noteq> fe" using node_once[OF inv top UnI1[OF that]] n by simp
  qed
  then show ?thesis
    unfolding furthestBlockForFormattingElement_def top using furthest_loop[of over fe r None below] fe
    by (auto split: option.splits)
qed

theorem furthest_block_correct_witness: "furthestBlockForFormattingElement 3 sample_stack = Some (Some 4)"
proof -
  have "isSpecialNode (sample_item 4 ''p'')"
    by (simp add: isSpecialNode_def isInHTMLNamespace_def localNameIn_def) (simp add: sample_item_def)
  then show ?thesis
    using furthest_block_correct[OF sample_stack_inv, of "[sample_record 4 ''p'']" "sample_record 3 ''b''"
      "[sample_record 2 ''div'', sample_record 1 ''body'', sample_record 0 ''html'']" 3]
    by (simp add: sample_stack_def item_element_def)
qed

text \<open>C16: removing an element that is on the stack, and is not the root, the head or the body, takes out its record and no
  other, wherever it is, calls \<open>finishParsingChildren\<close> on it once, and keeps the stack well formed.\<close>

theorem remove_correct:
  assumes inv: "stack_inv s" and known: "known_node n s" and cont: "es_contains (nd_address n) s" and el: "nd_tagName n \<noteq> None"
    and tags: "\<not> node_hasTagName n (htmlName ''html'')" "\<not> node_hasTagName n (htmlName ''head'')" "\<not> node_hasTagName n (htmlName ''body'')"
  shows "\<exists>s'. es_remove n s = Some s' \<and> es_top s' = filter (\<lambda>r. er_node r \<noteq> nd_address n) (es_top s) \<and>
    es_calls s' = es_calls s @ [FinishParsingChildren (nd_address n)] \<and> stack_inv s'"
proof -
  obtain r where r: "r \<in> set (es_top s)" "er_node r = nd_address n"
    using cont by (auto simp: es_contains_def es_find_def find_Some_iff in_set_conv_nth)
  then have rn: "si_node (er_item r) = n" using known by (simp add: known_node_def)
  then have e: "item_element (er_item r) = Some (nd_address n)" using el by (simp add: item_element_def)
  then have "item_ok (er_item r)" using stack_item_element[OF inv r(1)] by simp
  then have t: "hasTagName (er_item r) q = node_hasTagName n q" for q using item_ok_tag[of "er_item r"] rn by simp
  obtain as bs where sp: "es_top s = as @ r # bs" using split_list[OF r(1)] by blast
  have oth: "er_node x \<noteq> nd_address n" if "x \<in> set as \<union> set bs" for x
    using node_once[OF inv sp that] r(2) by simp
  then have f: "filter (\<lambda>r. er_node r \<noteq> nd_address n) (es_top s) = as @ bs"
    using sp r(2) by (simp add: filter_id_conv)
  have as: "item_element (er_item x) = Some (er_node x)" if "x \<in> set as" for x
    using chain_above[OF _ that, of r bs] inv sp by (simp add: stack_inv_def item_ok_element)
  have "\<exists>s'. es_remove n s = Some s' \<and> es_top s' = as @ bs \<and> es_calls s' = es_calls s @ [FinishParsingChildren (nd_address n)]"
  proof (cases as)
    case Nil
    then show ?thesis using sp e tags t
      by (simp add: es_remove_def es_topElement_def topStackItem_def topRecord_def es_pop_def popCommon_def)
  next
    case (Cons a as')
    then have "removeNonTop_loop (nd_address n) (es_top s) = Some (as @ bs)"
      unfolding sp by (intro removeNonTop_loop_spec) (use as oth e in auto)
    with Cons show ?thesis using sp as[of a] oth[of a] tags
      by (simp add: es_remove_def es_topElement_def topStackItem_def topRecord_def removeNonTopCommon_def)
  qed
  then show ?thesis unfolding f using remove_inv[OF inv known] by blast
qed

theorem remove_correct_witness:
  "\<exists>s'. es_remove \<lparr>nd_address = 3, nd_tagName = Some (htmlName ''b'')\<rparr> sample_stack = Some s' \<and>
     map er_node (es_top s') = [4, 2, 1, 0] \<and> es_calls s' = [FinishParsingChildren 3]"
proof -
  let ?n = "\<lparr>nd_address = 3, nd_tagName = Some (htmlName ''b'')\<rparr>"
  have "known_node ?n sample_stack" "es_contains (nd_address ?n) sample_stack"
    by (simp_all add: known_node_def es_contains_def es_find_def sample_stack_def)
  then obtain s' where "es_remove ?n sample_stack = Some s'"
    "es_top s' = filter (\<lambda>r. er_node r \<noteq> 3) (es_top sample_stack)" "es_calls s' = [FinishParsingChildren 3]"
    using remove_correct[OF sample_stack_inv, of ?n]
    by (auto simp: node_hasTagName_def qn_matches_def htmlName_def sample_stack_def)
  then show ?thesis by (simp add: sample_stack_def)
qed

end
