(* ===== verification/Formatting_List.thy ===== *)
theory Formatting_List
  imports Stack_Item
begin

text \<open>
  The list of active formatting elements:
  \<open>src/Source/WebCore/html/parser/HTMLFormattingElementList.h\<close> and
  \<open>HTMLFormattingElementList.cpp\<close>.

  An entry is a stack item, or \<open>None\<close> for a marker. A pointer to an entry is the entry's position in
  the vector. An \<open>Element*\<close> is the address of the element, \<open>None\<close> the null pointer. An
  operation is \<open>None\<close> where the source fails an assertion or reads out of range.
\<close>

section \<open>Data\<close>

type_synonym FormattingEntry = "HTMLStackItem option"

record HTMLFormattingElementList =
  fl_entries :: "FormattingEntry list"

record Bookmark =
  bm_hasBeenMoved :: bool
  bm_mark :: nat

definition newHTMLFormattingElementList :: HTMLFormattingElementList where
  "newHTMLFormattingElementList = \<lparr>fl_entries = []\<rparr>"

definition fl_size :: "HTMLFormattingElementList \<Rightarrow> nat" where
  "fl_size l = length (fl_entries l)"

definition fl_isEmpty :: "HTMLFormattingElementList \<Rightarrow> bool" where
  "fl_isEmpty l \<longleftrightarrow> \<not> 0 < fl_size l"

definition fl_at :: "nat \<Rightarrow> HTMLFormattingElementList \<Rightarrow> FormattingEntry option" where
  "fl_at i l = (if i < fl_size l then Some (fl_entries l ! i) else None)"

definition isMarker :: "FormattingEntry \<Rightarrow> bool" where
  "isMarker entry \<longleftrightarrow> entry = None"

definition entry_element :: "FormattingEntry \<Rightarrow> nat option" where
  "entry_element entry = Option.bind entry item_element"

definition entry_equals :: "FormattingEntry \<Rightarrow> nat option \<Rightarrow> bool option" where
  "entry_equals entry element = (case entry of None \<Rightarrow> Some (element = None)
     | Some item \<Rightarrow> do { e \<leftarrow> item_element item; Some (Some e = element) })"

definition makeBookmark :: "nat \<Rightarrow> Bookmark" where
  "makeBookmark entry = \<lparr>bm_hasBeenMoved = False, bm_mark = entry\<rparr>"

definition moveToAfter :: "nat \<Rightarrow> Bookmark \<Rightarrow> Bookmark" where
  "moveToAfter newMark b = b\<lparr>bm_hasBeenMoved := True, bm_mark := newMark\<rparr>"

definition kNoahsArkCapacity :: nat where
  "kNoahsArkCapacity = 3"

section \<open>Searching\<close>

text \<open>Both loops run from the end of the vector; \<open>i\<close> entries are left.\<close>

fun closest_loop :: "AtomicString \<Rightarrow> FormattingEntry list \<Rightarrow> nat \<Rightarrow> nat option option" where
  "closest_loop targetName es 0 = Some None"
| "closest_loop targetName es (Suc i) = (case es ! i of None \<Rightarrow> Some None
     | Some item \<Rightarrow> if matchesHTMLTag item targetName then map_option Some (entry_element (es ! i))
         else closest_loop targetName es i)"

definition closestElementInScopeWithName :: "AtomicString \<Rightarrow> HTMLFormattingElementList \<Rightarrow> nat option option" where
  "closestElementInScopeWithName targetName l = closest_loop targetName (fl_entries l) (fl_size l)"

fun reverseFind_loop :: "nat option \<Rightarrow> FormattingEntry list \<Rightarrow> nat \<Rightarrow> nat option option" where
  "reverseFind_loop element es 0 = Some None"
| "reverseFind_loop element es (Suc i) = do {
     found \<leftarrow> entry_equals (es ! i) element;
     if found then Some (Some i) else reverseFind_loop element es i }"

definition reverseFind :: "nat option \<Rightarrow> FormattingEntry list \<Rightarrow> nat option option" where
  "reverseFind element es = reverseFind_loop element es (length es)"

definition fl_find :: "nat option \<Rightarrow> HTMLFormattingElementList \<Rightarrow> nat option option" where
  "fl_find element l = reverseFind element (fl_entries l)"

definition fl_contains :: "nat option \<Rightarrow> HTMLFormattingElementList \<Rightarrow> bool option" where
  "fl_contains element l = map_option (\<lambda>i. i \<noteq> None) (fl_find element l)"

definition bookmarkFor :: "nat option \<Rightarrow> HTMLFormattingElementList \<Rightarrow> Bookmark option" where
  "bookmarkFor element l = do {
     index \<leftarrow> reverseFind element (fl_entries l);
     i \<leftarrow> index;
     Some (makeBookmark i) }"

section \<open>Changing the list\<close>

definition vector_remove :: "nat \<Rightarrow> 'a list \<Rightarrow> 'a list" where
  "vector_remove i xs = take i xs @ drop (Suc i) xs"

definition vector_insert :: "nat \<Rightarrow> 'a \<Rightarrow> 'a list \<Rightarrow> 'a list" where
  "vector_insert i x xs = take i xs @ x # drop i xs"

definition fl_remove :: "nat option \<Rightarrow> HTMLFormattingElementList \<Rightarrow> HTMLFormattingElementList option" where
  "fl_remove element l = do {
     index \<leftarrow> reverseFind element (fl_entries l);
     Some (case index of None \<Rightarrow> l | Some i \<Rightarrow> l\<lparr>fl_entries := vector_remove i (fl_entries l)\<rparr>) }"

definition swapTo :: "nat option \<Rightarrow> HTMLStackItem \<Rightarrow> Bookmark \<Rightarrow> HTMLFormattingElementList \<Rightarrow> HTMLFormattingElementList option" where
  "swapTo oldElement newItem bookmark l = do {
     old \<leftarrow> fl_contains oldElement l;
     ASSERT old;
     e \<leftarrow> item_element newItem;
     new \<leftarrow> fl_contains (Some e) l;
     ASSERT (\<not> new);
     if \<not> bm_hasBeenMoved bookmark then do {
       entry \<leftarrow> fl_at (bm_mark bookmark) l;
       m \<leftarrow> entry_element entry;
       ASSERT (Some m = oldElement);
       Some (l\<lparr>fl_entries := (fl_entries l)[bm_mark bookmark := Some newItem]\<rparr>) }
     else do {
       ASSERT (bm_mark bookmark < fl_size l);
       fl_remove oldElement (l\<lparr>fl_entries := vector_insert (bm_mark bookmark + 1) (Some newItem) (fl_entries l)\<rparr>) } }"

definition appendMarker :: "HTMLFormattingElementList \<Rightarrow> HTMLFormattingElementList" where
  "appendMarker l = l\<lparr>fl_entries := fl_entries l @ [None]\<rparr>"

function clear_loop :: "FormattingEntry list \<Rightarrow> FormattingEntry list" where
  "clear_loop es = (if es = [] then []
     else let shouldStop = isMarker (last es) in if shouldStop then butlast es else clear_loop (butlast es))"
  by pat_completeness auto
termination
  by (relation "measure length") auto

declare clear_loop.simps [simp del]

definition clearToLastMarker :: "HTMLFormattingElementList \<Rightarrow> HTMLFormattingElementList" where
  "clearToLastMarker l = l\<lparr>fl_entries := clear_loop (fl_entries l)\<rparr>"

section \<open>The Noah's Ark condition\<close>

fun candidates_loop :: "HTMLStackItem \<Rightarrow> nat \<Rightarrow> FormattingEntry list \<Rightarrow> nat \<Rightarrow> HTMLStackItem list \<Rightarrow> HTMLStackItem list option" where
  "candidates_loop newItem count es 0 candidates = Some candidates"
| "candidates_loop newItem count es (Suc i) candidates = (case es ! i of None \<Rightarrow> Some candidates
     | Some candidate \<Rightarrow>
         if si_tokenLocalName newItem \<noteq> si_tokenLocalName candidate \<or> si_namespaceURI newItem \<noteq> si_namespaceURI candidate
         then candidates_loop newItem count es i candidates
         else do {
           as \<leftarrow> item_attributes candidate;
           if length as \<noteq> count then candidates_loop newItem count es i candidates
           else candidates_loop newItem count es i (candidates @ [candidate]) })"

text \<open>The result is \<open>remainingCandidates\<close>, which is empty before the call.\<close>

definition tryToEnsureNoahsArkConditionQuickly :: "HTMLStackItem \<Rightarrow> HTMLFormattingElementList \<Rightarrow> HTMLStackItem list option" where
  "tryToEnsureNoahsArkConditionQuickly newItem l =
     (if fl_size l < kNoahsArkCapacity then Some []
      else do {
        as \<leftarrow> item_attributes newItem;
        candidates \<leftarrow> candidates_loop newItem (length as) (fl_entries l) (fl_size l) [];
        Some (if length candidates < kNoahsArkCapacity then [] else candidates) })"

fun remaining_loop :: "HTMLStackItem \<Rightarrow> DOMAttribute \<Rightarrow> HTMLStackItem list \<Rightarrow> HTMLStackItem list \<Rightarrow> HTMLStackItem list option" where
  "remaining_loop newItem attribute [] remaining = Some remaining"
| "remaining_loop newItem attribute (candidate # cs) remaining = do {
     as \<leftarrow> item_attributes newItem;
     bs \<leftarrow> item_attributes candidate;
     ASSERT (length as = length bs);
     ASSERT (si_tokenLocalName newItem = si_tokenLocalName candidate \<and> si_namespaceURI newItem = si_namespaceURI candidate);
     candidateAttribute \<leftarrow> item_getAttributeItem candidate (da_name attribute);
     remaining_loop newItem attribute cs
       (case candidateAttribute of None \<Rightarrow> remaining
        | Some a \<Rightarrow> if da_value a = da_value attribute then remaining @ [candidate] else remaining) }"

text \<open>The loop over the attributes of the new item; \<open>Some None\<close> is its early return.\<close>

fun attributes_loop :: "HTMLStackItem \<Rightarrow> DOMAttribute list \<Rightarrow> HTMLStackItem list \<Rightarrow> HTMLStackItem list option option" where
  "attributes_loop newItem [] candidates = Some (Some candidates)"
| "attributes_loop newItem (attribute # as) candidates = do {
     remaining \<leftarrow> remaining_loop newItem attribute candidates [];
     if length remaining < kNoahsArkCapacity then Some None
     else attributes_loop newItem as remaining }"

fun remove_loop :: "HTMLStackItem list \<Rightarrow> HTMLFormattingElementList \<Rightarrow> HTMLFormattingElementList option" where
  "remove_loop [] l = Some l"
| "remove_loop (candidate # cs) l = do {
     e \<leftarrow> item_element candidate;
     l1 \<leftarrow> fl_remove (Some e) l;
     remove_loop cs l1 }"

definition ensureNoahsArkCondition :: "HTMLStackItem \<Rightarrow> HTMLFormattingElementList \<Rightarrow> HTMLFormattingElementList option" where
  "ensureNoahsArkCondition newItem l = do {
     candidates \<leftarrow> tryToEnsureNoahsArkConditionQuickly newItem l;
     if candidates = [] then Some l
     else do {
       attributes \<leftarrow> item_attributes newItem;
       result \<leftarrow> attributes_loop newItem attributes candidates;
       (case result of None \<Rightarrow> Some l
        | Some remaining \<Rightarrow> remove_loop (drop (kNoahsArkCapacity - 1) remaining) l) } }"

definition fl_append :: "HTMLStackItem \<Rightarrow> HTMLFormattingElementList \<Rightarrow> HTMLFormattingElementList option" where
  "fl_append item l = do {
     l1 \<leftarrow> ensureNoahsArkCondition item l;
     Some (l1\<lparr>fl_entries := fl_entries l1 @ [Some item]\<rparr>) }"

end
