(* ===== verification/Formatting_List_Laws.thy ===== *)
theory Formatting_List_Laws
  imports Formatting_List
begin

text \<open>
  The laws of the list of active formatting elements. The invariant \<open>fl_inv\<close> says that every element
  occurs once; under it each search from the end finds that entry, and appending, with its quick rejection,
  its loop over attributes and its removals, computes the reference \<open>ark_append\<close>.
\<close>

section \<open>Searching\<close>

text \<open>The entries after the last marker, as a list of items.\<close>

definition after_marker :: "FormattingEntry list \<Rightarrow> HTMLStackItem list" where
  "after_marker es = rev (map the (takeWhile (\<lambda>e. e \<noteq> None) (rev es)))"

definition before_marker :: "FormattingEntry list \<Rightarrow> FormattingEntry list" where
  "before_marker es = rev (dropWhile (\<lambda>e. e \<noteq> None) (rev es))"

lemma after_snoc [simp]: "after_marker (es @ [Some i]) = after_marker es @ [i]" "after_marker (es @ [None]) = []" "after_marker [] = []"
  "before_marker (es @ [Some i]) = before_marker es" "before_marker (es @ [None]) = es @ [None]" "before_marker [] = []"
  by (simp_all add: after_marker_def before_marker_def)

lemma split_marker: "es = before_marker es @ map Some (after_marker es)"
proof (induction es rule: rev_induct)
  case (snoc e es)
  then show ?case by (cases e) auto
qed simp

text \<open>Every item is an element with a name, and an element occurs once.\<close>

definition entry_items :: "FormattingEntry list \<Rightarrow> HTMLStackItem list" where
  "entry_items es = List.map_filter id es"

lemma entry_items_simps [simp]: "entry_items [] = []" "entry_items (es @ es') = entry_items es @ entry_items es'"
  "entry_items (Some i # es) = i # entry_items es" "entry_items (None # es) = entry_items es" "entry_items (map Some is) = is"
  by (induction "is") (simp_all add: entry_items_def map_filter_def)

lemma entry_items_set: "set (entry_items es) = {i. Some i \<in> set es}"
  by (force simp: entry_items_def map_filter_def)

definition formatting_item :: "HTMLStackItem \<Rightarrow> bool" where
  "formatting_item i \<longleftrightarrow> nd_tagName (si_node i) \<noteq> None \<and> si_tokenLocalName i \<noteq> None \<and> distinct (map da_name (si_tokenAttributes i))"

abbreviation item_address :: "HTMLStackItem \<Rightarrow> nat" where
  "item_address i \<equiv> nd_address (si_node i)"

definition fl_inv :: "HTMLFormattingElementList \<Rightarrow> bool" where
  "fl_inv l \<longleftrightarrow> list_all formatting_item (entry_items (fl_entries l)) \<and> distinct (map item_address (entry_items (fl_entries l)))"

lemma formatting_element [simp]: "formatting_item i \<Longrightarrow> item_element i = Some (item_address i)"
  by (simp add: formatting_item_def item_element_def)

lemma formatting_attributes [simp]: "formatting_item i \<Longrightarrow> item_attributes i = Some (si_tokenAttributes i)"
  "formatting_item i \<Longrightarrow> item_getAttributeItem i q = Some (findAttributeInVector (si_tokenAttributes i) q)"
  by (simp_all add: formatting_item_def item_attributes_def item_getAttributeItem_def)

definition is_element :: "nat \<Rightarrow> FormattingEntry \<Rightarrow> bool" where
  "is_element x e \<longleftrightarrow> (case e of None \<Rightarrow> False | Some i \<Rightarrow> item_address i = x)"

lemma entry_equals_element:
  assumes "case e of None \<Rightarrow> True | Some i \<Rightarrow> formatting_item i"
  shows "entry_equals e (Some x) = Some (is_element x e)"
  using assms by (auto simp: entry_equals_def is_element_def split: option.splits)

lemma items_entry: "list_all formatting_item (entry_items es) \<Longrightarrow> e \<in> set es \<Longrightarrow> case e of None \<Rightarrow> True | Some i \<Rightarrow> formatting_item i"
  by (auto simp: list_all_iff entry_items_set split: option.splits)

lemma reverseFind_loop_spec:
  assumes "list_all formatting_item (entry_items es)" "n \<le> length es"
  shows "\<exists>r. reverseFind_loop (Some x) es n = Some r \<and>
    (case r of None \<Rightarrow> \<forall>i < n. \<not> is_element x (es ! i) | Some i \<Rightarrow> i < n \<and> is_element x (es ! i))"
  using assms(2)
proof (induction n)
  case (Suc n)
  have "entry_equals (es ! n) (Some x) = Some (is_element x (es ! n))"
    by (rule entry_equals_element[OF items_entry[OF assms(1)]]) (use Suc.prems in simp)
  with Suc show ?case by (auto simp: less_Suc_eq split: option.splits)
qed simp

text \<open>What \<open>find\<close> returns: in a list in which every element occurs once, the position of the element.\<close>

lemma reverseFind_spec:
  assumes "fl_inv l"
  shows "(\<exists>pre i post. fl_entries l = pre @ Some i # post \<and> item_address i = x \<and> reverseFind (Some x) (fl_entries l) = Some (Some (length pre)))
    \<or> (x \<notin> item_address ` set (entry_items (fl_entries l)) \<and> reverseFind (Some x) (fl_entries l) = Some None)"
proof -
  obtain r where r: "reverseFind (Some x) (fl_entries l) = Some r"
    "case r of None \<Rightarrow> \<forall>i < length (fl_entries l). \<not> is_element x (fl_entries l ! i)
      | Some i \<Rightarrow> i < length (fl_entries l) \<and> is_element x (fl_entries l ! i)"
    using reverseFind_loop_spec[of "fl_entries l" "length (fl_entries l)" x] assms by (auto simp: fl_inv_def reverseFind_def)
  show ?thesis
  proof (cases r)
    case None
    then have "x \<notin> item_address ` set (entry_items (fl_entries l))"
      using r(2) by (auto simp: entry_items_set in_set_conv_nth is_element_def)
    with None r(1) show ?thesis by simp
  next
    case (Some n)
    then have n: "n < length (fl_entries l)" "is_element x (fl_entries l ! n)" using r(2) by simp_all
    then obtain i where i: "fl_entries l ! n = Some i" "item_address i = x" by (auto simp: is_element_def split: option.splits)
    have "fl_entries l = take n (fl_entries l) @ Some i # drop (Suc n) (fl_entries l)" using id_take_nth_drop[OF n(1)] i(1) by simp
    moreover have "length (take n (fl_entries l)) = n" using n(1) by simp
    ultimately show ?thesis using i(2) r(1) Some by metis
  qed
qed

definition drop_element :: "nat \<Rightarrow> FormattingEntry list \<Rightarrow> FormattingEntry list" where
  "drop_element x es = filter (\<lambda>e. \<not> is_element x e) es"

lemma drop_element_simps [simp]: "drop_element x [] = []" "drop_element x (es @ es') = drop_element x es @ drop_element x es'"
  "drop_element x (None # es) = None # drop_element x es"
  "drop_element x (Some i # es) = (if item_address i = x then drop_element x es else Some i # drop_element x es)"
  by (simp_all add: drop_element_def is_element_def)

lemma not_element: "x \<notin> item_address ` set (entry_items es) \<Longrightarrow> e \<in> set es \<Longrightarrow> \<not> is_element x e"
  by (auto simp: is_element_def entry_items_set split: option.splits)

lemma drop_element_id: "x \<notin> item_address ` set (entry_items es) \<Longrightarrow> drop_element x es = es"
  unfolding drop_element_def filter_id_conv by (auto simp: is_element_def entry_items_set split: option.splits)

lemma entry_items_drop: "entry_items (drop_element x es) = filter (\<lambda>i. item_address i \<noteq> x) (entry_items es)"
proof (induction es)
  case (Cons e es)
  then show ?case by (cases e) auto
qed simp

lemma drop_element_inv: "fl_inv l \<Longrightarrow> fl_inv (l\<lparr>fl_entries := drop_element x (fl_entries l)\<rparr>)"
  by (auto simp: fl_inv_def entry_items_drop list_all_iff distinct_map_filter)

lemma fl_remove_spec:
  assumes "fl_inv l"
  shows "fl_remove (Some x) l = Some (l\<lparr>fl_entries := drop_element x (fl_entries l)\<rparr>)"
proof (cases "x \<in> item_address ` set (entry_items (fl_entries l))")
  case False
  then have "reverseFind (Some x) (fl_entries l) = Some None" using reverseFind_spec[OF assms, of x] by (auto simp: entry_items_set)
  then show ?thesis using drop_element_id[OF False] by (simp add: fl_remove_def)
next
  case True
  then obtain pre i post where s: "fl_entries l = pre @ Some i # post" "item_address i = x"
    "reverseFind (Some x) (fl_entries l) = Some (Some (length pre))" using reverseFind_spec[OF assms, of x] by blast
  have "x \<notin> item_address ` set (entry_items pre)" "x \<notin> item_address ` set (entry_items post)"
    using assms s(1,2) by (auto simp: fl_inv_def image_iff)
  then have "drop_element x (fl_entries l) = pre @ post" using s(1,2) by (simp add: drop_element_id)
  then show ?thesis using s by (simp add: fl_remove_def vector_remove_def)
qed

lemma fl_contains_spec:
  assumes "fl_inv l"
  shows "fl_contains (Some x) l = Some (x \<in> item_address ` set (entry_items (fl_entries l)))"
proof (cases "x \<in> item_address ` set (entry_items (fl_entries l))")
  case True
  then show ?thesis using reverseFind_spec[OF assms, of x] by (auto simp: fl_contains_def fl_find_def)
next
  case False
  then have "reverseFind (Some x) (fl_entries l) = Some None" using reverseFind_spec[OF assms, of x] by (auto simp: entry_items_set)
  with False show ?thesis by (simp add: fl_contains_def fl_find_def)
qed

lemma take_Suc_snoc: "n < length es \<Longrightarrow> take (Suc n) es = take n es @ [es ! n]"
  by (rule take_Suc_conv_app_nth)

lemma take_items: "list_all formatting_item (entry_items es) \<Longrightarrow> n < length es \<Longrightarrow> es ! n = Some i \<Longrightarrow> formatting_item i"
  using items_entry[OF _ nth_mem, of es n] by simp

lemma closest_loop_spec:
  assumes "list_all formatting_item (entry_items es)" "n \<le> length es"
  shows "closest_loop name es n = Some (map_option item_address (List.find (\<lambda>i. matchesHTMLTag i name) (rev (after_marker (take n es)))))"
  using assms(2)
proof (induction n)
  case (Suc n)
  show ?case
  proof (cases "es ! n")
    case None
    with Suc show ?thesis by (simp add: take_Suc_snoc)
  next
    case (Some i)
    have "formatting_item i" using take_items[OF assms(1) _ Some] Suc.prems by simp
    with Some Suc show ?thesis by (simp add: take_Suc_snoc entry_element_def)
  qed
qed simp

section \<open>The Noah's Ark condition\<close>

definition quick_match :: "HTMLStackItem \<Rightarrow> HTMLStackItem \<Rightarrow> bool" where
  "quick_match i j \<longleftrightarrow> si_tokenLocalName i = si_tokenLocalName j \<and> si_namespaceURI i = si_namespaceURI j \<and>
     length (si_tokenAttributes j) = length (si_tokenAttributes i)"

definition has_attribute :: "DOMAttribute \<Rightarrow> HTMLStackItem \<Rightarrow> bool" where
  "has_attribute a j \<longleftrightarrow> (case findAttributeInVector (si_tokenAttributes j) (da_name a) of None \<Rightarrow> False
     | Some b \<Rightarrow> da_value b = da_value a)"

text \<open>Items with the same name, namespace and attributes.\<close>

definition similar :: "HTMLStackItem \<Rightarrow> HTMLStackItem \<Rightarrow> bool" where
  "similar i j \<longleftrightarrow> quick_match i j \<and> list_all (\<lambda>a. has_attribute a j) (si_tokenAttributes i)"

text \<open>The reference: an item is dropped when two similar ones follow it.\<close>

fun ark_keep :: "HTMLStackItem \<Rightarrow> HTMLStackItem list \<Rightarrow> HTMLStackItem list" where
  "ark_keep i [] = []"
| "ark_keep i (j # js) = (if similar i j \<and> 2 \<le> length (filter (similar i) js) then ark_keep i js else j # ark_keep i js)"

definition ark_append :: "HTMLStackItem \<Rightarrow> FormattingEntry list \<Rightarrow> FormattingEntry list" where
  "ark_append i es = before_marker es @ map Some (ark_keep i (after_marker es)) @ [Some i]"

lemma candidates_loop_spec:
  assumes "list_all formatting_item (entry_items es)" "n \<le> length es" "count = length (si_tokenAttributes i)"
  shows "candidates_loop i count es n acc = Some (acc @ filter (quick_match i) (rev (after_marker (take n es))))"
  using assms(2)
proof (induction n arbitrary: acc)
  case (Suc n)
  show ?case
  proof (cases "es ! n")
    case None
    with Suc show ?thesis by (simp add: take_Suc_snoc)
  next
    case (Some j)
    have "formatting_item j" using take_items[OF assms(1) _ Some] Suc.prems by simp
    with Some Suc assms(3) show ?thesis by (auto simp: take_Suc_snoc quick_match_def)
  qed
qed simp

lemma remaining_loop_spec:
  assumes "\<forall>j \<in> set cs. formatting_item j \<and> quick_match i j" "formatting_item i"
  shows "remaining_loop i a cs acc = Some (acc @ filter (has_attribute a) cs)"
  using assms(1)
proof (induction cs arbitrary: acc)
  case (Cons j cs)
  then show ?case using assms(2) by (auto simp: has_attribute_def quick_match_def split: option.splits)
qed simp

lemma attributes_loop_spec:
  assumes "\<forall>j \<in> set cs. formatting_item j \<and> quick_match i j" "formatting_item i" "3 \<le> length cs"
  shows "attributes_loop i as cs = Some (let r = filter (\<lambda>j. list_all (\<lambda>a. has_attribute a j) as) cs in if length r < 3 then None else Some r)"
  using assms(1,3)
proof (induction as arbitrary: cs)
  case (Cons a as)
  let ?r = "filter (has_attribute a) cs"
  have f: "filter (\<lambda>j. list_all (\<lambda>a. has_attribute a j) (a # as)) cs = filter (\<lambda>j. list_all (\<lambda>a. has_attribute a j) as) ?r"
    by (simp add: conj_commute)
  have s: "remaining_loop i a cs [] = Some ?r" using remaining_loop_spec[OF Cons.prems(1) assms(2)] by simp
  show ?case
  proof (cases "length ?r < 3")
    case True
    then have "length (filter (\<lambda>j. list_all (\<lambda>a. has_attribute a j) as) ?r) < 3"
      using length_filter_le[of "\<lambda>j. list_all (\<lambda>a. has_attribute a j) as" ?r] by linarith
    with True s show ?thesis unfolding f by (simp add: kNoahsArkCapacity_def Let_def)
  next
    case False
    then have "attributes_loop i as ?r = Some (let r = filter (\<lambda>j. list_all (\<lambda>a. has_attribute a j) as) ?r in if length r < 3 then None else Some r)"
      by (intro Cons.IH) (use Cons.prems in auto)
    with False s show ?thesis unfolding f by (simp add: kNoahsArkCapacity_def)
  qed
qed (simp add: Let_def)

lemma remove_loop_spec:
  assumes "list_all formatting_item cs" "fl_inv l"
  shows "remove_loop cs l = Some (l\<lparr>fl_entries := filter (\<lambda>e. \<forall>i \<in> set cs. \<not> is_element (item_address i) e) (fl_entries l)\<rparr>)"
  using assms
proof (induction cs arbitrary: l)
  case (Cons c cs)
  let ?l = "l\<lparr>fl_entries := drop_element (item_address c) (fl_entries l)\<rparr>"
  have "remove_loop cs ?l = Some (?l\<lparr>fl_entries := filter (\<lambda>e. \<forall>i \<in> set cs. \<not> is_element (item_address i) e) (fl_entries ?l)\<rparr>)"
    by (rule Cons.IH) (use Cons.prems drop_element_inv in auto)
  then show ?case using Cons.prems fl_remove_spec[of l "item_address c"] by (simp add: drop_element_def conj_commute)
qed simp

lemma drop_similar:
  assumes "distinct tail"
  shows "filter (\<lambda>j. j \<notin> set (drop 2 (rev (filter (similar i) tail)))) tail = ark_keep i tail"
  using assms
proof (induction tail)
  case (Cons j js)
  let ?s = "filter (similar i) js"
  have sub: "set (drop 2 (rev ?s)) \<subseteq> set js" using set_drop_subset[of 2 "rev ?s"] by auto
  have d: "set (drop 2 (rev (filter (similar i) (j # js)))) = set (drop 2 (rev ?s)) \<union> (if similar i j \<and> 2 \<le> length ?s then {j} else {})"
    by (auto simp: not_le)
  have js: "filter (\<lambda>x. x \<notin> set (drop 2 (rev (filter (similar i) (j # js))))) js = ark_keep i js"
  proof -
    have "filter (\<lambda>x. x \<notin> set (drop 2 (rev (filter (similar i) (j # js))))) js = filter (\<lambda>x. x \<notin> set (drop 2 (rev ?s))) js"
      unfolding d by (rule filter_cong[OF refl]) (use Cons.prems in auto)
    also have "\<dots> = ark_keep i js" by (rule Cons.IH) (use Cons.prems in simp)
    finally show ?thesis .
  qed
  have "j \<notin> set (drop 2 (rev (filter (similar i) (j # js)))) \<longleftrightarrow> \<not> (similar i j \<and> 2 \<le> length ?s)"
    unfolding d using sub Cons.prems by auto
  note keep = this
  show ?case by (subst filter.simps(2)) (simp only: keep js ark_keep.simps if_not_P if_P not_not split: if_splits, simp)
qed simp

lemma after_marker_sub: "set (map Some (after_marker es)) \<subseteq> set es"
  using split_marker[of es] by (metis set_append Un_upper2)

lemma filter_after:
  assumes "fl_inv l" "set cs \<subseteq> set (after_marker (fl_entries l))"
  shows "filter (\<lambda>e. \<forall>i \<in> set cs. \<not> is_element (item_address i) e) (fl_entries l) =
    before_marker (fl_entries l) @ map Some (filter (\<lambda>j. j \<notin> set cs) (after_marker (fl_entries l)))"
proof -
  let ?b = "before_marker (fl_entries l)" and ?a = "after_marker (fl_entries l)"
  have es: "entry_items (fl_entries l) = entry_items ?b @ ?a" by (subst split_marker) simp
  then have d: "distinct (map item_address (entry_items ?b @ ?a))" using assms(1) by (simp add: fl_inv_def)
  have b: "filter (\<lambda>e. \<forall>i \<in> set cs. \<not> is_element (item_address i) e) ?b = ?b"
    unfolding filter_id_conv
  proof (intro ballI)
    fix e i assume e: "e \<in> set ?b" "i \<in> set cs"
    then have "item_address i \<in> item_address ` set ?a" using assms(2) by auto
    then have "item_address i \<notin> item_address ` set (entry_items ?b)" using d by auto
    then show "\<not> is_element (item_address i) e" using e(1) by (rule not_element)
  qed
  have "inj_on item_address (set ?a)" using d by (simp add: distinct_map)
  then have a: "(\<forall>i \<in> set cs. item_address j \<noteq> item_address i) \<longleftrightarrow> j \<notin> set cs" if "j \<in> set ?a" for j
    using that assms(2) by (auto dest: inj_onD)
  have "filter (\<lambda>e. \<forall>i \<in> set cs. \<not> is_element (item_address i) e) (map Some ?a) = map Some (filter (\<lambda>j. \<forall>i \<in> set cs. item_address j \<noteq> item_address i) ?a)"
    by (simp add: filter_map comp_def is_element_def)
  also have "filter (\<lambda>j. \<forall>i \<in> set cs. item_address j \<noteq> item_address i) ?a = filter (\<lambda>j. j \<notin> set cs) ?a"
    by (rule filter_cong) (simp_all add: a)
  finally show ?thesis using b by (subst split_marker) simp
qed

lemma ensure_spec:
  assumes inv: "fl_inv l" and i: "formatting_item i"
  shows "ensureNoahsArkCondition i l = Some (l\<lparr>fl_entries := before_marker (fl_entries l) @ map Some (ark_keep i (after_marker (fl_entries l)))\<rparr>)"
proof -
  let ?es = "fl_entries l" and ?a = "after_marker (fl_entries l)"
  let ?q = "filter (quick_match i) (rev ?a)" and ?s = "filter (similar i) ?a"
  have it: "list_all formatting_item (entry_items ?es)" using inv by (simp add: fl_inv_def)
  have fi: "list_all formatting_item ?a"
    using it after_marker_sub[of ?es] by (auto simp: list_all_iff entry_items_set)
  have d: "distinct ?a"
  proof -
    have "entry_items ?es = entry_items (before_marker ?es) @ ?a" by (subst split_marker) simp
    then show ?thesis using inv by (auto simp: fl_inv_def distinct_map)
  qed
  have sq: "filter (\<lambda>j. list_all (\<lambda>a. has_attribute a j) (si_tokenAttributes i)) ?q = rev ?s"
    by (simp add: rev_filter similar_def[abs_def] conj_commute)
  have len: "length ?s \<le> length ?q" unfolding length_rev[of ?s, symmetric] sq[symmetric] by (rule length_filter_le)
  have la: "length ?a \<le> fl_size l"
    using arg_cong[OF split_marker[of ?es], of length] by (simp add: fl_size_def)
  have keep: "before_marker ?es @ map Some (ark_keep i ?a) = filter (\<lambda>e. \<forall>j \<in> set (drop 2 (rev ?s)). \<not> is_element (item_address j) e) ?es"
  proof -
    have "set (drop 2 (rev ?s)) \<subseteq> set ?a" using set_drop_subset[of 2 "rev ?s"] by auto
    from filter_after[OF inv this] show ?thesis by (simp add: drop_similar[OF d])
  qed
  have few: "drop 2 (rev ?s) = []" if "length ?s < 3" using that by simp
  have quick: "tryToEnsureNoahsArkConditionQuickly i l = Some (if length ?q < 3 then [] else ?q)"
  proof (cases "fl_size l < 3")
    case True
    then have "length ?q < 3" using la length_filter_le[of "quick_match i" "rev ?a"] by simp
    with True show ?thesis by (simp add: tryToEnsureNoahsArkConditionQuickly_def kNoahsArkCapacity_def)
  next
    case False
    then show ?thesis using i candidates_loop_spec[OF it order_refl refl, of i "[]"]
      by (simp add: tryToEnsureNoahsArkConditionQuickly_def kNoahsArkCapacity_def fl_size_def)
  qed
  show ?thesis
  proof (cases "length ?q < 3")
    case True
    then have "drop 2 (rev ?s) = []" using len few by linarith
    then show ?thesis unfolding keep using quick True by (simp add: ensureNoahsArkCondition_def)
  next
    case False
    have "\<forall>j \<in> set ?q. formatting_item j \<and> quick_match i j" using fi by (auto simp: list_all_iff)
    then have att: "attributes_loop i (si_tokenAttributes i) ?q = Some (if length ?s < 3 then None else Some (rev ?s))"
      using attributes_loop_spec[of ?q i "si_tokenAttributes i"] i False sq by (simp add: Let_def)
    have "list_all formatting_item (drop 2 (rev ?s))"
      using fi set_drop_subset[of 2 "rev ?s"] by (auto simp: list_all_iff)
    from remove_loop_spec[OF this inv] show ?thesis
      unfolding keep using quick False att i few by (auto simp: ensureNoahsArkCondition_def kNoahsArkCapacity_def numeral_2_eq_2)
  qed
qed

lemma ark_keep_bound: "length (filter (similar i) (ark_keep i js)) \<le> 2"
proof (induction js)
  case (Cons j js)
  have "length (filter (similar i) (ark_keep i js)) \<le> length (filter (similar i) js)" by (induction js) auto
  with Cons show ?case by auto
qed simp

lemma ark_keep_sub: "\<exists>P. ark_keep i js = filter P js" if "distinct js"
  using drop_similar[OF that, of i] by metis

lemma clear_loop_spec: "clear_loop es = (case rev (before_marker es) of [] \<Rightarrow> [] | _ # pre \<Rightarrow> rev pre)"
proof (induction es rule: rev_induct)
  case Nil
  then show ?case by (simp add: clear_loop.simps)
next
  case (snoc e es)
  then show ?case by (subst clear_loop.simps) (cases e; simp add: isMarker_def)
qed

section \<open>Operations keep the invariant\<close>

lemma before_before [simp]: "before_marker (before_marker es) = before_marker es" "after_marker (before_marker es) = []"
proof (induction es rule: rev_induct)
  case (snoc e es)
  { case 1 from snoc show ?case by (cases e) simp_all }
  { case 2 from snoc show ?case by (cases e) simp_all }
qed simp_all

lemma marker_split_items [simp]:
  "before_marker (before_marker es @ map Some is) = before_marker es" "after_marker (before_marker es @ map Some is) = is"
  by (induction "is" rule: rev_induct) (simp_all flip: append_assoc)

lemma ark_append_split [simp]:
  "before_marker (ark_append i es) = before_marker es" "after_marker (ark_append i es) = ark_keep i (after_marker es) @ [i]"
proof -
  have "ark_append i es = before_marker es @ map Some (ark_keep i (after_marker es) @ [i])" by (simp add: ark_append_def)
  then show "before_marker (ark_append i es) = before_marker es" "after_marker (ark_append i es) = ark_keep i (after_marker es) @ [i]"
    by (simp_all only: marker_split_items)
qed

lemma entry_items_split: "entry_items es = entry_items (before_marker es) @ after_marker es"
  by (subst split_marker) simp

lemma after_distinct: "fl_inv l \<Longrightarrow> distinct (after_marker (fl_entries l))"
  using entry_items_split[of "fl_entries l"] by (auto simp: fl_inv_def distinct_map)

definition fresh_element :: "HTMLStackItem \<Rightarrow> HTMLFormattingElementList \<Rightarrow> bool" where
  "fresh_element i l \<longleftrightarrow> item_address i \<notin> item_address ` set (entry_items (fl_entries l))"

lemma fl_append_spec:
  assumes "fl_inv l" "formatting_item i"
  shows "fl_append i l = Some (l\<lparr>fl_entries := ark_append i (fl_entries l)\<rparr>)"
  by (simp add: fl_append_def ensure_spec[OF assms] ark_append_def)

lemma ark_append_inv:
  assumes "fl_inv l" "formatting_item i" "fresh_element i l"
  shows "fl_inv (l\<lparr>fl_entries := ark_append i (fl_entries l)\<rparr>)"
proof -
  let ?b = "entry_items (before_marker (fl_entries l))" and ?a = "after_marker (fl_entries l)"
  obtain P where P: "ark_keep i ?a = filter P ?a" using ark_keep_sub[OF after_distinct[OF assms(1)]] by blast
  have "distinct (map item_address (?b @ ?a))" "list_all formatting_item (?b @ ?a)" "item_address i \<notin> item_address ` set (?b @ ?a)"
    using assms(1,3) by (simp_all add: fl_inv_def fresh_element_def entry_items_split[of "fl_entries l", symmetric])
  then show ?thesis using assms(2) entry_items_split[of "ark_append i (fl_entries l)"]
    by (auto simp: fl_inv_def P list_all_iff distinct_map_filter)
qed

lemma append_inv: "fl_inv l \<Longrightarrow> formatting_item i \<Longrightarrow> fresh_element i l \<Longrightarrow> fl_append i l = Some l' \<Longrightarrow> fl_inv l'"
  using fl_append_spec[of l i] ark_append_inv[of l i] by simp

lemma fl_remove_inv: "fl_inv l \<Longrightarrow> fl_remove (Some x) l = Some l' \<Longrightarrow> fl_inv l'"
  using fl_remove_spec[of l x] drop_element_inv[of l x] by simp

lemma marker_inv: "fl_inv l \<Longrightarrow> fl_inv (appendMarker l)"
  by (simp add: fl_inv_def appendMarker_def)

lemma clear_inv: "fl_inv l \<Longrightarrow> fl_inv (clearToLastMarker l)"
proof -
  assume inv: "fl_inv l"
  have "\<exists>post. es = clear_loop es @ post" for es
  proof (cases "rev (before_marker es)")
    case (Cons e pre)
    then have "before_marker es = rev pre @ [e]" by (simp add: rev_swap)
    then have "es = rev pre @ e # map Some (after_marker es)" using split_marker[of es] by simp
    with Cons show ?thesis by (auto simp: clear_loop_spec)
  qed (simp add: clear_loop_spec)
  then obtain post where "fl_entries l = clear_loop (fl_entries l) @ post" by blast
  then have "entry_items (fl_entries l) = entry_items (clear_loop (fl_entries l)) @ entry_items post"
    by (metis entry_items_simps(2))
  with inv show "fl_inv (clearToLastMarker l)" by (simp add: fl_inv_def clearToLastMarker_def)
qed

lemma swapTo_replace:
  assumes inv: "fl_inv l" and es: "fl_entries l = pre @ Some old # post" and b: "bookmark = makeBookmark (length pre)"
    and new: "formatting_item new" "fresh_element new l"
  shows "swapTo (Some (item_address old)) new bookmark l = Some (l\<lparr>fl_entries := pre @ Some new # post\<rparr>)"
proof -
  have "formatting_item old" using inv es by (simp add: fl_inv_def)
  then show ?thesis using new fl_contains_spec[OF inv] es b
    by (simp add: swapTo_def fresh_element_def makeBookmark_def fl_at_def fl_size_def entry_element_def)
qed

lemma inserted_inv:
  assumes "fl_inv l" "formatting_item new" "fresh_element new l"
  shows "fl_inv (l\<lparr>fl_entries := vector_insert k (Some new) (fl_entries l)\<rparr>)"
proof -
  let ?a = "entry_items (take k (fl_entries l))" and ?b = "entry_items (drop k (fl_entries l))"
  have "entry_items (fl_entries l) = ?a @ ?b" by (metis append_take_drop_id entry_items_simps(2))
  then have "list_all formatting_item (?a @ ?b)" "distinct (map item_address (?a @ ?b))" "item_address new \<notin> item_address ` set (?a @ ?b)"
    using assms(1,3) by (simp_all only: fl_inv_def fresh_element_def simp_thms)
  then show ?thesis using assms(2) by (auto simp: fl_inv_def vector_insert_def)
qed

lemma swapTo_move:
  assumes inv: "fl_inv l" and old: "old \<in> item_address ` set (entry_items (fl_entries l))" and k: "k < fl_size l"
    and new: "formatting_item new" "fresh_element new l"
  shows "swapTo (Some old) new (moveToAfter k b) l =
    Some (l\<lparr>fl_entries := drop_element old (vector_insert (k + 1) (Some new) (fl_entries l))\<rparr>)"
  using new old k fl_contains_spec[OF inv] fl_remove_spec[OF inserted_inv[OF inv new], of old "k + 1"]
  by (simp add: swapTo_def moveToAfter_def fresh_element_def)

lemma swapTo_inv:
  assumes inv: "fl_inv l" and new: "formatting_item new" and sw: "swapTo (Some old) new b l = Some l'"
  shows "fl_inv l'"
proof -
  have c: "old \<in> item_address ` set (entry_items (fl_entries l))" "fresh_element new l"
    using sw new fl_contains_spec[OF inv] by (auto simp: swapTo_def fresh_element_def split: if_splits)
  show ?thesis
  proof (cases "bm_hasBeenMoved b")
    case True
    then have k: "bm_mark b < fl_size l" and b: "b = moveToAfter (bm_mark b) b"
      using sw by (auto simp: swapTo_def moveToAfter_def split: Option.bind_splits if_splits)
    let ?l = "l\<lparr>fl_entries := vector_insert (bm_mark b + 1) (Some new) (fl_entries l)\<rparr>"
    have "l' = ?l\<lparr>fl_entries := drop_element old (fl_entries ?l)\<rparr>"
      using swapTo_move[OF inv c(1) k new c(2), of b] sw b by simp
    then show ?thesis using drop_element_inv[OF inserted_inv[OF inv new c(2)], of old "bm_mark b + 1"] by simp
  next
    case False
    have k: "bm_mark b < length (fl_entries l)" and at: "entry_element (fl_entries l ! bm_mark b) = Some old"
      and l': "l' = l\<lparr>fl_entries := (fl_entries l)[bm_mark b := Some new]\<rparr>"
      using sw False by (auto simp: swapTo_def fl_at_def fl_size_def split: Option.bind_splits if_splits)
    obtain i where i: "fl_entries l ! bm_mark b = Some i" using at by (auto simp: entry_element_def split: Option.bind_splits)
    let ?p = "take (bm_mark b) (fl_entries l)" and ?q = "drop (Suc (bm_mark b)) (fl_entries l)"
    have es: "fl_entries l = ?p @ Some i # ?q" using id_take_nth_drop[OF k] i by simp
    have up: "(fl_entries l)[bm_mark b := Some new] = ?p @ Some new # ?q" using upd_conv_take_nth_drop[OF k] by simp
    have "entry_items (fl_entries l) = entry_items ?p @ i # entry_items ?q" by (subst es) simp
    then have "list_all formatting_item (entry_items ?p @ i # entry_items ?q)" "distinct (map item_address (entry_items ?p @ i # entry_items ?q))"
      "item_address new \<notin> item_address ` set (entry_items ?p @ i # entry_items ?q)"
      using inv c(2) by (simp_all only: fl_inv_def fresh_element_def simp_thms)
    then show ?thesis using new by (auto simp: l' up fl_inv_def)
  qed
qed

section \<open>Sequences of operations\<close>

inductive formatting_reachable :: "HTMLFormattingElementList \<Rightarrow> bool" where
  do_new: "formatting_reachable newHTMLFormattingElementList"
| do_append: "formatting_reachable l \<Longrightarrow> formatting_item i \<Longrightarrow> fresh_element i l \<Longrightarrow> fl_append i l = Some l' \<Longrightarrow> formatting_reachable l'"
| do_remove: "formatting_reachable l \<Longrightarrow> fl_remove (Some x) l = Some l' \<Longrightarrow> formatting_reachable l'"
| do_marker: "formatting_reachable l \<Longrightarrow> formatting_reachable (appendMarker l)"
| do_clear: "formatting_reachable l \<Longrightarrow> formatting_reachable (clearToLastMarker l)"
| do_swap: "formatting_reachable l \<Longrightarrow> formatting_item i \<Longrightarrow> swapTo (Some x) i b l = Some l' \<Longrightarrow> formatting_reachable l'"

lemma new_list_inv: "fl_inv newHTMLFormattingElementList"
  by (simp add: fl_inv_def newHTMLFormattingElementList_def)

lemma sample_item_simps [simp]: "formatting_item (sample_item a n)" "item_address (sample_item a n) = a"
  "similar (sample_item a n) (sample_item b m) \<longleftrightarrow> n = m"
  by (auto simp: formatting_item_def sample_item_def similar_def quick_match_def)

definition sample_list :: HTMLFormattingElementList where
  "sample_list = \<lparr>fl_entries = [Some (sample_item 1 ''b''), None, Some (sample_item 2 ''b''), Some (sample_item 3 ''i''),
     Some (sample_item 4 ''b''), Some (sample_item 5 ''b'')]\<rparr>"

lemma sample_list_inv: "fl_inv sample_list"
  by (simp add: fl_inv_def sample_list_def)

lemma sample_list_split:
  "after_marker (fl_entries sample_list) = [sample_item 2 ''b'', sample_item 3 ''i'', sample_item 4 ''b'', sample_item 5 ''b'']"
  "before_marker (fl_entries sample_list) = [Some (sample_item 1 ''b''), None]"
  by (simp_all add: sample_list_def after_marker_def before_marker_def)

section \<open>Properties\<close>

text \<open>C17: whatever calls are made on the list of active formatting elements, its entries stay elements with a name and
  every element occurs once, so that a search from the end finds the only entry of an element; \<open>find\<close>, \<open>contains\<close> and
  \<open>remove\<close> then fail no assertion and \<open>remove\<close> takes out exactly that entry.\<close>

theorem formatting_list_invariant:
  assumes "formatting_reachable l"
  shows "fl_inv l \<and> fl_contains (Some x) l = Some (x \<in> item_address ` set (entry_items (fl_entries l))) \<and>
    fl_remove (Some x) l = Some (l\<lparr>fl_entries := drop_element x (fl_entries l)\<rparr>)"
proof -
  have "fl_inv l" using assms
  proof (induction rule: formatting_reachable.induct)
    case do_new show ?case by (rule new_list_inv)
  next
    case (do_append l i l') then show ?case by (blast intro: append_inv)
  next
    case (do_remove l x l') then show ?case by (blast intro: fl_remove_inv)
  next
    case (do_marker l) then show ?case by (blast intro: marker_inv)
  next
    case (do_clear l) then show ?case by (blast intro: clear_inv)
  next
    case (do_swap l i x b l') then show ?case by (blast intro: swapTo_inv)
  qed
  then show ?thesis by (simp add: fl_contains_spec fl_remove_spec)
qed

theorem formatting_list_invariant_witness:
  "\<exists>l. formatting_reachable l \<and> fl_inv l \<and> fl_contains (Some 7) l = Some True"
proof -
  let ?i = "sample_item 7 ''b''"
  let ?l = "\<lparr>fl_entries = [Some ?i]\<rparr>"
  have "fl_append ?i newHTMLFormattingElementList = Some ?l"
    using fl_append_spec[OF new_list_inv, of ?i] by (simp add: ark_append_def newHTMLFormattingElementList_def)
  then have r: "formatting_reachable ?l"
    by (intro do_append[OF do_new, of ?i]) (simp_all add: fresh_element_def newHTMLFormattingElementList_def)
  show ?thesis using formatting_list_invariant[OF r, of 7] r by (intro exI[of _ ?l]) simp
qed

text \<open>C12: appending a formatting element returns and yields the list of the specification: of the entries after the last
  marker with the same name, namespace and attributes only the last two stay, every other entry stays in its place, and the new
  entry is the last; so at most three such entries are ever there.\<close>

theorem noahs_ark_append:
  assumes "fl_inv l" "formatting_item i"
  shows "fl_append i l = Some (l\<lparr>fl_entries := ark_append i (fl_entries l)\<rparr>) \<and>
    length (filter (similar i) (after_marker (ark_append i (fl_entries l)))) \<le> 3"
  using fl_append_spec[OF assms] ark_keep_bound[of i "after_marker (fl_entries l)"] by simp

theorem noahs_ark_append_witness:
  "\<exists>l'. fl_append (sample_item 6 ''b'') sample_list = Some l' \<and>
     fl_entries l' = [Some (sample_item 1 ''b''), None, Some (sample_item 3 ''i''), Some (sample_item 4 ''b''),
       Some (sample_item 5 ''b''), Some (sample_item 6 ''b'')]"
proof -
  show ?thesis using noahs_ark_append[OF sample_list_inv, of "sample_item 6 ''b''"]
    by (simp add: ark_append_def sample_list_split)
qed

text \<open>The search for the closest element in scope answers with the last element after the last marker that has the name,
  and with null when there is none.\<close>

lemma closest_element_correct:
  assumes "fl_inv l"
  shows "closestElementInScopeWithName name l =
    Some (map_option item_address (List.find (\<lambda>i. matchesHTMLTag i name) (rev (after_marker (fl_entries l)))))"
  using closest_loop_spec[of "fl_entries l" "length (fl_entries l)" name] assms
  by (simp add: closestElementInScopeWithName_def fl_size_def fl_inv_def)

text \<open>C18: replacing an element through a bookmark that was not moved puts the new entry in the place of the old one; through a
  bookmark moved after an entry it puts it right after that entry and takes the old entry out. Both return.\<close>

theorem swapTo_correct:
  assumes "fl_inv l" "fl_entries l = pre @ Some old # post" "formatting_item new" "fresh_element new l"
  shows "swapTo (Some (item_address old)) new (makeBookmark (length pre)) l = Some (l\<lparr>fl_entries := pre @ Some new # post\<rparr>) \<and>
    (k < fl_size l \<longrightarrow> swapTo (Some (item_address old)) new (moveToAfter k (makeBookmark (length pre))) l =
       Some (l\<lparr>fl_entries := drop_element (item_address old) (vector_insert (k + 1) (Some new) (fl_entries l))\<rparr>))"
proof (intro conjI impI)
  show "swapTo (Some (item_address old)) new (makeBookmark (length pre)) l = Some (l\<lparr>fl_entries := pre @ Some new # post\<rparr>)"
    by (rule swapTo_replace[OF assms(1,2) refl assms(3,4)])
next
  assume k: "k < fl_size l"
  have "item_address old \<in> item_address ` set (entry_items (fl_entries l))" using assms(2) by (simp add: entry_items_set)
  from swapTo_move[OF assms(1) this k assms(3,4)]
  show "swapTo (Some (item_address old)) new (moveToAfter k (makeBookmark (length pre))) l =
       Some (l\<lparr>fl_entries := drop_element (item_address old) (vector_insert (k + 1) (Some new) (fl_entries l))\<rparr>)" .
qed

theorem swapTo_correct_witness:
  "swapTo (Some 3) (sample_item 9 ''i'') (moveToAfter 4 (makeBookmark 3)) sample_list = Some \<lparr>fl_entries =
     [Some (sample_item 1 ''b''), None, Some (sample_item 2 ''b''), Some (sample_item 4 ''b''), Some (sample_item 9 ''i''), Some (sample_item 5 ''b'')]\<rparr>"
  using swapTo_correct[OF sample_list_inv, of "[Some (sample_item 1 ''b''), None, Some (sample_item 2 ''b'')]" "sample_item 3 ''i''"
      "[Some (sample_item 4 ''b''), Some (sample_item 5 ''b'')]" "sample_item 9 ''i''" 4]
  by (simp add: sample_list_def fresh_element_def fl_size_def vector_insert_def numeral_3_eq_3)

fun append_all :: "HTMLStackItem list \<Rightarrow> HTMLFormattingElementList \<Rightarrow> HTMLFormattingElementList option" where
  "append_all [] l = Some l"
| "append_all (i # is) l = Option.bind (fl_append i l) (append_all is)"

lemma append_all_before:
  assumes "fl_inv l" "list_all formatting_item is" "distinct (map item_address is)" "\<forall>i \<in> set is. fresh_element i l"
  shows "\<exists>l'. append_all is l = Some l' \<and> before_marker (fl_entries l') = before_marker (fl_entries l)"
  using assms
proof (induction "is" arbitrary: l)
  case (Cons i "is")
  let ?l = "l\<lparr>fl_entries := ark_append i (fl_entries l)\<rparr>"
  have i: "formatting_item i" "fresh_element i l" using Cons.prems by simp_all
  obtain P where P: "ark_keep i (after_marker (fl_entries l)) = filter P (after_marker (fl_entries l))"
    using ark_keep_sub[OF after_distinct[OF Cons.prems(1)]] by blast
  have sub: "set (entry_items (fl_entries ?l)) \<subseteq> insert i (set (entry_items (fl_entries l)))"
    using entry_items_split[of "fl_entries l"] entry_items_split[of "fl_entries ?l"] P by auto
  have "fresh_element j ?l" if "j \<in> set is" for j
  proof -
    have "item_address j \<noteq> item_address i" using Cons.prems(3) imageI[OF that, of item_address] by (cases "item_address j = item_address i") simp_all
    moreover have "fresh_element j l" using Cons.prems(4) that by simp
    ultimately have "item_address j \<notin> item_address ` insert i (set (entry_items (fl_entries l)))"
      unfolding fresh_element_def by blast
    then show ?thesis using image_mono[OF sub, of item_address] unfolding fresh_element_def by blast
  qed
  then obtain l' where "append_all is ?l = Some l'" "before_marker (fl_entries l') = before_marker (fl_entries ?l)"
    using Cons.IH[OF ark_append_inv[OF Cons.prems(1) i]] Cons.prems(2,3) by auto
  then show ?case using fl_append_spec[OF Cons.prems(1) i(1)] by simp
qed simp

text \<open>C19: a marker isolates what is appended after it: whatever elements are appended behind a fresh marker, clearing to the last
  marker gives back the list as it was before the marker.\<close>

theorem marker_roundtrip:
  assumes "fl_inv l" "list_all formatting_item is" "distinct (map item_address is)" "\<forall>i \<in> set is. fresh_element i l"
  shows "\<exists>l'. append_all is (appendMarker l) = Some l' \<and> clearToLastMarker l' = l"
proof -
  have "\<forall>i \<in> set is. fresh_element i (appendMarker l)" using assms(4) by (simp add: fresh_element_def appendMarker_def)
  then obtain l' where l': "append_all is (appendMarker l) = Some l'"
    "before_marker (fl_entries l') = before_marker (fl_entries (appendMarker l))"
    using append_all_before[OF marker_inv[OF assms(1)] assms(2,3)] by blast
  then have "fl_entries (clearToLastMarker l') = fl_entries l"
    by (simp add: clearToLastMarker_def clear_loop_spec appendMarker_def)
  then have "clearToLastMarker l' = l" by (cases l, cases l') (simp add: clearToLastMarker_def)
  with l'(1) show ?thesis by blast
qed

theorem marker_roundtrip_witness:
  "\<exists>l'. append_all [sample_item 6 ''b'', sample_item 7 ''i''] (appendMarker sample_list) = Some l' \<and> clearToLastMarker l' = sample_list"
  using marker_roundtrip[OF sample_list_inv, of "[sample_item 6 ''b'', sample_item 7 ''i'']"]
  by (simp add: fresh_element_def sample_list_def)

end
