(* ===== verification/DOM_Tree.thy ===== *)
theory DOM_Tree
  imports Stack_Item
begin

text \<open>
  The DOM nodes the parser builds, with the pointers of \<open>Node\<close> and \<open>ContainerNode\<close>
  (\<open>src/Source/WebCore/dom/ContainerNode.cpp\<close>, \<open>ContainerNodeAlgorithms.h\<close>): parent, previous and next sibling, first and
  last child. A node is an address of a store. The operations are those the parser uses; notifications (mutation observers,
  \<open>childrenChanged\<close>, insertion notifiers) and the render tree are left out. Every node belongs to one document; \<open>takeAllChildrenFrom\<close> calls \<open>adoptNode\<close> on each child it moves, which
  does nothing to the pointers of a child that is already cut off and already of that document, so the call has no counterpart here.

  An operation is \<open>None\<close> where the source fails an assertion or follows a null pointer.
\<close>

section \<open>Nodes\<close>

datatype NodeKind =
    DocumentKind
  | FragmentKind
  | ElementKind QualifiedName "DOMAttribute list"
  | TextKind "UChar list"
  | CommentKind "UChar list"
  | DoctypeKind AtomicString "UChar list" "UChar list"

record DOMNode =
  dn_kind :: NodeKind
  dn_parent :: "nat option"
  dn_previous :: "nat option"
  dn_next :: "nat option"
  dn_firstChild :: "nat option"
  dn_lastChild :: "nat option"

record DOM =
  dom_node :: "nat \<Rightarrow> DOMNode option"
  dom_fresh :: nat                \<comment> \<open>the address of the next node created\<close>

definition on_node :: "nat \<Rightarrow> (DOMNode \<Rightarrow> DOMNode) \<Rightarrow> DOM \<Rightarrow> DOM option" where
  "on_node a f D = do { n \<leftarrow> dom_node D a; Some (D\<lparr>dom_node := (dom_node D)(a \<mapsto> f n)\<rparr>) }"

definition createNode :: "NodeKind \<Rightarrow> DOM \<Rightarrow> nat \<times> DOM" where
  "createNode kind D = (dom_fresh D, D\<lparr>dom_node := (dom_node D)(dom_fresh D \<mapsto>
     \<lparr>dn_kind = kind, dn_parent = None, dn_previous = None, dn_next = None, dn_firstChild = None, dn_lastChild = None\<rparr>),
     dom_fresh := dom_fresh D + 1\<rparr>)"

definition parentNode :: "nat \<Rightarrow> DOM \<Rightarrow> nat option option" where
  "parentNode a D = map_option dn_parent (dom_node D a)"

definition previousSibling :: "nat \<Rightarrow> DOM \<Rightarrow> nat option option" where
  "previousSibling a D = map_option dn_previous (dom_node D a)"

definition lastChild :: "nat \<Rightarrow> DOM \<Rightarrow> nat option option" where
  "lastChild a D = map_option dn_lastChild (dom_node D a)"

definition node_kind :: "nat \<Rightarrow> DOM \<Rightarrow> NodeKind option" where
  "node_kind a D = map_option dn_kind (dom_node D a)"

section \<open>Changing the tree\<close>

definition setParent :: "nat option \<Rightarrow> nat \<Rightarrow> DOM \<Rightarrow> DOM option" where
  "setParent p a = on_node a (\<lambda>n. n\<lparr>dn_parent := p\<rparr>)"

definition setPreviousSibling :: "nat option \<Rightarrow> nat \<Rightarrow> DOM \<Rightarrow> DOM option" where
  "setPreviousSibling p a = on_node a (\<lambda>n. n\<lparr>dn_previous := p\<rparr>)"

definition setNextSibling :: "nat option \<Rightarrow> nat \<Rightarrow> DOM \<Rightarrow> DOM option" where
  "setNextSibling p a = on_node a (\<lambda>n. n\<lparr>dn_next := p\<rparr>)"

definition setFirstChild :: "nat option \<Rightarrow> nat \<Rightarrow> DOM \<Rightarrow> DOM option" where
  "setFirstChild p a = on_node a (\<lambda>n. n\<lparr>dn_firstChild := p\<rparr>)"

definition setLastChild :: "nat option \<Rightarrow> nat \<Rightarrow> DOM \<Rightarrow> DOM option" where
  "setLastChild p a = on_node a (\<lambda>n. n\<lparr>dn_lastChild := p\<rparr>)"

definition appendChildToContainer :: "nat \<Rightarrow> nat \<Rightarrow> DOM \<Rightarrow> DOM option" where
  "appendChildToContainer child container D = do {
     D1 \<leftarrow> setParent (Some container) child D;
     last \<leftarrow> lastChild container D1;
     D2 \<leftarrow> (case last of
        Some l \<Rightarrow> do { D2 \<leftarrow> setPreviousSibling (Some l) child D1; setNextSibling (Some child) l D2 }
      | None \<Rightarrow> setFirstChild (Some child) container D1);
     setLastChild (Some child) container D2 }"

definition parserAppendChild :: "nat \<Rightarrow> nat \<Rightarrow> DOM \<Rightarrow> DOM option" where
  "parserAppendChild this newChild D = do {
     p \<leftarrow> parentNode newChild D;
     ASSERT (p = None);
     k \<leftarrow> node_kind newChild D;
     ASSERT (k \<noteq> FragmentKind);
     appendChildToContainer newChild this D }"

definition insertBeforeCommon :: "nat \<Rightarrow> nat \<Rightarrow> nat \<Rightarrow> DOM \<Rightarrow> DOM option" where
  "insertBeforeCommon this nextChild newChild D = do {
     n \<leftarrow> dom_node D newChild;
     ASSERT (dn_parent n = None);
     ASSERT (dn_next n = None);
     ASSERT (dn_previous n = None);
     prev \<leftarrow> previousSibling nextChild D;
     t \<leftarrow> dom_node D this;
     ASSERT (dn_lastChild t \<noteq> prev);
     D1 \<leftarrow> setPreviousSibling (Some newChild) nextChild D;
     D2 \<leftarrow> (case prev of
        Some p \<Rightarrow> do {
          ASSERT (dn_firstChild t \<noteq> Some nextChild);
          pn \<leftarrow> dom_node D1 p;
          ASSERT (dn_next pn = Some nextChild);
          setNextSibling (Some newChild) p D1 }
      | None \<Rightarrow> do {
          ASSERT (dn_firstChild t = Some nextChild);
          setFirstChild (Some newChild) this D1 });
     D3 \<leftarrow> setParent (Some this) newChild D2;
     D4 \<leftarrow> setPreviousSibling prev newChild D3;
     setNextSibling (Some nextChild) newChild D4 }"

definition parserInsertBefore :: "nat \<Rightarrow> nat \<Rightarrow> nat \<Rightarrow> DOM \<Rightarrow> DOM option" where
  "parserInsertBefore this newChild nextChild D = do {
     p \<leftarrow> parentNode nextChild D;
     ASSERT (p = Some this);
     k \<leftarrow> node_kind newChild D;
     ASSERT (k \<noteq> FragmentKind);
     prev \<leftarrow> previousSibling nextChild D;
     if prev = Some newChild \<or> nextChild = newChild then Some D
     else insertBeforeCommon this nextChild newChild D }"

definition removeBetween :: "nat \<Rightarrow> nat option \<Rightarrow> nat option \<Rightarrow> nat \<Rightarrow> DOM \<Rightarrow> DOM option" where
  "removeBetween this previousChild nextChild oldChild D = do {
     p \<leftarrow> parentNode oldChild D;
     ASSERT (p = Some this);
     D1 \<leftarrow> (case nextChild of None \<Rightarrow> Some D | Some x \<Rightarrow> setPreviousSibling previousChild x D);
     D2 \<leftarrow> (case previousChild of None \<Rightarrow> Some D1 | Some x \<Rightarrow> setNextSibling nextChild x D1);
     t \<leftarrow> dom_node D2 this;
     D3 \<leftarrow> (if dn_firstChild t = Some oldChild then setFirstChild nextChild this D2 else Some D2);
     D4 \<leftarrow> (if dn_lastChild t = Some oldChild then setLastChild previousChild this D3 else Some D3);
     D5 \<leftarrow> setPreviousSibling None oldChild D4;
     D6 \<leftarrow> setNextSibling None oldChild D5;
     setParent None oldChild D6 }"

definition parserRemoveChild :: "nat \<Rightarrow> nat \<Rightarrow> DOM \<Rightarrow> DOM option" where
  "parserRemoveChild this oldChild D = do {
     n \<leftarrow> dom_node D oldChild;
     ASSERT (dn_parent n = Some this);
     ASSERT (dn_kind n \<noteq> FragmentKind);
     removeBetween this (dn_previous n) (dn_next n) oldChild D }"

text \<open>
  \<open>takeAllChildrenFrom\<close>: the children are collected, all links to them are cut, and they are appended one by one. The vector of
  children keeps a reference to each, so none is deleted on the way. Both loops follow sibling pointers.
\<close>

definition nextSibling :: "nat \<Rightarrow> DOM \<Rightarrow> nat option option" where
  "nextSibling a D = map_option dn_next (dom_node D a)"

definition firstChild :: "nat \<Rightarrow> DOM \<Rightarrow> nat option option" where
  "firstChild a D = map_option dn_firstChild (dom_node D a)"

partial_function (option) getChildNodes_loop :: "nat option \<Rightarrow> DOM \<Rightarrow> nat list \<Rightarrow> nat list option" where
  "getChildNodes_loop node D nodes = (case node of None \<Rightarrow> Some nodes
     | Some n \<Rightarrow> do { next \<leftarrow> nextSibling n D; getChildNodes_loop next D (nodes @ [n]) })"

definition getChildNodes :: "nat \<Rightarrow> DOM \<Rightarrow> nat list option" where
  "getChildNodes node D = do { first \<leftarrow> firstChild node D; getChildNodes_loop first D [] }"

partial_function (option) cutChildren_loop :: "nat \<Rightarrow> nat option \<Rightarrow> DOM \<Rightarrow> DOM option" where
  "cutChildren_loop container node D = (case node of None \<Rightarrow> Some D
     | Some n \<Rightarrow> do {
         next \<leftarrow> nextSibling n D;
         D1 \<leftarrow> setNextSibling None n D;
         D2 \<leftarrow> setParent None n D1;
         D3 \<leftarrow> setFirstChild next container D2;
         D4 \<leftarrow> (case next of None \<Rightarrow> Some D3 | Some x \<Rightarrow> setPreviousSibling None x D3);
         cutChildren_loop container next D4 })"

definition removeDetachedChildren :: "nat \<Rightarrow> DOM \<Rightarrow> DOM option" where
  "removeDetachedChildren container D = do {
     first \<leftarrow> firstChild container D;
     D1 \<leftarrow> cutChildren_loop container first D;
     setLastChild None container D1 }"

fun appendEach :: "nat \<Rightarrow> nat list \<Rightarrow> DOM \<Rightarrow> DOM option" where
  "appendEach this [] D = Some D"
| "appendEach this (child # children) D = do { D1 \<leftarrow> parserAppendChild this child D; appendEach this children D1 }"

definition takeAllChildrenFrom :: "nat \<Rightarrow> nat \<Rightarrow> DOM \<Rightarrow> DOM option" where
  "takeAllChildrenFrom this oldParent D = do {
     children \<leftarrow> getChildNodes oldParent D;
     D1 \<leftarrow> removeDetachedChildren oldParent D;
     appendEach this children D1 }"

end
