(* ===== verification/Construction_Site.thy ===== *)
theory Construction_Site
  imports Element_Stack Formatting_List DOM_Tree
begin

text \<open>
  The construction site: \<open>src/Source/WebCore/html/parser/HTMLConstructionSite.h\<close> and \<open>HTMLConstructionSite.cpp\<close>. It creates
  the nodes for tokens, keeps the stack of open elements and the list of active formatting elements, and queues the insertions into
  the DOM until \<open>executeQueuedTasks\<close>.

  The state holds, besides the members of the class, the DOM store and the compatibility mode of the document. The calls
  \<open>beginParsingChildren\<close> and \<open>finishParsingChildren\<close> go to the trace of the stack; other calls to the world outside the parser are
  kept as a list of events. No script runs during an insertion, and the render tree is left out.

  What the code asks of other parts is an argument, \<open>SiteEnv\<close>: whether an attribute of an element can run script (virtual
  functions of the element classes), whether an element is a plug-in, whether the document has a frame, is a \<open>srcdoc\<close> document and has its compatibility mode locked, ICU's case
  folding, and ICU's character break iterator.
\<close>

section \<open>Data\<close>

record SiteEnv =
  se_isScriptingAttribute :: "QualifiedName \<Rightarrow> DOMAttribute \<Rightarrow> bool"
  se_isPluginElement :: "QualifiedName \<Rightarrow> bool"
  se_hasFrame :: bool
  se_isSrcdocDocument :: bool
  se_compatibilityModeLocked :: bool
  se_foldCase :: "UChar32 \<Rightarrow> UChar32"
  se_isTextBreak :: "UChar list \<Rightarrow> nat \<Rightarrow> bool"
  se_textBreakPreceding :: "UChar list \<Rightarrow> nat \<Rightarrow> nat"

datatype ParserContentPolicy = DisallowScriptingAndPluginContent | DisallowScriptingContent | AllowScriptingContent
  | AllowScriptingContentAndDoNotMarkAlreadyStarted

datatype CompatibilityMode = QuirksMode | LimitedQuirksMode | NoQuirksMode

datatype WhitespaceMode = AllWhitespace | NotAllWhitespace | WhitespaceUnknown

datatype SiteEvent = ScriptCreated nat bool bool | InsertedByParser nat | DocumentElementAvailable | WillInsertBody | SetDemoted nat bool | FinishedParsing

record HTMLConstructionSiteTask =
  task_parent :: "nat option"
  task_nextChild :: "nat option"
  task_child :: "nat option"
  task_selfClosing :: bool

record HTMLConstructionSite =
  hs_document :: "nat option"
  hs_attachmentRoot :: "nat option"
  hs_head :: "HTMLStackItem option"
  hs_form :: "nat option"
  hs_openElements :: HTMLElementStack
  hs_activeFormattingElements :: HTMLFormattingElementList
  hs_attachmentQueue :: "HTMLConstructionSiteTask list"
  hs_parserContentPolicy :: ParserContentPolicy
  hs_isParsingFragment :: bool
  hs_redirectAttachToFosterParent :: bool
  hs_maximumDOMTreeDepth :: "32 word"
  hs_inQuirksMode :: bool
  hs_dom :: DOM
  hs_compatibilityMode :: CompatibilityMode
  hs_events :: "SiteEvent list"

definition newTask :: HTMLConstructionSiteTask where
  "newTask = \<lparr>task_parent = None, task_nextChild = None, task_child = None, task_selfClosing = False\<rparr>"

definition scriptingContentIsAllowed :: "ParserContentPolicy \<Rightarrow> bool" where
  "scriptingContentIsAllowed p \<longleftrightarrow> p = AllowScriptingContent \<or> p = AllowScriptingContentAndDoNotMarkAlreadyStarted"

definition pluginContentIsAllowed :: "ParserContentPolicy \<Rightarrow> bool" where
  "pluginContentIsAllowed p \<longleftrightarrow> p \<noteq> DisallowScriptingAndPluginContent"

text \<open>The two constructors: for a document, and for a fragment of a document.\<close>

definition newHTMLConstructionSite :: "nat \<Rightarrow> nat \<Rightarrow> bool \<Rightarrow> ParserContentPolicy \<Rightarrow> 32 word \<Rightarrow> CompatibilityMode \<Rightarrow> DOM \<Rightarrow> HTMLConstructionSite" where
  "newHTMLConstructionSite document root isFragment policy depth mode D =
     \<lparr>hs_document = Some document, hs_attachmentRoot = Some root, hs_head = None, hs_form = None, hs_openElements = newHTMLElementStack,
      hs_activeFormattingElements = newHTMLFormattingElementList, hs_attachmentQueue = [], hs_parserContentPolicy = policy,
      hs_isParsingFragment = isFragment, hs_redirectAttachToFosterParent = False, hs_maximumDOMTreeDepth = depth,
      hs_inQuirksMode = (mode = QuirksMode), hs_dom = D, hs_compatibilityMode = mode, hs_events = []\<rparr>"

definition hs_detach :: "HTMLConstructionSite \<Rightarrow> HTMLConstructionSite" where
  "hs_detach s = s\<lparr>hs_document := None, hs_attachmentRoot := None\<rparr>"

definition setForm :: "nat option \<Rightarrow> HTMLConstructionSite \<Rightarrow> HTMLConstructionSite option" where
  "setForm form s = do { ASSERT (hs_form s = None); Some (s\<lparr>hs_form := form\<rparr>) }"

definition takeForm :: "HTMLConstructionSite \<Rightarrow> nat option \<times> HTMLConstructionSite" where
  "takeForm s = (hs_form s, s\<lparr>hs_form := None\<rparr>)"

section \<open>Attributes\<close>

text \<open>\<open>stripScriptingAttributes\<close> compacts the vector in place.\<close>

function strip_loop :: "('a \<Rightarrow> bool) \<Rightarrow> 'a list \<Rightarrow> nat \<Rightarrow> nat \<Rightarrow> 'a list" where
  "strip_loop strip v source destination =
     (if source < length v then
        if strip (v ! source) then strip_loop strip v (source + 1) destination
        else strip_loop strip (if source \<noteq> destination then v[destination := v ! source] else v) (source + 1) (destination + 1)
      else take destination v)"
  by pat_completeness auto
termination
  by (relation "measure (\<lambda>(strip, v, source, destination). length v - source)") auto

declare strip_loop.simps [simp del]

definition stripScriptingAttributes :: "SiteEnv \<Rightarrow> QualifiedName \<Rightarrow> DOMAttribute list \<Rightarrow> DOMAttribute list" where
  "stripScriptingAttributes E tagName v = strip_loop (se_isScriptingAttribute E tagName) v 0 0"

text \<open>\<open>setAttributes\<close>: the attributes of the token are stripped in the token itself, then copied.\<close>

definition setAttributes :: "SiteEnv \<Rightarrow> QualifiedName \<Rightarrow> AtomicHTMLToken \<Rightarrow> ParserContentPolicy \<Rightarrow> (DOMAttribute list \<times> AtomicHTMLToken) option" where
  "setAttributes E tagName token policy = do {
     as \<leftarrow> am_getAttributes token;
     let as1 = (if \<not> scriptingContentIsAllowed policy then stripScriptingAttributes E tagName as else as);
     Some (as1, token\<lparr>am_attributes := as1\<rparr>) }"

text \<open>\<open>Element::setAttribute\<close>: a null value removes the attribute.\<close>

fun setAttributeInternal :: "QualifiedName \<Rightarrow> AtomicString \<Rightarrow> DOMAttribute list \<Rightarrow> DOMAttribute list" where
  "setAttributeInternal name newValue [] = (if newValue = None then [] else [\<lparr>da_name = name, da_value = newValue\<rparr>])"
| "setAttributeInternal name newValue (a # as) =
     (if qn_matches (da_name a) name then if newValue = None then as else a\<lparr>da_value := newValue\<rparr> # as
      else a # setAttributeInternal name newValue as)"

text \<open>The loop of \<open>mergeAttributesFromTokenIntoElement\<close>.\<close>

fun merge_loop :: "DOMAttribute list \<Rightarrow> DOMAttribute list \<Rightarrow> DOMAttribute list" where
  "merge_loop [] as = as"
| "merge_loop (a # rest) as = merge_loop rest
     (if findAttributeInVector as (da_name a) = None then setAttributeInternal (da_name a) (da_value a) as else as)"

definition mergeAttributesFromTokenIntoElement :: "AtomicHTMLToken \<Rightarrow> nat \<Rightarrow> HTMLConstructionSite \<Rightarrow> HTMLConstructionSite option" where
  "mergeAttributesFromTokenIntoElement token element s = do {
     ts \<leftarrow> am_getAttributes token;
     if ts = [] then Some s
     else do {
       k \<leftarrow> node_kind element (hs_dom s);
       (case k of ElementKind q as \<Rightarrow> do {
          D \<leftarrow> on_node element (\<lambda>n. n\<lparr>dn_kind := ElementKind q (merge_loop ts as)\<rparr>) (hs_dom s);
          Some (s\<lparr>hs_dom := D\<rparr>) }
        | _ \<Rightarrow> None) } }"

section \<open>Current node\<close>

definition currentStackItem :: "HTMLConstructionSite \<Rightarrow> HTMLStackItem option" where
  "currentStackItem s = topStackItem (hs_openElements s)"

definition currentNode :: "HTMLConstructionSite \<Rightarrow> nat option" where
  "currentNode s = topNode (hs_openElements s)"

definition currentElement :: "HTMLConstructionSite \<Rightarrow> nat option" where
  "currentElement s = es_topElement (hs_openElements s)"

definition hs_isEmpty :: "HTMLConstructionSite \<Rightarrow> bool" where
  "hs_isEmpty s \<longleftrightarrow> es_stackDepth (hs_openElements s) = 0"

definition currentIsRootNode :: "HTMLConstructionSite \<Rightarrow> bool option" where
  "currentIsRootNode s = do { n \<leftarrow> currentNode s; r \<leftarrow> es_getRootNode (hs_openElements s); Some (n = nd_address r) }"

section \<open>Inserting into the DOM\<close>

definition hasImpliedEndTag :: "HTMLStackItem \<Rightarrow> bool" where
  "hasImpliedEndTag item \<longleftrightarrow> hasTagName item (htmlName ''dd'') \<or> hasTagName item (htmlName ''dt'') \<or> hasTagName item (htmlName ''li'')
     \<or> isHTMLOptionElement (si_node item) \<or> isHTMLOptGroupElement (si_node item) \<or> hasTagName item (htmlName ''p'')
     \<or> hasTagName item (htmlName ''rp'') \<or> hasTagName item (htmlName ''rt'')"

definition record_call :: "ParsingCall \<Rightarrow> HTMLConstructionSite \<Rightarrow> HTMLConstructionSite" where
  "record_call c s = s\<lparr>hs_openElements := (hs_openElements s)\<lparr>es_calls := es_calls (hs_openElements s) @ [c]\<rparr>\<rparr>"

definition executeTask :: "HTMLConstructionSiteTask \<Rightarrow> HTMLConstructionSite \<Rightarrow> HTMLConstructionSite option" where
  "executeTask task s = do {
     parent \<leftarrow> task_parent task;
     child \<leftarrow> task_child task;
     D \<leftarrow> (case task_nextChild task of
        Some next \<Rightarrow> parserInsertBefore parent child next (hs_dom s)
      | None \<Rightarrow> parserAppendChild parent child (hs_dom s));
     let s1 = record_call (BeginParsingChildren child) (s\<lparr>hs_dom := D\<rparr>);
     Some (if task_selfClosing task then record_call (FinishParsingChildren child) s1 else s1) }"

definition shouldFosterParent :: "HTMLConstructionSite \<Rightarrow> bool option" where
  "shouldFosterParent s =
     (if \<not> hs_redirectAttachToFosterParent s then Some False
      else do {
        item \<leftarrow> currentStackItem s;
        Some (isElementNode item \<and> causesFosterParenting item) })"

text \<open>\<open>findFosterSite\<close> fills the parent and the next child of a task.\<close>

fun record_after :: "nat \<Rightarrow> ElementRecord list \<Rightarrow> ElementRecord option" where
  "record_after a (r # below # rs) = (if er_address r = a then Some below else record_after a (below # rs))"
| "record_after a rs = None"

definition findFosterSite :: "HTMLConstructionSiteTask \<Rightarrow> HTMLConstructionSite \<Rightarrow> HTMLConstructionSiteTask option" where
  "findFosterSite task s = (case es_topmost (Some (lit ''table'')) (hs_openElements s) of
      Some lastTableElementRecord \<Rightarrow> do {
        lastTableElement \<leftarrow> item_element (er_item lastTableElementRecord);
        parent \<leftarrow> parentNode lastTableElement (hs_dom s);
        parentCanBeFosterParent \<leftarrow> (case parent of None \<Rightarrow> Some False
          | Some p \<Rightarrow> do {
              k \<leftarrow> node_kind p (hs_dom s);
              if (case k of ElementKind _ _ \<Rightarrow> True | _ \<Rightarrow> False) then Some True
              else if hs_isParsingFragment s then do { r \<leftarrow> es_getRootNode (hs_openElements s); Some (p = nd_address r) }
              else Some False });
        if parentCanBeFosterParent then Some (task\<lparr>task_parent := parent, task_nextChild := Some lastTableElement\<rparr>)
        else do {
          next \<leftarrow> record_after (er_address lastTableElementRecord) (es_top (hs_openElements s));
          e \<leftarrow> item_element (er_item next);
          Some (task\<lparr>task_parent := Some e\<rparr>) } }
    | None \<Rightarrow> do {
        r \<leftarrow> es_getRootNode (hs_openElements s);
        Some (task\<lparr>task_parent := Some (nd_address r)\<rparr>) })"

definition fosterParent :: "nat \<Rightarrow> HTMLConstructionSite \<Rightarrow> HTMLConstructionSite option" where
  "fosterParent node s = do {
     task \<leftarrow> findFosterSite newTask s;
     let task1 = task\<lparr>task_child := Some node\<rparr>;
     ASSERT (task_parent task1 \<noteq> None);
     Some (s\<lparr>hs_attachmentQueue := hs_attachmentQueue s @ [task1]\<rparr>) }"

definition isScriptElement :: "QualifiedName \<Rightarrow> bool" where
  "isScriptElement q \<longleftrightarrow> qn_matches q (htmlName ''script'') \<or> qn_matches q (svgName ''script'')"

definition kind_is :: "(QualifiedName \<Rightarrow> bool) \<Rightarrow> NodeKind \<Rightarrow> bool" where
  "kind_is P k \<longleftrightarrow> (case k of ElementKind q _ \<Rightarrow> P q | _ \<Rightarrow> False)"

definition attachLater :: "SiteEnv \<Rightarrow> nat option \<Rightarrow> nat \<Rightarrow> bool \<Rightarrow> HTMLConstructionSite \<Rightarrow> HTMLConstructionSite option" where
  "attachLater E parent child isSelfClosing s = do {
     k \<leftarrow> node_kind child (hs_dom s);
     ASSERT (scriptingContentIsAllowed (hs_parserContentPolicy s) \<or> \<not> kind_is isScriptElement k);
     ASSERT (pluginContentIsAllowed (hs_parserContentPolicy s) \<or> \<not> kind_is (se_isPluginElement E) k);
     let task = newTask\<lparr>task_parent := parent, task_child := Some child, task_selfClosing := isSelfClosing\<rparr>;
     foster \<leftarrow> shouldFosterParent s;
     if foster then fosterParent child s
     else do {
       task1 \<leftarrow> (if es_stackDepth (hs_openElements s) > hs_maximumDOMTreeDepth s then do {
           p \<leftarrow> task_parent task;
           pp \<leftarrow> parentNode p (hs_dom s);
           Some (if pp \<noteq> None then task\<lparr>task_parent := pp\<rparr> else task) }
         else Some task);
       ASSERT (task_parent task1 \<noteq> None);
       Some (s\<lparr>hs_attachmentQueue := hs_attachmentQueue s @ [task1]\<rparr>) } }"

fun executeTasks :: "HTMLConstructionSiteTask list \<Rightarrow> HTMLConstructionSite \<Rightarrow> HTMLConstructionSite option" where
  "executeTasks [] s = Some s"
| "executeTasks (task # queue) s = do { s1 \<leftarrow> executeTask task s; executeTasks queue s1 }"

definition executeQueuedTasks :: "HTMLConstructionSite \<Rightarrow> HTMLConstructionSite option" where
  "executeQueuedTasks s =
     (if hs_attachmentQueue s = [] then Some s
      else executeTasks (hs_attachmentQueue s) (s\<lparr>hs_attachmentQueue := []\<rparr>))"

section \<open>Creating nodes\<close>

definition allocate :: "NodeKind \<Rightarrow> HTMLConstructionSite \<Rightarrow> nat \<times> HTMLConstructionSite" where
  "allocate k s = (let (a, D) = createNode k (hs_dom s) in (a, s\<lparr>hs_dom := D\<rparr>))"

definition createElementNamed :: "SiteEnv \<Rightarrow> QualifiedName \<Rightarrow> AtomicHTMLToken \<Rightarrow> HTMLConstructionSite
    \<Rightarrow> (ContainerNode \<times> AtomicHTMLToken \<times> HTMLConstructionSite) option" where
  "createElementNamed E tagName token s = do {
     (as, token1) \<leftarrow> setAttributes E tagName token (hs_parserContentPolicy s);
     let (a, s1) = allocate (ElementKind tagName as) s;
     Some (\<lparr>nd_address = a, nd_tagName = Some tagName\<rparr>, token1, s1) }"

text \<open>\<open>createElement\<close> and \<open>createHTMLElement\<close> ask the current node for its document, so there has to be one.\<close>

definition createElement :: "SiteEnv \<Rightarrow> AtomicHTMLToken \<Rightarrow> AtomicString \<Rightarrow> HTMLConstructionSite
    \<Rightarrow> (ContainerNode \<times> AtomicHTMLToken \<times> HTMLConstructionSite) option" where
  "createElement E token namespaceURI s = do {
     n \<leftarrow> am_getName token;
     c \<leftarrow> currentNode s;
     createElementNamed E \<lparr>qn_prefix = None, qn_localName = n, qn_namespaceURI = namespaceURI\<rparr> token s }"

definition createHTMLElement :: "SiteEnv \<Rightarrow> AtomicHTMLToken \<Rightarrow> HTMLConstructionSite
    \<Rightarrow> (ContainerNode \<times> AtomicHTMLToken \<times> HTMLConstructionSite) option" where
  "createHTMLElement E token s = createElement E token xhtmlNamespaceURI s"

definition on_openElements :: "(HTMLElementStack \<Rightarrow> HTMLElementStack option) \<Rightarrow> HTMLConstructionSite \<Rightarrow> HTMLConstructionSite option" where
  "on_openElements f s = do { st \<leftarrow> f (hs_openElements s); Some (s\<lparr>hs_openElements := st\<rparr>) }"

definition add_event :: "SiteEvent \<Rightarrow> HTMLConstructionSite \<Rightarrow> HTMLConstructionSite" where
  "add_event e s = s\<lparr>hs_events := hs_events s @ [e]\<rparr>"

section \<open>Compatibility mode\<close>

text \<open>The mode of the document can be locked, the one the parser keeps cannot.\<close>

definition document_setCompatibilityMode :: "SiteEnv \<Rightarrow> CompatibilityMode \<Rightarrow> CompatibilityMode \<Rightarrow> CompatibilityMode" where
  "document_setCompatibilityMode E mode old = (if se_compatibilityModeLocked E \<or> mode = old then old else mode)"

definition setCompatibilityMode :: "SiteEnv \<Rightarrow> CompatibilityMode \<Rightarrow> HTMLConstructionSite \<Rightarrow> HTMLConstructionSite" where
  "setCompatibilityMode E mode s = s\<lparr>hs_inQuirksMode := (mode = QuirksMode),
     hs_compatibilityMode := document_setCompatibilityMode E mode (hs_compatibilityMode s)\<rparr>"

definition setDefaultCompatibilityMode :: "SiteEnv \<Rightarrow> HTMLConstructionSite \<Rightarrow> HTMLConstructionSite" where
  "setDefaultCompatibilityMode E s =
     (if hs_isParsingFragment s then s
      else if se_isSrcdocDocument E then s
      else setCompatibilityMode E QuirksMode s)"

text \<open>\<open>String::startsWith(literal, false)\<close>.\<close>

definition startsWith_ignoringCase :: "SiteEnv \<Rightarrow> UChar list \<Rightarrow> string \<Rightarrow> bool" where
  "startsWith_ignoringCase E s l \<longleftrightarrow> (let b = lit l in
     \<not> length b > length s \<and> list_all (\<lambda>(ac, bc). se_foldCase E (ucast ac) = se_foldCase E (ucast bc)) (zip (take (length b) s) b))"

definition quirky_public_prefixes :: "string list" where
  "quirky_public_prefixes = [
     ''+//Silmaril//dtd html Pro v0r11 19970101//'',
     ''-//AdvaSoft Ltd//DTD HTML 3.0 asWedit + extensions//'',
     ''-//AS//DTD HTML 3.0 asWedit + extensions//'',
     ''-//IETF//DTD HTML 2.0 Level 1//'',
     ''-//IETF//DTD HTML 2.0 Level 2//'',
     ''-//IETF//DTD HTML 2.0 Strict Level 1//'',
     ''-//IETF//DTD HTML 2.0 Strict Level 2//'',
     ''-//IETF//DTD HTML 2.0 Strict//'',
     ''-//IETF//DTD HTML 2.0//'',
     ''-//IETF//DTD HTML 2.1E//'',
     ''-//IETF//DTD HTML 3.0//'',
     ''-//IETF//DTD HTML 3.2 Final//'',
     ''-//IETF//DTD HTML 3.2//'',
     ''-//IETF//DTD HTML 3//'',
     ''-//IETF//DTD HTML Level 0//'',
     ''-//IETF//DTD HTML Level 1//'',
     ''-//IETF//DTD HTML Level 2//'',
     ''-//IETF//DTD HTML Level 3//'',
     ''-//IETF//DTD HTML Strict Level 0//'',
     ''-//IETF//DTD HTML Strict Level 1//'',
     ''-//IETF//DTD HTML Strict Level 2//'',
     ''-//IETF//DTD HTML Strict Level 3//'',
     ''-//IETF//DTD HTML Strict//'',
     ''-//IETF//DTD HTML//'',
     ''-//Metrius//DTD Metrius Presentational//'',
     ''-//Microsoft//DTD Internet Explorer 2.0 HTML Strict//'',
     ''-//Microsoft//DTD Internet Explorer 2.0 HTML//'',
     ''-//Microsoft//DTD Internet Explorer 2.0 Tables//'',
     ''-//Microsoft//DTD Internet Explorer 3.0 HTML Strict//'',
     ''-//Microsoft//DTD Internet Explorer 3.0 HTML//'',
     ''-//Microsoft//DTD Internet Explorer 3.0 Tables//'',
     ''-//Netscape Comm. Corp.//DTD HTML//'',
     ''-//Netscape Comm. Corp.//DTD Strict HTML//'',
     ''-//O'Reilly and Associates//DTD HTML 2.0//'',
     ''-//O'Reilly and Associates//DTD HTML Extended 1.0//'',
     ''-//O'Reilly and Associates//DTD HTML Extended Relaxed 1.0//'',
     ''-//SoftQuad Software//DTD HoTMetaL PRO 6.0::19990601::extensions to HTML 4.0//'',
     ''-//SoftQuad//DTD HoTMetaL PRO 4.0::19971010::extensions to HTML 4.0//'',
     ''-//Spyglass//DTD HTML 2.0 Extended//'',
     ''-//SQ//DTD HTML 2.0 HoTMetaL + extensions//'',
     ''-//Sun Microsystems Corp.//DTD HotJava HTML//'',
     ''-//Sun Microsystems Corp.//DTD HotJava Strict HTML//'',
     ''-//W3C//DTD HTML 3 1995-03-24//'',
     ''-//W3C//DTD HTML 3.2 Draft//'',
     ''-//W3C//DTD HTML 3.2 Final//'',
     ''-//W3C//DTD HTML 3.2//'',
     ''-//W3C//DTD HTML 3.2S Draft//'',
     ''-//W3C//DTD HTML 4.0 Frameset//'',
     ''-//W3C//DTD HTML 4.0 Transitional//'',
     ''-//W3C//DTD HTML Experimental 19960712//'',
     ''-//W3C//DTD HTML Experimental 970421//'',
     ''-//W3C//DTD W3 HTML//'',
     ''-//W3O//DTD W3 HTML 3.0//'',
     ''-//WebTechs//DTD Mozilla HTML 2.0//'',
     ''-//WebTechs//DTD Mozilla HTML//'']"

definition compatibilityModeFromDoctype :: "SiteEnv \<Rightarrow> AtomicString \<Rightarrow> UChar list \<Rightarrow> UChar list \<Rightarrow> CompatibilityMode" where
  "compatibilityModeFromDoctype E name publicId systemId =
     (if name \<noteq> Some (lit ''html'')
       \<or> list_ex (startsWith_ignoringCase E publicId) quirky_public_prefixes
       \<or> equalIgnoringCase_lit (se_foldCase E) (Some publicId) ''-//W3O//DTD W3 HTML Strict 3.0//EN//''
       \<or> equalIgnoringCase_lit (se_foldCase E) (Some publicId) ''-/W3C/DTD HTML 4.0 Transitional/EN''
       \<or> equalIgnoringCase_lit (se_foldCase E) (Some publicId) ''HTML''
       \<or> equalIgnoringCase_lit (se_foldCase E) (Some systemId) ''http://www.ibm.com/data/dtd/v11/ibmxhtml1-transitional.dtd''
       \<or> (systemId = [] \<and> startsWith_ignoringCase E publicId ''-//W3C//DTD HTML 4.01 Frameset//'')
       \<or> (systemId = [] \<and> startsWith_ignoringCase E publicId ''-//W3C//DTD HTML 4.01 Transitional//'') then QuirksMode
      else if startsWith_ignoringCase E publicId ''-//W3C//DTD XHTML 1.0 Frameset//''
       \<or> startsWith_ignoringCase E publicId ''-//W3C//DTD XHTML 1.0 Transitional//''
       \<or> (systemId \<noteq> [] \<and> startsWith_ignoringCase E publicId ''-//W3C//DTD HTML 4.01 Frameset//'')
       \<or> (systemId \<noteq> [] \<and> startsWith_ignoringCase E publicId ''-//W3C//DTD HTML 4.01 Transitional//'') then LimitedQuirksMode
      else NoQuirksMode)"

definition setCompatibilityModeFromDoctype :: "SiteEnv \<Rightarrow> AtomicString \<Rightarrow> UChar list \<Rightarrow> UChar list \<Rightarrow> HTMLConstructionSite \<Rightarrow> HTMLConstructionSite" where
  "setCompatibilityModeFromDoctype E name publicId systemId s = setCompatibilityMode E (compatibilityModeFromDoctype E name publicId systemId) s"

section \<open>Insertions\<close>

definition finishedParsing :: "HTMLConstructionSite \<Rightarrow> HTMLConstructionSite" where
  "finishedParsing s = add_event FinishedParsing s"

definition dispatchDocumentElementAvailableIfNeeded :: "SiteEnv \<Rightarrow> HTMLConstructionSite \<Rightarrow> HTMLConstructionSite option" where
  "dispatchDocumentElementAvailableIfNeeded E s = do {
     ASSERT (hs_document s \<noteq> None);
     Some (if se_hasFrame E \<and> \<not> hs_isParsingFragment s then add_event DocumentElementAvailable s else s) }"

definition insertHTMLHtmlStartTagBeforeHTML :: "SiteEnv \<Rightarrow> AtomicHTMLToken \<Rightarrow> HTMLConstructionSite \<Rightarrow> HTMLConstructionSite option" where
  "insertHTMLHtmlStartTagBeforeHTML E token s = do {
     (element, token1, s1) \<leftarrow> createElementNamed E (htmlName ''html'') token s;
     s2 \<leftarrow> attachLater E (hs_attachmentRoot s1) (nd_address element) False s1;
     item \<leftarrow> createItem_token element token1 xhtmlNamespaceURI;
     s3 \<leftarrow> on_openElements (pushHTMLHtmlElement item) s2;
     s4 \<leftarrow> executeQueuedTasks s3;
     dispatchDocumentElementAvailableIfNeeded E (add_event (InsertedByParser (nd_address element)) s4) }"

definition insertHTMLHtmlStartTagInBody :: "AtomicHTMLToken \<Rightarrow> HTMLConstructionSite \<Rightarrow> HTMLConstructionSite option" where
  "insertHTMLHtmlStartTagInBody token s =
     (if hs_isParsingFragment s then Some s
      else do { e \<leftarrow> htmlElement (hs_openElements s); mergeAttributesFromTokenIntoElement token e s })"

definition insertHTMLBodyStartTagInBody :: "AtomicHTMLToken \<Rightarrow> HTMLConstructionSite \<Rightarrow> HTMLConstructionSite option" where
  "insertHTMLBodyStartTagInBody token s = do {
     e \<leftarrow> bodyElement (hs_openElements s); mergeAttributesFromTokenIntoElement token e s }"

definition insertDoctype :: "SiteEnv \<Rightarrow> AtomicHTMLToken \<Rightarrow> HTMLConstructionSite \<Rightarrow> HTMLConstructionSite option" where
  "insertDoctype E token s = do {
     ASSERT (am_type token = DOCTYPE);
     publicId \<leftarrow> am_publicIdentifier token;
     systemId \<leftarrow> am_systemIdentifier token;
     name \<leftarrow> am_getName token;
     let (doctype, s1) = allocate (DoctypeKind name publicId systemId) s;
     s2 \<leftarrow> attachLater E (hs_attachmentRoot s1) doctype False s1;
     ASSERT (\<not> hs_isParsingFragment s2);
     quirks \<leftarrow> am_forceQuirks token;
     Some (if quirks then setCompatibilityMode E QuirksMode s2 else setCompatibilityModeFromDoctype E name publicId systemId s2) }"

definition insertCommentAt :: "SiteEnv \<Rightarrow> nat option \<Rightarrow> AtomicHTMLToken \<Rightarrow> HTMLConstructionSite \<Rightarrow> HTMLConstructionSite option" where
  "insertCommentAt E parent token s = do {
     ASSERT (am_type token = Comment);
     cs \<leftarrow> am_comment token;
     let (comment, s1) = allocate (CommentKind cs) s;
     attachLater E parent comment False s1 }"

definition insertComment :: "SiteEnv \<Rightarrow> AtomicHTMLToken \<Rightarrow> HTMLConstructionSite \<Rightarrow> HTMLConstructionSite option" where
  "insertComment E token s = do { n \<leftarrow> currentNode s; insertCommentAt E (Some n) token s }"

definition insertCommentOnDocument :: "SiteEnv \<Rightarrow> AtomicHTMLToken \<Rightarrow> HTMLConstructionSite \<Rightarrow> HTMLConstructionSite option" where
  "insertCommentOnDocument E token s = insertCommentAt E (hs_attachmentRoot s) token s"

definition insertCommentOnHTMLHtmlElement :: "SiteEnv \<Rightarrow> AtomicHTMLToken \<Rightarrow> HTMLConstructionSite \<Rightarrow> HTMLConstructionSite option" where
  "insertCommentOnHTMLHtmlElement E token s = do {
     parent \<leftarrow> es_getRootNode (hs_openElements s); insertCommentAt E (Some (nd_address parent)) token s }"

definition insertHTMLHeadElement :: "SiteEnv \<Rightarrow> AtomicHTMLToken \<Rightarrow> HTMLConstructionSite \<Rightarrow> HTMLConstructionSite option" where
  "insertHTMLHeadElement E token s = do {
     foster \<leftarrow> shouldFosterParent s;
     ASSERT (\<not> foster);
     (element, token1, s1) \<leftarrow> createHTMLElement E token s;
     head \<leftarrow> createItem_token element token1 xhtmlNamespaceURI;
     let s2 = s1\<lparr>hs_head := Some head\<rparr>;
     s3 \<leftarrow> attachLater E (currentNode s2) (nd_address element) False s2;
     on_openElements (pushHTMLHeadElement head) s3 }"

definition insertHTMLBodyElement :: "SiteEnv \<Rightarrow> AtomicHTMLToken \<Rightarrow> HTMLConstructionSite \<Rightarrow> HTMLConstructionSite option" where
  "insertHTMLBodyElement E token s = do {
     foster \<leftarrow> shouldFosterParent s;
     ASSERT (\<not> foster);
     (body, token1, s1) \<leftarrow> createHTMLElement E token s;
     s2 \<leftarrow> attachLater E (currentNode s1) (nd_address body) False s1;
     item \<leftarrow> createItem_token body token1 xhtmlNamespaceURI;
     s3 \<leftarrow> on_openElements (pushHTMLBodyElement item) s2;
     Some (if se_hasFrame E then add_event WillInsertBody s3 else s3) }"

definition insertHTMLFormElement :: "SiteEnv \<Rightarrow> AtomicHTMLToken \<Rightarrow> bool \<Rightarrow> HTMLConstructionSite \<Rightarrow> HTMLConstructionSite option" where
  "insertHTMLFormElement E token isDemoted s = do {
     (element, token1, s1) \<leftarrow> createHTMLElement E token s;
     ASSERT (node_hasTagName element (htmlName ''form''));
     let s2 = add_event (SetDemoted (nd_address element) isDemoted) (s1\<lparr>hs_form := Some (nd_address element)\<rparr>);
     s3 \<leftarrow> attachLater E (currentNode s2) (nd_address element) False s2;
     item \<leftarrow> createItem_token element token1 xhtmlNamespaceURI;
     on_openElements (es_push item) s3 }"

definition insertHTMLElement :: "SiteEnv \<Rightarrow> AtomicHTMLToken \<Rightarrow> HTMLConstructionSite \<Rightarrow> HTMLConstructionSite option" where
  "insertHTMLElement E token s = do {
     (element, token1, s1) \<leftarrow> createHTMLElement E token s;
     s2 \<leftarrow> attachLater E (currentNode s1) (nd_address element) False s1;
     item \<leftarrow> createItem_token element token1 xhtmlNamespaceURI;
     on_openElements (es_push item) s2 }"

definition insertSelfClosingHTMLElement :: "SiteEnv \<Rightarrow> AtomicHTMLToken \<Rightarrow> HTMLConstructionSite \<Rightarrow> HTMLConstructionSite option" where
  "insertSelfClosingHTMLElement E token s = do {
     ASSERT (am_type token = StartTag);
     (element, token1, s1) \<leftarrow> createHTMLElement E token s;
     attachLater E (currentNode s1) (nd_address element) True s1 }"

definition insertFormattingElement :: "SiteEnv \<Rightarrow> AtomicHTMLToken \<Rightarrow> HTMLConstructionSite \<Rightarrow> HTMLConstructionSite option" where
  "insertFormattingElement E token s = do {
     s1 \<leftarrow> insertHTMLElement E token s;
     item \<leftarrow> currentStackItem s1;
     l \<leftarrow> fl_append item (hs_activeFormattingElements s1);
     Some (s1\<lparr>hs_activeFormattingElements := l\<rparr>) }"

definition insertScriptElement :: "SiteEnv \<Rightarrow> AtomicHTMLToken \<Rightarrow> HTMLConstructionSite \<Rightarrow> HTMLConstructionSite option" where
  "insertScriptElement E token s = do {
     let parserInserted = (hs_parserContentPolicy s \<noteq> AllowScriptingContentAndDoNotMarkAlreadyStarted);
     let alreadyStarted = (hs_isParsingFragment s \<and> parserInserted);
     c \<leftarrow> currentNode s;
     (element, token1, s0) \<leftarrow> createElementNamed E (htmlName ''script'') token s;
     let s1 = add_event (ScriptCreated (nd_address element) parserInserted alreadyStarted) s0;
     s2 \<leftarrow> (if scriptingContentIsAllowed (hs_parserContentPolicy s1)
       then attachLater E (currentNode s1) (nd_address element) False s1 else Some s1);
     item \<leftarrow> createItem_token element token1 xhtmlNamespaceURI;
     on_openElements (es_push item) s2 }"

definition insertForeignElement :: "SiteEnv \<Rightarrow> AtomicHTMLToken \<Rightarrow> AtomicString \<Rightarrow> HTMLConstructionSite \<Rightarrow> HTMLConstructionSite option" where
  "insertForeignElement E token namespaceURI s = do {
     ASSERT (am_type token = StartTag);
     (element, token1, s1) \<leftarrow> createElement E token namespaceURI s;
     closing \<leftarrow> am_getSelfClosing token1;
     q \<leftarrow> nd_tagName element;
     s2 \<leftarrow> (if scriptingContentIsAllowed (hs_parserContentPolicy s1) \<or> \<not> isScriptElement q
       then attachLater E (currentNode s1) (nd_address element) closing s1 else Some s1);
     if \<not> closing then do {
       item \<leftarrow> createItem_token element token1 namespaceURI;
       on_openElements (es_push item) s2 }
     else Some s2 }"

section \<open>Text\<close>

definition shouldUseLengthLimit :: "NodeKind \<Rightarrow> bool" where
  "shouldUseLengthLimit k \<longleftrightarrow> \<not> kind_is (\<lambda>q. qn_matches q (htmlName ''script'')) k \<and> \<not> kind_is (\<lambda>q. qn_matches q (htmlName ''style'')) k
     \<and> \<not> kind_is (\<lambda>q. qn_matches q (svgName ''script'')) k"

definition defaultLengthLimit :: nat where
  "defaultLengthLimit = 2 ^ 16"

definition unsigned_max :: nat where
  "unsigned_max = 2 ^ 32 - 1"

text \<open>\<open>CharacterData::parserAppendData\<close>: how many characters were appended, and the data of the node after it.\<close>

definition parserAppendData :: "SiteEnv \<Rightarrow> UChar list \<Rightarrow> UChar list \<Rightarrow> nat \<Rightarrow> nat \<Rightarrow> (nat \<times> UChar list) option" where
  "parserAppendData E m_data str offset lengthLimit = do {
     let oldLength = length m_data;
     ASSERT (lengthLimit \<ge> oldLength);
     let characterLength = length str - offset;
     let limit = min characterLength (lengthLimit - oldLength);
     let it = take (if limit + 2 > characterLength then characterLength else limit + 2) (drop offset str);
     let limit1 = (if limit < characterLength \<and> \<not> se_isTextBreak E it limit then se_textBreakPreceding E it limit else limit);
     Some (if limit1 = 0 then (0, m_data) else (limit1, m_data @ take limit1 (drop offset str))) }"

definition createWithLengthLimit :: "SiteEnv \<Rightarrow> UChar list \<Rightarrow> nat \<Rightarrow> nat \<Rightarrow> UChar list option" where
  "createWithLengthLimit E data start lengthLimit =
     (if start = 0 \<and> length data \<le> lengthLimit then Some data
      else do { (n, t) \<leftarrow> parserAppendData E [] data start lengthLimit; Some t })"

text \<open>One text node of the loop: when the break iterator finds no place to break, the rest of the characters.\<close>

definition text_chunk :: "SiteEnv \<Rightarrow> UChar list \<Rightarrow> nat \<Rightarrow> nat \<Rightarrow> UChar list option" where
  "text_chunk E chars currentPosition lengthLimit = do {
     t \<leftarrow> createWithLengthLimit E chars currentPosition lengthLimit;
     Some (if t = [] then drop currentPosition chars else t) }"

partial_function (option) insertText_loop :: "SiteEnv \<Rightarrow> HTMLConstructionSiteTask \<Rightarrow> UChar list \<Rightarrow> nat \<Rightarrow> nat \<Rightarrow> HTMLConstructionSite
    \<Rightarrow> HTMLConstructionSite option" where
  "insertText_loop E task chars lengthLimit currentPosition s =
     (if currentPosition < length chars then do {
        t \<leftarrow> text_chunk E chars currentPosition lengthLimit;
        let position1 = currentPosition + length t;
        ASSERT (position1 \<le> length chars);
        let (textNode, s1) = allocate (TextKind t) s;
        s2 \<leftarrow> executeTask (task\<lparr>task_child := Some textNode\<rparr>) s1;
        insertText_loop E task chars lengthLimit position1 s2 }
      else Some s)"

text \<open>
  \<open>insertTextNode\<close>; the whitespace mode only decides whether the string is shared, so it is not an argument. A null child list,
  a fragment, or a text node before the insertion point are told apart as in the source.
\<close>

definition appendToText :: "SiteEnv \<Rightarrow> nat option \<Rightarrow> UChar list \<Rightarrow> nat \<Rightarrow> HTMLConstructionSite \<Rightarrow> (nat \<times> HTMLConstructionSite) option" where
  "appendToText E previousChild chars lengthLimit s = (case previousChild of None \<Rightarrow> Some (0, s)
     | Some p \<Rightarrow> do {
         k \<leftarrow> node_kind p (hs_dom s);
         (case k of TextKind t \<Rightarrow> do {
            (n, t1) \<leftarrow> parserAppendData E t chars 0 lengthLimit;
            D \<leftarrow> on_node p (\<lambda>x. x\<lparr>dn_kind := TextKind t1\<rparr>) (hs_dom s);
            Some (n, s\<lparr>hs_dom := D\<rparr>) }
          | _ \<Rightarrow> Some (0, s)) })"

definition text_task :: "HTMLConstructionSite \<Rightarrow> HTMLConstructionSiteTask option" where
  "text_task s = do {
     n \<leftarrow> currentNode s;
     let task = newTask\<lparr>task_parent := Some n\<rparr>;
     foster \<leftarrow> shouldFosterParent s;
     if foster then findFosterSite task s else Some task }"

definition text_limit :: "nat \<Rightarrow> DOM \<Rightarrow> nat option" where
  "text_limit parent D = do {
     k \<leftarrow> node_kind parent D;
     Some (if shouldUseLengthLimit k then defaultLengthLimit else unsigned_max) }"

definition insertTextNode :: "SiteEnv \<Rightarrow> UChar list \<Rightarrow> HTMLConstructionSite \<Rightarrow> HTMLConstructionSite option" where
  "insertTextNode E chars s = do {
     task \<leftarrow> text_task s;
     parent \<leftarrow> task_parent task;
     lengthLimit \<leftarrow> text_limit parent (hs_dom s);
     previousChild \<leftarrow> (case task_nextChild task of
        Some next \<Rightarrow> previousSibling next (hs_dom s)
      | None \<Rightarrow> lastChild parent (hs_dom s));
     (currentPosition, s1) \<leftarrow> appendToText E previousChild chars lengthLimit s;
     insertText_loop E task chars lengthLimit currentPosition s1 }"

section \<open>Reconstruction of formatting elements and implied end tags\<close>

definition createElementFromSavedToken :: "SiteEnv \<Rightarrow> HTMLStackItem \<Rightarrow> HTMLConstructionSite \<Rightarrow> (HTMLStackItem \<times> HTMLConstructionSite) option" where
  "createElementFromSavedToken E item s = do {
     as \<leftarrow> item_attributes item;
     fakeToken \<leftarrow> makeAtomicHTMLToken_name StartTag (si_tokenLocalName item) as;
     (element, token1, s1) \<leftarrow> (if si_namespaceURI item = xhtmlNamespaceURI then createHTMLElement E fakeToken s
       else createElement E fakeToken (si_namespaceURI item) s);
     new \<leftarrow> createItem_token element token1 (si_namespaceURI item);
     Some (new, s1) }"

text \<open>The result is \<open>firstUnopenElementIndex\<close> where the source returns true.\<close>

fun unopen_loop :: "HTMLElementStack \<Rightarrow> FormattingEntry list \<Rightarrow> nat \<Rightarrow> nat option option" where
  "unopen_loop st es 0 = Some (Some 0)"
| "unopen_loop st es (Suc index) = (case es ! index of
      None \<Rightarrow> Some (if index + 1 < length es then Some (index + 1) else None)
    | Some item \<Rightarrow> do {
        e \<leftarrow> item_element item;
        if es_contains e st then Some (if index + 1 < length es then Some (index + 1) else None)
        else unopen_loop st es index })"

definition indexOfFirstUnopenFormattingElement :: "HTMLConstructionSite \<Rightarrow> nat option option" where
  "indexOfFirstUnopenFormattingElement s =
     (if fl_isEmpty (hs_activeFormattingElements s) then Some None
      else unopen_loop (hs_openElements s) (fl_entries (hs_activeFormattingElements s)) (fl_size (hs_activeFormattingElements s)))"

definition reopen :: "SiteEnv \<Rightarrow> nat \<Rightarrow> HTMLConstructionSite \<Rightarrow> HTMLConstructionSite option" where
  "reopen E index s = do {
     entry \<leftarrow> fl_at index (hs_activeFormattingElements s);
     item \<leftarrow> entry;
     (new, s1) \<leftarrow> createElementFromSavedToken E item s;
     s2 \<leftarrow> attachLater E (currentNode s1) (nd_address (si_node new)) False s1;
     s3 \<leftarrow> on_openElements (es_push new) s2;
     Some (s3\<lparr>hs_activeFormattingElements := (hs_activeFormattingElements s3)\<lparr>fl_entries :=
       (fl_entries (hs_activeFormattingElements s3))[index := Some new]\<rparr>\<rparr>) }"

fun reconstruct_loop :: "SiteEnv \<Rightarrow> nat \<Rightarrow> nat \<Rightarrow> HTMLConstructionSite \<Rightarrow> HTMLConstructionSite option" where
  "reconstruct_loop E index 0 s = Some s"
| "reconstruct_loop E index (Suc n) s = do { s1 \<leftarrow> reopen E index s; reconstruct_loop E (index + 1) n s1 }"

definition reconstructTheActiveFormattingElements :: "SiteEnv \<Rightarrow> HTMLConstructionSite \<Rightarrow> HTMLConstructionSite option" where
  "reconstructTheActiveFormattingElements E s = do {
     first \<leftarrow> indexOfFirstUnopenFormattingElement s;
     (case first of None \<Rightarrow> Some s
      | Some index \<Rightarrow> do {
          ASSERT (index < fl_size (hs_activeFormattingElements s));
          reconstruct_loop E index (fl_size (hs_activeFormattingElements s) - index) s }) }"

definition generateImpliedEndTagsWithExclusion :: "AtomicString \<Rightarrow> HTMLConstructionSite \<Rightarrow> HTMLConstructionSite option" where
  "generateImpliedEndTagsWithExclusion tagName =
     on_openElements (pop_loop (\<lambda>i. Some (\<not> (hasImpliedEndTag i \<and> \<not> matchesHTMLTag i tagName))))"

definition generateImpliedEndTags :: "HTMLConstructionSite \<Rightarrow> HTMLConstructionSite option" where
  "generateImpliedEndTags = on_openElements (pop_loop (\<lambda>i. Some (\<not> hasImpliedEndTag i)))"

end
