(* ===== verification/DOM_Laws.thy ===== *)
theory DOM_Laws
  imports DOM_Tree
begin

text \<open>
  Laws of the DOM operations of \<^theory_text>\<open>DOM_Tree\<close>. A store represents a function from nodes to their lists of children
  (\<open>dom_rep\<close>, built from segments of linked siblings); each pointer operation returns, and refines an operation on such lists
  (\<open>append_refines\<close>, \<open>insert_refines\<close>, \<open>remove_refines\<close>, \<open>create_refines\<close>, \<open>takeAll_refines\<close>). A store that represents a forest
  (\<open>dom_tree\<close>) stays one as long as no node is put below itself.
\<close>

section \<open>Children as lists\<close>

abbreviation hd_or :: "nat option \<Rightarrow> nat list \<Rightarrow> nat option" where
  "hd_or d cs \<equiv> (case cs of [] \<Rightarrow> d | c # _ \<Rightarrow> Some c)"

abbreviation last_or :: "nat option \<Rightarrow> nat list \<Rightarrow> nat option" where
  "last_or d cs \<equiv> (if cs = [] then d else Some (last cs))"

text \<open>A segment of siblings below \<open>p\<close>, between the siblings \<open>before\<close> and \<open>after\<close>.\<close>

fun segment :: "DOM \<Rightarrow> nat \<Rightarrow> nat option \<Rightarrow> nat list \<Rightarrow> nat option \<Rightarrow> bool" where
  "segment D p before [] after = True"
| "segment D p before (c # cs) after \<longleftrightarrow> (case dom_node D c of None \<Rightarrow> False
     | Some n \<Rightarrow> dn_parent n = Some p \<and> dn_previous n = before \<and> dn_next n = hd_or after cs \<and> segment D p (Some c) cs after)"

lemma segment_append: "segment D p b (xs @ ys) a \<longleftrightarrow> segment D p b xs (hd_or a ys) \<and> segment D p (last_or b xs) ys a"
  by (induction xs arbitrary: b) (auto split: option.splits list.splits)

text \<open>Changes elsewhere leave a segment alone.\<close>

definition same_siblings :: "DOM \<Rightarrow> DOM \<Rightarrow> nat \<Rightarrow> bool" where
  "same_siblings D D' c \<longleftrightarrow> map_option (\<lambda>n. (dn_parent n, dn_previous n, dn_next n)) (dom_node D c) =
     map_option (\<lambda>n. (dn_parent n, dn_previous n, dn_next n)) (dom_node D' c)"

lemma segment_frame: "(\<And>c. c \<in> set cs \<Longrightarrow> same_siblings D D' c) \<Longrightarrow> segment D p b cs a = segment D' p b cs a"
proof (induction cs arbitrary: b)
  case (Cons c cs)
  have "same_siblings D D' c" using Cons.prems by simp
  moreover have "segment D p b' cs a = segment D' p b' cs a" for b' by (rule Cons.IH) (use Cons.prems in auto)
  ultimately show ?case by (auto simp: same_siblings_def split: option.splits)
qed simp

lemma segment_parent: "segment D p b cs a \<Longrightarrow> c \<in> set cs \<Longrightarrow> \<exists>n. dom_node D c = Some n \<and> dn_parent n = Some p"
  by (induction cs arbitrary: b) (auto split: option.splits)

definition kids :: "DOM \<Rightarrow> nat \<Rightarrow> nat list \<Rightarrow> bool" where
  "kids D p cs \<longleftrightarrow> distinct cs \<and> segment D p None cs None \<and> (case dom_node D p of None \<Rightarrow> cs = []
     | Some n \<Rightarrow> dn_firstChild n = hd_or None cs \<and> dn_lastChild n = last_or None cs)"

text \<open>The abstraction: a function from nodes to their children.\<close>

definition dom_rep :: "DOM \<Rightarrow> (nat \<Rightarrow> nat list) \<Rightarrow> bool" where
  "dom_rep D T \<longleftrightarrow> (\<forall>p. kids D p (T p)) \<and> (\<forall>c n. dom_node D c = Some n \<longrightarrow>
     (case dn_parent n of None \<Rightarrow> dn_previous n = None \<and> dn_next n = None | Some p \<Rightarrow> c \<in> set (T p))) \<and>
     (\<forall>a \<ge> dom_fresh D. dom_node D a = None)"

lemma rep_kids: "dom_rep D T \<Longrightarrow> kids D p (T p)"
  by (simp add: dom_rep_def)

lemma rep_parent: "dom_rep D T \<Longrightarrow> c \<in> set (T p) \<Longrightarrow> \<exists>n. dom_node D c = Some n \<and> dn_parent n = Some p"
  using segment_parent[of D p None "T p" None c] by (auto simp: dom_rep_def kids_def)

lemma rep_placed: "dom_rep D T \<Longrightarrow> dom_node D c = Some n \<Longrightarrow>
   case dn_parent n of None \<Rightarrow> dn_previous n = None \<and> dn_next n = None | Some p \<Rightarrow> c \<in> set (T p)"
  unfolding dom_rep_def by blast

lemma rep_child: "dom_rep D T \<Longrightarrow> dom_node D c = Some n \<Longrightarrow> dn_parent n = Some p \<longleftrightarrow> c \<in> set (T p)"
  using rep_parent[of D T c p] rep_placed[of D T c n] by (cases "dn_parent n") auto

lemma rep_disjoint: "dom_rep D T \<Longrightarrow> c \<in> set (T p) \<Longrightarrow> c \<in> set (T q) \<Longrightarrow> p = q"
  using rep_parent[of D T c p] rep_parent[of D T c q] by auto

lemma rep_node: "dom_rep D T \<Longrightarrow> c \<in> set (T p) \<Longrightarrow> dom_node D p \<noteq> None"
  using rep_kids[of D T p] by (auto simp: kids_def split: option.splits)

text \<open>To show that a store represents a function that differs at one node only.\<close>

lemma dom_repI:
  assumes rep: "dom_rep D T" and p: "kids D' p cs"
    and dom: "\<And>a. dom_node D' a = None \<longleftrightarrow> dom_node D a = None" and fresh: "dom_fresh D' = dom_fresh D"
    and child: "\<And>q n n'. q \<noteq> p \<Longrightarrow> dom_node D q = Some n \<Longrightarrow> dom_node D' q = Some n' \<Longrightarrow> dn_firstChild n' = dn_firstChild n \<and> dn_lastChild n' = dn_lastChild n"
    and sib: "\<And>c. c \<notin> set (T p) \<union> set cs \<Longrightarrow> same_siblings D D' c"
    and out: "\<And>c n. c \<in> set (T p) - set cs \<Longrightarrow> dom_node D' c = Some n \<Longrightarrow> dn_parent n = None \<and> dn_previous n = None \<and> dn_next n = None"
    and inn: "\<And>c n. c \<in> set cs - set (T p) \<Longrightarrow> dom_node D c = Some n \<Longrightarrow> dn_parent n = None"
  shows "dom_rep D' (T(p := cs))"
  unfolding dom_rep_def
proof (intro conjI allI impI)
  fix q
  show "kids D' q ((T(p := cs)) q)"
  proof (cases "q = p")
    case True
    with p show ?thesis by simp
  next
    case False
    have k: "kids D q (T q)" by (rule rep_kids[OF rep])
    have "same_siblings D D' c" if "c \<in> set (T q)" for c
    proof (rule sib)
      have "c \<notin> set (T p)" using rep_disjoint[OF rep that] False by blast
      moreover have "c \<notin> set cs" using inn[of c] rep_parent[OF rep that] calculation by auto
      ultimately show "c \<notin> set (T p) \<union> set cs" by blast
    qed
    then have "segment D' q None (T q) None" using k segment_frame[of "T q" D D' q None None] by (simp add: kids_def)
    note seg = this
    show ?thesis
    proof (cases "dom_node D q")
      case None
      with k seg False dom[of q] show ?thesis by (simp add: kids_def)
    next
      case (Some n)
      then obtain n' where "dom_node D' q = Some n'" using dom[of q] by auto
      with Some k seg False child[OF False Some] show ?thesis by (simp add: kids_def)
    qed
  qed
next
  fix c n assume n: "dom_node D' c = Some n"
  then obtain m where m: "dom_node D c = Some m" using dom[of c] by auto
  show "case dn_parent n of None \<Rightarrow> dn_previous n = None \<and> dn_next n = None | Some q \<Rightarrow> c \<in> set ((T(p := cs)) q)"
  proof (cases "c \<in> set (T p) \<union> set cs")
    case False
    then have eq: "dn_parent n = dn_parent m" "dn_previous n = dn_previous m" "dn_next n = dn_next m"
      using sib[OF False] n m by (auto simp: same_siblings_def)
    have "case dn_parent m of None \<Rightarrow> dn_previous m = None \<and> dn_next m = None | Some q \<Rightarrow> c \<in> set (T q)"
      using rep m by (simp add: dom_rep_def)
    with False show ?thesis unfolding eq by (auto split: option.splits)
  next
    case True
    show ?thesis
    proof (cases "c \<in> set cs")
      case True
      then have "dn_parent n = Some p" using p segment_parent[of D' p None cs None c] n by (auto simp: kids_def)
      with True show ?thesis by simp
    next
      case False
      with True out[of c n] n show ?thesis by auto
    qed
  qed
next
  fix a assume "dom_fresh D' \<le> a"
  then show "dom_node D' a = None" using rep dom[of a] fresh by (simp add: dom_rep_def)
qed

section \<open>The operations refine operations on lists\<close>

lemma on_node_Some: "dom_node D a = Some n \<Longrightarrow> on_node a f D = Some (D\<lparr>dom_node := (dom_node D)(a \<mapsto> f n)\<rparr>)"
  by (simp add: on_node_def)

lemmas setter_defs = setParent_def setPreviousSibling_def setNextSibling_def setFirstChild_def setLastChild_def

definition same_kinds :: "DOM \<Rightarrow> DOM \<Rightarrow> bool" where
  "same_kinds D D' \<longleftrightarrow> (\<forall>a. map_option dn_kind (dom_node D a) = map_option dn_kind (dom_node D' a)) \<and> dom_fresh D' = dom_fresh D"

lemma same_kinds_dom: "same_kinds D D' \<Longrightarrow> dom_node D' a = None \<longleftrightarrow> dom_node D a = None"
  by (metis same_kinds_def option.map_disc_iff)

lemma segment_untouched:
  assumes "segment D p b cs a" "\<And>c. c \<in> set cs \<Longrightarrow> dom_node D' c = dom_node D c"
  shows "segment D' p b cs a"
  using assms segment_frame[of cs D D' p b a] by (simp add: same_siblings_def)

lemma append_refines:
  assumes rep: "dom_rep D T" and p: "dom_node D p = Some pn" "p \<notin> set (T p)" and c: "dom_node D c = Some cn" "dn_parent cn = None" "c \<noteq> p"
    and k: "dn_kind cn \<noteq> FragmentKind"
  shows "\<exists>D'. parserAppendChild p c D = Some D' \<and> dom_rep D' (T(p := T p @ [c])) \<and> same_kinds D D'"
proof -
  have kids: "kids D p (T p)" by (rule rep_kids[OF rep])
  have ct: "c \<notin> set (T p)" using rep_child[OF rep c(1)] c(2) by simp
  have orphan: "dn_previous cn = None" "dn_next cn = None" using rep_placed[OF rep c(1)] c(2) by simp_all
  show ?thesis
  proof (cases "T p" rule: rev_cases)
    case Nil
    let ?D = "D\<lparr>dom_node := (dom_node D)(c \<mapsto> cn\<lparr>dn_parent := Some p\<rparr>, p \<mapsto> pn\<lparr>dn_firstChild := Some c, dn_lastChild := Some c\<rparr>)\<rparr>"
    have "dn_lastChild pn = None" using kids p(1) Nil by (simp add: kids_def)
    then have "parserAppendChild p c D = Some ?D"
      using p c k by (simp add: parserAppendChild_def appendChildToContainer_def parentNode_def node_kind_def lastChild_def setter_defs on_node_def fun_upd_twist)
    moreover have "dom_rep ?D (T(p := T p @ [c]))"
    proof (rule dom_repI[OF rep])
      show "kids ?D p (T p @ [c])" using Nil c(3) orphan by (simp add: kids_def)
    qed (use Nil p c in \<open>auto simp: same_siblings_def split: if_splits\<close>)
    moreover have "same_kinds D ?D" using p c by (simp add: same_kinds_def)
    ultimately show ?thesis by blast
  next
    case (snoc xs l)
    have l: "l \<noteq> p" "l \<noteq> c" "l \<notin> set xs" "p \<notin> set xs" "c \<notin> set xs" using snoc p(2) ct kids by (auto simp: kids_def)
    have seg: "segment D p None xs (Some l)" "segment D p (last_or None xs) [l] None"
      using kids snoc by (simp_all add: kids_def segment_append)
    then obtain ln where ln: "dom_node D l = Some ln" "dn_parent ln = Some p" "dn_previous ln = last_or None xs" "dn_next ln = None"
      by (auto split: option.splits)
    let ?D = "D\<lparr>dom_node := (dom_node D)(c \<mapsto> cn\<lparr>dn_parent := Some p, dn_previous := Some l\<rparr>, l \<mapsto> ln\<lparr>dn_next := Some c\<rparr>, p \<mapsto> pn\<lparr>dn_lastChild := Some c\<rparr>)\<rparr>"
    have last: "dn_lastChild pn = Some l" "dn_firstChild pn = hd_or None (T p)" using kids p(1) snoc by (simp_all add: kids_def)
    then have "parserAppendChild p c D = Some ?D"
      using p c k l ln by (simp add: parserAppendChild_def appendChildToContainer_def parentNode_def node_kind_def lastChild_def setter_defs on_node_def)
    moreover have "dom_rep ?D (T(p := T p @ [c]))"
    proof (rule dom_repI[OF rep])
      have "segment ?D p None xs (Some l)" by (rule segment_untouched[OF seg(1)]) (use l in auto)
      then have "segment ?D p None (xs @ [l, c]) None"
        using l c(3) ln orphan by (simp add: segment_append)
      then show "kids ?D p (T p @ [c])" using snoc kids ct last by (simp add: kids_def) (cases xs; simp)
    qed (use snoc p c l ln in \<open>auto simp: same_siblings_def split: if_splits\<close>)
    moreover have "same_kinds D ?D" using p c l ln by (simp add: same_kinds_def)
    ultimately show ?thesis by blast
  qed
qed

lemma insert_refines:
  assumes rep: "dom_rep D T" and T: "T p = xs @ x # ys" "p \<notin> set (T p)" and c: "dom_node D c = Some cn" "dn_parent cn = None" "c \<noteq> p"
    and k: "dn_kind cn \<noteq> FragmentKind"
  shows "\<exists>D'. parserInsertBefore p c x D = Some D' \<and> dom_rep D' (T(p := xs @ c # x # ys)) \<and> same_kinds D D'"
proof -
  have kids: "kids D p (T p)" by (rule rep_kids[OF rep])
  then obtain pn where pn: "dom_node D p = Some pn" "dn_firstChild pn = hd_or None (T p)" "dn_lastChild pn = last_or None (T p)"
    using T(1) by (auto simp: kids_def split: option.splits)
  have ct: "c \<notin> set (T p)" using rep_child[OF rep c(1)] c(2) by simp
  have orphan: "dn_previous cn = None" "dn_next cn = None" using rep_placed[OF rep c(1)] c(2) by simp_all
  have d: "x \<noteq> p" "c \<noteq> x" "x \<notin> set xs" "x \<notin> set ys" "p \<notin> set xs" "p \<notin> set ys" "c \<notin> set xs" "c \<notin> set ys" "distinct xs" "distinct ys" "set xs \<inter> set ys = {}"
    using T ct kids by (auto simp: kids_def)
  have seg: "segment D p None xs (Some x)" "segment D p (last_or None xs) [x] (hd_or None ys)" "segment D p (Some x) ys None"
    using kids T(1) by (auto simp: kids_def segment_append split: option.splits)
  then obtain xn where xn: "dom_node D x = Some xn" "dn_parent xn = Some p" "dn_previous xn = last_or None xs" "dn_next xn = hd_or None ys"
    by (auto split: option.splits)
  show ?thesis
  proof (cases xs rule: rev_cases)
    case Nil
    let ?D = "D\<lparr>dom_node := (dom_node D)(x \<mapsto> xn\<lparr>dn_previous := Some c\<rparr>, p \<mapsto> pn\<lparr>dn_firstChild := Some c\<rparr>,
      c \<mapsto> cn\<lparr>dn_parent := Some p, dn_previous := None, dn_next := Some x\<rparr>)\<rparr>"
    have "parserInsertBefore p c x D = Some ?D"
      using Nil pn c k d xn orphan T(1)
      by (simp add: parserInsertBefore_def insertBeforeCommon_def parentNode_def node_kind_def previousSibling_def setter_defs on_node_def)
    moreover have "dom_rep ?D (T(p := xs @ c # x # ys))"
    proof (rule dom_repI[OF rep])
      have "segment ?D p (Some x) ys None" by (rule segment_untouched[OF seg(3)]) (use d in auto)
      then show "kids ?D p (xs @ c # x # ys)" using Nil d c(3) xn pn T(1) by (simp add: kids_def)
    qed (use Nil pn c d xn T in \<open>auto simp: same_siblings_def split: if_splits\<close>)
    moreover have "same_kinds D ?D" using pn c d xn by (simp add: same_kinds_def)
    ultimately show ?thesis by blast
  next
    case (snoc zs l)
    have l: "l \<noteq> p" "l \<noteq> c" "l \<noteq> x" "l \<notin> set zs" "l \<notin> set ys" using snoc d by auto
    have segl: "segment D p None zs (Some l)" "segment D p (last_or None zs) [l] (Some x)"
      using seg(1) snoc by (simp_all add: segment_append)
    then obtain ln where ln: "dom_node D l = Some ln" "dn_parent ln = Some p" "dn_previous ln = last_or None zs" "dn_next ln = Some x"
      by (auto split: option.splits)
    have first: "dn_firstChild pn \<noteq> Some x" using pn(2) T(1) snoc d by (cases zs) auto
    have lastc: "dn_lastChild pn \<noteq> Some l" using pn(3) T(1) l by (auto simp: last_append)
    let ?D = "D\<lparr>dom_node := (dom_node D)(x \<mapsto> xn\<lparr>dn_previous := Some c\<rparr>, l \<mapsto> ln\<lparr>dn_next := Some c\<rparr>,
      c \<mapsto> cn\<lparr>dn_parent := Some p, dn_previous := Some l, dn_next := Some x\<rparr>)\<rparr>"
    have "parserInsertBefore p c x D = Some ?D"
      using snoc pn(1) first lastc c k d xn l ln orphan
      by (simp add: parserInsertBefore_def insertBeforeCommon_def parentNode_def node_kind_def previousSibling_def setter_defs on_node_def)
    moreover have "dom_rep ?D (T(p := xs @ c # x # ys))"
    proof (rule dom_repI[OF rep])
      have "segment ?D p (Some x) ys None" by (rule segment_untouched[OF seg(3)]) (use d l in auto)
      moreover have "segment ?D p None zs (Some l)" by (rule segment_untouched[OF segl(1)]) (use d l snoc in auto)
      ultimately have "segment ?D p None (zs @ l # c # x # ys) None" using d l c(3) xn ln by (simp add: segment_append)
      moreover have "distinct (zs @ l # c # x # ys)" using d l snoc by auto
      ultimately show "kids ?D p (xs @ c # x # ys)" using snoc pn d l c(3) T(1) by (simp add: kids_def) (cases zs; simp)
    qed (use snoc pn c d l xn ln T in \<open>auto simp: same_siblings_def split: if_splits\<close>)
    moreover have "same_kinds D ?D" using pn c d xn l ln by (simp add: same_kinds_def)
    ultimately show ?thesis by blast
  qed
qed

text \<open>Removing a child changes these pointers of a node \<open>a\<close>.\<close>

definition unlinked :: "nat \<Rightarrow> nat list \<Rightarrow> nat \<Rightarrow> nat list \<Rightarrow> nat \<Rightarrow> DOMNode \<Rightarrow> DOMNode" where
  "unlinked p xs x ys a n = n\<lparr>dn_parent := if a = x then None else dn_parent n,
     dn_previous := if a = x then None else if Some a = hd_or None ys then last_or None xs else dn_previous n,
     dn_next := if a = x then None else if Some a = last_or None xs then hd_or None ys else dn_next n,
     dn_firstChild := if a = p \<and> dn_firstChild n = Some x then hd_or None ys else dn_firstChild n,
     dn_lastChild := if a = p \<and> dn_lastChild n = Some x then last_or None xs else dn_lastChild n\<rparr>"

definition upd :: "(nat \<Rightarrow> DOMNode \<Rightarrow> DOMNode) \<Rightarrow> DOM \<Rightarrow> DOM" where
  "upd g D = D\<lparr>dom_node := \<lambda>a. map_option (g a) (dom_node D a)\<rparr>"

lemma upd_id: "D = upd (\<lambda>a n. n) D"
  by (simp add: upd_def option.map_ident)

lemma upd_node: "dom_node (upd g D) a = map_option (g a) (dom_node D a)"
  by (simp add: upd_def)

lemma on_node_upd: "dom_node D b \<noteq> None \<Longrightarrow> on_node b f (upd g D) = Some (upd (\<lambda>a n. if a = b then f (g a n) else g a n) D)"
  by (auto simp: on_node_def upd_def fun_eq_iff intro!: DOM.equality)

lemma upd_eqI: "(\<And>a n. dom_node D a = Some n \<Longrightarrow> g a n = h a n) \<Longrightarrow> upd g D = upd h D"
  unfolding upd_def by (rule arg_cong[of _ _ "\<lambda>N. D\<lparr>dom_node := N\<rparr>"]) (auto simp: fun_eq_iff map_option_case split: option.splits)

lemma remove_pointers:
  assumes rep: "dom_rep D T" and T: "T p = xs @ x # ys" "p \<notin> set (T p)" and k: "node_kind x D \<noteq> Some FragmentKind"
  shows "parserRemoveChild p x D = Some (upd (unlinked p xs x ys) D)"
proof -
  have kids: "kids D p (T p)" by (rule rep_kids[OF rep])
  obtain pn where pn: "dom_node D p = Some pn" "dn_firstChild pn = hd_or None (T p)" "dn_lastChild pn = last_or None (T p)"
    using kids T(1) by (auto simp: kids_def split: option.splits)
  have seg: "segment D p (last_or None xs) [x] (hd_or None ys)"
    using kids T(1) by (auto simp: kids_def segment_append split: option.splits)
  then obtain xn where xn: "dom_node D x = Some xn" "dn_parent xn = Some p" "dn_previous xn = last_or None xs" "dn_next xn = hd_or None ys"
    by (auto split: option.splits)
  have d: "x \<noteq> p" "x \<notin> set xs" "x \<notin> set ys" "p \<notin> set xs" "p \<notin> set ys" using T kids by (auto simp: kids_def)
  have ex: "dom_node D a \<noteq> None" if "a \<in> set xs \<union> set ys" for a using rep_parent[OF rep, of a p] T(1) that by auto
  have fl: "dn_firstChild pn = Some x \<longleftrightarrow> xs = []" "dn_lastChild pn = Some x \<longleftrightarrow> ys = []"
    using pn(2,3) T(1) d by (cases xs; auto simp: last_append split: if_splits)+
  have exs: "dom_node D x \<noteq> None" "dom_node D p \<noteq> None" using xn pn by simp_all
  have "parserRemoveChild p x D = removeBetween p (last_or None xs) (hd_or None ys) x (upd (\<lambda>a n. n) D)"
    using xn k upd_id[of D] by (simp add: parserRemoveChild_def node_kind_def)
  also have "\<dots> = Some (upd (unlinked p xs x ys) D)"
  proof (cases xs rule: rev_cases)
    case Nil
    show ?thesis
    proof (cases ys)
      case ys: Nil
      show ?thesis using pn(1) xn d exs fl Nil ys
        by (simp add: removeBetween_def parentNode_def setter_defs on_node_upd upd_node) (rule upd_eqI, auto simp: unlinked_def)
    next
      case (Cons y ws)
      then have "dom_node D y \<noteq> None" "y \<noteq> p" "y \<noteq> x" using ex d by auto
      then show ?thesis using pn(1) xn d exs fl Nil Cons
        by (simp add: removeBetween_def parentNode_def setter_defs on_node_upd upd_node) (rule upd_eqI, auto simp: unlinked_def)
    qed
  next
    case (snoc zs l)
    then have l: "dom_node D l \<noteq> None" "l \<noteq> p" "l \<noteq> x" using ex d by auto
    show ?thesis
    proof (cases ys)
      case ys: Nil
      show ?thesis using pn(1) xn d exs fl snoc ys l
        by (simp add: removeBetween_def parentNode_def setter_defs on_node_upd upd_node) (rule upd_eqI, auto simp: unlinked_def)
    next
      case (Cons y ws)
      then have "dom_node D y \<noteq> None" "y \<noteq> p" "y \<noteq> x" using ex d by auto
      then show ?thesis using pn(1) xn d exs fl snoc Cons l
        by (simp add: removeBetween_def parentNode_def setter_defs on_node_upd upd_node) (rule upd_eqI, auto simp: unlinked_def)
    qed
  qed
  finally show ?thesis .
qed

lemma remove_refines:
  assumes rep: "dom_rep D T" and T: "T p = xs @ x # ys" "p \<notin> set (T p)" and k: "node_kind x D \<noteq> Some FragmentKind"
  shows "\<exists>D'. parserRemoveChild p x D = Some D' \<and> dom_rep D' (T(p := xs @ ys)) \<and> same_kinds D D'"
proof -
  let ?D = "upd (unlinked p xs x ys) D"
  have kids: "kids D p (T p)" by (rule rep_kids[OF rep])
  have d: "x \<noteq> p" "x \<notin> set xs" "x \<notin> set ys" "p \<notin> set xs" "p \<notin> set ys" "set xs \<inter> set ys = {}" "distinct xs" "distinct ys"
    using T kids by (auto simp: kids_def)
  obtain pn where pn: "dom_node D p = Some pn" "dn_firstChild pn = hd_or None (T p)" "dn_lastChild pn = last_or None (T p)"
    using kids T(1) by (auto simp: kids_def split: option.splits)
  have seg: "segment D p None xs (Some x)" "segment D p (Some x) ys None"
    using kids T(1) by (auto simp: kids_def segment_append split: option.splits)
  have frame: "segment ?D p b cs a" if "segment D p b cs a" "x \<notin> set cs" "hd_or None ys \<notin> Some ` set cs" "last_or None xs \<notin> Some ` set cs" for b cs a
  proof -
    have "same_siblings D ?D c" if "c \<in> set cs" for c
      using that \<open>x \<notin> set cs\<close> \<open>hd_or None ys \<notin> Some ` set cs\<close> \<open>last_or None xs \<notin> Some ` set cs\<close>
      by (cases "dom_node D c") (auto simp: same_siblings_def upd_node unlinked_def image_iff)
    with that(1) segment_frame[of cs D ?D p b a] show ?thesis by blast
  qed
  have up: "segment ?D p None xs (hd_or None ys)"
  proof (cases xs rule: rev_cases)
    case (snoc zs l)
    have "segment D p None zs (Some l)" "segment D p (last_or None zs) [l] (Some x)" using seg(1) snoc by (simp_all add: segment_append)
    moreover have "segment ?D p None zs (Some l)"
      by (rule frame[OF calculation(1)]) (use d snoc in \<open>auto split: list.splits\<close>)
    moreover have "l \<noteq> x" "Some l \<noteq> hd_or None ys" using d snoc by (auto split: list.splits)
    ultimately show ?thesis using snoc by (auto simp: segment_append upd_node unlinked_def split: option.splits)
  qed simp
  have down: "segment ?D p (last_or None xs) ys None"
  proof (cases ys)
    case (Cons y ws)
    have lx: "xs \<noteq> [] \<Longrightarrow> last xs \<notin> set ws" using d(6) Cons by (metis disjoint_iff last_in_set list.set_intros(2))
    have "segment D p (Some y) ws None" using seg(2) Cons by (auto split: option.splits)
    then have "segment ?D p (Some y) ws None" by (rule frame) (use d Cons lx in \<open>auto split: if_splits\<close>)
    moreover have "y \<noteq> x" "Some y \<noteq> last_or None xs" using d Cons by auto
    ultimately show ?thesis using Cons d seg(2) by (auto simp: upd_node unlinked_def split: option.splits)
  qed simp
  have "dom_rep ?D (T(p := xs @ ys))"
  proof (rule dom_repI[OF rep])
    have "segment ?D p None (xs @ ys) None" using up down by (simp add: segment_append)
    moreover have "dn_firstChild (unlinked p xs x ys p pn) = hd_or None (xs @ ys)"
      using pn(2) T(1) d(2) by (cases xs) (auto simp: unlinked_def)
    moreover have "dn_lastChild (unlinked p xs x ys p pn) = last_or None (xs @ ys)"
      using pn(3) T(1) d(3) by (cases ys rule: rev_cases) (auto simp: unlinked_def)
    ultimately show "kids ?D p (xs @ ys)" using d pn(1) by (simp add: kids_def upd_node)
  next
    fix c assume "c \<notin> set (T p) \<union> set (xs @ ys)"
    then have "c \<noteq> x" "Some c \<noteq> hd_or None ys" "Some c \<noteq> last_or None xs" using T(1) by (auto split: list.splits)
    then show "same_siblings D ?D c" by (cases "dom_node D c") (simp_all add: same_siblings_def upd_node unlinked_def)
  next
    fix c n assume c: "c \<in> set (T p) - set (xs @ ys)" "dom_node ?D c = Some n"
    then have "c = x" using T(1) by auto
    with c(2) show "dn_parent n = None \<and> dn_previous n = None \<and> dn_next n = None" by (auto simp: upd_node unlinked_def)
  next
    fix c n assume "c \<in> set (xs @ ys) - set (T p)" "dom_node D c = Some n"
    then show "dn_parent n = None" using T(1) by auto
  next
    fix q n n' assume "q \<noteq> p" "dom_node D q = Some n" "dom_node ?D q = Some n'"
    then show "dn_firstChild n' = dn_firstChild n \<and> dn_lastChild n' = dn_lastChild n" by (auto simp: upd_node unlinked_def)
  qed (simp_all add: upd_def)
  moreover have "same_kinds D ?D" by (simp add: same_kinds_def upd_def unlinked_def option.map_comp comp_def)
  ultimately show ?thesis using remove_pointers[OF rep T k] by blast
qed

lemma create_refines:
  assumes rep: "dom_rep D T" and c: "createNode k D = (a, D')"
  shows "dom_rep D' T \<and> T a = [] \<and> a \<notin> set (T p) \<and> dom_node D a = None \<and> (\<exists>n. dom_node D' a = Some n \<and> dn_kind n = k \<and> dn_parent n = None)"
proof -
  have a: "a = dom_fresh D" "dom_node D a = None" using c rep by (simp_all add: createNode_def dom_rep_def)
  have ta: "T a = []" using rep_kids[OF rep, of a] a(2) by (simp add: kids_def)
  have nin: "a \<notin> set (T q)" for q using rep_parent[OF rep, of a q] a(2) by auto
  have D': "D' = D\<lparr>dom_node := (dom_node D)(a \<mapsto> \<lparr>dn_kind = k, dn_parent = None, dn_previous = None, dn_next = None, dn_firstChild = None, dn_lastChild = None\<rparr>),
    dom_fresh := a + 1\<rparr>" using c a by (simp add: createNode_def)
  have "kids D' q (T q)" for q
  proof -
    have k: "kids D q (T q)" by (rule rep_kids[OF rep])
    have "segment D' q None (T q) None"
      by (rule segment_untouched[of D]) (use k nin[of q] in \<open>auto simp: kids_def D'\<close>)
    with k ta a(2) show ?thesis by (cases "q = a") (simp_all add: kids_def D')
  qed
  moreover have "case dn_parent n of None \<Rightarrow> dn_previous n = None \<and> dn_next n = None | Some p \<Rightarrow> x \<in> set (T p)" if "dom_node D' x = Some n" for x n
    using that rep_placed[OF rep, of x n] by (auto simp: D' split: if_splits)
  moreover have "dom_node D' x = None" if "dom_fresh D' \<le> x" for x using that rep a(1) by (simp add: D' dom_rep_def)
  ultimately have "dom_rep D' T" unfolding dom_rep_def by blast
  then show ?thesis using ta nin[of p] a(2) by (simp add: D')
qed

lemma getChildNodes_loop_spec: "segment D p b cs None \<Longrightarrow> getChildNodes_loop (hd_or None cs) D acc = Some (acc @ cs)"
proof (induction cs arbitrary: b acc)
  case Nil
  then show ?case by (subst getChildNodes_loop.simps) simp
next
  case (Cons c cs)
  then show ?case by (subst getChildNodes_loop.simps) (auto simp: nextSibling_def split: option.splits)
qed

definition cutNode :: "nat \<Rightarrow> nat list \<Rightarrow> nat \<Rightarrow> DOMNode \<Rightarrow> DOMNode" where
  "cutNode p cs a n = (if a \<in> set cs then n\<lparr>dn_parent := None, dn_previous := None, dn_next := None\<rparr>
     else if a = p \<and> cs \<noteq> [] then n\<lparr>dn_firstChild := None\<rparr> else n)"

lemma upd_upd: "upd g (upd f D) = upd (\<lambda>a n. g a (f a n)) D"
  by (simp add: upd_def option.map_comp comp_def)

lemma cut_step:
  assumes seg: "segment D p None (c # cs) None" and p: "dom_node D p \<noteq> None" "p \<notin> set (c # cs)" and dc: "distinct (c # cs)"
  shows "\<exists>g. cutChildren_loop p (Some c) D = cutChildren_loop p (hd_or None cs) (upd g D) \<and>
    g = (\<lambda>a n. if a = c then n\<lparr>dn_next := None, dn_parent := None\<rparr> else if a = p then n\<lparr>dn_firstChild := hd_or None cs\<rparr>
      else if Some a = hd_or None cs then n\<lparr>dn_previous := None\<rparr> else n) \<and> segment (upd g D) p None cs None"
proof -
  let ?g = "\<lambda>a n. if a = c then n\<lparr>dn_next := None, dn_parent := None\<rparr> else if a = p then n\<lparr>dn_firstChild := hd_or None cs\<rparr>
      else if Some a = hd_or None cs then n\<lparr>dn_previous := None\<rparr> else n"
  obtain cn where cn: "dom_node D c = Some cn" "dn_next cn = hd_or None cs" and rest: "segment D p (Some c) cs None"
    using seg by (auto split: option.splits)
  have step: "cutChildren_loop p (Some c) (upd (\<lambda>a n. n) D) = cutChildren_loop p (hd_or None cs) (upd ?g D)"
  proof (cases cs)
    case Nil
    have "upd (\<lambda>a n. if a = p then (if a = c then n\<lparr>dn_next := None, dn_parent := None\<rparr> else n)\<lparr>dn_firstChild := None\<rparr>
        else if a = c then n\<lparr>dn_next := None, dn_parent := None\<rparr> else n) D = upd ?g D"
      by (rule upd_eqI) (use p(2) Nil in auto)
    then show ?thesis using cn p Nil
      by (subst cutChildren_loop.simps) (simp add: nextSibling_def setter_defs on_node_upd upd_node if_distrib[of "\<lambda>n. n\<lparr>dn_parent := None\<rparr>"] cong: if_cong)
  next
    case (Cons d ds)
    have ex: "dom_node D d \<noteq> None" using rest Cons by (auto split: option.splits)
    have eq: "upd h D = upd ?g D" if "\<And>a n. h a n = ?g a n" for h by (rule upd_eqI) (rule that)
    show ?thesis using cn p Cons ex dc
      by (subst cutChildren_loop.simps) (simp add: nextSibling_def setter_defs on_node_upd upd_node, rule arg_cong[of _ _ "cutChildren_loop p (Some d)"], rule eq, auto)
  qed
  have "segment (upd ?g D) p None cs None"
  proof (cases cs)
    case (Cons d ds)
    have "segment D p (Some d) ds None" using rest Cons by (auto split: option.splits)
    moreover have "same_siblings D (upd ?g D) x" if "x \<in> set ds" for x
      using that p(2) dc Cons by (cases "dom_node D x") (auto simp: same_siblings_def upd_node)
    ultimately have "segment (upd ?g D) p (Some d) ds None" using segment_frame[of ds D "upd ?g D"] by blast
    with rest Cons p(2) dc show ?thesis by (auto simp: upd_node split: option.splits)
  qed simp
  with step show ?thesis using upd_id[of D] by auto
qed

lemma cut_spec:
  assumes "segment D p None cs None" "dom_node D p \<noteq> None" "p \<notin> set cs" "distinct cs"
  shows "cutChildren_loop p (hd_or None cs) D = Some (upd (cutNode p cs) D)"
  using assms
proof (induction cs arbitrary: D)
  case Nil
  have "upd (cutNode p []) D = upd (\<lambda>a n. n) D" by (rule upd_eqI) (simp add: cutNode_def)
  then show ?case using upd_id[of D] by (subst cutChildren_loop.simps) simp
next
  case (Cons c cs)
  define g where "g = (\<lambda>a (n :: DOMNode). if a = c then n\<lparr>dn_next := None, dn_parent := None\<rparr> else if a = p then n\<lparr>dn_firstChild := hd_or None cs\<rparr>
      else if Some a = hd_or None cs then n\<lparr>dn_previous := None\<rparr> else n)"
  have s: "cutChildren_loop p (Some c) D = cutChildren_loop p (hd_or None cs) (upd g D)" "segment (upd g D) p None cs None"
    using cut_step[OF Cons.prems] by (simp_all add: g_def)
  have "cutChildren_loop p (hd_or None cs) (upd g D) = Some (upd (cutNode p cs) (upd g D))"
    by (rule Cons.IH[OF s(2)]) (use Cons.prems in \<open>auto simp: upd_node\<close>)
  moreover have "upd (cutNode p cs) (upd g D) = upd (cutNode p (c # cs)) D"
    unfolding upd_upd
  proof (rule upd_eqI)
    fix a n assume n: "dom_node D a = Some n"
    have "dn_previous n = None" if "a = c" using Cons.prems(1) n that by simp
    then show "cutNode p cs a (g a n) = cutNode p (c # cs) a n" using Cons.prems(3,4) by (cases cs) (auto simp: cutNode_def g_def)
  qed
  ultimately show ?case using s(1) by simp
qed

lemma removeDetached_refines:
  assumes rep: "dom_rep D T" and p: "dom_node D p \<noteq> None" "p \<notin> set (T p)"
  shows "\<exists>D'. removeDetachedChildren p D = Some D' \<and> dom_rep D' (T(p := [])) \<and> same_kinds D D' \<and>
    (\<forall>c \<in> set (T p). \<exists>n. dom_node D' c = Some n \<and> dn_parent n = None)"
proof -
  have kids: "kids D p (T p)" by (rule rep_kids[OF rep])
  obtain pn where pn: "dom_node D p = Some pn" using p(1) by auto
  have first: "dn_firstChild pn = hd_or None (T p)" using kids pn by (simp add: kids_def)
  let ?g = "\<lambda>a n. if a = p then (cutNode p (T p) a n)\<lparr>dn_lastChild := None\<rparr> else cutNode p (T p) a n"
  have "cutChildren_loop p (hd_or None (T p)) D = Some (upd (cutNode p (T p)) D)"
    by (rule cut_spec) (use kids p in \<open>simp_all add: kids_def\<close>)
  then have r: "removeDetachedChildren p D = Some (upd ?g D)"
    using pn first by (simp add: removeDetachedChildren_def firstChild_def setLastChild_def on_node_upd)
  have "dom_rep (upd ?g D) (T(p := []))"
  proof (rule dom_repI[OF rep])
    show "kids (upd ?g D) p []" using pn p(2) first by (simp add: kids_def upd_node cutNode_def)
  next
    fix c assume "c \<notin> set (T p) \<union> set []"
    then show "same_siblings D (upd ?g D) c" using p(2) by (cases "dom_node D c") (simp_all add: same_siblings_def upd_node cutNode_def)
  qed (use p(2) in \<open>auto simp: upd_node cutNode_def upd_def\<close>)
  moreover have "same_kinds D (upd ?g D)" by (auto simp: same_kinds_def upd_def cutNode_def option.map_comp comp_def intro!: option.map_cong0)
  moreover have "\<exists>n. dom_node (upd ?g D) c = Some n \<and> dn_parent n = None" if "c \<in> set (T p)" for c
    using rep_parent[OF rep that] that p(2) by (auto simp: upd_node cutNode_def)
  ultimately show ?thesis using r by blast
qed

lemma same_kinds_trans: "same_kinds A B \<Longrightarrow> same_kinds B C \<Longrightarrow> same_kinds A C"
  by (simp add: same_kinds_def)

lemma appendEach_refines:
  assumes "dom_rep D T" "dom_node D p \<noteq> None" "p \<notin> set (T p)" "p \<notin> set cs" "distinct cs"
    "\<forall>c \<in> set cs. \<exists>n. dom_node D c = Some n \<and> dn_parent n = None \<and> dn_kind n \<noteq> FragmentKind"
  shows "\<exists>D'. appendEach p cs D = Some D' \<and> dom_rep D' (T(p := T p @ cs)) \<and> same_kinds D D'"
  using assms
proof (induction cs arbitrary: D T)
  case Nil
  then show ?case by (simp add: same_kinds_def)
next
  case (Cons c cs)
  obtain pn where pn: "dom_node D p = Some pn" using Cons.prems(2) by auto
  obtain cn where cn: "dom_node D c = Some cn" "dn_parent cn = None" "dn_kind cn \<noteq> FragmentKind" using Cons.prems(6) by auto
  obtain D1 where D1: "parserAppendChild p c D = Some D1" "dom_rep D1 (T(p := T p @ [c]))" "same_kinds D D1"
    using append_refines[OF Cons.prems(1) pn Cons.prems(3) cn(1,2) _ cn(3)] Cons.prems(4) by auto
  have "\<exists>D'. appendEach p cs D1 = Some D' \<and> dom_rep D' ((T(p := T p @ [c]))(p := (T(p := T p @ [c])) p @ cs)) \<and> same_kinds D1 D'"
  proof (rule Cons.IH[OF D1(2)])
    show "dom_node D1 p \<noteq> None" using same_kinds_dom[OF D1(3), of p] pn by simp
    show "\<forall>x \<in> set cs. \<exists>n. dom_node D1 x = Some n \<and> dn_parent n = None \<and> dn_kind n \<noteq> FragmentKind"
    proof
      fix x assume x: "x \<in> set cs"
      obtain n where n: "dom_node D x = Some n" "dn_parent n = None" "dn_kind n \<noteq> FragmentKind" using Cons.prems(6) x by auto
      obtain n1 where n1: "dom_node D1 x = Some n1" using same_kinds_dom[OF D1(3), of x] n by auto
      have "dn_kind n1 = dn_kind n" using D1(3) n n1 by (metis (no_types, lifting) same_kinds_def option.simps(9) option.inject)
      moreover have "x \<notin> set ((T(p := T p @ [c])) q)" for q
        using rep_child[OF Cons.prems(1) n(1)] n(2) x Cons.prems(5) by auto
      then have "dn_parent n1 = None" using rep_placed[OF D1(2) n1] by (auto split: option.splits)
      ultimately show "\<exists>n. dom_node D1 x = Some n \<and> dn_parent n = None \<and> dn_kind n \<noteq> FragmentKind" using n1 n(3) by auto
    qed
  qed (use Cons.prems in auto)
  then obtain D' where D': "appendEach p cs D1 = Some D'" "dom_rep D' (T(p := T p @ c # cs))" "same_kinds D1 D'" by auto
  have "appendEach p (c # cs) D = Some D'" using D1(1) D'(1) by simp
  then show ?case using D'(2) same_kinds_trans[OF D1(3) D'(3)] by blast
qed

lemma takeAll_refines:
  assumes rep: "dom_rep D T" and nodes: "dom_node D p \<noteq> None" "dom_node D q \<noteq> None" and ne: "p \<noteq> q" "p \<notin> set (T p)" "p \<notin> set (T q)" "q \<notin> set (T q)"
    and kinds: "\<forall>c \<in> set (T q). node_kind c D \<noteq> Some FragmentKind"
  shows "\<exists>D'. takeAllChildrenFrom p q D = Some D' \<and> dom_rep D' (T(q := [], p := T p @ T q)) \<and> same_kinds D D'"
proof -
  have kids: "kids D q (T q)" by (rule rep_kids[OF rep])
  obtain qn where qn: "dom_node D q = Some qn" "dn_firstChild qn = hd_or None (T q)" using kids nodes(2) by (auto simp: kids_def)
  have g: "getChildNodes q D = Some (T q)"
    using getChildNodes_loop_spec[of D q None "T q" "[]"] kids qn by (simp add: getChildNodes_def firstChild_def kids_def)
  obtain D1 where D1: "removeDetachedChildren q D = Some D1" "dom_rep D1 (T(q := []))" "same_kinds D D1"
    "\<forall>c \<in> set (T q). \<exists>n. dom_node D1 c = Some n \<and> dn_parent n = None"
    using removeDetached_refines[OF rep nodes(2) ne(4)] by blast
  have "\<exists>D'. appendEach p (T q) D1 = Some D' \<and> dom_rep D' ((T(q := []))(p := (T(q := [])) p @ T q)) \<and> same_kinds D1 D'"
  proof (rule appendEach_refines[OF D1(2)])
    show "dom_node D1 p \<noteq> None" using same_kinds_dom[OF D1(3), of p] nodes(1) by simp
    show "\<forall>c \<in> set (T q). \<exists>n. dom_node D1 c = Some n \<and> dn_parent n = None \<and> dn_kind n \<noteq> FragmentKind"
    proof
      fix c assume c: "c \<in> set (T q)"
      then obtain n where n: "dom_node D1 c = Some n" "dn_parent n = None" using D1(4) by blast
      have "node_kind c D = node_kind c D1" using D1(3) by (simp add: node_kind_def same_kinds_def)
      then show "\<exists>n. dom_node D1 c = Some n \<and> dn_parent n = None \<and> dn_kind n \<noteq> FragmentKind" using n kinds c by (auto simp: node_kind_def)
    qed
  qed (use ne kids in \<open>auto simp: kids_def\<close>)
  then obtain D' where D': "appendEach p (T q) D1 = Some D'" "dom_rep D' (T(q := [], p := T p @ T q))" "same_kinds D1 D'" using ne(1) by auto
  show ?thesis by (rule exI[of _ D']) (use g D1(1) D' same_kinds_trans[OF D1(3) D'(3)] in \<open>simp add: takeAllChildrenFrom_def\<close>)
qed

section \<open>Forests\<close>

definition child_rel :: "(nat \<Rightarrow> nat list) \<Rightarrow> (nat \<times> nat) set" where
  "child_rel T = {(p, c). c \<in> set (T p)}"

text \<open>No node lies below itself: some rank grows from each node to its children.\<close>

definition forest :: "(nat \<Rightarrow> nat list) \<Rightarrow> bool" where
  "forest T \<longleftrightarrow> (\<exists>rank :: nat \<Rightarrow> nat. \<forall>p. \<forall>c \<in> set (T p). rank p < rank c)"

definition below :: "(nat \<Rightarrow> nat list) \<Rightarrow> nat \<Rightarrow> nat \<Rightarrow> bool" where
  "below T a b \<longleftrightarrow> (b, a) \<in> (child_rel T)\<^sup>*"

lemma forest_irrefl: "forest T \<Longrightarrow> p \<notin> set (T p)"
  by (auto simp: forest_def)

lemma forest_below: "forest T \<Longrightarrow> c \<in> set (T p) \<Longrightarrow> \<not> below T p c"
proof
  assume "forest T" and c: "c \<in> set (T p)" and b: "below T p c"
  then obtain rank :: "nat \<Rightarrow> nat" where r: "\<And>p c. c \<in> set (T p) \<Longrightarrow> rank p < rank c" by (auto simp: forest_def)
  have "rank c \<le> rank p" using b unfolding below_def
    by (induction rule: rtrancl_induct) (auto simp: child_rel_def dest!: r intro: order.trans less_imp_le)
  with r[OF c] show False by simp
qed

lemma forest_insert:
  assumes T: "forest T" and cs: "set cs = insert c (set (T p))" and nb: "\<not> below T p c"
    and root: "\<And>q. c \<notin> set (T q)" and one: "\<And>q r x. x \<in> set (T q) \<Longrightarrow> x \<in> set (T r) \<Longrightarrow> q = r"
  shows "forest (T(p := cs))"
proof -
  obtain rank :: "nat \<Rightarrow> nat" where r: "\<And>q x. x \<in> set (T q) \<Longrightarrow> rank q < rank x" using T by (auto simp: forest_def)
  define rank' where "rank' a = (if below T a c then rank a + rank p + 1 else rank a)" for a
  have "rank' q < rank' x" if x: "x \<in> set ((T(p := cs)) q)" for q x
  proof (cases "q = p \<and> x = c")
    case True
    moreover have "below T c c" by (simp add: below_def)
    ultimately show ?thesis using nb by (simp add: rank'_def)
  next
    case False
    then have xq: "x \<in> set (T q)" using x cs by (cases "q = p") auto
    then have "x \<noteq> c" using root by blast
    have "below T x c \<longleftrightarrow> below T q c"
    proof
      assume "below T q c"
      then show "below T x c" using xq unfolding below_def child_rel_def by (auto intro: rtrancl_into_rtrancl)
    next
      assume "below T x c"
      then obtain y where y: "(c, y) \<in> (child_rel T)\<^sup>*" "x \<in> set (T y)"
        using \<open>x \<noteq> c\<close> unfolding below_def by (cases rule: rtranclE) (simp_all add: child_rel_def)
      then show "below T q c" using one[OF xq y(2)] by (simp add: below_def)
    qed
    with r[OF xq] show ?thesis by (simp add: rank'_def)
  qed
  then show ?thesis unfolding forest_def by blast
qed

lemma forest_subset: "forest T \<Longrightarrow> (\<And>p. set (T' p) \<subseteq> set (T p)) \<Longrightarrow> forest T'"
  unfolding forest_def by blast

text \<open>A tree: a store that represents a forest.\<close>

definition dom_tree :: "DOM \<Rightarrow> (nat \<Rightarrow> nat list) \<Rightarrow> bool" where
  "dom_tree D T \<longleftrightarrow> dom_rep D T \<and> forest T"

lemma tree_append:
  assumes "dom_tree D T" "dom_node D p \<noteq> None" "node_kind c D = Some k" "k \<noteq> FragmentKind" "parentNode c D = Some None" "\<not> below T p c"
  shows "\<exists>D'. parserAppendChild p c D = Some D' \<and> dom_tree D' (T(p := T p @ [c])) \<and> same_kinds D D'"
proof -
  have rep: "dom_rep D T" and f: "forest T" using assms(1) by (simp_all add: dom_tree_def)
  obtain pn where pn: "dom_node D p = Some pn" using assms(2) by auto
  obtain cn where cn: "dom_node D c = Some cn" "dn_parent cn = None" "dn_kind cn \<noteq> FragmentKind"
    using assms(3-5) by (auto simp: node_kind_def parentNode_def)
  have "c \<noteq> p" using assms(6) by (auto simp: below_def)
  then obtain D' where D': "parserAppendChild p c D = Some D'" "dom_rep D' (T(p := T p @ [c]))" "same_kinds D D'"
    using append_refines[OF rep pn forest_irrefl[OF f] cn(1,2) _ cn(3)] by blast
  moreover have "forest (T(p := T p @ [c]))"
    by (rule forest_insert[OF f _ assms(6)]) (use rep_child[OF rep cn(1)] cn(2) rep_disjoint[OF rep] in auto)
  ultimately show ?thesis by (auto simp: dom_tree_def)
qed

lemma tree_insert:
  assumes "dom_tree D T" "T p = xs @ x # ys" "node_kind c D = Some k" "k \<noteq> FragmentKind" "parentNode c D = Some None" "\<not> below T p c"
  shows "\<exists>D'. parserInsertBefore p c x D = Some D' \<and> dom_tree D' (T(p := xs @ c # x # ys)) \<and> same_kinds D D'"
proof -
  have rep: "dom_rep D T" and f: "forest T" using assms(1) by (simp_all add: dom_tree_def)
  obtain cn where cn: "dom_node D c = Some cn" "dn_parent cn = None" "dn_kind cn \<noteq> FragmentKind"
    using assms(3-5) by (auto simp: node_kind_def parentNode_def)
  have "c \<noteq> p" using assms(6) by (auto simp: below_def)
  then obtain D' where D': "parserInsertBefore p c x D = Some D'" "dom_rep D' (T(p := xs @ c # x # ys))" "same_kinds D D'"
    using insert_refines[OF rep assms(2) forest_irrefl[OF f] cn(1,2) _ cn(3)] by blast
  moreover have "forest (T(p := xs @ c # x # ys))"
    by (rule forest_insert[OF f _ assms(6)]) (use assms(2) rep_child[OF rep cn(1)] cn(2) rep_disjoint[OF rep] in auto)
  ultimately show ?thesis by (auto simp: dom_tree_def)
qed

lemma tree_remove:
  assumes "dom_tree D T" "T p = xs @ x # ys" "node_kind x D \<noteq> Some FragmentKind"
  shows "\<exists>D'. parserRemoveChild p x D = Some D' \<and> dom_tree D' (T(p := xs @ ys)) \<and> same_kinds D D'"
proof -
  have rep: "dom_rep D T" and f: "forest T" using assms(1) by (simp_all add: dom_tree_def)
  have "forest (T(p := xs @ ys))" by (rule forest_subset[OF f]) (use assms(2) in auto)
  then show ?thesis using remove_refines[OF rep assms(2) forest_irrefl[OF f] assms(3)] by (auto simp: dom_tree_def)
qed

lemma tree_create: "dom_tree D T \<Longrightarrow> createNode k D = (a, D') \<Longrightarrow> dom_tree D' T"
  using create_refines[of D T k a D'] by (auto simp: dom_tree_def)

lemma forest_move:
  assumes T: "forest T" and nb: "\<not> below T p q" and one: "\<And>a b x. x \<in> set (T a) \<Longrightarrow> x \<in> set (T b) \<Longrightarrow> a = b"
  shows "forest (T(q := [], p := T p @ T q))"
proof -
  obtain rank :: "nat \<Rightarrow> nat" where r: "\<And>a x. x \<in> set (T a) \<Longrightarrow> rank a < rank x" using T by (auto simp: forest_def)
  define under where "under a \<longleftrightarrow> (\<exists>b. a \<in> set (T b) \<and> below T b q)" for a
  define rank' where "rank' a = (if under a then rank a + rank p + 1 else rank a)" for a
  have par: "under x \<longleftrightarrow> below T a q" if "x \<in> set (T a)" for a x using that one unfolding under_def by blast
  have cases: "below T a q \<longleftrightarrow> a = q \<or> under a" for a
    unfolding below_def under_def child_rel_def by (auto elim: rtranclE intro: rtrancl_into_rtrancl)
  have "p \<noteq> q" using nb by (auto simp: below_def)
  have "rank' a < rank' x" if x: "x \<in> set ((T(q := [], p := T p @ T q)) a)" for a x
  proof (cases "a = p")
    case True
    have "\<not> under p" using nb cases by blast
    moreover consider "x \<in> set (T p)" | "x \<in> set (T q)" using x True by auto
    then have "rank p < rank' x"
    proof cases
      case 1
      then show ?thesis using r by (auto simp: rank'_def intro: less_le_trans trans_less_add1)
    next
      case 2
      then have "under x" using par cases by blast
      then show ?thesis by (simp add: rank'_def)
    qed
    ultimately show ?thesis using True by (simp add: rank'_def)
  next
    case False
    then have xa: "x \<in> set (T a)" "a \<noteq> q" using x by (auto split: if_splits)
    then have "under x \<longleftrightarrow> under a" using par[OF xa(1)] cases by blast
    with r[OF xa(1)] show ?thesis by (simp add: rank'_def)
  qed
  then show ?thesis unfolding forest_def by blast
qed

lemma tree_take_all:
  assumes tree: "dom_tree D T" and nodes: "dom_node D p \<noteq> None" "dom_node D q \<noteq> None" and nb: "\<not> below T p q"
    and kinds: "\<forall>c \<in> set (T q). node_kind c D \<noteq> Some FragmentKind"
  shows "\<exists>D'. takeAllChildrenFrom p q D = Some D' \<and> dom_tree D' (T(q := [], p := T p @ T q)) \<and> same_kinds D D'"
proof -
  have rep: "dom_rep D T" and f: "forest T" using tree by (simp_all add: dom_tree_def)
  have ne: "p \<noteq> q" "p \<notin> set (T q)" using nb by (auto simp: below_def child_rel_def)
  show ?thesis
    using takeAll_refines[OF rep nodes ne(1) forest_irrefl[OF f] ne(2) forest_irrefl[OF f] kinds] forest_move[OF f nb] rep_disjoint[OF rep]
    by (auto simp: dom_tree_def)
qed

section \<open>A tree for examples\<close>

definition sample_node :: "NodeKind \<Rightarrow> nat option \<Rightarrow> nat option \<Rightarrow> DOMNode" where
  "sample_node k p c = \<lparr>dn_kind = k, dn_parent = p, dn_previous = None, dn_next = None, dn_firstChild = c, dn_lastChild = c\<rparr>"

text \<open>Elements \<open>html\<close>, \<open>body\<close> and one more, a text in the last, and a comment in no tree.\<close>

definition sample_dom :: "string \<Rightarrow> DOM" where
  "sample_dom n = \<lparr>dom_node = [0 \<mapsto> sample_node (ElementKind (htmlName ''html'') []) None (Some 1),
     1 \<mapsto> sample_node (ElementKind (htmlName ''body'') []) (Some 0) (Some 2), 2 \<mapsto> sample_node (ElementKind (htmlName n) []) (Some 1) (Some 3),
     3 \<mapsto> sample_node (TextKind (lit ''ab'')) (Some 2) None, 4 \<mapsto> sample_node (CommentKind []) None None], dom_fresh = 5\<rparr>"

definition sample_kids :: "nat \<Rightarrow> nat list" where
  "sample_kids p = (if p = 0 then [1] else if p = 1 then [2] else if p = 2 then [3] else [])"

lemma sample_tree: "dom_tree (sample_dom n) sample_kids"
proof -
  have "kids (sample_dom n) p (sample_kids p)" for p
    by (simp add: kids_def sample_dom_def sample_kids_def sample_node_def)
  moreover have "case dn_parent x of None \<Rightarrow> dn_previous x = None \<and> dn_next x = None | Some p \<Rightarrow> c \<in> set (sample_kids p)"
    if "dom_node (sample_dom n) c = Some x" for c x
    using that by (auto simp: sample_dom_def sample_kids_def sample_node_def split: if_splits)
  moreover have "\<forall>a \<ge> dom_fresh (sample_dom n). dom_node (sample_dom n) a = None" by (simp add: sample_dom_def)
  ultimately have "dom_rep (sample_dom n) sample_kids" unfolding dom_rep_def by blast
  moreover have "forest sample_kids" unfolding forest_def by (rule exI[of _ "\<lambda>a. a"]) (simp add: sample_kids_def)
  ultimately show ?thesis by (simp add: dom_tree_def)
qed

lemma not_above_leaf:
  assumes "T c = []" "p \<noteq> c"
  shows "\<not> below T p c"
proof
  assume "below T p c"
  then have "(c, p) \<in> (child_rel T)\<^sup>*" by (simp add: below_def)
  then show False using assms by (cases rule: converse_rtranclE) (auto simp: child_rel_def)
qed

section \<open>Properties\<close>

text \<open>C23: inserting a node before a child links the pointers so that the list of children has it in that place, and nothing
  else changes; removing it again gives back a tree with the old lists.\<close>

theorem insert_before_refines:
  assumes "dom_tree D T" "T p = xs @ x # ys" "node_kind c D = Some k" "k \<noteq> FragmentKind" "parentNode c D = Some None" "\<not> below T p c"
  shows "\<exists>D' D''. parserInsertBefore p c x D = Some D' \<and> dom_tree D' (T(p := xs @ c # x # ys)) \<and> same_kinds D D' \<and>
    parserRemoveChild p c D' = Some D'' \<and> dom_tree D'' T \<and> same_kinds D D''"
proof -
  obtain D' where D': "parserInsertBefore p c x D = Some D'" "dom_tree D' (T(p := xs @ c # x # ys))" "same_kinds D D'"
    using tree_insert[OF assms] by blast
  have k: "node_kind c D' \<noteq> Some FragmentKind"
    using D'(3) assms(3,4) unfolding same_kinds_def node_kind_def by (metis option.inject)
  obtain D'' where "parserRemoveChild p c D' = Some D''" "dom_tree D'' ((T(p := xs @ c # x # ys))(p := xs @ x # ys))" "same_kinds D' D''"
    using tree_remove[OF D'(2) _ k, of p xs "x # ys"] by auto
  moreover have "(T(p := xs @ c # x # ys))(p := xs @ x # ys) = T" using assms(2) by auto
  ultimately show ?thesis using D' same_kinds_trans by auto
qed

theorem insert_before_refines_witness:
  "\<exists>D' D''. parserInsertBefore 2 4 3 (sample_dom ''div'') = Some D' \<and> dom_tree D' (sample_kids(2 := [4, 3])) \<and>
     parserRemoveChild 2 4 D' = Some D'' \<and> dom_tree D'' sample_kids"
proof -
  have "\<not> below sample_kids 2 4" by (rule not_above_leaf) (simp_all add: sample_kids_def)
  then show ?thesis
    using insert_before_refines[OF sample_tree[of "''div''"], of 2 "[]" 3 "[]" 4 "CommentKind []"]
    by (auto simp: sample_kids_def node_kind_def parentNode_def sample_dom_def sample_node_def)
qed

text \<open>C24: \<open>takeAllChildrenFrom\<close> moves the children of one node behind those of another, in order, as long as the other does not
  lie below the first; the pointers form a tree again.\<close>

theorem take_all_children_refines:
  assumes "dom_tree D T" "dom_node D p \<noteq> None" "dom_node D q \<noteq> None" "\<not> below T p q" "\<forall>c \<in> set (T q). node_kind c D \<noteq> Some FragmentKind"
  shows "\<exists>D'. takeAllChildrenFrom p q D = Some D' \<and> dom_tree D' (T(q := [], p := T p @ T q)) \<and> same_kinds D D'"
  using tree_take_all[OF assms] .

theorem take_all_children_refines_witness:
  "\<exists>D'. takeAllChildrenFrom 0 2 (sample_dom ''div'') = Some D' \<and> dom_tree D' (sample_kids(2 := [], 0 := [1, 3]))"
proof -
  have "\<not> below sample_kids 0 2"
  proof
    assume "below sample_kids 0 2"
    then have "(2, 0) \<in> (child_rel sample_kids)\<^sup>*" by (simp add: below_def)
    then show False by (cases rule: rtranclE) (auto simp: child_rel_def sample_kids_def split: if_splits)
  qed
  then show ?thesis
    using take_all_children_refines[OF sample_tree[of "''div''"], of 0 2]
    by (auto simp: sample_kids_def node_kind_def sample_dom_def sample_node_def)
qed

end
