(* ===== verification/Site_Text.thy ===== *)
theory Site_Text
  imports Construction_Site DOM_Laws Element_Stack_Laws Formatting_List_Laws
begin

text \<open>
  Laws of the construction site, first part: stripped attributes, implied end tags (two more kinds of scope), how one task changes
  the lists of children, and text. \<open>insert_text\<close> says that \<open>insertTextNode\<close> returns and that the text of the place it inserts at is
  the old text followed by the characters.
\<close>

section \<open>Attributes\<close>

lemma strip_loop_spec:
  assumes "destination \<le> source" "source \<le> length v"
  shows "strip_loop strip v source destination = take destination v @ filter (\<lambda>a. \<not> strip a) (drop source v)"
  using assms
proof (induction strip v source destination rule: strip_loop.induct)
  case (1 strip v source destination)
  show ?case
  proof (cases "source < length v")
    case False
    with 1(4) show ?thesis by (subst strip_loop.simps) simp
  next
    case True
    then have d: "drop source v = v ! source # drop (Suc source) v" by (simp add: Cons_nth_drop_Suc)
    show ?thesis
    proof (cases "strip (v ! source)")
      case st: True
      with 1(1)[OF True st] 1(3) True d show ?thesis by (subst strip_loop.simps) simp
    next
      case st: False
      let ?v = "if source \<noteq> destination then v[destination := v ! source] else v"
      have "strip_loop strip ?v (source + 1) (destination + 1) = take (destination + 1) ?v @ filter (\<lambda>a. \<not> strip a) (drop (source + 1) ?v)"
        by (rule 1(2)[OF True st]) (use 1(3) True in auto)
      moreover have "take (destination + 1) ?v = take destination v @ [v ! source]" "drop (source + 1) ?v = drop (Suc source) v"
        using True 1(3) by (auto simp: take_Suc_conv_app_nth)
      ultimately show ?thesis using True st d by (subst strip_loop.simps) simp
    qed
  qed
qed

lemma stripScriptingAttributes_filter: "stripScriptingAttributes E q v = filter (\<lambda>a. \<not> se_isScriptingAttribute E q a) v"
  by (simp add: stripScriptingAttributes_def strip_loop_spec)

section \<open>Implied end tags\<close>

lemma implied_ordinary: "item_ok i \<Longrightarrow> hasImpliedEndTag i \<Longrightarrow> ordinary_item i"
  unfolding hasImpliedEndTag_def ordinary_item_def isHTMLOptionElement_def isHTMLOptGroupElement_def
  by (simp only: item_ok_tag, elim disjE) (simp_all add: htmlName_eq)

lemma root_no_implied: "root_ok i \<Longrightarrow> \<not> hasImpliedEndTag i"
  by (simp add: hasImpliedEndTag_def isHTMLOptionElement_def isHTMLOptGroupElement_def root_not root_not_node)

interpretation implied: scope "\<lambda>i. \<not> hasImpliedEndTag i"
  by unfold_locales (rule root_no_implied)

interpretation implied_except: scope "\<lambda>i. \<not> (hasImpliedEndTag i \<and> \<not> matchesHTMLTag i tagName)" for tagName
  by unfold_locales (simp add: root_no_implied)

lemma stack_take_ok:
  assumes inv: "stack_inv s" "es_top s \<noteq> []" and m: "scope marker" and r: "r \<in> set (takeWhile (\<lambda>r. \<not> marker (er_item r)) (es_top s))"
  shows "item_ok (er_item r)"
proof -
  have "marker (er_item (last (es_top s)))" using inv m chain_last by (auto simp: stack_inv_def scope_def)
  then have "dropWhile (\<lambda>r. \<not> marker (er_item r)) (es_top s) \<noteq> []" using inv(2) by auto
  then obtain b bs where d: "dropWhile (\<lambda>r. \<not> marker (er_item r)) (es_top s) = b # bs" unfolding neq_Nil_conv by blast
  have "es_top s = takeWhile (\<lambda>r. \<not> marker (er_item r)) (es_top s) @ b # bs" unfolding d[symmetric] by simp
  then have "chain_ok (takeWhile (\<lambda>r. \<not> marker (er_item r)) (es_top s) @ b # bs)" using inv(1) by (simp add: stack_inv_def)
  from chain_above[OF this r] show ?thesis by simp
qed

lemma implied_end_tags:
  assumes inv: "stack_inv s" "es_top s \<noteq> []"
  shows "pop_loop (\<lambda>i. Some (\<not> hasImpliedEndTag i)) s = Some (cleared_to (\<lambda>i. \<not> hasImpliedEndTag i) s)"
    "pop_loop (\<lambda>i. Some (\<not> (hasImpliedEndTag i \<and> \<not> matchesHTMLTag i n))) s = Some (cleared_to (\<lambda>i. \<not> (hasImpliedEndTag i \<and> \<not> matchesHTMLTag i n)) s)"
proof -
  have "ordinary_item (er_item r)" if "r \<in> set (takeWhile (\<lambda>r. \<not> \<not> hasImpliedEndTag (er_item r)) (es_top s))" for r
    using implied_ordinary[OF stack_take_ok[OF inv implied.scope_axioms that]] set_takeWhileD[OF that] by simp
  from implied.pop_to_marker[OF inv this]
  show "pop_loop (\<lambda>i. Some (\<not> hasImpliedEndTag i)) s = Some (cleared_to (\<lambda>i. \<not> hasImpliedEndTag i) s)"
    by (simp add: cleared_to_def Let_def)
  have "ordinary_item (er_item r)" if "r \<in> set (takeWhile (\<lambda>r. \<not> \<not> (hasImpliedEndTag (er_item r) \<and> \<not> matchesHTMLTag (er_item r) n)) (es_top s))" for r
    using implied_ordinary[OF stack_take_ok[OF inv implied_except.scope_axioms that]] set_takeWhileD[OF that] by simp
  from implied_except.pop_to_marker[OF inv this]
  show "pop_loop (\<lambda>i. Some (\<not> (hasImpliedEndTag i \<and> \<not> matchesHTMLTag i n))) s = Some (cleared_to (\<lambda>i. \<not> (hasImpliedEndTag i \<and> \<not> matchesHTMLTag i n)) s)"
    by (simp add: cleared_to_def Let_def)
qed

section \<open>Text\<close>

text \<open>
  What ICU documents of break iterators: the start of the text is a boundary, and the boundary before a position is smaller than it.
\<close>

definition breaks_ok :: "SiteEnv \<Rightarrow> bool" where
  "breaks_ok E \<longleftrightarrow> (\<forall>it pos. se_isTextBreak E it 0 \<and> (0 < pos \<longrightarrow> se_textBreakPreceding E it pos < pos))"

lemma appendData_spec:
  assumes E: "breaks_ok E" and len: "length t \<le> lengthLimit"
  shows "\<exists>n. parserAppendData E t str offset lengthLimit = Some (n, t @ take n (drop offset str)) \<and> n \<le> length str - offset \<and> length t + n \<le> lengthLimit"
proof -
  define c where "c = length str - offset"
  define l where "l = min c (lengthLimit - length t)"
  define it where "it = take (if l + 2 > c then c else l + 2) (drop offset str)"
  define l1 where "l1 = (if l < c \<and> \<not> se_isTextBreak E it l then se_textBreakPreceding E it l else l)"
  have p: "parserAppendData E t str offset lengthLimit = Some (if l1 = 0 then (0, t) else (l1, t @ take l1 (drop offset str)))"
    unfolding parserAppendData_def Let_def l1_def it_def l_def c_def using len by (simp split del: if_split)
  have b: "l \<le> c" "length t + l \<le> lengthLimit" using len by (auto simp: l_def)
  have "l1 \<le> l"
  proof (cases "l = 0")
    case True
    then show ?thesis using E by (simp add: l1_def breaks_ok_def)
  next
    case False
    then have "se_textBreakPreceding E it l < l" using E by (simp add: breaks_ok_def)
    then show ?thesis by (simp add: l1_def)
  qed
  with b have "l1 \<le> c" "length t + l1 \<le> lengthLimit" by simp_all
  then show ?thesis unfolding p c_def by (intro exI[of _ l1]) simp
qed

text \<open>A chunk is not empty, starts at the position, and is either within the limit or everything that is left.\<close>

lemma chunk_spec:
  assumes E: "breaks_ok E" and pos: "pos < length cs"
  shows "\<exists>t. text_chunk E cs pos lengthLimit = Some t \<and> t \<noteq> [] \<and> t = take (length t) (drop pos cs) \<and> pos + length t \<le> length cs \<and>
    (length t \<le> lengthLimit \<or> t = drop pos cs)"
proof -
  obtain n where n: "parserAppendData E [] cs pos lengthLimit = Some (n, take n (drop pos cs))" "n \<le> length cs - pos" "n \<le> lengthLimit"
    using appendData_spec[OF E, of "[]" lengthLimit cs pos] by auto
  show ?thesis
  proof (cases "pos = 0 \<and> length cs \<le> lengthLimit")
    case True
    with pos show ?thesis by (auto simp: text_chunk_def createWithLengthLimit_def)
  next
    case False
    then have "createWithLengthLimit E cs pos lengthLimit = Some (take n (drop pos cs))"
      unfolding createWithLengthLimit_def using n(1) by auto
    then have c: "text_chunk E cs pos lengthLimit = Some (if take n (drop pos cs) = [] then drop pos cs else take n (drop pos cs))"
      by (simp add: text_chunk_def)
    show ?thesis
    proof (cases "n = 0")
      case True
      then show ?thesis using c pos by auto
    next
      case False
      then show ?thesis using c pos n by (auto simp: min_def)
    qed
  qed
qed

section \<open>Insertions refine insertions into lists of children\<close>

text \<open>Where a task inserts: between the children \<open>xs\<close> and \<open>ys\<close> of its parent.\<close>

definition places :: "(nat \<Rightarrow> nat list) \<Rightarrow> HTMLConstructionSiteTask \<Rightarrow> nat \<Rightarrow> nat list \<Rightarrow> nat list \<Rightarrow> bool" where
  "places T task p xs ys \<longleftrightarrow> task_parent task = Some p \<and> T p = xs @ ys \<and> hd_or None ys = task_nextChild task"

definition with_calls :: "ParsingCall list \<Rightarrow> HTMLConstructionSite \<Rightarrow> HTMLConstructionSite" where
  "with_calls cs s = s\<lparr>hs_openElements := (hs_openElements s)\<lparr>es_calls := es_calls (hs_openElements s) @ cs\<rparr>\<rparr>"

lemma with_calls_simps [simp]:
  "hs_dom (with_calls cs s) = hs_dom s" "with_calls [] s = s" "with_calls ds (with_calls cs s) = with_calls (cs @ ds) s"
  "(with_calls cs s)\<lparr>hs_dom := D\<rparr> = with_calls cs (s\<lparr>hs_dom := D\<rparr>)" "record_call c s = with_calls [c] s"
  by (simp_all add: with_calls_def record_call_def)

lemma execute_refines:
  assumes tree: "dom_tree (hs_dom s) T" and pl: "places T task p xs ys" and node: "dom_node (hs_dom s) p \<noteq> None"
    and c: "task_child task = Some c" "node_kind c (hs_dom s) = Some k" "k \<noteq> FragmentKind" "parentNode c (hs_dom s) = Some None" "\<not> below T p c"
  shows "\<exists>D'. executeTask task s = Some (with_calls (BeginParsingChildren c # (if task_selfClosing task then [FinishParsingChildren c] else [])) (s\<lparr>hs_dom := D'\<rparr>))
    \<and> dom_tree D' (T(p := xs @ c # ys)) \<and> same_kinds (hs_dom s) D'"
proof (cases ys)
  case Nil
  then have n: "task_nextChild task = None" "task_parent task = Some p" "T p = xs" using pl by (simp_all add: places_def)
  obtain D' where "parserAppendChild p c (hs_dom s) = Some D'" "dom_tree D' (T(p := T p @ [c]))" "same_kinds (hs_dom s) D'"
    using tree_append[OF tree node c(2-5)] by blast
  then show ?thesis using n c(1) Nil by (auto simp: executeTask_def)
next
  case (Cons y zs)
  then have n: "task_nextChild task = Some y" "task_parent task = Some p" "T p = xs @ y # zs" using pl by (simp_all add: places_def)
  obtain D' where "parserInsertBefore p c y (hs_dom s) = Some D'" "dom_tree D' (T(p := xs @ c # y # zs))" "same_kinds (hs_dom s) D'"
    using tree_insert[OF tree n(3) c(2-5)] by blast
  then show ?thesis using n c(1) Cons by (auto simp: executeTask_def)
qed

text \<open>A node just created has no place in the tree.\<close>

lemma fresh_not_child: "dom_rep D T \<Longrightarrow> dom_fresh D \<notin> set (T q)"
  using rep_parent[of D T "dom_fresh D" q] by (auto simp: dom_rep_def)

lemma fresh_no_kids: "dom_rep D T \<Longrightarrow> T (dom_fresh D) = []"
  using rep_node[of D T _ "dom_fresh D"] by (cases "T (dom_fresh D)") (auto simp: dom_rep_def)

lemma create_execute:
  assumes tree: "dom_tree (hs_dom s) T" and pl: "places T task p xs ys" and node: "dom_node (hs_dom s) p \<noteq> None" and k: "k \<noteq> FragmentKind"
    and al: "allocate k s = (c, s1)"
  shows "\<exists>D'. executeTask (task\<lparr>task_child := Some c\<rparr>) s1 =
      Some (with_calls (BeginParsingChildren c # (if task_selfClosing task then [FinishParsingChildren c] else [])) (s\<lparr>hs_dom := D'\<rparr>))
    \<and> dom_tree D' (T(p := xs @ c # ys)) \<and> c = dom_fresh (hs_dom s) \<and> dom_fresh D' = c + 1
    \<and> (\<forall>a. node_kind a D' = (if a = c then Some k else node_kind a (hs_dom s)))"
proof -
  let ?D1 = "snd (createNode k (hs_dom s))"
  have s1: "s1 = s\<lparr>hs_dom := ?D1\<rparr>" and c: "c = dom_fresh (hs_dom s)" using al by (auto simp: allocate_def createNode_def Let_def)
  have rep: "dom_rep (hs_dom s) T" using tree by (simp add: dom_tree_def)
  have t1: "dom_tree ?D1 T" using tree_create[OF tree] by (simp add: createNode_def)
  have "p \<noteq> c" using rep node by (auto simp: dom_rep_def c)
  then have nb: "\<not> below T p c" using not_above_leaf[of T c p] fresh_no_kids[OF rep] by (simp add: c)
  have "\<exists>D'. executeTask (task\<lparr>task_child := Some c\<rparr>) s1 = Some (with_calls (BeginParsingChildren c # (if task_selfClosing (task\<lparr>task_child := Some c\<rparr>) then [FinishParsingChildren c] else [])) (s1\<lparr>hs_dom := D'\<rparr>))
    \<and> dom_tree D' (T(p := xs @ c # ys)) \<and> same_kinds (hs_dom s1) D'"
    by (rule execute_refines[of s1 T "task\<lparr>task_child := Some c\<rparr>" p xs ys c k])
      (use pl node k nb t1 in \<open>simp_all add: s1 c places_def createNode_def node_kind_def parentNode_def\<close>)
  then obtain D' where D': "executeTask (task\<lparr>task_child := Some c\<rparr>) s1 =
      Some (with_calls (BeginParsingChildren c # (if task_selfClosing task then [FinishParsingChildren c] else [])) (s\<lparr>hs_dom := D'\<rparr>))"
    "dom_tree D' (T(p := xs @ c # ys))" "same_kinds ?D1 D'" by (auto simp: s1)
  have "node_kind a D' = node_kind a ?D1" for a using D'(3) by (simp add: same_kinds_def node_kind_def)
  moreover have "node_kind a ?D1 = (if a = c then Some k else node_kind a (hs_dom s))" for a by (simp add: node_kind_def createNode_def c)
  ultimately have "node_kind a D' = (if a = c then Some k else node_kind a (hs_dom s))" for a by simp
  moreover have "dom_fresh D' = c + 1" using D'(3) by (simp add: same_kinds_def createNode_def c)
  ultimately show ?thesis using D'(1,2) c by blast
qed

section \<open>Inserting text loses nothing\<close>

definition text_of :: "DOM \<Rightarrow> nat \<Rightarrow> UChar list" where
  "text_of D a = (case node_kind a D of Some (TextKind t) \<Rightarrow> t | _ \<Rightarrow> [])"

definition text_content :: "DOM \<Rightarrow> nat list \<Rightarrow> UChar list" where
  "text_content D ns = concat (map (text_of D) ns)"

lemma text_content_simps [simp]: "text_content D [] = []" "text_content D (n # ns) = text_of D n @ text_content D ns"
  "text_content D (ms @ ns) = text_content D ms @ text_content D ns"
  by (simp_all add: text_content_def)

lemma text_content_cong: "(\<And>a. a \<in> set ns \<Longrightarrow> node_kind a D = node_kind a D') \<Longrightarrow> text_content D ns = text_content D' ns"
  by (induction ns) (auto simp: text_of_def)

text \<open>The new text nodes hold no more than the limit each, but the last one may, when it could not be broken.\<close>

definition chunks_ok :: "nat \<Rightarrow> UChar list list \<Rightarrow> bool" where
  "chunks_ok n ts \<longleftrightarrow> [] \<notin> set ts \<and> list_all (\<lambda>t. length t \<le> n) (butlast ts)"

lemma text_loop:
  assumes E: "breaks_ok E" and "dom_tree (hs_dom s) T" "places T task p xs ys" "dom_node (hs_dom s) p \<noteq> None" "pos \<le> length cs"
    and "\<not> task_selfClosing task"
  shows "\<exists>D' ts. insertText_loop E task cs n pos s = Some (with_calls (map BeginParsingChildren [dom_fresh (hs_dom s) ..< dom_fresh (hs_dom s) + length ts]) (s\<lparr>hs_dom := D'\<rparr>))
    \<and> dom_tree D' (T(p := xs @ [dom_fresh (hs_dom s) ..< dom_fresh (hs_dom s) + length ts] @ ys))
    \<and> concat ts = drop pos cs \<and> chunks_ok n ts
    \<and> (\<forall>a. node_kind a D' = (if dom_fresh (hs_dom s) \<le> a \<and> a < dom_fresh (hs_dom s) + length ts then Some (TextKind (ts ! (a - dom_fresh (hs_dom s)))) else node_kind a (hs_dom s)))"
  using assms(2-6)
proof (induction "length cs - pos" arbitrary: pos s T xs rule: less_induct)
  case less
  let ?f = "dom_fresh (hs_dom s)"
  show ?case
  proof (cases "pos < length cs")
    case False
    then have "insertText_loop E task cs n pos s = Some s" by (subst insertText_loop.simps) simp
    moreover have "T(p := xs @ ys) = T" using less.prems(2) by (auto simp: places_def)
    ultimately show ?thesis using False less.prems(1)
      by (intro exI[of _ "hs_dom s"] exI[of _ "[]"]) (auto simp: chunks_ok_def)
  next
    case True
    obtain t where t: "text_chunk E cs pos n = Some t" "t \<noteq> []" "t = take (length t) (drop pos cs)" "pos + length t \<le> length cs"
      "length t \<le> n \<or> t = drop pos cs" using chunk_spec[OF E True] by blast
    obtain c s1 where al: "allocate (TextKind t) s = (c, s1)" by fastforce
    obtain D1 where D1: "executeTask (task\<lparr>task_child := Some c\<rparr>) s1 = Some (with_calls [BeginParsingChildren c] (s\<lparr>hs_dom := D1\<rparr>))"
      "dom_tree D1 (T(p := xs @ c # ys))" "c = ?f" "dom_fresh D1 = c + 1"
      "\<And>a. node_kind a D1 = (if a = c then Some (TextKind t) else node_kind a (hs_dom s))"
      using create_execute[OF less.prems(1-3) _ al] less.prems(5) by auto
    let ?s2 = "with_calls [BeginParsingChildren c] (s\<lparr>hs_dom := D1\<rparr>)"
    have "dom_node D1 p \<noteq> None" using D1(5)[of p] less.prems(3) by (auto simp: node_kind_def split: if_splits)
    then have pre: "dom_tree (hs_dom ?s2) (T(p := xs @ c # ys))"
      "places (T(p := xs @ c # ys)) task p (xs @ [c]) ys" "dom_node (hs_dom ?s2) p \<noteq> None" "pos + length t \<le> length cs"
      using t(4) D1(2) less.prems(2) by (auto simp: places_def)
    have "0 < length t" using t(2) by simp
    with True have dec: "length cs - (pos + length t) < length cs - pos" by linarith
    have f: "dom_fresh (hs_dom ?s2) = c + 1" using D1(4) by simp
    obtain D2 ts where IH: "insertText_loop E task cs n (pos + length t) ?s2 = Some (with_calls (map BeginParsingChildren [c + 1 ..< c + 1 + length ts]) (?s2\<lparr>hs_dom := D2\<rparr>))"
      "dom_tree D2 ((T(p := xs @ c # ys))(p := (xs @ [c]) @ [c + 1 ..< c + 1 + length ts] @ ys))"
      "concat ts = drop (pos + length t) cs" "chunks_ok n ts"
      "\<And>a. node_kind a D2 = (if c + 1 \<le> a \<and> a < c + 1 + length ts then Some (TextKind (ts ! (a - (c + 1)))) else node_kind a (hs_dom ?s2))"
      using less.hyps[OF dec pre less.prems(5)] unfolding f by blast
    have l: "insertText_loop E task cs n pos s = Some (with_calls (map BeginParsingChildren [?f ..< ?f + length (t # ts)]) (s\<lparr>hs_dom := D2\<rparr>))"
      using True t(1,4) al D1(1,3) IH(1) by (subst insertText_loop.simps) (simp add: upt_conv_Cons del: upt_Suc)
    have tree: "dom_tree D2 (T(p := xs @ [?f ..< ?f + length (t # ts)] @ ys))"
      using IH(2) D1(3) by (simp add: upt_conv_Cons del: upt_Suc)
    have cc: "concat (t # ts) = drop pos cs"
      using t(3) IH(3) by (metis append_take_drop_id concat.simps(2) drop_drop add.commute)
    have ch: "chunks_ok n (t # ts)"
    proof (cases "ts = []")
      case False
      then have "length (drop (pos + length t) cs) \<noteq> 0" using IH(3,4) by (cases ts) (auto simp: chunks_ok_def)
      then have "length t \<le> n" using t(5) by auto
      with IH(4) t(2) False show ?thesis by (simp add: chunks_ok_def)
    qed (use t(2) in \<open>simp add: chunks_ok_def\<close>)
    have "node_kind a D2 = (if ?f \<le> a \<and> a < ?f + length (t # ts) then Some (TextKind ((t # ts) ! (a - ?f))) else node_kind a (hs_dom s))" for a
      unfolding IH(5) using D1(3) by (auto simp: D1(5) nth_Cons' Suc_le_eq)
    then show ?thesis using l tree cc ch by (intro exI[of _ D2] exI[of _ "t # ts"]) blast
  qed
qed

lemma previous_child:
  assumes tree: "dom_tree D T" and pl: "places T task p xs ys" and node: "dom_node D p \<noteq> None"
  shows "(case task_nextChild task of Some next \<Rightarrow> previousSibling next D | None \<Rightarrow> lastChild p D) = Some (last_or None xs)"
proof -
  have kids: "kids D p (xs @ ys)" using tree pl rep_kids[of D T p] by (simp add: dom_tree_def places_def)
  show ?thesis
  proof (cases ys)
    case Nil
    then show ?thesis using kids node pl by (auto simp: kids_def places_def lastChild_def split: option.splits)
  next
    case (Cons y zs)
    then have "segment D p (last_or None xs) (y # zs) None" using kids by (simp add: kids_def segment_append)
    then show ?thesis using Cons pl by (auto simp: places_def previousSibling_def split: option.splits)
  qed
qed

text \<open>Changing the data of a node leaves the tree alone.\<close>

lemma tree_rekind:
  assumes tree: "dom_tree D T" and n: "dom_node D a = Some n"
  shows "dom_tree (D\<lparr>dom_node := (dom_node D)(a \<mapsto> n\<lparr>dn_kind := k\<rparr>)\<rparr>) T"
proof -
  let ?D = "D\<lparr>dom_node := (dom_node D)(a \<mapsto> n\<lparr>dn_kind := k\<rparr>)\<rparr>"
  have rep: "dom_rep D T" using tree by (simp add: dom_tree_def)
  have "dom_rep ?D (T(a := T a))"
  proof (rule dom_repI[OF rep])
    have "segment ?D a None (T a) None = segment D a None (T a) None"
      by (rule segment_frame[symmetric]) (use n in \<open>simp add: same_siblings_def\<close>)
    then show "kids ?D a (T a)" using rep_kids[OF rep, of a] n by (simp add: kids_def)
  qed (use n in \<open>auto simp: same_siblings_def split: if_splits\<close>)
  then show ?thesis using tree by (simp add: dom_tree_def)
qed

text \<open>What \<open>appendToText\<close> does to the node before the insertion point.\<close>

lemma append_to_text:
  assumes E: "breaks_ok E" and tree: "dom_tree (hs_dom s) T" and xs: "\<And>a. a \<in> set xs \<Longrightarrow> dom_node (hs_dom s) a \<noteq> None"
    and len: "xs \<noteq> [] \<Longrightarrow> length (text_of (hs_dom s) (last xs)) \<le> n"
  shows "\<exists>m D'. appendToText E (last_or None xs) cs n s = Some (m, s\<lparr>hs_dom := D'\<rparr>) \<and> m \<le> length cs \<and> dom_tree D' T \<and> dom_fresh D' = dom_fresh (hs_dom s)
    \<and> (distinct xs \<longrightarrow> text_content D' xs = text_content (hs_dom s) xs @ take m cs)
    \<and> (\<forall>a. node_kind a D' = node_kind a (hs_dom s) \<or> xs \<noteq> [] \<and> a = last xs \<and> (\<exists>t. node_kind a (hs_dom s) = Some (TextKind t) \<and> node_kind a D' = Some (TextKind (t @ take m cs))))"
proof (cases "\<exists>t. xs \<noteq> [] \<and> node_kind (last xs) (hs_dom s) = Some (TextKind t)")
  case False
  have "appendToText E (last_or None xs) cs n s = Some (0, s\<lparr>hs_dom := hs_dom s\<rparr>)"
  proof (cases "xs = []")
    case xs1: False
    then obtain x where "dom_node (hs_dom s) (last xs) = Some x" using xs[of "last xs"] by auto
    then show ?thesis using False xs1 by (cases "dn_kind x") (auto simp: appendToText_def node_kind_def)
  qed (simp add: appendToText_def)
  then show ?thesis using tree by (intro exI[of _ 0] exI[of _ "hs_dom s"]) simp
next
  case True
  then obtain t zs a where xs1: "xs = zs @ [a]" and t: "node_kind a (hs_dom s) = Some (TextKind t)"
    by (metis append_butlast_last_id)
  then obtain x where x: "dom_node (hs_dom s) a = Some x" "dn_kind x = TextKind t" by (auto simp: node_kind_def)
  have "length t \<le> n" using len xs1 t by (simp add: text_of_def)
  then obtain m where m: "parserAppendData E t cs 0 n = Some (m, t @ take m cs)" "m \<le> length cs"
    using appendData_spec[OF E, of t n cs 0] by auto
  let ?D = "(hs_dom s)\<lparr>dom_node := (dom_node (hs_dom s))(a \<mapsto> x\<lparr>dn_kind := TextKind (t @ take m cs)\<rparr>)\<rparr>"
  have "appendToText E (last_or None xs) cs n s = Some (m, s\<lparr>hs_dom := ?D\<rparr>)"
    using m x xs1 by (simp add: appendToText_def node_kind_def on_node_def)
  moreover have "dom_tree ?D T" by (rule tree_rekind[OF tree x(1)])
  moreover have "text_content ?D xs = text_content (hs_dom s) xs @ take m cs" if "distinct xs"
  proof -
    have "text_content ?D zs = text_content (hs_dom s) zs"
      by (rule text_content_cong) (use that xs1 in \<open>auto simp: node_kind_def\<close>)
    then show ?thesis using xs1 x by (simp add: text_of_def node_kind_def)
  qed
  ultimately show ?thesis using m x xs1 by (intro exI[of _ m] exI[of _ ?D]) (simp add: node_kind_def)
qed

lemma insert_text:
  assumes E: "breaks_ok E" and tree: "dom_tree (hs_dom s) T" and task: "text_task s = Some task" "places T task p xs ys" "task_selfClosing task = False"
    and lim: "text_limit p (hs_dom s) = Some n" and len: "xs \<noteq> [] \<Longrightarrow> length (text_of (hs_dom s) (last xs)) \<le> n"
  shows "\<exists>D' ns calls. insertTextNode E cs s = Some (with_calls calls (s\<lparr>hs_dom := D'\<rparr>)) \<and> dom_tree D' (T(p := xs @ ns @ ys))
    \<and> text_content D' (xs @ ns) = text_content (hs_dom s) xs @ cs
    \<and> (\<forall>a \<in> set ns. dom_node (hs_dom s) a = None \<and> (\<exists>t. node_kind a D' = Some (TextKind t) \<and> t \<noteq> []))
    \<and> (\<forall>a \<in> set (butlast ns). length (text_of D' a) \<le> n)
    \<and> (\<forall>a. a \<in> set ns \<or> node_kind a D' = node_kind a (hs_dom s) \<or> xs \<noteq> [] \<and> a = last xs \<and> (\<exists>t m. node_kind a (hs_dom s) = Some (TextKind t) \<and> node_kind a D' = Some (TextKind (t @ take m cs))))"
proof -
  have rep: "dom_rep (hs_dom s) T" using tree by (simp add: dom_tree_def)
  have node: "dom_node (hs_dom s) p \<noteq> None" using lim by (auto simp: text_limit_def node_kind_def split: bind_splits)
  have Tp: "T p = xs @ ys" "task_parent task = Some p" using task(2) by (simp_all add: places_def)
  have dist: "distinct xs" using rep_kids[OF rep, of p] Tp by (simp add: kids_def)
  have xs: "dom_node (hs_dom s) a \<noteq> None" if "a \<in> set xs" for a using rep_parent[OF rep, of a p] that Tp by auto
  obtain m D1 where a: "appendToText E (last_or None xs) cs n s = Some (m, s\<lparr>hs_dom := D1\<rparr>)" "m \<le> length cs" "dom_tree D1 T"
    "dom_fresh D1 = dom_fresh (hs_dom s)" "text_content D1 xs = text_content (hs_dom s) xs @ take m cs"
    "\<And>a. node_kind a D1 = node_kind a (hs_dom s) \<or> xs \<noteq> [] \<and> a = last xs \<and> (\<exists>t. node_kind a (hs_dom s) = Some (TextKind t) \<and> node_kind a D1 = Some (TextKind (t @ take m cs)))"
    using append_to_text[OF E tree xs len, of cs] dist by blast
  have node1: "dom_node D1 p \<noteq> None" using a(6)[of p] node by (auto simp: node_kind_def)
  let ?f = "dom_fresh (hs_dom s)"
  obtain D2 ts where l: "insertText_loop E task cs n m (s\<lparr>hs_dom := D1\<rparr>) = Some (with_calls (map BeginParsingChildren [?f ..< ?f + length ts]) (s\<lparr>hs_dom := D2\<rparr>))"
    "dom_tree D2 (T(p := xs @ [?f ..< ?f + length ts] @ ys))" "concat ts = drop m cs" "chunks_ok n ts"
    "\<And>b. node_kind b D2 = (if ?f \<le> b \<and> b < ?f + length ts then Some (TextKind (ts ! (b - ?f))) else node_kind b D1)"
    using text_loop[OF E, of "s\<lparr>hs_dom := D1\<rparr>" T task p xs ys m cs n] a(2-4) task node1 by auto
  let ?ns = "[?f ..< ?f + length ts]"
  have "insertTextNode E cs s = Some (with_calls (map BeginParsingChildren ?ns) (s\<lparr>hs_dom := D2\<rparr>))"
    using task(1) Tp(2) lim previous_child[OF tree task(2) node] a(1) l(1) by (simp add: insertTextNode_def)
  moreover have new: "text_of D2 (?f + i) = ts ! i" if "i < length ts" for i using l(5)[of "?f + i"] that by (simp add: text_of_def)
  have "map (text_of D2) ?ns = ts" by (rule nth_equalityI) (simp_all add: new)
  then have "text_content D2 ?ns = drop m cs" using l(3) by (simp add: text_content_def)
  moreover have unalloc: "dom_node (hs_dom s) b = None" if "b \<in> set ?ns" for b using rep that by (auto simp: dom_rep_def)
  have "text_content D2 xs = text_content D1 xs"
    by (rule text_content_cong) (use l(5) xs unalloc in fastforce)
  then have "text_content D2 (xs @ ?ns) = text_content (hs_dom s) xs @ cs" using calculation(2) a(5) by simp
  moreover have "\<forall>b \<in> set ?ns. dom_node (hs_dom s) b = None \<and> (\<exists>t. node_kind b D2 = Some (TextKind t) \<and> t \<noteq> [])"
  proof
    fix b assume b: "b \<in> set ?ns"
    then have "ts ! (b - ?f) \<in> set ts" by auto
    then show "dom_node (hs_dom s) b = None \<and> (\<exists>t. node_kind b D2 = Some (TextKind t) \<and> t \<noteq> [])"
      using l(4,5) b unalloc[OF b] by (auto simp: chunks_ok_def)
  qed
  moreover have "\<forall>b \<in> set (butlast ?ns). length (text_of D2 b) \<le> n"
  proof -
    have "map (text_of D2) (butlast ?ns) = butlast ts" using \<open>map (text_of D2) ?ns = ts\<close> by (metis map_butlast)
    then have "\<forall>t \<in> set (map (text_of D2) (butlast ?ns)). length t \<le> n" using l(4) by (simp add: chunks_ok_def list_all_iff)
    then show ?thesis by simp
  qed
  moreover have "b \<in> set ?ns \<or> node_kind b D2 = node_kind b (hs_dom s) \<or> xs \<noteq> [] \<and> b = last xs \<and> (\<exists>t m. node_kind b (hs_dom s) = Some (TextKind t) \<and> node_kind b D2 = Some (TextKind (t @ take m cs)))" for b
    using l(5)[of b] a(6)[of b] by auto
  ultimately show ?thesis using l(2) by blast
qed

end
