(* ===== verification/Site_Queue.thy ===== *)
theory Site_Queue
  imports Site_Text
begin

text \<open>
  Laws of the construction site, second part: the queue of insertions can always be carried out (\<open>queue_execution\<close>), attaching a new
  node keeps that so (\<open>attach_fresh\<close>), and so does opening an element (\<open>open_element\<close>); the reconstruction of the active formatting
  elements (\<open>reconstruct_spec\<close>); and text without a place to break.
\<close>

section \<open>The queue of insertions\<close>

text \<open>What a task does to the lists of children, and when it can be carried out.\<close>

definition task_result :: "(nat \<Rightarrow> nat list) \<Rightarrow> HTMLConstructionSiteTask \<Rightarrow> nat \<Rightarrow> nat list" where
  "task_result T t = (case (task_parent t, task_child t) of
      (Some p, Some c) \<Rightarrow> T(p := takeWhile (\<lambda>x. Some x \<noteq> task_nextChild t) (T p) @ c # dropWhile (\<lambda>x. Some x \<noteq> task_nextChild t) (T p))
    | _ \<Rightarrow> T)"

definition task_ok :: "DOM \<Rightarrow> (nat \<Rightarrow> nat list) \<Rightarrow> HTMLConstructionSiteTask \<Rightarrow> bool" where
  "task_ok D T t \<longleftrightarrow> (\<exists>p c. task_parent t = Some p \<and> task_child t = Some c \<and> node_kind p D \<noteq> None \<and>
     node_kind c D \<noteq> None \<and> node_kind c D \<noteq> Some FragmentKind \<and> (\<forall>q. c \<notin> set (T q)) \<and> \<not> below T p c \<and>
     (\<forall>x. task_nextChild t = Some x \<longrightarrow> x \<in> set (T p)))"

fun queue_ok :: "DOM \<Rightarrow> (nat \<Rightarrow> nat list) \<Rightarrow> HTMLConstructionSiteTask list \<Rightarrow> bool" where
  "queue_ok D T [] = True"
| "queue_ok D T (t # q) \<longleftrightarrow> task_ok D T t \<and> queue_ok D (task_result T t) q"

abbreviation queue_result :: "(nat \<Rightarrow> nat list) \<Rightarrow> HTMLConstructionSiteTask list \<Rightarrow> nat \<Rightarrow> nat list" where
  "queue_result T q \<equiv> foldl task_result T q"

lemma node_kind_None: "node_kind a D = None \<longleftrightarrow> dom_node D a = None"
  by (simp add: node_kind_def)

lemma queue_ok_append: "queue_ok D T (q @ q') \<longleftrightarrow> queue_ok D T q \<and> queue_ok D (queue_result T q) q'"
  by (induction q arbitrary: T) auto

lemma queue_ok_mono:
  assumes "\<And>a k. node_kind a D = Some k \<Longrightarrow> node_kind a D' = Some k" "queue_ok D T q"
  shows "queue_ok D' T q"
proof -
  have "task_ok D' T t" if "task_ok D T t" for T t
    using that assms(1) unfolding task_ok_def by (metis option.exhaust)
  then show ?thesis using assms(2) by (induction q arbitrary: T) auto
qed

lemma dropWhile_in: "x \<in> set xs \<Longrightarrow> \<exists>zs. dropWhile (\<lambda>y. Some y \<noteq> Some x) xs = x # zs"
  by (induction xs) auto

lemma task_places:
  assumes "task_ok D T t" "task_parent t = Some p"
  shows "places T t p (takeWhile (\<lambda>x. Some x \<noteq> task_nextChild t) (T p)) (dropWhile (\<lambda>x. Some x \<noteq> task_nextChild t) (T p))"
proof (cases "task_nextChild t")
  case None
  then show ?thesis using assms by (simp add: places_def dropWhile_eq_Nil_conv[THEN iffD2] takeWhile_eq_all_conv[THEN iffD2])
next
  case (Some x)
  then have "x \<in> set (T p)" using assms by (auto simp: task_ok_def)
  from dropWhile_in[OF this] show ?thesis using assms(2) Some by (auto simp: places_def)
qed

lemma root_parent: "dom_rep D T \<Longrightarrow> node_kind c D \<noteq> None \<Longrightarrow> (\<forall>q. c \<notin> set (T q)) \<Longrightarrow> parentNode c D = Some None"
  using rep_placed[of D T c] by (auto simp: node_kind_def parentNode_def split: option.splits)

definition task_calls :: "HTMLConstructionSiteTask \<Rightarrow> ParsingCall list" where
  "task_calls t = (case task_child t of None \<Rightarrow> []
     | Some c \<Rightarrow> BeginParsingChildren c # (if task_selfClosing t then [FinishParsingChildren c] else []))"

lemma queue_execution:
  assumes "dom_tree (hs_dom s) T" "queue_ok (hs_dom s) T q"
  shows "\<exists>D'. executeTasks q s = Some (with_calls (concat (map task_calls q)) (s\<lparr>hs_dom := D'\<rparr>)) \<and> dom_tree D' (queue_result T q) \<and> same_kinds (hs_dom s) D'"
  using assms
proof (induction q arbitrary: s T)
  case Nil
  then show ?case by (intro exI[of _ "hs_dom s"]) (simp add: same_kinds_def)
next
  case (Cons t q)
  obtain p c k where t: "task_parent t = Some p" "task_child t = Some c" "node_kind p (hs_dom s) \<noteq> None"
    "node_kind c (hs_dom s) = Some k" "k \<noteq> FragmentKind" "\<forall>q. c \<notin> set (T q)" "\<not> below T p c"
    using Cons.prems(2) by (auto simp: task_ok_def)
  have pl: "places T t p (takeWhile (\<lambda>x. Some x \<noteq> task_nextChild t) (T p)) (dropWhile (\<lambda>x. Some x \<noteq> task_nextChild t) (T p))"
    using Cons.prems(2) t(1) by (intro task_places) auto
  have par: "parentNode c (hs_dom s) = Some None"
    by (rule root_parent) (use Cons.prems(1) t in \<open>auto simp: dom_tree_def\<close>)
  let ?s1 = "\<lambda>D1. with_calls (task_calls t) (s\<lparr>hs_dom := D1\<rparr>)"
  obtain D1 where D1: "executeTask t s = Some (with_calls (task_calls t) (s\<lparr>hs_dom := D1\<rparr>))" "dom_tree D1 (task_result T t)" "same_kinds (hs_dom s) D1"
    using execute_refines[OF Cons.prems(1) pl _ t(2,4,5) par t(7)] t(1-3) by (auto simp: task_result_def node_kind_None task_calls_def)
  have kinds: "node_kind a D1 = node_kind a (hs_dom s)" for a using D1(3) by (simp add: same_kinds_def node_kind_def)
  have "queue_ok D1 (task_result T t) q"
    by (rule queue_ok_mono[of "hs_dom s"]) (use Cons.prems(2) kinds in auto)
  then obtain D2 where "executeTasks q (?s1 D1) = Some (with_calls (concat (map task_calls q)) (?s1 D2))"
    "dom_tree D2 (queue_result (task_result T t) q)" "same_kinds D1 D2"
    using Cons.IH[of "?s1 D1" "task_result T t"] D1(2) by auto
  then show ?case using D1(1) same_kinds_trans[OF D1(3)] by auto
qed

text \<open>What the queue can change.\<close>

lemma result_grows: "set (T p) \<subseteq> set (queue_result T q p)"
proof (induction q arbitrary: T)
  case (Cons t q)
  have "x \<in> set (task_result T t p)" if "x \<in> set (T p)" for x
    using that by (auto simp: task_result_def split: option.splits)
      (metis Un_iff set_append takeWhile_dropWhile_id)
  then show ?case using Cons.IH[of "task_result T t"] by auto
qed simp

lemma result_new: "queue_ok D T q \<Longrightarrow> x \<in> set (queue_result T q p) \<Longrightarrow> x \<in> set (T p) \<or> node_kind x D \<noteq> None"
proof (induction q arbitrary: T)
  case (Cons t q)
  then consider "x \<in> set (task_result T t p)" | "node_kind x D \<noteq> None" by auto
  then show ?case
  proof cases
    case 1
    then show ?thesis using Cons.prems(1)
      by (auto simp: task_result_def task_ok_def split: option.splits if_splits dest: set_takeWhileD set_dropWhileD)
  qed simp
qed simp

lemma result_unknown: "queue_ok D T q \<Longrightarrow> node_kind a D = None \<Longrightarrow> queue_result T q a = T a"
proof (induction q arbitrary: T)
  case (Cons t q)
  then have "task_result T t a = T a" by (auto simp: task_result_def task_ok_def)
  with Cons show ?case by auto
qed simp

text \<open>A node just created can be queued anywhere.\<close>

lemma queue_fresh:
  assumes tree: "dom_tree D0 T" and q: "queue_ok D0 T q" and new: "createNode k D0 = (c, D)" "k \<noteq> FragmentKind"
    and t: "task_parent t = Some p" "task_child t = Some c" "node_kind p D0 \<noteq> None" "\<And>x. task_nextChild t = Some x \<Longrightarrow> x \<in> set (T p)"
  shows "dom_tree D T" "queue_ok D T (q @ [t])" "\<And>a. node_kind a D0 \<noteq> None \<Longrightarrow> node_kind a D = node_kind a D0"
proof -
  have rep: "dom_rep D0 T" using tree by (simp add: dom_tree_def)
  have c: "c = dom_fresh D0" "node_kind c D0 = None" "node_kind c D = Some k" using new rep by (auto simp: createNode_def node_kind_def dom_rep_def)
  show old: "node_kind a D = node_kind a D0" if "node_kind a D0 \<noteq> None" for a
    using that c new by (auto simp: createNode_def node_kind_def)
  show "dom_tree D T" by (rule tree_create[OF tree new(1)])
  have qD: "queue_ok D T q" by (rule queue_ok_mono[OF _ q]) (use old in auto)
  let ?R = "queue_result T q"
  have R: "c \<notin> set (?R r)" for r using result_new[OF q, of c r] c fresh_not_child[OF rep] by auto
  have "?R c = []" using result_unknown[OF q c(2)] fresh_no_kids[OF rep] c(1) by simp
  moreover have "p \<noteq> c" using t(3) c(2) by auto
  ultimately have "\<not> below ?R p c" by (rule not_above_leaf)
  moreover have "x \<in> set (?R p)" if "task_nextChild t = Some x" for x using t(4)[OF that] result_grows by blast
  ultimately have "task_ok D ?R t" using t(1-3) R c(3) new(2) old[OF t(3)] unfolding task_ok_def by auto
  then show "queue_ok D T (q @ [t])" using qD by (simp add: queue_ok_append)
qed

section \<open>Sites that insert without failing\<close>

text \<open>
  While a document is parsed: the DOM is a tree, the queue can be carried out, the stack keeps its invariant, and every record of
  it holds an element of the DOM.
\<close>

definition site_ok :: "HTMLConstructionSite \<Rightarrow> (nat \<Rightarrow> nat list) \<Rightarrow> bool" where
  "site_ok s T \<longleftrightarrow> dom_tree (hs_dom s) T \<and> queue_ok (hs_dom s) T (hs_attachmentQueue s) \<and> stack_inv (hs_openElements s) \<and>
     es_top (hs_openElements s) \<noteq> [] \<and> (\<forall>r \<in> set (es_top (hs_openElements s)). item_ok (er_item r) \<and> node_kind (er_node r) (hs_dom s) \<noteq> None)"

definition allows_all :: "HTMLConstructionSite \<Rightarrow> bool" where
  "allows_all s \<longleftrightarrow> scriptingContentIsAllowed (hs_parserContentPolicy s) \<and> pluginContentIsAllowed (hs_parserContentPolicy s)"

lemma site_top:
  assumes "site_ok s T"
  obtains r rs where "es_top (hs_openElements s) = r # rs" "currentNode s = Some (er_node r)" "currentStackItem s = Some (er_item r)"
    "item_ok (er_item r)" "node_kind (er_node r) (hs_dom s) \<noteq> None"
proof -
  obtain r rs where "es_top (hs_openElements s) = r # rs" using assms unfolding site_ok_def by (meson neq_Nil_conv)
  with assms that[OF this] show thesis
    by (simp add: site_ok_def currentNode_def currentStackItem_def topNode_def topStackItem_def topRecord_def)
qed

lemma site_root:
  assumes "site_ok s T"
  obtains n where "es_getRootNode (hs_openElements s) = Some n" "nd_address n \<in> er_node ` set (es_top (hs_openElements s))"
  using assms that by (auto simp: site_ok_def stack_inv_def es_getRootNode_def split: if_splits)

lemma record_after_spec:
  assumes "distinct (map er_address rs)" "r \<in> set rs" "r \<noteq> last rs"
  shows "\<exists>r' \<in> set rs. record_after (er_address r) rs = Some r'"
  using assms
proof (induction rs)
  case (Cons x rs)
  then show ?case by (cases rs) (auto split: if_splits)
qed simp

text \<open>A foster site is a node of the DOM, and a place before one of its children.\<close>

lemma foster_site:
  assumes ok: "site_ok s T" and that: "task_nextChild task = None"
  shows "\<exists>p nextChild. findFosterSite task s = Some (task\<lparr>task_parent := Some p, task_nextChild := nextChild\<rparr>) \<and>
    (case nextChild of None \<Rightarrow> p \<in> er_node ` set (es_top (hs_openElements s)) | Some x \<Rightarrow> x \<in> set (T p))"
proof (cases "es_topmost (Some (lit ''table'')) (hs_openElements s)")
  case None
  obtain n where "es_getRootNode (hs_openElements s) = Some n" "nd_address n \<in> er_node ` set (es_top (hs_openElements s))" by (rule site_root[OF ok])
  then show ?thesis using None that by (intro exI[of _ "nd_address n"] exI[of _ None]) (simp add: findFosterSite_def)
next
  case (Some r)
  let ?rs = "es_top (hs_openElements s)"
  have r: "r \<in> set ?rs" "matchesHTMLTag (er_item r) (Some (lit ''table''))" using Some by (auto simp: es_topmost_def dest: find_SomeD)
  have rep: "dom_rep (hs_dom s) T" and inv: "stack_inv (hs_openElements s)" using ok by (simp_all add: site_ok_def dom_tree_def)
  have el: "item_element (er_item x) = Some (er_node x)" "node_kind (er_node x) (hs_dom s) \<noteq> None" if "x \<in> set ?rs" for x
    using that ok item_ok_element by (auto simp: site_ok_def)
  obtain n where n: "dom_node (hs_dom s) (er_node r) = Some n" using el(2)[OF r(1)] by (auto simp: node_kind_def)
  have "root_ok (er_item (last ?rs))" by (rule chain_last) (use ok inv in \<open>auto simp: site_ok_def stack_inv_def\<close>)
  then have "r \<noteq> last ?rs" using r(2) root_not[of "er_item r" "''table''"] by (auto simp: matchesHTMLTag_def hasTagName_def htmlName_def)
  then obtain r' where r': "r' \<in> set ?rs" "record_after (er_address r) ?rs = Some r'"
    using record_after_spec[OF _ r(1)] inv by (auto simp: stack_inv_def)
  have below: "findFosterSite task s = Some (task\<lparr>task_parent := Some (er_node r'), task_nextChild := None\<rparr>)"
    if "case dn_parent n of None \<Rightarrow> True | Some p \<Rightarrow> \<not> (kind_is (\<lambda>_. True) (the (node_kind p (hs_dom s)))) \<and> node_kind p (hs_dom s) \<noteq> None \<and>
        (hs_isParsingFragment s \<longrightarrow> (\<exists>m. es_getRootNode (hs_openElements s) = Some m \<and> p \<noteq> nd_address m))"
    using Some el(1)[OF r(1)] n r'(2) el(1)[OF r'(1)] that \<open>task_nextChild task = None\<close>
    by (auto simp: findFosterSite_def parentNode_def kind_is_def split: option.splits NodeKind.splits)
  show ?thesis
  proof (cases "dn_parent n")
    case None
    then show ?thesis using below r'(1) by (intro exI[of _ "er_node r'"] exI[of _ None]) simp
  next
    case p: (Some p)
    have child: "er_node r \<in> set (T p)" using rep_child[OF rep n, of p] p by simp
    then obtain pn where pn: "dom_node (hs_dom s) p = Some pn" using rep_node[OF rep] by blast
    obtain m where m: "es_getRootNode (hs_openElements s) = Some m" by (rule site_root[OF ok])
    show ?thesis
    proof (cases "kind_is (\<lambda>_. True) (dn_kind pn) \<or> hs_isParsingFragment s \<and> p = nd_address m")
      case True
      then have "findFosterSite task s = Some (task\<lparr>task_parent := Some p, task_nextChild := Some (er_node r)\<rparr>)"
        using Some el(1)[OF r(1)] n p pn m
        by (auto simp: findFosterSite_def parentNode_def node_kind_def kind_is_def split: NodeKind.splits)
      then show ?thesis using child by (intro exI[of _ p] exI[of _ "Some (er_node r)"]) simp
    next
      case False
      then show ?thesis using below r'(1) p pn m by (intro exI[of _ "er_node r'"] exI[of _ None]) (auto simp: node_kind_def)
    qed
  qed
qed

section \<open>Attaching a new node\<close>

lemma attach_fresh:
  assumes ok: "site_ok s T" and new: "createNode k (hs_dom s) = (c, D)" "k \<noteq> FragmentKind" and pol: "allows_all s"
    and s1: "hs_dom s1 = D" "hs_attachmentQueue s1 = hs_attachmentQueue s" "hs_openElements s1 = hs_openElements s"
      "hs_parserContentPolicy s1 = hs_parserContentPolicy s"
  shows "\<exists>t. attachLater E (currentNode s1) c closing s1 = Some (s1\<lparr>hs_attachmentQueue := hs_attachmentQueue s @ [t]\<rparr>) \<and> task_child t = Some c \<and>
    (shouldFosterParent s1 = Some True \<longrightarrow> \<not> task_selfClosing t) \<and> (shouldFosterParent s1 = Some False \<longrightarrow> task_selfClosing t = closing) \<and>
    (shouldFosterParent s1 = Some False \<and> es_stackDepth (hs_openElements s) \<le> hs_maximumDOMTreeDepth s1 \<longrightarrow>
      t = \<lparr>task_parent = currentNode s, task_nextChild = None, task_child = Some c, task_selfClosing = closing\<rparr>) \<and>
    site_ok (s1\<lparr>hs_attachmentQueue := hs_attachmentQueue s @ [t]\<rparr>) T"
proof -
  obtain r rs where r: "es_top (hs_openElements s) = r # rs" "currentNode s = Some (er_node r)" "currentStackItem s = Some (er_item r)"
    "item_ok (er_item r)" "node_kind (er_node r) (hs_dom s) \<noteq> None" by (rule site_top[OF ok])
  have tree: "dom_tree (hs_dom s) T" and q: "queue_ok (hs_dom s) T (hs_attachmentQueue s)" using ok by (simp_all add: site_ok_def)
  have cur: "currentNode s1 = Some (er_node r)" "currentStackItem s1 = Some (er_item r)" using r s1(3) by (simp_all add: currentNode_def currentStackItem_def)
  have old: "node_kind a D = node_kind a (hs_dom s)" if "node_kind a (hs_dom s) \<noteq> None" for a
    using that new tree by (auto simp: createNode_def node_kind_def dom_tree_def dom_rep_def)
  have oldpar: "parentNode a D = parentNode a (hs_dom s)" if "node_kind a (hs_dom s) \<noteq> None" for a
    using that new tree by (auto simp: createNode_def node_kind_def parentNode_def dom_tree_def dom_rep_def)
  have kc: "node_kind c D = Some k" using new by (auto simp: createNode_def node_kind_def)
  \<comment> \<open>any task for the new node with a known parent keeps the site in order\<close>
  have keep: "site_ok (s1\<lparr>hs_attachmentQueue := hs_attachmentQueue s @ [t]\<rparr>) T"
    if t: "task_parent t = Some p" "task_child t = Some c" "node_kind p (hs_dom s) \<noteq> None" "\<And>x. task_nextChild t = Some x \<Longrightarrow> x \<in> set (T p)" for t p
  proof -
    have "dom_tree D T" "queue_ok D T (hs_attachmentQueue s @ [t])" using queue_fresh[OF tree q new t] by blast+
    then show ?thesis using ok old s1 by (auto simp: site_ok_def)
  qed
  have pass: "scriptingContentIsAllowed (hs_parserContentPolicy s1)" "pluginContentIsAllowed (hs_parserContentPolicy s1)"
    using pol s1(4) by (simp_all add: allows_all_def)
  obtain foster where foster: "shouldFosterParent s1 = Some foster" using cur(2) by (cases "hs_redirectAttachToFosterParent s1") (simp_all add: shouldFosterParent_def)
  show ?thesis
  proof (cases foster)
    case True
    have ok1: "site_ok s1 T"
      using ok s1 old tree_create[OF tree new(1)] queue_ok_mono[OF _ q, of D] by (auto simp: site_ok_def)
    obtain p nx where f: "findFosterSite newTask s1 = Some (newTask\<lparr>task_parent := Some p, task_nextChild := nx\<rparr>)"
      "case nx of None \<Rightarrow> p \<in> er_node ` set (es_top (hs_openElements s1)) | Some x \<Rightarrow> x \<in> set (T p)"
      using foster_site[OF ok1, of newTask] by (auto simp: newTask_def)
    have "node_kind p (hs_dom s) \<noteq> None"
      using f(2) ok s1(3) tree rep_node[of "hs_dom s" T _ p] by (auto simp: site_ok_def dom_tree_def node_kind_None split: option.splits)
    note f = f this
    let ?t = "newTask\<lparr>task_parent := Some p, task_nextChild := nx, task_child := Some c\<rparr>"
    have "attachLater E (currentNode s1) c closing s1 = Some (s1\<lparr>hs_attachmentQueue := hs_attachmentQueue s @ [?t]\<rparr>)"
      using foster True pass f(1) kc s1 by (simp add: attachLater_def fosterParent_def)
    moreover have "site_ok (s1\<lparr>hs_attachmentQueue := hs_attachmentQueue s @ [?t]\<rparr>) T" by (rule keep) (use f in auto)
    ultimately show ?thesis using foster True by (intro exI[of _ ?t]) (simp add: newTask_def)
  next
    case False
    let ?t = "\<lparr>task_parent = Some (er_node r), task_nextChild = None, task_child = Some c, task_selfClosing = closing\<rparr>"
    show ?thesis
    proof (cases "es_stackDepth (hs_openElements s) > hs_maximumDOMTreeDepth s1 \<and> parentNode (er_node r) D \<noteq> Some None")
      case True
      obtain p where p: "parentNode (er_node r) D = Some (Some p)"
        using True oldpar[OF r(5)] r(5) by (auto simp: parentNode_def node_kind_def)
      obtain n where n: "dom_node (hs_dom s) (er_node r) = Some n" "dn_parent n = Some p"
        using p[unfolded oldpar[OF r(5)]] by (auto simp: parentNode_def)
      have rep: "dom_rep (hs_dom s) T" using tree by (simp add: dom_tree_def)
      then have "er_node r \<in> set (T p)" using rep_child[OF rep n(1), of p] n(2) by simp
      then have "node_kind p (hs_dom s) \<noteq> None" unfolding node_kind_None by (rule rep_node[OF rep])
      then have "site_ok (s1\<lparr>hs_attachmentQueue := hs_attachmentQueue s @ [?t\<lparr>task_parent := Some p\<rparr>]\<rparr>) T" by (intro keep) auto
      moreover have "attachLater E (currentNode s1) c closing s1 = Some (s1\<lparr>hs_attachmentQueue := hs_attachmentQueue s @ [?t\<lparr>task_parent := Some p\<rparr>]\<rparr>)"
        using True foster False pass kc s1 cur p by (simp add: attachLater_def newTask_def)
      ultimately show ?thesis using True foster False by (intro exI[of _ "?t\<lparr>task_parent := Some p\<rparr>"]) auto
    next
      case deep: False
      have "parentNode (er_node r) D \<noteq> None" using oldpar[OF r(5)] r(5) by (simp add: parentNode_def node_kind_def)
      then have "attachLater E (currentNode s1) c closing s1 = Some (s1\<lparr>hs_attachmentQueue := hs_attachmentQueue s @ [?t]\<rparr>)"
        using deep foster False pass kc s1 cur by (cases "es_stackDepth (hs_openElements s) > hs_maximumDOMTreeDepth s1") (simp_all add: attachLater_def newTask_def Let_def)
      moreover have "site_ok (s1\<lparr>hs_attachmentQueue := hs_attachmentQueue s @ [?t]\<rparr>) T" by (rule keep) (use r in auto)
      ultimately show ?thesis using r(2) foster False by (intro exI[of _ ?t]) simp
    qed
  qed
qed

section \<open>Inserting elements\<close>

definition element_name :: "AtomicString \<Rightarrow> AtomicString \<Rightarrow> QualifiedName" where
  "element_name n ns = \<lparr>qn_prefix = None, qn_localName = n, qn_namespaceURI = ns\<rparr>"

definition element_item :: "nat \<Rightarrow> AtomicString \<Rightarrow> AtomicString \<Rightarrow> DOMAttribute list \<Rightarrow> HTMLStackItem" where
  "element_item c n ns as = \<lparr>si_node = \<lparr>nd_address = c, nd_tagName = Some (element_name n ns)\<rparr>, si_tokenLocalName = n,
     si_tokenAttributes = as, si_namespaceURI = ns, si_isDocumentFragmentNode = False\<rparr>"

lemma element_item_ok [simp]: "item_ok (element_item c n ns as)"
  by (simp add: item_ok_def element_item_def element_name_def)

text \<open>With scripting allowed a created element has the attributes of the token.\<close>

lemma create_spec:
  assumes "site_ok s T" "allows_all s" "usesAttributes token"
  shows "createElement E token ns s = Some (si_node (element_item (dom_fresh (hs_dom s)) (am_name token) ns as), token,
    s\<lparr>hs_dom := snd (createNode (ElementKind (element_name (am_name token) ns) (am_attributes token)) (hs_dom s))\<rparr>)"
proof -
  obtain r rs where "currentNode s = Some (er_node r)" by (rule site_top[OF assms(1)])
  then show ?thesis using assms(2,3)
    by (auto simp: createElement_def createElementNamed_def setAttributes_def am_getName_def am_getAttributes_def usesName_def usesAttributes_def
        allows_all_def allocate_def createNode_def Let_def element_item_def element_name_def)
qed

lemma push_spec:
  assumes ok: "site_ok s T" and i: "item_ok i" "ordinary_item i" "fresh_item i (hs_openElements s)" "node_kind (item_address i) (hs_dom s) \<noteq> None"
  shows "\<exists>st. es_push i (hs_openElements s) = Some st \<and> site_ok (s\<lparr>hs_openElements := st\<rparr>) T \<and>
    es_top st = \<lparr>er_address = es_nextRecord (hs_openElements s), er_item = i\<rparr> # es_top (hs_openElements s)"
proof -
  let ?st = "hs_openElements s"
  have "es_rootNode ?st \<noteq> None" using ok by (simp add: site_ok_def stack_inv_def)
  then obtain st where st: "es_push i ?st = Some st" "es_top st = \<lparr>er_address = es_nextRecord ?st, er_item = i\<rparr> # es_top ?st"
    using i(2) by (simp add: es_push_def pushCommon_def)
  have "stack_inv st" using push_inv[OF _ st(1) i(1,3)] ok by (simp add: site_ok_def)
  then show ?thesis using st ok i(1,4) by (auto simp: site_ok_def)
qed

text \<open>Creating, attaching and opening an element, in the order the operations do it.\<close>

lemma open_element:
  assumes ok: "site_ok s T" and pol: "allows_all s"
    and i: "i = element_item (dom_fresh (hs_dom s)) n ns as" "ordinary_item i"
    and s1: "s1 = s\<lparr>hs_dom := snd (createNode (ElementKind (element_name n ns) as) (hs_dom s))\<rparr>"
  shows "\<exists>t st. attachLater E (currentNode s1) (item_address i) closing s1 = Some (s1\<lparr>hs_attachmentQueue := hs_attachmentQueue s @ [t]\<rparr>) \<and>
    task_child t = Some (item_address i) \<and>
    (shouldFosterParent s = Some False \<and> es_stackDepth (hs_openElements s) \<le> hs_maximumDOMTreeDepth s \<longrightarrow>
      t = \<lparr>task_parent = currentNode s, task_nextChild = None, task_child = Some (item_address i), task_selfClosing = closing\<rparr>) \<and>
    es_push i (hs_openElements s) = Some st \<and> es_top st = \<lparr>er_address = es_nextRecord (hs_openElements s), er_item = i\<rparr> # es_top (hs_openElements s) \<and>
    site_ok (s1\<lparr>hs_attachmentQueue := hs_attachmentQueue s @ [t], hs_openElements := st\<rparr>) T"
proof -
  let ?k = "ElementKind (element_name n ns) as"
  have new: "createNode ?k (hs_dom s) = (item_address i, snd (createNode ?k (hs_dom s)))" by (simp add: createNode_def i(1) element_item_def)
  obtain t where t: "attachLater E (currentNode s1) (item_address i) closing s1 = Some (s1\<lparr>hs_attachmentQueue := hs_attachmentQueue s @ [t]\<rparr>)"
    "task_child t = Some (item_address i)"
    "shouldFosterParent s1 = Some False \<and> es_stackDepth (hs_openElements s) \<le> hs_maximumDOMTreeDepth s1 \<longrightarrow>
      t = \<lparr>task_parent = currentNode s, task_nextChild = None, task_child = Some (item_address i), task_selfClosing = closing\<rparr>"
    "site_ok (s1\<lparr>hs_attachmentQueue := hs_attachmentQueue s @ [t]\<rparr>) T"
    using attach_fresh[OF ok new _ pol, of s1 E closing] s1 by auto
  have same: "shouldFosterParent s1 = shouldFosterParent s" by (simp add: s1 shouldFosterParent_def currentStackItem_def)
  have "dom_node (hs_dom s) (item_address i) = None" using ok by (simp add: site_ok_def dom_tree_def dom_rep_def i(1) element_item_def)
  then have "fresh_item i (hs_openElements s)" using ok by (auto simp: fresh_item_def site_ok_def node_kind_None)
  moreover have "node_kind (item_address i) (hs_dom s1) \<noteq> None" by (simp add: s1 createNode_def node_kind_def i(1) element_item_def)
  ultimately obtain st where "es_push i (hs_openElements s) = Some st" "site_ok (s1\<lparr>hs_attachmentQueue := hs_attachmentQueue s @ [t], hs_openElements := st\<rparr>) T"
      "es_top st = \<lparr>er_address = es_nextRecord (hs_openElements s), er_item = i\<rparr> # es_top (hs_openElements s)"
    using push_spec[OF t(4), of i] i by (auto simp: s1)
  then show ?thesis using t(1-3) unfolding same by (intro exI[of _ t] exI[of _ st]) (simp add: s1)
qed

lemma queue_run:
  assumes "site_ok s T"
  shows "\<exists>D. executeQueuedTasks s = Some (with_calls (concat (map task_calls (hs_attachmentQueue s))) (s\<lparr>hs_attachmentQueue := [], hs_dom := D\<rparr>)) \<and>
    dom_tree D (queue_result T (hs_attachmentQueue s)) \<and> same_kinds (hs_dom s) D"
proof -
  let ?s = "s\<lparr>hs_attachmentQueue := []\<rparr>"
  have "dom_tree (hs_dom ?s) T" "queue_ok (hs_dom ?s) T (hs_attachmentQueue s)" using assms by (simp_all add: site_ok_def)
  from queue_execution[OF this] show ?thesis
  proof (cases "hs_attachmentQueue s = []")
    case True
    then have "s = s\<lparr>hs_attachmentQueue := [], hs_dom := hs_dom s\<rparr>" by simp
    then show ?thesis using True assms
      by (intro exI[of _ "hs_dom s"]) (simp add: executeQueuedTasks_def site_ok_def same_kinds_def)
  qed (auto simp: executeQueuedTasks_def)
qed

section \<open>Reconstruction of the active formatting elements\<close>

definition entry_open :: "HTMLElementStack \<Rightarrow> FormattingEntry \<Rightarrow> bool" where
  "entry_open st e \<longleftrightarrow> (case e of None \<Rightarrow> True | Some i \<Rightarrow> es_contains (item_address i) st)"

text \<open>The entries up to the last one that is a marker or open, and those behind it.\<close>

definition opened :: "HTMLElementStack \<Rightarrow> FormattingEntry list \<Rightarrow> FormattingEntry list" where
  "opened st es = rev (dropWhile (\<lambda>e. \<not> entry_open st e) (rev es))"

definition unopened :: "HTMLElementStack \<Rightarrow> FormattingEntry list \<Rightarrow> HTMLStackItem list" where
  "unopened st es = map the (rev (takeWhile (\<lambda>e. \<not> entry_open st e) (rev es)))"

lemma opened_split: "es = opened st es @ map Some (unopened st es)"
proof -
  have "map Some (unopened st es) = rev (takeWhile (\<lambda>e. \<not> entry_open st e) (rev es))"
    unfolding unopened_def map_map comp_def by (rule map_idI) (auto dest!: set_takeWhileD simp: entry_open_def split: option.splits)
  then have "opened st es @ map Some (unopened st es) = rev (takeWhile (\<lambda>e. \<not> entry_open st e) (rev es) @ dropWhile (\<lambda>e. \<not> entry_open st e) (rev es))"
    by (simp add: opened_def del: takeWhile_dropWhile_id)
  then show ?thesis by simp
qed

lemma unopen_loop_spec:
  assumes "list_all formatting_item (entry_items es)" "n \<le> length es" "es \<noteq> []"
  shows "unopen_loop st es n = Some (let m = length (opened st (take n es)) in if m < length es then Some m else None)"
  using assms(2)
proof (induction n)
  case 0
  then show ?case using assms(3) by (simp add: opened_def)
next
  case (Suc n)
  have t: "rev (take (Suc n) es) = es ! n # rev (take n es)" using Suc.prems by (simp add: take_Suc_snoc)
  show ?case
  proof (cases "es ! n")
    case None
    then show ?thesis using Suc.prems by (simp add: opened_def t entry_open_def Let_def)
  next
    case (Some i)
    then have "formatting_item i" using take_items[OF assms(1), of n i] Suc.prems by simp
    then show ?thesis using Some Suc by (simp add: opened_def t entry_open_def Let_def)
  qed
qed

lemma first_unopen:
  assumes "list_all formatting_item (entry_items (fl_entries (hs_activeFormattingElements s)))"
  shows "indexOfFirstUnopenFormattingElement s = Some (if unopened (hs_openElements s) (fl_entries (hs_activeFormattingElements s)) = [] then None
    else Some (length (opened (hs_openElements s) (fl_entries (hs_activeFormattingElements s)))))"
proof -
  let ?es = "fl_entries (hs_activeFormattingElements s)"
  have l: "length ?es = length (opened (hs_openElements s) ?es) + length (unopened (hs_openElements s) ?es)"
    using opened_split[of ?es "hs_openElements s"] by (metis length_append length_map)
  show ?thesis
  proof (cases "?es = []")
    case True
    then show ?thesis by (simp add: indexOfFirstUnopenFormattingElement_def fl_isEmpty_def fl_size_def unopened_def)
  next
    case False
    then show ?thesis using unopen_loop_spec[OF assms le_refl False, of "hs_openElements s"] l
      by (auto simp: indexOfFirstUnopenFormattingElement_def fl_isEmpty_def fl_size_def Let_def)
  qed
qed

definition same_token :: "HTMLStackItem \<Rightarrow> HTMLStackItem \<Rightarrow> bool" where
  "same_token i j \<longleftrightarrow> si_tokenLocalName i = si_tokenLocalName j \<and> si_namespaceURI i = si_namespaceURI j \<and> si_tokenAttributes i = si_tokenAttributes j"

lemma reopen_spec:
  assumes ok: "site_ok s T" "allows_all s" and es: "fl_entries (hs_activeFormattingElements s) = A @ Some i # B"
    and i: "formatting_item i" "ordinary_item i"
  shows "\<exists>s' new t. reopen E (length A) s = Some s' \<and> site_ok s' T \<and> allows_all s' \<and> same_token i new \<and> formatting_item new \<and>
    item_address new = dom_fresh (hs_dom s) \<and> dom_fresh (hs_dom s') = dom_fresh (hs_dom s) + 1 \<and>
    fl_entries (hs_activeFormattingElements s') = A @ Some new # B \<and>
    map er_item (es_top (hs_openElements s')) = new # map er_item (es_top (hs_openElements s)) \<and>
    hs_attachmentQueue s' = hs_attachmentQueue s @ [t] \<and> task_child t = Some (item_address new)"
proof -
  define new where "new = element_item (dom_fresh (hs_dom s)) (si_tokenLocalName i) (si_namespaceURI i) (si_tokenAttributes i)"
  define s1 where "s1 = s\<lparr>hs_dom := snd (createNode (ElementKind (element_name (si_tokenLocalName i) (si_namespaceURI i)) (si_tokenAttributes i)) (hs_dom s))\<rparr>"
  define tok where "tok = (blankAtomicToken StartTag)\<lparr>am_name := si_tokenLocalName i, am_externalCharacters := Some [], am_isAll8BitData := Some False,
       am_selfClosing := Some False, am_attributes := si_tokenAttributes i\<rparr>"
  have tok: "makeAtomicHTMLToken_name StartTag (si_tokenLocalName i) (si_tokenAttributes i) = Some tok"
    "usesAttributes tok" "am_name tok = si_tokenLocalName i" "am_attributes tok = si_tokenAttributes i"
    by (simp_all add: makeAtomicHTMLToken_name_def tok_def usesName_def usesAttributes_def blankAtomicToken_def)
  have "createElement E tok (si_namespaceURI i) s = Some (si_node new, tok, s1)"
    using create_spec[OF ok tok(2), of E "si_namespaceURI i" "si_tokenAttributes i"] by (simp add: tok new_def s1_def)
  moreover have "createItem_token (si_node new) tok (si_namespaceURI i) = Some new"
    using tok(2) by (auto simp: createItem_token_def am_getName_def am_getAttributes_def usesName_def usesAttributes_def tok(3,4) new_def element_item_def)
  ultimately have create: "createElementFromSavedToken E i s = Some (new, s1)"
    using i(1) tok(1) by (cases "si_namespaceURI i = xhtmlNamespaceURI") (simp_all add: createElementFromSavedToken_def createHTMLElement_def)
  have "ordinary_item new" using i(2) by (simp add: new_def element_item_def ordinary_item_def hasTagName_def)
  then obtain t st where o: "attachLater E (currentNode s1) (item_address new) False s1 = Some (s1\<lparr>hs_attachmentQueue := hs_attachmentQueue s @ [t]\<rparr>)"
    "task_child t = Some (item_address new)" "es_push new (hs_openElements s) = Some st"
    "es_top st = \<lparr>er_address = es_nextRecord (hs_openElements s), er_item = new\<rparr> # es_top (hs_openElements s)"
    "site_ok (s1\<lparr>hs_attachmentQueue := hs_attachmentQueue s @ [t], hs_openElements := st\<rparr>) T"
    using open_element[OF ok new_def _ s1_def, of E False] by auto
  let ?s = "s1\<lparr>hs_attachmentQueue := hs_attachmentQueue s @ [t], hs_openElements := st,
    hs_activeFormattingElements := (hs_activeFormattingElements s)\<lparr>fl_entries := A @ Some new # B\<rparr>\<rparr>"
  have "reopen E (length A) s = Some ?s"
    using create o(1,3) es by (simp add: reopen_def fl_at_def fl_size_def on_openElements_def s1_def)
  moreover have "site_ok ?s T" using o(5) by (simp add: site_ok_def)
  moreover have "allows_all ?s" using ok(2) by (simp add: allows_all_def s1_def)
  moreover have "same_token i new" "formatting_item new" "item_address new = dom_fresh (hs_dom s)" "dom_fresh (hs_dom ?s) = dom_fresh (hs_dom s) + 1"
    using i(1) by (simp_all add: same_token_def new_def element_item_def formatting_item_def s1_def createNode_def)
  ultimately show ?thesis using o(2,4) by (intro exI[of _ ?s] exI[of _ new] exI[of _ t]) simp
qed

lemma reconstruct_loop_spec:
  assumes "site_ok s T" "allows_all s" "fl_entries (hs_activeFormattingElements s) = A @ map Some is"
    "list_all formatting_item is" "list_all ordinary_item is"
  shows "\<exists>s' news. reconstruct_loop E (length A) (length is) s = Some s' \<and> site_ok s' T \<and> list_all2 same_token is news \<and> list_all formatting_item news \<and>
    map item_address news = [dom_fresh (hs_dom s) ..< dom_fresh (hs_dom s) + length is] \<and>
    fl_entries (hs_activeFormattingElements s') = A @ map Some news \<and>
    map er_item (es_top (hs_openElements s')) = rev news @ map er_item (es_top (hs_openElements s)) \<and>
    map task_child (hs_attachmentQueue s') = map task_child (hs_attachmentQueue s) @ map (Some \<circ> item_address) news"
  using assms
proof (induction "is" arbitrary: s A)
  case Nil
  then show ?case by (intro exI[of _ s] exI[of _ "[]"]) simp
next
  case (Cons i "is")
  obtain s1 new t where s1: "reopen E (length A) s = Some s1" "site_ok s1 T" "allows_all s1" "same_token i new" "formatting_item new"
    "item_address new = dom_fresh (hs_dom s)" "dom_fresh (hs_dom s1) = dom_fresh (hs_dom s) + 1"
    "fl_entries (hs_activeFormattingElements s1) = (A @ [Some new]) @ map Some is"
    "map er_item (es_top (hs_openElements s1)) = new # map er_item (es_top (hs_openElements s))"
    "hs_attachmentQueue s1 = hs_attachmentQueue s @ [t]" "task_child t = Some (item_address new)"
    using reopen_spec[OF Cons.prems(1,2), of A i "map Some is" E] Cons.prems(3-5) by auto
  obtain s' news where s': "reconstruct_loop E (length (A @ [Some new])) (length is) s1 = Some s'" "site_ok s' T" "list_all2 same_token is news"
    "list_all formatting_item news" "map item_address news = [dom_fresh (hs_dom s1) ..< dom_fresh (hs_dom s1) + length is]"
    "fl_entries (hs_activeFormattingElements s') = (A @ [Some new]) @ map Some news"
    "map er_item (es_top (hs_openElements s')) = rev news @ map er_item (es_top (hs_openElements s1))"
    "map task_child (hs_attachmentQueue s') = map task_child (hs_attachmentQueue s1) @ map (Some \<circ> item_address) news"
    using Cons.IH[OF s1(2,3,8)] Cons.prems(4,5) by auto
  have "map item_address (new # news) = [dom_fresh (hs_dom s) ..< dom_fresh (hs_dom s) + length (i # is)]"
    using s'(5) s1(6,7) by (simp add: upt_conv_Cons del: upt_Suc)
  then show ?case using s1 s' by (intro exI[of _ s'] exI[of _ "new # news"]) simp
qed

lemma reconstruct_spec:
  assumes ok: "site_ok s T" "allows_all s" and fl: "fl_inv (hs_activeFormattingElements s)"
    and ord: "\<forall>i \<in> set (entry_items (fl_entries (hs_activeFormattingElements s))). ordinary_item i"
    and es: "es = fl_entries (hs_activeFormattingElements s)" and st: "st = hs_openElements s"
  shows "\<exists>s' news. reconstructTheActiveFormattingElements E s = Some s' \<and> site_ok s' T \<and> list_all2 same_token (unopened st es) news \<and>
    fl_entries (hs_activeFormattingElements s') = opened st es @ map Some news \<and>
    map er_item (es_top (hs_openElements s')) = rev news @ map er_item (es_top st) \<and>
    map task_child (hs_attachmentQueue s') = map task_child (hs_attachmentQueue s) @ map (Some \<circ> item_address) news \<and>
    reconstructTheActiveFormattingElements E s' = Some s'"
proof -
  have split: "es = opened st es @ map Some (unopened st es)" by (rule opened_split)
  have fi: "list_all formatting_item (entry_items es)" using fl es by (simp add: fl_inv_def)
  then have fi2: "list_all formatting_item (entry_items (opened st es @ map Some (unopened st es)))" using split by simp
  have un: "set (unopened st es) \<subseteq> set (entry_items es)" using split by (metis entry_items_simps(2,5) set_append sup_ge2)
  have f: "indexOfFirstUnopenFormattingElement s = Some (if unopened st es = [] then None else Some (length (opened st es)))"
    using first_unopen[of s] fi es st by simp
  have pre: "fl_entries (hs_activeFormattingElements s) = opened st es @ map Some (unopened st es)" unfolding es[symmetric] by (rule split)
  have all: "list_all formatting_item (unopened st es)" "list_all ordinary_item (unopened st es)"
    using fi ord un es by (auto simp: list_all_iff)
  obtain s' news where s': "reconstruct_loop E (length (opened st es)) (length (unopened st es)) s = Some s'" "site_ok s' T"
    "list_all2 same_token (unopened st es) news" "list_all formatting_item news" "fl_entries (hs_activeFormattingElements s') = opened st es @ map Some news"
    "map er_item (es_top (hs_openElements s')) = rev news @ map er_item (es_top st)"
    "map task_child (hs_attachmentQueue s') = map task_child (hs_attachmentQueue s) @ map (Some \<circ> item_address) news"
    using reconstruct_loop_spec[OF ok pre all, of E] unfolding st by blast
  have r: "reconstructTheActiveFormattingElements E s = Some s'"
  proof (cases "unopened st es = []")
    case True
    then show ?thesis using f s'(1) by (simp add: reconstructTheActiveFormattingElements_def)
  next
    case False
    then have "length es - length (opened st es) = length (unopened st es)" "length (opened st es) < length es"
      using arg_cong[OF split, of length] by auto
    then show ?thesis using f s'(1) False es by (simp add: reconstructTheActiveFormattingElements_def fl_size_def)
  qed
  have "unopened (hs_openElements s') (opened st es @ map Some news) = []"
  proof (cases news rule: rev_cases)
    case Nil
    then have "unopened st es = []" using s'(3) by auto
    then have "opened st es = es" "s' = s" using split s'(1) by (metis append_Nil2 list.simps(8)) (use s'(1) \<open>unopened st es = []\<close> in simp)
    then show ?thesis using Nil \<open>unopened st es = []\<close> st by simp
  next
    case (snoc ns i)
    then have "i \<in> set (map er_item (es_top (hs_openElements s')))" using s'(6) by simp
    then have "es_contains (item_address i) (hs_openElements s')" by (auto simp: es_contains_def es_find_def find_None_iff)
    then show ?thesis using snoc by (simp add: unopened_def entry_open_def)
  qed
  moreover have "list_all formatting_item (entry_items (opened st es @ map Some news))" using fi2 s'(4) by (auto simp: list_all_iff)
  ultimately have "indexOfFirstUnopenFormattingElement s' = Some None" using first_unopen[of s'] s'(5) by simp
  then have "reconstructTheActiveFormattingElements E s' = Some s'" by (simp add: reconstructTheActiveFormattingElements_def)
  then show ?thesis using r s' by blast
qed

section \<open>Text that cannot be broken\<close>

text \<open>The iterator over the first characters of a text, up to two behind the limit, finds no break at the limit and none before it but the start. A
  letter followed by more combining marks than the limit is such a text.\<close>

definition unbroken :: "SiteEnv \<Rightarrow> UChar list \<Rightarrow> nat \<Rightarrow> bool" where
  "unbroken E cs n \<longleftrightarrow> (let it = take (n + 2) cs in \<not> se_isTextBreak E it n \<and> se_textBreakPreceding E it n = 0)"

lemma unbroken_chunk:
  assumes "unbroken E cs n" "n < length cs"
  shows "text_chunk E cs 0 n = Some cs"
proof -
  have lim: "min (length cs) n = n" "\<not> length cs \<le> n" using assms(2) by simp_all
  have "parserAppendData E [] cs 0 n = Some (0, [])"
    using assms unfolding parserAppendData_def unbroken_def Let_def by (cases "length cs < n + 2") (simp_all add: lim)
  then show ?thesis using lim by (simp add: text_chunk_def createWithLengthLimit_def)
qed

lemma overlong_text:
  assumes "text_task s = Some task" "task_parent task = Some p" "text_limit p (hs_dom s) = Some n"
    "(case task_nextChild task of Some next \<Rightarrow> previousSibling next (hs_dom s) | None \<Rightarrow> lastChild p (hs_dom s)) = Some (Some a)"
    "node_kind a (hs_dom s) = Some (TextKind t)" "n < length t"
  shows "insertTextNode E ds s = None"
  using assms by (simp add: insertTextNode_def appendToText_def parserAppendData_def)

lemma plain_task: "\<not> hs_redirectAttachToFosterParent s \<Longrightarrow> currentNode s = Some p \<Longrightarrow> text_task s = Some (newTask\<lparr>task_parent := Some p\<rparr>)"
  by (simp add: text_task_def shouldFosterParent_def)

lemma unbroken_then_fails:
  assumes E: "unbroken E cs n" and tree: "dom_tree (hs_dom s) T" and p: "\<not> hs_redirectAttachToFosterParent s" "currentNode s = Some p" "T p = []"
    and lim: "text_limit p (hs_dom s) = Some n" "n < length cs"
  shows "\<exists>a s'. insertTextNode E cs s = Some s' \<and> dom_tree (hs_dom s') (T(p := [a])) \<and> node_kind a (hs_dom s') = Some (TextKind cs) \<and>
    (\<forall>ds. insertTextNode E ds s' = None)"
proof -
  let ?task = "newTask\<lparr>task_parent := Some p\<rparr>"
  have task: "text_task s = Some ?task" using plain_task p by simp
  have pl: "places T ?task p [] []" using p(3) by (simp add: places_def newTask_def)
  have node: "dom_node (hs_dom s) p \<noteq> None" using lim by (auto simp: text_limit_def node_kind_def split: bind_splits)
  obtain c s1 where al: "allocate (TextKind cs) s = (c, s1)" by fastforce
  obtain D' where D': "executeTask (?task\<lparr>task_child := Some c\<rparr>) s1 = Some (with_calls [BeginParsingChildren c] (s\<lparr>hs_dom := D'\<rparr>))"
    "dom_tree D' (T(p := [c]))" "c = dom_fresh (hs_dom s)" "\<And>a. node_kind a D' = (if a = c then Some (TextKind cs) else node_kind a (hs_dom s))"
    using create_execute[OF tree pl node _ al] by (auto simp: newTask_def)
  let ?s = "with_calls [BeginParsingChildren c] (s\<lparr>hs_dom := D'\<rparr>)"
  have "insertText_loop E ?task cs n 0 s = insertText_loop E ?task cs n (length cs) ?s"
    using lim(2) unbroken_chunk[OF E lim(2)] al D'(1) by (subst insertText_loop.simps) auto
  also have "\<dots> = Some ?s" by (subst insertText_loop.simps) simp
  finally have "insertTextNode E cs s = Some ?s"
    using task lim(1) previous_child[OF tree pl node] by (simp add: insertTextNode_def newTask_def appendToText_def)
  moreover have "insertTextNode E ds ?s = None" for ds
  proof (rule overlong_text)
    have pc: "p \<noteq> c" using node D'(3) tree by (auto simp: dom_tree_def dom_rep_def)
    show "text_task ?s = Some ?task" by (rule plain_task) (use p in \<open>simp_all add: with_calls_def currentNode_def topNode_def topStackItem_def topRecord_def\<close>)
    show "text_limit p (hs_dom ?s) = Some n" using lim(1) pc D'(4)[of p] by (simp add: text_limit_def)
    have "dom_node D' p \<noteq> None" using node D'(4)[of p] pc by (auto simp: node_kind_def)
    then show "(case task_nextChild ?task of Some next \<Rightarrow> previousSibling next (hs_dom ?s) | None \<Rightarrow> lastChild p (hs_dom ?s)) = Some (Some c)"
      using previous_child[OF D'(2), of ?task p "[c]" "[]"] by (simp add: places_def newTask_def)
    show "node_kind c (hs_dom ?s) = Some (TextKind cs)" using D'(4) by simp
  qed (use lim(2) in simp_all)
  moreover have "dom_tree (hs_dom ?s) (T(p := [c]))" "node_kind c (hs_dom ?s) = Some (TextKind cs)" using D'(2,4) by simp_all
  ultimately show ?thesis by blast
qed

end
