(* ===== verification/Site_Properties.thy ===== *)
theory Site_Properties
  imports Site_Queue
begin

text \<open>
  The properties of the construction site, with the site they are tried on.
\<close>

section \<open>A site for examples\<close>

text \<open>\<open>html\<close>, \<open>body\<close> and \<open>table\<close> are open; the table holds a text; \<open>b\<close> is in the list of formatting elements but not open.\<close>

definition sample_site :: "string \<Rightarrow> HTMLConstructionSite" where
  "sample_site n = (newHTMLConstructionSite 9 9 False AllowScriptingContent 512 NoQuirksMode (sample_dom n))\<lparr>
     hs_openElements := newHTMLElementStack\<lparr>es_top := [sample_record 2 n, sample_record 1 ''body'', sample_record 0 ''html''],
       es_rootNode := Some \<lparr>nd_address = 0, nd_tagName = Some (htmlName ''html'')\<rparr>, es_bodyElement := Some 1, es_stackDepth := 3, es_nextRecord := 3\<rparr>,
     hs_activeFormattingElements := \<lparr>fl_entries = [Some (sample_item 8 ''b'')]\<rparr>\<rparr>"

definition sample_env :: SiteEnv where
  "sample_env = \<lparr>se_isScriptingAttribute = (\<lambda>_ _. False), se_isPluginElement = (\<lambda>_. False), se_hasFrame = True, se_isSrcdocDocument = False,
     se_compatibilityModeLocked = False,
     se_foldCase = id, se_isTextBreak = (\<lambda>_ pos. True), se_textBreakPreceding = (\<lambda>_ pos. pos - 1)\<rparr>"

definition sample_start_tag :: "string \<Rightarrow> AtomicHTMLToken" where
  "sample_start_tag n = (blankAtomicToken StartTag)\<lparr>am_name := Some (lit n), am_selfClosing := Some False\<rparr>"

lemma sample_site_simps [simp]:
  "hs_dom (sample_site n) = sample_dom n" "hs_attachmentQueue (sample_site n) = []"
  "es_top (hs_openElements (sample_site n)) = [sample_record 2 n, sample_record 1 ''body'', sample_record 0 ''html'']"
  "fl_entries (hs_activeFormattingElements (sample_site n)) = [Some (sample_item 8 ''b'')]" "es_calls (hs_openElements (sample_site n)) = []"
  "currentNode (sample_site n) = Some 2" "\<not> hs_redirectAttachToFosterParent (sample_site n)" "dom_fresh (sample_dom n) = 5"
  "hs_maximumDOMTreeDepth (sample_site n) = 512" "es_stackDepth (hs_openElements (sample_site n)) = 3" "allows_all (sample_site n)"
  by (simp_all add: sample_site_def newHTMLConstructionSite_def newHTMLElementStack_def currentNode_def topNode_def topStackItem_def topRecord_def
      sample_dom_def allows_all_def scriptingContentIsAllowed_def pluginContentIsAllowed_def)

lemma sample_stack_ok: "n \<notin> {''html'', ''head'', ''body''} \<Longrightarrow> stack_inv (hs_openElements (sample_site n))"
  by (simp add: stack_inv_def sample_site_def newHTMLElementStack_def root_ok_def remembered_def)

lemma sample_site_ok: "n \<notin> {''html'', ''head'', ''body''} \<Longrightarrow> site_ok (sample_site n) sample_kids"
  unfolding site_ok_def using sample_stack_ok by (simp add: sample_tree) (simp add: node_kind_def sample_dom_def)

lemma sample_breaks: "breaks_ok sample_env"
  by (simp add: breaks_ok_def sample_env_def)

section \<open>Properties\<close>

text \<open>C20: at a place of the tree where the text node before it, if there is one, is within the length limit, inserting text returns and loses no
  character; it changes only that text node, and the nodes it makes are not empty and, but for the last, within the limit. (Behind a text node over the limit the
  insertion fails an assertion.)\<close>

theorem insert_text_lossless:
  assumes "breaks_ok E" "dom_tree (hs_dom s) T" "text_task s = Some task" "places T task p xs ys" "task_selfClosing task = False"
    and "text_limit p (hs_dom s) = Some n" "xs \<noteq> [] \<Longrightarrow> length (text_of (hs_dom s) (last xs)) \<le> n"
  shows "\<exists>D' ns calls. insertTextNode E cs s = Some (with_calls calls (s\<lparr>hs_dom := D'\<rparr>)) \<and> dom_tree D' (T(p := xs @ ns @ ys))
    \<and> text_content D' (xs @ ns) = text_content (hs_dom s) xs @ cs
    \<and> (\<forall>a \<in> set ns. dom_node (hs_dom s) a = None \<and> (\<exists>t. node_kind a D' = Some (TextKind t) \<and> t \<noteq> []))
    \<and> (\<forall>a \<in> set (butlast ns). length (text_of D' a) \<le> n)
    \<and> (\<forall>a. a \<in> set ns \<or> node_kind a D' = node_kind a (hs_dom s) \<or> xs \<noteq> [] \<and> a = last xs \<and> (\<exists>t m. node_kind a (hs_dom s) = Some (TextKind t) \<and> node_kind a D' = Some (TextKind (t @ take m cs))))"
  using insert_text[OF assms] .

theorem insert_text_lossless_witness:
  "\<exists>D' ns calls. insertTextNode sample_env (lit ''cd'') (sample_site ''div'') = Some (with_calls calls ((sample_site ''div'')\<lparr>hs_dom := D'\<rparr>)) \<and>
     dom_tree D' (sample_kids(2 := [3] @ ns @ [])) \<and> text_content D' ([3] @ ns) = lit ''abcd''"
proof -
  let ?s = "sample_site ''div''"
  have task: "text_task ?s = Some (newTask\<lparr>task_parent := Some 2\<rparr>)" by (rule plain_task) simp_all
  have pl: "places sample_kids (newTask\<lparr>task_parent := Some 2\<rparr>) 2 [3] []" by (simp add: places_def newTask_def sample_kids_def)
  have lim: "text_limit 2 (hs_dom ?s) = Some 65536"
    by (simp add: text_limit_def node_kind_def sample_dom_def sample_node_def shouldUseLengthLimit_def kind_is_def qn_matches_def htmlName_def svgName_def
        defaultLengthLimit_def)
  have t: "text_of (hs_dom ?s) 3 = lit ''ab''" by (simp add: text_of_def node_kind_def sample_dom_def sample_node_def)
  have "text_content (hs_dom ?s) [3] @ lit ''cd'' = lit ''abcd''" using t by (simp add: lit_def)
  moreover have "dom_tree (hs_dom ?s) sample_kids" by (simp add: sample_tree)
  moreover have "length (text_of (hs_dom ?s) (last [3])) \<le> 65536" using t by (simp add: lit_def)
  ultimately show ?thesis
    using insert_text_lossless[OF sample_breaks _ task pl _ lim, of "lit ''cd''"] by (auto simp: newTask_def)
qed

lemma insert_element_spec:
  assumes ok: "site_ok s T" "allows_all s" and tok: "am_type token = StartTag" "am_name token = Some n"
    and n: "n \<notin> {lit ''html'', lit ''head'', lit ''body''}" and c: "c = dom_fresh (hs_dom s)"
  shows "\<exists>s' t r. insertHTMLElement E token s = Some s' \<and> site_ok s' T \<and>
    es_top (hs_openElements s') = r # es_top (hs_openElements s) \<and> er_item r = element_item c (Some n) xhtmlNamespaceURI (am_attributes token) \<and>
    node_kind c (hs_dom s') = Some (ElementKind (element_name (Some n) xhtmlNamespaceURI) (am_attributes token)) \<and>
    hs_attachmentQueue s' = hs_attachmentQueue s @ [t] \<and> task_child t = Some c \<and>
    (shouldFosterParent s = Some False \<and> es_stackDepth (hs_openElements s) \<le> hs_maximumDOMTreeDepth s \<longrightarrow>
      task_parent t = currentNode s \<and> task_nextChild t = None)"
proof -
  define i where "i = element_item c (Some n) xhtmlNamespaceURI (am_attributes token)"
  define s1 where "s1 = s\<lparr>hs_dom := snd (createNode (ElementKind (element_name (Some n) xhtmlNamespaceURI) (am_attributes token)) (hs_dom s))\<rparr>"
  have u: "usesAttributes token" "usesName token" using tok by (simp_all add: usesAttributes_def usesName_def)
  have create: "createHTMLElement E token s = Some (si_node i, token, s1)"
    using create_spec[OF ok u(1), of E xhtmlNamespaceURI "am_attributes token"] tok(2) by (simp add: createHTMLElement_def i_def s1_def c)
  have item: "createItem_token (si_node i) token xhtmlNamespaceURI = Some i"
    using u tok(2) by (simp add: createItem_token_def am_getName_def am_getAttributes_def i_def element_item_def)
  have "ordinary_item i" using n by (auto simp: i_def element_item_def ordinary_item_def hasTagName_def htmlName_def)
  then obtain t st where o: "attachLater E (currentNode s1) (item_address i) False s1 = Some (s1\<lparr>hs_attachmentQueue := hs_attachmentQueue s @ [t]\<rparr>)"
    "task_child t = Some (item_address i)"
    "shouldFosterParent s = Some False \<and> es_stackDepth (hs_openElements s) \<le> hs_maximumDOMTreeDepth s \<longrightarrow>
      t = \<lparr>task_parent = currentNode s, task_nextChild = None, task_child = Some (item_address i), task_selfClosing = False\<rparr>"
    "es_push i (hs_openElements s) = Some st" "es_top st = \<lparr>er_address = es_nextRecord (hs_openElements s), er_item = i\<rparr> # es_top (hs_openElements s)"
    "site_ok (s1\<lparr>hs_attachmentQueue := hs_attachmentQueue s @ [t], hs_openElements := st\<rparr>) T"
    using open_element[OF ok i_def[unfolded c] _ s1_def, of E False] by blast
  let ?s = "s1\<lparr>hs_attachmentQueue := hs_attachmentQueue s @ [t], hs_openElements := st\<rparr>"
  have "insertHTMLElement E token s = Some ?s"
    using create o(1,4) item by (simp add: insertHTMLElement_def on_openElements_def s1_def)
  moreover have "item_address i = c" "er_item \<lparr>er_address = es_nextRecord (hs_openElements s), er_item = i\<rparr> = i" by (simp_all add: i_def element_item_def)
  moreover have "node_kind c (hs_dom ?s) = Some (ElementKind (element_name (Some n) xhtmlNamespaceURI) (am_attributes token))"
    by (simp add: s1_def createNode_def node_kind_def c)
  ultimately show ?thesis using o i_def
    by (intro exI[of _ ?s] exI[of _ t] exI[of _ "\<lparr>er_address = es_nextRecord (hs_openElements s), er_item = i\<rparr>"]) auto
qed

lemma sample_node_tag [simp]: "node_hasTagName \<lparr>nd_address = a, nd_tagName = Some (htmlName n)\<rparr> (htmlName m) \<longleftrightarrow> n = m"
  by (auto simp: node_hasTagName_def qn_matches_def htmlName_def)

definition sample_leaf :: DOM where
  "sample_leaf = \<lparr>dom_node = [2 \<mapsto> sample_node (ElementKind (htmlName ''div'') []) None None], dom_fresh = 4\<rparr>"

lemma sample_leaf_tree: "dom_tree sample_leaf (\<lambda>_. [])"
  by (auto simp: dom_tree_def dom_rep_def kids_def forest_def sample_leaf_def sample_node_def split: option.splits if_splits)

text \<open>C21: where scripting and plugin content is allowed, inserting an element other than html, head and body creates it with the attributes of its tag, opens it
  and queues one insertion; carrying out the queue always succeeds, keeps the DOM a tree and puts the element somewhere in it. When the element is not foster
  parented and the stack not too deep, that place is behind the other children of the node that was current.\<close>

theorem insert_element_correct:
  assumes "site_ok s T" "allows_all s" "am_type token = StartTag" "am_name token = Some n" "n \<notin> {lit ''html'', lit ''head'', lit ''body''}"
    and "c = dom_fresh (hs_dom s)"
  shows "\<exists>s' r D calls. insertHTMLElement E token s = Some s' \<and> site_ok s' T \<and> currentNode s' = Some c \<and>
    es_top (hs_openElements s') = r # es_top (hs_openElements s) \<and>
    node_kind c D = Some (ElementKind (element_name (Some n) xhtmlNamespaceURI) (am_attributes token)) \<and>
    executeQueuedTasks s' = Some (with_calls calls (s'\<lparr>hs_attachmentQueue := [], hs_dom := D\<rparr>)) \<and>
    dom_tree D (queue_result T (hs_attachmentQueue s')) \<and>
    (\<exists>p. c \<in> set (queue_result T (hs_attachmentQueue s') p)) \<and>
    (\<forall>p. currentNode s = Some p \<and> shouldFosterParent s = Some False \<and> es_stackDepth (hs_openElements s) \<le> hs_maximumDOMTreeDepth s \<longrightarrow>
      queue_result T (hs_attachmentQueue s') = (queue_result T (hs_attachmentQueue s))(p := queue_result T (hs_attachmentQueue s) p @ [c]))"
proof -
  obtain s' t r where i: "insertHTMLElement E token s = Some s'" "site_ok s' T" "es_top (hs_openElements s') = r # es_top (hs_openElements s)"
    "er_item r = element_item c (Some n) xhtmlNamespaceURI (am_attributes token)"
    "node_kind c (hs_dom s') = Some (ElementKind (element_name (Some n) xhtmlNamespaceURI) (am_attributes token))"
    "hs_attachmentQueue s' = hs_attachmentQueue s @ [t]" "task_child t = Some c"
    "shouldFosterParent s = Some False \<and> es_stackDepth (hs_openElements s) \<le> hs_maximumDOMTreeDepth s \<longrightarrow> task_parent t = currentNode s \<and> task_nextChild t = None"
    using insert_element_spec[OF assms] by blast
  obtain D calls where q: "executeQueuedTasks s' = Some (with_calls calls (s'\<lparr>hs_attachmentQueue := [], hs_dom := D\<rparr>))"
    "dom_tree D (queue_result T (hs_attachmentQueue s'))" "same_kinds (hs_dom s') D" using queue_run[OF i(2)] by blast
  have "node_kind c D = node_kind c (hs_dom s')" using q(3) by (simp add: same_kinds_def node_kind_def)
  moreover have "currentNode s' = Some c" using i(3,4) by (simp add: currentNode_def topNode_def topStackItem_def topRecord_def element_item_def)
  moreover have "queue_result T (hs_attachmentQueue s') = (queue_result T (hs_attachmentQueue s))(p := queue_result T (hs_attachmentQueue s) p @ [c])"
    if "currentNode s = Some p" "shouldFosterParent s = Some False \<and> es_stackDepth (hs_openElements s) \<le> hs_maximumDOMTreeDepth s" for p
  proof -
    have "task_parent t = Some p" "task_nextChild t = None" using i(8) that by simp_all
    then show ?thesis using i(6,7) by (simp add: task_result_def dropWhile_eq_Nil_conv[THEN iffD2] takeWhile_eq_all_conv[THEN iffD2])
  qed
  moreover have "task_ok (hs_dom s') (queue_result T (hs_attachmentQueue s)) t" using i(2,6) by (simp add: site_ok_def queue_ok_append)
  then have "\<exists>p. c \<in> set (queue_result T (hs_attachmentQueue s') p)" using i(6,7) by (auto simp: task_ok_def task_result_def)
  ultimately show ?thesis using i q by (intro exI[of _ s'] exI[of _ r] exI[of _ D] exI[of _ calls]) auto
qed

theorem insert_element_correct_witness:
  "\<exists>s' D calls. insertHTMLElement sample_env (sample_start_tag ''p'') (sample_site ''div'') = Some s' \<and> currentNode s' = Some 5 \<and>
     executeQueuedTasks s' = Some (with_calls calls (s'\<lparr>hs_attachmentQueue := [], hs_dom := D\<rparr>)) \<and> dom_tree D (sample_kids(2 := [3, 5]))"
proof -
  let ?s = "sample_site ''div''" and ?t = "sample_start_tag ''p''"
  have hyps: "am_type ?t = StartTag" "am_name ?t = Some (lit ''p'')" "lit ''p'' \<notin> {lit ''html'', lit ''head'', lit ''body''}" "5 = dom_fresh (hs_dom ?s)"
    by (simp_all add: sample_start_tag_def blankAtomicToken_def)
  obtain s' D calls where "insertHTMLElement sample_env ?t ?s = Some s'" "currentNode s' = Some 5"
    "executeQueuedTasks s' = Some (with_calls calls (s'\<lparr>hs_attachmentQueue := [], hs_dom := D\<rparr>))"
    "dom_tree D (queue_result sample_kids (hs_attachmentQueue s'))"
    "\<forall>p. currentNode ?s = Some p \<and> shouldFosterParent ?s = Some False \<and> es_stackDepth (hs_openElements ?s) \<le> hs_maximumDOMTreeDepth ?s \<longrightarrow>
      queue_result sample_kids (hs_attachmentQueue s') = (queue_result sample_kids (hs_attachmentQueue ?s))(p := queue_result sample_kids (hs_attachmentQueue ?s) p @ [5])"
    using insert_element_correct[OF sample_site_ok[of "''div''"] _ hyps, of sample_env] by auto
  moreover have "shouldFosterParent ?s = Some False" by (simp add: shouldFosterParent_def)
  moreover have "sample_kids(2 := sample_kids 2 @ [5]) = sample_kids(2 := [3, 5])" by (simp add: sample_kids_def)
  ultimately show ?thesis by (intro exI[of _ s'] exI[of _ D] exI[of _ calls]) simp
qed

text \<open>C22: reconstructing the active formatting elements reopens exactly those behind the last one that is open or a marker, in order, each with
  the name, namespace and attributes of its tag, and a second reconstruction changes nothing.\<close>

theorem reconstruct_correct:
  assumes "site_ok s T" "allows_all s" "fl_inv (hs_activeFormattingElements s)"
    "\<forall>i \<in> set (entry_items (fl_entries (hs_activeFormattingElements s))). ordinary_item i"
    and "es = fl_entries (hs_activeFormattingElements s)" "st = hs_openElements s"
  shows "\<exists>s' news. reconstructTheActiveFormattingElements E s = Some s' \<and> site_ok s' T \<and> list_all2 same_token (unopened st es) news \<and>
    fl_entries (hs_activeFormattingElements s') = opened st es @ map Some news \<and>
    map er_item (es_top (hs_openElements s')) = rev news @ map er_item (es_top st) \<and>
    map task_child (hs_attachmentQueue s') = map task_child (hs_attachmentQueue s) @ map (Some \<circ> item_address) news \<and>
    reconstructTheActiveFormattingElements E s' = Some s'"
  using reconstruct_spec[OF assms] .

theorem reconstruct_correct_witness:
  "\<exists>s' new. reconstructTheActiveFormattingElements sample_env (sample_site ''div'') = Some s' \<and> same_token (sample_item 8 ''b'') new \<and>
     fl_entries (hs_activeFormattingElements s') = [Some new] \<and>
     map er_item (es_top (hs_openElements s')) = [new, sample_item 2 ''div'', sample_item 1 ''body'', sample_item 0 ''html'']"
proof -
  let ?s = "sample_site ''div''"
  have inv: "fl_inv (hs_activeFormattingElements ?s)" by (simp add: fl_inv_def)
  have "\<not> entry_open (hs_openElements ?s) (Some (sample_item 8 ''b''))" by (simp add: entry_open_def es_contains_def es_find_def)
  then have "unopened (hs_openElements ?s) [Some (sample_item 8 ''b'')] = [sample_item 8 ''b'']" "opened (hs_openElements ?s) [Some (sample_item 8 ''b'')] = []"
    by (simp_all add: unopened_def opened_def)
  then show ?thesis
    using reconstruct_correct[OF sample_site_ok[of "''div''"] _ inv _ refl refl, of sample_env]
    by (auto simp: ordinary_item_def list_all2_Cons1)
qed

text \<open>C29: the two loops over implied end tags always end, and pop exactly the elements above the topmost one without an implied end tag, or, with
  an exclusion, above the topmost one that is excluded or has none.\<close>

theorem implied_end_tags_correct:
  assumes "stack_inv (hs_openElements s)" "es_top (hs_openElements s) \<noteq> []"
  shows "generateImpliedEndTags s = Some (s\<lparr>hs_openElements := cleared_to (\<lambda>i. \<not> hasImpliedEndTag i) (hs_openElements s)\<rparr>) \<and>
    generateImpliedEndTagsWithExclusion n s =
      Some (s\<lparr>hs_openElements := cleared_to (\<lambda>i. \<not> (hasImpliedEndTag i \<and> \<not> matchesHTMLTag i n)) (hs_openElements s)\<rparr>)"
  using implied_end_tags[OF assms]
  by (simp add: generateImpliedEndTags_def generateImpliedEndTagsWithExclusion_def on_openElements_def)

theorem implied_end_tags_correct_witness:
  "generateImpliedEndTags (sample_site ''p'') = Some ((sample_site ''p'')\<lparr>hs_openElements := cleared_to (\<lambda>i. \<not> hasImpliedEndTag i) (hs_openElements (sample_site ''p''))\<rparr>) \<and>
   map er_node (es_top (cleared_to (\<lambda>i. \<not> hasImpliedEndTag i) (hs_openElements (sample_site ''p'')))) = [1, 0]"
proof
  show "generateImpliedEndTags (sample_site ''p'') = Some ((sample_site ''p'')\<lparr>hs_openElements := cleared_to (\<lambda>i. \<not> hasImpliedEndTag i) (hs_openElements (sample_site ''p''))\<rparr>)"
    using implied_end_tags_correct[OF sample_stack_ok[of "''p''"], of "None"] by simp
  have "hasImpliedEndTag (sample_item 2 ''p'')" "\<not> hasImpliedEndTag (sample_item 1 ''body'')"
    by (simp_all add: hasImpliedEndTag_def isHTMLOptionElement_def isHTMLOptGroupElement_def)
  then show "map er_node (es_top (cleared_to (\<lambda>i. \<not> hasImpliedEndTag i) (hs_openElements (sample_site ''p'')))) = [1, 0]"
    by (simp add: cleared_to_def)
qed

text \<open>C38: a self-closing element that is foster parented is never told that its children are complete, although it is never on the stack
  of open elements; one that is not foster parented is.\<close>

theorem foster_parented_self_closing:
  assumes ok: "site_ok s T" "allows_all s" "hs_attachmentQueue s = []" and tok: "am_type token = StartTag"
    and c: "c = dom_fresh (hs_dom s)" and f: "shouldFosterParent s = Some foster"
  shows "\<exists>s1 s2. insertSelfClosingHTMLElement E token s = Some s1 \<and> executeQueuedTasks s1 = Some s2 \<and>
    es_top (hs_openElements s2) = es_top (hs_openElements s) \<and>
    es_calls (hs_openElements s2) = es_calls (hs_openElements s) @ (if foster then [BeginParsingChildren c] else [BeginParsingChildren c, FinishParsingChildren c])"
proof -
  define k where "k = ElementKind (element_name (am_name token) xhtmlNamespaceURI) (am_attributes token)"
  define s1 where "s1 = s\<lparr>hs_dom := snd (createNode k (hs_dom s))\<rparr>"
  have u: "usesAttributes token" using tok by (simp add: usesAttributes_def)
  have new: "createNode k (hs_dom s) = (c, hs_dom s1)" by (simp add: createNode_def s1_def c)
  have create: "createHTMLElement E token s = Some (si_node (element_item c (am_name token) xhtmlNamespaceURI (am_attributes token)), token, s1)"
    using create_spec[OF ok(1,2) u, of E xhtmlNamespaceURI "am_attributes token"] by (simp add: createHTMLElement_def c s1_def k_def)
  have "shouldFosterParent s1 = shouldFosterParent s" by (simp add: s1_def shouldFosterParent_def currentStackItem_def)
  with f have same: "shouldFosterParent s1 = Some foster" by simp
  obtain t where t: "attachLater E (currentNode s1) c True s1 = Some (s1\<lparr>hs_attachmentQueue := [t]\<rparr>)" "task_child t = Some c"
    "task_selfClosing t \<longleftrightarrow> \<not> foster" "site_ok (s1\<lparr>hs_attachmentQueue := [t]\<rparr>) T"
    using attach_fresh[OF ok(1) new _ ok(2), of s1 E True] ok(3) same by (cases foster) (auto simp: s1_def k_def)
  have "insertSelfClosingHTMLElement E token s = Some (s1\<lparr>hs_attachmentQueue := [t]\<rparr>)"
    using tok create t(1) by (simp add: insertSelfClosingHTMLElement_def element_item_def)
  moreover obtain D where "executeQueuedTasks (s1\<lparr>hs_attachmentQueue := [t]\<rparr>) = Some (with_calls (task_calls t) (s1\<lparr>hs_attachmentQueue := [], hs_dom := D\<rparr>))"
    using queue_run[OF t(4)] by auto
  ultimately show ?thesis using t(2,3) by (auto simp: with_calls_def task_calls_def s1_def)
qed

theorem foster_parented_self_closing_witness:
  "\<exists>s1 s2. insertSelfClosingHTMLElement sample_env (sample_start_tag ''br'') ((sample_site ''table'')\<lparr>hs_redirectAttachToFosterParent := True\<rparr>) = Some s1 \<and>
     executeQueuedTasks s1 = Some s2 \<and> es_calls (hs_openElements s2) = [BeginParsingChildren 5]"
proof -
  let ?s = "(sample_site ''table'')\<lparr>hs_redirectAttachToFosterParent := True\<rparr>"
  have ok: "site_ok ?s sample_kids" using sample_site_ok[of "''table''"] by (simp add: site_ok_def)
  have a: "allows_all ?s" using allows_all_def sample_site_simps(11) by simp
  have f: "shouldFosterParent ?s = Some True"
    by (simp add: shouldFosterParent_def currentStackItem_def topStackItem_def topRecord_def isElementNode_def causesFosterParenting_def)
      (simp add: sample_item_def)
  show ?thesis
    using foster_parented_self_closing[OF ok a _ _ refl f, of "sample_start_tag ''br''" sample_env] by (auto simp: sample_start_tag_def blankAtomicToken_def)
qed

text \<open>An iterator that breaks between clusters: at the start, at the end, and before every unit that is not a combining mark.\<close>

definition combining :: "UChar \<Rightarrow> bool" where
  "combining u \<longleftrightarrow> 0x300 \<le> u \<and> u \<le> 0x36F"

definition cluster_break :: "UChar list \<Rightarrow> nat \<Rightarrow> bool" where
  "cluster_break it pos \<longleftrightarrow> pos = 0 \<or> length it \<le> pos \<or> \<not> combining (it ! pos)"

fun cluster_preceding :: "UChar list \<Rightarrow> nat \<Rightarrow> nat" where
  "cluster_preceding it 0 = 0"
| "cluster_preceding it (Suc pos) = (if cluster_break it pos then pos else cluster_preceding it pos)"

definition cluster_env :: SiteEnv where
  "cluster_env = sample_env\<lparr>se_isTextBreak := cluster_break, se_textBreakPreceding := cluster_preceding\<rparr>"

lemma cluster_breaks_ok: "breaks_ok cluster_env"
proof -
  have "cluster_preceding it pos \<le> pos - 1" for it pos by (induction it pos rule: cluster_preceding.induct) auto
  then have "0 < pos \<Longrightarrow> cluster_preceding it pos < pos" for it pos by (metis Suc_pred' le_imp_less_Suc)
  then show ?thesis by (simp add: breaks_ok_def cluster_env_def cluster_break_def)
qed

lemma cluster_preceding_marks: "\<forall>i. 0 < i \<longrightarrow> i < pos \<longrightarrow> \<not> cluster_break it i \<Longrightarrow> cluster_preceding it pos = 0"
  by (induction it pos rule: cluster_preceding.induct) auto

lemma marks_unbroken:
  assumes "0 < n" "n \<le> k"
  shows "unbroken cluster_env (u # replicate k 0x301) n"
proof -
  let ?it = "take (n + 2) (u # replicate k 0x301)"
  have "\<not> cluster_break ?it i" if "0 < i" "i \<le> n" for i
    using that assms by (cases i) (auto simp: cluster_break_def combining_def)
  then show ?thesis using assms(1) cluster_preceding_marks[of n ?it] by (simp add: unbroken_def cluster_env_def Let_def)
qed

text \<open>C40: a text longer than the limit in whose first characters the break iterator finds no break up to the limit becomes one text node when it is inserted
  into an empty node, as intended; but every further insertion of text at that place then fails an assertion.\<close>

theorem unbreakable_text_assertion:
  assumes "unbroken E cs n" "dom_tree (hs_dom s) T" "\<not> hs_redirectAttachToFosterParent s" "currentNode s = Some p" "T p = []"
    and "text_limit p (hs_dom s) = Some n" "n < length cs"
  shows "\<exists>a s'. insertTextNode E cs s = Some s' \<and> dom_tree (hs_dom s') (T(p := [a])) \<and> node_kind a (hs_dom s') = Some (TextKind cs) \<and>
    (\<forall>ds. insertTextNode E ds s' = None)"
  using unbroken_then_fails[OF assms] .

theorem unbreakable_text_assertion_witness:
  "breaks_ok cluster_env \<and>
   (\<exists>a s'. insertTextNode cluster_env (0x61 # replicate 65536 0x301) ((sample_site ''div'')\<lparr>hs_dom := sample_leaf\<rparr>) = Some s' \<and>
     node_kind a (hs_dom s') = Some (TextKind (0x61 # replicate 65536 0x301)) \<and> insertTextNode cluster_env (lit ''a'') s' = None)"
proof -
  let ?s = "(sample_site ''div'')\<lparr>hs_dom := sample_leaf\<rparr>"
  have tree: "dom_tree (hs_dom ?s) (\<lambda>_. [])" using sample_leaf_tree by simp
  have lim: "text_limit 2 (hs_dom ?s) = Some 65536"
    by (simp add: text_limit_def node_kind_def sample_leaf_def sample_node_def shouldUseLengthLimit_def kind_is_def qn_matches_def htmlName_def svgName_def
        defaultLengthLimit_def)
  have cur: "currentNode ?s = Some 2" "\<not> hs_redirectAttachToFosterParent ?s"
    using sample_site_simps(6,7)[of "''div''"] by (simp_all add: currentNode_def)
  have "unbroken cluster_env (0x61 # replicate 65536 0x301) 65536" by (rule marks_unbroken) simp_all
  from unbreakable_text_assertion[OF this tree cur(2,1) _ lim] cluster_breaks_ok show ?thesis by auto
qed

end
