(* ===== verification/Parser_Idioms.thy ===== *)
theory Parser_Idioms
  imports Entity_Parser
begin

text \<open>
  Microsyntaxes: \<open>src/Source/WebCore/html/parser/HTMLParserIdioms.h\<close> and \<open>HTMLParserIdioms.cpp\<close>, with the conversion to an integer of
  \<open>src/Source/WTF/wtf/text/WTFString.cpp\<close>. The templates over 8-bit and 16-bit characters are read at code units. Numbers of the C++ types are
  integers; \<open>it_wrap\<close> is the arithmetic of the type. \<open>direction\<close>, ICU's answer whether a character outside ASCII is white space, is an argument.
  The conversions to \<open>double\<close> and \<open>Decimal\<close> are left out.
\<close>

section \<open>Spaces\<close>

definition isHTMLSpace :: "UChar \<Rightarrow> bool" where
  "isHTMLSpace c \<longleftrightarrow> c \<le> chSpace \<and> (c = chSpace \<or> c = chLF \<or> c = chTab \<or> c = chCR \<or> c = chFF)"

definition isHTMLLineBreak :: "UChar \<Rightarrow> bool" where
  "isHTMLLineBreak c \<longleftrightarrow> c \<le> chCR \<and> (c = chLF \<or> c = chCR)"

definition isNotHTMLSpace :: "UChar \<Rightarrow> bool" where
  "isNotHTMLSpace c \<longleftrightarrow> \<not> isHTMLSpace c"

text \<open>The two loops count from an index on.\<close>

function leading_loop :: "UChar list \<Rightarrow> nat \<Rightarrow> nat" where
  "leading_loop cs n = (if n < length cs then if isNotHTMLSpace (cs ! n) then n else leading_loop cs (n + 1) else n)"
  by pat_completeness auto
termination by (relation "measure (\<lambda>(cs, n). length cs - n)") auto

function trailing_loop :: "UChar list \<Rightarrow> nat \<Rightarrow> nat" where
  "trailing_loop cs n = (if n < length cs then if isNotHTMLSpace (cs ! (length cs - n - 1)) then n else trailing_loop cs (n + 1) else n)"
  by pat_completeness auto
termination by (relation "measure (\<lambda>(cs, n). length cs - n)") auto

declare leading_loop.simps [simp del] trailing_loop.simps [simp del]

text \<open>A null string is \<open>None\<close>; the outer option is the assertion.\<close>

definition stripLeadingAndTrailingHTMLSpaces :: "UChar list option \<Rightarrow> UChar list option option" where
  "stripLeadingAndTrailingHTMLSpaces string = (case string of None \<Rightarrow> Some None
     | Some cs \<Rightarrow>
         if cs = [] then Some (Some [])
         else do {
           let numLeadingSpaces = leading_loop cs 0;
           if numLeadingSpaces = length cs then Some (Some [])
           else do {
             let numTrailingSpaces = trailing_loop cs 0;
             ASSERT (numLeadingSpaces + numTrailingSpaces < length cs);
             if numLeadingSpaces = 0 \<and> numTrailingSpaces = 0 then Some (Some cs)
             else Some (Some (take (length cs - (numLeadingSpaces + numTrailingSpaces)) (drop numLeadingSpaces cs))) } })"

section \<open>Integers\<close>

record IntegralType =
  it_max :: int
  it_signed :: bool
  it_wrap :: "int \<Rightarrow> int"

definition int_type :: IntegralType where
  "int_type = \<lparr>it_max = 2 ^ 31 - 1, it_signed = True, it_wrap = (\<lambda>v. (v + 2 ^ 31) mod 2 ^ 32 - 2 ^ 31)\<rparr>"

definition unsigned_type :: IntegralType where
  "unsigned_type = \<lparr>it_max = 2 ^ 32 - 1, it_signed = False, it_wrap = (\<lambda>v. v mod 2 ^ 32)\<rparr>"

definition isASCIISpace :: "UChar \<Rightarrow> bool" where
  "isASCIISpace c \<longleftrightarrow> c \<le> chSpace \<and> (c = chSpace \<or> (c \<le> 0xD \<and> c \<ge> 0x9))"

definition isSpaceOrNewline :: "(UChar \<Rightarrow> bool) \<Rightarrow> UChar \<Rightarrow> bool" where
  "isSpaceOrNewline direction c = (if c \<le> 0x7F then isASCIISpace c else direction c)"

definition isCharacterAllowedInBase :: "UChar \<Rightarrow> int \<Rightarrow> bool" where
  "isCharacterAllowedInBase c base =
     (if c > 0x7F then False
      else if isASCIIDigit c then uint c - 0x30 < base
      else if isASCIIUpper c \<or> isASCIILower c then
        (let base1 = (if base > 36 then 36 else base) in
         (uint c \<ge> 0x61 \<and> uint c < 0x61 + base1 - 10) \<or> (uint c \<ge> 0x41 \<and> uint c < 0x41 + base1 - 10))
      else False)"

definition digitValue :: "UChar \<Rightarrow> int" where
  "digitValue c = (if isASCIIDigit c then uint c - 0x30 else if c \<ge> 0x61 then uint c - 0x61 + 10 else uint c - 0x41 + 10)"

text \<open>The digits; \<open>None\<close> is the jump to \<open>bye\<close>.\<close>

fun integral_loop :: "IntegralType \<Rightarrow> int \<Rightarrow> bool \<Rightarrow> UChar list \<Rightarrow> int \<Rightarrow> (int \<times> UChar list) option" where
  "integral_loop ty base isNegative [] value = Some (value, [])"
| "integral_loop ty base isNegative (c # data) value =
     (if isCharacterAllowedInBase c base then
        let maxMultiplier = it_max ty div base in
        if value > maxMultiplier \<or> (value = maxMultiplier \<and> digitValue c > it_max ty mod base + of_bool isNegative) then None
        else integral_loop ty base isNegative data (it_wrap ty (base * value + digitValue c))
      else Some (value, c # data))"

definition toIntegralType :: "(UChar \<Rightarrow> bool) \<Rightarrow> IntegralType \<Rightarrow> UChar list option \<Rightarrow> int \<Rightarrow> bool \<times> int" where
  "toIntegralType direction ty data base = (case data of None \<Rightarrow> (False, 0)
     | Some cs \<Rightarrow>
         let cs1 = dropWhile (isSpaceOrNewline direction) cs;
             isNegative = (it_signed ty \<and> cs1 \<noteq> [] \<and> hd cs1 = chDash);
             cs2 = (if isNegative then tl cs1 else if cs1 \<noteq> [] \<and> hd cs1 = 0x2B then tl cs1 else cs1)
         in if cs2 = [] \<or> \<not> isCharacterAllowedInBase (hd cs2) base then (False, 0)
            else (case integral_loop ty base isNegative cs2 0 of None \<Rightarrow> (False, 0)
              | Some (value, rest) \<Rightarrow>
                  let value1 = (if isNegative then it_wrap ty (- value) else value)
                  in if dropWhile (isSpaceOrNewline direction) rest = [] then (True, value1) else (False, 0)))"

definition charactersToIntStrict :: "(UChar \<Rightarrow> bool) \<Rightarrow> UChar list \<Rightarrow> bool \<times> int" where
  "charactersToIntStrict direction data = toIntegralType direction int_type (Some data) 10"

definition charactersToUIntStrict :: "(UChar \<Rightarrow> bool) \<Rightarrow> UChar list \<Rightarrow> bool \<times> int" where
  "charactersToUIntStrict direction data = toIntegralType direction unsigned_type (Some data) 10"

text \<open>The result with the value of the reference argument, which is only assigned in the last step.\<close>

definition parseHTMLInteger :: "(UChar \<Rightarrow> bool) \<Rightarrow> UChar list \<Rightarrow> int \<Rightarrow> bool \<times> int" where
  "parseHTMLInteger direction input value =
     (case dropWhile isHTMLSpace input of [] \<Rightarrow> (False, value)
      | c # cs \<Rightarrow>
          let sign = (if c = chDash then -1 else 1);
              rest = (if c = chDash \<or> c = 0x2B then cs else c # cs)
          in if rest = [] then (False, value)
             else if \<not> isASCIIDigit (hd rest) then (False, value)
             else let (ok, v) = charactersToIntStrict direction (takeWhile isASCIIDigit rest)
                  in (ok, it_wrap int_type (sign * v)))"

definition parseHTMLNonNegativeInteger :: "(UChar \<Rightarrow> bool) \<Rightarrow> UChar list \<Rightarrow> int \<Rightarrow> bool \<times> int" where
  "parseHTMLNonNegativeInteger direction input value =
     (case dropWhile isHTMLSpace input of [] \<Rightarrow> (False, value)
      | c # cs \<Rightarrow>
          let rest = (if c = 0x2B then cs else c # cs)
          in if rest = [] then (False, value)
             else if \<not> isASCIIDigit (hd rest) then (False, value)
             else charactersToUIntStrict direction (takeWhile isASCIIDigit rest))"

section \<open>Laws\<close>

lemma leading_loop_eq: "leading_loop cs n = n + length (takeWhile isHTMLSpace (drop n cs))"
proof (induction cs n rule: leading_loop.induct)
  case (1 cs n)
  show ?case
  proof (cases "n < length cs")
    case True
    then have "drop n cs = cs ! n # drop (n + 1) cs" by (simp add: Cons_nth_drop_Suc)
    with 1 True show ?thesis by (subst leading_loop.simps) (auto simp: isNotHTMLSpace_def)
  qed (subst leading_loop.simps, simp)
qed

lemma trailing_loop_eq: "n \<le> length cs \<Longrightarrow> trailing_loop cs n = leading_loop (rev cs) n"
proof (induction cs n rule: trailing_loop.induct)
  case (1 cs n)
  show ?case
  proof (cases "n < length cs")
    case True
    then have "rev cs ! n = cs ! (length cs - n - 1)" by (simp add: rev_nth)
    with 1 True show ?thesis by (subst trailing_loop.simps, subst leading_loop.simps) simp
  qed (subst trailing_loop.simps, subst leading_loop.simps, simp)
qed

text \<open>Stripping never fails its assertion and takes off exactly the spaces at both ends.\<close>

lemma strip_correct: "stripLeadingAndTrailingHTMLSpaces (Some cs) = Some (Some (rev (dropWhile isHTMLSpace (rev (dropWhile isHTMLSpace cs)))))"
proof (cases "\<forall>c \<in> set cs. isHTMLSpace c")
  case True
  then have t: "takeWhile isHTMLSpace cs = cs" and d: "dropWhile isHTMLSpace cs = []" by (simp_all add: takeWhile_eq_all_conv)
  show ?thesis by (simp add: stripLeadingAndTrailingHTMLSpaces_def leading_loop_eq t d Let_def)
next
  case False
  define a b where "a = length (takeWhile isHTMLSpace cs)" and "b = length (takeWhile isHTMLSpace (rev cs))"
  have d: "dropWhile isHTMLSpace cs = drop a cs" "dropWhile isHTMLSpace (rev cs) = drop b (rev cs)" by (simp_all add: a_def b_def dropWhile_eq_drop)
  have "drop a cs \<noteq> []" using False d(1) by (metis dropWhile_eq_Nil_conv)
  then have ne: "a < length cs" by simp
  then have s: "\<not> isHTMLSpace (cs ! a)" unfolding a_def by (rule nth_length_takeWhile)
  have ab: "a + b < length cs"
  proof (rule ccontr)
    assume "\<not> a + b < length cs"
    then have "length cs - Suc a < b" using ne by simp
    then have "isHTMLSpace (rev cs ! (length cs - Suc a))" using takeWhile_nth set_takeWhileD nth_mem unfolding b_def by (metis)
    then show False using s ne by (simp add: rev_nth)
  qed
  have "takeWhile isHTMLSpace (rev (drop a cs)) = takeWhile isHTMLSpace (rev cs)"
  proof -
    have "rev cs = rev (drop a cs) @ rev (take a cs)" by (simp flip: rev_append)
    moreover have "\<exists>c \<in> set (rev (drop a cs)). \<not> isHTMLSpace c" using s ne by (metis Cons_nth_drop_Suc list.set_intros(1) set_rev)
    ultimately show ?thesis by (metis takeWhile_append1)
  qed
  then have "dropWhile isHTMLSpace (rev (drop a cs)) = drop b (rev (drop a cs))" using dropWhile_eq_drop[of isHTMLSpace "rev (drop a cs)"] by (simp only: b_def)
  moreover have "rev (drop b (rev (drop a cs))) = take (length (drop a cs) - b) (drop a cs)" using rev_drop[of b "rev (drop a cs)"] by (simp only: rev_rev_ident length_rev)
  ultimately have "rev (dropWhile isHTMLSpace (rev (drop a cs))) = take (length cs - (a + b)) (drop a cs)" by (simp only: length_drop diff_diff_left)
  moreover have "trailing_loop cs 0 = b" "leading_loop cs 0 = a" using trailing_loop_eq[of 0 cs] by (simp_all add: leading_loop_eq a_def b_def)
  ultimately show ?thesis using ab d(1) ne by (auto simp: stripLeadingAndTrailingHTMLSpaces_def Let_def)
qed

definition digits_value :: "UChar list \<Rightarrow> int \<Rightarrow> int" where
  "digits_value ds v = foldl (\<lambda>v c. 10 * v + digitValue c) v ds"

lemma digit_facts: "isASCIIDigit c \<Longrightarrow> isCharacterAllowedInBase c 10 \<and> 0 \<le> digitValue c \<and> digitValue c \<le> 9"
  unfolding isASCIIDigit_def isCharacterAllowedInBase_def digitValue_def word_le_def word_less_def by auto

lemma digits_value_ge: "list_all isASCIIDigit ds \<Longrightarrow> 0 \<le> v \<Longrightarrow> v \<le> digits_value ds v"
proof (induction ds arbitrary: v)
  case (Cons c ds)
  then have "10 * v + digitValue c \<le> digits_value ds (10 * v + digitValue c)" using digit_facts[of c] by simp
  then show ?case using Cons.prems digit_facts[of c] by (simp add: digits_value_def)
qed (simp add: digits_value_def)

lemma over_iff: "0 \<le> d \<Longrightarrow> d \<le> 9 \<Longrightarrow> 0 \<le> r \<Longrightarrow> r < 10 \<Longrightarrow> (v > q \<or> (v = q \<and> d > r)) \<longleftrightarrow> 10 * v + d > 10 * q + r" for d r v q :: int
  by (cases "v = q") auto

lemma integral_loop_digits:
  assumes "list_all isASCIIDigit ds" "0 \<le> v" "v \<le> it_max ty" "9 \<le> it_max ty" and wrap: "\<And>x. 0 \<le> x \<Longrightarrow> x \<le> it_max ty \<Longrightarrow> it_wrap ty x = x"
  shows "integral_loop ty 10 False ds v = (if digits_value ds v \<le> it_max ty then Some (digits_value ds v, []) else None)"
  using assms(1-3)
proof (induction ds arbitrary: v)
  case (Cons c ds)
  have c: "isCharacterAllowedInBase c 10" "0 \<le> digitValue c" "digitValue c \<le> 9" using Cons.prems(1) digit_facts[of c] by auto
  have over: "(v > it_max ty div 10 \<or> (v = it_max ty div 10 \<and> digitValue c > it_max ty mod 10)) \<longleftrightarrow> 10 * v + digitValue c > it_max ty"
    using over_iff[OF c(2,3), of "it_max ty mod 10" "it_max ty div 10" v] by simp
  have d: "digits_value (c # ds) v = digits_value ds (10 * v + digitValue c)" by (simp add: digits_value_def)
  show ?case
  proof (cases "10 * v + digitValue c > it_max ty")
    case True
    moreover have "10 * v + digitValue c \<le> digits_value ds (10 * v + digitValue c)" using Cons.prems c(2) by (intro digits_value_ge) auto
    ultimately show ?thesis using c(1) over d by (simp add: Let_def)
  next
    case False
    then have "integral_loop ty 10 False ds (10 * v + digitValue c) = (if digits_value ds (10 * v + digitValue c) \<le> it_max ty then Some (digits_value ds (10 * v + digitValue c), []) else None)"
      using Cons.IH[of "10 * v + digitValue c"] Cons.prems c(2) by simp
    moreover have "it_wrap ty (10 * v + digitValue c) = 10 * v + digitValue c" using False c(2) Cons.prems(2) by (intro wrap) auto
    moreover have "\<not> (v > it_max ty div 10 \<or> (v = it_max ty div 10 \<and> digitValue c > it_max ty mod 10))" using False over by blast
    ultimately show ?thesis unfolding d using c(1) by (auto simp: Let_def)
  qed
qed (simp add: digits_value_def)

lemma strict_digits:
  assumes "list_all isASCIIDigit ds" "ds \<noteq> []" "9 \<le> it_max ty" "\<And>x. 0 \<le> x \<Longrightarrow> x \<le> it_max ty \<Longrightarrow> it_wrap ty x = x"
  shows "toIntegralType direction ty (Some ds) 10 = (if digits_value ds 0 \<le> it_max ty then (True, digits_value ds 0) else (False, 0))"
proof -
  obtain c cs where ds: "ds = c # cs" using assms(2) by (cases ds) auto
  then have c: "isASCIIDigit c" using assms(1) by simp
  then have "\<not> isSpaceOrNewline direction c" "c \<noteq> chDash" "c \<noteq> 0x2B" by (auto simp: isASCIIDigit_def isSpaceOrNewline_def isASCIISpace_def word_le_def)
  moreover have "isCharacterAllowedInBase c 10" using digit_facts[OF c] by simp
  ultimately show ?thesis using ds integral_loop_digits[OF assms(1) _ _ assms(3,4)] assms(3)
    by (simp add: toIntegralType_def Let_def del: integral_loop.simps)
qed

lemma decimal_digits: "list_all isASCIIDigit (decimal n)" "decimal n \<noteq> []" "digits_value (decimal n) 0 = int n"
proof -
  show d: "list_all isASCIIDigit (decimal n)" using decimal_value[of n] by simp
  show "decimal n \<noteq> []" by (subst decimal.simps) simp
  show "digits_value (decimal n) 0 = int n"
  proof (induction n rule: decimal.induct)
    case (1 n)
    have "digitValue (0x30 + of_nat (n mod 10)) = int (n mod 10)"
    proof -
      have "n mod 10 = 0 \<or> n mod 10 = 1 \<or> n mod 10 = 2 \<or> n mod 10 = 3 \<or> n mod 10 = 4 \<or> n mod 10 = 5 \<or> n mod 10 = 6 \<or> n mod 10 = 7 \<or>
        n mod 10 = 8 \<or> n mod 10 = 9" by presburger
      then show ?thesis by (auto simp: digitValue_def isASCIIDigit_def)
    qed
    moreover have "10 * int (n div 10) + int (n mod 10) = int n" by (metis mult_div_mod_eq of_nat_add of_nat_mult of_nat_numeral)
    ultimately show ?case using 1 by (subst decimal.simps) (simp add: digits_value_def)
  qed
qed

text \<open>Decimal notation with a sign.\<close>

definition signed_decimal :: "int \<Rightarrow> UChar list" where
  "signed_decimal n = (if n < 0 then [chDash] else []) @ decimal (nat \<bar>n\<bar>)"

lemma after_spaces:
  assumes "list_all isHTMLSpace ws" "cs \<noteq> []" "\<not> isHTMLSpace (hd cs)"
  shows "dropWhile isHTMLSpace (ws @ cs) = cs"
proof -
  have "dropWhile isHTMLSpace (ws @ cs) = dropWhile isHTMLSpace cs" using assms(1) by (intro dropWhile_append2) (auto simp: list_all_iff)
  also have "\<dots> = cs" using assms(2,3) by (cases cs) auto
  finally show ?thesis .
qed

lemma take_digits: "list_all isASCIIDigit ds \<Longrightarrow> rest = [] \<or> \<not> isASCIIDigit (hd rest) \<Longrightarrow> takeWhile isASCIIDigit (ds @ rest) = ds"
  by (cases rest) (simp_all add: takeWhile_append list_all_iff)

lemma wrap_int: "it_max int_type = 2147483647" "- 2147483648 \<le> x \<Longrightarrow> x \<le> 2147483647 \<Longrightarrow> it_wrap int_type x = x"
  by (simp_all add: int_type_def)

lemma wrap_unsigned: "it_max unsigned_type = 4294967295" "0 \<le> x \<Longrightarrow> x \<le> 4294967295 \<Longrightarrow> it_wrap unsigned_type x = x"
  by (simp_all add: unsigned_type_def)

text \<open>C33: an integer written in decimal, behind any spaces and in front of anything that is not a digit, is read back exactly when its absolute value is at most the largest
  \<open>int\<close>; the smallest \<open>int\<close> is rejected although it is one, because the sign is applied after the conversion. A natural number is read back by
  \<open>parseHTMLNonNegativeInteger\<close> exactly when it is an \<open>unsigned\<close>.\<close>

theorem html_integer_roundtrip:
  assumes "list_all isHTMLSpace ws" "rest = [] \<or> \<not> isASCIIDigit (hd rest)"
  shows "parseHTMLInteger direction (ws @ signed_decimal n @ rest) v = (if \<bar>n\<bar> < 2 ^ 31 then (True, n) else (False, 0)) \<and>
    parseHTMLNonNegativeInteger direction (ws @ decimal k @ rest) v = (if k < 2 ^ 32 then (True, int k) else (False, 0))"
proof
  have digit: "isASCIIDigit (hd (decimal m @ rest))" "decimal m @ rest \<noteq> []" for m using decimal_digits(1,2)[of m] by (cases "decimal m"; simp)+
  have not: "\<not> isHTMLSpace c" "c \<noteq> chDash" "c \<noteq> 0x2B" if "isASCIIDigit c" for c using that by (auto simp: isASCIIDigit_def isHTMLSpace_def word_le_def)
  obtain d ds where d: "decimal (nat \<bar>n\<bar>) @ rest = d # ds" "isASCIIDigit d" using digit[of "nat \<bar>n\<bar>"] by (cases "decimal (nat \<bar>n\<bar>) @ rest") auto
  obtain e es where e: "decimal k @ rest = e # es" "isASCIIDigit e" using digit[of k] by (cases "decimal k @ rest") auto
  have i: "charactersToIntStrict direction (takeWhile isASCIIDigit (d # ds)) = (if \<bar>n\<bar> < 2 ^ 31 then (True, \<bar>n\<bar>) else (False, 0))"
    using strict_digits[OF decimal_digits(1,2), of int_type direction "nat \<bar>n\<bar>"] take_digits[OF decimal_digits(1) assms(2), of "nat \<bar>n\<bar>"] d(1)
    by (auto simp: charactersToIntStrict_def wrap_int decimal_digits(3))
  have u: "charactersToUIntStrict direction (takeWhile isASCIIDigit (e # es)) = (if k < 2 ^ 32 then (True, int k) else (False, 0))"
    using strict_digits[OF decimal_digits(1,2), of unsigned_type direction k] take_digits[OF decimal_digits(1) assms(2), of k] e(1)
    by (auto simp: charactersToUIntStrict_def wrap_unsigned decimal_digits(3))
  show "parseHTMLNonNegativeInteger direction (ws @ decimal k @ rest) v = (if k < 2 ^ 32 then (True, int k) else (False, 0))"
    using after_spaces[OF assms(1), of "e # es"] not[OF e(2)] e(2) u by (simp add: parseHTMLNonNegativeInteger_def e(1))
  show "parseHTMLInteger direction (ws @ signed_decimal n @ rest) v = (if \<bar>n\<bar> < 2 ^ 31 then (True, n) else (False, 0))"
  proof (cases "n < 0")
    case True
    have "\<not> isHTMLSpace chDash" by (simp add: isHTMLSpace_def)
    then have "dropWhile isHTMLSpace (ws @ signed_decimal n @ rest) = chDash # d # ds" using True after_spaces[OF assms(1), of "chDash # d # ds"] d(1)
      by (simp add: signed_decimal_def)
    then show ?thesis using True d(2) i wrap_int by (auto simp: parseHTMLInteger_def split: if_splits)
  next
    case False
    then have "dropWhile isHTMLSpace (ws @ signed_decimal n @ rest) = d # ds" using after_spaces[OF assms(1), of "d # ds"] d not[OF d(2)] by (simp add: signed_decimal_def)
    then show ?thesis using False d(2) i not[OF d(2)] wrap_int by (auto simp: parseHTMLInteger_def split: if_splits)
  qed
qed

theorem html_integer_roundtrip_witness:
  "parseHTMLInteger (\<lambda>_. False) (lit '' -2147483648px'') 7 = (False, 0) \<and> parseHTMLInteger (\<lambda>_. False) (lit '' -2147483647px'') 7 = (True, - 2147483647)"
proof -
  have s: "lit '' -2147483648px'' = [chSpace] @ signed_decimal (- 2147483648) @ lit ''px''" "lit '' -2147483647px'' = [chSpace] @ signed_decimal (- 2147483647) @ lit ''px''"
    by (simp_all add: signed_decimal_def decimal.simps lit_def)
  have a: "list_all isHTMLSpace [chSpace]" "lit ''px'' = [] \<or> \<not> isASCIIDigit (hd (lit ''px''))" by (simp_all add: isHTMLSpace_def isASCIIDigit_def lit_def)
  show ?thesis unfolding s
    using html_integer_roundtrip[OF a, of "\<lambda>_. False" "- 2147483648" 7 0] html_integer_roundtrip[OF a, of "\<lambda>_. False" "- 2147483647" 7 0] by simp
qed

end
