(* ===== verification/Tree_Builder.thy ===== *)
theory Tree_Builder
  imports Construction_Site Tokenizer Parser_Idioms
begin

text \<open>
  The tree builder: \<open>src/Source/WebCore/html/parser/HTMLTreeBuilder.h\<close> and \<open>HTMLTreeBuilder.cpp\<close>, one definition per member
  function. A member function is an action, which takes the state of the builder to its next state, or to \<open>None\<close> where the source
  fails an assertion or follows a null pointer; \<open>steps\<close>, \<open>test\<close>, \<open>query\<close> and \<open>branch\<close> are its statements. \<open>parseError\<close> and \<open>notImplemented\<close>
  do nothing in the source and are left out. A token the code changes in place (\<open>setName\<close>, adjusted attributes) is not read again
  after the call, so the change stays in the callee.

  The member functions call each other in cycles: a start tag can act as an end tag, which can reprocess a token in another mode. Such
  calls go through an argument \<open>self\<close>, one constructor of \<open>Call\<close> for each function on a cycle, and \<open>Tree_Run\<close> ties the knot.

  What the build generates (the names of SVG, MathML, XLink and XML attributes and tags), the localised text of \<open>isindex\<close>, the lower case
  of ICU and the position of the parser are arguments, \<open>TreeEnv\<close>. The tokenizer is the one of \<^theory_text>\<open>Tokenizer\<close>, when the parser has one.
\<close>

section \<open>Data\<close>

datatype (plugins only: code) InsertionMode =
    InitialMode | BeforeHTMLMode | BeforeHeadMode | InHeadMode | InHeadNoscriptMode | AfterHeadMode | TemplateContentsMode
  | InBodyMode | TextMode | InTableMode | InTableTextMode | InCaptionMode | InColumnGroupMode | InTableBodyMode | InRowMode
  | InCellMode | InSelectMode | InSelectInTableMode | AfterBodyMode | InFramesetMode | AfterFramesetMode | AfterAfterBodyMode
  | AfterAfterFramesetMode

record TreeEnv =
  te_site :: SiteEnv
  te_lower :: "UChar list \<Rightarrow> UChar list"
  te_svgTags :: "QualifiedName list"
  te_svgAttrs :: "QualifiedName list"
  te_mathmlAttrs :: "QualifiedName list"
  te_xlinkAttrs :: "QualifiedName list"
  te_xmlAttrs :: "QualifiedName list"
  te_xmlnsNamespaceURI :: AtomicString
  te_searchableIndexIntroduction :: "UChar list"
  te_textPosition :: "int \<times> int"

record HTMLTreeBuilder =
  tb_framesetOk :: bool
  tb_isAttached :: bool
  tb_fragmentContext :: "(nat \<times> ContainerNode) option"   \<comment> \<open>the fragment and the context element\<close>
  tb_tree :: HTMLConstructionSite
  tb_insertionMode :: InsertionMode
  tb_originalInsertionMode :: InsertionMode
  tb_pendingTableCharacters :: "UChar list"
  tb_shouldSkipLeadingNewline :: bool
  tb_tokenizer :: "HTMLTokenizer option"
  tb_scriptToProcess :: "nat option"
  tb_scriptToProcessStartPosition :: "int \<times> int"
  tb_options :: HTMLParserOptions

record ExternalCharacterTokenBuffer =
  eb_current :: "UChar list"     \<comment> \<open>the characters from \<open>m_current\<close> to \<open>m_end\<close>\<close>
  eb_isAll8BitData :: bool

datatype Call = StartTagCall AtomicHTMLToken | EndTagCall AtomicHTMLToken | TokenCall AtomicHTMLToken
  | CharactersCall ExternalCharacterTokenBuffer | EndOfFileCall AtomicHTMLToken | DoctypeCall AtomicHTMLToken | CommentCall AtomicHTMLToken

type_synonym act = "HTMLTreeBuilder \<Rightarrow> HTMLTreeBuilder option"
type_synonym bool_act = "HTMLTreeBuilder \<Rightarrow> (bool \<times> HTMLTreeBuilder) option"

section \<open>Statements\<close>

definition andThen :: "act \<Rightarrow> act \<Rightarrow> act" where
  "andThen a k b = (case a b of None \<Rightarrow> None | Some b1 \<Rightarrow> k b1)"

fun steps :: "act list \<Rightarrow> act" where
  "steps [] = Some"
| "steps (a # as) = andThen a (steps as)"

definition test :: "(HTMLTreeBuilder \<Rightarrow> bool option) \<Rightarrow> act \<Rightarrow> act \<Rightarrow> act" where
  "test q a a' b = (case q b of None \<Rightarrow> None | Some r \<Rightarrow> if r then a b else a' b)"

definition query :: "(HTMLTreeBuilder \<Rightarrow> 'a option) \<Rightarrow> ('a \<Rightarrow> act) \<Rightarrow> act" where
  "query q k b = (case q b of None \<Rightarrow> None | Some x \<Rightarrow> k x b)"

definition branch :: "bool_act \<Rightarrow> act \<Rightarrow> act \<Rightarrow> act" where
  "branch h a a' b = (case h b of None \<Rightarrow> None | Some (r, b1) \<Rightarrow> if r then a b1 else a' b1)"

definition returning :: "bool \<Rightarrow> act \<Rightarrow> bool_act" where
  "returning r a b = map_option (Pair r) (a b)"

definition test_bool :: "(HTMLTreeBuilder \<Rightarrow> bool option) \<Rightarrow> bool_act \<Rightarrow> bool_act \<Rightarrow> bool_act" where
  "test_bool q a a' b = (case q b of None \<Rightarrow> None | Some r \<Rightarrow> if r then a b else a' b)"

definition asserting :: "(HTMLTreeBuilder \<Rightarrow> bool option) \<Rightarrow> act" where
  "asserting q b = do { r \<leftarrow> q b; ASSERT r; Some b }"

definition on_tree :: "(HTMLConstructionSite \<Rightarrow> HTMLConstructionSite option) \<Rightarrow> act" where
  "on_tree f b = do { t \<leftarrow> f (tb_tree b); Some (b\<lparr>tb_tree := t\<rparr>) }"

definition on_stack :: "(HTMLElementStack \<Rightarrow> HTMLElementStack option) \<Rightarrow> act" where
  "on_stack f = on_tree (on_openElements f)"

definition on_formatting :: "(HTMLFormattingElementList \<Rightarrow> HTMLFormattingElementList option) \<Rightarrow> act" where
  "on_formatting f = on_tree (\<lambda>t. do { l \<leftarrow> f (hs_activeFormattingElements t); Some (t\<lparr>hs_activeFormattingElements := l\<rparr>) })"

text \<open>The scope of a \<open>RedirectToFosterParentGuard\<close>.\<close>

definition redirecting :: "act \<Rightarrow> act" where
  "redirecting a b = do {
     let wasRedirectingBefore = hs_redirectAttachToFosterParent (tb_tree b);
     b1 \<leftarrow> a (b\<lparr>tb_tree := (tb_tree b)\<lparr>hs_redirectAttachToFosterParent := True\<rparr>\<rparr>);
     Some (b1\<lparr>tb_tree := (tb_tree b1)\<lparr>hs_redirectAttachToFosterParent := wasRedirectingBefore\<rparr>\<rparr>) }"

definition setInsertionMode :: "InsertionMode \<Rightarrow> act" where
  "setInsertionMode mode b = Some (b\<lparr>tb_insertionMode := mode\<rparr>)"

definition set_framesetOk :: "bool \<Rightarrow> act" where
  "set_framesetOk v b = Some (b\<lparr>tb_framesetOk := v\<rparr>)"

definition setShouldSkipLeadingNewline :: "bool \<Rightarrow> act" where
  "setShouldSkipLeadingNewline v b = Some (b\<lparr>tb_shouldSkipLeadingNewline := v\<rparr>)"

definition save_originalInsertionMode :: act where
  "save_originalInsertionMode b = Some (b\<lparr>tb_originalInsertionMode := tb_insertionMode b\<rparr>)"

definition setTokenizerState :: "State \<Rightarrow> act" where
  "setTokenizerState st b = Some (b\<lparr>tb_tokenizer := map_option (\<lambda>t. t\<lparr>tk_state := st\<rparr>) (tb_tokenizer b)\<rparr>)"

section \<open>Questions\<close>

definition named :: "AtomicHTMLToken \<Rightarrow> string list \<Rightarrow> bool" where
  "named token names \<longleftrightarrow> list_ex (\<lambda>n. am_name token = Some (lit n)) names"

abbreviation localName :: "string \<Rightarrow> AtomicString" where
  "localName n \<equiv> Some (lit n)"

definition mode_is :: "InsertionMode list \<Rightarrow> HTMLTreeBuilder \<Rightarrow> bool option" where
  "mode_is modes b = Some (tb_insertionMode b \<in> set modes)"

definition isParsingFragment :: "HTMLTreeBuilder \<Rightarrow> bool option" where
  "isParsingFragment b = Some (tb_fragmentContext b \<noteq> None)"

definition ask :: "(HTMLElementStack \<Rightarrow> 'a option) \<Rightarrow> HTMLTreeBuilder \<Rightarrow> 'a option" where
  "ask q b = q (hs_openElements (tb_tree b))"

definition current :: "(HTMLStackItem \<Rightarrow> bool) \<Rightarrow> HTMLTreeBuilder \<Rightarrow> bool option" where
  "current P b = map_option P (currentStackItem (tb_tree b))"

definition not_q :: "(HTMLTreeBuilder \<Rightarrow> bool option) \<Rightarrow> HTMLTreeBuilder \<Rightarrow> bool option" where
  "not_q q b = map_option Not (q b)"

text \<open>Short-circuit conjunction and disjunction.\<close>

definition and_q :: "(HTMLTreeBuilder \<Rightarrow> bool option) \<Rightarrow> (HTMLTreeBuilder \<Rightarrow> bool option) \<Rightarrow> HTMLTreeBuilder \<Rightarrow> bool option" where
  "and_q p q b = Option.bind (p b) (\<lambda>r. if r then q b else Some False)"

definition or_q :: "(HTMLTreeBuilder \<Rightarrow> bool option) \<Rightarrow> (HTMLTreeBuilder \<Rightarrow> bool option) \<Rightarrow> HTMLTreeBuilder \<Rightarrow> bool option" where
  "or_q p q b = Option.bind (p b) (\<lambda>r. if r then Some True else q b)"

definition has_form :: "HTMLTreeBuilder \<Rightarrow> bool option" where
  "has_form b = Some (hs_form (tb_tree b) \<noteq> None)"

definition isHTMLSpaceOrReplacementCharacter :: "UChar \<Rightarrow> bool" where
  "isHTMLSpaceOrReplacementCharacter c \<longleftrightarrow> isHTMLSpace c \<or> c = 0xFFFD"

definition isAllWhitespace :: "UChar list \<Rightarrow> bool" where
  "isAllWhitespace cs \<longleftrightarrow> list_all isHTMLSpace cs"

definition isAllWhitespaceOrReplacementCharacters :: "UChar list \<Rightarrow> bool" where
  "isAllWhitespaceOrReplacementCharacters cs \<longleftrightarrow> list_all isHTMLSpaceOrReplacementCharacter cs"

definition numberedHeaderTags :: "string list" where
  "numberedHeaderTags = [''h1'', ''h2'', ''h3'', ''h4'', ''h5'', ''h6'']"

definition captionColOrColgroupTags :: "string list" where
  "captionColOrColgroupTags = [''caption'', ''col'', ''colgroup'']"

definition tableCellContextTags :: "string list" where
  "tableCellContextTags = [''th'', ''td'']"

definition tableBodyContextTags :: "string list" where
  "tableBodyContextTags = [''tbody'', ''tfoot'', ''thead'']"

definition nonAnchorNonNobrFormattingTags :: "string list" where
  "nonAnchorNonNobrFormattingTags = [''b'', ''big'', ''code'', ''em'', ''font'', ''i'', ''s'', ''small'', ''strike'', ''strong'', ''tt'', ''u'']"

definition nonAnchorFormattingTags :: "string list" where
  "nonAnchorFormattingTags = ''nobr'' # nonAnchorNonNobrFormattingTags"

definition formattingTags :: "string list" where
  "formattingTags = ''a'' # nonAnchorFormattingTags"

partial_function (option) closestFormAncestor :: "nat \<Rightarrow> DOM \<Rightarrow> nat option option" where
  "closestFormAncestor element D = do {
     k \<leftarrow> node_kind element D;
     if kind_is (\<lambda>q. qn_matches q (htmlName ''form'')) k then Some (Some element)
     else do {
       parent \<leftarrow> parentNode element D;
       (case parent of None \<Rightarrow> Some None
        | Some p \<Rightarrow> do {
            pk \<leftarrow> node_kind p D;
            if kind_is (\<lambda>_. True) pk then closestFormAncestor p D else Some None }) } }"

section \<open>Buffers of characters\<close>

definition eb_isEmpty :: "ExternalCharacterTokenBuffer \<Rightarrow> bool" where
  "eb_isEmpty buffer \<longleftrightarrow> eb_current buffer = []"

definition buffer_token :: "AtomicHTMLToken \<Rightarrow> ExternalCharacterTokenBuffer option" where
  "buffer_token token = do {
     cs \<leftarrow> am_characters token;
     all8 \<leftarrow> am_isAll8BitData token;
     ASSERT (cs \<noteq> []);
     Some \<lparr>eb_current = cs, eb_isAll8BitData = all8\<rparr> }"

text \<open>Whether a string is stored in 8 bits cannot be seen in its characters; either way they are copied unchanged.\<close>

definition buffer_string :: "UChar list \<Rightarrow> ExternalCharacterTokenBuffer option" where
  "buffer_string cs = do { ASSERT (cs \<noteq> []); Some \<lparr>eb_current = cs, eb_isAll8BitData = False\<rparr> }"

definition eb_string :: "ExternalCharacterTokenBuffer \<Rightarrow> UChar list \<Rightarrow> UChar list" where
  "eb_string buffer cs = (if eb_isAll8BitData buffer then make8BitFrom16BitSource cs else cs)"

definition skipAtMostOneLeadingNewline :: "ExternalCharacterTokenBuffer \<Rightarrow> ExternalCharacterTokenBuffer option" where
  "skipAtMostOneLeadingNewline buffer = (case eb_current buffer of [] \<Rightarrow> None
     | c # cs \<Rightarrow> Some (if c = chLF then buffer\<lparr>eb_current := cs\<rparr> else buffer))"

definition skipLeading :: "(UChar \<Rightarrow> bool) \<Rightarrow> ExternalCharacterTokenBuffer \<Rightarrow> ExternalCharacterTokenBuffer option" where
  "skipLeading P buffer = do { ASSERT (\<not> eb_isEmpty buffer); Some (buffer\<lparr>eb_current := dropWhile P (eb_current buffer)\<rparr>) }"

definition skipLeadingWhitespace :: "ExternalCharacterTokenBuffer \<Rightarrow> ExternalCharacterTokenBuffer option" where
  "skipLeadingWhitespace = skipLeading isHTMLSpace"

definition skipLeadingNonWhitespace :: "ExternalCharacterTokenBuffer \<Rightarrow> ExternalCharacterTokenBuffer option" where
  "skipLeadingNonWhitespace = skipLeading (\<lambda>c. \<not> isHTMLSpace c)"

definition takeLeadingWhitespace :: "ExternalCharacterTokenBuffer \<Rightarrow> (UChar list \<times> ExternalCharacterTokenBuffer) option" where
  "takeLeadingWhitespace buffer = do {
     buffer1 \<leftarrow> skipLeading isHTMLSpace buffer;
     Some (eb_string buffer (takeWhile isHTMLSpace (eb_current buffer)), buffer1) }"

definition takeRemaining :: "ExternalCharacterTokenBuffer \<Rightarrow> (UChar list \<times> ExternalCharacterTokenBuffer) option" where
  "takeRemaining buffer = do {
     ASSERT (\<not> eb_isEmpty buffer); Some (eb_string buffer (eb_current buffer), buffer\<lparr>eb_current := []\<rparr>) }"

definition takeRemainingWhitespace :: "ExternalCharacterTokenBuffer \<Rightarrow> (UChar list \<times> ExternalCharacterTokenBuffer) option" where
  "takeRemainingWhitespace buffer = do {
     ASSERT (\<not> eb_isEmpty buffer); Some (filter isHTMLSpace (eb_current buffer), buffer\<lparr>eb_current := []\<rparr>) }"

section \<open>Calls on the tree\<close>

type_synonym self = "Call \<Rightarrow> act"

definition nothing :: act where
  "nothing = Some"

text \<open>\<open>ASSERT_NOT_REACHED\<close>.\<close>

definition unreachable :: act where
  "unreachable b = None"

definition on_site :: "(HTMLConstructionSite \<Rightarrow> HTMLConstructionSite) \<Rightarrow> act" where
  "on_site f = on_tree (\<lambda>s. Some (f s))"

definition asserting_type :: "TokenType \<Rightarrow> AtomicHTMLToken \<Rightarrow> act" where
  "asserting_type ty token = asserting (\<lambda>_. Some (am_type token = ty))"

definition insert_html :: "TreeEnv \<Rightarrow> AtomicHTMLToken \<Rightarrow> act" where
  "insert_html E token = on_tree (insertHTMLElement (te_site E) token)"

definition insert_self_closing :: "TreeEnv \<Rightarrow> AtomicHTMLToken \<Rightarrow> act" where
  "insert_self_closing E token = on_tree (insertSelfClosingHTMLElement (te_site E) token)"

definition insert_foreign :: "TreeEnv \<Rightarrow> AtomicHTMLToken \<Rightarrow> AtomicString \<Rightarrow> act" where
  "insert_foreign E token namespaceURI = on_tree (insertForeignElement (te_site E) token namespaceURI)"

definition insert_text :: "TreeEnv \<Rightarrow> UChar list \<Rightarrow> act" where
  "insert_text E cs = on_tree (insertTextNode (te_site E) cs)"

definition reconstruct :: "TreeEnv \<Rightarrow> act" where
  "reconstruct E = on_tree (reconstructTheActiveFormattingElements (te_site E))"

definition append_marker :: act where
  "append_marker = on_formatting (\<lambda>l. Some (appendMarker l))"

definition clear_to_marker :: act where
  "clear_to_marker = on_formatting (\<lambda>l. Some (clearToLastMarker l))"

text \<open>\<open>openElements()->remove(element)\<close>: the tag of the element is the one its record has.\<close>

definition remove_element :: "nat \<Rightarrow> HTMLElementStack \<Rightarrow> HTMLElementStack option" where
  "remove_element element st = do { r \<leftarrow> es_find element st; es_remove (si_node (er_item r)) st }"

section \<open>Names of foreign content\<close>

text \<open>The maps are association lists; \<open>HashMap::add\<close> keeps the first entry of a key, as \<open>map_of\<close> finds it.\<close>

type_synonym PrefixedNameToQualifiedNameMap = "(AtomicString \<times> QualifiedName) list"

definition mapLoweredLocalNameToName :: "TreeEnv \<Rightarrow> QualifiedName list \<Rightarrow> PrefixedNameToQualifiedNameMap" where
  "mapLoweredLocalNameToName E names =
     filter (\<lambda>(lowered, name). lowered \<noteq> qn_localName name) (map (\<lambda>name. (map_option (te_lower E) (qn_localName name), name)) names)"

definition adjustSVGTagNameCase :: "TreeEnv \<Rightarrow> AtomicHTMLToken \<Rightarrow> AtomicHTMLToken" where
  "adjustSVGTagNameCase E token = (case map_of (mapLoweredLocalNameToName E (te_svgTags E)) (am_name token) of
      Some casedName \<Rightarrow> if qn_localName casedName = None then token else token\<lparr>am_name := qn_localName casedName\<rparr>
    | None \<Rightarrow> token)"

definition adjust_names :: "PrefixedNameToQualifiedNameMap \<Rightarrow> AtomicHTMLToken \<Rightarrow> AtomicHTMLToken" where
  "adjust_names m token = token\<lparr>am_attributes := map (\<lambda>a. case map_of m (qn_localName (da_name a)) of
      Some name \<Rightarrow> if qn_localName name \<noteq> None then a\<lparr>da_name := name\<rparr> else a
    | None \<Rightarrow> a) (am_attributes token)\<rparr>"

definition adjustAttributes :: "TreeEnv \<Rightarrow> QualifiedName list \<Rightarrow> AtomicHTMLToken \<Rightarrow> AtomicHTMLToken" where
  "adjustAttributes E names = adjust_names (mapLoweredLocalNameToName E names)"

definition adjustSVGAttributes :: "TreeEnv \<Rightarrow> AtomicHTMLToken \<Rightarrow> AtomicHTMLToken" where
  "adjustSVGAttributes E = adjustAttributes E (te_svgAttrs E)"

definition adjustMathMLAttributes :: "TreeEnv \<Rightarrow> AtomicHTMLToken \<Rightarrow> AtomicHTMLToken" where
  "adjustMathMLAttributes E = adjustAttributes E (te_mathmlAttrs E)"

definition addNamesWithPrefix :: "string \<Rightarrow> QualifiedName list \<Rightarrow> PrefixedNameToQualifiedNameMap" where
  "addNamesWithPrefix pfx names = map (\<lambda>name.
     (Some (lit pfx @ lit '':'' @ (case qn_localName name of None \<Rightarrow> [] | Some n \<Rightarrow> n)), name\<lparr>qn_prefix := localName pfx\<rparr>)) names"

definition adjustForeignAttributes :: "TreeEnv \<Rightarrow> AtomicHTMLToken \<Rightarrow> AtomicHTMLToken" where
  "adjustForeignAttributes E = adjust_names (addNamesWithPrefix ''xlink'' (te_xlinkAttrs E) @ addNamesWithPrefix ''xml'' (te_xmlAttrs E)
     @ [(localName ''xmlns'', \<lparr>qn_prefix = None, qn_localName = localName ''xmlns'', qn_namespaceURI = te_xmlnsNamespaceURI E\<rparr>),
        (localName ''xmlns:xlink'', \<lparr>qn_prefix = localName ''xmlns'', qn_localName = localName ''xlink'', qn_namespaceURI = te_xmlnsNamespaceURI E\<rparr>)])"

section \<open>Insertion mode\<close>

text \<open>The loop of \<open>resetInsertionModeAppropriately\<close>, which goes down the stack; running off the stack follows a null pointer.\<close>

definition mode_for_item :: "HTMLStackItem \<Rightarrow> InsertionMode option" where
  "mode_for_item item =
     (if hasTagName item (htmlName ''select'') then Some InSelectMode
      else if hasTagName item (htmlName ''td'') \<or> hasTagName item (htmlName ''th'') then Some InCellMode
      else if hasTagName item (htmlName ''tr'') then Some InRowMode
      else if hasTagName item (htmlName ''tbody'') \<or> hasTagName item (htmlName ''thead'') \<or> hasTagName item (htmlName ''tfoot'') then Some InTableBodyMode
      else if hasTagName item (htmlName ''caption'') then Some InCaptionMode
      else if hasTagName item (htmlName ''colgroup'') then Some InColumnGroupMode
      else if isHTMLTableElement (si_node item) then Some InTableMode
      else if hasTagName item (htmlName ''head'') then Some InBodyMode
      else if hasTagName item (htmlName ''body'') then Some InBodyMode
      else if hasTagName item (htmlName ''frameset'') then Some InFramesetMode
      else None)"

fun reset_loop :: "(nat \<times> ContainerNode) option \<Rightarrow> ContainerNode option \<Rightarrow> ElementRecord list \<Rightarrow> InsertionMode option" where
  "reset_loop context root [] = None"
| "reset_loop context root (r # rs) = do {
     let last = (Some (er_node r) = map_option nd_address root);
     ASSERT (last \<longrightarrow> context \<noteq> None);
     item \<leftarrow> (if last then do { (fragment, e) \<leftarrow> context; Some (createItem e ItemForContextElement) } else Some (er_item r));
     (case mode_for_item item of Some mode \<Rightarrow> Some mode
      | None \<Rightarrow>
          if hasTagName item (htmlName ''html'') then do { ASSERT (context \<noteq> None); Some BeforeHeadMode }
          else if last then Some InBodyMode
          else reset_loop context root rs) }"

definition resetInsertionModeAppropriately :: act where
  "resetInsertionModeAppropriately b = do {
     mode \<leftarrow> reset_loop (tb_fragmentContext b) (es_getRootNode (hs_openElements (tb_tree b))) (es_top (hs_openElements (tb_tree b)));
     setInsertionMode mode b }"

definition defaultForInitial :: "TreeEnv \<Rightarrow> act" where
  "defaultForInitial E = steps [on_site (setDefaultCompatibilityMode (te_site E)), setInsertionMode BeforeHTMLMode]"

definition fakeToken :: "TokenType \<Rightarrow> AtomicString \<Rightarrow> DOMAttribute list \<Rightarrow> (AtomicHTMLToken \<Rightarrow> act) \<Rightarrow> act" where
  "fakeToken ty name as = query (\<lambda>_. makeAtomicHTMLToken_name ty name as)"

definition insert_html_element :: "TreeEnv \<Rightarrow> AtomicHTMLToken \<Rightarrow> act" where
  "insert_html_element E token = on_tree (insertHTMLHtmlStartTagBeforeHTML (te_site E) token)"

definition defaultForBeforeHTML :: "TreeEnv \<Rightarrow> act" where
  "defaultForBeforeHTML E = steps [fakeToken StartTag (localName ''html'') [] (insert_html_element E), setInsertionMode BeforeHeadMode]"

definition take_pendingTableCharacters :: "(UChar list \<Rightarrow> act) \<Rightarrow> act" where
  "take_pendingTableCharacters k b = k (tb_pendingTableCharacters b) (b\<lparr>tb_pendingTableCharacters := []\<rparr>)"

definition restore_originalInsertionMode :: act where
  "restore_originalInsertionMode b = setInsertionMode (tb_originalInsertionMode b) b"

definition defaultForInTableText :: "TreeEnv \<Rightarrow> act" where
  "defaultForInTableText E = take_pendingTableCharacters (\<lambda>cs.
     if \<not> isAllWhitespace cs then redirecting (steps [
         reconstruct E,
         insert_text E cs,
         set_framesetOk False,
         restore_originalInsertionMode])
     else steps [insert_text E cs, restore_originalInsertionMode])"

section \<open>Elements with raw text\<close>

definition processGenericRCDATAStartTag :: "TreeEnv \<Rightarrow> AtomicHTMLToken \<Rightarrow> act" where
  "processGenericRCDATAStartTag E token = steps [
     asserting_type StartTag token,
     insert_html E token,
     setTokenizerState RCDATAState,
     save_originalInsertionMode,
     setInsertionMode TextMode]"

definition processGenericRawTextStartTag :: "TreeEnv \<Rightarrow> AtomicHTMLToken \<Rightarrow> act" where
  "processGenericRawTextStartTag E token = steps [
     asserting_type StartTag token,
     insert_html E token,
     setTokenizerState RAWTEXTState,
     save_originalInsertionMode,
     setInsertionMode TextMode]"

definition set_scriptToProcessStartPosition :: "int \<times> int \<Rightarrow> act" where
  "set_scriptToProcessStartPosition position b = Some (b\<lparr>tb_scriptToProcessStartPosition := position\<rparr>)"

definition processScriptStartTag :: "TreeEnv \<Rightarrow> AtomicHTMLToken \<Rightarrow> act" where
  "processScriptStartTag E token = steps [
     asserting_type StartTag token,
     on_tree (insertScriptElement (te_site E) token),
     setTokenizerState ScriptDataState,
     save_originalInsertionMode,
     set_scriptToProcessStartPosition (te_textPosition E),
     setInsertionMode TextMode]"

definition set_scriptToProcess :: act where
  "set_scriptToProcess b =
     (if scriptingContentIsAllowed (hs_parserContentPolicy (tb_tree b)) then do {
        e \<leftarrow> currentElement (tb_tree b);
        Some (b\<lparr>tb_scriptToProcess := Some e\<rparr>) }
      else Some b)"

section \<open>End tags that reprocess nothing\<close>

definition processBodyEndTagForInBody :: "AtomicHTMLToken \<Rightarrow> bool_act" where
  "processBodyEndTagForInBody token = test_bool (\<lambda>_. Some (am_type token = EndTag \<and> named token [''body'']))
     (test_bool (ask (inScope (localName ''body'')))
        (returning True (setInsertionMode AfterBodyMode))
        (returning False nothing))
     (returning False unreachable)"

definition popUntilTag :: "string \<Rightarrow> act" where
  "popUntilTag n = on_stack (popUntilPopped (localName n))"

definition pop :: act where
  "pop = on_stack es_pop"

definition processCaptionEndTagForInCaption :: bool_act where
  "processCaptionEndTagForInCaption = test_bool (not_q (ask (inTableScope (localName ''caption''))))
     (returning False (asserting isParsingFragment))
     (returning True (steps [
        on_tree generateImpliedEndTags,
        popUntilTag ''caption'',
        clear_to_marker,
        setInsertionMode InTableMode]))"

definition processTrEndTagForInRow :: bool_act where
  "processTrEndTagForInRow = test_bool (not_q (ask (inTableScope (localName ''tr''))))
     (returning False (asserting isParsingFragment))
     (returning True (steps [
        on_stack popUntilTableRowScopeMarker,
        asserting (current (\<lambda>i. hasTagName i (htmlName ''tr''))),
        pop,
        setInsertionMode InTableBodyMode]))"

definition processTableEndTagForInTable :: bool_act where
  "processTableEndTagForInTable = test_bool (not_q (ask (inTableScope (localName ''table''))))
     (returning False (asserting isParsingFragment))
     (returning True (steps [popUntilTag ''table'', resetInsertionModeAppropriately]))"

definition current_is_root :: "HTMLTreeBuilder \<Rightarrow> bool option" where
  "current_is_root b = currentIsRootNode (tb_tree b)"

definition processColgroupEndTagForInColumnGroup :: bool_act where
  "processColgroupEndTagForInColumnGroup = test_bool current_is_root
     (returning False (asserting isParsingFragment))
     (returning True (steps [pop, setInsertionMode InTableMode]))"

fun other_end_tag_loop :: "AtomicString \<Rightarrow> ElementRecord list \<Rightarrow> HTMLStackItem option option" where
  "other_end_tag_loop name [] = None"
| "other_end_tag_loop name (r # rs) =
     (if matchesHTMLTag (er_item r) name then Some (Some (er_item r))
      else if isSpecialNode (er_item r) then Some None
      else other_end_tag_loop name rs)"

definition processAnyOtherEndTagForInBody :: "AtomicHTMLToken \<Rightarrow> act" where
  "processAnyOtherEndTagForInBody token = steps [
     asserting_type EndTag token,
     query (ask (\<lambda>st. other_end_tag_loop (am_name token) (es_top st))) (\<lambda>found. case found of
        None \<Rightarrow> nothing
      | Some item \<Rightarrow> steps [
          on_tree (generateImpliedEndTagsWithExclusion (am_name token)),
          on_stack (\<lambda>st. do { e \<leftarrow> item_element item; popUntilPopped_element e st })])]"

end
