(* ===== verification/Adoption_Agency.thy ===== *)
theory Adoption_Agency
  imports Tree_Builder
begin

text \<open>
  The adoption agency algorithm, \<open>HTMLTreeBuilder::callTheAdoptionAgency\<close>. A pointer to a record of the stack is the record's address, which
  survives changes of its item; a pointer to an entry of the list of formatting elements is its position. The render tree is left out.
  The numbers are those of the steps in the source.
\<close>

definition record_at :: "nat \<Rightarrow> HTMLElementStack \<Rightarrow> ElementRecord option" where
  "record_at record st = List.find (\<lambda>r. er_address r = record) (es_top st)"

definition record_element :: "nat \<Rightarrow> HTMLElementStack \<Rightarrow> nat option" where
  "record_element record st = do { r \<leftarrow> record_at record st; item_element (er_item r) }"

definition on_dom :: "(DOM \<Rightarrow> DOM option) \<Rightarrow> HTMLConstructionSite \<Rightarrow> HTMLConstructionSite option" where
  "on_dom f s = do { D \<leftarrow> f (hs_dom s); Some (s\<lparr>hs_dom := D\<rparr>) }"

definition removeFromParent :: "nat \<Rightarrow> DOM \<Rightarrow> DOM option" where
  "removeFromParent child D = do {
     parent \<leftarrow> parentNode child D;
     (case parent of None \<Rightarrow> Some D | Some p \<Rightarrow> parserRemoveChild p child D) }"

text \<open>Steps 9.7 to 9.10 for a node that is in the list of formatting elements.\<close>

definition adoption_clone :: "SiteEnv \<Rightarrow> nat \<Rightarrow> ElementRecord \<Rightarrow> nat \<Rightarrow> Bookmark \<Rightarrow> HTMLConstructionSite \<Rightarrow> (Bookmark \<times> HTMLConstructionSite) option" where
  "adoption_clone E furthestBlock node lastNode bookmark s = do {
     (newItem, s1) \<leftarrow> createElementFromSavedToken E (er_item node) s;
     e \<leftarrow> item_element (er_item node);
     entry \<leftarrow> fl_find (Some e) (hs_activeFormattingElements s1);
     nodeEntry \<leftarrow> entry;
     let s2 = s1\<lparr>hs_activeFormattingElements := (hs_activeFormattingElements s1)\<lparr>fl_entries :=
       (fl_entries (hs_activeFormattingElements s1))[nodeEntry := Some newItem]\<rparr>\<rparr>;
     s3 \<leftarrow> on_openElements (replaceElement (er_address node) newItem) s2;
     let bookmark1 = (if lastNode = furthestBlock then moveToAfter nodeEntry bookmark else bookmark);
     lastElement \<leftarrow> record_element lastNode (hs_openElements s3);
     newElement \<leftarrow> item_element newItem;
     s4 \<leftarrow> on_dom (\<lambda>D. do { D1 \<leftarrow> removeFromParent lastElement D; parserAppendChild newElement lastElement D1 }) s3;
     Some (bookmark1, s4) }"

text \<open>The inner loop, with \<open>n\<close> iterations left; \<open>nextNode\<close> is a record, \<open>None\<close> past the bottom of the stack.\<close>

fun adoption_inner :: "SiteEnv \<Rightarrow> nat \<Rightarrow> nat \<Rightarrow> nat \<Rightarrow> nat option \<Rightarrow> nat \<Rightarrow> Bookmark \<Rightarrow> HTMLConstructionSite
    \<Rightarrow> (nat \<times> Bookmark \<times> HTMLConstructionSite) option" where
  "adoption_inner E formattingElementRecord furthestBlock 0 nextNode lastNode bookmark s = Some (lastNode, bookmark, s)"
| "adoption_inner E formattingElementRecord furthestBlock (Suc n) nextNode lastNode bookmark s = do {
     a \<leftarrow> nextNode;
     node \<leftarrow> record_at a (hs_openElements s);
     let next = map_option er_address (record_after a (es_top (hs_openElements s)));
     e \<leftarrow> item_element (er_item node);
     active \<leftarrow> fl_contains (Some e) (hs_activeFormattingElements s);
     if \<not> active then do {
       s1 \<leftarrow> on_openElements (es_remove (si_node (er_item node))) s;
       adoption_inner E formattingElementRecord furthestBlock n next lastNode bookmark s1 }
     else if a = formattingElementRecord then Some (lastNode, bookmark, s)
     else do {
       (bookmark1, s1) \<leftarrow> adoption_clone E furthestBlock node lastNode bookmark s;
       adoption_inner E formattingElementRecord furthestBlock n next a bookmark1 s1 } }"

text \<open>Step 10.\<close>

definition adoption_place :: "HTMLStackItem \<Rightarrow> nat \<Rightarrow> HTMLConstructionSite \<Rightarrow> HTMLConstructionSite option" where
  "adoption_place commonAncestor lastNode s = do {
     lastRecord \<leftarrow> record_at lastNode (hs_openElements s);
     lastElement \<leftarrow> item_element (er_item lastRecord);
     s1 \<leftarrow> on_dom (removeFromParent lastElement) s;
     if causesFosterParenting commonAncestor then fosterParent lastElement s1
     else do {
       s2 \<leftarrow> on_dom (parserAppendChild (nd_address (si_node commonAncestor)) lastElement) s1;
       ASSERT (isElementNode (er_item lastRecord));
       p \<leftarrow> parentNode lastElement (hs_dom s2);
       ASSERT (p \<noteq> None);
       Some s2 } }"

text \<open>Steps 11 to 15.\<close>

definition adoption_replace :: "SiteEnv \<Rightarrow> ElementRecord \<Rightarrow> nat \<Rightarrow> Bookmark \<Rightarrow> HTMLConstructionSite \<Rightarrow> HTMLConstructionSite option" where
  "adoption_replace E formattingElementRecord furthestBlock bookmark s = do {
     (newItem, s1) \<leftarrow> createElementFromSavedToken E (er_item formattingElementRecord) s;
     newElement \<leftarrow> item_element newItem;
     furthestBlockElement \<leftarrow> record_element furthestBlock (hs_openElements s1);
     s2 \<leftarrow> on_dom (\<lambda>D. do {
       D1 \<leftarrow> takeAllChildrenFrom newElement furthestBlockElement D;
       parserAppendChild furthestBlockElement newElement D1 }) s1;
     l \<leftarrow> swapTo (Some (er_node formattingElementRecord)) newItem bookmark (hs_activeFormattingElements s2);
     s3 \<leftarrow> on_openElements (es_remove (si_node (er_item formattingElementRecord))) (s2\<lparr>hs_activeFormattingElements := l\<rparr>);
     on_openElements (insertAbove newItem furthestBlock) s3 }"

text \<open>One iteration of the outer loop, from step 5; \<open>True\<close> goes on to the next iteration.\<close>

definition adoption_step :: "SiteEnv \<Rightarrow> nat \<Rightarrow> ElementRecord \<Rightarrow> HTMLConstructionSite \<Rightarrow> (bool \<times> HTMLConstructionSite) option" where
  "adoption_step E formattingElement formattingElementRecord s = do {
     furthest \<leftarrow> furthestBlockForFormattingElement formattingElement (hs_openElements s);
     (case furthest of
        None \<Rightarrow> do {
          s1 \<leftarrow> on_openElements (popUntilPopped_element formattingElement) s;
          l \<leftarrow> fl_remove (Some formattingElement) (hs_activeFormattingElements s1);
          Some (False, s1\<lparr>hs_activeFormattingElements := l\<rparr>) }
      | Some furthestBlock \<Rightarrow> do {
          ASSERT (isAbove (es_top (hs_openElements s)) furthestBlock (er_address formattingElementRecord));
          below \<leftarrow> record_after (er_address formattingElementRecord) (es_top (hs_openElements s));
          bookmark \<leftarrow> bookmarkFor (Some formattingElement) (hs_activeFormattingElements s);
          let nextNode = map_option er_address (record_after furthestBlock (es_top (hs_openElements s)));
          (lastNode, bookmark1, s1) \<leftarrow> adoption_inner E (er_address formattingElementRecord) furthestBlock 3 nextNode furthestBlock bookmark s;
          s2 \<leftarrow> adoption_place (er_item below) lastNode s1;
          s3 \<leftarrow> adoption_replace E formattingElementRecord furthestBlock bookmark1 s2;
          Some (True, s3) }) }"

definition on_tree_bool :: "(HTMLConstructionSite \<Rightarrow> (bool \<times> HTMLConstructionSite) option) \<Rightarrow> bool_act" where
  "on_tree_bool f b = do { (r, t) \<leftarrow> f (tb_tree b); Some (r, b\<lparr>tb_tree := t\<rparr>) }"

text \<open>Step 4.b, and the steps after it.\<close>

definition adoption_iteration :: "SiteEnv \<Rightarrow> nat \<Rightarrow> HTMLConstructionSite \<Rightarrow> (bool \<times> HTMLConstructionSite) option" where
  "adoption_iteration E formattingElement s = (case es_find formattingElement (hs_openElements s) of
      None \<Rightarrow> do {
        l \<leftarrow> fl_remove (Some formattingElement) (hs_activeFormattingElements s);
        Some (False, s\<lparr>hs_activeFormattingElements := l\<rparr>) }
    | Some formattingElementRecord \<Rightarrow> adoption_step E formattingElement formattingElementRecord s)"

fun adoption_outer :: "TreeEnv \<Rightarrow> AtomicHTMLToken \<Rightarrow> nat \<Rightarrow> act" where
  "adoption_outer E token 0 = nothing"
| "adoption_outer E token (Suc n) =
     query (\<lambda>b. closestElementInScopeWithName (am_name token) (hs_activeFormattingElements (tb_tree b))) (\<lambda>found. case found of
        None \<Rightarrow> processAnyOtherEndTagForInBody token
      | Some formattingElement \<Rightarrow>
          test (and_q (ask (\<lambda>st. Some (es_contains formattingElement st))) (not_q (ask (inScope_element formattingElement))))
            nothing
            (branch (on_tree_bool (adoption_iteration (te_site E) formattingElement)) (adoption_outer E token n) nothing))"

definition callTheAdoptionAgency :: "TreeEnv \<Rightarrow> AtomicHTMLToken \<Rightarrow> act" where
  "callTheAdoptionAgency E token = adoption_outer E token 8"

end
