(* ===== verification/Tree_Modes.thy ===== *)
theory Tree_Modes
  imports Adoption_Agency
begin

text \<open>
  The handlers of \<open>HTMLTreeBuilder\<close> for start tags, end tags, characters, comments, doctypes and the end of the file. A fall-through from one
  case of the switch over the insertion mode to the next is a call of the definition for that case, with the assertion it starts with.
\<close>

section \<open>Tokens the tree builder makes\<close>

definition processFakeStartTag :: "self \<Rightarrow> string \<Rightarrow> DOMAttribute list \<Rightarrow> act" where
  "processFakeStartTag self tagName attributes = fakeToken StartTag (localName tagName) attributes (\<lambda>t. self (StartTagCall t))"

definition processFakeEndTag_name :: "self \<Rightarrow> AtomicString \<Rightarrow> act" where
  "processFakeEndTag_name self tagName = fakeToken EndTag tagName [] (\<lambda>t. self (EndTagCall t))"

definition processFakeEndTag :: "self \<Rightarrow> string \<Rightarrow> act" where
  "processFakeEndTag self tagName = processFakeEndTag_name self (localName tagName)"

definition processFakeCharacters :: "self \<Rightarrow> UChar list \<Rightarrow> act" where
  "processFakeCharacters self cs = query (\<lambda>_. buffer_string cs) (\<lambda>buffer. self (CharactersCall buffer))"

definition processFakePEndTagIfPInButtonScope :: "self \<Rightarrow> act" where
  "processFakePEndTagIfPInButtonScope self = test (not_q (ask (inButtonScope (localName ''p'')))) nothing (processFakeEndTag self ''p'')"

definition defaultForBeforeHead :: "self \<Rightarrow> act" where
  "defaultForBeforeHead self = processFakeStartTag self ''head'' []"

definition defaultForInHead :: "self \<Rightarrow> act" where
  "defaultForInHead self = processFakeEndTag self ''head''"

definition defaultForInHeadNoscript :: "self \<Rightarrow> act" where
  "defaultForInHeadNoscript self = processFakeEndTag self ''noscript''"

definition defaultForAfterHead :: "self \<Rightarrow> act" where
  "defaultForAfterHead self = steps [processFakeStartTag self ''body'' [], set_framesetOk True]"

section \<open>isindex\<close>

text \<open>The loop removes from the end of the vector.\<close>

definition attributesForIsindexInput :: "AtomicHTMLToken \<Rightarrow> DOMAttribute list" where
  "attributesForIsindexInput token =
     filter (\<lambda>a. \<not> (qn_matches (da_name a) (attrName ''name'') \<or> qn_matches (da_name a) (attrName ''action'') \<or> qn_matches (da_name a) (attrName ''prompt'')))
       (am_attributes token) @ [\<lparr>da_name = attrName ''name'', da_value = localName ''isindex''\<rparr>]"

definition set_form_attribute :: "QualifiedName \<Rightarrow> AtomicString \<Rightarrow> act" where
  "set_form_attribute name v = on_tree (\<lambda>s. do {
     form \<leftarrow> hs_form s;
     k \<leftarrow> node_kind form (hs_dom s);
     (case k of ElementKind q as \<Rightarrow>
        on_dom (on_node form (\<lambda>n. n\<lparr>dn_kind := ElementKind q (setAttributeInternal name v as)\<rparr>)) s
      | _ \<Rightarrow> None) })"

definition attribute_characters :: "DOMAttribute \<Rightarrow> UChar list" where
  "attribute_characters a = (case da_value a of None \<Rightarrow> [] | Some cs \<Rightarrow> cs)"

definition processIsindexStartTagForInBody :: "TreeEnv \<Rightarrow> self \<Rightarrow> AtomicHTMLToken \<Rightarrow> act" where
  "processIsindexStartTagForInBody E self token = steps [
     asserting_type StartTag token,
     asserting (\<lambda>_. Some (named token [''isindex''])),
     test has_form nothing (steps [
       processFakeStartTag self ''form'' [],
       query (\<lambda>_. am_getAttributeItem (attrName ''action'') token) (\<lambda>actionAttribute. case actionAttribute of
          None \<Rightarrow> nothing
        | Some a \<Rightarrow> set_form_attribute (attrName ''action'') (da_value a)),
       processFakeStartTag self ''hr'' [],
       processFakeStartTag self ''label'' [],
       query (\<lambda>_. am_getAttributeItem (attrName ''prompt'') token) (\<lambda>promptAttribute. case promptAttribute of
          Some a \<Rightarrow> processFakeCharacters self (attribute_characters a)
        | None \<Rightarrow> processFakeCharacters self (te_searchableIndexIntroduction E)),
       processFakeStartTag self ''input'' (attributesForIsindexInput token),
       processFakeEndTag self ''label'',
       processFakeStartTag self ''hr'' [],
       processFakeEndTag self ''form''])]"

section \<open>Start tags in the head\<close>

definition processHtmlStartTagForInBody :: "AtomicHTMLToken \<Rightarrow> act" where
  "processHtmlStartTagForInBody token = on_tree (insertHTMLHtmlStartTagInBody token)"

definition option_is :: "(HTMLParserOptions \<Rightarrow> bool) \<Rightarrow> HTMLTreeBuilder \<Rightarrow> bool option" where
  "option_is P b = Some (P (tb_options b))"

definition processStartTagForInHead :: "TreeEnv \<Rightarrow> self \<Rightarrow> AtomicHTMLToken \<Rightarrow> bool_act" where
  "processStartTagForInHead E self token =
     (if am_type token \<noteq> StartTag then returning False unreachable
      else if named token [''html''] then returning True (processHtmlStartTagForInBody token)
      else if named token [''base'', ''basefont'', ''bgsound'', ''command'', ''link'', ''meta''] then returning True (insert_self_closing E token)
      else if named token [''title''] then returning True (processGenericRCDATAStartTag E token)
      else if named token [''noscript''] then
        returning True (test (option_is opt_scriptEnabled)
          (processGenericRawTextStartTag E token)
          (steps [insert_html E token, setInsertionMode InHeadNoscriptMode]))
      else if named token [''noframes'', ''style''] then returning True (processGenericRawTextStartTag E token)
      else if named token [''script''] then
        returning True (steps [
          processScriptStartTag E token,
          test (and_q (option_is opt_usePreHTML5ParserQuirks) (\<lambda>_. am_getSelfClosing token)) (processFakeEndTag self ''script'') nothing])
      else if named token [''head''] then returning True nothing
      else returning False nothing)"

text \<open>\<open>didProcess\<close> is asserted.\<close>

definition must_process_in_head :: "TreeEnv \<Rightarrow> self \<Rightarrow> AtomicHTMLToken \<Rightarrow> act" where
  "must_process_in_head E self token = branch (processStartTagForInHead E self token) nothing unreachable"

definition ignoring_result :: "bool_act \<Rightarrow> act" where
  "ignoring_result h = branch h nothing nothing"

section \<open>Start tags in the body\<close>

text \<open>The search of \<open>processCloseWhenNestedTag\<close>; the result is the item to close.\<close>

fun nested_loop :: "(HTMLStackItem \<Rightarrow> bool) \<Rightarrow> ElementRecord list \<Rightarrow> HTMLStackItem option option" where
  "nested_loop shouldClose [] = None"
| "nested_loop shouldClose (r # rs) = (let item = er_item r in
     if shouldClose item then Some (Some item)
     else if isSpecialNode item \<and> \<not> hasTagName item (htmlName ''address'') \<and> \<not> hasTagName item (htmlName ''div'') \<and> \<not> hasTagName item (htmlName ''p'')
     then Some None
     else nested_loop shouldClose rs)"

definition isLi :: "HTMLStackItem \<Rightarrow> bool" where
  "isLi item \<longleftrightarrow> hasTagName item (htmlName ''li'')"

definition isDdOrDt :: "HTMLStackItem \<Rightarrow> bool" where
  "isDdOrDt item \<longleftrightarrow> hasTagName item (htmlName ''dd'') \<or> hasTagName item (htmlName ''dt'')"

definition processCloseWhenNestedTag :: "TreeEnv \<Rightarrow> self \<Rightarrow> (HTMLStackItem \<Rightarrow> bool) \<Rightarrow> AtomicHTMLToken \<Rightarrow> act" where
  "processCloseWhenNestedTag E self shouldClose token = steps [
     set_framesetOk False,
     query (ask (\<lambda>st. nested_loop shouldClose (es_top st))) (\<lambda>found. case found of
        None \<Rightarrow> nothing
      | Some item \<Rightarrow> steps [asserting (\<lambda>_. Some (isElementNode item)), processFakeEndTag_name self (si_tokenLocalName item)]),
     processFakePEndTagIfPInButtonScope self,
     insert_html E token]"

definition policy_is :: "(ParserContentPolicy \<Rightarrow> bool) \<Rightarrow> HTMLTreeBuilder \<Rightarrow> bool option" where
  "policy_is P b = Some (P (hs_parserContentPolicy (tb_tree b)))"

definition no_body_below_root :: "HTMLTreeBuilder \<Rightarrow> bool option" where
  "no_body_below_root = or_q (not_q (ask secondElementIsHTMLBodyElement)) (ask hasOnlyOneElement)"

definition framesetOk :: "HTMLTreeBuilder \<Rightarrow> bool option" where
  "framesetOk b = Some (tb_framesetOk b)"

text \<open>\<open>Node::remove\<close> on the body element, without its events.\<close>

definition remove_body :: act where
  "remove_body = on_tree (\<lambda>s. do { body \<leftarrow> bodyElement (hs_openElements s); on_dom (removeFromParent body) s })"

definition top_is_html :: "HTMLTreeBuilder \<Rightarrow> bool option" where
  "top_is_html = ask (\<lambda>st. do { e \<leftarrow> es_topElement st; h \<leftarrow> htmlElement st; Some (e = h) })"

definition startTag_body :: "AtomicHTMLToken \<Rightarrow> act" where
  "startTag_body token = test no_body_below_root (asserting isParsingFragment)
     (steps [set_framesetOk False, on_tree (insertHTMLBodyStartTagInBody token)])"

definition startTag_frameset :: "TreeEnv \<Rightarrow> AtomicHTMLToken \<Rightarrow> act" where
  "startTag_frameset E token = test no_body_below_root (asserting isParsingFragment)
     (test framesetOk
        (steps [
          remove_body,
          on_stack (\<lambda>st. do { body \<leftarrow> bodyElement st; popUntil_element body st }),
          on_stack popHTMLBodyElement,
          asserting top_is_html,
          insert_html E token,
          setInsertionMode InFramesetMode])
        nothing)"

text \<open>An \<open>a\<close> element still in the list is closed and forgotten first.\<close>

definition startTag_a :: "TreeEnv \<Rightarrow> self \<Rightarrow> AtomicHTMLToken \<Rightarrow> act" where
  "startTag_a E self token = steps [
     query (\<lambda>b. closestElementInScopeWithName (localName ''a'') (hs_activeFormattingElements (tb_tree b))) (\<lambda>found. case found of
        None \<Rightarrow> nothing
      | Some activeATag \<Rightarrow> steps [
          processFakeEndTag self ''a'',
          on_formatting (fl_remove (Some activeATag)),
          test (ask (\<lambda>st. Some (es_contains activeATag st))) (on_stack (remove_element activeATag)) nothing]),
     reconstruct E,
     on_tree (insertFormattingElement (te_site E) token)]"

text \<open>
  \<open>typeAttribute\<close> points into the vector of the token, which the insertion may compact: the pointer is a position, and a
  position past the end of the compacted vector is a destroyed object.
\<close>

fun attribute_index :: "DOMAttribute list \<Rightarrow> QualifiedName \<Rightarrow> nat option" where
  "attribute_index [] name = None"
| "attribute_index (a # as) name = (if qn_matches (da_name a) name then Some 0 else map_option Suc (attribute_index as name))"

definition attributes_after :: "TreeEnv \<Rightarrow> AtomicHTMLToken \<Rightarrow> HTMLTreeBuilder \<Rightarrow> DOMAttribute list option" where
  "attributes_after E token b = map_option fst (setAttributes (te_site E)
     \<lparr>qn_prefix = None, qn_localName = am_name token, qn_namespaceURI = xhtmlNamespaceURI\<rparr> token (hs_parserContentPolicy (tb_tree b)))"

definition is_hidden :: "TreeEnv \<Rightarrow> DOMAttribute \<Rightarrow> bool" where
  "is_hidden E a \<longleftrightarrow> equalIgnoringCase_lit (se_foldCase (te_site E)) (da_value a) ''hidden''"

definition typeAttribute_hidden :: "TreeEnv \<Rightarrow> AtomicHTMLToken \<Rightarrow> HTMLTreeBuilder \<Rightarrow> bool option" where
  "typeAttribute_hidden E token b = (case attribute_index (am_attributes token) (attrName ''type'') of
      None \<Rightarrow> Some False
    | Some i \<Rightarrow> do {
        as \<leftarrow> attributes_after E token b;
        if i < length as then Some (is_hidden E (as ! i)) else None })"

definition startTag_input :: "TreeEnv \<Rightarrow> AtomicHTMLToken \<Rightarrow> act" where
  "startTag_input E token = steps [
     reconstruct E,
     insert_self_closing E token,
     test (typeAttribute_hidden E token) nothing (set_framesetOk False)]"

definition startTag_select :: "TreeEnv \<Rightarrow> AtomicHTMLToken \<Rightarrow> act" where
  "startTag_select E token = steps [
     reconstruct E,
     insert_html E token,
     set_framesetOk False,
     test (mode_is [InTableMode, InCaptionMode, InColumnGroupMode, InTableBodyMode, InRowMode, InCellMode])
       (setInsertionMode InSelectInTableMode)
       (setInsertionMode InSelectMode)]"

text \<open>The tests of \<open>processStartTagForInBody\<close> in their order, in three parts.\<close>

definition startTagInBody_content :: "TreeEnv \<Rightarrow> self \<Rightarrow> AtomicHTMLToken \<Rightarrow> act" where
  "startTagInBody_content E self token =
     (if named token [''area'', ''br'', ''embed'', ''img'', ''keygen'', ''wbr''] then
        steps [reconstruct E, insert_self_closing E token, set_framesetOk False]
      else if named token [''input''] then startTag_input E token
      else if named token [''param'', ''source'', ''track''] then insert_self_closing E token
      else if named token [''hr''] then
        steps [processFakePEndTagIfPInButtonScope self, insert_self_closing E token, set_framesetOk False]
      else if named token [''isindex''] then processIsindexStartTagForInBody E self token
      else if named token [''textarea''] then
        steps [insert_html E token, setShouldSkipLeadingNewline True, setTokenizerState RCDATAState, save_originalInsertionMode,
          set_framesetOk False, setInsertionMode TextMode]
      else if named token [''xmp''] then
        steps [processFakePEndTagIfPInButtonScope self, reconstruct E, set_framesetOk False, processGenericRawTextStartTag E token]
      else if named token [''iframe''] then steps [set_framesetOk False, processGenericRawTextStartTag E token]
      else test (and_q (\<lambda>_. Some (named token [''noembed''])) (option_is opt_pluginsEnabled)) (processGenericRawTextStartTag E token)
        (test (and_q (\<lambda>_. Some (named token [''noscript''])) (option_is opt_scriptEnabled)) (processGenericRawTextStartTag E token)
         (if named token [''select''] then startTag_select E token
          else if named token [''optgroup'', ''option''] then
            steps [test (current (\<lambda>i. isHTMLOptionElement (si_node i))) (processFakeEndTag self ''option'') nothing, reconstruct E, insert_html E token]
          else if named token [''rp'', ''rt''] then
            steps [test (ask (inScope (localName ''ruby''))) (on_tree generateImpliedEndTags) nothing, insert_html E token]
          else if named token [''math''] then
            steps [reconstruct E, insert_foreign E (adjustForeignAttributes E (adjustMathMLAttributes E token)) mathmlNamespaceURI]
          else if named token [''svg''] then
            steps [reconstruct E, insert_foreign E (adjustForeignAttributes E (adjustSVGAttributes E token)) svgNamespaceURI]
          else if named token (captionColOrColgroupTags @ [''frame'', ''head''] @ tableBodyContextTags @ tableCellContextTags @ [''tr'']) then nothing
          else steps [reconstruct E, insert_html E token])))"

definition startTagInBody_formatting :: "TreeEnv \<Rightarrow> self \<Rightarrow> AtomicHTMLToken \<Rightarrow> act" where
  "startTagInBody_formatting E self token =
     (if named token [''button''] then
        test (ask (inScope (localName ''button'')))
          (steps [processFakeEndTag self ''button'', self (StartTagCall token)])
          (steps [reconstruct E, insert_html E token, set_framesetOk False])
      else if named token [''a''] then startTag_a E self token
      else if named token nonAnchorNonNobrFormattingTags then steps [reconstruct E, on_tree (insertFormattingElement (te_site E) token)]
      else if named token [''nobr''] then
        steps [
          reconstruct E,
          test (ask (inScope (localName ''nobr''))) (steps [processFakeEndTag self ''nobr'', reconstruct E]) nothing,
          on_tree (insertFormattingElement (te_site E) token)]
      else test (and_q (\<lambda>_. Some (named token [''applet'', ''embed'', ''object''])) (not_q (policy_is pluginContentIsAllowed))) nothing
        (if named token [''applet'', ''marquee'', ''object''] then
           steps [reconstruct E, insert_html E token, append_marker, set_framesetOk False]
         else if named token [''table''] then
           steps [
             test (and_q (\<lambda>b. Some (\<not> hs_inQuirksMode (tb_tree b))) (ask (inButtonScope (localName ''p'')))) (processFakeEndTag self ''p'') nothing,
             insert_html E token,
             set_framesetOk False,
             setInsertionMode InTableMode]
         else if named token [''image''] then
           query (\<lambda>_. am_setName (localName ''img'') token) (startTagInBody_content E self)
         else startTagInBody_content E self token))"

definition processStartTagForInBody :: "TreeEnv \<Rightarrow> self \<Rightarrow> AtomicHTMLToken \<Rightarrow> act" where
  "processStartTagForInBody E self token =
     (if am_type token \<noteq> StartTag then unreachable
      else if named token [''html''] then processHtmlStartTagForInBody token
      else if named token [''base'', ''basefont'', ''bgsound'', ''command'', ''link'', ''meta'', ''noframes'', ''script'', ''style'', ''title''] then
        must_process_in_head E self token
      else if named token [''body''] then startTag_body token
      else if named token [''frameset''] then startTag_frameset E token
      else if named token [''address'', ''article'', ''aside'', ''blockquote'', ''center'', ''details'', ''dir'', ''div'', ''dl'', ''fieldset'', ''figcaption'',
          ''figure'', ''footer'', ''header'', ''hgroup'', ''main'', ''menu'', ''nav'', ''ol'', ''p'', ''section'', ''summary'', ''ul''] then
        steps [processFakePEndTagIfPInButtonScope self, insert_html E token]
      else if named token numberedHeaderTags then
        steps [processFakePEndTagIfPInButtonScope self, test (current isNumberedHeaderElement) pop nothing, insert_html E token]
      else if named token [''pre'', ''listing''] then
        steps [processFakePEndTagIfPInButtonScope self, insert_html E token, setShouldSkipLeadingNewline True, set_framesetOk False]
      else if named token [''form''] then
        test has_form nothing (steps [processFakePEndTagIfPInButtonScope self, on_tree (insertHTMLFormElement (te_site E) token False)])
      else if named token [''li''] then processCloseWhenNestedTag E self isLi token
      else if named token [''dd'', ''dt''] then processCloseWhenNestedTag E self isDdOrDt token
      else if named token [''plaintext''] then
        steps [processFakePEndTagIfPInButtonScope self, insert_html E token, setTokenizerState PLAINTEXTState]
      else startTagInBody_formatting E self token)"

section \<open>Start tags in tables\<close>

definition closeTheCell :: "self \<Rightarrow> act" where
  "closeTheCell self = steps [
     asserting (mode_is [InCellMode]),
     test (ask (inTableScope (localName ''td'')))
       (steps [asserting (not_q (ask (inTableScope (localName ''th'')))), processFakeEndTag self ''td''])
       (steps [
         asserting (ask (inTableScope (localName ''th''))),
         processFakeEndTag self ''th'',
         asserting (mode_is [InRowMode])])]"

definition processStartTagForInTable :: "TreeEnv \<Rightarrow> self \<Rightarrow> AtomicHTMLToken \<Rightarrow> act" where
  "processStartTagForInTable E self token =
     (if am_type token \<noteq> StartTag then unreachable
      else if named token [''caption''] then
        steps [on_stack popUntilTableScopeMarker, append_marker, insert_html E token, setInsertionMode InCaptionMode]
      else if named token [''colgroup''] then
        steps [on_stack popUntilTableScopeMarker, insert_html E token, setInsertionMode InColumnGroupMode]
      else if named token [''col''] then steps [processFakeStartTag self ''colgroup'' [], self (StartTagCall token)]
      else if named token tableBodyContextTags then
        steps [on_stack popUntilTableScopeMarker, insert_html E token, setInsertionMode InTableBodyMode]
      else if named token (tableCellContextTags @ [''tr'']) then
        steps [processFakeStartTag self ''tbody'' [], asserting (mode_is [InTableBodyMode]), self (StartTagCall token)]
      else if named token [''table''] then
        branch processTableEndTagForInTable (self (StartTagCall token)) (asserting isParsingFragment)
      else if named token [''style'', ''script''] then ignoring_result (processStartTagForInHead E self token)
      else test (\<lambda>_. if named token [''input''] then do {
              typeAttribute \<leftarrow> am_getAttributeItem (attrName ''type'') token;
              Some (case typeAttribute of None \<Rightarrow> False | Some a \<Rightarrow> is_hidden E a) }
            else Some False)
        (insert_self_closing E token)
        (if named token [''form''] then
           test has_form nothing (steps [on_tree (insertHTMLFormElement (te_site E) token True), pop])
         else redirecting (processStartTagForInBody E self token)))"

section \<open>Start tags\<close>

definition startTag_InBodyMode :: "TreeEnv \<Rightarrow> self \<Rightarrow> AtomicHTMLToken \<Rightarrow> act" where
  "startTag_InBodyMode E self token = steps [asserting (mode_is [InBodyMode]), processStartTagForInBody E self token]"

text \<open>\<open>m_tree.head()\<close> reads through \<open>m_head\<close>.\<close>

definition with_head :: "TreeEnv \<Rightarrow> self \<Rightarrow> AtomicHTMLToken \<Rightarrow> act" where
  "with_head E self token = steps [
     asserting (\<lambda>b. do { head \<leftarrow> hs_head (tb_tree b); e \<leftarrow> item_element head; Some True }),
     on_tree (\<lambda>s. do { head \<leftarrow> hs_head s; on_openElements (pushHTMLHeadElement head) s }),
     ignoring_result (processStartTagForInHead E self token),
     on_tree (\<lambda>s. do { head \<leftarrow> hs_head s; on_openElements (removeHTMLHeadElement (si_node head)) s })]"

definition startTag_AfterHeadMode :: "TreeEnv \<Rightarrow> self \<Rightarrow> AtomicHTMLToken \<Rightarrow> act" where
  "startTag_AfterHeadMode E self token = steps [
     asserting (mode_is [AfterHeadMode]),
     if named token [''html''] then processHtmlStartTagForInBody token
     else if named token [''body''] then
       steps [set_framesetOk False, on_tree (insertHTMLBodyElement (te_site E) token), setInsertionMode InBodyMode]
     else if named token [''frameset''] then steps [insert_html E token, setInsertionMode InFramesetMode]
     else if named token [''base'', ''basefont'', ''bgsound'', ''link'', ''meta'', ''noframes'', ''script'', ''style'', ''title''] then with_head E self token
     else if named token [''head''] then nothing
     else steps [defaultForAfterHead self, startTag_InBodyMode E self token]]"

definition startTag_InHeadMode :: "TreeEnv \<Rightarrow> self \<Rightarrow> AtomicHTMLToken \<Rightarrow> act" where
  "startTag_InHeadMode E self token = steps [
     asserting (mode_is [InHeadMode]),
     branch (processStartTagForInHead E self token) nothing
       (steps [defaultForInHead self, startTag_AfterHeadMode E self token])]"

definition startTag_BeforeHeadMode :: "TreeEnv \<Rightarrow> self \<Rightarrow> AtomicHTMLToken \<Rightarrow> act" where
  "startTag_BeforeHeadMode E self token = steps [
     asserting (mode_is [BeforeHeadMode]),
     if named token [''html''] then processHtmlStartTagForInBody token
     else if named token [''head''] then steps [on_tree (insertHTMLHeadElement (te_site E) token), setInsertionMode InHeadMode]
     else steps [defaultForBeforeHead self, startTag_InHeadMode E self token]]"

definition startTag_BeforeHTMLMode :: "TreeEnv \<Rightarrow> self \<Rightarrow> AtomicHTMLToken \<Rightarrow> act" where
  "startTag_BeforeHTMLMode E self token = steps [
     asserting (mode_is [BeforeHTMLMode]),
     if named token [''html''] then steps [insert_html_element E token, setInsertionMode BeforeHeadMode]
     else steps [defaultForBeforeHTML E, startTag_BeforeHeadMode E self token]]"

definition startTag_InitialMode :: "TreeEnv \<Rightarrow> self \<Rightarrow> AtomicHTMLToken \<Rightarrow> act" where
  "startTag_InitialMode E self token = steps [
     asserting (mode_is [InitialMode]),
     defaultForInitial E,
     startTag_BeforeHTMLMode E self token]"

definition startTag_InCaptionMode :: "TreeEnv \<Rightarrow> self \<Rightarrow> AtomicHTMLToken \<Rightarrow> act" where
  "startTag_InCaptionMode E self token = steps [
     asserting (mode_is [InCaptionMode]),
     if named token (captionColOrColgroupTags @ tableBodyContextTags @ tableCellContextTags @ [''tr'']) then
       branch processCaptionEndTagForInCaption (self (StartTagCall token)) (asserting isParsingFragment)
     else processStartTagForInBody E self token]"

definition startTag_InColumnGroupMode :: "TreeEnv \<Rightarrow> self \<Rightarrow> AtomicHTMLToken \<Rightarrow> act" where
  "startTag_InColumnGroupMode E self token = steps [
     asserting (mode_is [InColumnGroupMode]),
     if named token [''html''] then processHtmlStartTagForInBody token
     else if named token [''col''] then insert_self_closing E token
     else branch processColgroupEndTagForInColumnGroup (self (StartTagCall token)) (asserting isParsingFragment)]"

definition in_table_body :: "HTMLTreeBuilder \<Rightarrow> bool option" where
  "in_table_body = or_q (ask (inTableScope (localName ''tbody'')))
     (or_q (ask (inTableScope (localName ''thead''))) (ask (inTableScope (localName ''tfoot''))))"

text \<open>\<open>popUntilTableBodyScopeMarker\<close>, and the end tag of the section that is then on top.\<close>

definition close_table_body :: "self \<Rightarrow> act" where
  "close_table_body self = steps [
     on_stack popUntilTableBodyScopeMarker,
     asserting (current (\<lambda>i. localNameIn i tableBodyContextTags)),
     query (\<lambda>b. currentStackItem (tb_tree b)) (\<lambda>i. processFakeEndTag_name self (si_tokenLocalName i))]"

definition startTag_InTableBodyMode :: "TreeEnv \<Rightarrow> self \<Rightarrow> AtomicHTMLToken \<Rightarrow> act" where
  "startTag_InTableBodyMode E self token = steps [
     asserting (mode_is [InTableBodyMode]),
     if named token [''tr''] then
       steps [on_stack popUntilTableBodyScopeMarker, insert_html E token, setInsertionMode InRowMode]
     else if named token tableCellContextTags then
       steps [processFakeStartTag self ''tr'' [], asserting (mode_is [InRowMode]), self (StartTagCall token)]
     else if named token (captionColOrColgroupTags @ tableBodyContextTags) then
       test (not_q in_table_body) (asserting isParsingFragment)
         (steps [close_table_body self, self (StartTagCall token)])
     else processStartTagForInTable E self token]"

definition startTag_InRowMode :: "TreeEnv \<Rightarrow> self \<Rightarrow> AtomicHTMLToken \<Rightarrow> act" where
  "startTag_InRowMode E self token = steps [
     asserting (mode_is [InRowMode]),
     if named token tableCellContextTags then
       steps [on_stack popUntilTableRowScopeMarker, insert_html E token, setInsertionMode InCellMode, append_marker]
     else if named token ([''tr''] @ captionColOrColgroupTags @ tableBodyContextTags) then
       branch processTrEndTagForInRow
         (steps [asserting (mode_is [InTableBodyMode]), self (StartTagCall token)])
         (asserting isParsingFragment)
     else processStartTagForInTable E self token]"

definition startTag_InCellMode :: "TreeEnv \<Rightarrow> self \<Rightarrow> AtomicHTMLToken \<Rightarrow> act" where
  "startTag_InCellMode E self token = steps [
     asserting (mode_is [InCellMode]),
     if named token (captionColOrColgroupTags @ tableCellContextTags @ [''tr''] @ tableBodyContextTags) then
       test (not_q (or_q (ask (inTableScope (localName ''td''))) (ask (inTableScope (localName ''th'')))))
         (asserting isParsingFragment)
         (steps [closeTheCell self, self (StartTagCall token)])
     else processStartTagForInBody E self token]"

definition startTag_AfterBodyMode :: "self \<Rightarrow> AtomicHTMLToken \<Rightarrow> act" where
  "startTag_AfterBodyMode self token = steps [
     asserting (mode_is [AfterBodyMode, AfterAfterBodyMode]),
     if named token [''html''] then processHtmlStartTagForInBody token
     else steps [setInsertionMode InBodyMode, self (StartTagCall token)]]"

definition startTag_InHeadNoscriptMode :: "TreeEnv \<Rightarrow> self \<Rightarrow> AtomicHTMLToken \<Rightarrow> act" where
  "startTag_InHeadNoscriptMode E self token = steps [
     asserting (mode_is [InHeadNoscriptMode]),
     if named token [''html''] then processHtmlStartTagForInBody token
     else if named token [''basefont'', ''bgsound'', ''link'', ''meta'', ''noframes'', ''style''] then must_process_in_head E self token
     else if named token [''html'', ''noscript''] then nothing
     else steps [defaultForInHeadNoscript self, self (TokenCall token)]]"

definition startTag_InFramesetMode :: "TreeEnv \<Rightarrow> self \<Rightarrow> AtomicHTMLToken \<Rightarrow> act" where
  "startTag_InFramesetMode E self token = steps [
     asserting (mode_is [InFramesetMode]),
     if named token [''html''] then processHtmlStartTagForInBody token
     else if named token [''frameset''] then insert_html E token
     else if named token [''frame''] then insert_self_closing E token
     else if named token [''noframes''] then ignoring_result (processStartTagForInHead E self token)
     else nothing]"

definition startTag_AfterFramesetMode :: "TreeEnv \<Rightarrow> self \<Rightarrow> AtomicHTMLToken \<Rightarrow> act" where
  "startTag_AfterFramesetMode E self token = steps [
     asserting (mode_is [AfterFramesetMode, AfterAfterFramesetMode]),
     if named token [''html''] then processHtmlStartTagForInBody token
     else if named token [''noframes''] then ignoring_result (processStartTagForInHead E self token)
     else nothing]"

definition startTag_InSelectMode :: "TreeEnv \<Rightarrow> self \<Rightarrow> AtomicHTMLToken \<Rightarrow> act" where
  "startTag_InSelectMode E self token = steps [
     asserting (mode_is [InSelectMode, InSelectInTableMode]),
     if named token [''html''] then processHtmlStartTagForInBody token
     else if named token [''option''] then
       steps [test (current (\<lambda>i. isHTMLOptionElement (si_node i))) (processFakeEndTag self ''option'') nothing, insert_html E token]
     else if named token [''optgroup''] then
       steps [
         test (current (\<lambda>i. isHTMLOptionElement (si_node i))) (processFakeEndTag self ''option'') nothing,
         test (current (\<lambda>i. isHTMLOptGroupElement (si_node i))) (processFakeEndTag self ''optgroup'') nothing,
         insert_html E token]
     else if named token [''select''] then processFakeEndTag self ''select''
     else if named token [''input'', ''keygen'', ''textarea''] then
       test (not_q (ask (inSelectScope (localName ''select'')))) (asserting isParsingFragment)
         (steps [processFakeEndTag self ''select'', self (StartTagCall token)])
     else if named token [''script''] then must_process_in_head E self token
     else nothing]"

definition startTag_InSelectInTableMode :: "TreeEnv \<Rightarrow> self \<Rightarrow> AtomicHTMLToken \<Rightarrow> act" where
  "startTag_InSelectInTableMode E self token = steps [
     asserting (mode_is [InSelectInTableMode]),
     if named token ([''caption'', ''table''] @ tableBodyContextTags @ [''tr''] @ tableCellContextTags) then
       steps [processFakeEndTag self ''select'', self (StartTagCall token)]
     else startTag_InSelectMode E self token]"

definition processStartTag :: "TreeEnv \<Rightarrow> self \<Rightarrow> AtomicHTMLToken \<Rightarrow> act" where
  "processStartTag E self token = steps [
     asserting_type StartTag token,
     query (\<lambda>b. Some (tb_insertionMode b)) (\<lambda>mode. case mode of
        InitialMode \<Rightarrow> startTag_InitialMode E self token
      | BeforeHTMLMode \<Rightarrow> startTag_BeforeHTMLMode E self token
      | BeforeHeadMode \<Rightarrow> startTag_BeforeHeadMode E self token
      | InHeadMode \<Rightarrow> startTag_InHeadMode E self token
      | AfterHeadMode \<Rightarrow> startTag_AfterHeadMode E self token
      | InBodyMode \<Rightarrow> startTag_InBodyMode E self token
      | InTableMode \<Rightarrow> steps [asserting (mode_is [InTableMode]), processStartTagForInTable E self token]
      | InCaptionMode \<Rightarrow> startTag_InCaptionMode E self token
      | InColumnGroupMode \<Rightarrow> startTag_InColumnGroupMode E self token
      | InTableBodyMode \<Rightarrow> startTag_InTableBodyMode E self token
      | InRowMode \<Rightarrow> startTag_InRowMode E self token
      | InCellMode \<Rightarrow> startTag_InCellMode E self token
      | AfterBodyMode \<Rightarrow> startTag_AfterBodyMode self token
      | AfterAfterBodyMode \<Rightarrow> startTag_AfterBodyMode self token
      | InHeadNoscriptMode \<Rightarrow> startTag_InHeadNoscriptMode E self token
      | InFramesetMode \<Rightarrow> startTag_InFramesetMode E self token
      | AfterFramesetMode \<Rightarrow> startTag_AfterFramesetMode E self token
      | AfterAfterFramesetMode \<Rightarrow> startTag_AfterFramesetMode E self token
      | InSelectInTableMode \<Rightarrow> startTag_InSelectInTableMode E self token
      | InSelectMode \<Rightarrow> startTag_InSelectMode E self token
      | InTableTextMode \<Rightarrow> steps [defaultForInTableText E, self (StartTagCall token)]
      | TextMode \<Rightarrow> unreachable
      | TemplateContentsMode \<Rightarrow> unreachable)]"

end
