(* ===== verification/Tree_Ends.thy ===== *)
theory Tree_Ends
  imports Tree_Modes
begin

text \<open>The handlers of \<open>HTMLTreeBuilder\<close> for end tags, comments, doctypes, characters and the end of the file, and the rules for foreign content.\<close>

section \<open>End tags in the body\<close>

definition close_tag :: "AtomicHTMLToken \<Rightarrow> (AtomicString \<Rightarrow> HTMLElementStack \<Rightarrow> bool option) \<Rightarrow> act list \<Rightarrow> act" where
  "close_tag token scope as = test (not_q (ask (scope (am_name token)))) nothing (steps as)"

definition popUntilPopped_token :: "AtomicHTMLToken \<Rightarrow> act" where
  "popUntilPopped_token token = on_stack (popUntilPopped (am_name token))"

definition take_form :: "(nat option \<Rightarrow> act) \<Rightarrow> act" where
  "take_form k b = (let (form, t) = takeForm (tb_tree b) in k form (b\<lparr>tb_tree := t\<rparr>))"

text \<open>When the form is closed, the code does not return but goes on to the tests below.\<close>

definition endTag_form :: "AtomicHTMLToken \<Rightarrow> act" where
  "endTag_form token = take_form (\<lambda>form. case form of
      None \<Rightarrow> nothing
    | Some node \<Rightarrow> test (not_q (ask (inScope_element node))) nothing
        (steps [on_tree generateImpliedEndTags, on_stack (remove_element node), processAnyOtherEndTagForInBody token]))"

definition endTag_p :: "self \<Rightarrow> AtomicHTMLToken \<Rightarrow> act" where
  "endTag_p self token = test (not_q (ask (inButtonScope (am_name token))))
     (steps [processFakeStartTag self ''p'' [], asserting (ask (inScope (am_name token))), self (EndTagCall token)])
     (steps [on_tree (generateImpliedEndTagsWithExclusion (am_name token)), popUntilPopped_token token])"

definition processEndTagForInBody :: "TreeEnv \<Rightarrow> self \<Rightarrow> AtomicHTMLToken \<Rightarrow> act" where
  "processEndTagForInBody E self token =
     (if am_type token \<noteq> EndTag then unreachable
      else if named token [''body''] then ignoring_result (processBodyEndTagForInBody token)
      else if named token [''html''] then
        fakeToken EndTag (localName ''body'') [] (\<lambda>endBody. branch (processBodyEndTagForInBody endBody) (self (EndTagCall token)) nothing)
      else if named token [''address'', ''article'', ''aside'', ''blockquote'', ''button'', ''center'', ''details'', ''dir'', ''div'', ''dl'', ''fieldset'',
          ''figcaption'', ''figure'', ''footer'', ''header'', ''hgroup'', ''listing'', ''main'', ''menu'', ''nav'', ''ol'', ''pre'', ''section'', ''summary'', ''ul''] then
        close_tag token inScope [on_tree generateImpliedEndTags, popUntilPopped_token token]
      else if named token [''form''] then endTag_form token
      else if named token [''p''] then endTag_p self token
      else if named token [''li''] then
        close_tag token inListItemScope [on_tree (generateImpliedEndTagsWithExclusion (am_name token)), popUntilPopped_token token]
      else if named token [''dd'', ''dt''] then
        close_tag token inScope [on_tree (generateImpliedEndTagsWithExclusion (am_name token)), popUntilPopped_token token]
      else if named token numberedHeaderTags then
        close_tag token (\<lambda>_. hasNumberedHeaderElementInScope) [on_tree generateImpliedEndTags, on_stack popUntilNumberedHeaderElementPopped]
      else if named token formattingTags then callTheAdoptionAgency E token
      else if named token [''applet'', ''marquee'', ''object''] then
        close_tag token inScope [on_tree generateImpliedEndTags, popUntilPopped_token token, clear_to_marker]
      else if named token [''br''] then processFakeStartTag self ''br'' []
      else processAnyOtherEndTagForInBody token)"

section \<open>End tags in tables\<close>

definition processEndTagForInTable :: "TreeEnv \<Rightarrow> self \<Rightarrow> AtomicHTMLToken \<Rightarrow> act" where
  "processEndTagForInTable E self token =
     (if am_type token \<noteq> EndTag then unreachable
      else if named token [''table''] then ignoring_result processTableEndTagForInTable
      else if named token ([''body''] @ captionColOrColgroupTags @ [''html''] @ tableBodyContextTags @ tableCellContextTags @ [''tr'']) then nothing
      else redirecting (processEndTagForInBody E self token))"

definition processEndTagForInTableBody :: "TreeEnv \<Rightarrow> self \<Rightarrow> AtomicHTMLToken \<Rightarrow> act" where
  "processEndTagForInTableBody E self token =
     (if am_type token \<noteq> EndTag then unreachable
      else if named token tableBodyContextTags then
        close_tag token inTableScope [on_stack popUntilTableBodyScopeMarker, pop, setInsertionMode InTableMode]
      else if named token [''table''] then
        test (not_q in_table_body) (asserting isParsingFragment) (steps [close_table_body self, self (EndTagCall token)])
      else if named token ([''body''] @ captionColOrColgroupTags @ [''html''] @ tableCellContextTags @ [''tr'']) then nothing
      else processEndTagForInTable E self token)"

definition processEndTagForInRow :: "TreeEnv \<Rightarrow> self \<Rightarrow> AtomicHTMLToken \<Rightarrow> act" where
  "processEndTagForInRow E self token =
     (if am_type token \<noteq> EndTag then unreachable
      else if named token [''tr''] then ignoring_result processTrEndTagForInRow
      else if named token [''table''] then
        branch processTrEndTagForInRow
          (steps [asserting (mode_is [InTableBodyMode]), self (EndTagCall token)])
          (asserting isParsingFragment)
      else if named token tableBodyContextTags then
        close_tag token inTableScope [processFakeEndTag self ''tr'', asserting (mode_is [InTableBodyMode]), self (EndTagCall token)]
      else if named token ([''body''] @ captionColOrColgroupTags @ [''html''] @ tableCellContextTags) then nothing
      else processEndTagForInTable E self token)"

definition processEndTagForInCell :: "TreeEnv \<Rightarrow> self \<Rightarrow> AtomicHTMLToken \<Rightarrow> act" where
  "processEndTagForInCell E self token =
     (if am_type token \<noteq> EndTag then unreachable
      else if named token tableCellContextTags then
        close_tag token inTableScope [on_tree generateImpliedEndTags, popUntilPopped_token token, clear_to_marker, setInsertionMode InRowMode]
      else if named token ([''body''] @ captionColOrColgroupTags @ [''html'']) then nothing
      else if named token ([''table'', ''tr''] @ tableBodyContextTags) then
        test (not_q (ask (inTableScope (am_name token))))
          (asserting (or_q (\<lambda>_. Some (named token tableBodyContextTags)) isParsingFragment))
          (steps [closeTheCell self, self (EndTagCall token)])
      else processEndTagForInBody E self token)"

section \<open>End tags\<close>

definition endTag_InBodyMode :: "TreeEnv \<Rightarrow> self \<Rightarrow> AtomicHTMLToken \<Rightarrow> act" where
  "endTag_InBodyMode E self token = steps [asserting (mode_is [InBodyMode]), processEndTagForInBody E self token]"

definition endTag_AfterHeadMode :: "TreeEnv \<Rightarrow> self \<Rightarrow> AtomicHTMLToken \<Rightarrow> act" where
  "endTag_AfterHeadMode E self token = steps [
     asserting (mode_is [AfterHeadMode]),
     if \<not> named token [''body'', ''html'', ''br''] then nothing
     else steps [defaultForAfterHead self, endTag_InBodyMode E self token]]"

definition endTag_InHeadMode :: "TreeEnv \<Rightarrow> self \<Rightarrow> AtomicHTMLToken \<Rightarrow> act" where
  "endTag_InHeadMode E self token = steps [
     asserting (mode_is [InHeadMode]),
     if named token [''head''] then steps [on_stack popHTMLHeadElement, setInsertionMode AfterHeadMode]
     else if \<not> named token [''body'', ''html'', ''br''] then nothing
     else steps [defaultForInHead self, endTag_AfterHeadMode E self token]]"

definition endTag_BeforeHeadMode :: "TreeEnv \<Rightarrow> self \<Rightarrow> AtomicHTMLToken \<Rightarrow> act" where
  "endTag_BeforeHeadMode E self token = steps [
     asserting (mode_is [BeforeHeadMode]),
     if \<not> named token [''head'', ''body'', ''html'', ''br''] then nothing
     else steps [defaultForBeforeHead self, endTag_InHeadMode E self token]]"

definition endTag_BeforeHTMLMode :: "TreeEnv \<Rightarrow> self \<Rightarrow> AtomicHTMLToken \<Rightarrow> act" where
  "endTag_BeforeHTMLMode E self token = steps [
     asserting (mode_is [BeforeHTMLMode]),
     if \<not> named token [''head'', ''body'', ''html'', ''br''] then nothing
     else steps [defaultForBeforeHTML E, endTag_BeforeHeadMode E self token]]"

definition endTag_InitialMode :: "TreeEnv \<Rightarrow> self \<Rightarrow> AtomicHTMLToken \<Rightarrow> act" where
  "endTag_InitialMode E self token = steps [
     asserting (mode_is [InitialMode]),
     defaultForInitial E,
     endTag_BeforeHTMLMode E self token]"

definition endTag_InCaptionMode :: "TreeEnv \<Rightarrow> self \<Rightarrow> AtomicHTMLToken \<Rightarrow> act" where
  "endTag_InCaptionMode E self token = steps [
     asserting (mode_is [InCaptionMode]),
     if named token [''caption''] then ignoring_result processCaptionEndTagForInCaption
     else if named token [''table''] then
       branch processCaptionEndTagForInCaption (self (EndTagCall token)) (asserting isParsingFragment)
     else if named token ([''body'', ''col'', ''colgroup'', ''html''] @ tableBodyContextTags @ tableCellContextTags @ [''tr'']) then nothing
     else processEndTagForInBody E self token]"

definition endTag_InColumnGroupMode :: "self \<Rightarrow> AtomicHTMLToken \<Rightarrow> act" where
  "endTag_InColumnGroupMode self token = steps [
     asserting (mode_is [InColumnGroupMode]),
     if named token [''colgroup''] then ignoring_result processColgroupEndTagForInColumnGroup
     else if named token [''col''] then nothing
     else branch processColgroupEndTagForInColumnGroup (self (EndTagCall token)) (asserting isParsingFragment)]"

definition endTag_AfterAfterBodyMode :: "self \<Rightarrow> AtomicHTMLToken \<Rightarrow> act" where
  "endTag_AfterAfterBodyMode self token = steps [
     asserting (mode_is [AfterBodyMode, AfterAfterBodyMode]),
     setInsertionMode InBodyMode,
     self (EndTagCall token)]"

definition endTag_AfterBodyMode :: "self \<Rightarrow> AtomicHTMLToken \<Rightarrow> act" where
  "endTag_AfterBodyMode self token = steps [
     asserting (mode_is [AfterBodyMode]),
     if named token [''html''] then test isParsingFragment nothing (setInsertionMode AfterAfterBodyMode)
     else endTag_AfterAfterBodyMode self token]"

definition endTag_InHeadNoscriptMode :: "self \<Rightarrow> AtomicHTMLToken \<Rightarrow> act" where
  "endTag_InHeadNoscriptMode self token = steps [
     asserting (mode_is [InHeadNoscriptMode]),
     if named token [''noscript''] then
       steps [
         asserting (current (\<lambda>i. hasTagName i (htmlName ''noscript''))),
         pop,
         asserting (current (\<lambda>i. hasTagName i (htmlName ''head''))),
         setInsertionMode InHeadMode]
     else if \<not> named token [''br''] then nothing
     else steps [defaultForInHeadNoscript self, self (TokenCall token)]]"

definition tokenizer_leaves_script :: "HTMLTreeBuilder \<Rightarrow> bool option" where
  "tokenizer_leaves_script b = Some (case tb_tokenizer b of None \<Rightarrow> True
     | Some t \<Rightarrow> tk_state t = DataState \<or> opt_usePreHTML5ParserQuirks (tb_options b) \<or> opt_useThreading (tb_options b))"

definition endTag_TextMode :: "AtomicHTMLToken \<Rightarrow> act" where
  "endTag_TextMode token =
     (if named token [''script''] then steps [
        asserting (current (\<lambda>i. hasTagName i (htmlName ''script''))),
        set_scriptToProcess,
        pop,
        restore_originalInsertionMode,
        asserting tokenizer_leaves_script,
        setTokenizerState DataState]
      else steps [pop, restore_originalInsertionMode])"

definition endTag_InFramesetMode :: "AtomicHTMLToken \<Rightarrow> act" where
  "endTag_InFramesetMode token = steps [
     asserting (mode_is [InFramesetMode]),
     if named token [''frameset''] then
       test current_is_root (asserting isParsingFragment)
         (steps [
           pop,
           test (and_q (not_q isParsingFragment) (not_q (current (\<lambda>i. hasTagName i (htmlName ''frameset'')))))
             (setInsertionMode AfterFramesetMode) nothing])
     else nothing]"

definition endTag_AfterFramesetMode :: "AtomicHTMLToken \<Rightarrow> act" where
  "endTag_AfterFramesetMode token = steps [
     asserting (mode_is [AfterFramesetMode]),
     if named token [''html''] then setInsertionMode AfterAfterFramesetMode else nothing]"

definition option_in_optgroup :: "HTMLTreeBuilder \<Rightarrow> bool option" where
  "option_in_optgroup = and_q (current (\<lambda>i. isHTMLOptionElement (si_node i)))
     (ask (\<lambda>st. do { below \<leftarrow> oneBelowTop st; Some (case below of None \<Rightarrow> False | Some i \<Rightarrow> isHTMLOptGroupElement (si_node i)) }))"

definition endTag_InSelectMode :: "self \<Rightarrow> AtomicHTMLToken \<Rightarrow> act" where
  "endTag_InSelectMode self token = steps [
     asserting (mode_is [InSelectMode, InSelectInTableMode]),
     if named token [''optgroup''] then
       steps [
         test option_in_optgroup (processFakeEndTag self ''option'') nothing,
         test (current (\<lambda>i. isHTMLOptGroupElement (si_node i))) pop nothing]
     else if named token [''option''] then test (current (\<lambda>i. isHTMLOptionElement (si_node i))) pop nothing
     else if named token [''select''] then
       test (not_q (ask (inSelectScope (am_name token)))) (asserting isParsingFragment)
         (steps [popUntilTag ''select'', resetInsertionModeAppropriately])
     else nothing]"

definition endTag_InSelectInTableMode :: "self \<Rightarrow> AtomicHTMLToken \<Rightarrow> act" where
  "endTag_InSelectInTableMode self token = steps [
     asserting (mode_is [InSelectInTableMode]),
     if named token ([''caption'', ''table''] @ tableBodyContextTags @ [''tr''] @ tableCellContextTags) then
       test (ask (inTableScope (am_name token))) (steps [processFakeEndTag self ''select'', self (EndTagCall token)]) nothing
     else endTag_InSelectMode self token]"

definition processEndTag :: "TreeEnv \<Rightarrow> self \<Rightarrow> AtomicHTMLToken \<Rightarrow> act" where
  "processEndTag E self token = steps [
     asserting_type EndTag token,
     query (\<lambda>b. Some (tb_insertionMode b)) (\<lambda>mode. case mode of
        InitialMode \<Rightarrow> endTag_InitialMode E self token
      | BeforeHTMLMode \<Rightarrow> endTag_BeforeHTMLMode E self token
      | BeforeHeadMode \<Rightarrow> endTag_BeforeHeadMode E self token
      | InHeadMode \<Rightarrow> endTag_InHeadMode E self token
      | AfterHeadMode \<Rightarrow> endTag_AfterHeadMode E self token
      | InBodyMode \<Rightarrow> endTag_InBodyMode E self token
      | InTableMode \<Rightarrow> steps [asserting (mode_is [InTableMode]), processEndTagForInTable E self token]
      | InCaptionMode \<Rightarrow> endTag_InCaptionMode E self token
      | InColumnGroupMode \<Rightarrow> endTag_InColumnGroupMode self token
      | InRowMode \<Rightarrow> steps [asserting (mode_is [InRowMode]), processEndTagForInRow E self token]
      | InCellMode \<Rightarrow> steps [asserting (mode_is [InCellMode]), processEndTagForInCell E self token]
      | InTableBodyMode \<Rightarrow> steps [asserting (mode_is [InTableBodyMode]), processEndTagForInTableBody E self token]
      | AfterBodyMode \<Rightarrow> endTag_AfterBodyMode self token
      | AfterAfterBodyMode \<Rightarrow> endTag_AfterAfterBodyMode self token
      | InHeadNoscriptMode \<Rightarrow> endTag_InHeadNoscriptMode self token
      | TextMode \<Rightarrow> endTag_TextMode token
      | InFramesetMode \<Rightarrow> endTag_InFramesetMode token
      | AfterFramesetMode \<Rightarrow> endTag_AfterFramesetMode token
      | AfterAfterFramesetMode \<Rightarrow> nothing
      | InSelectInTableMode \<Rightarrow> endTag_InSelectInTableMode self token
      | InSelectMode \<Rightarrow> endTag_InSelectMode self token
      | InTableTextMode \<Rightarrow> steps [defaultForInTableText E, self (EndTagCall token)]
      | TemplateContentsMode \<Rightarrow> unreachable)]"

section \<open>Doctypes and comments\<close>

definition processDoctypeToken :: "TreeEnv \<Rightarrow> self \<Rightarrow> AtomicHTMLToken \<Rightarrow> act" where
  "processDoctypeToken E self token = steps [
     asserting_type DOCTYPE token,
     test (mode_is [InitialMode])
       (steps [on_tree (insertDoctype (te_site E) token), setInsertionMode BeforeHTMLMode])
       (test (mode_is [InTableTextMode]) (steps [defaultForInTableText E, self (DoctypeCall token)]) nothing)]"

definition processComment :: "TreeEnv \<Rightarrow> self \<Rightarrow> AtomicHTMLToken \<Rightarrow> act" where
  "processComment E self token = steps [
     asserting_type Comment token,
     test (mode_is [InitialMode, BeforeHTMLMode, AfterAfterBodyMode, AfterAfterFramesetMode])
       (on_tree (insertCommentOnDocument (te_site E) token))
       (test (mode_is [AfterBodyMode]) (on_tree (insertCommentOnHTMLHtmlElement (te_site E) token))
          (test (mode_is [InTableTextMode]) (steps [defaultForInTableText E, self (CommentCall token)])
             (on_tree (insertComment (te_site E) token))))]"

section \<open>Characters\<close>

text \<open>
  \<open>goto ReprocessBuffer\<close> is a call of the function with the buffer as it is then. Where the function ends, the destructor of the buffer asserts that
  it is empty.
\<close>

definition drained :: "ExternalCharacterTokenBuffer \<Rightarrow> act" where
  "drained buffer = asserting (\<lambda>_. Some (eb_isEmpty buffer))"

definition unless_empty :: "ExternalCharacterTokenBuffer \<Rightarrow> (ExternalCharacterTokenBuffer \<Rightarrow> act) \<Rightarrow> act" where
  "unless_empty buffer k = (if eb_isEmpty buffer then nothing else k buffer)"

definition clear_framesetOk_unless_blank :: "UChar list \<Rightarrow> act" where
  "clear_framesetOk_unless_blank cs = test (and_q framesetOk (\<lambda>_. Some (\<not> isAllWhitespaceOrReplacementCharacters cs))) (set_framesetOk False) nothing"

definition processCharacterBufferForInBody :: "TreeEnv \<Rightarrow> ExternalCharacterTokenBuffer \<Rightarrow> act" where
  "processCharacterBufferForInBody E buffer = steps [
     reconstruct E,
     query (\<lambda>_. takeRemaining buffer) (\<lambda>(cs, buffer1). steps [
       insert_text E cs,
       clear_framesetOk_unless_blank cs,
       drained buffer1])]"

definition skip_whitespace :: "ExternalCharacterTokenBuffer \<Rightarrow> (ExternalCharacterTokenBuffer \<Rightarrow> act) \<Rightarrow> act" where
  "skip_whitespace buffer k = query (\<lambda>_. skipLeadingWhitespace buffer) (\<lambda>buffer1. unless_empty buffer1 k)"

definition insert_if_any :: "TreeEnv \<Rightarrow> UChar list \<Rightarrow> act" where
  "insert_if_any E cs = (if cs \<noteq> [] then insert_text E cs else nothing)"

definition insert_leading_whitespace :: "TreeEnv \<Rightarrow> ExternalCharacterTokenBuffer \<Rightarrow> (ExternalCharacterTokenBuffer \<Rightarrow> act) \<Rightarrow> act" where
  "insert_leading_whitespace E buffer k = query (\<lambda>_. takeLeadingWhitespace buffer) (\<lambda>(leadingWhitespace, buffer1).
     steps [insert_if_any E leadingWhitespace, unless_empty buffer1 k])"

definition characters_InBodyMode :: "TreeEnv \<Rightarrow> ExternalCharacterTokenBuffer \<Rightarrow> act" where
  "characters_InBodyMode E buffer = steps [
     asserting (mode_is [InBodyMode, InCaptionMode, InCellMode]),
     processCharacterBufferForInBody E buffer]"

definition characters_AfterHeadMode :: "TreeEnv \<Rightarrow> self \<Rightarrow> ExternalCharacterTokenBuffer \<Rightarrow> act" where
  "characters_AfterHeadMode E self buffer = steps [
     asserting (mode_is [AfterHeadMode]),
     insert_leading_whitespace E buffer (\<lambda>buffer1. steps [defaultForAfterHead self, characters_InBodyMode E buffer1])]"

definition characters_InHeadMode :: "TreeEnv \<Rightarrow> self \<Rightarrow> ExternalCharacterTokenBuffer \<Rightarrow> act" where
  "characters_InHeadMode E self buffer = steps [
     asserting (mode_is [InHeadMode]),
     insert_leading_whitespace E buffer (\<lambda>buffer1. steps [defaultForInHead self, characters_AfterHeadMode E self buffer1])]"

definition characters_BeforeHeadMode :: "TreeEnv \<Rightarrow> self \<Rightarrow> ExternalCharacterTokenBuffer \<Rightarrow> act" where
  "characters_BeforeHeadMode E self buffer = steps [
     asserting (mode_is [BeforeHeadMode]),
     skip_whitespace buffer (\<lambda>buffer1. steps [defaultForBeforeHead self, characters_InHeadMode E self buffer1])]"

definition characters_BeforeHTMLMode :: "TreeEnv \<Rightarrow> self \<Rightarrow> ExternalCharacterTokenBuffer \<Rightarrow> act" where
  "characters_BeforeHTMLMode E self buffer = steps [
     asserting (mode_is [BeforeHTMLMode]),
     skip_whitespace buffer (\<lambda>buffer1. steps [defaultForBeforeHTML E, characters_BeforeHeadMode E self buffer1])]"

definition characters_InitialMode :: "TreeEnv \<Rightarrow> self \<Rightarrow> ExternalCharacterTokenBuffer \<Rightarrow> act" where
  "characters_InitialMode E self buffer = steps [
     asserting (mode_is [InitialMode]),
     skip_whitespace buffer (\<lambda>buffer1. steps [defaultForInitial E, characters_BeforeHTMLMode E self buffer1])]"

definition giveRemainingTo_pending :: "ExternalCharacterTokenBuffer \<Rightarrow> act" where
  "giveRemainingTo_pending buffer b = Some (b\<lparr>tb_pendingTableCharacters := tb_pendingTableCharacters b @ eb_current buffer\<rparr>)"

definition characters_InTableMode :: "TreeEnv \<Rightarrow> ExternalCharacterTokenBuffer \<Rightarrow> act" where
  "characters_InTableMode E buffer = steps [
     asserting (mode_is [InTableMode, InTableBodyMode, InRowMode]),
     asserting (\<lambda>b. Some (tb_pendingTableCharacters b = [])),
     test (current (\<lambda>i. isElementNode i \<and> (isHTMLTableElement (si_node i) \<or> hasTagName i (htmlName ''tbody'') \<or> hasTagName i (htmlName ''tfoot'')
         \<or> hasTagName i (htmlName ''thead'') \<or> hasTagName i (htmlName ''tr''))))
       (steps [save_originalInsertionMode, setInsertionMode InTableTextMode, giveRemainingTo_pending buffer])
       (redirecting (processCharacterBufferForInBody E buffer))]"

definition characters_InColumnGroupMode :: "TreeEnv \<Rightarrow> self \<Rightarrow> ExternalCharacterTokenBuffer \<Rightarrow> act" where
  "characters_InColumnGroupMode E self buffer = steps [
     asserting (mode_is [InColumnGroupMode]),
     insert_leading_whitespace E buffer (\<lambda>buffer1. branch processColgroupEndTagForInColumnGroup
       (self (CharactersCall buffer1))
       (steps [
         asserting isParsingFragment,
         query (\<lambda>_. skipLeadingNonWhitespace buffer1) (\<lambda>buffer2. unless_empty buffer2 (\<lambda>buffer3. self (CharactersCall buffer3)))]))]"

definition characters_insert_remaining :: "TreeEnv \<Rightarrow> ExternalCharacterTokenBuffer \<Rightarrow> act" where
  "characters_insert_remaining E buffer = query (\<lambda>_. takeRemaining buffer) (\<lambda>(cs, buffer1). steps [insert_text E cs, drained buffer1])"

definition characters_InFramesetMode :: "TreeEnv \<Rightarrow> ExternalCharacterTokenBuffer \<Rightarrow> act" where
  "characters_InFramesetMode E buffer = steps [
     asserting (mode_is [InFramesetMode, AfterFramesetMode, AfterAfterFramesetMode]),
     query (\<lambda>_. takeRemainingWhitespace buffer) (\<lambda>(leadingWhitespace, buffer1). steps [insert_if_any E leadingWhitespace, drained buffer1])]"

definition characters_AfterAfterFramesetMode :: "TreeEnv \<Rightarrow> ExternalCharacterTokenBuffer \<Rightarrow> act" where
  "characters_AfterAfterFramesetMode E buffer = query (\<lambda>_. takeRemainingWhitespace buffer) (\<lambda>(leadingWhitespace, buffer1). steps [
     if leadingWhitespace \<noteq> [] then steps [reconstruct E, insert_text E leadingWhitespace] else nothing,
     drained buffer1])"

definition characters_in_mode :: "TreeEnv \<Rightarrow> self \<Rightarrow> ExternalCharacterTokenBuffer \<Rightarrow> act" where
  "characters_in_mode E self buffer = query (\<lambda>b. Some (tb_insertionMode b)) (\<lambda>mode. case mode of
      InitialMode \<Rightarrow> characters_InitialMode E self buffer
    | BeforeHTMLMode \<Rightarrow> characters_BeforeHTMLMode E self buffer
    | BeforeHeadMode \<Rightarrow> characters_BeforeHeadMode E self buffer
    | InHeadMode \<Rightarrow> characters_InHeadMode E self buffer
    | AfterHeadMode \<Rightarrow> characters_AfterHeadMode E self buffer
    | InBodyMode \<Rightarrow> characters_InBodyMode E buffer
    | InCaptionMode \<Rightarrow> characters_InBodyMode E buffer
    | TemplateContentsMode \<Rightarrow> unreachable
    | InCellMode \<Rightarrow> characters_InBodyMode E buffer
    | InTableMode \<Rightarrow> characters_InTableMode E buffer
    | InTableBodyMode \<Rightarrow> characters_InTableMode E buffer
    | InRowMode \<Rightarrow> characters_InTableMode E buffer
    | InTableTextMode \<Rightarrow> giveRemainingTo_pending buffer
    | InColumnGroupMode \<Rightarrow> characters_InColumnGroupMode E self buffer
    | AfterBodyMode \<Rightarrow> steps [setInsertionMode InBodyMode, self (CharactersCall buffer)]
    | AfterAfterBodyMode \<Rightarrow> steps [setInsertionMode InBodyMode, self (CharactersCall buffer)]
    | TextMode \<Rightarrow> characters_insert_remaining E buffer
    | InHeadNoscriptMode \<Rightarrow> insert_leading_whitespace E buffer
        (\<lambda>buffer1. steps [defaultForInHeadNoscript self, self (CharactersCall buffer1)])
    | InFramesetMode \<Rightarrow> characters_InFramesetMode E buffer
    | AfterFramesetMode \<Rightarrow> characters_InFramesetMode E buffer
    | InSelectInTableMode \<Rightarrow> characters_insert_remaining E buffer
    | InSelectMode \<Rightarrow> characters_insert_remaining E buffer
    | AfterAfterFramesetMode \<Rightarrow> characters_AfterAfterFramesetMode E buffer)"

definition processCharacterBuffer :: "TreeEnv \<Rightarrow> self \<Rightarrow> ExternalCharacterTokenBuffer \<Rightarrow> act" where
  "processCharacterBuffer E self buffer = test (\<lambda>b. Some (tb_shouldSkipLeadingNewline b))
     (steps [
       setShouldSkipLeadingNewline False,
       query (\<lambda>_. skipAtMostOneLeadingNewline buffer) (\<lambda>buffer1. unless_empty buffer1 (characters_in_mode E self))])
     (characters_in_mode E self buffer)"

definition processCharacter :: "self \<Rightarrow> AtomicHTMLToken \<Rightarrow> act" where
  "processCharacter self token = steps [
     asserting_type Character token,
     query (\<lambda>_. buffer_token token) (\<lambda>buffer. self (CharactersCall buffer))]"

section \<open>End of file\<close>

definition endOfFile_finish :: act where
  "endOfFile_finish = steps [
     asserting (\<lambda>b. Some (currentNode (tb_tree b) \<noteq> None)),
     on_stack (\<lambda>st. Some (popAll st))]"

definition endOfFile_InBodyMode :: act where
  "endOfFile_InBodyMode = steps [asserting (mode_is [InBodyMode, InCellMode, InCaptionMode, InRowMode]), endOfFile_finish]"

definition endOfFile_AfterHeadMode :: "self \<Rightarrow> act" where
  "endOfFile_AfterHeadMode self = steps [asserting (mode_is [AfterHeadMode]), defaultForAfterHead self, endOfFile_InBodyMode]"

definition endOfFile_InHeadMode :: "self \<Rightarrow> act" where
  "endOfFile_InHeadMode self = steps [asserting (mode_is [InHeadMode]), defaultForInHead self, endOfFile_AfterHeadMode self]"

definition endOfFile_BeforeHeadMode :: "self \<Rightarrow> act" where
  "endOfFile_BeforeHeadMode self = steps [asserting (mode_is [BeforeHeadMode]), defaultForBeforeHead self, endOfFile_InHeadMode self]"

definition endOfFile_BeforeHTMLMode :: "TreeEnv \<Rightarrow> self \<Rightarrow> act" where
  "endOfFile_BeforeHTMLMode E self = steps [asserting (mode_is [BeforeHTMLMode]), defaultForBeforeHTML E, endOfFile_BeforeHeadMode self]"

definition endOfFile_InTableMode :: act where
  "endOfFile_InTableMode = steps [
     asserting (mode_is [InSelectMode, InSelectInTableMode, InTableMode, InFramesetMode, InTableBodyMode, InColumnGroupMode]),
     endOfFile_finish]"

definition endOfFile_InColumnGroupMode :: act where
  "endOfFile_InColumnGroupMode = test current_is_root (asserting isParsingFragment)
     (steps [
       asserting (current (\<lambda>i. node_hasTagName (si_node i) (htmlName ''colgroup''))),
       ignoring_result processColgroupEndTagForInColumnGroup,
       endOfFile_InTableMode])"

definition processEndOfFile :: "TreeEnv \<Rightarrow> self \<Rightarrow> AtomicHTMLToken \<Rightarrow> act" where
  "processEndOfFile E self token = steps [
     asserting_type EndOfFile token,
     query (\<lambda>b. Some (tb_insertionMode b)) (\<lambda>mode. case mode of
        InitialMode \<Rightarrow> steps [asserting (mode_is [InitialMode]), defaultForInitial E, endOfFile_BeforeHTMLMode E self]
      | BeforeHTMLMode \<Rightarrow> endOfFile_BeforeHTMLMode E self
      | BeforeHeadMode \<Rightarrow> endOfFile_BeforeHeadMode self
      | InHeadMode \<Rightarrow> endOfFile_InHeadMode self
      | AfterHeadMode \<Rightarrow> endOfFile_AfterHeadMode self
      | InBodyMode \<Rightarrow> endOfFile_InBodyMode
      | InCellMode \<Rightarrow> endOfFile_InBodyMode
      | InCaptionMode \<Rightarrow> endOfFile_InBodyMode
      | InRowMode \<Rightarrow> endOfFile_InBodyMode
      | AfterBodyMode \<Rightarrow> endOfFile_finish
      | AfterAfterBodyMode \<Rightarrow> endOfFile_finish
      | InHeadNoscriptMode \<Rightarrow> steps [defaultForInHeadNoscript self, self (EndOfFileCall token)]
      | AfterFramesetMode \<Rightarrow> endOfFile_finish
      | AfterAfterFramesetMode \<Rightarrow> endOfFile_finish
      | InColumnGroupMode \<Rightarrow> endOfFile_InColumnGroupMode
      | InFramesetMode \<Rightarrow> endOfFile_InTableMode
      | InTableMode \<Rightarrow> endOfFile_InTableMode
      | InTableBodyMode \<Rightarrow> endOfFile_InTableMode
      | InSelectInTableMode \<Rightarrow> endOfFile_InTableMode
      | InSelectMode \<Rightarrow> endOfFile_InTableMode
      | InTableTextMode \<Rightarrow> steps [defaultForInTableText E, self (EndOfFileCall token)]
      | TextMode \<Rightarrow> steps [
          asserting (current (\<lambda>_. True)),
          pop,
          asserting (\<lambda>b. Some (tb_originalInsertionMode b \<noteq> TextMode)),
          restore_originalInsertionMode,
          self (EndOfFileCall token)]
      | TemplateContentsMode \<Rightarrow> unreachable)]"

definition processToken :: "self \<Rightarrow> AtomicHTMLToken \<Rightarrow> act" where
  "processToken self token = (case am_type token of
      Uninitialized \<Rightarrow> unreachable
    | DOCTYPE \<Rightarrow> steps [setShouldSkipLeadingNewline False, self (DoctypeCall token)]
    | StartTag \<Rightarrow> steps [setShouldSkipLeadingNewline False, self (StartTagCall token)]
    | EndTag \<Rightarrow> steps [setShouldSkipLeadingNewline False, self (EndTagCall token)]
    | Comment \<Rightarrow> steps [setShouldSkipLeadingNewline False, self (CommentCall token)]
    | Character \<Rightarrow> processCharacter self token
    | EndOfFile \<Rightarrow> steps [setShouldSkipLeadingNewline False, self (EndOfFileCall token)])"

section \<open>Foreign content\<close>

definition shouldProcessTokenInForeignContent :: "TreeEnv \<Rightarrow> AtomicHTMLToken \<Rightarrow> HTMLTreeBuilder \<Rightarrow> bool option" where
  "shouldProcessTokenInForeignContent E token b =
     (if hs_isEmpty (tb_tree b) then Some False
      else do {
        item \<leftarrow> currentStackItem (tb_tree b);
        if isInHTMLNamespace item then Some False
        else if isMathMLTextIntegrationPoint item \<and>
          (am_type token = StartTag \<and> \<not> named token [''mglyph''] \<and> \<not> named token [''malignmark''] \<or> am_type token = Character) then Some False
        else if hasTagName item (mathmlName ''annotation-xml'') \<and> am_type token = StartTag \<and> named token [''svg''] then Some False
        else do {
          h \<leftarrow> isHTMLIntegrationPoint (se_foldCase (te_site E)) item;
          Some (\<not> (h \<and> (am_type token = StartTag \<or> am_type token = Character)) \<and> am_type token \<noteq> EndOfFile) } })"

definition breaks_out_of_foreign :: "AtomicHTMLToken \<Rightarrow> bool option" where
  "breaks_out_of_foreign token =
     (if named token ([''b'', ''big'', ''blockquote'', ''body'', ''br'', ''center'', ''code'', ''dd'', ''div'', ''dl'', ''dt'', ''em'', ''embed''] @ numberedHeaderTags
        @ [''head'', ''hr'', ''i'', ''img'', ''li'', ''listing'', ''menu'', ''meta'', ''nobr'', ''ol'', ''p'', ''pre'', ''ruby'', ''s'', ''small'', ''span'', ''strong'',
           ''strike'', ''sub'', ''sup'', ''table'', ''tt'', ''u'', ''ul'', ''var'']) then Some True
      else if named token [''font''] then do {
        c \<leftarrow> am_getAttributeItem (attrName ''color'') token;
        f \<leftarrow> am_getAttributeItem (attrName ''face'') token;
        z \<leftarrow> am_getAttributeItem (attrName ''size'') token;
        Some (c \<noteq> None \<or> f \<noteq> None \<or> z \<noteq> None) }
      else Some False)"

definition foreign_adjusted :: "TreeEnv \<Rightarrow> AtomicString \<Rightarrow> AtomicHTMLToken \<Rightarrow> AtomicHTMLToken" where
  "foreign_adjusted E currentNamespace token =
     (let t1 = (if currentNamespace = mathmlNamespaceURI then adjustMathMLAttributes E token else token);
          t2 = (if currentNamespace = svgNamespaceURI then adjustSVGAttributes E (adjustSVGTagNameCase E t1) else t1)
      in adjustForeignAttributes E t2)"

fun foreign_loop :: "AtomicString \<Rightarrow> ElementRecord list \<Rightarrow> ElementRecord option option" where
  "foreign_loop name [] = None"
| "foreign_loop name (r # rs) =
     (if hasLocalName (er_item r) name then Some (Some r)
      else (case rs of [] \<Rightarrow> None
        | next # _ \<Rightarrow> if isInHTMLNamespace (er_item next) then Some None else foreign_loop name rs))"

definition foreign_start_tag :: "TreeEnv \<Rightarrow> self \<Rightarrow> AtomicHTMLToken \<Rightarrow> act" where
  "foreign_start_tag E self token = test (\<lambda>_. breaks_out_of_foreign token)
     (steps [on_stack (popUntilForeignContentScopeMarker (se_foldCase (te_site E))), self (StartTagCall token)])
     (query (\<lambda>b. currentStackItem (tb_tree b)) (\<lambda>item.
        insert_foreign E (foreign_adjusted E (si_namespaceURI item) token) (si_namespaceURI item)))"

definition foreign_end_tag :: "self \<Rightarrow> AtomicHTMLToken \<Rightarrow> act" where
  "foreign_end_tag self token = test (current (\<lambda>i. named token [''script''] \<and> hasTagName i (svgName ''script'')))
     (steps [set_scriptToProcess, pop])
     (test (current (\<lambda>i. \<not> isInHTMLNamespace i))
        (query (ask (\<lambda>st. foreign_loop (am_name token) (es_top st))) (\<lambda>found. case found of
            Some r \<Rightarrow> on_stack (\<lambda>st. do { e \<leftarrow> item_element (er_item r); popUntilPopped_element e st })
          | None \<Rightarrow> self (EndTagCall token)))
        (self (EndTagCall token)))"

definition processTokenInForeignContent :: "TreeEnv \<Rightarrow> self \<Rightarrow> AtomicHTMLToken \<Rightarrow> act" where
  "processTokenInForeignContent E self token = (case am_type token of
      Uninitialized \<Rightarrow> unreachable
    | DOCTYPE \<Rightarrow> nothing
    | StartTag \<Rightarrow> foreign_start_tag E self token
    | EndTag \<Rightarrow> query (\<lambda>b. currentStackItem (tb_tree b)) (\<lambda>item.
        foreign_end_tag self (if si_namespaceURI item = svgNamespaceURI then adjustSVGTagNameCase E token else token))
    | Comment \<Rightarrow> on_tree (insertComment (te_site E) token)
    | Character \<Rightarrow> query (\<lambda>_. am_characters token) (\<lambda>cs. steps [insert_text E cs, clear_framesetOk_unless_blank cs])
    | EndOfFile \<Rightarrow> unreachable)"

definition dispatch :: "TreeEnv \<Rightarrow> self \<Rightarrow> Call \<Rightarrow> act" where
  "dispatch E self call = (case call of
      StartTagCall token \<Rightarrow> processStartTag E self token
    | EndTagCall token \<Rightarrow> processEndTag E self token
    | TokenCall token \<Rightarrow> processToken self token
    | CharactersCall buffer \<Rightarrow> processCharacterBuffer E self buffer
    | EndOfFileCall token \<Rightarrow> processEndOfFile E self token
    | DoctypeCall token \<Rightarrow> processDoctypeToken E self token
    | CommentCall token \<Rightarrow> processComment E self token)"

end
