(* ===== verification/Tree_Calls.thy ===== *)
theory Tree_Calls
  imports Tree_Ends
begin

text \<open>
  What the handlers have in common: each is put together from the operations of the construction site, assignments to the builder's own members and calls of
  other handlers. The locale \<open>site_invariant\<close> is the contract of the operations, a property of the site that each of them keeps;
  \<open>tree_calls\<close> adds two functions for the calls, the second defined wherever the first is. From it follows for every handler that it keeps the property and
  that it is defined with the second function, with the same result, wherever it is with the first. With the trivial property this is what
  recursion through \<open>self\<close> needs, and with the property of \<open>Tree_Types\<close> the invariant of the tree builder.
\<close>

named_theorems stays_intros

definition kept :: "(HTMLConstructionSite \<Rightarrow> bool) \<Rightarrow> (HTMLConstructionSite \<Rightarrow> HTMLConstructionSite option) \<Rightarrow> bool" where
  "kept J f \<longleftrightarrow> (\<forall>s s'. J s \<longrightarrow> f s = Some s' \<longrightarrow> J s')"

definition stays :: "(HTMLConstructionSite \<Rightarrow> bool) \<Rightarrow> act \<Rightarrow> act \<Rightarrow> bool" where
  "stays J a a' \<longleftrightarrow> (\<forall>b b1. J (tb_tree b) \<longrightarrow> a b = Some b1 \<longrightarrow> a' b = Some b1 \<and> J (tb_tree b1))"

definition stays_bool :: "(HTMLConstructionSite \<Rightarrow> bool) \<Rightarrow> bool_act \<Rightarrow> bool_act \<Rightarrow> bool" where
  "stays_bool J a a' \<longleftrightarrow> (\<forall>b r b1. J (tb_tree b) \<longrightarrow> a b = Some (r, b1) \<longrightarrow> a' b = Some (r, b1) \<and> J (tb_tree b1))"

lemma keptI: "(\<And>s s'. J s \<Longrightarrow> f s = Some s' \<Longrightarrow> J s') \<Longrightarrow> kept J f"
  by (simp add: kept_def)

lemma keptD: "kept J f \<Longrightarrow> J s \<Longrightarrow> f s = Some s' \<Longrightarrow> J s'"
  by (simp add: kept_def)

lemma staysI: "(\<And>b b1. J (tb_tree b) \<Longrightarrow> a b = Some b1 \<Longrightarrow> a' b = Some b1 \<and> J (tb_tree b1)) \<Longrightarrow> stays J a a'"
  by (simp add: stays_def)

lemma staysD: "stays J a a' \<Longrightarrow> J (tb_tree b) \<Longrightarrow> a b = Some b1 \<Longrightarrow> a' b = Some b1 \<and> J (tb_tree b1)"
  by (simp add: stays_def)

lemma stays_boolI: "(\<And>b r b1. J (tb_tree b) \<Longrightarrow> a b = Some (r, b1) \<Longrightarrow> a' b = Some (r, b1) \<and> J (tb_tree b1)) \<Longrightarrow> stays_bool J a a'"
  by (simp add: stays_bool_def)

lemma stays_boolD: "stays_bool J a a' \<Longrightarrow> J (tb_tree b) \<Longrightarrow> a b = Some (r, b1) \<Longrightarrow> a' b = Some (r, b1) \<and> J (tb_tree b1)"
  by (simp add: stays_bool_def)

section \<open>Statements\<close>

lemma stays_nothing [stays_intros]: "stays J nothing nothing"
  by (simp add: stays_def nothing_def)

lemma stays_unreachable [stays_intros]: "stays J unreachable unreachable"
  by (simp add: stays_def unreachable_def)

lemma stays_andThen [stays_intros]:
  assumes "stays J a a'" "stays J k k'"
  shows "stays J (andThen a k) (andThen a' k')"
proof (rule staysI)
  fix b b1 assume J: "J (tb_tree b)" and "andThen a k b = Some b1"
  then obtain b2 where b2: "a b = Some b2" "k b2 = Some b1" by (auto simp: andThen_def split: option.splits)
  then have "a' b = Some b2" "k' b2 = Some b1" "J (tb_tree b1)" using staysD[OF assms(1) J] staysD[OF assms(2)] by blast+
  then show "andThen a' k' b = Some b1 \<and> J (tb_tree b1)" by (simp add: andThen_def)
qed

lemma stays_steps_Nil [stays_intros]: "stays J (steps []) (steps [])"
  by (simp add: stays_def)

lemma stays_steps_Cons [stays_intros]: "stays J a a' \<Longrightarrow> stays J (steps as) (steps as') \<Longrightarrow> stays J (steps (a # as)) (steps (a' # as'))"
  by (simp add: stays_andThen)

lemma stays_query [stays_intros]:
  assumes "\<And>x. stays J (k x) (k' x)"
  shows "stays J (query q k) (query q k')"
proof (rule staysI)
  fix b b1 assume J: "J (tb_tree b)" and "query q k b = Some b1"
  then obtain x where x: "q b = Some x" "k x b = Some b1" by (auto simp: query_def split: option.splits)
  with staysD[OF assms J x(2)] show "query q k' b = Some b1 \<and> J (tb_tree b1)" by (simp add: query_def)
qed

lemma stays_test [stays_intros]:
  assumes "stays J a a'" "stays J c c'"
  shows "stays J (test q a c) (test q a' c')"
proof -
  have "test q a c = query q (\<lambda>r. if r then a else c)" for a c :: act by (rule ext) (simp add: test_def query_def split: option.split)
  moreover have "stays J (if r then a else c) (if r then a' else c')" for r using assms by simp
  ultimately show ?thesis by (simp add: stays_query)
qed

lemma stays_returning [stays_intros]: "stays J a a' \<Longrightarrow> stays_bool J (returning r a) (returning r a')"
  by (rule stays_boolI) (auto simp: returning_def dest: staysD)

lemma stays_test_bool [stays_intros]:
  assumes "stays_bool J a a'" "stays_bool J c c'"
  shows "stays_bool J (test_bool q a c) (test_bool q a' c')"
proof (rule stays_boolI)
  fix b r b1 assume J: "J (tb_tree b)" and "test_bool q a c b = Some (r, b1)"
  then obtain x where x: "q b = Some x" "(if x then a b else c b) = Some (r, b1)" by (auto simp: test_bool_def split: option.splits)
  then show "test_bool q a' c' b = Some (r, b1) \<and> J (tb_tree b1)"
    using stays_boolD[OF assms(1) J] stays_boolD[OF assms(2) J] by (cases x) (auto simp: test_bool_def)
qed

lemma stays_branch [stays_intros]:
  assumes "stays_bool J h h'" "stays J a a'" "stays J c c'"
  shows "stays J (branch h a c) (branch h' a' c')"
proof (rule staysI)
  fix b b1 assume J: "J (tb_tree b)" and "branch h a c b = Some b1"
  then obtain r b2 where h: "h b = Some (r, b2)" "(if r then a b2 else c b2) = Some b1" by (auto simp: branch_def split: option.splits)
  have h': "h' b = Some (r, b2)" "J (tb_tree b2)" using stays_boolD[OF assms(1) J h(1)] by auto
  then show "branch h' a' c' b = Some b1 \<and> J (tb_tree b1)"
    using h(2) staysD[OF assms(2) h'(2)] staysD[OF assms(3) h'(2)] by (cases r) (auto simp: branch_def)
qed

lemma stays_if [stays_intros]: "(P \<Longrightarrow> stays J a a') \<Longrightarrow> (\<not> P \<Longrightarrow> stays J c c') \<Longrightarrow> stays J (if P then a else c) (if P then a' else c')"
  by simp

lemma stays_bool_if [stays_intros]: "(P \<Longrightarrow> stays_bool J a a') \<Longrightarrow> (\<not> P \<Longrightarrow> stays_bool J c c') \<Longrightarrow> stays_bool J (if P then a else c) (if P then a' else c')"
  by simp

lemma stays_option [stays_intros]:
  "stays J a a' \<Longrightarrow> (\<And>x. stays J (c x) (c' x)) \<Longrightarrow> stays J (case e of None \<Rightarrow> a | Some x \<Rightarrow> c x) (case e of None \<Rightarrow> a' | Some x \<Rightarrow> c' x)"
  by (simp split: option.split)

lemma stays_prod [stays_intros]: "(\<And>x y. stays J (c x y) (c' x y)) \<Longrightarrow> stays J (case p of (x, y) \<Rightarrow> c x y) (case p of (x, y) \<Rightarrow> c' x y)"
  by (simp split: prod.split)

lemma stays_asserting [stays_intros]: "stays J (asserting q) (asserting q)"
  by (auto simp: stays_def asserting_def split: Option.bind_splits if_splits)

lemma stays_asserting_type [stays_intros]: "stays J (asserting_type ty token) (asserting_type ty token)"
  unfolding asserting_type_def by (rule stays_asserting)

lemma stays_on_tree [stays_intros]: "kept J f \<Longrightarrow> stays J (on_tree f) (on_tree f)"
  by (auto simp: stays_def on_tree_def kept_def split: Option.bind_splits)

lemma stays_on_stack [stays_intros]: "kept J (on_openElements f) \<Longrightarrow> stays J (on_stack f) (on_stack f)"
  unfolding on_stack_def by (rule stays_on_tree)

lemma stays_fakeToken [stays_intros]: "(\<And>t. stays J (k t) (k' t)) \<Longrightarrow> stays J (fakeToken ty n as k) (fakeToken ty n as k')"
  unfolding fakeToken_def by (rule stays_query)

lemma stays_unless_empty [stays_intros]: "(\<And>x. stays J (k x) (k' x)) \<Longrightarrow> stays J (unless_empty buffer k) (unless_empty buffer k')"
  unfolding unless_empty_def by (simp add: stays_nothing)

lemma stays_setters [stays_intros]:
  "stays J (setInsertionMode mode) (setInsertionMode mode)" "stays J (set_framesetOk v) (set_framesetOk v)"
  "stays J (setShouldSkipLeadingNewline v) (setShouldSkipLeadingNewline v)" "stays J save_originalInsertionMode save_originalInsertionMode"
  "stays J (setTokenizerState st) (setTokenizerState st)" "stays J restore_originalInsertionMode restore_originalInsertionMode"
  "stays J (set_scriptToProcessStartPosition p) (set_scriptToProcessStartPosition p)"
  "stays J (giveRemainingTo_pending buffer) (giveRemainingTo_pending buffer)" "stays J (drained buffer) (drained buffer)"
  by (simp_all add: stays_def setInsertionMode_def set_framesetOk_def setShouldSkipLeadingNewline_def save_originalInsertionMode_def
    setTokenizerState_def restore_originalInsertionMode_def set_scriptToProcessStartPosition_def giveRemainingTo_pending_def drained_def
    asserting_def)

lemma stays_set_script [stays_intros]: "stays J set_scriptToProcess set_scriptToProcess"
  by (auto simp: stays_def set_scriptToProcess_def split: Option.bind_splits)

lemma stays_reset [stays_intros]: "stays J resetInsertionModeAppropriately resetInsertionModeAppropriately"
  by (auto simp: stays_def resetInsertionModeAppropriately_def setInsertionMode_def split: Option.bind_splits)

lemma stays_pending [stays_intros]:
  assumes "\<And>x. stays J (k x) (k' x)"
  shows "stays J (take_pendingTableCharacters k) (take_pendingTableCharacters k')"
proof (rule staysI)
  fix b b1 assume "J (tb_tree b)" "take_pendingTableCharacters k b = Some b1"
  then show "take_pendingTableCharacters k' b = Some b1 \<and> J (tb_tree b1)"
    using staysD[OF assms, of "b\<lparr>tb_pendingTableCharacters := []\<rparr>"] by (simp add: take_pendingTableCharacters_def)
qed

section \<open>The contract of the construction site\<close>

locale site_invariant =
  fixes J :: "HTMLConstructionSite \<Rightarrow> bool" and E :: TreeEnv
  assumes kept_redirect: "J s \<Longrightarrow> J (s\<lparr>hs_redirectAttachToFosterParent := v\<rparr>)"
    and kept_takeForm: "J s \<Longrightarrow> J (s\<lparr>hs_form := None\<rparr>)"
    and kept_compatibility: "J s \<Longrightarrow> J (setDefaultCompatibilityMode (te_site E) s)"
    and kept_insert [stays_intros]: "kept J (insertHTMLElement (te_site E) token)" "kept J (insertSelfClosingHTMLElement (te_site E) token)"
      "kept J (insertForeignElement (te_site E) token ns)" "kept J (insertHTMLHtmlStartTagBeforeHTML (te_site E) token)"
      "kept J (insertHTMLHeadElement (te_site E) token)" "kept J (insertHTMLBodyElement (te_site E) token)"
      "kept J (insertHTMLFormElement (te_site E) token v)" "kept J (insertFormattingElement (te_site E) token)"
    and kept_script [stays_intros]: "named token [''script''] \<Longrightarrow> kept J (insertScriptElement (te_site E) token)"
    and kept_other [stays_intros]: "kept J (insertDoctype (te_site E) token)" "kept J (insertComment (te_site E) token)"
      "kept J (insertCommentOnDocument (te_site E) token)" "kept J (insertCommentOnHTMLHtmlElement (te_site E) token)"
      "kept J (insertTextNode (te_site E) cs)" "kept J (reconstructTheActiveFormattingElements (te_site E))"
    and kept_merge [stays_intros]: "kept J (insertHTMLHtmlStartTagInBody token)" "kept J (insertHTMLBodyStartTagInBody token)"
    and kept_pop [stays_intros]: "kept J (on_openElements es_pop)" "kept J (on_openElements (pop_loop stop))"
      "kept J (on_openElements popHTMLHeadElement)" "kept J (on_openElements popHTMLBodyElement)" "kept J (on_openElements (\<lambda>st. Some (popAll st)))"
    and kept_remove [stays_intros]: "kept J (on_openElements (remove_element a))"
    and kept_head [stays_intros]: "kept J (\<lambda>s. do { head \<leftarrow> hs_head s; on_openElements (pushHTMLHeadElement head) s })"
      "kept J (\<lambda>s. do { head \<leftarrow> hs_head s; on_openElements (removeHTMLHeadElement (si_node head)) s })"
    and kept_dom [stays_intros]: "kept J (\<lambda>s. do { body \<leftarrow> bodyElement (hs_openElements s); on_dom (removeFromParent body) s })"
    and kept_form: "stays J (set_form_attribute name w) (set_form_attribute name w)"
    and kept_formatting: "stays J append_marker append_marker" "stays J clear_to_marker clear_to_marker"
      "stays J (on_formatting (fl_remove e)) (on_formatting (fl_remove e))"
    and kept_adoption: "stays_bool J (on_tree_bool (adoption_iteration (te_site E) x)) (on_tree_bool (adoption_iteration (te_site E) x))"
begin

lemmas kept_acts [stays_intros] = kept_form kept_formatting kept_adoption

lemma kept_on_site [stays_intros]: "stays J (on_site (setDefaultCompatibilityMode (te_site E))) (on_site (setDefaultCompatibilityMode (te_site E)))"
  unfolding on_site_def by (intro stays_intros keptI) (auto intro: kept_compatibility)

lemma stays_redirecting [stays_intros]:
  assumes "stays J a a'"
  shows "stays J (redirecting a) (redirecting a')"
proof (rule staysI)
  fix b b1 assume J: "J (tb_tree b)" and run: "redirecting a b = Some b1"
  let ?b = "b\<lparr>tb_tree := (tb_tree b)\<lparr>hs_redirectAttachToFosterParent := True\<rparr>\<rparr>"
  obtain b2 where b2: "a ?b = Some b2"
    "b1 = b2\<lparr>tb_tree := (tb_tree b2)\<lparr>hs_redirectAttachToFosterParent := hs_redirectAttachToFosterParent (tb_tree b)\<rparr>\<rparr>"
    using run by (auto simp: redirecting_def Let_def bind_eq_Some_conv)
  have "J (tb_tree ?b)" using J kept_redirect by simp
  then have "a' ?b = Some b2 \<and> J (tb_tree b2)" using b2(1) by (rule staysD[OF assms])
  with b2(2) show "redirecting a' b = Some b1 \<and> J (tb_tree b1)" by (simp add: redirecting_def Let_def kept_redirect)
qed

lemma stays_take_form [stays_intros]:
  assumes "\<And>x. stays J (k x) (k' x)"
  shows "stays J (take_form k) (take_form k')"
proof (rule staysI)
  fix b b1 assume "J (tb_tree b)" "take_form k b = Some b1"
  then show "take_form k' b = Some b1 \<and> J (tb_tree b1)"
    using staysD[OF assms, of "b\<lparr>tb_tree := (tb_tree b)\<lparr>hs_form := None\<rparr>\<rparr>"] by (simp add: take_form_def takeForm_def kept_takeForm)
qed

lemma kept_bind:
  assumes "kept J (on_openElements f)" "kept J (on_openElements g)"
  shows "kept J (on_openElements (\<lambda>st. do { st1 \<leftarrow> f st; g st1 }))"
proof (rule keptI)
  fix s s' assume J: "J s" and "on_openElements (\<lambda>st. do { st1 \<leftarrow> f st; g st1 }) s = Some s'"
  then obtain st1 where st1: "f (hs_openElements s) = Some st1" "on_openElements g (s\<lparr>hs_openElements := st1\<rparr>) = Some s'"
    by (auto simp: on_openElements_def split: Option.bind_splits)
  then have "J (s\<lparr>hs_openElements := st1\<rparr>)" using keptD[OF assms(1) J] by (simp add: on_openElements_def)
  then show "J s'" using keptD[OF assms(2) _ st1(2)] by simp
qed

lemma kept_popUntil [stays_intros]: "kept J (on_openElements (popUntilPopped n))" "kept J (on_openElements popUntilNumberedHeaderElementPopped)"
  "kept J (on_openElements popUntilTableScopeMarker)" "kept J (on_openElements popUntilTableBodyScopeMarker)"
  "kept J (on_openElements popUntilTableRowScopeMarker)" "kept J (on_openElements (popUntilForeignContentScopeMarker foldCase))"
  "kept J (on_openElements (popUntil_element a))" "kept J (on_openElements (popUntilPopped_element a))"
  unfolding popUntilPopped_def popUntil_def popUntilNumberedHeaderElementPopped_def popUntilTableScopeMarker_def popUntilTableBodyScopeMarker_def
    popUntilTableRowScopeMarker_def popUntilForeignContentScopeMarker_def popUntilPopped_element_def popUntil_element_def
  by (intro kept_bind kept_pop)+

lemma kept_implied [stays_intros]: "kept J generateImpliedEndTags" "kept J (generateImpliedEndTagsWithExclusion n)"
  unfolding generateImpliedEndTags_def generateImpliedEndTagsWithExclusion_def by (rule kept_pop)+

lemma kept_item_element [stays_intros]:
  "kept J (on_openElements (\<lambda>st. do { e \<leftarrow> item_element item; popUntilPopped_element e st }))"
  "kept J (on_openElements (\<lambda>st. do { body \<leftarrow> bodyElement st; popUntil_element body st }))"
proof -
  show "kept J (on_openElements (\<lambda>st. do { e \<leftarrow> item_element item; popUntilPopped_element e st }))"
    using kept_popUntil(8) by (cases "item_element item") (simp_all add: kept_def on_openElements_def)
  show "kept J (on_openElements (\<lambda>st. do { body \<leftarrow> bodyElement st; popUntil_element body st }))"
  proof (rule keptI)
    fix s s' assume J: "J s" and "on_openElements (\<lambda>st. do { body \<leftarrow> bodyElement st; popUntil_element body st }) s = Some s'"
    then obtain a where "on_openElements (popUntil_element a) s = Some s'" by (auto simp: on_openElements_def split: Option.bind_splits)
    then show "J s'" using kept_popUntil(7) J by (rule keptD[rotated 2])
  qed
qed

section \<open>Handlers that reprocess nothing\<close>

lemma stays_short [stays_intros]: "stays J (insert_html E token) (insert_html E token)" "stays J (insert_self_closing E token) (insert_self_closing E token)"
  "stays J (insert_foreign E token ns) (insert_foreign E token ns)" "stays J (insert_text E cs) (insert_text E cs)" "stays J (reconstruct E) (reconstruct E)"
  "stays J (insert_html_element E token) (insert_html_element E token)" "stays J pop pop" "stays J (popUntilTag n) (popUntilTag n)"
  "stays J remove_body remove_body" "stays J (popUntilPopped_token token) (popUntilPopped_token token)"
  unfolding insert_html_def insert_self_closing_def insert_foreign_def insert_text_def reconstruct_def insert_html_element_def pop_def popUntilTag_def
    remove_body_def popUntilPopped_token_def by (intro stays_intros)+

lemma stays_ignoring [stays_intros]: "stays_bool J h h' \<Longrightarrow> stays J (ignoring_result h) (ignoring_result h')"
  unfolding ignoring_result_def by (intro stays_intros)

lemma stays_close_tag [stays_intros]: "stays J (steps as) (steps as') \<Longrightarrow> stays J (close_tag token scope as) (close_tag token scope as')"
  unfolding close_tag_def by (intro stays_intros)

lemma stays_defaults [stays_intros]: "stays J (defaultForInitial E) (defaultForInitial E)" "stays J (defaultForBeforeHTML E) (defaultForBeforeHTML E)"
  "stays J (defaultForInTableText E) (defaultForInTableText E)"
  unfolding defaultForInitial_def defaultForBeforeHTML_def defaultForInTableText_def by (intro stays_intros)+

lemma stays_raw_text [stays_intros]: "stays J (processGenericRCDATAStartTag E token) (processGenericRCDATAStartTag E token)"
  "stays J (processGenericRawTextStartTag E token) (processGenericRawTextStartTag E token)"
  "named token [''script''] \<Longrightarrow> stays J (processScriptStartTag E token) (processScriptStartTag E token)"
  unfolding processGenericRCDATAStartTag_def processGenericRawTextStartTag_def processScriptStartTag_def by (intro stays_intros; assumption?)+

lemma stays_ends [stays_intros]: "stays_bool J (processBodyEndTagForInBody token) (processBodyEndTagForInBody token)"
  "stays_bool J processCaptionEndTagForInCaption processCaptionEndTagForInCaption" "stays_bool J processTrEndTagForInRow processTrEndTagForInRow"
  "stays_bool J processTableEndTagForInTable processTableEndTagForInTable"
  "stays_bool J processColgroupEndTagForInColumnGroup processColgroupEndTagForInColumnGroup"
  "stays J (processAnyOtherEndTagForInBody token) (processAnyOtherEndTagForInBody token)"
  unfolding processBodyEndTagForInBody_def processCaptionEndTagForInCaption_def processTrEndTagForInRow_def processTableEndTagForInTable_def
    processColgroupEndTagForInColumnGroup_def processAnyOtherEndTagForInBody_def by (intro stays_intros)+

lemma stays_adoption_outer: "stays J (adoption_outer E token n) (adoption_outer E token n)"
  by (induction n) (auto intro!: stays_intros)

lemma stays_adoption [stays_intros]: "stays J (callTheAdoptionAgency E token) (callTheAdoptionAgency E token)"
  unfolding callTheAdoptionAgency_def by (rule stays_adoption_outer)

lemma stays_tags [stays_intros]: "stays J (processHtmlStartTagForInBody token) (processHtmlStartTagForInBody token)" "stays J (startTag_body token) (startTag_body token)"
  "stays J (startTag_frameset E token) (startTag_frameset E token)" "stays J (startTag_input E token) (startTag_input E token)"
  "stays J (startTag_select E token) (startTag_select E token)" "stays J (endTag_form token) (endTag_form token)" "stays J (endTag_TextMode token) (endTag_TextMode token)"
  "stays J (endTag_InFramesetMode token) (endTag_InFramesetMode token)" "stays J (endTag_AfterFramesetMode token) (endTag_AfterFramesetMode token)"
  unfolding processHtmlStartTagForInBody_def startTag_body_def startTag_frameset_def startTag_input_def startTag_select_def endTag_form_def
    endTag_TextMode_def endTag_InFramesetMode_def endTag_AfterFramesetMode_def by (intro stays_intros)+

lemma stays_text_mode [stays_intros]: "stays J (insert_if_any E cs) (insert_if_any E cs)" "stays J (clear_framesetOk_unless_blank cs) (clear_framesetOk_unless_blank cs)"
  unfolding insert_if_any_def clear_framesetOk_unless_blank_def by (intro stays_intros)+

lemma stays_characters [stays_intros]: "stays J (processCharacterBufferForInBody E buffer) (processCharacterBufferForInBody E buffer)"
  "stays J (characters_insert_remaining E buffer) (characters_insert_remaining E buffer)"
  "stays J (characters_InFramesetMode E buffer) (characters_InFramesetMode E buffer)"
  "stays J (characters_AfterAfterFramesetMode E buffer) (characters_AfterAfterFramesetMode E buffer)"
  unfolding processCharacterBufferForInBody_def characters_insert_remaining_def characters_InFramesetMode_def characters_AfterAfterFramesetMode_def
  by (intro stays_intros)+

lemma stays_characters_in_body [stays_intros]: "stays J (characters_InBodyMode E buffer) (characters_InBodyMode E buffer)"
  "stays J (characters_InTableMode E buffer) (characters_InTableMode E buffer)"
  unfolding characters_InBodyMode_def characters_InTableMode_def by (intro stays_intros)+

lemma stays_skip [stays_intros]: "(\<And>x. stays J (k x) (k' x)) \<Longrightarrow> stays J (skip_whitespace buffer k) (skip_whitespace buffer k')"
  "(\<And>x. stays J (k x) (k' x)) \<Longrightarrow> stays J (insert_leading_whitespace E buffer k) (insert_leading_whitespace E buffer k')"
  unfolding skip_whitespace_def insert_leading_whitespace_def by (intro stays_intros; simp)+

lemma stays_file_end [stays_intros]: "stays J endOfFile_finish endOfFile_finish" "stays J endOfFile_InBodyMode endOfFile_InBodyMode"
  "stays J endOfFile_InTableMode endOfFile_InTableMode" "stays J endOfFile_InColumnGroupMode endOfFile_InColumnGroupMode"
  unfolding endOfFile_InBodyMode_def endOfFile_InTableMode_def endOfFile_InColumnGroupMode_def endOfFile_finish_def by (intro stays_intros)+

end

section \<open>Handlers that call others\<close>

locale tree_calls = site_invariant +
  fixes self self' :: self
  assumes stays_self [stays_intros]: "stays J (self c) (self' c)"
begin

lemma stays_fake [stays_intros]: "stays J (processFakeStartTag self n as) (processFakeStartTag self' n as)"
  "stays J (processFakeEndTag_name self m) (processFakeEndTag_name self' m)" "stays J (processFakeEndTag self n) (processFakeEndTag self' n)"
  "stays J (processFakeCharacters self cs) (processFakeCharacters self' cs)"
  "stays J (processFakePEndTagIfPInButtonScope self) (processFakePEndTagIfPInButtonScope self')"
  unfolding processFakePEndTagIfPInButtonScope_def processFakeEndTag_def processFakeStartTag_def processFakeEndTag_name_def processFakeCharacters_def
  by (intro stays_intros)+

lemma stays_self_defaults [stays_intros]: "stays J (defaultForBeforeHead self) (defaultForBeforeHead self')" "stays J (defaultForInHead self) (defaultForInHead self')"
  "stays J (defaultForInHeadNoscript self) (defaultForInHeadNoscript self')" "stays J (defaultForAfterHead self) (defaultForAfterHead self')"
  unfolding defaultForBeforeHead_def defaultForInHead_def defaultForInHeadNoscript_def defaultForAfterHead_def by (intro stays_intros)+

lemma stays_isindex [stays_intros]: "stays J (processIsindexStartTagForInBody E self token) (processIsindexStartTagForInBody E self' token)"
  unfolding processIsindexStartTagForInBody_def by (intro stays_intros)

lemma stays_in_head [stays_intros]: "stays_bool J (processStartTagForInHead E self token) (processStartTagForInHead E self' token)"
  unfolding processStartTagForInHead_def by (intro stays_intros)

lemma stays_heads [stays_intros]: "stays J (must_process_in_head E self token) (must_process_in_head E self' token)" "stays J (with_head E self token) (with_head E self' token)"
  unfolding must_process_in_head_def with_head_def by (intro stays_intros)+

lemma stays_nested [stays_intros]: "stays J (processCloseWhenNestedTag E self P token) (processCloseWhenNestedTag E self' P token)"
  "stays J (startTag_a E self token) (startTag_a E self' token)"
  unfolding processCloseWhenNestedTag_def startTag_a_def by (intro stays_intros)+

lemma stays_content [stays_intros]: "stays J (startTagInBody_content E self token) (startTagInBody_content E self' token)"
  unfolding startTagInBody_content_def by (intro stays_intros)

lemma stays_formatting_tag [stays_intros]: "stays J (startTagInBody_formatting E self token) (startTagInBody_formatting E self' token)"
  unfolding startTagInBody_formatting_def by (intro stays_intros)

lemma stays_start_in_body [stays_intros]: "stays J (processStartTagForInBody E self token) (processStartTagForInBody E self' token)"
  unfolding processStartTagForInBody_def by (intro stays_intros)

lemma stays_start_in_table [stays_intros]: "stays J (processStartTagForInTable E self token) (processStartTagForInTable E self' token)"
  unfolding processStartTagForInTable_def by (intro stays_intros)

lemma stays_cells [stays_intros]: "stays J (closeTheCell self) (closeTheCell self')" "stays J (close_table_body self) (close_table_body self')"
  unfolding closeTheCell_def close_table_body_def by (intro stays_intros)+

lemmas start_tag_modes = startTag_InBodyMode_def startTag_AfterHeadMode_def startTag_InHeadMode_def startTag_BeforeHeadMode_def startTag_BeforeHTMLMode_def
  startTag_InitialMode_def startTag_InCaptionMode_def startTag_InColumnGroupMode_def startTag_InTableBodyMode_def startTag_InRowMode_def
  startTag_InCellMode_def startTag_AfterBodyMode_def startTag_InHeadNoscriptMode_def startTag_InFramesetMode_def startTag_AfterFramesetMode_def
  startTag_InSelectMode_def startTag_InSelectInTableMode_def

lemma stays_mode [stays_intros]: "stays J (case m of InitialMode \<Rightarrow> a1 | BeforeHTMLMode \<Rightarrow> a2 | BeforeHeadMode \<Rightarrow> a3 | InHeadMode \<Rightarrow> a4 | InHeadNoscriptMode \<Rightarrow> a5
    | AfterHeadMode \<Rightarrow> a6 | TemplateContentsMode \<Rightarrow> a7 | InBodyMode \<Rightarrow> a8 | TextMode \<Rightarrow> a9 | InTableMode \<Rightarrow> a10 | InTableTextMode \<Rightarrow> a11 | InCaptionMode \<Rightarrow> a12
    | InColumnGroupMode \<Rightarrow> a13 | InTableBodyMode \<Rightarrow> a14 | InRowMode \<Rightarrow> a15 | InCellMode \<Rightarrow> a16 | InSelectMode \<Rightarrow> a17 | InSelectInTableMode \<Rightarrow> a18
    | AfterBodyMode \<Rightarrow> a19 | InFramesetMode \<Rightarrow> a20 | AfterFramesetMode \<Rightarrow> a21 | AfterAfterBodyMode \<Rightarrow> a22 | AfterAfterFramesetMode \<Rightarrow> a23)
   (case m of InitialMode \<Rightarrow> c1 | BeforeHTMLMode \<Rightarrow> c2 | BeforeHeadMode \<Rightarrow> c3 | InHeadMode \<Rightarrow> c4 | InHeadNoscriptMode \<Rightarrow> c5
    | AfterHeadMode \<Rightarrow> c6 | TemplateContentsMode \<Rightarrow> c7 | InBodyMode \<Rightarrow> c8 | TextMode \<Rightarrow> c9 | InTableMode \<Rightarrow> c10 | InTableTextMode \<Rightarrow> c11 | InCaptionMode \<Rightarrow> c12
    | InColumnGroupMode \<Rightarrow> c13 | InTableBodyMode \<Rightarrow> c14 | InRowMode \<Rightarrow> c15 | InCellMode \<Rightarrow> c16 | InSelectMode \<Rightarrow> c17 | InSelectInTableMode \<Rightarrow> c18
    | AfterBodyMode \<Rightarrow> c19 | InFramesetMode \<Rightarrow> c20 | AfterFramesetMode \<Rightarrow> c21 | AfterAfterBodyMode \<Rightarrow> c22 | AfterAfterFramesetMode \<Rightarrow> c23)"
  if "stays J a1 c1" "stays J a2 c2" "stays J a3 c3" "stays J a4 c4" "stays J a5 c5" "stays J a6 c6" "stays J a7 c7" "stays J a8 c8" "stays J a9 c9" "stays J a10 c10"
    "stays J a11 c11" "stays J a12 c12" "stays J a13 c13" "stays J a14 c14" "stays J a15 c15" "stays J a16 c16" "stays J a17 c17" "stays J a18 c18" "stays J a19 c19"
    "stays J a20 c20" "stays J a21 c21" "stays J a22 c22" "stays J a23 c23"
  using that by (cases m) simp_all

lemma stays_start_tag: "stays J (processStartTag E self token) (processStartTag E self' token)"
  unfolding processStartTag_def start_tag_modes by (intro stays_intros)

lemma stays_end_p [stays_intros]: "stays J (endTag_p self token) (endTag_p self' token)"
  unfolding endTag_p_def by (intro stays_intros)

lemma stays_end_in_body [stays_intros]: "stays J (processEndTagForInBody E self token) (processEndTagForInBody E self' token)"
  unfolding processEndTagForInBody_def by (intro stays_intros)

lemma stays_end_in_table [stays_intros]: "stays J (processEndTagForInTable E self token) (processEndTagForInTable E self' token)"
  unfolding processEndTagForInTable_def by (intro stays_intros)

lemma stays_end_in_tables [stays_intros]: "stays J (processEndTagForInTableBody E self token) (processEndTagForInTableBody E self' token)"
  "stays J (processEndTagForInRow E self token) (processEndTagForInRow E self' token)" "stays J (processEndTagForInCell E self token) (processEndTagForInCell E self' token)"
  unfolding processEndTagForInTableBody_def processEndTagForInRow_def processEndTagForInCell_def by (intro stays_intros)+

lemmas end_tag_modes = endTag_InBodyMode_def endTag_AfterHeadMode_def endTag_InHeadMode_def endTag_BeforeHeadMode_def endTag_BeforeHTMLMode_def
  endTag_InitialMode_def endTag_InCaptionMode_def endTag_InColumnGroupMode_def endTag_AfterAfterBodyMode_def endTag_AfterBodyMode_def
  endTag_InHeadNoscriptMode_def endTag_InSelectMode_def endTag_InSelectInTableMode_def

lemma stays_end_tag: "stays J (processEndTag E self token) (processEndTag E self' token)"
  unfolding processEndTag_def end_tag_modes by (intro stays_intros)

lemma stays_doctype: "stays J (processDoctypeToken E self token) (processDoctypeToken E self' token)"
  unfolding processDoctypeToken_def by (intro stays_intros)

lemma stays_comment: "stays J (processComment E self token) (processComment E self' token)"
  unfolding processComment_def by (intro stays_intros)

lemmas character_modes = characters_AfterHeadMode_def characters_InHeadMode_def characters_BeforeHeadMode_def characters_BeforeHTMLMode_def
  characters_InitialMode_def characters_InColumnGroupMode_def

lemma stays_characters_in_mode [stays_intros]: "stays J (characters_in_mode E self buffer) (characters_in_mode E self' buffer)"
  unfolding characters_in_mode_def character_modes by (intro stays_intros)

lemma stays_buffer: "stays J (processCharacterBuffer E self buffer) (processCharacterBuffer E self' buffer)"
  unfolding processCharacterBuffer_def by (intro stays_intros)

lemma stays_file: "stays J (processEndOfFile E self token) (processEndOfFile E self' token)"
  unfolding processEndOfFile_def endOfFile_BeforeHTMLMode_def endOfFile_BeforeHeadMode_def endOfFile_InHeadMode_def endOfFile_AfterHeadMode_def
  by (intro stays_intros)

lemma stays_token: "stays J (processToken self token) (processToken self' token)"
  unfolding processToken_def processCharacter_def by (cases "am_type token") (auto intro!: stays_intros simp del: steps.simps)

lemma stays_dispatch: "stays J (dispatch E self c) (dispatch E self' c)"
  unfolding dispatch_def
  by (cases c) (simp_all add: stays_start_tag stays_end_tag stays_doctype stays_comment stays_buffer stays_file stays_token)

lemma stays_foreign: "stays J (processTokenInForeignContent E self token) (processTokenInForeignContent E self' token)"
  unfolding processTokenInForeignContent_def foreign_start_tag_def foreign_end_tag_def
  by (cases "am_type token") (auto intro!: stays_intros simp del: steps.simps)

end

end
