(* ===== verification/Tree_Run.thy ===== *)
theory Tree_Run
  imports Tree_Calls
begin

text \<open>
  The tree builder as a whole: \<open>run\<close> ties the calls between the handlers, and the public functions of \<open>HTMLTreeBuilder\<close>, its two constructors, \<open>constructTree\<close>,
  \<open>takeScriptToProcess\<close>, \<open>detach\<close> and \<open>finished\<close>. A handler that calls itself without end is \<open>None\<close>, as is a failed assertion.
\<close>

section \<open>Calls\<close>

interpretation defined: site_invariant "\<lambda>_. True" E for E
  by unfold_locales (simp_all add: kept_def stays_def stays_bool_def)

lemma tree_callsI: "site_invariant J E \<Longrightarrow> (\<And>c. stays J (self c) (self' c)) \<Longrightarrow> tree_calls J E self self'"
  by (simp add: tree_calls_def tree_calls_axioms_def)

lemma dispatch_mono [partial_function_mono]:
  assumes "\<And>c b. mono_option (\<lambda>f. self f c b)"
  shows "mono_option (\<lambda>f. dispatch E (self f) c b)"
proof (rule monotoneI)
  fix x y :: "'a \<Rightarrow> 'b option" assume "fun_ord (flat_ord None) x y"
  then have le: "flat_ord None (self x c b) (self y c b)" for c b using assms by (auto simp: monotone_def)
  then have "self y c b = Some b1" if "self x c b = Some b1" for c b b1 using that unfolding flat_ord_def by (metis option.distinct(1))
  then have "tree_calls (\<lambda>_. True) E (self x) (self y)" by (intro tree_callsI defined.site_invariant_axioms) (simp add: stays_def)
  from tree_calls.stays_dispatch[OF this, of c] show "flat_ord None (dispatch E (self x) c b) (dispatch E (self y) c b)"
    by (cases "dispatch E (self x) c b") (auto simp: stays_def flat_ord_def)
qed

text \<open>
  One partial function for all calls between the handlers. \<open>None\<close> stands for a failed assertion, a null pointer and calls without end alike, so a theorem about a run
  that returns says nothing of the others: \<open>constructTree\<close> may also fail.
\<close>

partial_function (option) run :: "TreeEnv \<Rightarrow> Call \<Rightarrow> HTMLTreeBuilder \<Rightarrow> HTMLTreeBuilder option" where
  "run E call b = dispatch E (run E) call b"

text \<open>Evaluation unfolds an action only when it runs: its code equations take the state as an argument.\<close>

lemma steps_code [code]: "steps [] b = Some b" "steps (a # as) b = (case a b of None \<Rightarrow> None | Some b1 \<Rightarrow> steps as b1)"
  by (simp_all add: andThen_def)

lemmas action_defs =
  on_stack_def on_formatting_def nothing_def on_site_def asserting_type_def insert_html_def insert_self_closing_def insert_foreign_def insert_text_def
  reconstruct_def append_marker_def clear_to_marker_def defaultForInitial_def insert_html_element_def defaultForBeforeHTML_def
  defaultForInTableText_def processGenericRCDATAStartTag_def processGenericRawTextStartTag_def processScriptStartTag_def
  processBodyEndTagForInBody_def popUntilTag_def pop_def processCaptionEndTagForInCaption_def processTrEndTagForInRow_def
  processTableEndTagForInTable_def processColgroupEndTagForInColumnGroup_def processAnyOtherEndTagForInBody_def callTheAdoptionAgency_def
  processFakeStartTag_def processFakeEndTag_name_def processFakeEndTag_def processFakeCharacters_def processFakePEndTagIfPInButtonScope_def
  defaultForBeforeHead_def defaultForInHead_def defaultForInHeadNoscript_def defaultForAfterHead_def set_form_attribute_def
  processIsindexStartTagForInBody_def processHtmlStartTagForInBody_def processStartTagForInHead_def must_process_in_head_def ignoring_result_def
  processCloseWhenNestedTag_def no_body_below_root_def remove_body_def top_is_html_def startTag_body_def startTag_frameset_def startTag_a_def
  startTag_input_def startTag_select_def startTagInBody_content_def startTagInBody_formatting_def processStartTagForInBody_def closeTheCell_def
  processStartTagForInTable_def startTag_InBodyMode_def with_head_def startTag_AfterHeadMode_def startTag_InHeadMode_def startTag_BeforeHeadMode_def
  startTag_BeforeHTMLMode_def startTag_InitialMode_def startTag_InCaptionMode_def startTag_InColumnGroupMode_def in_table_body_def
  close_table_body_def startTag_InTableBodyMode_def startTag_InRowMode_def startTag_InCellMode_def startTag_AfterBodyMode_def
  startTag_InHeadNoscriptMode_def startTag_InFramesetMode_def startTag_AfterFramesetMode_def startTag_InSelectMode_def
  startTag_InSelectInTableMode_def processStartTag_def close_tag_def popUntilPopped_token_def endTag_form_def endTag_p_def processEndTagForInBody_def
  processEndTagForInTable_def processEndTagForInTableBody_def processEndTagForInRow_def processEndTagForInCell_def endTag_InBodyMode_def
  endTag_AfterHeadMode_def endTag_InHeadMode_def endTag_BeforeHeadMode_def endTag_BeforeHTMLMode_def endTag_InitialMode_def endTag_InCaptionMode_def
  endTag_InColumnGroupMode_def endTag_AfterAfterBodyMode_def endTag_AfterBodyMode_def endTag_InHeadNoscriptMode_def endTag_TextMode_def
  endTag_InFramesetMode_def endTag_AfterFramesetMode_def option_in_optgroup_def endTag_InSelectMode_def endTag_InSelectInTableMode_def
  processEndTag_def processDoctypeToken_def processComment_def drained_def unless_empty_def clear_framesetOk_unless_blank_def
  processCharacterBufferForInBody_def skip_whitespace_def insert_if_any_def insert_leading_whitespace_def characters_InBodyMode_def
  characters_AfterHeadMode_def characters_InHeadMode_def characters_BeforeHeadMode_def characters_BeforeHTMLMode_def characters_InitialMode_def
  characters_InTableMode_def characters_InColumnGroupMode_def characters_insert_remaining_def characters_InFramesetMode_def
  characters_AfterAfterFramesetMode_def characters_in_mode_def processCharacterBuffer_def processCharacter_def endOfFile_finish_def
  endOfFile_InBodyMode_def endOfFile_AfterHeadMode_def endOfFile_InHeadMode_def endOfFile_BeforeHeadMode_def endOfFile_BeforeHTMLMode_def
  endOfFile_InTableMode_def endOfFile_InColumnGroupMode_def processEndOfFile_def processToken_def foreign_start_tag_def foreign_end_tag_def
  processTokenInForeignContent_def dispatch_def

declare action_defs [THEN fun_cong, code] fakeToken_def [THEN fun_cong, THEN fun_cong, code]
declare run.simps [code] insertText_loop.simps [code] getChildNodes_loop.simps [code] cutChildren_loop.simps [code] closestFormAncestor.simps [code]

section \<open>Construction\<close>

definition uninitializedPositionValue1 :: "int \<times> int" where
  "uninitializedPositionValue1 = (-1 - 1, 0)"

definition blank_builder :: "HTMLConstructionSite \<Rightarrow> (nat \<times> ContainerNode) option \<Rightarrow> HTMLTokenizer option \<Rightarrow> HTMLParserOptions \<Rightarrow> HTMLTreeBuilder" where
  "blank_builder tree context tokenizer options =
     \<lparr>tb_framesetOk = True, tb_isAttached = True, tb_fragmentContext = context, tb_tree = tree, tb_insertionMode = InitialMode,
      tb_originalInsertionMode = InitialMode, tb_pendingTableCharacters = [], tb_shouldSkipLeadingNewline = False, tb_tokenizer = tokenizer,
      tb_scriptToProcess = None, tb_scriptToProcessStartPosition = uninitializedPositionValue1, tb_options = options\<rparr>"

definition newHTMLTreeBuilder :: "nat \<Rightarrow> ParserContentPolicy \<Rightarrow> CompatibilityMode \<Rightarrow> DOM \<Rightarrow> HTMLTokenizer option \<Rightarrow> HTMLParserOptions \<Rightarrow> HTMLTreeBuilder" where
  "newHTMLTreeBuilder document policy mode D tokenizer options =
     blank_builder (newHTMLConstructionSite document document False policy (opt_maximumDOMTreeDepth options) mode D) None tokenizer options"

definition newHTMLTreeBuilder_fragment :: "nat \<Rightarrow> nat \<Rightarrow> ContainerNode \<Rightarrow> ParserContentPolicy \<Rightarrow> CompatibilityMode \<Rightarrow> DOM \<Rightarrow> HTMLTokenizer option
    \<Rightarrow> HTMLParserOptions \<Rightarrow> HTMLTreeBuilder option" where
  "newHTMLTreeBuilder_fragment document fragment contextElement policy mode D tokenizer options = do {
     first \<leftarrow> firstChild fragment D;
     ASSERT (first = None);
     let b = blank_builder (newHTMLConstructionSite document fragment True policy (opt_maximumDOMTreeDepth options) mode D)
       (Some (fragment, contextElement)) tokenizer options;
     b1 \<leftarrow> on_stack (pushRootNode (createItem \<lparr>nd_address = fragment, nd_tagName = None\<rparr> ItemForDocumentFragmentNode)) b;
     b2 \<leftarrow> resetInsertionModeAppropriately b1;
     form \<leftarrow> closestFormAncestor (nd_address contextElement) D;
     on_tree (setForm form) b2 }"

definition tb_detach :: "HTMLTreeBuilder \<Rightarrow> HTMLTreeBuilder" where
  "tb_detach b = b\<lparr>tb_isAttached := False, tb_tree := hs_detach (tb_tree b)\<rparr>"

definition takeScriptToProcess :: "HTMLTreeBuilder \<Rightarrow> (nat \<times> (int \<times> int) \<times> HTMLTreeBuilder) option" where
  "takeScriptToProcess b = do {
     script \<leftarrow> tb_scriptToProcess b;
     Some (script, tb_scriptToProcessStartPosition b,
       b\<lparr>tb_scriptToProcessStartPosition := uninitializedPositionValue1, tb_scriptToProcess := None\<rparr>) }"

definition finished :: act where
  "finished = test isParsingFragment nothing
     (steps [asserting (\<lambda>b. Some (tb_isAttached b)), on_site finishedParsing])"

section \<open>A token\<close>

definition inForeignContent :: "TreeEnv \<Rightarrow> HTMLTreeBuilder \<Rightarrow> bool option" where
  "inForeignContent E b =
     (if hs_isEmpty (tb_tree b) then Some False
      else do {
        item \<leftarrow> currentStackItem (tb_tree b);
        if isInHTMLNamespace item then Some False
        else do { h \<leftarrow> isHTMLIntegrationPoint (se_foldCase (te_site E)) item; Some (\<not> h \<and> \<not> isMathMLTextIntegrationPoint item) } })"

definition update_tokenizer :: "TreeEnv \<Rightarrow> act" where
  "update_tokenizer E b = (case tb_tokenizer b of None \<Rightarrow> Some b
     | Some t \<Rightarrow> do {
         foreign \<leftarrow> inForeignContent E b;
         Some (b\<lparr>tb_tokenizer := Some (t\<lparr>tk_forceNullCharacterReplacement := (tb_insertionMode b = TextMode \<or> foreign),
           tk_shouldAllowCDATA := foreign\<rparr>)\<rparr>) })"

definition constructTree :: "TreeEnv \<Rightarrow> AtomicHTMLToken \<Rightarrow> act" where
  "constructTree E token = steps [
     test (shouldProcessTokenInForeignContent E token)
       (processTokenInForeignContent E (run E) token)
       (run E (TokenCall token)),
     update_tokenizer E,
     on_tree executeQueuedTasks]"

fun constructTrees :: "TreeEnv \<Rightarrow> AtomicHTMLToken list \<Rightarrow> act" where
  "constructTrees E [] = Some"
| "constructTrees E (token # tokens) = andThen (constructTree E token) (constructTrees E tokens)"

declare finished_def [THEN fun_cong, code] constructTree_def [THEN fun_cong, code]

section \<open>Invariants of the builder\<close>

context site_invariant
begin

lemma run_keeps: "run E0 call b = Some b' \<Longrightarrow> E0 = E \<longrightarrow> J (tb_tree b) \<longrightarrow> J (tb_tree b')"
proof (rule run.raw_induct[where P = "\<lambda>E0 call b b'. E0 = E \<longrightarrow> J (tb_tree b) \<longrightarrow> J (tb_tree b')"])
  fix f :: "TreeEnv \<Rightarrow> Call \<Rightarrow> act" and E0 call b b'
  assume IH: "\<And>E0 call b b'. f E0 call b = Some b' \<Longrightarrow> E0 = E \<longrightarrow> J (tb_tree b) \<longrightarrow> J (tb_tree b')"
    and d: "dispatch E0 (f E0) call b = Some b'"
  have "tree_calls J E (f E) (f E)" by (intro tree_callsI site_invariant_axioms staysI conjI) (use IH in blast)+
  then have "stays J (dispatch E (f E) call) (dispatch E (f E) call)" by (rule tree_calls.stays_dispatch)
  with d show "E0 = E \<longrightarrow> J (tb_tree b) \<longrightarrow> J (tb_tree b')" by (blast dest: staysD)
qed

lemma run_stays: "stays J (run E call) (run E call)"
  by (rule staysI) (use run_keeps in blast)

lemma construct_keeps:
  assumes "\<And>s s'. J s \<Longrightarrow> executeQueuedTasks s = Some s' \<Longrightarrow> J s'"
  shows "stays J (constructTree E token) (constructTree E token)"
proof -
  have t: "tree_calls J E (run E) (run E)" by (intro tree_callsI site_invariant_axioms run_stays)
  have "stays J (update_tokenizer E) (update_tokenizer E)"
    by (rule staysI) (auto simp: update_tokenizer_def bind_eq_Some_conv split: option.splits)
  then show ?thesis unfolding constructTree_def
    by (intro stays_intros tree_calls.stays_foreign[OF t] run_stays keptI) (use assms in blast)+
qed

end

end
