(* ===== verification/Tree_Types.thy ===== *)
theory Tree_Types
  imports Tree_Run Site_Properties "HOL-Library.Sublist"
begin

text \<open>
  An invariant of the tree builder: the nodes it holds pointers to are of the kind and have the tag it takes them for. Whatever tokens arrive, the stack of open
  elements keeps \<open>stack_inv\<close>, the list of active formatting elements has each element once, every item of the two, the head and the form agree with their node
  in the DOM, and no address is used twice.
\<close>

section \<open>The DOM grows\<close>

text \<open>What never changes of a node: its kind and its tag.\<close>

fun shape :: "NodeKind \<Rightarrow> NodeKind" where
  "shape (ElementKind q as) = ElementKind q []"
| "shape (TextKind t) = TextKind []"
| "shape k = k"

lemma shape_iff: "shape k = ElementKind q [] \<longleftrightarrow> (\<exists>as. k = ElementKind q as)" "shape k = FragmentKind \<longleftrightarrow> k = FragmentKind"
  by (cases k; auto)+

definition bounded :: "DOM \<Rightarrow> bool" where
  "bounded D \<longleftrightarrow> (\<forall>a. dom_node D a \<noteq> None \<longrightarrow> a < dom_fresh D)"

definition dom_ext :: "DOM \<Rightarrow> DOM \<Rightarrow> bool" where
  "dom_ext D D' \<longleftrightarrow> (bounded D \<longrightarrow> bounded D' \<and> dom_fresh D \<le> dom_fresh D' \<and>
     (\<forall>a k. node_kind a D = Some k \<longrightarrow> (\<exists>k'. node_kind a D' = Some k' \<and> shape k' = shape k)))"

lemma ext_refl: "dom_ext D D"
  by (auto simp: dom_ext_def)

lemma ext_trans: "dom_ext D D1 \<Longrightarrow> dom_ext D1 D2 \<Longrightarrow> dom_ext D D2"
  unfolding dom_ext_def by (metis le_trans)

lemma ext_on_node: "on_node a f D = Some D' \<Longrightarrow> (\<And>n. dom_node D a = Some n \<Longrightarrow> shape (dn_kind (f n)) = shape (dn_kind n)) \<Longrightarrow> dom_ext D D'"
  by (auto simp: on_node_def dom_ext_def bounded_def node_kind_def bind_eq_Some_conv split: if_splits)

lemma ext_create: "createNode k D = (c, D') \<Longrightarrow> dom_ext D D'"
  by (auto simp: createNode_def dom_ext_def bounded_def node_kind_def less_Suc_eq split: if_splits)

lemma ext_set: "setParent p a D = Some D' \<Longrightarrow> dom_ext D D'" "setPreviousSibling p a D = Some D' \<Longrightarrow> dom_ext D D'"
  "setNextSibling p a D = Some D' \<Longrightarrow> dom_ext D D'" "setFirstChild p a D = Some D' \<Longrightarrow> dom_ext D D'" "setLastChild p a D = Some D' \<Longrightarrow> dom_ext D D'"
  unfolding setParent_def setPreviousSibling_def setNextSibling_def setFirstChild_def setLastChild_def by (erule ext_on_node; simp)+

definition extending :: "(DOM \<Rightarrow> DOM option) \<Rightarrow> bool" where
  "extending f \<longleftrightarrow> (\<forall>D D'. f D = Some D' \<longrightarrow> dom_ext D D')"

lemma extendingD: "extending f \<Longrightarrow> f D = Some D' \<Longrightarrow> dom_ext D D'"
  by (simp add: extending_def)

lemma extending_dom: "extending (appendChildToContainer c p)" "extending (parserAppendChild p c)"
proof -
  show 1: "extending (appendChildToContainer c p)"
    unfolding extending_def appendChildToContainer_def
    by (auto simp: bind_eq_Some_conv split: option.splits) (meson ext_trans ext_set)+
  show "extending (parserAppendChild p c)"
    using 1 by (auto simp: extending_def parserAppendChild_def bind_eq_Some_conv split: if_splits)
qed

lemma extending_insert: "extending (parserInsertBefore p c n)"
proof -
  have "dom_ext D D'" if "insertBeforeCommon p n c D = Some D'" for D D'
    using that by (auto simp: insertBeforeCommon_def bind_eq_Some_conv split: option.splits if_splits) (meson ext_trans ext_set)+
  then show ?thesis by (auto simp: extending_def parserInsertBefore_def bind_eq_Some_conv intro: ext_refl split: if_splits)
qed

lemma extending_remove: "extending (parserRemoveChild p c)"
proof -
  have "dom_ext D D'" if "removeBetween p x y c D = Some D'" for x y D D'
    using that unfolding removeBetween_def
    by (auto simp: bind_eq_Some_conv split: option.splits if_splits) (meson ext_trans ext_set)+
  then show ?thesis by (auto simp: extending_def parserRemoveChild_def bind_eq_Some_conv split: if_splits)
qed

lemma extending_removeFromParent: "extending (removeFromParent c)"
  using extending_remove by (auto simp: extending_def removeFromParent_def bind_eq_Some_conv intro: ext_refl split: option.splits)

lemma cut_ext: "cutChildren_loop p n D = Some D' \<Longrightarrow> dom_ext D D'"
proof (erule cutChildren_loop.raw_induct[where P = "\<lambda>p n D D'. dom_ext D D'", rotated])
  fix f :: "nat \<Rightarrow> nat option \<Rightarrow> DOM \<Rightarrow> DOM option" and p n D D'
  assume IH: "\<And>p n D D'. f p n D = Some D' \<Longrightarrow> dom_ext D D'"
    and s: "(case n of None \<Rightarrow> Some D
     | Some n \<Rightarrow> do {
         next \<leftarrow> nextSibling n D;
         D1 \<leftarrow> setNextSibling None n D;
         D2 \<leftarrow> setParent None n D1;
         D3 \<leftarrow> setFirstChild next p D2;
         D4 \<leftarrow> (case next of None \<Rightarrow> Some D3 | Some x \<Rightarrow> setPreviousSibling None x D3);
         f p next D4 }) = Some D'"
  then show "dom_ext D D'"
    by (auto simp: bind_eq_Some_conv intro: ext_refl split: option.splits) (meson ext_trans ext_set IH)+
qed

lemma extending_takeAll: "extending (takeAllChildrenFrom p c)"
proof -
  have each: "appendEach p cs D = Some D' \<Longrightarrow> dom_ext D D'" for cs D D'
    by (induction cs arbitrary: D) (auto simp: bind_eq_Some_conv intro: ext_refl ext_trans extendingD[OF extending_dom(2)])
  have "removeDetachedChildren c D = Some D' \<Longrightarrow> dom_ext D D'" for D D'
    by (auto simp: removeDetachedChildren_def bind_eq_Some_conv intro: ext_trans cut_ext ext_set)
  with each show ?thesis unfolding extending_def takeAllChildrenFrom_def by (auto simp: bind_eq_Some_conv) (meson ext_trans)
qed

section \<open>The invariant\<close>

definition typed :: "DOM \<Rightarrow> ContainerNode \<Rightarrow> bool" where
  "typed D n \<longleftrightarrow> (case nd_tagName n of None \<Rightarrow> node_kind (nd_address n) D = Some FragmentKind
     | Some q \<Rightarrow> \<exists>as. node_kind (nd_address n) D = Some (ElementKind q as))"

definition is_form :: "DOM \<Rightarrow> nat \<Rightarrow> bool" where
  "is_form D a \<longleftrightarrow> (\<exists>q as. node_kind a D = Some (ElementKind q as) \<and> qn_matches q (htmlName ''form''))"

definition stack_typed :: "DOM \<Rightarrow> HTMLElementStack \<Rightarrow> bool" where
  "stack_typed D st \<longleftrightarrow> stack_inv st \<and> (\<forall>r \<in> set (es_top st). typed D (si_node (er_item r)))"

definition list_typed :: "DOM \<Rightarrow> FormattingEntry list \<Rightarrow> bool" where
  "list_typed D es \<longleftrightarrow> distinct (map item_address (entry_items es)) \<and>
     (\<forall>i \<in> set (entry_items es). item_ok i \<and> ordinary_item i \<and> typed D (si_node i))"

definition site_typed :: "HTMLConstructionSite \<Rightarrow> bool" where
  "site_typed s \<longleftrightarrow> bounded (hs_dom s) \<and> stack_typed (hs_dom s) (hs_openElements s) \<and>
     list_typed (hs_dom s) (fl_entries (hs_activeFormattingElements s)) \<and>
     (\<forall>i. hs_head s = Some i \<longrightarrow> item_ok i \<and> hasTagName i (htmlName ''head'') \<and> typed (hs_dom s) (si_node i)) \<and>
     (\<forall>f. hs_form s = Some f \<longrightarrow> is_form (hs_dom s) f)"

lemma typed_ext: "typed D n \<Longrightarrow> dom_ext D D' \<Longrightarrow> bounded D \<Longrightarrow> typed D' n"
proof -
  assume t: "typed D n" and e: "dom_ext D D'" "bounded D"
  have "\<exists>k'. node_kind (nd_address n) D' = Some k' \<and> shape k' = shape k" if "node_kind (nd_address n) D = Some k" for k
    using e that by (simp add: dom_ext_def)
  with t show "typed D' n" unfolding typed_def
    by (cases "nd_tagName n") (fastforce simp: shape_iff)+
qed

lemma form_ext: "is_form D a \<Longrightarrow> dom_ext D D' \<Longrightarrow> bounded D \<Longrightarrow> is_form D' a"
proof -
  assume f: "is_form D a" and e: "dom_ext D D'" "bounded D"
  have "\<exists>k'. node_kind a D' = Some k' \<and> shape k' = shape k" if "node_kind a D = Some k" for k
    using e that by (simp add: dom_ext_def)
  with f show "is_form D' a" unfolding is_form_def by (fastforce simp: shape_iff)
qed

lemma typed_bound: "typed D n \<Longrightarrow> bounded D \<Longrightarrow> nd_address n < dom_fresh D"
  by (auto simp: typed_def bounded_def node_kind_def split: option.splits)

lemma typed_same: "typed D m \<Longrightarrow> typed D n \<Longrightarrow> nd_address m = nd_address n \<Longrightarrow> m = (n :: ContainerNode)"
  by (cases m; cases n) (auto simp: typed_def split: option.splits)

text \<open>The DOM may grow under the builder.\<close>

lemma site_dom:
  assumes "site_typed s" "dom_ext (hs_dom s) D"
  shows "site_typed (s\<lparr>hs_dom := D\<rparr>)"
proof -
  have b: "bounded (hs_dom s)" using assms(1) by (simp add: site_typed_def)
  then have t: "typed (hs_dom s) n \<Longrightarrow> typed D n" "is_form (hs_dom s) a \<Longrightarrow> is_form D a" for n a
    using typed_ext form_ext assms(2) by blast+
  have "bounded D" using b assms(2) by (simp add: dom_ext_def)
  with assms(1) t show ?thesis unfolding site_typed_def stack_typed_def list_typed_def by simp
qed

lemma site_typed_frame [simp]: "site_typed (s\<lparr>hs_attachmentQueue := q\<rparr>) = site_typed s" "site_typed (s\<lparr>hs_redirectAttachToFosterParent := v\<rparr>) = site_typed s"
  "site_typed (s\<lparr>hs_events := ev\<rparr>) = site_typed s" "site_typed (s\<lparr>hs_inQuirksMode := v\<rparr>) = site_typed s" "site_typed (s\<lparr>hs_compatibilityMode := cm\<rparr>) = site_typed s"
  by (simp_all add: site_typed_def)

lemma site_stack: "site_typed s \<Longrightarrow> stack_typed (hs_dom s) st \<Longrightarrow> site_typed (s\<lparr>hs_openElements := st\<rparr>)"
  by (simp add: site_typed_def)

lemma site_list: "site_typed s \<Longrightarrow> list_typed (hs_dom s) (fl_entries l) \<Longrightarrow> site_typed (s\<lparr>hs_activeFormattingElements := l\<rparr>)"
  by (simp add: site_typed_def)

lemma site_parts: "site_typed s \<Longrightarrow> bounded (hs_dom s)" "site_typed s \<Longrightarrow> stack_typed (hs_dom s) (hs_openElements s)"
  "site_typed s \<Longrightarrow> list_typed (hs_dom s) (fl_entries (hs_activeFormattingElements s))"
  by (simp_all add: site_typed_def)

section \<open>The stack\<close>

lemma stack_sub:
  assumes "stack_typed D st" "stack_inv st'" "set (es_top st') \<subseteq> set (es_top st)"
  shows "stack_typed D st'"
  using assms by (auto simp: stack_typed_def)

lemma in_set_tlD: "x \<in> set (tl xs) \<Longrightarrow> x \<in> set xs"
  by (cases xs) auto

lemma popCommon_top: "popCommon st = Some st' \<Longrightarrow> es_top st' = tl (es_top st)"
  by (auto simp: popCommon_def bind_eq_Some_conv split: if_splits)

lemma pop_top: "es_pop st = Some st' \<Longrightarrow> es_top st' = tl (es_top st)"
  by (auto simp: es_pop_def bind_eq_Some_conv dest: popCommon_top split: if_splits)

lemma pop_loop_top: "pop_loop stop st = Some st' \<Longrightarrow> set (es_top st') \<subseteq> set (es_top st)"
proof (induction stop st rule: pop_loop.induct)
  case (1 stop st)
  obtain i c where i: "topStackItem st = Some i" "stop i = Some c" using 1(2) by (subst (asm) pop_loop.simps) (auto split: option.splits)
  show ?case
  proof (cases c)
    case True
    with 1(2) i show ?thesis by (subst (asm) pop_loop.simps) simp
  next
    case False
    with i have sf: "stop i = Some False" by simp
    then obtain st1 where st1: "es_pop st = Some st1" "pop_loop stop st1 = Some st'"
      using 1(2) i(1) by (subst (asm) pop_loop.simps) (auto split: option.splits)
    have "set (es_top st') \<subseteq> set (es_top st1)" by (rule 1(1)[OF i(1) sf _ st1]) simp
    then show ?thesis using pop_top[OF st1(1)] by (auto intro: in_set_tlD)
  qed
qed

lemma removed_top: "removeNonTop_loop x rs = Some rs' \<Longrightarrow> set rs' \<subseteq> set rs"
  by (drule remove_loop_split) auto

lemma remove_top: "es_remove n st = Some st' \<Longrightarrow> set (es_top st') \<subseteq> set (es_top st)"
  by (auto simp: es_remove_def removeNonTopCommon_def bind_eq_Some_conv dest!: pop_top removed_top split: if_splits intro: in_set_tlD)

lemma pops_typed:
  assumes "stack_typed D st"
  shows "es_pop st = Some st' \<Longrightarrow> stack_typed D st'" "pop_loop stop st = Some st' \<Longrightarrow> stack_typed D st'"
    "popHTMLHeadElement st = Some st' \<Longrightarrow> stack_typed D st'" "popHTMLBodyElement st = Some st' \<Longrightarrow> stack_typed D st'" "stack_typed D (popAll st)"
proof -
  have inv: "stack_inv st" using assms by (simp add: stack_typed_def)
  show "es_pop st = Some st' \<Longrightarrow> stack_typed D st'"
    using stack_sub[OF assms pop_inv[OF inv]] pop_top[of st st'] by (auto intro: in_set_tlD)
  show "pop_loop stop st = Some st' \<Longrightarrow> stack_typed D st'"
    using stack_sub[OF assms pop_loop_inv[OF inv]] pop_loop_top[of stop st st'] by blast
  have "popHTMLHeadElement st = Some st' \<Longrightarrow> es_top st' = tl (es_top st)"
    by (auto simp: popHTMLHeadElement_def bind_eq_Some_conv dest!: popCommon_top split: if_splits)
  then show "popHTMLHeadElement st = Some st' \<Longrightarrow> stack_typed D st'"
    using stack_sub[OF assms pop_head_inv[OF inv]] by (auto intro: in_set_tlD)
  have "popHTMLBodyElement st = Some st' \<Longrightarrow> es_top st' = tl (es_top st)"
    by (auto simp: popHTMLBodyElement_def bind_eq_Some_conv dest!: popCommon_top split: if_splits)
  then show "popHTMLBodyElement st = Some st' \<Longrightarrow> stack_typed D st'"
    using stack_sub[OF assms pop_body_inv[OF inv]] by (auto intro: in_set_tlD)
  show "stack_typed D (popAll st)" using stack_sub[OF assms popAll_inv] by (simp add: popAll_def)
qed

text \<open>Two typed items with one address have one node, so a node of the stack is known by its address.\<close>

lemma known_typed: "stack_typed D st \<Longrightarrow> typed D n \<Longrightarrow> known_node n st"
  by (auto simp: known_node_def stack_typed_def dest: typed_same)

lemma remove_typed:
  assumes "stack_typed D st" "typed D n"
  shows "es_remove n st = Some st' \<Longrightarrow> stack_typed D st'" "removeHTMLHeadElement n st = Some st' \<Longrightarrow> stack_typed D st'"
proof -
  have inv: "stack_inv st" "known_node n st" using assms known_typed by (auto simp: stack_typed_def)
  show "es_remove n st = Some st' \<Longrightarrow> stack_typed D st'" using stack_sub[OF assms(1) remove_inv[OF inv]] remove_top by blast
  have "removeHTMLHeadElement n st = Some st' \<Longrightarrow> set (es_top st') \<subseteq> set (es_top st)"
    by (auto simp: removeHTMLHeadElement_def removeNonTopCommon_def popHTMLHeadElement_def bind_eq_Some_conv dest!: popCommon_top removed_top
      split: if_splits intro: in_set_tlD)
  then show "removeHTMLHeadElement n st = Some st' \<Longrightarrow> stack_typed D st'" using stack_sub[OF assms(1) remove_head_inv[OF inv]] by blast
qed

lemma remove_element_typed: "stack_typed D st \<Longrightarrow> remove_element a st = Some st' \<Longrightarrow> stack_typed D st'"
proof -
  assume t: "stack_typed D st" and "remove_element a st = Some st'"
  then obtain r where r: "es_find a st = Some r" "es_remove (si_node (er_item r)) st = Some st'" by (auto simp: remove_element_def bind_eq_Some_conv)
  then have "typed D (si_node (er_item r))" using t by (auto simp: es_find_def stack_typed_def find_Some_iff)
  with t r(2) show "stack_typed D st'" using remove_typed(1) by blast
qed

lemma pushes_typed:
  assumes "stack_typed D st" "item_ok i" "typed D (si_node i)" "fresh_item i st"
  shows "es_push i st = Some st' \<Longrightarrow> stack_typed D st'" "pushHTMLHeadElement i st = Some st' \<Longrightarrow> stack_typed D st'"
    "pushHTMLBodyElement i st = Some st' \<Longrightarrow> stack_typed D st'" "insertAbove i a st = Some st' \<Longrightarrow> stack_typed D st'"
proof -
  have inv: "stack_inv st" using assms(1) by (simp add: stack_typed_def)
  have top: "stack_inv st' \<Longrightarrow> set (es_top st') \<subseteq> insert \<lparr>er_address = x, er_item = i\<rparr> (set (es_top st)) \<Longrightarrow> stack_typed D st'" for x
    using assms(1,3) by (auto simp: stack_typed_def)
  have push: "es_push i st = Some st' \<Longrightarrow> set (es_top st') \<subseteq> insert \<lparr>er_address = es_nextRecord st, er_item = i\<rparr> (set (es_top st))"
    by (auto simp: es_push_def pushCommon_def split: if_splits)
  show "es_push i st = Some st' \<Longrightarrow> stack_typed D st'" by (rule top[OF push_inv[OF inv _ assms(2,4)] push])
  show "pushHTMLHeadElement i st = Some st' \<Longrightarrow> stack_typed D st'"
    by (rule top[OF push_head_inv[OF inv _ assms(2,4)]]) (auto simp: pushHTMLHeadElement_def pushCommon_def bind_eq_Some_conv split: if_splits)
  show "pushHTMLBodyElement i st = Some st' \<Longrightarrow> stack_typed D st'"
    by (rule top[OF push_body_inv[OF inv _ assms(2,4)]]) (auto simp: pushHTMLBodyElement_def pushCommon_def bind_eq_Some_conv split: if_splits)
  have ins: "insertAbove i a st = Some st' \<Longrightarrow> set (es_top st') \<subseteq> insert \<lparr>er_address = es_nextRecord st, er_item = i\<rparr> (set (es_top st))"
    using push by (auto simp: insertAbove_def bind_eq_Some_conv dest!: insert_loop_split split: if_splits)
  show "insertAbove i a st = Some st' \<Longrightarrow> stack_typed D st'" by (rule top[OF insertAbove_inv[OF inv _ assms(2,4)] ins])
qed

section \<open>The list\<close>

lemma subseq_distinct_map: "subseq xs ys \<Longrightarrow> set xs \<subseteq> set ys \<and> (distinct (map f ys) \<longrightarrow> distinct (map f xs))"
  by (induction rule: list_emb.induct) auto

lemma entry_items_Cons: "entry_items (e # es) = (case e of None \<Rightarrow> [] | Some i \<Rightarrow> [i]) @ entry_items es"
  by (cases e) auto

lemma entry_items_subseq: "subseq es' es \<Longrightarrow> subseq (entry_items es') (entry_items es)"
  by (induction rule: list_emb.induct) (auto simp: entry_items_Cons split: option.splits)

lemma list_sub: "list_typed D es \<Longrightarrow> subseq es' es \<Longrightarrow> list_typed D es'"
  using subseq_distinct_map[OF entry_items_subseq, of es' es item_address] by (auto simp: list_typed_def)

lemma remove_index_subseq: "subseq (vector_remove i xs) xs"
proof -
  have "subseq (take i xs @ drop (Suc i) xs) (take i xs @ drop i xs)"
    by (intro list_emb_append_mono subseq_order.order_refl suffix_imp_subseq) (simp add: suffix_drop drop_Suc suffix_tl drop_tl)
  then show ?thesis by (simp add: vector_remove_def)
qed

lemma fl_remove_sub: "fl_remove e l = Some l' \<Longrightarrow> subseq (fl_entries l') (fl_entries l)"
  using remove_index_subseq by (auto simp: fl_remove_def bind_eq_Some_conv split: option.splits)

lemma fl_append_sub: "fl_append i l = Some l' \<Longrightarrow> \<exists>es. subseq es (fl_entries l) \<and> fl_entries l' = es @ [Some i]"
proof -
  assume "fl_append i l = Some l'"
  then obtain l1 where l1: "ensureNoahsArkCondition i l = Some l1" "fl_entries l' = fl_entries l1 @ [Some i]"
    by (auto simp: fl_append_def bind_eq_Some_conv)
  have loop: "remove_loop cs l = Some l1 \<Longrightarrow> subseq (fl_entries l1) (fl_entries l)" for cs l l1
    by (induction cs arbitrary: l) (auto simp: bind_eq_Some_conv dest!: fl_remove_sub intro: subseq_order.trans)
  have "subseq (fl_entries l1) (fl_entries l)"
    using l1(1) by (auto simp: ensureNoahsArkCondition_def bind_eq_Some_conv dest: loop split: if_splits option.splits)
  with l1(2) show ?thesis by blast
qed

lemma marker_ops_sub: "entry_items (fl_entries (appendMarker l)) = entry_items (fl_entries l)" "subseq (fl_entries (clearToLastMarker l)) (fl_entries l)"
proof -
  show "entry_items (fl_entries (appendMarker l)) = entry_items (fl_entries l)" by (simp add: appendMarker_def)
  have "subseq (clear_loop es) es" for es :: "FormattingEntry list"
  proof (induction es rule: clear_loop.induct)
    case (1 es)
    have "subseq (butlast es) es" by (simp add: prefix_imp_subseq prefixeq_butlast)
    with 1 show ?case by (subst clear_loop.simps) (auto simp: Let_def intro: subseq_order.trans)
  qed
  then show "subseq (fl_entries (clearToLastMarker l)) (fl_entries l)" by (simp add: clearToLastMarker_def)
qed

lemma list_extend:
  assumes "list_typed D es" "item_ok i" "ordinary_item i" "typed D (si_node i)" "item_address i \<notin> item_address ` set (entry_items es)"
  shows "list_typed D (es @ [Some i])" "list_typed D (es[n := Some i])" "list_typed D (vector_insert n (Some i) es)"
proof -
  show "list_typed D (es @ [Some i])" using assms by (auto simp: list_typed_def)
  have split: "list_typed D (xs @ Some i # zs)" if "subseq (xs @ zs) es" for xs zs
  proof -
    have "list_typed D (xs @ zs)" using list_sub[OF assms(1) that] .
    moreover have "item_address i \<notin> item_address ` set (entry_items (xs @ zs))"
      using assms(5) subseq_distinct_map[OF entry_items_subseq[OF that]] by (meson image_mono subset_iff)
    ultimately show ?thesis using assms(2-4) by (auto simp: list_typed_def)
  qed
  show "list_typed D (es[n := Some i])"
  proof (cases "n < length es")
    case True
    then show ?thesis using split[of "take n es" "drop (Suc n) es"] remove_index_subseq[of n es] by (simp add: upd_conv_take_nth_drop vector_remove_def)
  qed (use assms(1) in \<open>simp add: list_update_beyond\<close>)
  show "list_typed D (vector_insert n (Some i) es)" using split[of "take n es" "drop n es"] by (simp add: vector_insert_def)
qed

lemma swapTo_typed:
  assumes "list_typed D (fl_entries l)" "item_ok i" "ordinary_item i" "typed D (si_node i)" "item_address i \<notin> item_address ` set (entry_items (fl_entries l))"
    "swapTo old i bm l = Some l'"
  shows "list_typed D (fl_entries l')"
  using assms(6) list_extend[OF assms(1-5)]
  by (auto simp: swapTo_def bind_eq_Some_conv split: if_splits dest!: fl_remove_sub) (blast intro: list_sub)

section \<open>New elements\<close>

lemma createNamed_split:
  assumes "createElementNamed E q token s = Some (n, token1, s1)"
  shows "n = \<lparr>nd_address = dom_fresh (hs_dom s), nd_tagName = Some q\<rparr>" "am_name token1 = am_name token"
    "\<exists>as. s1 = s\<lparr>hs_dom := snd (createNode (ElementKind q as) (hs_dom s))\<rparr>"
  using assms by (auto simp: createElementNamed_def setAttributes_def allocate_def createNode_def Let_def bind_eq_Some_conv split: if_splits prod.splits)

lemma new_node:
  assumes ok: "site_typed s" and new: "createElementNamed E q token s = Some (n, token1, s1)"
  shows "site_typed s1" "typed (hs_dom s1) n" "si_node i = n \<Longrightarrow> fresh_item i (hs_openElements s1)"
    "si_node i = n \<Longrightarrow> item_address i \<notin> item_address ` set (entry_items (fl_entries (hs_activeFormattingElements s1)))"
proof -
  obtain as where s1: "s1 = s\<lparr>hs_dom := snd (createNode (ElementKind q as) (hs_dom s))\<rparr>" and n: "n = \<lparr>nd_address = dom_fresh (hs_dom s), nd_tagName = Some q\<rparr>"
    using createNamed_split[OF new] by blast
  show "site_typed s1" unfolding s1 by (rule site_dom[OF ok]) (metis ext_create prod.collapse)
  show "typed (hs_dom s1) n" unfolding s1 n by (simp add: typed_def createNode_def node_kind_def)
  have "nd_address m < nd_address n" if "typed (hs_dom s) m" for m
    using typed_bound[OF that site_parts(1)[OF ok]] n by simp
  then have "nd_address m \<noteq> nd_address n" if "typed (hs_dom s) m" for m using that by (metis less_irrefl)
  then have "\<forall>r \<in> set (es_top (hs_openElements s)). er_node r \<noteq> nd_address n"
    "\<forall>j \<in> set (entry_items (fl_entries (hs_activeFormattingElements s))). item_address j \<noteq> nd_address n"
    using site_parts(2,3)[OF ok] unfolding stack_typed_def list_typed_def by blast+
  then show "si_node i = n \<Longrightarrow> fresh_item i (hs_openElements s1)"
    "si_node i = n \<Longrightarrow> item_address i \<notin> item_address ` set (entry_items (fl_entries (hs_activeFormattingElements s1)))"
    unfolding fresh_item_def s1 by auto
qed

lemma createItem_split: "createItem_token n token ns = Some i \<Longrightarrow> si_node i = n \<and> si_tokenLocalName i = am_name token \<and> si_namespaceURI i = ns \<and>
    \<not> si_isDocumentFragmentNode i"
  by (auto simp: createItem_token_def am_getName_def bind_eq_Some_conv split: if_splits)

lemma created_item_ok:
  assumes "createElementNamed E q token s = Some (n, token1, s1)" "createItem_token n token1 ns = Some i" "qn_localName q = am_name token" "qn_namespaceURI q = ns"
  shows "si_node i = n" "item_ok i"
  using createNamed_split(1,2)[OF assms(1)] createItem_split[OF assms(2)] assms(3,4) by (auto simp: item_ok_def)

lemma attach_frame: "attachLater E p c v s = Some s' \<Longrightarrow> \<exists>q. s' = s\<lparr>hs_attachmentQueue := q\<rparr>"
  by (auto simp: attachLater_def fosterParent_def bind_eq_Some_conv Let_def split: if_splits)

lemma create_named: "createElement E token ns s = Some r \<Longrightarrow> createElementNamed E (element_name (am_name token) ns) token s = Some r"
  by (auto simp: createElement_def am_getName_def element_name_def bind_eq_Some_conv split: if_splits)

text \<open>Pushing the item of a new element, after it was queued.\<close>

lemma push_new:
  assumes ok: "site_typed s" and new: "createElementNamed E q token s = Some (n, token1, s1)" and i: "createItem_token n token1 ns = Some i"
    and q: "qn_localName q = am_name token" "qn_namespaceURI q = ns" and s2: "site_typed s2" "hs_dom s2 = hs_dom s1" "hs_openElements s2 = hs_openElements s1"
  shows "on_openElements (es_push i) s2 = Some s3 \<Longrightarrow> site_typed s3" "on_openElements (pushHTMLHeadElement i) s2 = Some s3 \<Longrightarrow> site_typed s3"
    "on_openElements (pushHTMLBodyElement i) s2 = Some s3 \<Longrightarrow> site_typed s3"
proof -
  have item: "si_node i = n" "item_ok i" by (rule created_item_ok[OF new i q])+
  have t: "typed (hs_dom s2) (si_node i)" "fresh_item i (hs_openElements s2)" using new_node[OF ok new] item(1) s2(2,3) by simp_all
  note p = pushes_typed[OF site_parts(2)[OF s2(1)] item(2) t]
  show "on_openElements (es_push i) s2 = Some s3 \<Longrightarrow> site_typed s3" "on_openElements (pushHTMLHeadElement i) s2 = Some s3 \<Longrightarrow> site_typed s3"
    "on_openElements (pushHTMLBodyElement i) s2 = Some s3 \<Longrightarrow> site_typed s3"
    using p site_stack[OF s2(1)] by (auto simp: on_openElements_def bind_eq_Some_conv)
qed

lemma name_parts [simp]: "qn_localName (element_name n ns) = n" "qn_namespaceURI (element_name n ns) = ns" "qn_localName (htmlName m) = Some (lit m)"
  "qn_namespaceURI (htmlName m) = xhtmlNamespaceURI"
  by (simp_all add: element_name_def htmlName_def)

lemma kept_insertHTMLElement: "kept site_typed (insertHTMLElement E token)"
proof (rule keptI)
  fix s s' assume ok: "site_typed s" and "insertHTMLElement E token s = Some s'"
  then obtain n token1 s1 s2 i where r: "createElementNamed E (element_name (am_name token) xhtmlNamespaceURI) token s = Some (n, token1, s1)"
    "attachLater E (currentNode s1) (nd_address n) False s1 = Some s2" "createItem_token n token1 xhtmlNamespaceURI = Some i" "on_openElements (es_push i) s2 = Some s'"
    by (auto simp: insertHTMLElement_def createHTMLElement_def bind_eq_Some_conv dest!: create_named split: prod.splits)
  obtain q where "s2 = s1\<lparr>hs_attachmentQueue := q\<rparr>" using attach_frame[OF r(2)] by blast
  then show "site_typed s'" using new_node(1)[OF ok r(1)] by (intro push_new(1)[OF ok r(1,3) _ _ _ _ _ r(4)]) simp_all
qed

lemma attach_opt: "(if P then attachLater E p c v s else Some s) = Some s' \<Longrightarrow> \<exists>q. s' = s\<lparr>hs_attachmentQueue := q\<rparr>"
  using attach_frame[of E p c v s s'] by (cases P) (auto intro: exI[of _ "hs_attachmentQueue s"])

lemma kept_insertForeign: "kept site_typed (insertForeignElement E token ns)"
proof (rule keptI)
  fix s s' assume ok: "site_typed s" and ins: "insertForeignElement E token ns s = Some s'"
  then have "am_type token = StartTag" by (simp add: insertForeignElement_def split: if_splits)
  with ins obtain n token1 s1 s2 v q where r: "createElementNamed E (element_name (am_name token) ns) token s = Some (n, token1, s1)"
    "(if scriptingContentIsAllowed (hs_parserContentPolicy s1) \<or> \<not> isScriptElement q then attachLater E (currentNode s1) (nd_address n) v s1 else Some s1) = Some s2"
    "(if \<not> v then do { i \<leftarrow> createItem_token n token1 ns; on_openElements (es_push i) s2 } else Some s2) = Some s'"
    by (auto simp: insertForeignElement_def bind_eq_Some_conv dest!: create_named split del: if_split)
  obtain q' where s2: "s2 = s1\<lparr>hs_attachmentQueue := q'\<rparr>" using attach_opt[OF r(2)] by blast
  with new_node(1)[OF ok r(1)] have "site_typed s2" by simp
  then show "site_typed s'" using r(3) s2 push_new(1)[OF ok r(1), of ns _ s2] by (auto simp: bind_eq_Some_conv split: if_splits)
qed

lemma kept_insertSelfClosing: "kept site_typed (insertSelfClosingHTMLElement E token)"
proof (rule keptI)
  fix s s' assume ok: "site_typed s" and "insertSelfClosingHTMLElement E token s = Some s'"
  then obtain n token1 s1 where r: "createElementNamed E (element_name (am_name token) xhtmlNamespaceURI) token s = Some (n, token1, s1)"
    "attachLater E (currentNode s1) (nd_address n) True s1 = Some s'"
    by (auto simp: insertSelfClosingHTMLElement_def createHTMLElement_def bind_eq_Some_conv dest!: create_named split: if_splits)
  then show "site_typed s'" using new_node(1)[OF ok r(1)] attach_frame[OF r(2)] by auto
qed

lemma kept_insertScript: "named token [''script''] \<Longrightarrow> kept site_typed (insertScriptElement E token)"
proof (rule keptI)
  fix s s' assume n: "named token [''script'']" and ok: "site_typed s" and "insertScriptElement E token s = Some s'"
  then obtain n token1 s0 s1 s2 i ev where r: "createElementNamed E (htmlName ''script'') token s = Some (n, token1, s0)"
    "s1 = s0\<lparr>hs_events := ev\<rparr>"
    "(if scriptingContentIsAllowed (hs_parserContentPolicy s1) then attachLater E (currentNode s1) (nd_address n) False s1 else Some s1) = Some s2"
    "createItem_token n token1 xhtmlNamespaceURI = Some i" "on_openElements (es_push i) s2 = Some s'"
    by (auto simp: insertScriptElement_def Let_def add_event_def bind_eq_Some_conv split del: if_split)
  obtain q' where s2: "s2 = s1\<lparr>hs_attachmentQueue := q'\<rparr>" using attach_opt[OF r(3)] by blast
  then show "site_typed s'" using new_node(1)[OF ok r(1)] n r(2) by (intro push_new(1)[OF ok r(1,4) _ _ _ _ _ r(5)]) (simp_all add: named_def)
qed

lemma kept_insertHead: "kept site_typed (insertHTMLHeadElement E token)"
proof (rule keptI)
  fix s s' assume ok: "site_typed s" and "insertHTMLHeadElement E token s = Some s'"
  then obtain n token1 s1 s2 s3 i where r: "createElementNamed E (element_name (am_name token) xhtmlNamespaceURI) token s = Some (n, token1, s1)"
    "createItem_token n token1 xhtmlNamespaceURI = Some i" "s2 = s1\<lparr>hs_head := Some i\<rparr>"
    "attachLater E (currentNode s2) (nd_address n) False s2 = Some s3" "on_openElements (pushHTMLHeadElement i) s3 = Some s'"
    by (auto simp: insertHTMLHeadElement_def createHTMLElement_def Let_def bind_eq_Some_conv dest!: create_named split: if_splits)
  obtain q where s3: "s3 = s2\<lparr>hs_attachmentQueue := q\<rparr>" using attach_frame[OF r(4)] by blast
  have "hasTagName i (htmlName ''head'')" using r(5) by (auto simp: on_openElements_def pushHTMLHeadElement_def bind_eq_Some_conv split: if_splits)
  moreover have "item_ok i" "si_node i = n" using created_item_ok[OF r(1,2)] by simp_all
  ultimately have "site_typed s2" using new_node(1,2)[OF ok r(1)] unfolding r(3) site_typed_def by simp
  then show "site_typed s'" using s3 r(3) by (intro push_new(2)[OF ok r(1,2) _ _ _ _ _ r(5)]) simp_all
qed

lemma kept_insertBody: "kept site_typed (insertHTMLBodyElement E token)"
proof (rule keptI)
  fix s s' assume ok: "site_typed s" and "insertHTMLBodyElement E token s = Some s'"
  then obtain n token1 s1 s2 s3 i where r: "createElementNamed E (element_name (am_name token) xhtmlNamespaceURI) token s = Some (n, token1, s1)"
    "attachLater E (currentNode s1) (nd_address n) False s1 = Some s2" "createItem_token n token1 xhtmlNamespaceURI = Some i"
    "on_openElements (pushHTMLBodyElement i) s2 = Some s3" "s' = (if se_hasFrame E then add_event WillInsertBody s3 else s3)"
    by (auto simp: insertHTMLBodyElement_def createHTMLElement_def bind_eq_Some_conv dest!: create_named split: if_splits)
  obtain q where "s2 = s1\<lparr>hs_attachmentQueue := q\<rparr>" using attach_frame[OF r(2)] by blast
  then have "site_typed s3" using new_node(1)[OF ok r(1)] by (intro push_new(3)[OF ok r(1,3) _ _ _ _ _ r(4)]) simp_all
  then show "site_typed s'" using r(5) by (simp add: add_event_def)
qed

lemma kept_insertForm: "kept site_typed (insertHTMLFormElement E token v)"
proof (rule keptI)
  fix s s' assume ok: "site_typed s" and "insertHTMLFormElement E token v s = Some s'"
  then obtain n token1 s1 s2 s3 i where r: "createElementNamed E (element_name (am_name token) xhtmlNamespaceURI) token s = Some (n, token1, s1)"
    "node_hasTagName n (htmlName ''form'')" "s2 = add_event (SetDemoted (nd_address n) v) (s1\<lparr>hs_form := Some (nd_address n)\<rparr>)"
    "attachLater E (currentNode s2) (nd_address n) False s2 = Some s3"
    "createItem_token n token1 xhtmlNamespaceURI = Some i" "on_openElements (es_push i) s3 = Some s'"
    by (auto simp: insertHTMLFormElement_def createHTMLElement_def Let_def bind_eq_Some_conv dest!: create_named split: if_splits)
  obtain q where s3: "s3 = s2\<lparr>hs_attachmentQueue := q\<rparr>" using attach_frame[OF r(4)] by blast
  have "is_form (hs_dom s1) (nd_address n)" using new_node(2)[OF ok r(1)] r(2) by (auto simp: is_form_def typed_def node_hasTagName_def split: option.splits)
  then have "site_typed s2" using new_node(1)[OF ok r(1)] unfolding r(3) site_typed_def by (simp add: add_event_def)
  then show "site_typed s'" using s3 r(3) by (intro push_new(1)[OF ok r(1,5) _ _ _ _ _ r(6)]) (simp_all add: add_event_def)
qed

lemma site_calls [simp]: "site_typed (with_calls cs s) = site_typed s"
  by (cases s) (simp add: site_typed_def stack_typed_def with_calls_def stack_inv_def)

lemma task_typed: "site_typed s \<Longrightarrow> executeTask t s = Some s' \<Longrightarrow> site_typed s'"
proof -
  assume ok: "site_typed s" and "executeTask t s = Some s'"
  then obtain p c D where r: "(case task_nextChild t of Some next \<Rightarrow> parserInsertBefore p c next (hs_dom s) | None \<Rightarrow> parserAppendChild p c (hs_dom s)) = Some D"
    "s' = with_calls [BeginParsingChildren c] (s\<lparr>hs_dom := D\<rparr>) \<or> s' = with_calls [FinishParsingChildren c] (with_calls [BeginParsingChildren c] (s\<lparr>hs_dom := D\<rparr>))"
    by (auto simp: executeTask_def Let_def bind_eq_Some_conv split: if_splits)
  have "dom_ext (hs_dom s) D" using r(1) extendingD[OF extending_insert] extendingD[OF extending_dom(2)] by (auto split: option.splits)
  then show "site_typed s'" using site_dom[OF ok] r(2) by auto
qed

lemma queue_typed: "site_typed s \<Longrightarrow> executeQueuedTasks s = Some s' \<Longrightarrow> site_typed s'"
proof -
  have "site_typed s \<Longrightarrow> executeTasks q s = Some s' \<Longrightarrow> site_typed s'" for q s s'
    by (induction q arbitrary: s) (auto simp: bind_eq_Some_conv dest: task_typed)
  then show "site_typed s \<Longrightarrow> executeQueuedTasks s = Some s' \<Longrightarrow> site_typed s'" by (auto simp: executeQueuedTasks_def split: if_splits) (metis site_typed_frame(1))
qed

lemma kept_insertHtml: "kept site_typed (insertHTMLHtmlStartTagBeforeHTML E token)"
proof (rule keptI)
  fix s s' assume ok: "site_typed s" and "insertHTMLHtmlStartTagBeforeHTML E token s = Some s'"
  then obtain n token1 s1 s2 s3 s4 i where r: "createElementNamed E (htmlName ''html'') token s = Some (n, token1, s1)"
    "attachLater E (hs_attachmentRoot s1) (nd_address n) False s1 = Some s2" "createItem_token n token1 xhtmlNamespaceURI = Some i"
    "on_openElements (pushHTMLHtmlElement i) s2 = Some s3" "executeQueuedTasks s3 = Some s4"
    "dispatchDocumentElementAvailableIfNeeded E (add_event (InsertedByParser (nd_address n)) s4) = Some s'"
    by (auto simp: insertHTMLHtmlStartTagBeforeHTML_def bind_eq_Some_conv)
  obtain q where s2: "s2 = s1\<lparr>hs_attachmentQueue := q\<rparr>" using attach_frame[OF r(2)] by blast
  then have ok2: "site_typed s2" using new_node(1)[OF ok r(1)] by simp
  obtain st where st: "pushHTMLHtmlElement i (hs_openElements s2) = Some st" "s3 = s2\<lparr>hs_openElements := st\<rparr>"
    using r(4) by (auto simp: on_openElements_def bind_eq_Some_conv)
  then have h: "hasTagName i (htmlName ''html'')" "es_top st = [\<lparr>er_address = es_nextRecord (hs_openElements s2), er_item = i\<rparr>]"
    by (auto simp: pushHTMLHtmlElement_def pushRootNodeCommon_def pushCommon_def split: if_splits)
  have i: "item_ok i" "si_node i = n" using createNamed_split(1,2)[OF r(1)] createItem_split[OF r(3)] h(1) by (auto simp: item_ok_def hasTagName_def)
  have "stack_inv st" using push_html_inv[OF _ st(1) i(1)] site_parts(2)[OF ok2] by (simp add: stack_typed_def)
  then have "stack_typed (hs_dom s2) st" using h(2) i(2) new_node(2)[OF ok r(1)] s2 by (simp add: stack_typed_def)
  then have "site_typed s3" unfolding st(2) by (rule site_stack[OF ok2])
  then have "site_typed s4" using r(5) by (rule queue_typed)
  then show "site_typed s'" using r(6) by (auto simp: dispatchDocumentElementAvailableIfNeeded_def add_event_def split: if_splits)
qed

lemma kept_insertFormatting: "kept site_typed (insertFormattingElement E token)"
proof (rule keptI)
  fix s s' assume ok: "site_typed s" and "insertFormattingElement E token s = Some s'"
  then obtain s1 i l where r: "insertHTMLElement E token s = Some s1" "currentStackItem s1 = Some i"
    "fl_append i (hs_activeFormattingElements s1) = Some l" "s' = s1\<lparr>hs_activeFormattingElements := l\<rparr>"
    by (auto simp: insertFormattingElement_def bind_eq_Some_conv)
  obtain n token1 s0 s2 j where c: "createElementNamed E (element_name (am_name token) xhtmlNamespaceURI) token s = Some (n, token1, s0)"
    "attachLater E (currentNode s0) (nd_address n) False s0 = Some s2" "createItem_token n token1 xhtmlNamespaceURI = Some j" "on_openElements (es_push j) s2 = Some s1"
    using r(1) by (auto simp: insertHTMLElement_def createHTMLElement_def bind_eq_Some_conv dest!: create_named)
  obtain q where s2: "s2 = s0\<lparr>hs_attachmentQueue := q\<rparr>" using attach_frame[OF c(2)] by blast
  have ok1: "site_typed s1" using keptD[OF kept_insertHTMLElement ok r(1)] .
  have ij: "i = j" "ordinary_item j" "hs_dom s1 = hs_dom s0" "hs_activeFormattingElements s1 = hs_activeFormattingElements s0"
    using c(4) r(2) s2 by (auto simp: on_openElements_def es_push_def pushCommon_def currentStackItem_def topStackItem_def topRecord_def bind_eq_Some_conv split: if_splits)
  have j: "item_ok j" "si_node j = n" using created_item_ok[OF c(1,3)] by simp_all
  obtain es where es: "subseq es (fl_entries (hs_activeFormattingElements s1))" "fl_entries l = es @ [Some i]" using fl_append_sub[OF r(3)] by blast
  have "item_address j \<notin> item_address ` set (entry_items es)"
    using new_node(4)[OF ok c(1) j(2)] ij(4) subseq_distinct_map[OF entry_items_subseq[OF es(1)]] by auto
  then have "list_typed (hs_dom s1) (fl_entries l)"
    using list_extend(1)[OF list_sub[OF site_parts(3)[OF ok1] es(1)] j(1) ij(2)] new_node(2)[OF ok c(1)] j(2) ij(1,3) es(2) by simp
  then show "site_typed s'" unfolding r(4) by (rule site_list[OF ok1])
qed

end
