(* ===== verification/Tree_Invariant.thy ===== *)
theory Tree_Invariant
  imports Tree_Types
begin

text \<open>
  The operations of the construction site that change more than the stack, the adoption agency included, keep the invariant of \<open>Tree_Types\<close>; so does every token.
\<close>

section \<open>Text, comments and attributes\<close>

lemma allocate_eq: "allocate k s = (dom_fresh (hs_dom s), s\<lparr>hs_dom := snd (createNode k (hs_dom s))\<rparr>)"
  by (simp add: allocate_def createNode_def)

lemma allocate_typed: "site_typed s \<Longrightarrow> site_typed (s\<lparr>hs_dom := snd (createNode k (hs_dom s))\<rparr>)"
  by (rule site_dom, assumption, rule ext_create, rule prod.collapse[symmetric])

lemma text_loop_typed: "insertText_loop E task cs n pos s = Some s' \<Longrightarrow> site_typed s \<longrightarrow> site_typed s'"
proof (erule insertText_loop.raw_induct[where P = "\<lambda>E task cs n pos s s'. site_typed s \<longrightarrow> site_typed s'", rotated])
  fix f :: "SiteEnv \<Rightarrow> HTMLConstructionSiteTask \<Rightarrow> UChar list \<Rightarrow> nat \<Rightarrow> nat \<Rightarrow> HTMLConstructionSite \<Rightarrow> HTMLConstructionSite option" and E task cs n pos s s'
  assume IH: "\<And>E task cs n pos s s'. f E task cs n pos s = Some s' \<Longrightarrow> site_typed s \<longrightarrow> site_typed s'"
    and run: "(if pos < length cs then do {
        t \<leftarrow> text_chunk E cs pos n;
        let position1 = pos + length t;
        ASSERT (position1 \<le> length cs);
        let (textNode, s1) = allocate (TextKind t) s;
        s2 \<leftarrow> executeTask (task\<lparr>task_child := Some textNode\<rparr>) s1;
        f E task cs n position1 s2 }
      else Some s) = Some s'"
  show "site_typed s \<longrightarrow> site_typed s'"
  proof
    assume ok: "site_typed s"
    show "site_typed s'"
    proof (cases "pos < length cs")
      case True
      then obtain t a s2 where r: "executeTask (task\<lparr>task_child := Some a\<rparr>) (s\<lparr>hs_dom := snd (createNode (TextKind t) (hs_dom s))\<rparr>) = Some s2"
        "f E task cs n (pos + length t) s2 = Some s'"
        using run by (auto simp: Let_def allocate_eq bind_eq_Some_conv split: if_splits)
      with ok show ?thesis using allocate_typed task_typed IH by blast
    qed (use run ok in auto)
  qed
qed

lemma text_only: "(case k of TextKind t \<Rightarrow> f t | _ \<Rightarrow> Some y0) = Some y \<Longrightarrow> y = y0 \<or> (\<exists>t. k = TextKind t \<and> f t = Some y)"
  by (cases k) auto

lemma kept_text: "kept site_typed (insertTextNode E cs)"
proof (rule keptI)
  fix s s' assume ok: "site_typed s" and "insertTextNode E cs s = Some s'"
  then obtain task prev n pos s1 where r: "appendToText E prev cs n s = Some (pos, s1)" "insertText_loop E task cs n pos s1 = Some s'"
    by (auto simp: insertTextNode_def bind_eq_Some_conv)
  have "site_typed s1"
  proof (cases "s1 = s")
    case False
    then obtain p t m t1 D where "node_kind p (hs_dom s) = Some (TextKind t)" "on_node p (\<lambda>x. x\<lparr>dn_kind := TextKind t1\<rparr>) (hs_dom s) = Some D" "s1 = s\<lparr>hs_dom := D\<rparr>"
      using r(1) by (auto simp: appendToText_def bind_eq_Some_conv dest!: text_only split: option.splits)
    then show ?thesis by (auto simp: node_kind_def intro!: site_dom[OF ok] ext_on_node[of p])
  qed (use ok in simp)
  with text_loop_typed[OF r(2)] show "site_typed s'" by blast
qed

lemma kept_comment_at: "site_typed s \<Longrightarrow> insertCommentAt E p token s = Some s' \<Longrightarrow> site_typed s'"
  by (auto simp: insertCommentAt_def allocate_eq bind_eq_Some_conv allocate_typed dest!: attach_frame split: if_splits)

lemma kept_comments: "kept site_typed (insertComment E token)" "kept site_typed (insertCommentOnDocument E token)" "kept site_typed (insertCommentOnHTMLHtmlElement E token)"
  by (auto intro!: keptI simp: insertComment_def insertCommentOnDocument_def insertCommentOnHTMLHtmlElement_def bind_eq_Some_conv dest: kept_comment_at)

lemma compatibility_typed [simp]: "site_typed (setCompatibilityMode E m s) = site_typed s" "site_typed (setDefaultCompatibilityMode E s) = site_typed s"
  by (simp_all add: setCompatibilityMode_def setDefaultCompatibilityMode_def)

lemma kept_doctype: "kept site_typed (insertDoctype E token)"
proof (rule keptI)
  fix s s' assume ok: "site_typed s" and "insertDoctype E token s = Some s'"
  then obtain k p a s2 m where r: "attachLater E p a False (s\<lparr>hs_dom := snd (createNode k (hs_dom s))\<rparr>) = Some s2" "s' = setCompatibilityMode E m s2"
    by (auto simp: insertDoctype_def setCompatibilityModeFromDoctype_def allocate_eq bind_eq_Some_conv split: if_splits)
  then show "site_typed s'" using allocate_typed[OF ok] attach_frame[OF r(1)] by auto
qed

lemma attributes_typed: "site_typed s \<Longrightarrow> node_kind a (hs_dom s) = Some (ElementKind q as) \<Longrightarrow>
    on_node a (\<lambda>n. n\<lparr>dn_kind := ElementKind q as'\<rparr>) (hs_dom s) = Some D \<Longrightarrow> site_typed (s\<lparr>hs_dom := D\<rparr>)"
  by (rule site_dom) (auto simp: node_kind_def intro: ext_on_node)

lemma element_only: "(case k of ElementKind q as \<Rightarrow> f q as | _ \<Rightarrow> None) = Some y \<Longrightarrow> \<exists>q as. k = ElementKind q as \<and> f q as = Some y"
  by (cases k) auto

lemma kept_merge: "kept site_typed (insertHTMLHtmlStartTagInBody token)" "kept site_typed (insertHTMLBodyStartTagInBody token)"
proof -
  have "site_typed s \<Longrightarrow> mergeAttributesFromTokenIntoElement token a s = Some s' \<Longrightarrow> site_typed s'" for s a s'
    using element_only by (auto simp: mergeAttributesFromTokenIntoElement_def bind_eq_Some_conv dest!: element_only dest: attributes_typed split: if_splits)
  then show "kept site_typed (insertHTMLHtmlStartTagInBody token)" "kept site_typed (insertHTMLBodyStartTagInBody token)"
    by (auto intro!: keptI simp: insertHTMLHtmlStartTagInBody_def insertHTMLBodyStartTagInBody_def bind_eq_Some_conv split: if_splits)
qed

lemma kept_form: "stays site_typed (set_form_attribute name v) (set_form_attribute name v)"
  unfolding set_form_attribute_def
  by (intro stays_on_tree keptI) (auto simp: on_dom_def bind_eq_Some_conv dest!: element_only dest: attributes_typed)

lemma on_dom_typed: "site_typed s \<Longrightarrow> extending f \<Longrightarrow> on_dom f s = Some s' \<Longrightarrow> site_typed s'"
  by (auto simp: on_dom_def bind_eq_Some_conv dest: extendingD intro: site_dom)

section \<open>The stack and the list of formatting elements\<close>

lemma kept_stack: "(\<And>D st st'. stack_typed D st \<Longrightarrow> f st = Some st' \<Longrightarrow> stack_typed D st') \<Longrightarrow> kept site_typed (on_openElements f)"
  by (rule keptI) (auto simp: on_openElements_def bind_eq_Some_conv intro!: site_stack, meson site_parts(2))

lemma kept_list:
  assumes "\<And>D l l'. list_typed D (fl_entries l) \<Longrightarrow> f l = Some l' \<Longrightarrow> list_typed D (fl_entries l')"
  shows "stays site_typed (on_formatting f) (on_formatting f)"
  unfolding on_formatting_def
proof (intro stays_on_tree keptI)
  fix s s' assume ok: "site_typed s" and "do { l \<leftarrow> f (hs_activeFormattingElements s); Some (s\<lparr>hs_activeFormattingElements := l\<rparr>) } = Some s'"
  then obtain l where l: "f (hs_activeFormattingElements s) = Some l" "s' = s\<lparr>hs_activeFormattingElements := l\<rparr>" by (auto simp: bind_eq_Some_conv)
  show "site_typed s'" unfolding l(2) by (rule site_list[OF ok assms[OF site_parts(3)[OF ok] l(1)]])
qed

lemma kept_formatting: "stays site_typed append_marker append_marker" "stays site_typed clear_to_marker clear_to_marker"
  "stays site_typed (on_formatting (fl_remove e)) (on_formatting (fl_remove e))"
proof -
  show "stays site_typed append_marker append_marker" unfolding append_marker_def
    by (rule kept_list) (auto simp: list_typed_def marker_ops_sub(1))
  show "stays site_typed clear_to_marker clear_to_marker" unfolding clear_to_marker_def
    by (rule kept_list) (auto intro: list_sub[OF _ marker_ops_sub(2)])
  show "stays site_typed (on_formatting (fl_remove e)) (on_formatting (fl_remove e))"
    by (rule kept_list) (erule list_sub, erule fl_remove_sub)
qed

text \<open>The head is not on the stack when it is pushed again: an open element at its address would be a \<open>head\<close>.\<close>

lemma kept_head: "kept site_typed (\<lambda>s. do { head \<leftarrow> hs_head s; on_openElements (pushHTMLHeadElement head) s })"
  "kept site_typed (\<lambda>s. do { head \<leftarrow> hs_head s; on_openElements (removeHTMLHeadElement (si_node head)) s })"
proof -
  show "kept site_typed (\<lambda>s. do { head \<leftarrow> hs_head s; on_openElements (pushHTMLHeadElement head) s })"
  proof (rule keptI)
    fix s s' assume ok: "site_typed s" and "do { head \<leftarrow> hs_head s; on_openElements (pushHTMLHeadElement head) s } = Some s'"
    then obtain i st where i: "hs_head s = Some i" "pushHTMLHeadElement i (hs_openElements s) = Some st" "s' = s\<lparr>hs_openElements := st\<rparr>"
      by (auto simp: on_openElements_def bind_eq_Some_conv)
    have t: "item_ok i" "hasTagName i (htmlName ''head'')" "typed (hs_dom s) (si_node i)" using ok i(1) by (auto simp: site_typed_def)
    have "es_headElement (hs_openElements s) = None" using i(2) by (auto simp: pushHTMLHeadElement_def split: if_splits)
    then have none: "\<not> hasTagName (er_item r) (htmlName ''head'')" if "r \<in> set (es_top (hs_openElements s))" for r
      using site_parts(2)[OF ok] that by (auto simp: stack_typed_def stack_inv_def remembered_none)
    have "fresh_item i (hs_openElements s)"
    proof (rule ccontr)
      assume "\<not> fresh_item i (hs_openElements s)"
      then obtain r where r: "r \<in> set (es_top (hs_openElements s))" "er_node r = item_address i" by (auto simp: fresh_item_def)
      then have n: "si_node (er_item r) = si_node i" using site_parts(2)[OF ok] t(3) typed_same by (auto simp: stack_typed_def)
      then have "item_ok (er_item r)"
        using t(1) stack_item_element[of "hs_openElements s" r] site_parts(2)[OF ok] r(1) item_ok_element[OF t(1)] by (auto simp: stack_typed_def item_element_def)
      then show False using none[OF r(1)] t(1,2) n by (auto simp: item_ok_def hasTagName_def split: option.splits)
    qed
    then show "site_typed s'" unfolding i(3) using pushes_typed(2)[OF site_parts(2)[OF ok] t(1,3) _ i(2)] by (intro site_stack[OF ok])
  qed
  show "kept site_typed (\<lambda>s. do { head \<leftarrow> hs_head s; on_openElements (removeHTMLHeadElement (si_node head)) s })"
    by (rule keptI) (auto simp: on_openElements_def site_typed_def bind_eq_Some_conv dest: remove_typed(2))
qed

end
