(* ===== verification/Adoption_Laws.thy ===== *)
theory Adoption_Laws
  imports Tree_Invariant
begin

text \<open>
  Elements made from saved tokens: the reconstruction of formatting elements and the adoption agency keep the invariant of \<open>Tree_Types\<close>.
\<close>

section \<open>Reconstruction\<close>

lemma saved_typed:
  assumes ok: "site_typed s" and new: "createElementFromSavedToken E item s = Some (j, s1)"
  shows "site_typed s1" "typed (hs_dom s1) (si_node j)" "fresh_item j (hs_openElements s1)"
    "item_address j \<notin> item_address ` set (entry_items (fl_entries (hs_activeFormattingElements s1)))" "item_ok j"
    "ordinary_item j \<longleftrightarrow> ordinary_item item" "\<exists>D. s1 = s\<lparr>hs_dom := D\<rparr> \<and> dom_ext (hs_dom s) D"
proof -
  obtain token n token1 where r: "createElementNamed E (element_name (am_name token) (si_namespaceURI item)) token s = Some (n, token1, s1)"
    "createItem_token n token1 (si_namespaceURI item) = Some j" "am_name token = si_tokenLocalName item"
    using new by (auto simp: createElementFromSavedToken_def createHTMLElement_def makeAtomicHTMLToken_name_def bind_eq_Some_conv Let_def
      dest!: create_named split: if_splits)
  have j: "si_node j = n" "item_ok j" using created_item_ok[OF r(1,2)] by simp_all
  show "site_typed s1" "typed (hs_dom s1) (si_node j)" "fresh_item j (hs_openElements s1)"
    "item_address j \<notin> item_address ` set (entry_items (fl_entries (hs_activeFormattingElements s1)))"
    using new_node[OF ok r(1)] j(1) by simp_all
  show "item_ok j" by (rule j(2))
  have "si_tokenLocalName j = si_tokenLocalName item" "si_namespaceURI j = si_namespaceURI item"
    using createItem_split[OF r(2)] createNamed_split(2)[OF r(1)] r(3) by simp_all
  then show "ordinary_item j \<longleftrightarrow> ordinary_item item" by (simp add: ordinary_item_def hasTagName_def)
  show "\<exists>D. s1 = s\<lparr>hs_dom := D\<rparr> \<and> dom_ext (hs_dom s) D"
    using createNamed_split(3)[OF r(1)] ext_create by (metis prod.collapse)
qed

lemma reopen_typed: "site_typed s \<Longrightarrow> reopen E index s = Some s' \<Longrightarrow> site_typed s'"
proof -
  assume ok: "site_typed s" and "reopen E index s = Some s'"
  then obtain item j s1 s2 st where r: "createElementFromSavedToken E item s = Some (j, s1)"
    "attachLater E (currentNode s1) (nd_address (si_node j)) False s1 = Some s2" "es_push j (hs_openElements s2) = Some st"
    "s' = s2\<lparr>hs_openElements := st, hs_activeFormattingElements := (hs_activeFormattingElements s2)\<lparr>fl_entries :=
       (fl_entries (hs_activeFormattingElements s2))[index := Some j]\<rparr>\<rparr>"
    by (auto simp: reopen_def on_openElements_def bind_eq_Some_conv)
  obtain q where s2: "s2 = s1\<lparr>hs_attachmentQueue := q\<rparr>" using attach_frame[OF r(2)] by blast
  have t: "site_typed s2" "typed (hs_dom s2) (si_node j)" "fresh_item j (hs_openElements s2)"
    "item_address j \<notin> item_address ` set (entry_items (fl_entries (hs_activeFormattingElements s2)))" "item_ok j"
    using saved_typed[OF ok r(1)] s2 by simp_all
  have "ordinary_item j" using r(3) by (auto simp: es_push_def split: if_splits)
  then have l: "list_typed (hs_dom s2) ((fl_entries (hs_activeFormattingElements s2))[index := Some j])"
    using list_extend(2)[OF site_parts(3)[OF t(1)] t(5) _ t(2,4)] by blast
  have "site_typed (s2\<lparr>hs_openElements := st\<rparr>)"
    by (rule site_stack[OF t(1) pushes_typed(1)[OF site_parts(2)[OF t(1)] t(5,2,3) r(3)]])
  then show "site_typed s'" unfolding r(4) using l site_list[of "s2\<lparr>hs_openElements := st\<rparr>"] by simp
qed

lemma kept_reconstruct: "kept site_typed (reconstructTheActiveFormattingElements E)"
proof -
  have "site_typed s \<Longrightarrow> reconstruct_loop E i n s = Some s' \<Longrightarrow> site_typed s'" for i n s s'
    by (induction n arbitrary: i s) (auto simp: bind_eq_Some_conv dest: reopen_typed)
  then show ?thesis
    by (intro keptI) (auto simp: reconstructTheActiveFormattingElements_def split: Option.bind_splits option.splits if_splits)
qed

section \<open>The adoption agency\<close>

lemma reverseFind_found: "reverseFind_loop (Some e) es n = Some (Some k) \<Longrightarrow> n \<le> length es \<Longrightarrow> \<exists>j. Some j \<in> set es \<and> item_address j = e"
proof (induction n)
  case (Suc n)
  show ?case
  proof (cases "entry_equals (es ! n) (Some e) = Some True")
    case True
    then obtain j where "es ! n = Some j" "item_element j = Some e" by (auto simp: entry_equals_def bind_eq_Some_conv split: option.splits)
    then show ?thesis using Suc.prems(2) item_element_address by (metis Suc_le_lessD nth_mem)
  next
    case False
    then show ?thesis using Suc by (auto simp: bind_eq_Some_conv split: if_splits)
  qed
qed simp

lemma same_item: "item_ok i \<Longrightarrow> item_ok j \<Longrightarrow> si_node i = si_node j \<Longrightarrow> ordinary_item i \<longleftrightarrow> ordinary_item j"
  by (auto simp: item_ok_def ordinary_item_def hasTagName_def split: option.splits)

lemma record_atD: "record_at a st = Some r \<Longrightarrow> r \<in> set (es_top st) \<and> er_address r = a"
  by (auto simp: record_at_def find_Some_iff)

definition grows :: "HTMLConstructionSite \<Rightarrow> HTMLConstructionSite \<Rightarrow> bool" where
  "grows s s' \<longleftrightarrow> site_typed s' \<and> dom_ext (hs_dom s) (hs_dom s')"

lemma grows_trans: "grows s s1 \<Longrightarrow> grows s1 s2 \<Longrightarrow> grows s s2"
  by (auto simp: grows_def intro: ext_trans)

lemma grows_dom: "site_typed s \<Longrightarrow> extending f \<Longrightarrow> on_dom f s = Some s' \<Longrightarrow> grows s s'"
  using on_dom_typed[of s f s'] by (auto simp: grows_def on_dom_def bind_eq_Some_conv dest: extendingD)

lemma extending_move: "extending (\<lambda>D. do { D1 \<leftarrow> removeFromParent c D; parserAppendChild p c D1 })"
  "extending (\<lambda>D. do { D1 \<leftarrow> takeAllChildrenFrom p c D; parserAppendChild c p D1 })"
  using extendingD[OF extending_removeFromParent] extendingD[OF extending_dom(2)] extendingD[OF extending_takeAll]
  by (auto simp: extending_def bind_eq_Some_conv) (meson ext_trans)+

lemma clone_grows:
  assumes ok: "site_typed s" and node: "node \<in> set (es_top (hs_openElements s))"
    and run: "adoption_clone E furthest node lastNode bm s = Some (bm1, s')"
  shows "grows s s'"
proof -
  obtain j s1 e k st f where r: "createElementFromSavedToken E (er_item node) s = Some (j, s1)" "item_element (er_item node) = Some e"
    "fl_find (Some e) (hs_activeFormattingElements s1) = Some (Some k)" "replaceElement (er_address node) j (hs_openElements s1) = Some st" "extending f"
    "on_dom f (s1\<lparr>hs_activeFormattingElements := (hs_activeFormattingElements s1)\<lparr>fl_entries := (fl_entries (hs_activeFormattingElements s1))[k := Some j]\<rparr>,
      hs_openElements := st\<rparr>) = Some s'"
    using run extending_move(1) by (auto simp: adoption_clone_def on_openElements_def bind_eq_Some_conv) metis
  note t = saved_typed[OF ok r(1)]
  let ?s2 = "s1\<lparr>hs_activeFormattingElements := (hs_activeFormattingElements s1)\<lparr>fl_entries := (fl_entries (hs_activeFormattingElements s1))[k := Some j]\<rparr>\<rparr>"
  have s1: "hs_openElements s1 = hs_openElements s" "hs_activeFormattingElements s1 = hs_activeFormattingElements s" using t(7) by auto
  have nt: "typed (hs_dom s) (si_node (er_item node))" "item_ok (er_item node)"
    using site_parts(2)[OF ok] node r(2) stack_item_element[of "hs_openElements s" node] by (auto simp: stack_typed_def)
  have "\<exists>i. Some i \<in> set (fl_entries (hs_activeFormattingElements s)) \<and> item_address i = e"
    using r(3) s1(2) reverseFind_found by (auto simp: fl_find_def reverseFind_def)
  then obtain i where i: "i \<in> set (entry_items (fl_entries (hs_activeFormattingElements s)))" "item_address i = e" by (auto simp: entry_items_set)
  then have "item_ok i" "ordinary_item i" "typed (hs_dom s) (si_node i)" using site_parts(3)[OF ok] by (auto simp: list_typed_def)
  then have no: "ordinary_item (er_item node)"
    using same_item[OF nt(2), of i] typed_same[OF nt(1), of "si_node i"] i(2) item_element_address[OF r(2)] by simp
  then have jo: "ordinary_item j" using t(6) by simp
  have ok2: "site_typed ?s2"
    using site_list[OF t(1)] list_extend(2)[OF site_parts(3)[OF t(1)] t(5) jo t(2,4)] by simp
  have st1: "stack_typed (hs_dom s1) (hs_openElements s1)" by (rule site_parts(2)[OF t(1)])
  have old: "item_ok (er_item r') \<and> ordinary_item (er_item r')" if "r' \<in> set (es_top (hs_openElements s1))" "er_address r' = er_address node" for r'
  proof -
    have "r' = node" using that node s1(1) st1 by (auto simp: stack_typed_def stack_inv_def distinct_map inj_on_def)
    then show ?thesis using nt(2) no by simp
  qed
  have "stack_inv st" using replaceElement_inv[OF _ r(4) t(5) jo t(3) old] st1 by (simp add: stack_typed_def)
  moreover have "es_top st = map (\<lambda>r. if er_address r = er_address node then r\<lparr>er_item := j\<rparr> else r) (es_top (hs_openElements s1))"
    using r(4) by (auto simp: replaceElement_def bind_eq_Some_conv split: if_splits)
  ultimately have "stack_typed (hs_dom s1) st" using st1 t(2) by (auto simp: stack_typed_def)
  then have "site_typed (?s2\<lparr>hs_openElements := st\<rparr>)" using site_stack[OF ok2] by simp
  then have "grows (?s2\<lparr>hs_openElements := st\<rparr>) s'" using r(5,6) by (intro grows_dom) simp_all
  moreover have "grows s (?s2\<lparr>hs_openElements := st\<rparr>)" using t(7) \<open>site_typed (?s2\<lparr>hs_openElements := st\<rparr>)\<close> by (auto simp: grows_def)
  ultimately show ?thesis by (rule grows_trans[rotated])
qed

lemma remove_grows:
  assumes ok: "site_typed s" and t: "typed (hs_dom s) n" and run: "on_openElements (es_remove n) s = Some s'"
  shows "grows s s'"
proof -
  obtain st where st: "es_remove n (hs_openElements s) = Some st" "s' = s\<lparr>hs_openElements := st\<rparr>" using run by (auto simp: on_openElements_def bind_eq_Some_conv)
  then show ?thesis using site_stack[OF ok remove_typed(1)[OF site_parts(2)[OF ok] t st(1)]] by (simp add: grows_def ext_refl)
qed

lemma inner_grows: "site_typed s \<Longrightarrow> adoption_inner E fr fb n next lastNode bm s = Some (l, bm1, s') \<Longrightarrow> grows s s'"
proof (induction n arbitrary: "next" lastNode bm s)
  case 0
  then show ?case by (simp add: grows_def ext_refl)
next
  case (Suc n)
  obtain a node e active where r: "record_at a (hs_openElements s) = Some node" "item_element (er_item node) = Some e"
    "fl_contains (Some e) (hs_activeFormattingElements s) = Some active" "next = Some a"
    using Suc.prems(2) by (auto simp: bind_eq_Some_conv Let_def)
  have node: "node \<in> set (es_top (hs_openElements s))" "typed (hs_dom s) (si_node (er_item node))"
    using record_atD[OF r(1)] site_parts(2)[OF Suc.prems(1)] by (auto simp: stack_typed_def)
  consider (removed) s1 x where "on_openElements (es_remove (si_node (er_item node))) s = Some s1" "adoption_inner E fr fb n x lastNode bm s1 = Some (l, bm1, s')"
    | (stop) "s' = s"
    | (cloned) s1 b x where "adoption_clone E fb node lastNode bm s = Some (b, s1)" "adoption_inner E fr fb n x a b s1 = Some (l, bm1, s')"
    using Suc.prems(2) r by (auto simp: bind_eq_Some_conv Let_def split: if_splits)
  then show ?case
  proof cases
    case removed
    then show ?thesis using remove_grows[OF Suc.prems(1) node(2)] Suc.IH grows_trans unfolding grows_def by blast
  next
    case stop
    then show ?thesis using Suc.prems(1) by (simp add: grows_def ext_refl)
  next
    case cloned
    then show ?thesis using clone_grows[OF Suc.prems(1) node(1)] Suc.IH grows_trans unfolding grows_def by blast
  qed
qed

lemma place_grows: "site_typed s \<Longrightarrow> adoption_place ca lastNode s = Some s' \<Longrightarrow> grows s s'"
proof -
  assume ok: "site_typed s" and run: "adoption_place ca lastNode s = Some s'"
  then obtain e s1 where r: "on_dom (removeFromParent e) s = Some s1" "fosterParent e s1 = Some s' \<or> (\<exists>p. on_dom (parserAppendChild p e) s1 = Some s')"
    by (auto simp: adoption_place_def bind_eq_Some_conv split: if_splits)
  have g: "grows s s1" by (rule grows_dom[OF ok extending_removeFromParent r(1)])
  moreover have "grows s1 s'" using r(2)
  proof
    assume "fosterParent e s1 = Some s'"
    then obtain q where "s' = s1\<lparr>hs_attachmentQueue := q\<rparr>" by (auto simp: fosterParent_def Let_def bind_eq_Some_conv split: if_splits)
    with g show ?thesis by (simp add: grows_def ext_refl)
  next
    assume "\<exists>p. on_dom (parserAppendChild p e) s1 = Some s'"
    then show ?thesis using g grows_dom[OF _ extending_dom(2)] by (auto simp: grows_def)
  qed
  ultimately show ?thesis by (rule grows_trans)
qed

lemma replace_typed:
  assumes ok: "site_typed s" and fr: "typed (hs_dom s) (si_node (er_item fr))" and run: "adoption_replace E fr fb bm s = Some s'"
  shows "site_typed s'"
proof -
  obtain j s1 f s2 l s3 where r: "createElementFromSavedToken E (er_item fr) s = Some (j, s1)" "extending f" "on_dom f s1 = Some s2"
    "swapTo (Some (er_node fr)) j bm (hs_activeFormattingElements s2) = Some l"
    "on_openElements (es_remove (si_node (er_item fr))) (s2\<lparr>hs_activeFormattingElements := l\<rparr>) = Some s3" "on_openElements (insertAbove j fb) s3 = Some s'"
    using run extending_move(2) by (auto simp: adoption_replace_def bind_eq_Some_conv) metis
  note t = saved_typed[OF ok r(1)]
  have g: "grows s1 s2" by (rule grows_dom[OF t(1) r(2,3)])
  obtain D2 where s2: "s2 = s1\<lparr>hs_dom := D2\<rparr>" using r(3) by (auto simp: on_dom_def bind_eq_Some_conv)
  have ok2: "site_typed s2" "dom_ext (hs_dom s) (hs_dom s2)" "dom_ext (hs_dom s1) (hs_dom s2)" using g t(7) by (auto simp: grows_def intro: ext_trans)
  have tj: "typed (hs_dom s2) (si_node j)" "typed (hs_dom s2) (si_node (er_item fr))"
    using typed_ext[OF t(2) ok2(3)] typed_ext[OF fr ok2(2)] site_parts(1)[OF ok] site_parts(1)[OF t(1)] by blast+
  obtain st st' where st: "es_remove (si_node (er_item fr)) (hs_openElements s2) = Some st" "s3 = s2\<lparr>hs_activeFormattingElements := l, hs_openElements := st\<rparr>"
    "insertAbove j fb st = Some st'" "s' = s3\<lparr>hs_openElements := st'\<rparr>"
    using r(5,6) by (auto simp: on_openElements_def bind_eq_Some_conv)
  have jo: "ordinary_item j" using st(3) by (auto simp: insertAbove_def bind_eq_Some_conv split: if_splits)
  have "list_typed (hs_dom s2) (fl_entries l)"
    using swapTo_typed[OF site_parts(3)[OF ok2(1)] t(5) jo tj(1) _ r(4)] t(4) s2 by simp
  then have ok3: "site_typed (s2\<lparr>hs_activeFormattingElements := l\<rparr>)" by (rule site_list[OF ok2(1)])
  have stt: "stack_typed (hs_dom s2) st" by (rule remove_typed(1)[OF site_parts(2)[OF ok2(1)] tj(2) st(1)])
  have "fresh_item j st" using t(3) remove_top[OF st(1)] s2 by (auto simp: fresh_item_def)
  then have "stack_typed (hs_dom s2) st'" by (rule pushes_typed(4)[OF stt t(5) tj(1) _ st(3)])
  then show ?thesis using site_stack[OF ok3, of st'] st(2,4) by simp
qed

lemma adoption_typed: "site_typed s \<Longrightarrow> adoption_iteration E x s = Some (v, s') \<Longrightarrow> site_typed s'"
proof -
  assume ok: "site_typed s" and run: "adoption_iteration E x s = Some (v, s')"
  show ?thesis
  proof (cases "es_find x (hs_openElements s)")
    case None
    then show ?thesis using run list_sub[OF site_parts(3)[OF ok] fl_remove_sub] by (auto simp: adoption_iteration_def bind_eq_Some_conv intro!: site_list[OF ok])
  next
    case (Some fr)
    have fr: "typed (hs_dom s) (si_node (er_item fr))" using Some site_parts(2)[OF ok] by (auto simp: es_find_def stack_typed_def find_Some_iff)
    obtain furthest where f: "furthestBlockForFormattingElement x (hs_openElements s) = Some furthest" using run Some
      by (auto simp: adoption_iteration_def adoption_step_def bind_eq_Some_conv)
    show ?thesis
    proof (cases furthest)
      case None
      then obtain s1 l where r: "on_openElements (popUntilPopped_element x) s = Some s1" "fl_remove (Some x) (hs_activeFormattingElements s1) = Some l"
        "s' = s1\<lparr>hs_activeFormattingElements := l\<rparr>"
        using run Some f by (auto simp: adoption_iteration_def adoption_step_def bind_eq_Some_conv)
      have "stack_typed D st \<Longrightarrow> popUntilPopped_element x st = Some st' \<Longrightarrow> stack_typed D st'" for D st st'
        by (auto simp: popUntilPopped_element_def popUntil_element_def bind_eq_Some_conv dest: pops_typed(1,2))
      then have "site_typed s1" using keptD[OF kept_stack ok r(1)] by blast
      then show ?thesis unfolding r(3) using site_list[OF _ list_sub[OF site_parts(3) fl_remove_sub[OF r(2)]]] by blast
    next
      case (Some fb)
      then obtain nx b0 l b1 s1 ca s2 where r: "adoption_inner E (er_address fr) fb 3 nx fb b0 s = Some (l, b1, s1)" "adoption_place ca l s1 = Some s2"
        "adoption_replace E fr fb b1 s2 = Some s'"
        using run f \<open>es_find x (hs_openElements s) = Some fr\<close>
        by (auto simp: adoption_iteration_def adoption_step_def bind_eq_Some_conv Let_def split: if_splits)
      have g: "grows s s1" "grows s1 s2" using inner_grows[OF ok r(1)] place_grows[OF _ r(2)] by (auto simp: grows_def)
      then have "typed (hs_dom s2) (si_node (er_item fr))"
        using typed_ext[OF fr] site_parts(1)[OF ok] grows_trans[OF g] by (auto simp: grows_def)
      then show ?thesis using g(2) replace_typed[OF _ _ r(3)] by (auto simp: grows_def)
    qed
  qed
qed

section \<open>Every token\<close>

interpretation typed: site_invariant site_typed E for E
proof
  show "site_typed s \<Longrightarrow> site_typed (s\<lparr>hs_redirectAttachToFosterParent := v\<rparr>)" for s v by simp
  show "site_typed s \<Longrightarrow> site_typed (s\<lparr>hs_form := None\<rparr>)" for s by (simp add: site_typed_def)
  show "kept site_typed (\<lambda>s. do { body \<leftarrow> bodyElement (hs_openElements s); on_dom (removeFromParent body) s })"
    by (rule keptI) (auto simp: bind_eq_Some_conv dest: on_dom_typed[OF _ extending_removeFromParent])
  show "stays_bool site_typed (on_tree_bool (adoption_iteration (te_site E) x)) (on_tree_bool (adoption_iteration (te_site E) x))" for x
    by (rule stays_boolI) (auto simp: on_tree_bool_def bind_eq_Some_conv dest: adoption_typed)
qed (rule kept_insertHTMLElement kept_insertSelfClosing kept_insertForeign kept_insertHtml kept_insertHead kept_insertBody kept_insertForm kept_insertFormatting
    kept_doctype kept_comments kept_text kept_reconstruct kept_merge kept_head kept_form kept_formatting | erule kept_insertScript
    | (rule kept_stack; erule pops_typed remove_element_typed; simp?; fail) | (rule kept_stack; auto dest: pops_typed) | simp)+

end
