(* ===== verification/Tree_Properties.thy ===== *)
theory Tree_Properties
  imports Adoption_Laws
begin

text \<open>
  What the tree builder guarantees: the pointers it keeps are of the right type after any tokens, a builder for a fragment starts in the
  mode of its context element with the nearest form, and how the \<open>type\<close> attribute of an \<open>input\<close> is read.
\<close>

section \<open>A small document\<close>

definition sample_tree_env :: TreeEnv where
  "sample_tree_env = \<lparr>te_site = sample_env\<lparr>se_isScriptingAttribute := (\<lambda>_ a. da_name a = attrName ''onclick'')\<rparr>, te_lower = id, te_svgTags = [], te_svgAttrs = [],
     te_mathmlAttrs = [], te_xlinkAttrs = [], te_xmlAttrs = [], te_xmlnsNamespaceURI = None, te_searchableIndexIntroduction = [0x20], te_textPosition = (0, 0)\<rparr>"

definition sample_options :: HTMLParserOptions where
  "sample_options = \<lparr>opt_scriptEnabled = True, opt_pluginsEnabled = True, opt_usePreHTML5ParserQuirks = False, opt_useThreading = False, opt_maximumDOMTreeDepth = 512\<rparr>"

definition empty_document :: DOM where
  "empty_document = snd (createNode DocumentKind \<lparr>dom_node = Map.empty, dom_fresh = 0\<rparr>)"

definition sample_builder :: HTMLTreeBuilder where
  "sample_builder = newHTMLTreeBuilder 0 AllowScriptingContent NoQuirksMode empty_document None sample_options"

section \<open>Types\<close>

text \<open>How a builder starts: on a document, or on an empty fragment with a context element.\<close>

definition starts :: "DOM \<Rightarrow> HTMLTreeBuilder \<Rightarrow> bool" where
  "starts D b \<longleftrightarrow> (\<exists>document policy mode tokenizer options.
      b = newHTMLTreeBuilder document policy mode D tokenizer options \<or>
      (\<exists>fragment e. node_kind fragment D = Some FragmentKind \<and> newHTMLTreeBuilder_fragment document fragment e policy mode D tokenizer options = Some b))"

lemma new_site_typed: "bounded D \<Longrightarrow> site_typed (newHTMLConstructionSite document root f policy depth mode D)"
  by (simp add: site_typed_def newHTMLConstructionSite_def stack_typed_def list_typed_def newHTMLElementStack_def stack_inv_def remembered_def newHTMLFormattingElementList_def)

lemma root_typed:
  assumes "site_typed s" "node_kind fragment (hs_dom s) = Some FragmentKind"
    and "on_openElements (pushRootNode (createItem \<lparr>nd_address = fragment, nd_tagName = None\<rparr> ItemForDocumentFragmentNode)) s = Some s'"
  shows "site_typed s'"
proof -
  let ?i = "createItem \<lparr>nd_address = fragment, nd_tagName = None\<rparr> ItemForDocumentFragmentNode"
  obtain st where st: "pushRootNode ?i (hs_openElements s) = Some st" "s' = s\<lparr>hs_openElements := st\<rparr>"
    using assms(3) by (auto simp: on_openElements_def bind_eq_Some_conv)
  have "stack_inv st" using assms(1) by (intro push_fragment_inv[OF _ st(1)]) (auto simp: site_typed_def stack_typed_def fragment_ok_def createItem_def)
  moreover have "map er_item (es_top st) = [?i]" using st(1) by (auto simp: pushRootNode_def pushRootNodeCommon_def pushCommon_def split: if_splits)
  ultimately have "stack_typed (hs_dom s) st" using assms(2) by (auto simp: stack_typed_def typed_def createItem_def)
  with assms(1) st(2) show ?thesis by (simp add: site_stack)
qed

lemma is_form_kind: "node_kind a D = Some k \<Longrightarrow> is_form D a \<longleftrightarrow> kind_is (\<lambda>q. qn_matches q (htmlName ''form'')) k"
  by (cases k) (auto simp: is_form_def kind_is_def)

lemma closest_form: "closestFormAncestor e D = Some r \<Longrightarrow> r = Some f \<longrightarrow> is_form D f"
  by (rule closestFormAncestor.raw_induct[where P = "\<lambda>e D r. r = Some f \<longrightarrow> is_form D f", rotated])
    (auto simp: is_form_kind bind_eq_Some_conv split: if_splits option.splits)

lemma start_typed: "bounded D \<Longrightarrow> starts D b \<Longrightarrow> site_typed (tb_tree b)"
proof -
  assume D: "bounded D" and "starts D b"
  then obtain document policy mode tokenizer options fragment e where
    "b = newHTMLTreeBuilder document policy mode D tokenizer options \<or>
      (node_kind fragment D = Some FragmentKind \<and> newHTMLTreeBuilder_fragment document fragment e policy mode D tokenizer options = Some b)"
    unfolding starts_def by blast
  then show "site_typed (tb_tree b)"
  proof
    assume "b = newHTMLTreeBuilder document policy mode D tokenizer options"
    then show ?thesis using new_site_typed[OF D] by (simp add: newHTMLTreeBuilder_def blank_builder_def)
  next
    let ?s = "newHTMLConstructionSite document fragment True policy (opt_maximumDOMTreeDepth options) mode D"
    let ?i = "createItem \<lparr>nd_address = fragment, nd_tagName = None\<rparr> ItemForDocumentFragmentNode"
    assume f: "node_kind fragment D = Some FragmentKind \<and> newHTMLTreeBuilder_fragment document fragment e policy mode D tokenizer options = Some b"
    then obtain s1 form where r: "on_openElements (pushRootNode ?i) ?s = Some s1" "closestFormAncestor (nd_address e) D = Some form" "setForm form s1 = Some (tb_tree b)"
      by (auto simp: newHTMLTreeBuilder_fragment_def on_stack_def on_tree_def resetInsertionModeAppropriately_def setInsertionMode_def blank_builder_def
          bind_eq_Some_conv split: if_splits)
    have "hs_dom ?s = D" by (simp add: newHTMLConstructionSite_def)
    then have "site_typed s1" using root_typed[OF new_site_typed[OF D] _ r(1)] f by simp
    moreover have "hs_dom s1 = D" using r(1) by (auto simp: on_openElements_def newHTMLConstructionSite_def bind_eq_Some_conv)
    moreover have "tb_tree b = s1\<lparr>hs_form := form\<rparr>" using r(3) by (auto simp: setForm_def split: if_splits)
    ultimately show ?thesis using closest_form[OF r(2)] by (simp add: site_typed_def)
  qed
qed

lemma constructTrees_typed: "constructTrees E tokens b = Some b' \<Longrightarrow> site_typed (tb_tree b) \<Longrightarrow> site_typed (tb_tree b')"
proof (induction tokens arbitrary: b)
  case (Cons token tokens)
  then obtain b1 where "constructTree E token b = Some b1" "constructTrees E tokens b1 = Some b'" by (auto simp: andThen_def split: option.splits)
  moreover have "stays site_typed (constructTree E token) (constructTree E token)" by (rule typed.construct_keeps) (rule queue_typed)
  ultimately show ?case using Cons by (blast dest: staysD)
qed simp

text \<open>C3: preservation of types, as partial correctness. When \<open>constructTree\<close> has returned for each of a sequence of tokens given to a new tree builder, for a
  document or for a fragment, the nodes the builder holds pointers to are what it takes them
  for: every record of the stack of open elements and every entry of the list of active formatting elements names an element of the DOM with
  the tag of its item, the stack keeps its invariant, an element is in the list once, the head pointer is a head element and the form
  pointer a form element. That \<open>constructTree\<close> returns is a hypothesis: it cannot be proved of all tokens, because some assertions of the handlers do
  fail (an empty \<open>prompt\<close> of \<open>isindex\<close>, text appended to a node over the limit, the pointer to the type of an input), and the end of the calls between the
  handlers is not shown.\<close>

theorem builder_typed:
  assumes "bounded D" "starts D b0" "constructTrees E tokens b0 = Some b"
  shows "site_typed (tb_tree b)"
  using constructTrees_typed[OF assms(3) start_typed[OF assms(1,2)]] .

theorem builder_typed_witness:
  "\<exists>b. constructTrees sample_tree_env [sample_start_tag ''p''] sample_builder = Some b \<and>
     site_typed (tb_tree b) \<and> length (es_top (hs_openElements (tb_tree b))) = 3"
proof -
  have "bounded empty_document" by (simp add: bounded_def empty_document_def createNode_def)
  moreover have "starts empty_document sample_builder" unfolding starts_def sample_builder_def by blast
  moreover have "map_option (\<lambda>b. length (es_top (hs_openElements (tb_tree b)))) (constructTrees sample_tree_env [sample_start_tag ''p''] sample_builder) = Some 3"
    by code_simp
  then obtain b where "constructTrees sample_tree_env [sample_start_tag ''p''] sample_builder = Some b" "length (es_top (hs_openElements (tb_tree b))) = 3" by blast
  ultimately show ?thesis using builder_typed by blast
qed

section \<open>A builder for a fragment\<close>

text \<open>The elements from a node up to the topmost one whose parent is not an element.\<close>

fun element_path :: "DOM \<Rightarrow> nat list \<Rightarrow> bool" where
  "element_path D [] = False"
| "element_path D [a] \<longleftrightarrow> (\<exists>q as. node_kind a D = Some (ElementKind q as)) \<and>
     (\<exists>r. parentNode a D = Some r \<and> (\<forall>p. r = Some p \<longrightarrow> (\<exists>k. node_kind p D = Some k \<and> \<not> kind_is (\<lambda>_. True) k)))"
| "element_path D (a # p # xs) \<longleftrightarrow> (\<exists>q as. node_kind a D = Some (ElementKind q as)) \<and> parentNode a D = Some (Some p) \<and> element_path D (p # xs)"

lemma path_exists:
  assumes "dom_tree D T" "node_kind a D = Some (ElementKind q as)"
  shows "\<exists>xs. element_path D (a # xs)"
proof -
  obtain rank :: "nat \<Rightarrow> nat" where rank: "\<And>p c. c \<in> set (T p) \<Longrightarrow> rank p < rank c" using assms(1) by (auto simp: dom_tree_def forest_def)
  have rep: "dom_rep D T" using assms(1) by (simp add: dom_tree_def)
  show ?thesis using assms(2)
  proof (induction "rank a" arbitrary: a q as rule: less_induct)
    case less
    then obtain n where n: "dom_node D a = Some n" by (auto simp: node_kind_def)
    show ?case
    proof (cases "dn_parent n")
      case None
      with n less.prems show ?thesis by (intro exI[of _ "[]"]) (simp add: parentNode_def)
    next
      case (Some p)
      then have c: "a \<in> set (T p)" using rep_child[OF rep n] by simp
      then obtain k where k: "node_kind p D = Some k" using rep_node[OF rep, of a p] by (auto simp: node_kind_def)
      show ?thesis
      proof (cases "kind_is (\<lambda>_. True) k")
        case True
        then obtain q' as' where "k = ElementKind q' as'" by (cases k) (auto simp: kind_is_def)
        with less.hyps[OF rank[OF c]] k obtain xs where "element_path D (p # xs)" by blast
        with n Some less.prems show ?thesis by (intro exI[of _ "p # xs"]) (simp add: parentNode_def)
      next
        case False
        with n Some k less.prems show ?thesis by (intro exI[of _ "[]"]) (simp add: parentNode_def)
      qed
    qed
  qed
qed

lemma closest_path: "element_path D (a # xs) \<Longrightarrow> closestFormAncestor a D = Some (List.find (is_form D) (a # xs))"
proof (induction xs arbitrary: a)
  case Nil
  then obtain q as r where k: "node_kind a D = Some (ElementKind q as)" "parentNode a D = Some r" "\<And>p. r = Some p \<Longrightarrow> \<exists>k. node_kind p D = Some k \<and> \<not> kind_is (\<lambda>_. True) k" by auto
  then show ?case using is_form_kind[OF k(1)] by (subst closestFormAncestor.simps) (auto split: option.splits)
next
  case (Cons p xs)
  then have e: "parentNode a D = Some (Some p)" "element_path D (p # xs)" by auto
  obtain q as q' as' where k: "node_kind a D = Some (ElementKind q as)" "node_kind p D = Some (ElementKind q' as')" using Cons.prems by (cases xs) auto
  then show ?case using is_form_kind[OF k(1)] e(1) Cons.IH[OF e(2)] by (subst closestFormAncestor.simps) (simp add: kind_is_def)
qed

text \<open>The mode a context element stands for.\<close>

definition context_mode :: "ContainerNode \<Rightarrow> InsertionMode" where
  "context_mode e = (let item = createItem e ItemForContextElement in
     case mode_for_item item of Some m \<Rightarrow> m | None \<Rightarrow> if hasTagName item (htmlName ''html'') then BeforeHeadMode else InBodyMode)"

text \<open>C25: creating a builder for an empty fragment always succeeds, whatever the tree around the context element. It starts with the fragment alone on the
  stack of open elements and an empty list of active formatting elements, in the insertion mode the context element stands for, with the
  innermost form element around the context element as its form; the DOM is not changed.\<close>

theorem fragment_builder_starts:
  assumes "dom_tree D T" "node_kind fragment D = Some FragmentKind" "firstChild fragment D = Some None"
    and "node_kind (nd_address e) D = Some (ElementKind q as)"
  shows "\<exists>b path. newHTMLTreeBuilder_fragment document fragment e policy mode D tokenizer options = Some b \<and>
     map er_node (es_top (hs_openElements (tb_tree b))) = [fragment] \<and> stack_inv (hs_openElements (tb_tree b)) \<and>
     fl_entries (hs_activeFormattingElements (tb_tree b)) = [] \<and> hs_dom (tb_tree b) = D \<and>
     tb_insertionMode b = context_mode e \<and>
     element_path D (nd_address e # path) \<and> hs_form (tb_tree b) = List.find (is_form D) (nd_address e # path)"
proof -
  define i where "i = createItem \<lparr>nd_address = fragment, nd_tagName = None\<rparr> ItemForDocumentFragmentNode"
  have i: "fragment_ok i" "si_node i = \<lparr>nd_address = fragment, nd_tagName = None\<rparr>" by (simp_all add: i_def fragment_ok_def createItem_def)
  obtain path where path: "element_path D (nd_address e # path)" using path_exists[OF assms(1,4)] by blast
  obtain st where st: "pushRootNode i newHTMLElementStack = Some st" "es_top st = [\<lparr>er_address = 0, er_item = i\<rparr>]" "es_rootNode st = Some (si_node i)"
    using i by (simp add: pushRootNode_def pushRootNodeCommon_def pushCommon_def newHTMLElementStack_def fragment_ok_def)
  have "stack_inv newHTMLElementStack" by (simp add: newHTMLElementStack_def stack_inv_def remembered_def)
  then have inv: "stack_inv st" by (rule push_fragment_inv[OF _ st(1) i(1)])
  have reset: "reset_loop (Some (fragment, e)) (es_getRootNode st) [\<lparr>er_address = 0, er_item = i\<rparr>] = Some (context_mode e)"
    using st(3) by (simp add: es_getRootNode_def context_mode_def Let_def split: option.splits)
  show ?thesis using st(1,2) i(2) inv assms(3) path closest_path[OF path] reset
    by (intro exI[of _ "(blank_builder ((newHTMLConstructionSite document fragment True policy (opt_maximumDOMTreeDepth options) mode D)
          \<lparr>hs_openElements := st, hs_form := List.find (is_form D) (nd_address e # path)\<rparr>) (Some (fragment, e)) tokenizer options)
          \<lparr>tb_insertionMode := context_mode e\<rparr>"] exI[of _ path])
      (simp add: newHTMLTreeBuilder_fragment_def blank_builder_def newHTMLConstructionSite_def on_stack_def on_tree_def on_openElements_def
        resetInsertionModeAppropriately_def setInsertionMode_def setForm_def newHTMLFormattingElementList_def flip: i_def)
qed

text \<open>A document with a form in its body, and a fragment.\<close>

definition fragment_dom :: DOM where
  "fragment_dom = snd (createNode FragmentKind (sample_dom ''form''))"

theorem fragment_builder_starts_witness:
  "\<exists>b. newHTMLTreeBuilder_fragment 9 5 \<lparr>nd_address = 2, nd_tagName = Some (htmlName ''form'')\<rparr> AllowScriptingContent NoQuirksMode fragment_dom None sample_options = Some b \<and>
     tb_insertionMode b = InBodyMode \<and> hs_form (tb_tree b) = Some 2"
proof -
  let ?e = "\<lparr>nd_address = 2, nd_tagName = Some (htmlName ''form'')\<rparr>"
  have t: "dom_tree fragment_dom sample_kids" using tree_create[OF sample_tree[of "''form''"]] unfolding fragment_dom_def by (metis prod.collapse)
  have k: "node_kind 5 fragment_dom = Some FragmentKind" "firstChild 5 fragment_dom = Some None" "node_kind (nd_address ?e) fragment_dom = Some (ElementKind (htmlName ''form'') [])"
    by (simp_all add: fragment_dom_def createNode_def sample_dom_def node_kind_def firstChild_def sample_node_def)
  have "context_mode ?e = InBodyMode"
    by (simp add: context_mode_def createItem_def mode_for_item_def hasTagName_def htmlName_def isHTMLTableElement_def node_hasTagName_def qn_matches_def)
  moreover have "is_form fragment_dom 2" using k(3) by (simp add: is_form_def qn_matches_def)
  ultimately show ?thesis using fragment_builder_starts[OF t k, of 9 AllowScriptingContent NoQuirksMode None sample_options] by auto
qed

section \<open>The type of an input\<close>

lemma attribute_index_find: "attribute_index as n = Some i \<Longrightarrow> i < length as \<and> findAttributeInVector as n = Some (as ! i)"
  by (induction as n arbitrary: i rule: attribute_index.induct) (auto split: if_splits)

lemma attribute_index_none: "attribute_index as n = None \<longleftrightarrow> findAttributeInVector as n = None"
  by (induction as n rule: attribute_index.induct) auto

lemma attribute_index_append: "\<forall>x \<in> set xs. \<not> qn_matches (da_name x) n \<Longrightarrow> qn_matches (da_name a) n \<Longrightarrow> attribute_index (xs @ a # ys) n = Some (length xs)"
  by (induction xs) auto

text \<open>C39: the \<open>type\<close> attribute of an \<open>input\<close> start tag is looked up before the element is inserted and read afterwards, through a pointer into the
  token's attributes. With scripting content allowed the answer is that of the attribute. Without, the scripting attributes have been stripped from the vector in
  between: when \<open>k\<close> of them stood in front of the \<open>type\<close> attribute, the pointer is at the \<open>k\<close>-th attribute left behind it, so the answer
  is that of another attribute when \<open>k\<close> is not zero, and the pointer is past the end of the vector when fewer than \<open>k\<close> are left.\<close>

theorem input_type_pointer:
  assumes "am_type token = StartTag"
    and "scripting = se_isScriptingAttribute (te_site E) \<lparr>qn_prefix = None, qn_localName = am_name token, qn_namespaceURI = xhtmlNamespaceURI\<rparr>"
  shows "(scriptingContentIsAllowed (hs_parserContentPolicy (tb_tree b)) \<longrightarrow>
      typeAttribute_hidden E token b =
        Some (case findAttributeInVector (am_attributes token) (attrName ''type'') of None \<Rightarrow> False | Some a \<Rightarrow> is_hidden E a)) \<and>
    (\<not> scriptingContentIsAllowed (hs_parserContentPolicy (tb_tree b)) \<and> am_attributes token = xs @ a # ys \<and>
      (\<forall>x \<in> set xs. \<not> qn_matches (da_name x) (attrName ''type'')) \<and> qn_matches (da_name a) (attrName ''type'') \<and> \<not> scripting a \<longrightarrow>
      typeAttribute_hidden E token b =
        (let k = length (filter scripting xs); left = filter (\<lambda>x. \<not> scripting x) ys in
         if k \<le> length left then Some (is_hidden E ((a # left) ! k)) else None))"
proof -
  have as: "am_getAttributes token = Some (am_attributes token)" using assms(1) by (simp add: am_getAttributes_def usesAttributes_def)
  have allowed: "typeAttribute_hidden E token b =
        Some (case findAttributeInVector (am_attributes token) (attrName ''type'') of None \<Rightarrow> False | Some a \<Rightarrow> is_hidden E a)"
    if "scriptingContentIsAllowed (hs_parserContentPolicy (tb_tree b))"
    using that as attribute_index_find[of "am_attributes token" "attrName ''type''"] attribute_index_none[of "am_attributes token" "attrName ''type''"]
    by (auto simp: typeAttribute_hidden_def attributes_after_def setAttributes_def split: option.splits)
  let ?k = "length (filter scripting xs)" let ?xs = "filter (\<lambda>x. \<not> scripting x) xs" let ?ys = "filter (\<lambda>x. \<not> scripting x) ys"
  have stripped: "typeAttribute_hidden E token b = (if ?k \<le> length ?ys then Some (is_hidden E ((a # ?ys) ! ?k)) else None)"
    if p: "\<not> scriptingContentIsAllowed (hs_parserContentPolicy (tb_tree b))" "am_attributes token = xs @ a # ys"
    "\<forall>x \<in> set xs. \<not> qn_matches (da_name x) (attrName ''type'')" "qn_matches (da_name a) (attrName ''type'')" "\<not> scripting a"
  proof -
    have len: "length xs = length ?xs + ?k" using sum_length_filter_compl[of scripting xs] by simp
    have "attributes_after E token b = Some (?xs @ a # ?ys)"
      using as p(1,2,5) assms(2) by (simp add: attributes_after_def setAttributes_def stripScriptingAttributes_filter Let_def)
    moreover have "(?xs @ a # ?ys) ! length xs = (a # ?ys) ! ?k" unfolding len by (rule nth_append_length_plus)
    moreover have "length xs < length (?xs @ a # ?ys) \<longleftrightarrow> ?k \<le> length ?ys" unfolding len by auto
    ultimately show ?thesis using p(2) attribute_index_append[OF p(3,4), of ys] by (simp add: typeAttribute_hidden_def del: nth_Cons' length_append)
  qed
  from allowed stripped show ?thesis by (simp add: Let_def)
qed

text \<open>A hidden input behind an event handler, in a fragment whose scripts are dropped: alone, and with a name behind it.\<close>

definition clicked_input :: "DOMAttribute list \<Rightarrow> AtomicHTMLToken" where
  "clicked_input as = (sample_start_tag ''input'')\<lparr>am_attributes := \<lparr>da_name = attrName ''onclick'', da_value = Some (lit ''f()'')\<rparr> #
     \<lparr>da_name = attrName ''type'', da_value = Some (lit ''hidden'')\<rparr> # as\<rparr>"

theorem input_type_pointer_witness:
  "typeAttribute_hidden sample_tree_env (clicked_input []) sample_builder = Some True \<and>
   typeAttribute_hidden sample_tree_env (clicked_input []) (newHTMLTreeBuilder 0 DisallowScriptingContent NoQuirksMode empty_document None sample_options) = None \<and>
   typeAttribute_hidden sample_tree_env (clicked_input [\<lparr>da_name = attrName ''name'', da_value = Some (lit ''n'')\<rparr>])
     (newHTMLTreeBuilder 0 DisallowScriptingContent NoQuirksMode empty_document None sample_options) = Some False"
proof -
  let ?b = "newHTMLTreeBuilder 0 DisallowScriptingContent NoQuirksMode empty_document None sample_options"
  let ?click = "\<lparr>da_name = attrName ''onclick'', da_value = Some (lit ''f()'')\<rparr>" let ?type = "\<lparr>da_name = attrName ''type'', da_value = Some (lit ''hidden'')\<rparr>"
  let ?name = "\<lparr>da_name = attrName ''name'', da_value = Some (lit ''n'')\<rparr>"
  have t: "am_type (clicked_input as) = StartTag" for as by (simp add: clicked_input_def sample_start_tag_def blankAtomicToken_def)
  have f: "findAttributeInVector (am_attributes (clicked_input [])) (attrName ''type'') = Some ?type"
    by (simp add: clicked_input_def qn_matches_def attrName_def)
  have h: "is_hidden sample_tree_env ?type" "\<not> is_hidden sample_tree_env ?name"
    by (simp_all add: is_hidden_def sample_tree_env_def sample_env_def equalIgnoringCase_lit_def Let_def zip_same_conv_map list_all_iff lit_def)
  have p: "scriptingContentIsAllowed (hs_parserContentPolicy (tb_tree sample_builder))" "\<not> scriptingContentIsAllowed (hs_parserContentPolicy (tb_tree ?b))"
    by (simp_all add: sample_builder_def newHTMLTreeBuilder_def blank_builder_def newHTMLConstructionSite_def scriptingContentIsAllowed_def)
  have s: "se_isScriptingAttribute (te_site sample_tree_env) q ?click" "\<not> se_isScriptingAttribute (te_site sample_tree_env) q ?type"
    "\<not> se_isScriptingAttribute (te_site sample_tree_env) q ?name" for q by (simp_all add: sample_tree_env_def attrName_def lit_def)
  have a: "am_attributes (clicked_input as) = [?click] @ ?type # as" for as by (simp add: clicked_input_def)
  have n: "\<not> qn_matches (attrName ''onclick'') (attrName ''type'')" "qn_matches (attrName ''type'') (attrName ''type'')" by (simp_all add: qn_matches_def attrName_def)
  have "typeAttribute_hidden sample_tree_env (clicked_input []) ?b = None"
    using input_type_pointer[OF t refl, of ?b sample_tree_env "[]" "[?click]" ?type "[]"] p(2) a s n by auto
  moreover have "typeAttribute_hidden sample_tree_env (clicked_input [?name]) ?b = Some False"
    using input_type_pointer[OF t refl, of ?b sample_tree_env "[?name]" "[?click]" ?type "[?name]"] p(2) a s n h(2) by auto
  moreover have "typeAttribute_hidden sample_tree_env (clicked_input []) sample_builder = Some True"
    using input_type_pointer[OF t refl, of sample_builder sample_tree_env "[]"] p(1) f h(1) by simp
  ultimately show ?thesis by blast
qed

end
