(* ===== verification/CSS_Preload.thy ===== *)
theory CSS_Preload
  imports Parser_Idioms
begin

text \<open>
  The scanner for \<open>@import\<close> rules in style elements: \<open>src/Source/WebCore/html/parser/CSSPreloadScanner.h\<close> and \<open>CSSPreloadScanner.cpp\<close>. It is fed the
  characters of a style element in pieces and appends a request for each import rule it recognises. The vector of requests it writes to is a list; \<open>foldCase\<close> is
  ICU's case folding.
\<close>

section \<open>The scanner\<close>

datatype (plugins only: code) CSSState = CssInitial | CssMaybeComment | CssComment | CssMaybeCommentEnd | CssRuleStart | CssRule | CssAfterRule | CssRuleValue
  | CssAfterRuleValue | CssDoneParsingImportRules

record CSSPreloadScanner =
  cs_state :: CSSState
  cs_rule :: "UChar list"
  cs_ruleValue :: "UChar list"

record PreloadRequest =
  pr_initiatorType :: string
  pr_resourceURL :: "UChar list"

definition newCSSPreloadScanner :: CSSPreloadScanner where
  "newCSSPreloadScanner = \<lparr>cs_state = CssInitial, cs_rule = [], cs_ruleValue = []\<rparr>"

definition cs_reset :: "CSSPreloadScanner \<Rightarrow> CSSPreloadScanner" where
  "cs_reset s = s\<lparr>cs_state := CssInitial, cs_rule := [], cs_ruleValue := []\<rparr>"

text \<open>The loops of \<open>parseCSSStringOrURL\<close> on an offset and a length.\<close>

fun skip_front :: "UChar list \<Rightarrow> nat \<Rightarrow> nat \<Rightarrow> nat \<times> nat" where
  "skip_front chars offset 0 = (offset, 0)"
| "skip_front chars offset (Suc n) = (if isHTMLSpace (chars ! offset) then skip_front chars (offset + 1) n else (offset, Suc n))"

fun skip_back :: "UChar list \<Rightarrow> nat \<Rightarrow> nat \<Rightarrow> nat" where
  "skip_back chars offset 0 = 0"
| "skip_back chars offset (Suc n) = (if isHTMLSpace (chars ! (offset + n)) then skip_back chars offset n else Suc n)"

definition trim_range :: "UChar list \<Rightarrow> nat \<times> nat \<Rightarrow> nat \<times> nat" where
  "trim_range chars r = (case r of (offset, reducedLength) \<Rightarrow>
     case skip_front chars offset reducedLength of (offset1, length1) \<Rightarrow> (offset1, skip_back chars offset1 length1))"

definition is_url_range :: "UChar list \<Rightarrow> nat \<Rightarrow> nat \<Rightarrow> bool" where
  "is_url_range chars offset reducedLength \<longleftrightarrow> reducedLength \<ge> 5
     \<and> (chars ! offset = 0x75 \<or> chars ! offset = 0x55)
     \<and> (chars ! (offset + 1) = 0x72 \<or> chars ! (offset + 1) = 0x52)
     \<and> (chars ! (offset + 2) = 0x6C \<or> chars ! (offset + 2) = 0x4C)
     \<and> chars ! (offset + 3) = 0x28
     \<and> chars ! (offset + reducedLength - 1) = 0x29"

definition parseCSSStringOrURL :: "UChar list \<Rightarrow> UChar list option" where
  "parseCSSStringOrURL chars = (case trim_range chars (0, length chars) of (offset, reducedLength) \<Rightarrow>
     case trim_range chars (if is_url_range chars offset reducedLength then (offset + 4, reducedLength - 5) else (offset, reducedLength)) of (offset1, length1) \<Rightarrow>
     if length1 < 2 \<or> chars ! offset1 \<noteq> chars ! (offset1 + length1 - 1) \<or> \<not> (chars ! offset1 = chApos \<or> chars ! offset1 = chQuot) then None
     else case trim_range chars (offset1 + 1, length1 - 2) of (offset2, length2) \<Rightarrow> Some (take length2 (drop offset2 chars)))"

definition ruleEqualIgnoringCase :: "(UChar32 \<Rightarrow> UChar32) \<Rightarrow> UChar list \<Rightarrow> string \<Rightarrow> bool" where
  "ruleEqualIgnoringCase foldCase rule reference \<longleftrightarrow> length rule = length reference \<and>
     list_all2 (\<lambda>a b. foldCase (ucast a) = foldCase (ucast b)) rule (lit reference)"

definition emitRule :: "(UChar32 \<Rightarrow> UChar32) \<Rightarrow> CSSPreloadScanner \<Rightarrow> PreloadRequest list \<Rightarrow> CSSPreloadScanner \<times> PreloadRequest list" where
  "emitRule foldCase s requests =
     (let (state, requests1) =
        (if ruleEqualIgnoringCase foldCase (cs_rule s) ''import'' then
           (CssInitial, (case parseCSSStringOrURL (cs_ruleValue s) of None \<Rightarrow> requests
              | Some url \<Rightarrow> if url = [] then requests else requests @ [\<lparr>pr_initiatorType = ''css'', pr_resourceURL = url\<rparr>]))
         else if ruleEqualIgnoringCase foldCase (cs_rule s) ''charset'' then (CssInitial, requests)
         else (CssDoneParsingImportRules, requests))
      in (s\<lparr>cs_state := state, cs_rule := [], cs_ruleValue := []\<rparr>, requests1))"

definition css_tokenize :: "(UChar32 \<Rightarrow> UChar32) \<Rightarrow> UChar \<Rightarrow> CSSPreloadScanner \<Rightarrow> PreloadRequest list \<Rightarrow> (CSSPreloadScanner \<times> PreloadRequest list) option" where
  "css_tokenize foldCase c s requests = (case cs_state s of
      CssInitial \<Rightarrow> Some (if isHTMLSpace c then s else if c = 0x40 then s\<lparr>cs_state := CssRuleStart\<rparr> else if c = chSlash then s\<lparr>cs_state := CssMaybeComment\<rparr>
        else s\<lparr>cs_state := CssDoneParsingImportRules\<rparr>, requests)
    | CssMaybeComment \<Rightarrow> Some (s\<lparr>cs_state := if c = 0x2A then CssComment else CssInitial\<rparr>, requests)
    | CssComment \<Rightarrow> Some (if c = 0x2A then s\<lparr>cs_state := CssMaybeCommentEnd\<rparr> else s, requests)
    | CssMaybeCommentEnd \<Rightarrow> Some (if c = 0x2A then s else s\<lparr>cs_state := if c = chSlash then CssInitial else CssComment\<rparr>, requests)
    | CssRuleStart \<Rightarrow> Some (if (c \<ge> 0x41 \<and> c \<le> 0x5A) \<or> (c \<ge> 0x61 \<and> c \<le> 0x7A) then s\<lparr>cs_rule := [c], cs_ruleValue := [], cs_state := CssRule\<rparr>
        else s\<lparr>cs_state := CssInitial\<rparr>, requests)
    | CssRule \<Rightarrow> Some (if isHTMLSpace c then s\<lparr>cs_state := CssAfterRule\<rparr> else if c = chSemi then s\<lparr>cs_state := CssInitial\<rparr>
        else s\<lparr>cs_rule := cs_rule s @ [c]\<rparr>, requests)
    | CssAfterRule \<Rightarrow> Some (if isHTMLSpace c then s else if c = chSemi then s\<lparr>cs_state := CssInitial\<rparr>
        else if c = 0x7B then s\<lparr>cs_state := CssDoneParsingImportRules\<rparr>
        else s\<lparr>cs_state := CssRuleValue, cs_ruleValue := cs_ruleValue s @ [c]\<rparr>, requests)
    | CssRuleValue \<Rightarrow> Some (if isHTMLSpace c then (s\<lparr>cs_state := CssAfterRuleValue\<rparr>, requests) else if c = chSemi then emitRule foldCase s requests
        else (s\<lparr>cs_ruleValue := cs_ruleValue s @ [c]\<rparr>, requests))
    | CssAfterRuleValue \<Rightarrow> Some (if isHTMLSpace c then (s, requests) else if c = chSemi then emitRule foldCase s requests
        else if c = 0x7B then (s\<lparr>cs_state := CssDoneParsingImportRules\<rparr>, requests)
        else (s\<lparr>cs_state := CssInitial\<rparr>, requests))
    | CssDoneParsingImportRules \<Rightarrow> None)"

fun css_scan :: "(UChar32 \<Rightarrow> UChar32) \<Rightarrow> UChar list \<Rightarrow> CSSPreloadScanner \<Rightarrow> PreloadRequest list \<Rightarrow> (CSSPreloadScanner \<times> PreloadRequest list) option" where
  "css_scan foldCase [] s requests = Some (s, requests)"
| "css_scan foldCase (c # cs) s requests =
     (if cs_state s \<noteq> CssDoneParsingImportRules then do { (s1, requests1) \<leftarrow> css_tokenize foldCase c s requests; css_scan foldCase cs s1 requests1 }
      else Some (s, requests))"

text \<open>The characters of a style element arrive in pieces.\<close>

fun css_scans :: "(UChar32 \<Rightarrow> UChar32) \<Rightarrow> UChar list list \<Rightarrow> CSSPreloadScanner \<Rightarrow> PreloadRequest list \<Rightarrow> (CSSPreloadScanner \<times> PreloadRequest list) option" where
  "css_scans foldCase [] s requests = Some (s, requests)"
| "css_scans foldCase (cs # css) s requests = do { (s1, requests1) \<leftarrow> css_scan foldCase cs s requests; css_scans foldCase css s1 requests1 }"

section \<open>Laws\<close>

text \<open>Scanning reaches no unreachable state and does not depend on how the text is cut.\<close>

lemma tokenize_total: "cs_state s \<noteq> CssDoneParsingImportRules \<Longrightarrow> \<exists>r. css_tokenize foldCase c s requests = Some r"
  by (cases "cs_state s") (simp_all add: css_tokenize_def)

lemma scan_total: "\<exists>r. css_scan foldCase cs s requests = Some r"
proof (induction cs arbitrary: s requests)
  case (Cons c cs)
  show ?case
  proof (cases "cs_state s = CssDoneParsingImportRules")
    case False
    then obtain s1 r1 where "css_tokenize foldCase c s requests = Some (s1, r1)" using tokenize_total[of s foldCase c requests] by auto
    with False Cons show ?thesis by simp
  qed simp
qed simp

lemma scan_done: "cs_state s = CssDoneParsingImportRules \<Longrightarrow> css_scan foldCase cs s requests = Some (s, requests)"
  by (cases cs) simp_all

lemma scan_append: "css_scan foldCase (xs @ ys) s requests = do { (s1, requests1) \<leftarrow> css_scan foldCase xs s requests; css_scan foldCase ys s1 requests1 }"
proof (induction xs arbitrary: s requests)
  case (Cons c cs)
  then show ?case by (cases "css_tokenize foldCase c s requests") (auto simp: scan_done)
qed simp

lemma scans_concat: "css_scans foldCase css s requests = css_scan foldCase (concat css) s requests"
proof (induction css arbitrary: s requests)
  case (Cons cs css)
  obtain s1 r1 where "css_scan foldCase cs s requests = Some (s1, r1)" using scan_total[of foldCase cs s requests] by auto
  with Cons show ?case by (simp add: scan_append)
qed simp

lemma trim_none: "l > 0 \<Longrightarrow> \<not> isHTMLSpace (cs ! k) \<Longrightarrow> \<not> isHTMLSpace (cs ! (k + l - 1)) \<Longrightarrow> trim_range cs (k, l) = (k, l)"
  by (cases l) (simp_all add: trim_range_def)

definition quote :: "UChar \<Rightarrow> bool" where
  "quote q \<longleftrightarrow> q = chApos \<or> q = chQuot"

definition url_ok :: "UChar list \<Rightarrow> bool" where
  "url_ok url \<longleftrightarrow> url \<noteq> [] \<and> (\<forall>c \<in> set url. \<not> isHTMLSpace c \<and> c \<noteq> chSemi)"

text \<open>The positions in \<open>before q url q after\<close>.\<close>

lemma quoted_nth:
  assumes "v = bs @ q # url @ q # as" "url_ok url" "k = length bs"
  shows "v ! k = q" "v ! (k + 1 + length url) = q" "\<not> isHTMLSpace (v ! (k + 1))" "\<not> isHTMLSpace (v ! (k + length url))"
    "take (length url) (drop (k + 1) v) = url" "length url > 0"
proof -
  show l: "length url > 0" using assms(2) by (simp add: url_ok_def)
  have "v ! (k + 1) = url ! 0" "v ! (k + length url) = url ! (length url - 1)" "v ! (k + 1 + length url) = q"
    using assms(1,3) l by (simp_all add: nth_append nth_Cons')
  moreover have "url ! 0 \<in> set url" "url ! (length url - 1) \<in> set url" using l by simp_all
  ultimately show "v ! (k + 1 + length url) = q" "\<not> isHTMLSpace (v ! (k + 1))" "\<not> isHTMLSpace (v ! (k + length url))" using assms(2) by (simp_all add: url_ok_def)
  show "v ! k = q" "take (length url) (drop (k + 1) v) = url" using assms(1,3) by simp_all
qed

lemma quote_facts: "quote q \<Longrightarrow> \<not> isHTMLSpace q \<and> q \<noteq> 0x75 \<and> q \<noteq> 0x55 \<and> q \<noteq> chSemi \<and> q \<noteq> 0x7B"
  by (auto simp: quote_def isHTMLSpace_def)

lemma parse_string:
  assumes "quote q" "url_ok url"
  shows "parseCSSStringOrURL (q # url @ [q]) = Some url"
proof -
  define v where "v = q # url @ [q]"
  then have "v = [] @ q # url @ q # []" by simp
  note n = quoted_nth[OF this assms(2) refl, simplified]
  have "trim_range v (0, Suc (Suc (length url))) = (0, Suc (Suc (length url)))" using quote_facts[OF assms(1)] n by (intro trim_none) simp_all
  moreover have "trim_range v (Suc 0, length url) = (Suc 0, length url)" using n by (intro trim_none) simp_all
  moreover have "\<not> is_url_range v 0 (Suc (Suc (length url)))" using quote_facts[OF assms(1)] n by (simp add: is_url_range_def)
  moreover have "length v = Suc (Suc (length url))" by (simp add: v_def)
  ultimately have "parseCSSStringOrURL v = Some url" using assms(1) n by (simp add: parseCSSStringOrURL_def quote_def)
  then show ?thesis by (simp add: v_def)
qed

lemma parse_url:
  assumes "quote q" "url_ok url"
  shows "parseCSSStringOrURL (lit ''url('' @ q # url @ [q, 0x29]) = Some url"
proof -
  define v where "v = lit ''url('' @ q # url @ [q, 0x29]"
  have n: "v ! 4 = q" "v ! (5 + length url) = q" "\<not> isHTMLSpace (v ! 5)" "\<not> isHTMLSpace (v ! (4 + length url))" "take (length url) (drop 5 v) = url" "length url > 0"
    using quoted_nth[OF v_def assms(2), of 4] by (simp_all add: lit_def)
  have f: "v ! 0 = 0x75" "v ! Suc 0 = 0x72" "v ! 2 = 0x6C" "v ! 3 = 0x28" "v ! (6 + length url) = 0x29" by (simp_all add: v_def lit_def nth_append nth_Cons')
  have l: "length v = 7 + length url" by (simp add: v_def lit_def)
  have "trim_range v (0, 7 + length url) = (0, 7 + length url)" using f by (intro trim_none) (simp_all add: isHTMLSpace_def)
  moreover have "is_url_range v 0 (7 + length url)" using f f(3)[unfolded numeral_2_eq_2] by (simp add: is_url_range_def)
  moreover have "trim_range v (4, 2 + length url) = (4, 2 + length url)" using quote_facts[OF assms(1)] n by (intro trim_none) simp_all
  moreover have "trim_range v (5, length url) = (5, length url)" using n by (intro trim_none) simp_all
  ultimately have "parseCSSStringOrURL v = Some url" using assms(1) n unfolding parseCSSStringOrURL_def l by (simp add: quote_def)
  then show ?thesis by (simp add: v_def)
qed

text \<open>A \<open>url()\<close> without quotes is not recognised.\<close>

lemma unquoted_url_ignored:
  assumes "url_ok url" "\<not> quote (hd url)"
  shows "parseCSSStringOrURL (lit ''url('' @ url @ [0x29]) = None"
proof -
  define v where "v = lit ''url('' @ url @ [0x29]"
  have u: "length url > 0" "\<not> isHTMLSpace (url ! 0)" "\<not> isHTMLSpace (url ! (length url - 1))" using assms(1) by (auto simp: url_ok_def)
  have f: "v ! 0 = 0x75" "v ! Suc 0 = 0x72" "v ! 2 = 0x6C" "v ! 3 = 0x28" "v ! (4 + length url) = 0x29" "v ! 4 = url ! 0" "v ! (3 + length url) = url ! (length url - 1)"
    using u(1) by (simp_all add: v_def lit_def nth_append nth_Cons')
  have l: "length v = 5 + length url" by (simp add: v_def lit_def)
  have "trim_range v (0, 5 + length url) = (0, 5 + length url)" using f by (intro trim_none) (simp_all add: isHTMLSpace_def)
  moreover have "is_url_range v 0 (5 + length url)" using f f(3)[unfolded numeral_2_eq_2] by (simp add: is_url_range_def)
  moreover have "trim_range v (4, length url) = (4, length url)" using u f by (intro trim_none) simp_all
  moreover have "hd url = url ! 0" using u(1) by (simp add: hd_conv_nth)
  ultimately have "parseCSSStringOrURL v = None" using assms(2) f(6) unfolding parseCSSStringOrURL_def l by (auto simp: quote_def)
  then show ?thesis by (simp add: v_def)
qed

section \<open>Style sheets of import rules\<close>

text \<open>
  An import rule as it is printed: the spaces in front of it, the form of the address and the address: a string, \<open>url()\<close> around a string, or \<open>url()\<close>
  around the bare address. An address has no spaces and no semicolon in it, which end a value, and no media follow it.
\<close>

datatype AddressForm = StringForm UChar | UrlForm UChar | BareUrl

record ImportRule =
  ir_spaces :: "UChar list"
  ir_form :: AddressForm
  ir_url :: "UChar list"

definition form_ok :: "AddressForm \<Rightarrow> UChar list \<Rightarrow> bool" where
  "form_ok form url \<longleftrightarrow> (case form of StringForm q \<Rightarrow> quote q | UrlForm q \<Rightarrow> quote q | BareUrl \<Rightarrow> \<not> quote (hd url))"

definition rule_ok :: "ImportRule \<Rightarrow> bool" where
  "rule_ok r \<longleftrightarrow> list_all isHTMLSpace (ir_spaces r) \<and> form_ok (ir_form r) (ir_url r) \<and> url_ok (ir_url r)"

definition rule_value :: "ImportRule \<Rightarrow> UChar list" where
  "rule_value r = (case ir_form r of StringForm q \<Rightarrow> q # ir_url r @ [q] | UrlForm q \<Rightarrow> lit ''url('' @ q # ir_url r @ [q, 0x29]
     | BareUrl \<Rightarrow> lit ''url('' @ ir_url r @ [0x29])"

definition print_rule :: "ImportRule \<Rightarrow> UChar list" where
  "print_rule r = ir_spaces r @ lit ''@import '' @ rule_value r @ [chSemi]"

definition rule_requests :: "ImportRule \<Rightarrow> PreloadRequest list" where
  "rule_requests r = (if ir_form r = BareUrl then [] else [\<lparr>pr_initiatorType = ''css'', pr_resourceURL = ir_url r\<rparr>])"

lemma value_facts:
  assumes "rule_ok r"
  shows "parseCSSStringOrURL (rule_value r) = (if ir_form r = BareUrl then None else Some (ir_url r))"
    "\<forall>c \<in> set (rule_value r). \<not> isHTMLSpace c \<and> c \<noteq> chSemi" "\<exists>c vs. rule_value r = c # vs \<and> c \<noteq> 0x7B"
proof -
  have q: "form_ok (ir_form r) (ir_url r)" "url_ok (ir_url r)" using assms by (simp_all add: rule_ok_def)
  show "parseCSSStringOrURL (rule_value r) = (if ir_form r = BareUrl then None else Some (ir_url r))"
    using q(1) parse_string[OF _ q(2)] parse_url[OF _ q(2)] unquoted_url_ignored[OF q(2)]
    by (auto simp: rule_value_def form_ok_def split: AddressForm.splits)
  show "\<forall>c \<in> set (rule_value r). \<not> isHTMLSpace c \<and> c \<noteq> chSemi"
    using q quote_facts by (auto simp: rule_value_def form_ok_def url_ok_def isHTMLSpace_def lit_def split: AddressForm.splits)
  show "\<exists>c vs. rule_value r = c # vs \<and> c \<noteq> 0x7B"
    using q(1) quote_facts by (cases "ir_form r") (auto simp: rule_value_def form_ok_def lit_def)
qed

lemma scan_spaces: "list_all isHTMLSpace ws \<Longrightarrow> cs_state s = CssInitial \<Longrightarrow> css_scan foldCase ws s requests = Some (s, requests)"
  by (induction ws) (simp_all add: css_tokenize_def)

lemma scan_value: "\<forall>c \<in> set vs. \<not> isHTMLSpace c \<and> c \<noteq> chSemi \<Longrightarrow> cs_state s = CssRuleValue \<Longrightarrow>
    css_scan foldCase vs s requests = Some (s\<lparr>cs_ruleValue := cs_ruleValue s @ vs\<rparr>, requests)"
  by (induction vs arbitrary: s) (simp_all add: css_tokenize_def)

lemma scan_import: "cs_state s = CssInitial \<Longrightarrow>
   css_scan foldCase (lit ''@import '') s requests = Some (s\<lparr>cs_state := CssAfterRule, cs_rule := lit ''import'', cs_ruleValue := []\<rparr>, requests)"
  by (simp add: lit_def css_tokenize_def isHTMLSpace_def)

lemma scan_rule:
  assumes "rule_ok r" "cs_state s = CssInitial"
  shows "css_scan foldCase (print_rule r) s requests =
    Some (s\<lparr>cs_rule := [], cs_ruleValue := []\<rparr>, requests @ rule_requests r)"
proof -
  obtain c vs where v: "rule_value r = c # vs" "c \<noteq> 0x7B" using value_facts(3)[OF assms(1)] by blast
  have c: "\<not> isHTMLSpace c" "c \<noteq> chSemi" "\<forall>c \<in> set vs. \<not> isHTMLSpace c \<and> c \<noteq> chSemi" using value_facts(2)[OF assms(1)] v(1) by simp_all
  have u: "ir_url r \<noteq> []" using assms(1) by (simp add: rule_ok_def url_ok_def)
  let ?s = "s\<lparr>cs_rule := lit ''import'', cs_state := CssRuleValue, cs_ruleValue := [c]\<rparr>"
  have "css_scan foldCase (c # vs @ [chSemi]) (s\<lparr>cs_state := CssAfterRule, cs_rule := lit ''import'', cs_ruleValue := []\<rparr>) requests =
      css_scan foldCase (vs @ [chSemi]) ?s requests" using c v(2) by (simp add: css_tokenize_def)
  also have "\<dots> = css_scan foldCase [chSemi] (?s\<lparr>cs_ruleValue := c # vs\<rparr>) requests" using scan_value[OF c(3), of ?s foldCase requests] by (simp add: scan_append)
  also have "\<dots> = Some (s\<lparr>cs_state := CssInitial, cs_rule := [], cs_ruleValue := []\<rparr>, requests @ rule_requests r)"
    using value_facts(1)[OF assms(1)] v(1) u by (simp add: rule_requests_def css_tokenize_def emitRule_def ruleEqualIgnoringCase_def list_all2_refl isHTMLSpace_def lit_def)
  also have "s\<lparr>cs_state := CssInitial, cs_rule := [], cs_ruleValue := []\<rparr> = s\<lparr>cs_rule := [], cs_ruleValue := []\<rparr>" using assms(2) by (cases s) simp
  finally show ?thesis using assms v(1) scan_spaces[of "ir_spaces r" s foldCase requests] scan_import[OF assms(2), of foldCase requests]
    by (simp add: print_rule_def scan_append rule_ok_def)
qed

lemma scan_rules:
  assumes "list_all rule_ok rs" "cs_state s = CssInitial"
  shows "\<exists>s'. cs_state s' = CssInitial \<and> css_scan foldCase (concat (map print_rule rs)) s requests =
    Some (s', requests @ concat (map rule_requests rs))"
  using assms
proof (induction rs arbitrary: s requests)
  case (Cons r rs)
  let ?s = "s\<lparr>cs_rule := [], cs_ruleValue := []\<rparr>"
  have "css_scan foldCase (print_rule r) s requests = Some (?s, requests @ rule_requests r)"
    using Cons.prems by (intro scan_rule) simp_all
  moreover have "cs_state ?s = CssInitial" using Cons.prems by simp
  ultimately show ?case using Cons.IH[of ?s "requests @ rule_requests r"] Cons.prems(1) by (simp add: scan_append)
qed simp

text \<open>C34: a style sheet that consists of import rules with spaces in front, whose addresses have no space and no semicolon and no media behind them, makes the scanner
  request exactly the addresses in quotes, directly or inside \<open>url()\<close>, in their order; for a \<open>url()\<close> without quotes it requests nothing. This holds
  however the text is cut into the pieces the scanner is given, and no piece makes it fail.\<close>

theorem css_import_roundtrip:
  assumes "list_all rule_ok rs" "concat pieces = concat (map print_rule rs)"
  shows "\<exists>s. css_scans foldCase pieces newCSSPreloadScanner [] = Some (s, concat (map rule_requests rs))"
  using scan_rules[OF assms(1), of newCSSPreloadScanner foldCase "[]"] by (auto simp: scans_concat assms(2) newCSSPreloadScanner_def)

theorem css_import_roundtrip_witness:
  "\<exists>s. css_scans id [lit '' @imp'', lit ''ort \"a.css\";@import url(c.css);@import '', lit ''url(\"b.css\");''] newCSSPreloadScanner [] =
     Some (s, [\<lparr>pr_initiatorType = ''css'', pr_resourceURL = lit ''a.css''\<rparr>, \<lparr>pr_initiatorType = ''css'', pr_resourceURL = lit ''b.css''\<rparr>])"
proof -
  let ?rs = "[\<lparr>ir_spaces = [chSpace], ir_form = StringForm chQuot, ir_url = lit ''a.css''\<rparr>, \<lparr>ir_spaces = [], ir_form = BareUrl, ir_url = lit ''c.css''\<rparr>,
    \<lparr>ir_spaces = [], ir_form = UrlForm chQuot, ir_url = lit ''b.css''\<rparr>]"
  let ?pieces = "[lit '' @imp'', lit ''ort \"a.css\";@import url(c.css);@import '', lit ''url(\"b.css\");'']"
  have "list_all rule_ok ?rs" by (simp add: rule_ok_def form_ok_def quote_def url_ok_def isHTMLSpace_def lit_def)
  moreover have "concat ?pieces = concat (map print_rule ?rs)"
    by (simp add: print_rule_def rule_value_def lit_def)
  ultimately show ?thesis using css_import_roundtrip[of ?rs ?pieces id] by (simp add: rule_requests_def)
qed

end
