(* ===== verification/Meta_Charset.thy ===== *)
theory Meta_Charset
  imports Tokenizer_Progress Parser_Idioms Element_Stack
begin

text \<open>
  The search for the encoding of a document: \<open>src/Source/WebCore/html/parser/HTMLMetaCharsetParser.h\<close> and \<open>HTMLMetaCharsetParser.cpp\<close>, which run the tokenizer
  over the first bytes of a document, decoded by \<open>src/Source/WebCore/platform/text/TextCodecLatin1.cpp\<close>. \<open>registry\<close> is the registry of encodings, filled from ICU: it
  gives the canonical name for a name it knows, and \<open>None\<close> is an invalid \<open>TextEncoding\<close>. \<open>foldCase\<close> is ICU's case folding.
\<close>

section \<open>The assumed codec\<close>

definition latin1_table :: "LChar \<Rightarrow> UChar" where
  "latin1_table b = (if b \<ge> 0x80 \<and> b < 0xA0 then
     [0x20AC, 0x0081, 0x201A, 0x0192, 0x201E, 0x2026, 0x2020, 0x2021,
      0x02C6, 0x2030, 0x0160, 0x2039, 0x0152, 0x008D, 0x017D, 0x008F,
      0x0090, 0x2018, 0x2019, 0x201C, 0x201D, 0x2022, 0x2013, 0x2014,
      0x02DC, 0x2122, 0x0161, 0x203A, 0x0153, 0x009D, 0x017E, 0x0178] ! (unat b - 0x80)
     else ucast b)"

text \<open>An 8-bit string up to the first byte whose character does not fit, then a 16-bit one.\<close>

definition latin1_decode :: "LChar list \<Rightarrow> WTFString" where
  "latin1_decode bytes =
     (let narrow = takeWhile (\<lambda>b. latin1_table b \<le> 0xFF) bytes; rest = dropWhile (\<lambda>b. latin1_table b \<le> 0xFF) bytes in
      if rest = [] then Latin1 (map (\<lambda>b. ucast (latin1_table b)) narrow)
      else UTF16 (map (\<lambda>b. ucast (ucast (latin1_table b) :: LChar)) narrow @ map latin1_table rest))"

section \<open>The charset in a string\<close>

definition char_at :: "UChar list \<Rightarrow> nat \<Rightarrow> UChar" where
  "char_at cs i = (if i < length cs then cs ! i else 0)"

definition same_ignoring_case :: "(UChar32 \<Rightarrow> UChar32) \<Rightarrow> UChar list \<Rightarrow> UChar list \<Rightarrow> bool" where
  "same_ignoring_case foldCase as bs \<longleftrightarrow> list_all2 (\<lambda>a b. foldCase (ucast a) = foldCase (ucast b)) as bs"

function find_loop :: "(UChar32 \<Rightarrow> UChar32) \<Rightarrow> UChar list \<Rightarrow> UChar list \<Rightarrow> nat \<Rightarrow> nat \<Rightarrow> nat \<Rightarrow> nat option" where
  "find_loop foldCase cs m index delta i =
     (if same_ignoring_case foldCase (take (length m) (drop (index + i) cs)) m then Some (index + i)
      else if delta \<le> i then None
      else find_loop foldCase cs m index delta (i + 1))"
  by pat_completeness auto
termination by (relation "measure (\<lambda>(f, cs, m, index, delta, i). delta - i)") auto

declare find_loop.simps [simp del]

definition findIgnoringCase :: "(UChar32 \<Rightarrow> UChar32) \<Rightarrow> UChar list \<Rightarrow> UChar list \<Rightarrow> nat \<Rightarrow> nat option" where
  "findIgnoringCase foldCase cs m index =
     (if m = [] then Some (min index (length cs))
      else if index > length cs then None
      else if length m > length cs - index then None
      else find_loop foldCase cs m index (length cs - index - length m) 0)"

function skip_loop :: "UChar list \<Rightarrow> nat \<Rightarrow> nat" where
  "skip_loop str pos = (if pos < length str \<and> str ! pos \<le> chSpace then skip_loop str (pos + 1) else pos)"
  by pat_completeness auto
termination by (relation "measure (\<lambda>(str, pos). length str - pos)") auto

declare skip_loop.simps [simp del]

text \<open>\<open>quoteMark\<close> is zero when there is no quote.\<close>

function end_loop :: "UChar list \<Rightarrow> UChar \<Rightarrow> nat \<Rightarrow> nat" where
  "end_loop str quoteMark end_pos =
     (if end_pos < length str \<and> (quoteMark \<noteq> 0 \<and> str ! end_pos \<noteq> quoteMark
        \<or> quoteMark = 0 \<and> str ! end_pos > chSpace \<and> str ! end_pos \<noteq> chQuot \<and> str ! end_pos \<noteq> chApos \<and> str ! end_pos \<noteq> chSemi)
      then end_loop str quoteMark (end_pos + 1) else end_pos)"
  by pat_completeness auto
termination by (relation "measure (\<lambda>(str, q, pos). length str - pos)") auto

declare end_loop.simps [simp del]

lemma find_loop_bound: "find_loop foldCase cs m index delta i = Some p \<Longrightarrow> index + i \<le> p"
  by (induction foldCase cs m index delta i rule: find_loop.induct) (subst (asm) find_loop.simps, auto split: if_splits)

lemma find_bound: "findIgnoringCase foldCase cs m index = Some p \<Longrightarrow> m \<noteq> [] \<Longrightarrow> index \<le> p"
  using find_loop_bound[of foldCase cs m index _ 0 p] by (auto simp: findIgnoringCase_def split: if_splits)

lemma skip_bound: "pos \<le> skip_loop str pos"
  by (induction str pos rule: skip_loop.induct) (subst skip_loop.simps, auto)

text \<open>The value from a position on; leaving the loop gives the empty string.\<close>

definition extract_value :: "UChar list \<Rightarrow> nat \<Rightarrow> UChar list" where
  "extract_value str pos =
     (let quoted = (pos < length str \<and> (str ! pos = chQuot \<or> str ! pos = chApos));
          quoteMark = (if quoted then str ! pos else 0);
          pos1 = (if quoted then pos + 1 else pos)
      in if pos1 = length str then []
         else let end_pos = end_loop str quoteMark pos1 in
           if quoteMark \<noteq> 0 \<and> end_pos = length str then []
           else take (end_pos - pos1) (drop pos1 str))"

text \<open>What one round of the loop does after the keyword: go on at a position, or leave with a result.\<close>

datatype extract_step = Continue nat | Leave "UChar list"

definition extract_after :: "UChar list \<Rightarrow> nat \<Rightarrow> extract_step" where
  "extract_after str pos =
     (let pos1 = skip_loop str pos in
      if char_at str pos1 \<noteq> chEqual then Continue pos1 else Leave (extract_value str (skip_loop str (pos1 + 1))))"

lemma extract_after_bound: "extract_after str pos = Continue p \<Longrightarrow> pos \<le> p"
  using skip_bound[of pos str] by (auto simp: extract_after_def Let_def split: if_splits)

function extract_loop :: "(UChar32 \<Rightarrow> UChar32) \<Rightarrow> UChar list \<Rightarrow> nat \<Rightarrow> UChar list" where
  "extract_loop foldCase str pos =
     (if pos < length str then
        (case findIgnoringCase foldCase str (lit ''charset'') pos of None \<Rightarrow> []
         | Some pos1 \<Rightarrow> (case extract_after str (pos1 + 7) of Continue pos2 \<Rightarrow> extract_loop foldCase str pos2 | Leave r \<Rightarrow> r))
      else [])"
  by pat_completeness auto
termination
proof (relation "measure (\<lambda>(f, str, pos). length str - pos)")
  fix foldCase str pos pos1 pos2
  assume a: "pos < length str" "findIgnoringCase foldCase str (lit ''charset'') pos = Some pos1" "extract_after str (pos1 + 7) = Continue pos2"
  have "pos \<le> pos1" "pos1 + 7 \<le> pos2" using find_bound[OF a(2)] extract_after_bound[OF a(3)] by (simp_all add: lit_def)
  with a(1) show "((foldCase, str, pos2), foldCase, str, pos) \<in> measure (\<lambda>(f, str, pos). length str - pos)" by simp
qed simp

declare extract_loop.simps [simp del]

definition extractCharset :: "(UChar32 \<Rightarrow> UChar32) \<Rightarrow> UChar list \<Rightarrow> UChar list" where
  "extractCharset foldCase str = extract_loop foldCase str 0"

section \<open>The encoding in the attributes of a meta tag\<close>

datatype MetaMode = NoMode | CharsetMode | PragmaMode

type_synonym meta_state = "bool \<times> MetaMode \<times> UChar list"

definition meta_attribute :: "(UChar32 \<Rightarrow> UChar32) \<Rightarrow> UChar list \<times> UChar list \<Rightarrow> meta_state \<Rightarrow> meta_state" where
  "meta_attribute foldCase a st = (case a of (attributeName, attributeValue) \<Rightarrow> case st of (gotPragma, mode, charset) \<Rightarrow>
     if attributeName = lit ''http-equiv'' then
       (gotPragma \<or> equalIgnoringCase_lit foldCase (Some attributeValue) ''content-type'', mode, charset)
     else if charset = [] then
       if attributeName = lit ''charset'' then (gotPragma, CharsetMode, attributeValue)
       else if attributeName = lit ''content'' then
         (let c = extractCharset foldCase attributeValue in (gotPragma, if length c \<noteq> 0 then PragmaMode else mode, c))
       else st
     else st)"

definition encodingFromMetaAttributes :: "(UChar32 \<Rightarrow> UChar32) \<Rightarrow> (UChar list \<Rightarrow> string option) \<Rightarrow> (UChar list \<times> UChar list) list \<Rightarrow> string option option" where
  "encodingFromMetaAttributes foldCase registry attributes =
     (case fold (meta_attribute foldCase) attributes (False, NoMode, []) of (gotPragma, mode, charset) \<Rightarrow>
        if mode = CharsetMode \<or> mode = PragmaMode \<and> gotPragma then do {
          name \<leftarrow> stripLeadingAndTrailingHTMLSpaces (Some charset);
          Some (case name of None \<Rightarrow> None | Some n \<Rightarrow> registry n) }
        else Some None)"

section \<open>The parser\<close>

record HTMLMetaCharsetParser =
  mc_conf :: Conf
  mc_inHeadSection :: bool
  mc_doneChecking :: bool
  mc_encoding :: "string option"

text \<open>\<open>HTMLParserOptions(0)\<close>, and the parser as it is created: the tokenizer, the input and the token are kept in a configuration of the tokenizer.\<close>

definition noDocumentOptions :: HTMLParserOptions where
  "noDocumentOptions = \<lparr>opt_scriptEnabled = False, opt_pluginsEnabled = False, opt_usePreHTML5ParserQuirks = False,
     opt_useThreading = False, opt_maximumDOMTreeDepth = 512\<rparr>"

definition newHTMLMetaCharsetParser :: HTMLMetaCharsetParser where
  "newHTMLMetaCharsetParser = \<lparr>mc_conf = start_conf noDocumentOptions emptySegmentedString,
     mc_inHeadSection = True, mc_doneChecking = False, mc_encoding = None\<rparr>"

definition create8BitIfPossible :: "UChar list \<Rightarrow> WTFString" where
  "create8BitIfPossible cs =
     (if cs = [] then Latin1 [] else if list_all (\<lambda>c. c AND 0xFF00 = 0) cs then Latin1 (map ucast cs) else UTF16 cs)"

definition processMeta :: "TokenizerEnv \<Rightarrow> (UChar list \<Rightarrow> string option) \<Rightarrow> HTMLMetaCharsetParser \<Rightarrow> (bool \<times> HTMLMetaCharsetParser) option" where
  "processMeta E registry p = do {
     tokenAttributes \<leftarrow> token_attributes (run_token (mc_conf p));
     let attributes = map (\<lambda>a. (characters (create8BitIfPossible (attr_name a)), characters (create8BitIfPossible (attr_value a)))) tokenAttributes;
     encoding \<leftarrow> encodingFromMetaAttributes (env_foldCase E) registry attributes;
     Some (encoding \<noteq> None, p\<lparr>mc_encoding := encoding\<rparr>) }"

definition head_tags :: "UChar list list" where
  "head_tags = map lit [''script'', ''noscript'', ''style'', ''link'', ''meta'', ''object'', ''title'', ''base'']"

text \<open>The body of the loop for a tag: \<open>Inl\<close> when it returns from the function.\<close>

definition meta_tag :: "TokenizerEnv \<Rightarrow> (UChar list \<Rightarrow> string option) \<Rightarrow> HTMLMetaCharsetParser \<Rightarrow> (HTMLMetaCharsetParser + HTMLMetaCharsetParser) option" where
  "meta_tag E registry p =
     (let t = run_token (mc_conf p); at_end = (tok_type t = EndTag) in
      if at_end \<or> tok_type t = StartTag then do {
        tagName \<leftarrow> token_name t;
        (found, p1) \<leftarrow>
          (if at_end then Some (False, p)
           else let p0 = p\<lparr>mc_conf := updateStateFor tagName (mc_conf p)\<rparr> in
             if tagName = lit ''meta'' then processMeta E registry p0 else Some (False, p0));
        if found then Some (Inl (p1\<lparr>mc_doneChecking := True\<rparr>))
        else if tagName \<notin> set head_tags \<and> (at_end \<or> tagName \<noteq> lit ''html'') \<and> (at_end \<or> tagName \<noteq> lit ''head'')
        then Some (Inr (p1\<lparr>mc_inHeadSection := False\<rparr>)) else Some (Inr p1) }
      else Some (Inr p))"

definition bytesToCheckUnconditionally :: int where
  "bytesToCheckUnconditionally = 1024"

definition meta_token_address :: nat where
  "meta_token_address = 0"

partial_function (option) meta_loop :: "TokenizerEnv \<Rightarrow> (UChar list \<Rightarrow> string option) \<Rightarrow> HTMLMetaCharsetParser \<Rightarrow> (bool \<times> HTMLMetaCharsetParser) option" where
  "meta_loop E registry p = do {
     (more_tokens, c) \<leftarrow> nextToken E meta_token_address (mc_conf p);
     let p0 = p\<lparr>mc_conf := c\<rparr>;
     if \<not> more_tokens then Some (False, p0)
     else do {
       r \<leftarrow> meta_tag E registry p0;
       (case r of Inl p1 \<Rightarrow> Some (True, p1)
        | Inr p1 \<Rightarrow>
            if \<not> mc_inHeadSection p1 \<and> numberOfCharactersConsumed (run_source (mc_conf p1)) \<ge> bytesToCheckUnconditionally
            then Some (True, p1\<lparr>mc_doneChecking := True\<rparr>)
            else meta_loop E registry (p1\<lparr>mc_conf := next_call (mc_conf p1)\<rparr>)) } }"

definition checkForMetaCharset :: "TokenizerEnv \<Rightarrow> (UChar list \<Rightarrow> string option) \<Rightarrow> LChar list \<Rightarrow> HTMLMetaCharsetParser \<Rightarrow> (bool \<times> HTMLMetaCharsetParser) option" where
  "checkForMetaCharset E registry data p =
     (if mc_doneChecking p then Some (True, p)
      else do {
        ASSERT (mc_encoding p = None);
        decoded \<leftarrow> makeSegmentedString (latin1_decode data);
        input \<leftarrow> seg_append decoded (run_source (mc_conf p));
        meta_loop E registry (p\<lparr>mc_conf := (mc_conf p)\<lparr>run_source := input\<rparr>\<rparr>) })"

section \<open>The codec\<close>

lemma latin1_decode_characters: "characters (latin1_decode bytes) = map latin1_table bytes"
proof -
  let ?P = "\<lambda>b. latin1_table b \<le> 0xFF"
  have narrow: "map (\<lambda>b. ucast (ucast (latin1_table b) :: LChar)) (takeWhile ?P bytes) = map latin1_table (takeWhile ?P bytes)"
    by (auto dest!: set_takeWhileD simp: LChar_round)
  have all: "map latin1_table (takeWhile ?P bytes) @ map latin1_table (dropWhile ?P bytes) = map latin1_table bytes"
    by (metis map_append takeWhile_dropWhile_id)
  show ?thesis
  proof (cases "dropWhile ?P bytes = []")
    case True
    have "characters (latin1_decode bytes) = map (\<lambda>b. ucast (ucast (latin1_table b) :: LChar)) (takeWhile ?P bytes)"
      using True by (simp only: latin1_decode_def Let_def if_True refl characters.simps map_map o_def)
    also note narrow
    also have "map latin1_table (takeWhile ?P bytes) = map latin1_table bytes" using all True by simp
    finally show ?thesis .
  next
    case False
    then show ?thesis using narrow all by (simp only: latin1_decode_def Let_def if_False characters.simps)
  qed
qed

section \<open>What the charset of a string is\<close>

definition value_spec :: "UChar list \<Rightarrow> UChar list" where
  "value_spec cs = (case cs of [] \<Rightarrow> []
     | q # r \<Rightarrow> if q = chQuot \<or> q = chApos then (if q \<in> set r then takeWhile (\<lambda>c. c \<noteq> q) r else [])
        else takeWhile (\<lambda>c. c > chSpace \<and> c \<noteq> chQuot \<and> c \<noteq> chApos \<and> c \<noteq> chSemi) cs)"

abbreviation is_blank :: "UChar \<Rightarrow> bool" where
  "is_blank c \<equiv> c \<le> chSpace"

function charset_spec :: "(UChar32 \<Rightarrow> UChar32) \<Rightarrow> UChar list \<Rightarrow> UChar list" where
  "charset_spec foldCase cs =
     (if length cs < 7 then []
      else if same_ignoring_case foldCase (take 7 cs) (lit ''charset'') then
        (let r = dropWhile is_blank (drop 7 cs) in
         if r \<noteq> [] \<and> hd r = chEqual then value_spec (dropWhile is_blank (tl r)) else charset_spec foldCase r)
      else charset_spec foldCase (tl cs))"
  by pat_completeness auto
termination
  by (relation "measure (\<lambda>(f, cs). length cs)") (auto intro: le_less_trans[OF length_dropWhile_le])

declare charset_spec.simps [simp del]

lemma skip_loop_eq: "drop (skip_loop str pos) str = dropWhile is_blank (drop pos str) \<and> (pos \<le> length str \<longrightarrow> skip_loop str pos \<le> length str)"
proof (induction str pos rule: skip_loop.induct)
  case (1 str pos)
  show ?case
  proof (cases "pos < length str")
    case True
    with 1 show ?thesis by (subst (1 2) skip_loop.simps) (simp add: drop_eq_nth_Cons)
  next
    case False
    then show ?thesis by (subst (1 2) skip_loop.simps) simp
  qed
qed

definition stops :: "UChar \<Rightarrow> UChar \<Rightarrow> bool" where
  "stops q c = (if q \<noteq> 0 then c = q else \<not> (c > chSpace \<and> c \<noteq> chQuot \<and> c \<noteq> chApos \<and> c \<noteq> chSemi))"

lemma end_loop_eq: "pos \<le> length str \<Longrightarrow> end_loop str q pos = pos + length (takeWhile (\<lambda>c. \<not> stops q c) (drop pos str))"
proof (induction str q pos rule: end_loop.induct)
  case (1 str q pos)
  show ?case
  proof (cases "pos < length str")
    case True
    then have step: "end_loop str q pos = (if \<not> stops q (str ! pos) then end_loop str q (pos + 1) else pos)"
      by (subst end_loop.simps) (auto simp: stops_def)
    show ?thesis
    proof (cases "stops q (str ! pos)")
      case True
      with step \<open>pos < length str\<close> show ?thesis by (simp add: drop_eq_nth_Cons)
    next
      case False
      with True have "end_loop str q (pos + 1) = pos + 1 + length (takeWhile (\<lambda>c. \<not> stops q c) (drop (pos + 1) str))"
        by (intro "1.IH") (auto simp: stops_def split: if_splits)
      with step False True show ?thesis by (simp add: drop_eq_nth_Cons)
    qed
  next
    case False
    then show ?thesis by (subst end_loop.simps) simp
  qed
qed

lemma take_end:
  assumes "pos \<le> length str"
  shows "take (end_loop str q pos - pos) (drop pos str) = takeWhile (\<lambda>c. \<not> stops q c) (drop pos str)"
    "end_loop str q pos = length str \<longleftrightarrow> (\<forall>c \<in> set (drop pos str). \<not> stops q c)"
proof -
  let ?w = "takeWhile (\<lambda>c. \<not> stops q c) (drop pos str)"
  have e: "end_loop str q pos = pos + length ?w" by (rule end_loop_eq[OF assms])
  then show "take (end_loop str q pos - pos) (drop pos str) = ?w" by (simp add: takeWhile_eq_take[symmetric])
  have "end_loop str q pos = length str \<longleftrightarrow> length ?w = length (drop pos str)" using e assms by auto
  also have "\<dots> \<longleftrightarrow> ?w = drop pos str" by (metis takeWhile_eq_take take_all_iff le_refl length_takeWhile_le nat_less_le)
  finally show "end_loop str q pos = length str \<longleftrightarrow> (\<forall>c \<in> set (drop pos str). \<not> stops q c)" by (simp add: takeWhile_eq_all_conv)
qed

text \<open>What follows the keyword.\<close>

definition after_spec :: "(UChar32 \<Rightarrow> UChar32) \<Rightarrow> UChar list \<Rightarrow> UChar list" where
  "after_spec foldCase cs = (let r = dropWhile is_blank cs in
     if r \<noteq> [] \<and> hd r = chEqual then value_spec (dropWhile is_blank (tl r)) else charset_spec foldCase r)"

lemma char_at_drop: "pos \<le> length str \<Longrightarrow> char_at str pos = chEqual \<longleftrightarrow> drop pos str \<noteq> [] \<and> hd (drop pos str) = chEqual"
  by (auto simp: char_at_def hd_drop_conv_nth)

lemma value_spec_eq:
  assumes "pos \<le> length str"
  shows "value_spec (drop pos str) = extract_value str pos"
proof (cases "pos < length str")
  case True
  then have d: "drop pos str = str ! pos # drop (pos + 1) str" by (simp add: drop_eq_nth_Cons)
  show ?thesis
  proof (cases "str ! pos = chQuot \<or> str ! pos = chApos")
    case q: True
    let ?q = "str ! pos"
    note e = take_end[of "pos + 1" str ?q]
    have s: "stops ?q = (\<lambda>c. c = ?q)" using q by (auto simp: stops_def fun_eq_iff)
    have v: "value_spec (drop pos str) = (if ?q \<in> set (drop (pos + 1) str) then takeWhile (\<lambda>c. c \<noteq> ?q) (drop (pos + 1) str) else [])"
      using q d by (auto simp: value_spec_def)
    have "extract_value str pos = (if pos + 1 = length str then [] else if end_loop str ?q (pos + 1) = length str then []
        else take (end_loop str ?q (pos + 1) - (pos + 1)) (drop (pos + 1) str))"
      using q True by (auto simp: extract_value_def Let_def)
    with v e True s show ?thesis by auto
  next
    case False
    have s: "(\<lambda>c. \<not> stops 0 c) = (\<lambda>c. c > chSpace \<and> c \<noteq> chQuot \<and> c \<noteq> chApos \<and> c \<noteq> chSemi)" by (auto simp: stops_def fun_eq_iff)
    have "value_spec (drop pos str) = takeWhile (\<lambda>c. \<not> stops 0 c) (drop pos str)" using False d s by (simp add: value_spec_def)
    with take_end(1)[OF assms, of 0] False True show ?thesis by (simp add: extract_value_def Let_def)
  qed
next
  case False
  with assms show ?thesis by (simp add: value_spec_def extract_value_def)
qed

lemma extract_after_eq:
  assumes "pos \<le> length str"
  shows "after_spec foldCase (drop pos str) = (case extract_after str pos of Continue p \<Rightarrow> charset_spec foldCase (drop p str) | Leave r \<Rightarrow> r)"
proof -
  let ?p1 = "skip_loop str pos"
  have p1: "drop ?p1 str = dropWhile is_blank (drop pos str)" "?p1 \<le> length str" using skip_loop_eq[of str pos] assms by auto
  show ?thesis
  proof (cases "char_at str ?p1 = chEqual")
    case False
    with p1 char_at_drop[OF p1(2)] show ?thesis by (auto simp: after_spec_def extract_after_def Let_def)
  next
    case True
    then have lt: "?p1 + 1 \<le> length str" by (auto simp: char_at_def split: if_splits)
    let ?p2 = "skip_loop str (?p1 + 1)"
    have p2: "drop ?p2 str = dropWhile is_blank (drop (?p1 + 1) str)" "?p2 \<le> length str" using skip_loop_eq[of str "?p1 + 1"] lt by auto
    have next1: "tl (drop ?p1 str) = drop (?p1 + 1) str" by (simp add: drop_Suc tl_drop)
    have "after_spec foldCase (drop pos str) = value_spec (drop ?p2 str)"
      using True char_at_drop[OF p1(2)] next1 unfolding after_spec_def Let_def p1(1)[symmetric] p2(1) by simp
    with value_spec_eq[OF p2(2)] True show ?thesis by (simp add: extract_after_def Let_def)
  qed
qed

lemma spec_search:
  assumes "length str = index + delta + 7" "i \<le> delta"
  shows "charset_spec foldCase (drop (index + i) str) =
    (case find_loop foldCase str (lit ''charset'') index delta i of None \<Rightarrow> []
     | Some p \<Rightarrow> after_spec foldCase (drop (p + 7) str)) \<and>
    (\<forall>p. find_loop foldCase str (lit ''charset'') index delta i = Some p \<longrightarrow> p + 7 \<le> length str)"
  using assms
proof (induction foldCase str "lit ''charset''" index delta i rule: find_loop.induct)
  case (1 foldCase str index delta i)
  let ?cs = "drop (index + i) str" let ?m = "lit ''charset''"
  have len: "\<not> length ?cs < 7" "length ?m = 7" using "1.prems" by (simp_all add: lit_def)
  have tl: "tl ?cs = drop (index + (i + 1)) str" by (simp add: drop_Suc tl_drop)
  have d7: "drop 7 ?cs = drop (index + i + 7) str" by (simp add: add.commute)
  show ?case
  proof (cases "same_ignoring_case foldCase (take 7 ?cs) ?m")
    case True
    then have "find_loop foldCase str ?m index delta i = Some (index + i)" by (subst find_loop.simps) (simp add: len(2))
    moreover have "charset_spec foldCase ?cs = after_spec foldCase (drop 7 ?cs)"
      using True len(1) by (subst charset_spec.simps) (simp add: after_spec_def)
    ultimately show ?thesis using d7 "1.prems" by simp
  next
    case False
    then have spec: "charset_spec foldCase ?cs = charset_spec foldCase (drop (index + (i + 1)) str)"
      using len(1) tl by (subst charset_spec.simps) simp
    show ?thesis
    proof (cases "delta \<le> i")
      case True
      then have "find_loop foldCase str ?m index delta i = None" using False by (subst find_loop.simps) (simp add: len(2))
      moreover have "length (drop (index + (i + 1)) str) < 7" using True "1.prems" by simp
      ultimately show ?thesis using spec by (subst (asm) (2) charset_spec.simps) simp
    next
      case False
      then have "find_loop foldCase str ?m index delta i = find_loop foldCase str ?m index delta (i + 1)"
        using \<open>\<not> same_ignoring_case _ _ _\<close> by (subst find_loop.simps) (simp add: len(2))
      with "1.hyps"[of] \<open>\<not> same_ignoring_case _ _ _\<close> False "1.prems" spec len(2) show ?thesis by simp
    qed
  qed
qed

lemma extract_loop_eq: "extract_loop foldCase str pos = charset_spec foldCase (drop pos str)"
proof (induction foldCase str pos rule: extract_loop.induct)
  case (1 foldCase str pos)
  let ?m = "lit ''charset''" let ?find = "findIgnoringCase foldCase str ?m pos"
  have m: "?m \<noteq> []" "length ?m = 7" by (simp_all add: lit_def)
  show ?case
  proof (cases "pos + 7 \<le> length str")
    case True
    then have lt: "pos < length str" "length str = pos + (length str - pos - 7) + 7" by simp_all
    have find: "?find = find_loop foldCase str ?m pos (length str - pos - 7) 0" using True m by (auto simp: findIgnoringCase_def)
    note spec = spec_search[OF lt(2), of 0 foldCase, folded find, simplified]
    show ?thesis
    proof (cases ?find)
      case None
      with lt(1) spec show ?thesis by (subst extract_loop.simps) simp
    next
      case (Some p)
      then have "p + 7 \<le> length str" using spec by simp
      from extract_after_eq[OF this, of foldCase] spec Some lt(1) "1.IH"[OF lt(1) Some] show ?thesis
        by (subst extract_loop.simps) (cases "extract_after str (p + 7)"; simp)
    qed
  next
    case False
    then have "charset_spec foldCase (drop pos str) = []" by (subst charset_spec.simps) simp
    moreover have "?find = None" if "pos < length str" using that False m by (auto simp: findIgnoringCase_def)
    ultimately show ?thesis by (subst extract_loop.simps) simp
  qed
qed

text \<open>C28: The charset of a \<open>content\<close> value, found by the loops over positions and the search without case, is the one the reference reads off the text:
  what follows the first \<open>charset\<close> with an equals sign, in quotes that are closed or up to a blank, a quote or a semicolon, and nothing otherwise.\<close>

theorem extract_charset_correct: "extractCharset foldCase str = charset_spec foldCase str"
  by (simp add: extractCharset_def extract_loop_eq)

section \<open>Running over the document\<close>

text \<open>The order of the attributes decides: a charset in \<open>content\<close> hides a \<open>charset\<close> attribute behind it.\<close>

lemma content_hides_charset:
  assumes "charset_spec foldCase v \<noteq> []" "n \<noteq> []"
  shows "encodingFromMetaAttributes foldCase registry [(lit ''content'', v), (lit ''charset'', n)] = Some None"
    "encodingFromMetaAttributes foldCase registry [(lit ''charset'', n), (lit ''content'', v)] =
       Some (registry (rev (dropWhile isHTMLSpace (rev (dropWhile isHTMLSpace n)))))"
proof -
  have ne: "lit ''content'' \<noteq> lit ''http-equiv''" "lit ''charset'' \<noteq> lit ''http-equiv''" "lit ''content'' \<noteq> lit ''charset''" by (simp_all add: lit_def)
  then show "encodingFromMetaAttributes foldCase registry [(lit ''content'', v), (lit ''charset'', n)] = Some None"
    using assms by (simp add: encodingFromMetaAttributes_def meta_attribute_def extractCharset_def extract_loop_eq Let_def)
  show "encodingFromMetaAttributes foldCase registry [(lit ''charset'', n), (lit ''content'', v)] =
       Some (registry (rev (dropWhile isHTMLSpace (rev (dropWhile isHTMLSpace n)))))"
    using assms ne by (simp add: encodingFromMetaAttributes_def meta_attribute_def strip_correct)
qed

lemma encoding_total: "\<exists>e. encodingFromMetaAttributes foldCase registry attributes = Some e"
  by (auto simp: encodingFromMetaAttributes_def strip_correct split: prod.splits)

lemma processMeta_total:
  assumes "tok_type (run_token (mc_conf p)) = StartTag"
  shows "\<exists>e. processMeta E registry p = Some (e \<noteq> None, p\<lparr>mc_encoding := e\<rparr>)"
proof -
  let ?as = "map (\<lambda>a. (characters (create8BitIfPossible (attr_name a)), characters (create8BitIfPossible (attr_value a)))) (tok_attributes (run_token (mc_conf p)))"
  obtain e where "encodingFromMetaAttributes (env_foldCase E) registry ?as = Some e" using encoding_total by blast
  with assms show ?thesis by (auto simp: processMeta_def token_attributes_def)
qed

definition meta_inv :: "TokenizerEnv \<Rightarrow> HTMLMetaCharsetParser \<Rightarrow> bool" where
  "meta_inv E p \<longleftrightarrow> mc_doneChecking p \<or>
     client_inv E meta_token_address (mc_conf p) \<and> \<not> seg_closed (run_source (mc_conf p)) \<and> mc_encoding p = None"

lemma meta_inv_new: "meta_inv E newHTMLMetaCharsetParser"
proof -
  have "stream_inv emptySegmentedString" "seg_toString emptySegmentedString = []" "pushedChars emptySegmentedString = []"
    "numberOfCharactersConsumed emptySegmentedString = 0" "\<not> seg_closed emptySegmentedString"
    by (simp_all add: stream_inv_def stream_core_def pointers_ok_def emptySegmentedString_def emptySubstring_def sub_ok_def seg_toString_def sub_appendTo_def
      sub_numberOfCharactersConsumed_def pushedChars_def numberOfCharactersConsumed_def)
  then show ?thesis
    by (simp add: meta_inv_def newHTMLMetaCharsetParser_def client_inv_def idle_inv_def pushed_ok_def state_defs offsets_ok_def)
qed

text \<open>One token: the body of the loop does not fail, leaves the tokenizer ready for the next token, and stays open for an encoding.\<close>

lemma meta_tag_step:
  assumes "wf_token (run_token d)" "tok_type (run_token d) \<noteq> Character \<longrightarrow> tk_state d = DataState \<and> tk_bufferedEndTagName d = []"
    "client_inv E addr (next_call d)" "mc_conf p = d" "mc_encoding p = None" "\<not> mc_doneChecking p"
  obtains (found) q where "meta_tag E registry p = Some (Inl q)" "mc_doneChecking q" "mc_encoding q \<noteq> None"
  | (on) q where "meta_tag E registry p = Some (Inr q)" "client_inv E addr (next_call (mc_conf q))" "weight (mc_conf q) = weight d"
      "run_source (mc_conf q) = run_source d" "mc_encoding q = None" "\<not> mc_doneChecking q"
proof -
  have swap: "next_call (updateStateFor n d) = updateStateFor n (next_call d)" "run_source (updateStateFor n d) = run_source d" for n
    by (simp_all add: updateStateFor_def next_call_def)
  have upd: "client_inv E addr (next_call (updateStateFor n d))" "weight (updateStateFor n d) = weight d" if "isTagType (tok_type (run_token d))" for n
  proof -
    have st: "tk_state (next_call d) = DataState" "tk_bufferedEndTagName (next_call d) = []" using assms(2) that by (auto simp: next_call_def)
    note u = client_update[OF assms(3) st, of n]
    show "client_inv E addr (next_call (updateStateFor n d))" using u(1) swap(1) by simp
    show "weight (updateStateFor n d) = weight d" using u(2) swap(1)[of n, symmetric] by simp
  qed
  show thesis
  proof (cases "isTagType (tok_type (run_token d))")
    case False
    then have "meta_tag E registry p = Some (Inr p)" using assms(4) by (simp add: meta_tag_def)
    with on assms show thesis by simp
  next
    case tag: True
    let ?n = "tok_data (run_token d)"
    have name: "token_name (run_token d) = Some ?n" using tag by (auto simp: token_name_def)
    show thesis
    proof (cases "tok_type (run_token d) = EndTag")
      case True
      with name assms show thesis by (intro on[of "if ?n \<notin> set head_tags then p\<lparr>mc_inHeadSection := False\<rparr> else p"]) (auto simp: meta_tag_def)
    next
      case False
      then have start: "tok_type (run_token d) = StartTag" using tag by auto
      let ?p = "p\<lparr>mc_conf := updateStateFor ?n d\<rparr>"
      have tk: "run_token (updateStateFor ?n d) = run_token d" by (simp add: updateStateFor_def)
      obtain e where e: "processMeta E registry ?p = Some (e \<noteq> None, ?p\<lparr>mc_encoding := e\<rparr>)"
        using processMeta_total[of ?p E registry] start tk by auto
      let ?q = "\<lambda>q. if ?n \<notin> set head_tags \<and> ?n \<noteq> lit ''html'' \<and> ?n \<noteq> lit ''head'' then q\<lparr>mc_inHeadSection := False\<rparr> else q"
      show thesis
      proof (cases "?n = lit ''meta''")
        case True
        show thesis
        proof (cases e)
          case None
          with e True name start assms upd[OF tag] swap(2) show thesis
            by (intro on[of "?q (?p\<lparr>mc_encoding := e\<rparr>)"]) (auto simp: meta_tag_def Let_def)
        next
          case (Some enc)
          with e True name start assms(4) show thesis by (intro found[of "?p\<lparr>mc_encoding := e, mc_doneChecking := True\<rparr>"]) (auto simp: meta_tag_def Let_def)
        qed
      next
        case False
        with name start assms upd[OF tag] swap(2) show thesis by (intro on[of "?q ?p"]) (auto simp: meta_tag_def Let_def)
      qed
    qed
  qed
qed

lemma meta_loop_returns:
  assumes "env_ok E" "meta_inv E p" "\<not> mc_doneChecking p"
  shows "\<exists>b q. meta_loop E registry p = Some (b, q) \<and> meta_inv E q \<and> (b \<longleftrightarrow> mc_doneChecking q) \<and>
    (mc_encoding q = None \<longrightarrow> b \<longrightarrow> \<not> mc_inHeadSection q \<and> bytesToCheckUnconditionally \<le> numberOfCharactersConsumed (run_source (mc_conf q)))"
  using assms(2,3)
proof (induction "weight (mc_conf p)" arbitrary: p rule: less_induct)
  case less
  let ?a = meta_token_address
  have p: "client_inv E ?a (mc_conf p)" "\<not> seg_closed (run_source (mc_conf p))" "mc_encoding p = None" using less.prems by (auto simp: meta_inv_def)
  show ?case
  proof (cases rule: nextToken_client[OF assms(1) p(1)])
    case (1 d)
    have cl: "\<not> seg_closed (run_source d)" using 1(8) p(2) by (simp add: kept_def)
    show ?thesis
    proof (cases rule: meta_tag_step[where p = "p\<lparr>mc_conf := d\<rparr>" and registry = registry, OF 1(4) 1(9) 1(2), simplified, OF p(3) less.prems(2)])
      case (1 q)
      with \<open>nextToken E ?a (mc_conf p) = Some (True, d)\<close> show ?thesis
        by (subst meta_loop.simps) (intro exI[of _ True] exI[of _ q], auto simp: meta_inv_def)
    next
      case (2 q)
      let ?q = "q\<lparr>mc_conf := next_call (mc_conf q)\<rparr>"
      have src: "run_source (mc_conf ?q) = run_source d" using 2(4) by (simp add: next_call_def)
      have "weight (mc_conf ?q) < weight (mc_conf p)" using 2(3) \<open>weight (next_call d) < weight (mc_conf p)\<close> by simp
      moreover have "meta_inv E ?q" using 2(2,5) src cl by (simp add: meta_inv_def)
      moreover have "\<not> mc_doneChecking ?q" using 2(6) by simp
      ultimately have "\<exists>b r. meta_loop E registry ?q = Some (b, r) \<and> meta_inv E r \<and> (b \<longleftrightarrow> mc_doneChecking r) \<and>
        (mc_encoding r = None \<longrightarrow> b \<longrightarrow> \<not> mc_inHeadSection r \<and> bytesToCheckUnconditionally \<le> numberOfCharactersConsumed (run_source (mc_conf r)))"
        by (rule less.hyps)
      with 2(1) \<open>nextToken E ?a (mc_conf p) = Some (True, d)\<close> show ?thesis
        by (subst meta_loop.simps) (auto simp: meta_inv_def)
    qed
  next
    case (2 d)
    then have "\<not> seg_closed (run_source d)" using p(2) by (simp add: kept_def)
    with 2 p(3) less.prems(2) show ?thesis
      by (subst meta_loop.simps) (intro exI[of _ False] exI[of _ "p\<lparr>mc_conf := d\<rparr>"], simp add: meta_inv_def)
  qed
qed

lemma append_fresh_consumed:
  assumes "stream_inv s" "makeSegmentedString str = Some t" "\<not> seg_closed s" "seg_append t s = Some s'"
  shows "numberOfCharactersConsumed s' = numberOfCharactersConsumed s"
proof -
  have t: "seg_currentString t = makeSubstring str" "seg_substrings t = []" "seg_pushedChar1 t = 0"
    using makeSegmentedString_inv[of str] assms(2) by (auto simp: escaped_def)
  have "sub_numberOfCharactersConsumed (makeSubstring str) = 0"
    by (simp add: sub_numberOfCharactersConsumed_def makeSubstring_def)
  with assms(3,4) t show ?thesis
    by (auto simp: seg_append_def append_substring_def numberOfCharactersConsumed_def split: if_splits Option.bind_splits)
qed

text \<open>C27: The search for the encoding in the head of a document returns for every piece with which the unread text holds no numeric reference that decodes to NUL (the
  tokenizer fails an assertion on one): its loop over the tokens ends and no assertion fails.
  It says true exactly when it is done, which it stays; it is done without an encoding only behind the head section and the first 1024 characters.\<close>

theorem meta_charset_returns:
  assumes "env_ok E" "meta_inv E p" "\<not> mc_doneChecking p \<Longrightarrow> no_nul_reference (seg_toString (run_source (mc_conf p)) @ map latin1_table data)"
  shows "\<exists>b q. checkForMetaCharset E registry data p = Some (b, q) \<and> meta_inv E q \<and> (b \<longleftrightarrow> mc_doneChecking q) \<and>
    (mc_doneChecking p \<longrightarrow> b \<and> q = p) \<and>
    (\<not> mc_doneChecking p \<and> b \<and> mc_encoding q = None \<longrightarrow>
       \<not> mc_inHeadSection q \<and> 1024 \<le> numberOfCharactersConsumed (run_source (mc_conf q)))"
proof (cases "mc_doneChecking p")
  case True
  with assms(2) show ?thesis by (intro exI[of _ True] exI[of _ p]) (simp add: checkForMetaCharset_def)
next
  case False
  let ?s = "run_source (mc_conf p)"
  have p: "client_inv E meta_token_address (mc_conf p)" "\<not> seg_closed ?s" "mc_encoding p = None" using assms(2) False by (auto simp: meta_inv_def)
  then have inv: "stream_inv ?s" by (simp add: client_inv_def idle_inv_def)
  obtain t where t: "makeSegmentedString (latin1_decode data) = Some t" "stream_inv t" "seg_toString t = map latin1_table data"
    using makeSegmentedString_inv[of "latin1_decode data"] by (auto simp: latin1_decode_characters)
  obtain s where s: "seg_append t ?s = Some s" "\<not> seg_closed s" "seg_toString s = seg_toString ?s @ map latin1_table data"
    using seg_append_inv[OF inv t(2) p(2)] t(3) by auto
  have "client_inv E meta_token_address ((mc_conf p)\<lparr>run_source := s\<rparr>)"
    by (rule client_append[OF p(1,2) t(2) s(1)]) (use assms(3)[OF False] s(3) append_fresh_consumed[OF inv t(1) p(2) s(1)] in simp_all)
  then have "meta_inv E (p\<lparr>mc_conf := (mc_conf p)\<lparr>run_source := s\<rparr>\<rparr>)" using s(2) p(3) by (simp add: meta_inv_def)
  from meta_loop_returns[OF assms(1) this, of registry] False t(1) s(1) p(3) show ?thesis
    by (auto simp: checkForMetaCharset_def bytesToCheckUnconditionally_def)
qed

theorem meta_charset_returns_witness:
  "\<exists>b q. checkForMetaCharset sample_env (\<lambda>n. if n = lit ''utf-8'' then Some ''UTF-8'' else None) (map ucast (lit ''<b>&lt;'')) newHTMLMetaCharsetParser = Some (b, q) \<and>
     (b \<longleftrightarrow> mc_doneChecking q)"
proof -
  have d: "map latin1_table (map ucast (lit ''<b>&lt;'')) = lit ''<b>&lt;''" by (simp add: lit_def latin1_table_def)
  have n: "seg_toString (run_source (mc_conf newHTMLMetaCharsetParser)) = []"
    by (simp add: newHTMLMetaCharsetParser_def emptySegmentedString_def seg_toString_def emptySubstring_def sub_appendTo_def
        sub_numberOfCharactersConsumed_def)
  show ?thesis
    using meta_charset_returns[OF sample_env_ok meta_inv_new, of "map ucast (lit ''<b>&lt;'')"] sample_no_nul n d by fastforce
qed

end
