(* ===== verification/Spec2Isabelle.thy ===== *)
theory Spec2Isabelle
  imports Segmented_String Input_Preprocessor HTML_Token Entity_Search Entity_Parser Tokenizer_Progress Source_Tracker
    Stack_Item Element_Stack_Laws Formatting_List_Laws Site_Properties Tree_Properties
    Input_Stream CSS_Preload Meta_Charset
begin

text \<open>
  A verification library for the HTML parser of QtWebKit, from the characters of a document to the nodes of its DOM
  tree. Paths are under \<open>src/Source/WebCore\<close> unless they start with \<open>WTF\<close>.

  \<^bold>\<open>The program's parts and how they interact.\<close> The document parser appends decoded text to a character
  stream (\<open>platform/text/SegmentedString\<close>). The tokenizer (\<open>html/parser/HTMLTokenizer\<close>) reads the stream through
  the input stream preprocessor (\<open>html/parser/InputStreamPreprocessor.h\<close>), calls the character reference parser
  (\<open>xml/parser/CharacterReferenceParserInlines.h\<close>, \<open>html/parser/HTMLEntityParser.cpp\<close>), which searches the entity table
  (\<open>html/parser/HTMLEntitySearch\<close>), and fills a token (\<open>html/parser/HTMLToken.h\<close>), whose place in the source \<open>html/parser/HTMLSourceTracker\<close> records. The tree builder (\<open>html/parser/HTMLTreeBuilder\<close>) takes the token
  over as an atomic token (\<open>html/parser/AtomicHTMLToken.h\<close>) and acts on it by its insertion mode. It keeps stack items (\<open>HTMLStackItem.h\<close>) on the
  stack of open elements (\<open>HTMLElementStack\<close>) and the list of active formatting elements (\<open>HTMLFormattingElementList\<close>), and changes the
  DOM through the construction site (\<open>HTMLConstructionSite\<close>), which creates nodes and queues their insertion with the tree operations of
  \<open>dom/ContainerNode.cpp\<close>. It also switches the state of the tokenizer. Text that a script writes enters the stream at an insertion point
  (\<open>html/parser/HTMLInputStream.h\<close>). The microsyntaxes of attribute values (\<open>html/parser/HTMLParserIdioms\<close>) and the scanner that looks ahead for style sheets to
  load (\<open>html/parser/CSSPreloadScanner\<close>) stand beside this pipeline. Before it runs, \<open>html/parser/HTMLMetaCharsetParser\<close> looks for the encoding with a tokenizer of its own.

  \<^bold>\<open>Conventions.\<close> A class is a record, an enumeration a datatype, a member function a definition of the same name, with a
  prefix where names clash (\<open>seg_\<close> stream, \<open>tok_\<close> token, \<open>tk_\<close> tokenizer, \<open>es_\<close> element stack, \<open>fl_\<close> formatting list). A function
  that asserts or follows a pointer returns an \<open>option\<close>, and \<open>None\<close> is a failed \<open>ASSERT\<close>, a null pointer or a read out of
  range, so a theorem that it returns \<open>Some\<close> is a safety theorem. Pointers are offsets, indices or addresses. Code units and
  code points are words of 16 and 32 bits; counters of characters and lines are \<open>int\<close> or \<open>nat\<close>, so their own overflow, after
  two thousand million characters, is outside the model; the depth of the element stack is a 32-bit word.

  \<^bold>\<open>Theories.\<close>
  \<^item> \<open>Prelude\<close>: code units, ASCII classification, \<open>ASSERT\<close>, shared lemmas.
  \<^item> \<open>Segmented_String\<close>: the stream with its cached character, function pointers, fast-path flags, pushed-back characters and
    line bookkeeping. Every operation keeps \<open>stream_inv\<close>; advancing refines a queue of characters (locale \<open>char_stream\<close>, interpreted
    for \<open>advance\<close> and \<open>advanceAndUpdateLineNumber\<close>); appending, pushing, looking ahead and clearing are characterised.
  \<^item> \<open>Input_Preprocessor\<close>: \<open>peek\<close> and \<open>advance\<close> with the retry loop; reading a whole stream normalises newlines and NULs.
  \<^item> \<open>HTML_Token\<close>: the token and every member function with its assertions.
  \<^item> \<open>Entity_Search\<close>: the two binary searches and \<open>advance\<close>; equivalent with prefix search in the table.
  \<^item> \<open>Entity_Parser\<close>: character references; \<open>consumeHTMLEntity\<close> computes the reference \<open>charref_spec\<close> on every stream.
  \<^item> \<open>Tokenizer\<close>, \<open>Tokenizer_States\<close>: the tokenizer's state, the macros that join its blocks, the 71 states, \<open>nextToken\<close>.
    \<open>Tokenizer_Invariant\<close>, \<open>Tokenizer_Safety\<close>: the invariant between blocks, the rules of the macros, and every state kept by them.
    \<open>Tokenizer_Session\<close>: \<open>nextToken\<close> returns, fails no assertion and loses no character; sessions of calls keep the invariant.
    \<open>Tokenizer_Progress\<close>: every token handed over makes a weight of the tokenizer smaller, so a client's loop over the tokens ends.
    \<open>Token_Ranges\<close>: every state keeps the source ranges of finished attributes set, so a tag handed over has them all.
  \<^item> \<open>Source_Tracker\<close>: the source tracker (\<open>html/parser/HTMLSourceTracker.cpp\<close>) and the sessions of the document parser, in which it gives every
    token its base offset.
  \<^item> \<open>Stack_Item\<close>: atomic tokens, stack items and the tests on them.
  \<^item> \<open>Element_Stack\<close>, \<open>Element_Stack_Laws\<close>: the stack of open elements, its invariant, its scope queries (locale \<open>scope\<close>,
    interpreted for each kind of marker), its popping loops, removal and the furthest block.
  \<^item> \<open>Formatting_List\<close>, \<open>Formatting_List_Laws\<close>: the list of active formatting elements, its invariant and the Noah's Ark condition.
  \<^item> \<open>DOM_Tree\<close>, \<open>DOM_Laws\<close>: nodes with parent, sibling and child pointers, the insertions, removals and moves the parser uses; each refines an
    operation on lists of children and keeps a tree a tree.
  \<^item> \<open>Construction_Site\<close>: the construction site, its queue of tasks, attributes, doctype, text splitting, foster parenting, reconstruction
    of formatting elements. \<open>Site_Text\<close>, \<open>Site_Queue\<close>, \<open>Site_Properties\<close>: inserting text loses nothing, queued tasks always succeed and put
    nodes where they belong, reconstruction reopens exactly the unopened entries.
  \<^item> \<open>Tree_Builder\<close>, \<open>Adoption_Agency\<close>, \<open>Tree_Modes\<close>, \<open>Tree_Ends\<close>: the tree builder, its helpers, the adoption agency, start tags by insertion mode, and
    end tags, characters, the end of file and foreign content. \<open>Tree_Run\<close> ties the calls between them together and has the constructors and
    \<open>constructTree\<close>. \<open>Tree_Calls\<close>: what a handler keeps of the construction site when the operations it calls keep it (locales \<open>site_invariant\<close> and
    \<open>tree_calls\<close>, interpreted for the typing of the site). \<open>Tree_Types\<close>, \<open>Tree_Invariant\<close>, \<open>Adoption_Laws\<close>: every operation keeps the typing of the nodes
    the builder points to. \<open>Tree_Properties\<close>: the theorems on the whole builder.
  \<^item> \<open>Input_Stream\<close>: the stream split at an insertion point. Written text goes before the text that waits, also when writes nest.
  \<^item> \<open>Parser_Idioms\<close>: HTML spaces, stripping, the conversion of digits to integers without overflow, and the integers of attribute values.
  \<^item> \<open>CSS_Preload\<close>: the scanner of \<open>@import\<close> rules; every scan returns, and the rules at the head of a sheet give their URLs in order.
  \<^item> \<open>Meta_Charset\<close>: the search for the encoding of a document (\<open>html/parser/HTMLMetaCharsetParser\<close>), a client of the tokenizer: its loop over the tokens ends,
    and the charset of a \<open>content\<close> value is the one of a reference on the text.
  \<^item> This theory: properties that span components.

  \<^bold>\<open>Loops.\<close> A loop over a vector or a chain is structural recursion or has a measure. The retry loop of the preprocessor and the jumps
  between the states of the tokenizer are partial functions into \<open>option\<close>; that they return is proved, for the tokenizer with the
  number of characters left and a rank of the state as measure. The loops of text insertion and over children are partial functions that are
  proved to return. The calls between the handlers of the tree builder are one partial function \<open>run\<close>: its theorems hold for the runs that return. No fuel is used.

  \<^bold>\<open>Parameters.\<close> The entity table is generated by the build: \<open>table_ok\<close> says that it is sorted and that its index functions are
  right. Unicode case folding and the direction of a character (for white space) come from ICU and are arguments where the code calls them, as are the
  breaks of text, with \<open>breaks_ok\<close> for what is relied on, and the registry of encodings. \<open>SiteEnv\<close> and \<open>TreeEnv\<close> collect what the construction site and the tree builder ask
  of other code: which attributes are scripting attributes, the frame, generated tables of SVG and MathML names, localised text, the position.
  Tag names generated from the \<open>.in\<close> files are written as their names and namespaces. \<open>ENABLE(THREADED_HTML_PARSER)\<close> and
  \<open>ENABLE(TEMPLATE_ELEMENT)\<close> are off, as in the Qt build.

  \<^bold>\<open>Not modelled.\<close> Render tree attachment and scripts that run while a node is inserted. The document parser, its scheduler and the script
  runner (timers, network, script engine); the background parser (not compiled in this build); the HTML preload scanner and the XSS auditor, which
  decide by URLs, media queries and the settings of the page; the microsyntaxes of floating-point numbers; everything behind the parser.
\<close>

section \<open>From the tokenizer to the tree builder\<close>

text \<open>A token of the tokenizer whose attributes have their ranges becomes an atomic token with the same contents.\<close>

lemma atomic_token_contents:
  assumes wf: "wf_token t" "tok_type t \<noteq> Uninitialized"
    and ranges: "isTagType (tok_type t) \<longrightarrow> list_all ranges_set (tok_attributes t)"
  shows "\<exists>a t'. makeAtomicHTMLToken t = Some (a, t') \<and> am_type a = tok_type t \<and>
    (isTagType (tok_type t) \<longrightarrow> am_getName a = Some (Some (tok_data t)) \<and> am_getSelfClosing a = Some (tok_selfClosing t) \<and>
       distinct (map da_name (am_attributes a)) \<and>
       (\<forall>q. findAttributeInVector (am_attributes a) q =
          map_option domAttribute (List.find (\<lambda>x. qn_matches (nameForAttribute x) q) (tok_attributes t)))) \<and>
    (tok_type t = DOCTYPE \<longrightarrow> am_getName a = Some (Some (tok_data t)) \<and> am_doctype a = tok_doctypeData t \<and> am_doctype a \<noteq> None) \<and>
    (tok_type t = Comment \<longrightarrow> am_comment a = Some (tok_data t)) \<and>
    (tok_type t = Character \<longrightarrow> am_characters a = Some (tok_data t))"
proof (cases "isTagType (tok_type t)")
  case True
  then have "\<forall>a \<in> set (tok_attributes t). attr_name a \<noteq> [] \<and> ranges_set a"
    using wf(1) ranges by (auto simp: wf_token_def attributes_ok_def name_ok_def list_all_iff)
  then obtain ds where ds: "initializeAttributes_loop (tok_attributes t) [] = Some ds" "distinct (map da_name ds)"
    "\<And>q. findAttributeInVector ds q = map_option domAttribute (List.find (\<lambda>x. qn_matches (nameForAttribute x) q) (tok_attributes t))"
    using initializeAttributes_loop_spec[of "tok_attributes t" "[]"] by auto
  let ?a = "(blankAtomicToken (tok_type t))\<lparr>am_selfClosing := Some (tok_selfClosing t), am_name := Some (tok_data t), am_attributes := ds\<rparr>"
  have "initializeAttributes (tok_attributes t) ((blankAtomicToken (tok_type t))\<lparr>am_selfClosing := Some (tok_selfClosing t), am_name := Some (tok_data t)\<rparr>) = Some ?a"
    using ds(1) by (auto simp: initializeAttributes_def blankAtomicToken_def)
  then have "makeAtomicHTMLToken t = Some (?a, t)"
    using True by (auto simp: makeAtomicHTMLToken_def selfClosing_def token_name_def token_attributes_def)
  moreover have "findAttributeInVector (am_attributes ?a) q =
          map_option domAttribute (List.find (\<lambda>x. qn_matches (nameForAttribute x) q) (tok_attributes t))" for q using ds(3) by simp
  ultimately show ?thesis using True ds(2)
    by (intro exI[of _ ?a] exI[of _ t]) (auto simp: am_getName_def am_getSelfClosing_def usesName_def blankAtomicToken_def)
next
  case False
  show ?thesis
  proof (cases "tok_type t")
    case Comment
    then have "(if isAll8BitData t then make8BitFrom16BitSource (tok_data t) else tok_data t) = tok_data t"
      using wf(1) make8Bit_lossless[of "tok_data t"] by (simp add: wf_token_def)
    with Comment show ?thesis
      by (simp add: makeAtomicHTMLToken_def token_comment_def am_comment_def blankAtomicToken_def)
  next
    case DOCTYPE
    then show ?thesis using wf(1)
      by (auto simp: makeAtomicHTMLToken_def token_name_def releaseDoctypeData_def am_getName_def usesName_def am_doctype_def
          blankAtomicToken_def wf_token_def doctype_ok_def split: option.splits)
  qed (use False wf(2) in \<open>auto simp: makeAtomicHTMLToken_def token_characters_def am_characters_def blankAtomicToken_def\<close>)
qed

lemma tok_end_simps [simp]:
  "tok_type (tok_end n t) = tok_type t" "tok_attributes (tok_end n t) = tok_attributes t" "wf_token (tok_end n t) = wf_token t"
  by (simp_all add: tok_end_def wf_token_def isAll8BitData_def attributes_ok_def doctype_ok_def cong: TokenType.case_cong)

text \<open>C10: in a session of the document parser (the source tracker gives each token its base offset, input is appended, the stream closed, flags and text states
  set between calls, on text without a numeric reference that decodes to NUL), the tracker and the tokenizer return, and every token handed
  over becomes an atomic token without failing an assertion, those on the source ranges of its attributes included. Its name, comment or characters are those of the token, also through
  the 8-bit copy; an attribute has the value of its first occurrence, no attribute is lost, and no name occurs twice.\<close>

theorem atomic_token_faithful:
  assumes "env_ok E" "makeSegmentedString str = Some s" "no_nul_reference (characters str)"
    "(tracked E addr)\<^sup>*\<^sup>* (start_conf opt s, newHTMLSourceTracker) (c, tr)"
  shows "\<exists>c0 tr0 b d. pump_start c tr = Some (c0, tr0) \<and> nextToken E addr c0 = Some (b, d) \<and>
    (b \<longrightarrow> (let t = run_token (fst (pump_end d tr0)) in
      \<exists>a t'. makeAtomicHTMLToken t = Some (a, t') \<and> am_type a = tok_type t \<and> tok_type t \<noteq> Uninitialized \<and>
        (isTagType (tok_type t) \<longrightarrow> am_getName a = Some (Some (tok_data t)) \<and> am_getSelfClosing a = Some (tok_selfClosing t) \<and>
           distinct (map da_name (am_attributes a)) \<and>
           (\<forall>q. findAttributeInVector (am_attributes a) q =
              map_option domAttribute (List.find (\<lambda>x. qn_matches (nameForAttribute x) q) (tok_attributes t)))) \<and>
        (tok_type t = DOCTYPE \<longrightarrow> am_getName a = Some (Some (tok_data t)) \<and> am_doctype a = tok_doctypeData t \<and> am_doctype a \<noteq> None) \<and>
        (tok_type t = Comment \<longrightarrow> am_comment a = Some (tok_data t)) \<and>
        (tok_type t = Character \<longrightarrow> am_characters a = Some (tok_data t))))"
proof -
  obtain c0 tr0 b d where d: "pump_start c tr = Some (c0, tr0)" "nextToken E addr c0 = Some (b, d)" "ret_inv E b d" "ranges (Ret b d)"
    using tracked_call[OF assms(1) tracked_reachable[OF assms]] by blast
  let ?t = "run_token (fst (pump_end d tr0))"
  obtain n where t: "?t = tok_end n (run_token d)" by (simp add: pump_end_def tracker_end_def)
  have "b \<Longrightarrow> wf_token ?t" "b \<Longrightarrow> tok_type ?t \<noteq> Uninitialized" "b \<Longrightarrow> isTagType (tok_type ?t) \<longrightarrow> list_all ranges_set (tok_attributes ?t)"
    using d(3,4) by (auto simp: t ret_inv_def)
  note contents = atomic_token_contents[OF this]
  show ?thesis unfolding Let_def
    using d(1,2) contents \<open>b \<Longrightarrow> tok_type ?t \<noteq> Uninitialized\<close> by blast
qed

theorem atomic_token_faithful_witness:
  "\<exists>c0 tr0 d a t'. sample_session = Some (c0, tr0) \<and> nextToken Tokenizer_Session.sample_env 7 c0 = Some (True, d) \<and>
     makeAtomicHTMLToken (run_token (fst (pump_end d tr0))) = Some (a, t') \<and> am_getName a = Some (Some (lit ''a'')) \<and>
     map_option da_value (findAttributeInVector (am_attributes a) (attrName ''y'')) = Some (Some (lit ''p''))"
proof -
  obtain s where s: "makeSegmentedString (UTF16 (lit ''<a y=p y=q>'')) = Some s" using makeSegmentedString_inv[of "UTF16 (lit ''<a y=p y=q>'')"] by auto
  have nn: "no_nul_reference (characters (UTF16 (lit ''<a y=p y=q>'')))"
    by (simp add: no_nul_reference_def lit_def numeric_spec_def isASCIIDigit_def)
  have sess: "sample_session = pump_start (start_conf Tokenizer_Session.sample_options s) newHTMLSourceTracker" by (simp add: sample_session_def s)
  obtain c0 tr0 d where d: "sample_session = Some (c0, tr0)" "nextToken Tokenizer_Session.sample_env 7 c0 = Some (True, d)" "tok_type (run_token d) = StartTag"
    "tok_data (run_token d) = lit ''a''" "map (\<lambda>x. (attr_name x, attr_value x)) (tok_attributes (run_token d)) = [(lit ''y'', lit ''p''), (lit ''y'', lit ''q'')]"
    using sample_session_token by (auto split: option.splits)
  have ps: "pump_start (start_conf Tokenizer_Session.sample_options s) newHTMLSourceTracker = Some (c0, tr0)" using sess d(1) by simp
  let ?t = "run_token (fst (pump_end d tr0))"
  have t: "tok_type ?t = StartTag" "tok_data ?t = lit ''a''" "tok_attributes ?t = tok_attributes (run_token d)"
    using d(3,4) by (simp_all add: pump_end_def tracker_end_def tok_end_def)
  obtain x y where x: "tok_attributes (run_token d) = [x, y]" "attr_name x = lit ''y''" "attr_value x = lit ''p''" using d(5) by auto
  from atomic_token_faithful[OF sample_env_ok s nn rtranclp.rtrancl_refl, of Tokenizer_Session.sample_options 7] ps d(2) t(1)
  obtain a t' where a: "makeAtomicHTMLToken ?t = Some (a, t')" "am_getName a = Some (Some (tok_data ?t))"
    "\<And>q. findAttributeInVector (am_attributes a) q = map_option domAttribute (List.find (\<lambda>x. qn_matches (nameForAttribute x) q) (tok_attributes ?t))"
    by (auto simp: Let_def)
  have "findAttributeInVector (am_attributes a) (attrName ''y'') = Some (domAttribute x)"
    using a(3)[of "attrName ''y''"] x by (simp add: t(3) nameForAttribute_def attrName_def qn_matches_def)
  then have "map_option da_value (findAttributeInVector (am_attributes a) (attrName ''y'')) = Some (Some (lit ''p''))" using x(3) by (simp add: domAttribute_def)
  with d(1,2) a(1,2) t(2) show ?thesis by metis
qed

end
